(* ===== verification/Fsd_Base.thy ===== *)
theory Fsd_Base
  imports Main "HOL-Library.Word"
begin

text \<open>
  Shared material of the development: the byte and word types, the error codes of
  \<^verbatim>\<open>include/fsdiff/error.h\<close>, the state-and-error actions in which the C functions that
  return an \<^verbatim>\<open>fsd_error_t\<close> and change state are written, byte ranges of images, the
  little-endian integer codecs, and the generic lemmas the component theories use.
\<close>

unbundle bit_operations_syntax

named_theorems fsd_defs \<open>definitions of small helpers, unfolded by the component proofs\<close>
named_theorems u64_simps \<open>wrap-around that does not happen under a bound\<close>

type_synonym byte = "8 word"
type_synonym bytes = "8 word list"

section \<open>Error codes\<close>

text \<open>
  The codes of \<^verbatim>\<open>fsd_error_t\<close>, plus \<^verbatim>\<open>UB_FAULT\<close>, which is no code of the program: the
  model returns it where the C code would read or write outside an object. The safety
  theorems state that it is never returned.
\<close>

datatype fsd_error =
    FSD_SUCCESS | FSD_ERR_INVALID_ARG | FSD_ERR_OUT_OF_MEMORY | FSD_ERR_IO
  | FSD_ERR_CORRUPT_DATA | FSD_ERR_BAD_MAGIC | FSD_ERR_BAD_VERSION | FSD_ERR_BAD_BLOCK_SIZE
  | FSD_ERR_SIZE_MISMATCH | FSD_ERR_NOT_INITIALIZED | FSD_ERR_CANCELLED
  | FSD_ERR_FILE_NOT_FOUND | FSD_ERR_PERMISSION | FSD_ERR_MMAP_FAILED | FSD_ERR_TRUNCATED
  | FSD_ERR_BAD_OPERATION | UB_FAULT

section \<open>Actions: functions that return an error code and change a state\<close>

type_synonym 's action = "'s \<Rightarrow> fsd_error \<times> 's"

definition seqE :: "'s action \<Rightarrow> 's action \<Rightarrow> 's action" where
  "seqE f g s = (case f s of (e, s') \<Rightarrow> if e = FSD_SUCCESS then g s' else (e, s'))"

fun for_loop :: "nat \<Rightarrow> nat \<Rightarrow> (nat \<Rightarrow> 's action) \<Rightarrow> 's action" where
  "for_loop i 0 body s = (FSD_SUCCESS, s)"
| "for_loop i (Suc n) body s = seqE (body i) (for_loop (Suc i) n body) s"

lemma seqE_Success [simp]: "f s = (FSD_SUCCESS, s') \<Longrightarrow> seqE f g s = g s'"
  by (simp add: seqE_def)

lemma seqE_Error [simp]: "f s = (e, s') \<Longrightarrow> e \<noteq> FSD_SUCCESS \<Longrightarrow> seqE f g s = (e, s')"
  by (simp add: seqE_def)

text \<open>An invariant of the body is an invariant of the loop, whatever it returns.\<close>

lemma for_loop_invariant:
  assumes "P s" and "\<And>j t. i \<le> j \<Longrightarrow> j < i + n \<Longrightarrow> P t \<Longrightarrow> P (snd (body j t))"
  shows "P (snd (for_loop i n body s))"
  using assms
proof (induction n arbitrary: i s)
  case 0
  then show ?case by simp
next
  case (Suc n)
  obtain e s' where eq: "body i s = (e, s')" by fastforce
  have "P s'" using Suc.prems(2)[of i s] Suc.prems(1) eq by simp
  then have "P (snd (for_loop (Suc i) n body s'))"
    by (rule Suc.IH) (use Suc.prems(2) in auto)
  with eq \<open>P s'\<close> show ?case by (cases "e = FSD_SUCCESS") simp_all
qed

text \<open>The error of a loop is the error of one of its iterations.\<close>

lemma for_loop_error:
  assumes "P s" and "\<And>j t. i \<le> j \<Longrightarrow> j < i + n \<Longrightarrow> P t \<Longrightarrow> P (snd (body j t)) \<and> fst (body j t) \<in> E"
    and "FSD_SUCCESS \<in> E"
  shows "fst (for_loop i n body s) \<in> E"
  using assms
proof (induction n arbitrary: i s)
  case 0
  then show ?case by simp
next
  case (Suc n)
  obtain e s' where eq: "body i s = (e, s')" by fastforce
  have "P s'" "e \<in> E" using Suc.prems(2)[of i s] Suc.prems(1) eq by simp_all
  have "fst (for_loop (Suc i) n body s') \<in> E"
    by (rule Suc.IH[OF \<open>P s'\<close>]) (use Suc.prems in auto)
  with eq \<open>e \<in> E\<close> show ?case by (cases "e = FSD_SUCCESS") simp_all
qed

text \<open>
  The rule for a loop with an invariant \<^verbatim>\<open>P\<close> indexed by the iteration and an error
  postcondition \<^verbatim>\<open>Q\<close>.
\<close>

lemma for_loop_rule:
  assumes "P i s" and "for_loop i n body s = (e, s')"
    and "\<And>j t e t'. i \<le> j \<Longrightarrow> j < i + n \<Longrightarrow> P j t \<Longrightarrow> body j t = (e, t') \<Longrightarrow>
      (e = FSD_SUCCESS \<longrightarrow> P (Suc j) t') \<and> (e \<noteq> FSD_SUCCESS \<longrightarrow> Q e t')"
  shows "(e = FSD_SUCCESS \<longrightarrow> P (i + n) s') \<and> (e \<noteq> FSD_SUCCESS \<longrightarrow> Q e s')"
  using assms
proof (induction n arbitrary: i s)
  case 0
  then show ?case by simp
next
  case (Suc n)
  obtain e1 s1 where eq: "body i s = (e1, s1)" by fastforce
  note step = Suc.prems(3)[OF order_refl _ Suc.prems(1) eq]
  show ?case
  proof (cases "e1 = FSD_SUCCESS")
    case True
    have "for_loop (Suc i) n body s1 = (e, s')" using Suc.prems(2) eq True by simp
    moreover have "P (Suc i) s1" using step True by simp
    ultimately have "(e = FSD_SUCCESS \<longrightarrow> P (Suc i + n) s') \<and> (e \<noteq> FSD_SUCCESS \<longrightarrow> Q e s')"
    proof (intro Suc.IH, goal_cases)
      case (3 j t e t')
      then show ?case using Suc.prems(3)[of j t e t'] by simp
    qed auto
    then show ?thesis by simp
  next
    case False
    with Suc.prems(2) eq have "e = e1" "s' = s1" by auto
    with step False show ?thesis by simp
  qed
qed

text \<open>A loop whose every iteration succeeds runs through a sequence of states.\<close>

lemma for_loop_split: "for_loop i (m + n) body s = seqE (for_loop i m body) (for_loop (i + m) n body) s"
  by (induction m arbitrary: i s) (auto simp: seqE_def split: prod.split)

lemma for_loop_Success:
  assumes "\<And>j. i \<le> j \<Longrightarrow> j < i + n \<Longrightarrow> body j (st j) = (FSD_SUCCESS, st (Suc j))"
  shows "for_loop i n body (st i) = (FSD_SUCCESS, st (i + n))"
  using assms
proof (induction n arbitrary: i)
  case 0
  then show ?case by simp
next
  case (Suc n)
  have "body i (st i) = (FSD_SUCCESS, st (Suc i))" using Suc.prems by simp
  moreover have "for_loop (Suc i) n body (st (Suc i)) = (FSD_SUCCESS, st (Suc i + n))"
    by (rule Suc.IH) (use Suc.prems in auto)
  ultimately show ?case by simp
qed

text \<open>A loop whose body always succeeds is a fold.\<close>

lemma fold_for_loop:
  assumes "\<And>j t. i \<le> j \<Longrightarrow> j < i + n \<Longrightarrow> body j t = (FSD_SUCCESS, f j t)"
  shows "for_loop i n body t = (FSD_SUCCESS, fold f [i..<i + n] t)"
  using assms
proof (induction n arbitrary: i t)
  case (Suc n)
  have "body i t = (FSD_SUCCESS, f i t)" using Suc.prems by simp
  moreover have "for_loop (Suc i) n body (f i t) = (FSD_SUCCESS, fold f [Suc i..<Suc i + n] (f i t))"
    by (rule Suc.IH) (use Suc.prems in auto)
  ultimately show ?case by (simp add: upt_conv_Cons del: upt_Suc)
qed simp

section \<open>Unsigned 64-bit arithmetic on natural numbers\<close>

text \<open>
  Sizes and block numbers are natural numbers; \<^verbatim>\<open>u64\<close> and \<^verbatim>\<open>u32\<close> write out the
  wrap-around of \<^verbatim>\<open>uint64_t\<close>/\<^verbatim>\<open>size_t\<close> and \<^verbatim>\<open>uint32_t\<close> results.
\<close>

definition u64 :: "nat \<Rightarrow> nat" where "u64 n = n mod 2 ^ 64"
definition u32 :: "nat \<Rightarrow> nat" where "u32 n = n mod 2 ^ 32"
definition UINT32_MAX :: nat where "UINT32_MAX = 2 ^ 32 - 1"
definition UINT64_MAX :: nat where "UINT64_MAX = 2 ^ 64 - 1"
definition INT64_MAX :: nat where "INT64_MAX = 2 ^ 63 - 1"

lemma u64_id [u64_simps]: "n < 2 ^ 64 \<Longrightarrow> u64 n = n" by (simp add: u64_def)
lemma u32_id [u64_simps]: "n < 2 ^ 32 \<Longrightarrow> u32 n = n" by (simp add: u32_def)
lemma u64_less: "u64 n < 2 ^ 64" by (simp add: u64_def)

section \<open>Signed 64-bit values\<close>

definition s64 :: "int \<Rightarrow> int" where
  "s64 x = (x + 2 ^ 63) mod 2 ^ 64 - 2 ^ 63"

lemma s64_id [u64_simps]: "- (2 ^ 63) \<le> x \<Longrightarrow> x < 2 ^ 63 \<Longrightarrow> s64 x = x"
  by (simp add: s64_def)

section \<open>Byte ranges\<close>

definition bytes_at :: "nat \<Rightarrow> nat \<Rightarrow> 'a list \<Rightarrow> 'a list" where
  "bytes_at off len xs = take len (drop off xs)"

lemma length_bytes_at [simp]: "length (bytes_at off len xs) = min len (length xs - off)"
  by (simp add: bytes_at_def)

lemma bytes_at_whole [simp]: "length xs = n \<Longrightarrow> bytes_at 0 n xs = xs"
  by (simp add: bytes_at_def)

lemma bytes_at_empty [simp]: "bytes_at off 0 xs = []"
  by (simp add: bytes_at_def)

lemma nth_bytes_at: "k < len \<Longrightarrow> off + k < length xs \<Longrightarrow> bytes_at off len xs ! k = xs ! (off + k)"
  by (simp add: bytes_at_def)

lemma bytes_at_append:
  "bytes_at off m xs @ bytes_at (off + m) n xs = bytes_at off (m + n) xs"
  by (simp add: bytes_at_def take_add add.commute)

lemma bytes_at_add: "bytes_at off (m + n) xs = bytes_at off m xs @ bytes_at (off + m) n xs"
  by (rule bytes_at_append [symmetric])

section \<open>Little-endian integers\<close>

lemma and_0xFF: "(v :: 'a::len word) AND 0xFF = take_bit 8 v"
  by (simp add: take_bit_eq_mask mask_eq_exp_minus_1)

lemma ucast_and_0xFF [simp]: "(ucast ((v :: 'a::len word) AND 0xFF) :: 8 word) = ucast v"
  unfolding and_0xFF
  by (rule bit_word_eqI) (auto simp: bit_ucast_iff bit_take_bit_iff dest: bit_imp_le_length)

text \<open>One byte lane of a word written little-endian and read back.\<close>

lemma bit_le_lane:
  fixes v :: "'a::len word"
  assumes "n < LENGTH('a)"
  shows "bit (push_bit k (ucast (ucast (drop_bit k v) :: 8 word) :: 'a word)) n
    \<longleftrightarrow> k \<le> n \<and> n < k + 8 \<and> bit v n"
  using assms by (auto simp: bit_push_bit_iff bit_ucast_iff bit_drop_bit_eq)

lemma bit_le_lane0:
  fixes v :: "'a::len word"
  assumes "n < LENGTH('a)"
  shows "bit (ucast (ucast v :: 8 word) :: 'a word) n \<longleftrightarrow> n < 8 \<and> bit v n"
  using assms by (auto simp: bit_ucast_iff)

lemmas bit_lanes = bit_or_iff bit_le_lane bit_le_lane0

definition le_u16 :: "bytes \<Rightarrow> 32 word" where
  "le_u16 p = ucast (p ! 0) OR push_bit 8 (ucast (p ! 1))"

definition le_u32 :: "bytes \<Rightarrow> 32 word" where
  "le_u32 p = ucast (p ! 0) OR push_bit 8 (ucast (p ! 1)) OR push_bit 16 (ucast (p ! 2)) OR
     push_bit 24 (ucast (p ! 3))"

definition u16_le :: "16 word \<Rightarrow> bytes" where
  "u16_le v = [ucast (v AND 0xFF), ucast (drop_bit 8 v AND 0xFF)]"

definition u32_le :: "32 word \<Rightarrow> bytes" where
  "u32_le v = [ucast (v AND 0xFF), ucast (drop_bit 8 v AND 0xFF),
     ucast (drop_bit 16 v AND 0xFF), ucast (drop_bit 24 v AND 0xFF)]"

definition u64_le :: "64 word \<Rightarrow> bytes" where
  "u64_le v = [ucast (v AND 0xFF), ucast (drop_bit 8 v AND 0xFF),
     ucast (drop_bit 16 v AND 0xFF), ucast (drop_bit 24 v AND 0xFF),
     ucast (drop_bit 32 v AND 0xFF), ucast (drop_bit 40 v AND 0xFF),
     ucast (drop_bit 48 v AND 0xFF), ucast (drop_bit 56 v AND 0xFF)]"

lemma length_le [simp]: "length (u16_le v) = 2" "length (u32_le x) = 4" "length (u64_le y) = 8"
  by (simp_all add: u16_le_def u32_le_def u64_le_def)

lemma le_u16_u16_le [simp]: "le_u16 (u16_le v @ rest) = ucast v"
proof (rule bit_word_eqI)
  fix n assume "n < LENGTH(32)"
  then show "bit (le_u16 (u16_le v @ rest)) n = bit (ucast v :: 32 word) n"
    by (auto simp: le_u16_def u16_le_def bit_or_iff bit_push_bit_iff bit_ucast_iff bit_drop_bit_eq
        dest: bit_imp_le_length)
qed

lemma le_u32_u32_le [simp]: "le_u32 (u32_le v @ rest) = v"
proof (rule bit_word_eqI)
  fix n assume "n < LENGTH(32)"
  then show "bit (le_u32 (u32_le v @ rest)) n = bit v n"
    by (simp add: le_u32_def u32_le_def bit_lanes) linarith
qed

text \<open>The unsigned value of a natural number cast to a word that holds it.\<close>

lemma unat_of_nat_less [simp]:
  "n < 2 ^ LENGTH('a) \<Longrightarrow> unat (word_of_nat n :: 'a::len word) = n"
  by (simp add: unat_of_nat take_bit_nat_eq_self_iff)

end
