(* ===== verification/Getopt.thy ===== *)
theory Getopt
  imports Fsd_Base
begin

text \<open>
  The option parser of \<^verbatim>\<open>src/getopt_compat.h\<close>, which the command-line tool uses where the system has no
  \<^verbatim>\<open>getopt_long\<close>. Its static variables are a record; an argument is a string without its terminating null byte,
  and a read past the terminator is a value of the model.
\<close>

definition no_argument :: nat where "no_argument = 0"
definition required_argument :: nat where "required_argument = 1"

record long_option =
  lo_name :: string
  lo_has_arg :: nat
  lo_val :: char

record getopt_state =
  optarg :: "string option"
  optind :: nat
  sp :: nat

definition getopt_start :: getopt_state where
  "getopt_start = \<lparr>optarg = None, optind = 1, sp = 1\<rparr>"

text \<open>The value of a call: an option character (\<^verbatim>\<open>'?'\<close> for an error), the end (\<^verbatim>\<open>-1\<close>), or a read out of bounds.\<close>

datatype getopt_reply = Opt char | End_of_options | Out_of_bounds

text \<open>The long options: \<^verbatim>\<open>name\<close> is what follows the two dashes.\<close>

definition long_matches :: "string \<Rightarrow> long_option \<Rightarrow> bool" where
  "long_matches name opt =
     (let cmp_len = length (takeWhile (\<lambda>c. c \<noteq> CHR ''='') name)
      in take cmp_len name = take cmp_len (lo_name opt) \<and> length (lo_name opt) = cmp_len)"

definition long_argument :: "string \<Rightarrow> string option" where
  "long_argument name =
     (case dropWhile (\<lambda>c. c \<noteq> CHR ''='') name of [] \<Rightarrow> None | _ # v \<Rightarrow> Some v)"

definition getopt_long_name :: "string list \<Rightarrow> long_option list \<Rightarrow> getopt_state \<Rightarrow> getopt_reply \<times> getopt_state" where
  "getopt_long_name argv longopts st =
     (let name = drop 2 (argv ! optind st) in
      case find (long_matches name) longopts of
        None \<Rightarrow> (Opt (CHR ''?''), st\<lparr>optind := optind st + 1\<rparr>)
      | Some opt \<Rightarrow>
          (let st = st\<lparr>optind := optind st + 1\<rparr> in
           if lo_has_arg opt = required_argument
           then (case long_argument name of
                   Some v \<Rightarrow> (Opt (lo_val opt), st\<lparr>optarg := Some v\<rparr>)
                 | None \<Rightarrow>
                     if optind st < length argv
                     then (Opt (lo_val opt), st\<lparr>optarg := Some (argv ! optind st), optind := optind st + 1\<rparr>)
                     else (Opt (CHR ''?''), st))
           else (Opt (lo_val opt), st)))"

text \<open>The position behind the first \<^verbatim>\<open>c\<close> of \<^verbatim>\<open>optstring\<close> has a colon.\<close>

definition takes_argument :: "string \<Rightarrow> char \<Rightarrow> bool" where
  "takes_argument optstring c = (case dropWhile (\<lambda>x. x \<noteq> c) optstring of _ # CHR '':'' # _ \<Rightarrow> True | _ \<Rightarrow> False)"

text \<open>
  One short option of the cluster at \<^verbatim>\<open>argv[optind]\<close>. The tests of the next character for the terminator are
  tests of the position.
\<close>

definition getopt_short :: "string list \<Rightarrow> string \<Rightarrow> getopt_state \<Rightarrow> getopt_reply \<times> getopt_state" where
  "getopt_short argv optstring st =
     (if length argv \<le> optind st \<or> length (argv ! optind st) \<le> sp st then (Out_of_bounds, st)
      else
        let arg = argv ! optind st; c = arg ! sp st in
        if c = CHR '':'' \<or> c \<notin> set optstring
        then (Opt (CHR ''?''),
              if sp st + 1 = length arg then st\<lparr>optind := optind st + 1, sp := 1\<rparr> else st\<lparr>sp := sp st + 1\<rparr>)
        else if takes_argument optstring c
        then (if sp st + 1 \<noteq> length arg
              then (Opt c, st\<lparr>optarg := Some (drop (sp st + 1) arg), optind := optind st + 1, sp := 1\<rparr>)
              else if length argv \<le> optind st + 1 then (Opt (CHR ''?''), st\<lparr>optind := optind st + 1, sp := 1\<rparr>)
              else (Opt c, st\<lparr>optarg := Some (argv ! (optind st + 1)), optind := optind st + 2, sp := 1\<rparr>))
        else (Opt c,
              (if sp st + 1 = length arg then st\<lparr>optind := optind st + 1, sp := 1\<rparr> else st\<lparr>sp := sp st + 1\<rparr>)\<lparr>optarg := None\<rparr>))"

definition getopt_long ::
  "string list \<Rightarrow> string \<Rightarrow> long_option list \<Rightarrow> getopt_state \<Rightarrow> getopt_reply \<times> getopt_state" where
  "getopt_long argv optstring longopts st =
     (if sp st = 1
      then
        (if length argv \<le> optind st then (End_of_options, st)
         else
           let arg = argv ! optind st in
           if take 1 arg \<noteq> ''-'' \<or> length arg = 1 then (End_of_options, st)
           else if arg = ''--'' then (End_of_options, st\<lparr>optind := optind st + 1\<rparr>)
           else if arg ! 1 = CHR ''-'' then getopt_long_name argv longopts st
           else getopt_short argv optstring st)
      else getopt_short argv optstring st)"

section \<open>The loop over the options\<close>

text \<open>Every option that is returned moves the parser forward.\<close>

definition go_forward :: "string list \<Rightarrow> getopt_state \<Rightarrow> getopt_state \<Rightarrow> bool" where
  "go_forward argv st st' \<longleftrightarrow> optind st < length argv \<and>
     (optind st < optind st' \<and> sp st' = 1 \<or>
      optind st' = optind st \<and> sp st' = sp st + 1 \<and> sp st' < length (argv ! optind st))"

lemma getopt_forward:
  assumes "getopt_long argv optstring longopts st = (Opt c, st')"
  shows "go_forward argv st st'"
proof -
  have short: "go_forward argv st st'" if "getopt_short argv optstring st = (Opt c, st')" for st'
    using that by (auto simp: getopt_short_def go_forward_def Let_def split: if_splits)
  show ?thesis
  proof (cases "sp st = 1")
    case True
    then show ?thesis
      using assms short
      by (auto simp: getopt_long_def getopt_long_name_def go_forward_def Let_def split: if_splits option.splits)
  qed (use assms short in \<open>simp add: getopt_long_def\<close>)
qed

text \<open>
  The \<^verbatim>\<open>while\<close> loop around \<^verbatim>\<open>getopt_long\<close>: the options with their arguments, and the state in which the loop
  ends; \<^verbatim>\<open>None\<close> for a read out of bounds.
\<close>

function getopt_all ::
  "string list \<Rightarrow> string \<Rightarrow> long_option list \<Rightarrow> getopt_state \<Rightarrow> ((char \<times> string option) list \<times> getopt_state) option" where
  "getopt_all argv optstring longopts st =
     (case getopt_long argv optstring longopts st of
        (Opt c, st') \<Rightarrow>
          map_option (\<lambda>(os, st''). ((c, optarg st') # os, st'')) (getopt_all argv optstring longopts st')
      | (End_of_options, st') \<Rightarrow> Some ([], st')
      | (Out_of_bounds, st') \<Rightarrow> None)"
  by pat_completeness auto
termination
proof (relation "measures [\<lambda>(argv, _, _, st). length argv - optind st, \<lambda>(argv, _, _, st). length (argv ! optind st) - sp st]", goal_cases)
  case (2 argv optstring longopts st r st' c)
  then have "go_forward argv st st'" using getopt_forward by metis
  then show ?case by (auto simp: go_forward_def)
qed simp

declare getopt_all.simps [simp del]

section \<open>Safety\<close>

text \<open>Inside a cluster of short options the position is on a character.\<close>

definition getopt_ok :: "string list \<Rightarrow> getopt_state \<Rightarrow> bool" where
  "getopt_ok argv st \<longleftrightarrow> sp st = 1 \<or> optind st < length argv \<and> sp st < length (argv ! optind st)"

lemma getopt_ok_start: "getopt_ok argv getopt_start"
  by (simp add: getopt_ok_def getopt_start_def)

lemma getopt_ok_step:
  assumes "getopt_ok argv st" and "getopt_long argv optstring longopts st = (r, st')"
  shows "r \<noteq> Out_of_bounds" and "getopt_ok argv st'"
proof -
  have short: "r \<noteq> Out_of_bounds"
    if "getopt_short argv optstring st = (r, st')" "optind st < length argv" "sp st < length (argv ! optind st)"
    using that by (auto simp: getopt_short_def Let_def split: if_splits)
  show safe: "r \<noteq> Out_of_bounds"
  proof (cases "sp st = 1")
    case True
    have "1 < length arg" if "take 1 arg = ''-''" "length arg \<noteq> 1" for arg :: string
      using that by (cases arg) auto
    then show ?thesis
      using assms(2) short True
      by (auto simp: getopt_long_def getopt_long_name_def Let_def split: if_splits option.splits)
  next
    case False
    then show ?thesis using assms short by (simp add: getopt_long_def getopt_ok_def)
  qed
  show "getopt_ok argv st'"
  proof (cases r)
    case (Opt c)
    then show ?thesis using getopt_forward[of argv optstring longopts st c st'] assms(2) by (auto simp: go_forward_def getopt_ok_def)
  next
    case End_of_options
    then show ?thesis using assms
      by (auto simp: getopt_long_def getopt_long_name_def getopt_short_def getopt_ok_def Let_def split: if_splits option.splits)
  qed (use safe in simp)
qed

text \<open>Which options carry an argument, and option tables in which the short and the long form agree on it.\<close>

definition needs_argument :: "string \<Rightarrow> long_option list \<Rightarrow> char \<Rightarrow> bool" where
  "needs_argument optstring longopts c \<longleftrightarrow>
     c \<in> set optstring \<and> takes_argument optstring c \<or> (\<exists>p \<in> set longopts. lo_val p = c \<and> lo_has_arg p = required_argument)"

definition tables_agree :: "string \<Rightarrow> long_option list \<Rightarrow> bool" where
  "tables_agree optstring longopts \<longleftrightarrow> \<not> needs_argument optstring longopts (CHR ''?'') \<and>
     list_all (\<lambda>p. needs_argument optstring longopts (lo_val p) \<longrightarrow> lo_has_arg p = required_argument) longopts \<and>
     list_all (\<lambda>c. c \<noteq> CHR '':'' \<and> needs_argument optstring longopts c \<longrightarrow> takes_argument optstring c) optstring"

lemma getopt_argument_present:
  assumes agree: "tables_agree optstring longopts" and "getopt_long argv optstring longopts st = (Opt c, st')"
    and need: "needs_argument optstring longopts c"
  shows "optarg st' \<noteq> None"
proof -
  have q: "c \<noteq> CHR ''?''" using agree need by (auto simp: tables_agree_def)
  have long: "lo_has_arg p = required_argument" if "p \<in> set longopts" "lo_val p = c" for p
    using agree need that by (auto simp: tables_agree_def list_all_iff)
  have short: "takes_argument optstring c" if "c \<in> set optstring" "c \<noteq> CHR '':''"
    using agree need that by (auto simp: tables_agree_def list_all_iff)
  have "find f xs = Some p \<Longrightarrow> p \<in> set xs" for f p and xs :: "long_option list" by (auto simp: find_Some_iff)
  then show ?thesis
    using assms(2) q long short
    by (fastforce simp: getopt_long_def getopt_long_name_def getopt_short_def Let_def split: if_splits option.splits)
qed

lemma getopt_all_ok:
  assumes "getopt_ok argv st" and "tables_agree optstring longopts"
  shows "\<exists>os st'. getopt_all argv optstring longopts st = Some (os, st') \<and>
    (\<forall>c a. (c, a) \<in> set os \<longrightarrow> needs_argument optstring longopts c \<longrightarrow> a \<noteq> None)"
  using assms
proof (induction argv optstring longopts st rule: getopt_all.induct)
  case (1 argv optstring longopts st)
  obtain r st' where g: "getopt_long argv optstring longopts st = (r, st')" by fastforce
  note G = getopt_ok_step[OF "1.prems"(1) g]
  show ?case
  proof (cases r)
    case (Opt c)
    note IH = "1.IH"[OF g[symmetric] Opt G(2) "1.prems"(2)]
    then show ?thesis
      using g Opt getopt_argument_present[OF "1.prems"(2) g[unfolded Opt]]
      by (subst getopt_all.simps) fastforce
  next
    case End_of_options
    then show ?thesis using g by (subst getopt_all.simps) simp
  qed (use G in simp)
qed

section \<open>The interface: an option parser\<close>

text \<open>
  What the command-line tool relies on, whether \<^verbatim>\<open>getopt_long\<close> is the one above or the system's: the loop over the
  options ends, and an option that needs an argument comes with one. The parser returns the options, the
  final \<^verbatim>\<open>optind\<close> and the arguments, which the system's version may have permuted.
\<close>

type_synonym getopt_fn = "string list \<Rightarrow> string \<Rightarrow> long_option list \<Rightarrow> ((char \<times> string option) list \<times> nat \<times> string list) option"

locale option_parser =
  fixes getopt :: getopt_fn
  assumes parses: "tables_agree optstring longopts \<Longrightarrow>
    \<exists>evs k av. getopt argv optstring longopts = Some (evs, k, av) \<and> length av = length argv \<and>
      (\<forall>c a. (c, a) \<in> set evs \<longrightarrow> needs_argument optstring longopts c \<longrightarrow> a \<noteq> None)"

definition compat_getopt :: getopt_fn where
  "compat_getopt argv optstring longopts =
     map_option (\<lambda>(evs, st). (evs, optind st, argv)) (getopt_all argv optstring longopts getopt_start)"

interpretation compat: option_parser compat_getopt
proof
  fix optstring longopts argv
  assume "tables_agree optstring longopts"
  from getopt_all_ok[OF getopt_ok_start this] obtain evs st where g: "getopt_all argv optstring longopts getopt_start = Some (evs, st)"
    "\<forall>c a. (c, a) \<in> set evs \<longrightarrow> needs_argument optstring longopts c \<longrightarrow> a \<noteq> None" by blast
  then show "\<exists>evs k av. compat_getopt argv optstring longopts = Some (evs, k, av) \<and> length av = length argv \<and>
      (\<forall>c a. (c, a) \<in> set evs \<longrightarrow> needs_argument optstring longopts c \<longrightarrow> a \<noteq> None)"
    by (intro exI[of _ evs] exI[of _ "optind st"] exI[of _ argv]) (simp add: compat_getopt_def)
qed

end
