(* ===== verification/Block_Tracker.thy ===== *)
theory Block_Tracker
  imports Fsd_Base
begin

text \<open>
  The destination-block tracker of \<^verbatim>\<open>src/core/block_tracker.c\<close>: one state per destination
  block, a bitmap of the unmatched blocks in 64-bit words, and the match counters. The
  invariant ties the bitmap, the match types and the counters together; every operation keeps it.
\<close>

datatype fsd_match_type =
    FSD_MATCH_NONE | FSD_MATCH_IDENTITY | FSD_MATCH_RELOCATE | FSD_MATCH_PARTIAL
  | FSD_MATCH_ZERO | FSD_MATCH_ONE

record block_state =
  b_dest_index :: nat
  b_src_index :: nat
  b_byte_offset :: int
  b_crc32 :: "32 word"
  b_match_type :: fsd_match_type
  b_delta :: "bytes option"
  b_delta_size :: nat

record block_tracker =
  t_blocks :: "block_state list"
  t_count :: nat
  t_block_size :: nat
  t_unmatched_bitmap :: "64 word list"
  t_bitmap_words :: nat
  t_identity_count :: nat
  t_relocate_count :: nat
  t_partial_count :: nat
  t_zero_count :: nat
  t_one_count :: nat
  t_literal_count :: nat

section \<open>Bitmap operations\<close>

definition bitmap_set :: "64 word list \<Rightarrow> nat \<Rightarrow> 64 word list" where
  "bitmap_set bm i = bm[i div 64 := bm ! (i div 64) OR push_bit (i mod 64) 1]"

definition bitmap_clear :: "64 word list \<Rightarrow> nat \<Rightarrow> 64 word list" where
  "bitmap_clear bm i = bm[i div 64 := bm ! (i div 64) AND NOT (push_bit (i mod 64) 1)]"

definition bitmap_test :: "64 word list \<Rightarrow> nat \<Rightarrow> bool" where
  "bitmap_test bm i \<longleftrightarrow> bm ! (i div 64) AND push_bit (i mod 64) 1 \<noteq> 0"

section \<open>Tracker operations\<close>

definition sizeof_block_tracker :: nat where "sizeof_block_tracker = 88"
definition sizeof_block_state :: nat where "sizeof_block_state = 48"

definition fresh_block :: "nat \<Rightarrow> block_state" where
  "fresh_block i = \<lparr>b_dest_index = i, b_src_index = 0, b_byte_offset = 0, b_crc32 = 0,
     b_match_type = FSD_MATCH_NONE, b_delta = None, b_delta_size = 0\<rparr>"

definition fsd_block_tracker_create ::
  "(nat \<Rightarrow> bool) \<Rightarrow> nat \<Rightarrow> nat \<Rightarrow> fsd_error + block_tracker" where
  "fsd_block_tracker_create malloc_ok dest_blocks block_size =
     (if dest_blocks = 0 \<or> block_size = 0 then Inl FSD_ERR_INVALID_ARG
      else if \<not> malloc_ok sizeof_block_tracker then Inl FSD_ERR_OUT_OF_MEMORY
      else if \<not> malloc_ok (dest_blocks * sizeof_block_state) then Inl FSD_ERR_OUT_OF_MEMORY
      else
        let bitmap_words = u64 (dest_blocks + 63) div 64 in
        if \<not> malloc_ok (bitmap_words * 8) then Inl FSD_ERR_OUT_OF_MEMORY
        else Inr \<lparr>t_blocks = map fresh_block [0..<dest_blocks], t_count = dest_blocks,
                  t_block_size = block_size,
                  t_unmatched_bitmap = fold (\<lambda>i bm. bitmap_set bm i) [0..<dest_blocks]
                    (replicate bitmap_words 0),
                  t_bitmap_words = bitmap_words, t_identity_count = 0, t_relocate_count = 0,
                  t_partial_count = 0, t_zero_count = 0, t_one_count = 0, t_literal_count = 0\<rparr>)"

definition count_match :: "fsd_match_type \<Rightarrow> block_tracker \<Rightarrow> block_tracker" where
  "count_match m t =
     (case m of
        FSD_MATCH_IDENTITY \<Rightarrow> t\<lparr>t_identity_count := t_identity_count t + 1\<rparr>
      | FSD_MATCH_RELOCATE \<Rightarrow> t\<lparr>t_relocate_count := t_relocate_count t + 1\<rparr>
      | FSD_MATCH_PARTIAL \<Rightarrow> t\<lparr>t_partial_count := t_partial_count t + 1\<rparr>
      | FSD_MATCH_ZERO \<Rightarrow> t\<lparr>t_zero_count := t_zero_count t + 1\<rparr>
      | FSD_MATCH_ONE \<Rightarrow> t\<lparr>t_one_count := t_one_count t + 1\<rparr>
      | _ \<Rightarrow> t)"

definition fsd_block_tracker_set_match ::
  "nat \<Rightarrow> fsd_match_type \<Rightarrow> nat \<Rightarrow> block_tracker \<Rightarrow> block_tracker" where
  "fsd_block_tracker_set_match dest_index match_type src_index t =
     (if t_count t \<le> dest_index then t
      else if b_match_type (t_blocks t ! dest_index) \<noteq> FSD_MATCH_NONE then t
      else count_match match_type
        (t\<lparr>t_blocks := (t_blocks t)[dest_index :=
             (t_blocks t ! dest_index)\<lparr>b_match_type := match_type, b_src_index := src_index\<rparr>],
           t_unmatched_bitmap := bitmap_clear (t_unmatched_bitmap t) dest_index\<rparr>))"

definition fsd_block_tracker_set_crc32 ::
  "nat \<Rightarrow> 32 word \<Rightarrow> block_tracker \<Rightarrow> block_tracker" where
  "fsd_block_tracker_set_crc32 dest_index crc t =
     (if t_count t \<le> dest_index then t
      else t\<lparr>t_blocks := (t_blocks t)[dest_index := (t_blocks t ! dest_index)\<lparr>b_crc32 := crc\<rparr>]\<rparr>)"

definition fsd_block_tracker_set_delta ::
  "nat \<Rightarrow> int \<Rightarrow> bytes \<Rightarrow> nat \<Rightarrow> block_tracker \<Rightarrow> block_tracker" where
  "fsd_block_tracker_set_delta dest_index byte_offset delta delta_size t =
     (if t_count t \<le> dest_index then t
      else t\<lparr>t_blocks := (t_blocks t)[dest_index :=
        (t_blocks t ! dest_index)\<lparr>b_byte_offset := byte_offset, b_delta := Some delta,
           b_delta_size := delta_size\<rparr>]\<rparr>)"

definition fsd_block_tracker_is_unmatched :: "block_tracker \<Rightarrow> nat \<Rightarrow> bool" where
  "fsd_block_tracker_is_unmatched t i \<longleftrightarrow>
     (if t_count t \<le> i then False else bitmap_test (t_unmatched_bitmap t) i)"

definition fsd_block_tracker_get :: "block_tracker \<Rightarrow> nat \<Rightarrow> block_state option" where
  "fsd_block_tracker_get t i = (if t_count t \<le> i then None else Some (t_blocks t ! i))"

text \<open>Kernighan's loop: clear the lowest set bit until the word is zero.\<close>

function word_popcount :: "64 word \<Rightarrow> nat \<Rightarrow> nat" where
  "word_popcount word count =
     (if word = 0 then count else word_popcount (word AND (word - 1)) (count + 1))"
  by pat_completeness auto
termination
proof (relation "measure (\<lambda>(w, c). unat w)")
  fix w :: "64 word" and c :: nat
  assume "w \<noteq> 0"
  have "w AND (w - 1) \<le> w - 1" by (rule word_and_le1)
  also have "w - 1 < w" using \<open>w \<noteq> 0\<close> by (simp add: word_less_nat_alt unat_minus_one unat_gt_0)
  finally show "((w AND (w - 1), c + 1), w, c) \<in> measure (\<lambda>(w, c). unat w)"
    by (simp add: word_less_nat_alt)
qed simp

declare word_popcount.simps [simp del]

definition fsd_block_tracker_unmatched_count :: "block_tracker \<Rightarrow> nat" where
  "fsd_block_tracker_unmatched_count t =
     foldl (\<lambda>count i. word_popcount (t_unmatched_bitmap t ! i) count) 0 [0..<t_bitmap_words t]"

definition fsd_block_tracker_foreach_unmatched ::
  "block_tracker \<Rightarrow> (nat \<Rightarrow> 'u \<Rightarrow> 'u) \<Rightarrow> 'u \<Rightarrow> 'u" where
  "fsd_block_tracker_foreach_unmatched t callback user_data =
     foldl (\<lambda>u i. if bitmap_test (t_unmatched_bitmap t) i then callback i u else u)
       user_data [0..<t_count t]"

definition finalize_block :: "nat \<Rightarrow> block_tracker \<Rightarrow> block_tracker" where
  "finalize_block i t =
     (if bitmap_test (t_unmatched_bitmap t) i
      then t\<lparr>t_literal_count := t_literal_count t + 1,
             t_unmatched_bitmap := bitmap_clear (t_unmatched_bitmap t) i\<rparr>
      else t)"

definition fsd_block_tracker_finalize :: "block_tracker \<Rightarrow> block_tracker" where
  "fsd_block_tracker_finalize t = fold finalize_block [0..<t_count t] t"

section \<open>Bitmap laws\<close>

lemma bitmap_test_bit: "bitmap_test bm i \<longleftrightarrow> bit (bm ! (i div 64)) (i mod 64)"
  by (simp add: bitmap_test_def bit_iff_and_push_bit_not_eq_0)

lemma length_bitmap [simp]:
  "length (bitmap_set bm i) = length bm" "length (bitmap_clear bm i) = length bm"
  by (simp_all add: bitmap_set_def bitmap_clear_def)

lemma div_mod_64_eq: "(i::nat) div 64 = j div 64 \<Longrightarrow> i mod 64 = j mod 64 \<longleftrightarrow> i = j"
  by (metis div_mult_mod_eq)

lemma bitmap_test_set:
  assumes "i div 64 < length bm"
  shows "bitmap_test (bitmap_set bm i) j \<longleftrightarrow> j = i \<or> bitmap_test bm j"
proof (cases "j div 64 = i div 64")
  case True
  have "j mod 64 < 64" by simp
  with True assms show ?thesis
    unfolding bitmap_test_bit bitmap_set_def
    using div_mod_64_eq[OF True]
    by (auto simp: bit_or_iff bit_exp_iff)
next
  case False
  then show ?thesis by (auto simp: bitmap_test_bit bitmap_set_def)
qed

lemma bitmap_test_clear:
  assumes "i div 64 < length bm"
  shows "bitmap_test (bitmap_clear bm i) j \<longleftrightarrow> j \<noteq> i \<and> bitmap_test bm j"
proof (cases "j div 64 = i div 64")
  case True
  have "j mod 64 < 64" by simp
  with True assms show ?thesis
    unfolding bitmap_test_bit bitmap_clear_def
    using div_mod_64_eq[OF True]
    by (auto simp: bit_and_iff bit_not_iff bit_exp_iff)
next
  case False
  then show ?thesis by (auto simp: bitmap_test_bit bitmap_clear_def)
qed

lemma bitmap_test_fold_set:
  assumes "\<forall>i \<in> set is. i div 64 < length bm"
  shows "bitmap_test (fold (\<lambda>i bm. bitmap_set bm i) is bm) j \<longleftrightarrow> j \<in> set is \<or> bitmap_test bm j"
    and "length (fold (\<lambda>i bm. bitmap_set bm i) is bm) = length bm"
  using assms by (induction "is" arbitrary: bm) (auto simp: bitmap_test_set)

section \<open>Kernighan's popcount\<close>

definition set_bits :: "64 word \<Rightarrow> nat set" where
  "set_bits w = {n. bit w n}"

lemma finite_set_bits [simp]: "finite (set_bits w)"
  by (rule finite_subset [of _ "{..<64}"]) (auto simp: set_bits_def dest: bit_imp_le_length)

text \<open>Clearing the lowest set bit of a number removes exactly one bit.\<close>

lemma card_bits_clear_lowest:
  fixes n :: nat
  assumes "0 < n"
  shows "card {i. bit n i} = Suc (card {i. bit (n AND (n - 1)) i}) \<and> finite {i. bit n i}"
  using assms
proof (induction n rule: less_induct)
  case (less n)
  have step: "{i. bit m i} = (if odd m then {0} else {}) \<union> Suc ` {i. bit (m div 2) i}" for m :: nat
    by (auto simp: bit_0 image_iff bit_Suc) (metis bit_0 bit_Suc not0_implies_Suc)+
  have card_Suc: "card (Suc ` A) = card A" for A by (simp add: card_image)
  show ?case
  proof (cases "odd n")
    case True
    have half: "(n AND (n - 1)) = 2 * (n div 2)"
      using True by (subst and_rec) (auto elim!: oddE)
    have fin: "finite {i. bit (n div 2) i}"
    proof (cases "n div 2 = 0")
      case False
      then show ?thesis using less.IH[of "n div 2"] less.prems by auto
    qed simp
    have "{i. bit (2 * (n div 2)) i} = Suc ` {i. bit (n div 2) i}"
      using step[of "2 * (n div 2)"] by (simp only: even_mult_iff dvd_refl simp_thms if_False
          nonzero_mult_div_cancel_left zero_neq_numeral Un_empty_left)
    then show ?thesis
      using True step[of n] fin unfolding half by (simp add: card_insert_if card_Suc image_iff)
  next
    case False
    then have pos: "0 < n div 2" and lt: "n div 2 < n" using less.prems by (auto elim!: evenE)
    have half: "(n AND (n - 1)) = 2 * ((n div 2) AND (n div 2 - 1))"
    proof -
      have "(n - 1) div 2 = n div 2 - 1" using False less.prems by (auto elim!: evenE)
      then show ?thesis using False by (subst and_rec) simp
    qed
    show ?thesis
      using less.IH[OF lt pos] False step[of n] step[of "n AND (n - 1)"] unfolding half
      by (simp add: card_Suc)
  qed
qed

lemma card_set_bits_clear_lowest:
  assumes "w \<noteq> 0"
  shows "card (set_bits w) = Suc (card (set_bits (w AND (w - 1))))"
proof -
  have bits: "set_bits v = {i. bit (unat v) i}" for v
    by (auto simp: set_bits_def bit_unsigned_iff)
  have "unat (w AND (w - 1)) = unat w AND (unat w - 1)"
    using assms by (simp add: unsigned_and_eq unat_minus_one)
  then show ?thesis
    using card_bits_clear_lowest[of "unat w"] assms unfolding bits by (simp add: unat_gt_0)
qed

lemma word_popcount_card: "word_popcount w c = c + card (set_bits w)"
proof (induction w c rule: word_popcount.induct)
  case (1 w c)
  show ?case
  proof (cases "w = 0")
    case True
    then show ?thesis by (subst word_popcount.simps) (simp add: set_bits_def)
  next
    case False
    with 1 card_set_bits_clear_lowest[OF False] show ?thesis
      by (subst word_popcount.simps) simp
  qed
qed

lemma card_bitmap_words:
  "card {i. i < 64 * n \<and> bitmap_test bm i} = (\<Sum>j<n. card (set_bits (bm ! j)))"
proof (induction n)
  case 0
  then show ?case by simp
next
  case (Suc n)
  let ?lane = "(\<lambda>b. 64 * n + b) ` set_bits (bm ! n)"
  have split: "{i. i < 64 * Suc n \<and> bitmap_test bm i} = {i. i < 64 * n \<and> bitmap_test bm i} \<union> ?lane"
  proof (rule set_eqI)
    fix i
    have lane: "i \<in> ?lane \<longleftrightarrow> 64 * n \<le> i \<and> bit (bm ! n) (i - 64 * n)"
      by (auto simp: set_bits_def image_iff intro!: exI[of _ "i - 64 * n"])
    have idx: "i div 64 = n \<and> i mod 64 = i - 64 * n" if "64 * n \<le> i" "i < 64 * Suc n"
    proof -
      have "i div 64 = n" using that by (auto intro: div_nat_eqI)
      then show ?thesis by (metis minus_mult_div_eq_mod)
    qed
    have small: "i < 64 * Suc n" if "64 * n \<le> i" "bit (bm ! n) (i - 64 * n)"
      using bit_imp_le_length[OF that(2)] that(1) by simp
    show "i \<in> {i. i < 64 * Suc n \<and> bitmap_test bm i} \<longleftrightarrow>
        i \<in> {i. i < 64 * n \<and> bitmap_test bm i} \<union> ?lane"
      using lane idx small by (cases "64 * n \<le> i") (auto simp: bitmap_test_bit)
  qed
  have "{i. i < 64 * n \<and> bitmap_test bm i} \<inter> ?lane = {}" by auto
  then have "card {i. i < 64 * Suc n \<and> bitmap_test bm i} =
      card {i. i < 64 * n \<and> bitmap_test bm i} + card ?lane"
    unfolding split by (intro card_Un_disjoint) auto
  also have "card ?lane = card (set_bits (bm ! n))" by (simp add: card_image)
  finally show ?case using Suc.IH by simp
qed

section \<open>The tracker invariant\<close>

definition count_type :: "fsd_match_type \<Rightarrow> block_tracker \<Rightarrow> nat" where
  "count_type m t = length (filter (\<lambda>b. b_match_type b = m) (t_blocks t))"

text \<open>
  What holds of a tracker until it is finalized: sizes fit, a bitmap bit is set exactly for the
  unmatched blocks (the tail bits of the last word are clear), block \<^verbatim>\<open>i\<close> carries index \<^verbatim>\<open>i\<close>,
  and each counter is the number of blocks of its type.
\<close>

definition tracker_inv :: "block_tracker \<Rightarrow> bool" where
  "tracker_inv t \<longleftrightarrow>
     length (t_blocks t) = t_count t \<and> t_bitmap_words t = (t_count t + 63) div 64 \<and>
     length (t_unmatched_bitmap t) = t_bitmap_words t \<and>
     (\<forall>i < 64 * t_bitmap_words t. bitmap_test (t_unmatched_bitmap t) i \<longleftrightarrow>
        i < t_count t \<and> b_match_type (t_blocks t ! i) = FSD_MATCH_NONE) \<and>
     (\<forall>i < t_count t. b_dest_index (t_blocks t ! i) = i) \<and>
     t_identity_count t = count_type FSD_MATCH_IDENTITY t \<and>
     t_relocate_count t = count_type FSD_MATCH_RELOCATE t \<and>
     t_partial_count t = count_type FSD_MATCH_PARTIAL t \<and>
     t_zero_count t = count_type FSD_MATCH_ZERO t \<and>
     t_one_count t = count_type FSD_MATCH_ONE t"

text \<open>
  What holds of a tracker at any time, finalized or not: \<^verbatim>\<open>U\<close> is the set of blocks whose bit is set.
\<close>

definition tracker_bits :: "nat set \<Rightarrow> block_tracker \<Rightarrow> bool" where
  "tracker_bits U t \<longleftrightarrow>
     length (t_blocks t) = t_count t \<and> t_bitmap_words t = (t_count t + 63) div 64 \<and>
     length (t_unmatched_bitmap t) = t_bitmap_words t \<and> U \<subseteq> {..<t_count t} \<and>
     (\<forall>i < 64 * t_bitmap_words t. bitmap_test (t_unmatched_bitmap t) i \<longleftrightarrow> i \<in> U) \<and>
     (\<forall>i < t_count t. b_dest_index (t_blocks t ! i) = i) \<and>
     t_identity_count t = count_type FSD_MATCH_IDENTITY t \<and>
     t_relocate_count t = count_type FSD_MATCH_RELOCATE t \<and>
     t_partial_count t = count_type FSD_MATCH_PARTIAL t \<and>
     t_zero_count t = count_type FSD_MATCH_ZERO t \<and>
     t_one_count t = count_type FSD_MATCH_ONE t"

definition none_blocks :: "block_tracker \<Rightarrow> nat set" where
  "none_blocks t = {i. i < t_count t \<and> b_match_type (t_blocks t ! i) = FSD_MATCH_NONE}"

lemma tracker_inv_bits: "tracker_inv t \<longleftrightarrow> tracker_bits (none_blocks t) t"
  by (auto simp: tracker_inv_def tracker_bits_def none_blocks_def)

lemma tracker_bits_sizes:
  assumes "tracker_bits U t"
  shows "length (t_blocks t) = t_count t" and "length (t_unmatched_bitmap t) = t_bitmap_words t"
    and "i < t_count t \<Longrightarrow> i div 64 < length (t_unmatched_bitmap t)"
    and "i < t_count t \<Longrightarrow> i < 64 * t_bitmap_words t"
  using assms by (auto simp: tracker_bits_def)

lemma tracker_inv_sizes:
  assumes "tracker_inv t"
  shows "length (t_blocks t) = t_count t"
    and "i < t_count t \<Longrightarrow> i div 64 < length (t_unmatched_bitmap t)"
    and "i < t_count t \<Longrightarrow> i < 64 * t_bitmap_words t"
  using assms by (auto simp: tracker_inv_def)

lemma length_filter_update:
  assumes "i < length xs" and "\<not> P (xs ! i)"
  shows "length (filter P (xs[i := y])) = length (filter P xs) + (if P y then 1 else 0)"
  using assms by (induction xs arbitrary: i) (auto split: nat.splits)

lemma length_filter_update_same:
  assumes "i < length xs" and "P (xs ! i) = P y"
  shows "length (filter P (xs[i := y])) = length (filter P xs)"
  using assms by (induction xs arbitrary: i) (auto split: nat.splits)

lemma count_match_sel [simp]:
  "t_blocks (count_match m t) = t_blocks t" "t_count (count_match m t) = t_count t"
  "t_block_size (count_match m t) = t_block_size t"
  "t_unmatched_bitmap (count_match m t) = t_unmatched_bitmap t"
  "t_bitmap_words (count_match m t) = t_bitmap_words t"
  "t_literal_count (count_match m t) = t_literal_count t"
  "t_identity_count (count_match m t) = t_identity_count t + (if m = FSD_MATCH_IDENTITY then 1 else 0)"
  "t_relocate_count (count_match m t) = t_relocate_count t + (if m = FSD_MATCH_RELOCATE then 1 else 0)"
  "t_partial_count (count_match m t) = t_partial_count t + (if m = FSD_MATCH_PARTIAL then 1 else 0)"
  "t_zero_count (count_match m t) = t_zero_count t + (if m = FSD_MATCH_ZERO then 1 else 0)"
  "t_one_count (count_match m t) = t_one_count t + (if m = FSD_MATCH_ONE then 1 else 0)"
  by (simp_all add: count_match_def split: fsd_match_type.split)

lemma tracker_setters_sel [simp]:
  "t_count (fsd_block_tracker_set_match i m src t) = t_count t"
  "t_count (fsd_block_tracker_set_crc32 i c t) = t_count t"
  "t_count (fsd_block_tracker_set_delta i off d k t) = t_count t"
  "t_block_size (fsd_block_tracker_set_match i m src t) = t_block_size t"
  "t_block_size (fsd_block_tracker_set_crc32 i c t) = t_block_size t"
  "t_block_size (fsd_block_tracker_set_delta i off d k t) = t_block_size t"
  "t_literal_count (fsd_block_tracker_set_match i m src t) = t_literal_count t"
  "t_literal_count (fsd_block_tracker_set_crc32 i c t) = t_literal_count t"
  "t_literal_count (fsd_block_tracker_set_delta i off d k t) = t_literal_count t"
  by (simp_all add: fsd_block_tracker_set_match_def fsd_block_tracker_set_crc32_def
      fsd_block_tracker_set_delta_def)

lemma tracker_create_inv:
  assumes "fsd_block_tracker_create mok n bs = Inr t" and "n < 2 ^ 63"
  shows "tracker_inv t" "t_count t = n" "t_block_size t = bs" "0 < n" "0 < bs"
    "t_blocks t = map fresh_block [0..<n]"
proof -
  have "u64 (n + 63) = n + 63" using assms(2) by (intro u64_id) simp
  then have t: "t_blocks t = map fresh_block [0..<n]" "t_count t = n" "t_block_size t = bs"
      "t_bitmap_words t = (n + 63) div 64" "t_unmatched_bitmap t =
        fold (\<lambda>i bm. bitmap_set bm i) [0..<n] (replicate ((n + 63) div 64) 0)"
      "t_identity_count t = 0" "t_relocate_count t = 0" "t_partial_count t = 0"
      "t_zero_count t = 0" "t_one_count t = 0" "0 < n" "0 < bs"
    using assms(1) by (auto simp: fsd_block_tracker_create_def Let_def split: if_splits)
  have zero: "\<not> bitmap_test (replicate k 0) i" if "i < 64 * k" for i k
    using that by (simp add: bitmap_test_bit)
  have fits: "\<forall>i \<in> set [0..<n]. i div 64 < length (replicate ((n + 63) div 64) (0 :: 64 word))"
    by auto
  show "tracker_inv t"
    unfolding tracker_inv_def count_type_def t
    using bitmap_test_fold_set[OF fits] zero[of _ "(n + 63) div 64"]
    by (auto simp: fresh_block_def filter_map o_def)
  show "t_count t = n" "t_block_size t = bs" "0 < n" "0 < bs" "t_blocks t = map fresh_block [0..<n]"
    by (fact t)+
qed

text \<open>A match of any type, NONE included, on a block of type NONE clears its bit and counts the type.\<close>

lemma tracker_set_match_bits:
  assumes "tracker_bits U t" and "i < t_count t" and "b_match_type (t_blocks t ! i) = FSD_MATCH_NONE"
  shows "tracker_bits (U - {i}) (fsd_block_tracker_set_match i m src t)"
proof -
  let ?b = "(t_blocks t ! i)\<lparr>b_match_type := m, b_src_index := src\<rparr>"
  note sz = tracker_bits_sizes[OF assms(1)]
  have cnt: "length (filter (\<lambda>b. b_match_type b = k) ((t_blocks t)[i := ?b])) =
      length (filter (\<lambda>b. b_match_type b = k) (t_blocks t)) + (if m = k then 1 else 0)"
    if "k \<noteq> FSD_MATCH_NONE" for k
    using length_filter_update[of i "t_blocks t" "\<lambda>b. b_match_type b = k" ?b] assms sz(1) that
    by auto
  show ?thesis
    using assms sz cnt
    unfolding tracker_bits_def fsd_block_tracker_set_match_def count_type_def
    by (auto simp: bitmap_test_clear nth_list_update)
qed

lemma tracker_set_match_inv:
  assumes "tracker_inv t" and "m \<noteq> FSD_MATCH_NONE"
  shows "tracker_inv (fsd_block_tracker_set_match i m src t)"
proof (cases "i < t_count t \<and> b_match_type (t_blocks t ! i) = FSD_MATCH_NONE")
  case False
  then show ?thesis using assms(1) by (auto simp: fsd_block_tracker_set_match_def)
next
  case True
  have "none_blocks (fsd_block_tracker_set_match i m src t) = none_blocks t - {i}"
    using assms True tracker_inv_sizes(1)[OF assms(1)]
    by (auto simp: none_blocks_def fsd_block_tracker_set_match_def nth_list_update)
  then show ?thesis
    using tracker_set_match_bits[of "none_blocks t" t i m src] assms(1) True by (simp add: tracker_inv_bits)
qed

lemma tracker_update_bits:
  assumes "tracker_bits U t" and "\<And>b. b_match_type (f b) = b_match_type b"
    and "\<And>b. b_dest_index (f b) = b_dest_index b"
  shows "tracker_bits U (t\<lparr>t_blocks := (t_blocks t)[i := f (t_blocks t ! i)]\<rparr>)"
proof (cases "i < length (t_blocks t)")
  case True
  have "length (filter (\<lambda>b. b_match_type b = k) ((t_blocks t)[i := f (t_blocks t ! i)])) =
      length (filter (\<lambda>b. b_match_type b = k) (t_blocks t))" for k
    using True by (intro length_filter_update_same) (simp_all add: assms(2))
  then show ?thesis
    using assms True unfolding tracker_bits_def count_type_def by (auto simp: nth_list_update)
next
  case False
  then show ?thesis using assms(1) by (simp add: list_update_beyond)
qed

lemma tracker_set_crc32_bits: "tracker_bits U t \<Longrightarrow> tracker_bits U (fsd_block_tracker_set_crc32 i c t)"
  using tracker_update_bits[of U t "\<lambda>b. b\<lparr>b_crc32 := c\<rparr>" i]
  by (simp add: fsd_block_tracker_set_crc32_def)

lemma tracker_set_delta_bits: "tracker_bits U t \<Longrightarrow> tracker_bits U (fsd_block_tracker_set_delta i off d n t)"
  using tracker_update_bits[of U t "\<lambda>b. b\<lparr>b_byte_offset := off, b_delta := Some d, b_delta_size := n\<rparr>" i]
  by (simp add: fsd_block_tracker_set_delta_def)

lemma setters_keep_type:
  "b_match_type (t_blocks (fsd_block_tracker_set_crc32 i c t) ! k) = b_match_type (t_blocks t ! k)"
  "b_match_type (t_blocks (fsd_block_tracker_set_delta i off d n t) ! k) = b_match_type (t_blocks t ! k)"
  by (cases "i < length (t_blocks t)";
      simp add: fsd_block_tracker_set_crc32_def fsd_block_tracker_set_delta_def nth_list_update list_update_beyond)+

lemma tracker_set_crc32_inv:
  "tracker_inv t \<Longrightarrow> tracker_inv (fsd_block_tracker_set_crc32 i c t)"
  using tracker_set_crc32_bits[of "none_blocks t" t i c] by (simp add: tracker_inv_bits none_blocks_def setters_keep_type)

lemma tracker_set_delta_inv:
  "tracker_inv t \<Longrightarrow> tracker_inv (fsd_block_tracker_set_delta i off d n t)"
  using tracker_set_delta_bits[of "none_blocks t" t i off d n] by (simp add: tracker_inv_bits none_blocks_def setters_keep_type)

lemma tracker_is_unmatched:
  assumes "tracker_inv t"
  shows "fsd_block_tracker_is_unmatched t i \<longleftrightarrow>
    i < t_count t \<and> b_match_type (t_blocks t ! i) = FSD_MATCH_NONE"
  using assms tracker_inv_sizes[OF assms]
  by (auto simp: fsd_block_tracker_is_unmatched_def tracker_inv_def)

lemma foldl_popcount: "foldl (\<lambda>c i. word_popcount (bm ! i) c) c0 [0..<n] =
    c0 + (\<Sum>j<n. card (set_bits (bm ! j)))"
  by (induction n) (simp_all add: word_popcount_card)

lemma tracker_bits_unmatched_count:
  assumes "tracker_bits U t"
  shows "fsd_block_tracker_unmatched_count t = card U"
proof -
  have "fsd_block_tracker_unmatched_count t =
      card {i. i < 64 * t_bitmap_words t \<and> bitmap_test (t_unmatched_bitmap t) i}"
    by (simp add: fsd_block_tracker_unmatched_count_def foldl_popcount card_bitmap_words)
  also have "{i. i < 64 * t_bitmap_words t \<and> bitmap_test (t_unmatched_bitmap t) i} = U"
    using assms tracker_bits_sizes(4)[OF assms] by (auto simp: tracker_bits_def)
  finally show ?thesis .
qed

lemma count_type_card:
  "length (t_blocks t) = t_count t \<Longrightarrow> count_type m t = card {i. i < t_count t \<and> b_match_type (t_blocks t ! i) = m}"
  by (simp add: count_type_def length_filter_conv_card)

lemma tracker_unmatched_count_card:
  assumes "tracker_inv t"
  shows "fsd_block_tracker_unmatched_count t = count_type FSD_MATCH_NONE t"
  using tracker_bits_unmatched_count[of "none_blocks t" t] assms tracker_inv_sizes(1)[OF assms]
  by (simp add: tracker_inv_bits count_type_card none_blocks_def)

lemma tracker_bits_is_unmatched:
  assumes "tracker_bits U t"
  shows "fsd_block_tracker_is_unmatched t i \<longleftrightarrow> i \<in> U"
  using assms tracker_bits_sizes(4)[OF assms, of i]
  by (auto simp: fsd_block_tracker_is_unmatched_def tracker_bits_def)

lemma foldl_filter_append:
  "foldl (\<lambda>l i. if P i then l @ [i] else l) acc xs = acc @ filter P xs"
  by (induction xs arbitrary: acc) simp_all

lemma tracker_bits_foreach:
  assumes "tracker_bits U t"
  shows "fsd_block_tracker_foreach_unmatched t (\<lambda>i l. l @ [i]) [] = filter (\<lambda>i. i \<in> U) [0..<t_count t]"
  unfolding fsd_block_tracker_foreach_unmatched_def foldl_filter_append
  using assms tracker_bits_sizes(4)[OF assms] by (auto simp: tracker_bits_def intro!: filter_cong)

lemma count_types_sum:
  "count_type FSD_MATCH_IDENTITY t + count_type FSD_MATCH_RELOCATE t +
   count_type FSD_MATCH_PARTIAL t + count_type FSD_MATCH_ZERO t + count_type FSD_MATCH_ONE t +
   count_type FSD_MATCH_NONE t = length (t_blocks t)"
proof -
  have "length (filter (\<lambda>b. b_match_type b = FSD_MATCH_IDENTITY) bs) +
      length (filter (\<lambda>b. b_match_type b = FSD_MATCH_RELOCATE) bs) +
      length (filter (\<lambda>b. b_match_type b = FSD_MATCH_PARTIAL) bs) +
      length (filter (\<lambda>b. b_match_type b = FSD_MATCH_ZERO) bs) +
      length (filter (\<lambda>b. b_match_type b = FSD_MATCH_ONE) bs) +
      length (filter (\<lambda>b. b_match_type b = FSD_MATCH_NONE) bs) = length bs" for bs :: "block_state list"
  proof (induction bs)
    case (Cons b bs)
    then show ?case by (cases "b_match_type b") simp_all
  qed simp
  then show ?thesis by (simp add: count_type_def)
qed

text \<open>Finalizing block after block.\<close>

definition same_but_literals :: "block_tracker \<Rightarrow> block_tracker \<Rightarrow> bool" where
  "same_but_literals t u \<longleftrightarrow> u = t\<lparr>t_literal_count := t_literal_count u,
     t_unmatched_bitmap := t_unmatched_bitmap u\<rparr>"

lemma same_but_literals_update:
  "same_but_literals t u \<Longrightarrow>
   same_but_literals t (u\<lparr>t_literal_count := l, t_unmatched_bitmap := bm\<rparr>)"
  by (cases t; cases u) (simp add: same_but_literals_def)

lemma finalize_prefix:
  assumes "tracker_bits U t" and "n \<le> t_count t"
  shows "same_but_literals t (fold finalize_block [0..<n] t) \<and>
    length (t_unmatched_bitmap (fold finalize_block [0..<n] t)) = t_bitmap_words t \<and>
    (\<forall>i < 64 * t_bitmap_words t. bitmap_test (t_unmatched_bitmap (fold finalize_block [0..<n] t)) i \<longleftrightarrow>
       n \<le> i \<and> i \<in> U) \<and>
    t_literal_count (fold finalize_block [0..<n] t) = t_literal_count t + card {i \<in> U. i < n}"
  using assms(2)
proof (induction n)
  case 0
  then show ?case using assms(1) by (simp add: same_but_literals_def tracker_bits_def)
next
  case (Suc n)
  let ?u = "fold finalize_block [0..<n] t"
  have IH: "same_but_literals t ?u" "length (t_unmatched_bitmap ?u) = t_bitmap_words t"
      "\<And>i. i < 64 * t_bitmap_words t \<Longrightarrow> bitmap_test (t_unmatched_bitmap ?u) i \<longleftrightarrow> n \<le> i \<and> i \<in> U"
      "t_literal_count ?u = t_literal_count t + card {i \<in> U. i < n}"
    using Suc by auto
  have n: "n < 64 * t_bitmap_words t" "n div 64 < length (t_unmatched_bitmap ?u)"
    using tracker_bits_sizes[OF assms(1)] Suc.prems IH(2) by auto
  have test: "bitmap_test (t_unmatched_bitmap ?u) n \<longleftrightarrow> n \<in> U" using IH(3)[OF n(1)] by simp
  have "{i \<in> U. i < Suc n} = (if n \<in> U then insert n {i \<in> U. i < n} else {i \<in> U. i < n})"
    by (auto simp: less_Suc_eq)
  then have card: "card {i \<in> U. i < Suc n} = card {i \<in> U. i < n} + (if n \<in> U then 1 else 0)" by simp
  show ?case
  proof (cases "n \<in> U")
    case True
    then have eq: "fold finalize_block [0..<Suc n] t = ?u\<lparr>t_literal_count := t_literal_count ?u + 1,
        t_unmatched_bitmap := bitmap_clear (t_unmatched_bitmap ?u) n\<rparr>"
      using test by (simp add: finalize_block_def)
    have "bitmap_test (bitmap_clear (t_unmatched_bitmap ?u) n) i \<longleftrightarrow> Suc n \<le> i \<and> i \<in> U"
      if "i < 64 * t_bitmap_words t" for i
      unfolding bitmap_test_clear[OF n(2)] using IH(3)[OF that] by auto
    then show ?thesis
      unfolding eq using same_but_literals_update[OF IH(1)] IH(2,4) card True by simp
  next
    case False
    then have eq: "fold finalize_block [0..<Suc n] t = ?u" using test by (simp add: finalize_block_def)
    have "bitmap_test (t_unmatched_bitmap ?u) i \<longleftrightarrow> Suc n \<le> i \<and> i \<in> U"
      if "i < 64 * t_bitmap_words t" for i
      using IH(3)[OF that] False by (cases "i = n") auto
    then show ?thesis unfolding eq using IH(1,2,4) card False by simp
  qed
qed

lemma tracker_finalize_bits:
  assumes "tracker_bits U t"
  shows "tracker_bits {} (fsd_block_tracker_finalize t)"
    and "same_but_literals t (fsd_block_tracker_finalize t)"
    and "t_literal_count (fsd_block_tracker_finalize t) = t_literal_count t + card U"
proof -
  define u where "u = fsd_block_tracker_finalize t"
  have "{i \<in> U. i < t_count t} = U" using assms by (auto simp: tracker_bits_def)
  then have fin: "same_but_literals t u" "length (t_unmatched_bitmap u) = t_bitmap_words t"
      "\<forall>i < 64 * t_bitmap_words t. bitmap_test (t_unmatched_bitmap u) i \<longleftrightarrow> t_count t \<le> i \<and> i \<in> U"
      "t_literal_count u = t_literal_count t + card U"
    using finalize_prefix[OF assms order_refl] by (simp_all add: u_def fsd_block_tracker_finalize_def)
  from fin(1) obtain l bm where u: "u = t\<lparr>t_literal_count := l, t_unmatched_bitmap := bm\<rparr>"
    unfolding same_but_literals_def by blast
  show "tracker_bits {} u" using assms fin(2,3) u by (auto simp: tracker_bits_def count_type_def)
  show "same_but_literals t u" "t_literal_count u = t_literal_count t + card U" by (fact fin)+
qed

section \<open>Properties\<close>

text \<open>The operations that change a tracker, as data, so that a history is a list of them.\<close>

datatype tracker_op =
    Set_match nat fsd_match_type nat
  | Set_crc32 nat "32 word"
  | Set_delta nat int bytes nat
  | Finalize

fun tracker_call :: "tracker_op \<Rightarrow> block_tracker \<Rightarrow> block_tracker" where
  "tracker_call (Set_match i m src) t = fsd_block_tracker_set_match i m src t"
| "tracker_call (Set_crc32 i c) t = fsd_block_tracker_set_crc32 i c t"
| "tracker_call (Set_delta i off d k) t = fsd_block_tracker_set_delta i off d k t"
| "tracker_call Finalize t = fsd_block_tracker_finalize t"

text \<open>
  What a history says of block \<^verbatim>\<open>i\<close>, without looking at a tracker: whether a match was recorded
  for it, and the type of the first match other than NONE.
\<close>

fun claim_of :: "nat \<Rightarrow> tracker_op \<Rightarrow> fsd_match_type option" where
  "claim_of i (Set_match j m src) = (if j = i then Some m else None)"
| "claim_of i _ = None"

definition claimed :: "nat \<Rightarrow> tracker_op list \<Rightarrow> bool" where
  "claimed i ops \<longleftrightarrow> list_ex (\<lambda>c. claim_of i c \<noteq> None) ops"

definition first_claim :: "nat \<Rightarrow> tracker_op list \<Rightarrow> fsd_match_type" where
  "first_claim i ops =
     (case filter (\<lambda>m. m \<noteq> FSD_MATCH_NONE) (List.map_filter (claim_of i) ops) of
        [] \<Rightarrow> FSD_MATCH_NONE | m # _ \<Rightarrow> m)"

definition open_blocks :: "nat \<Rightarrow> tracker_op list \<Rightarrow> nat set" where
  "open_blocks n ops = {i. i < n \<and> Finalize \<notin> set ops \<and> \<not> claimed i ops}"

text \<open>The blocks that the first finalize of a history turned into literals.\<close>

definition literal_blocks :: "nat \<Rightarrow> tracker_op list \<Rightarrow> nat set" where
  "literal_blocks n ops =
     (if Finalize \<in> set ops then open_blocks n (takeWhile (\<lambda>c. c \<noteq> Finalize) ops) else {})"

lemma claimed_snoc: "claimed i (ops @ [c]) \<longleftrightarrow> claimed i ops \<or> claim_of i c \<noteq> None"
  by (auto simp: claimed_def)

lemma first_claim_snoc:
  "first_claim i (ops @ [c]) =
     (if first_claim i ops \<noteq> FSD_MATCH_NONE then first_claim i ops
      else case claim_of i c of None \<Rightarrow> FSD_MATCH_NONE | Some m \<Rightarrow> m)"
  by (auto simp: first_claim_def List.map_filter_def filter_empty_conv filter_eq_Cons_iff split: list.split option.split)

lemma first_claim_claimed: "first_claim i ops \<noteq> FSD_MATCH_NONE \<Longrightarrow> claimed i ops"
proof (induction ops rule: rev_induct)
  case Nil
  then show ?case by (simp add: first_claim_def List.map_filter_def)
next
  case (snoc c ops)
  then show ?case by (cases "claim_of i c") (auto simp: claimed_snoc first_claim_snoc split: if_splits)
qed

lemma open_blocks_snoc:
  "open_blocks n (ops @ [c]) = (if c = Finalize then {} else {i \<in> open_blocks n ops. claim_of i c = None})"
  by (auto simp: open_blocks_def claimed_snoc)

lemma literal_blocks_snoc:
  "literal_blocks n (ops @ [c]) =
     (if c = Finalize \<and> Finalize \<notin> set ops then open_blocks n ops else literal_blocks n ops)"
proof -
  have "takeWhile (\<lambda>c. c \<noteq> Finalize) (ops @ [c]) = takeWhile (\<lambda>c. c \<noteq> Finalize) ops" if "Finalize \<in> set ops"
    using that by (simp add: takeWhile_append1)
  moreover have "takeWhile (\<lambda>c. c \<noteq> Finalize) (ops @ [Finalize]) = ops" if "Finalize \<notin> set ops"
    using that by (subst takeWhile_append2) auto
  ultimately show ?thesis by (auto simp: literal_blocks_def)
qed

lemma literal_blocks_finalized: "Finalize \<in> set ops \<Longrightarrow> open_blocks n ops = {}"
  by (simp add: open_blocks_def)

lemma finite_open_blocks [simp]: "finite (open_blocks n ops)"
  by (simp add: open_blocks_def)

text \<open>Every tracker of a history is what the history says.\<close>

definition tracker_tells :: "nat \<Rightarrow> tracker_op list \<Rightarrow> block_tracker \<Rightarrow> bool" where
  "tracker_tells n ops t \<longleftrightarrow> tracker_bits (open_blocks n ops) t \<and> t_count t = n \<and>
     (\<forall>i < n. b_match_type (t_blocks t ! i) = first_claim i ops) \<and>
     t_literal_count t = card (literal_blocks n ops)"

lemma tracker_tells_create:
  assumes "fsd_block_tracker_create mok n bs = Inr t" and "n < 2 ^ 63"
  shows "tracker_tells n [] t"
proof -
  note C = tracker_create_inv[OF assms]
  have none: "first_claim i [] = FSD_MATCH_NONE" for i by (simp add: first_claim_def List.map_filter_def)
  have types: "b_match_type (t_blocks t ! i) = FSD_MATCH_NONE" if "i < n" for i
    using C(6) that by (simp add: fresh_block_def)
  have "open_blocks n [] = none_blocks t"
    using types C(2) by (auto simp: open_blocks_def none_blocks_def claimed_def)
  moreover have "t_literal_count t = 0"
    using assms(1) by (auto simp: fsd_block_tracker_create_def Let_def split: if_splits)
  ultimately show ?thesis
    using C(1,2) types none by (simp add: tracker_tells_def tracker_inv_bits literal_blocks_def)
qed

lemma tracker_tells_match:
  assumes "tracker_tells n ops t"
  shows "tracker_tells n (ops @ [Set_match j m src]) (fsd_block_tracker_set_match j m src t)"
proof (cases "j < n \<and> first_claim j ops = FSD_MATCH_NONE")
  case True
  let ?t = "fsd_block_tracker_set_match j m src t"
  have T: "tracker_bits (open_blocks n ops) t" "t_count t = n" "b_match_type (t_blocks t ! j) = FSD_MATCH_NONE"
    using assms True by (auto simp: tracker_tells_def)
  have "open_blocks n (ops @ [Set_match j m src]) = open_blocks n ops - {j}"
    by (auto simp: open_blocks_snoc)
  then have bits: "tracker_bits (open_blocks n (ops @ [Set_match j m src])) ?t"
    using tracker_set_match_bits[OF T(1), of j m src] T True by simp
  have "b_match_type (t_blocks ?t ! i) = first_claim i (ops @ [Set_match j m src])" if "i < n" for i
    using assms that True T tracker_bits_sizes(1)[OF T(1)]
    by (auto simp: tracker_tells_def first_claim_snoc fsd_block_tracker_set_match_def nth_list_update)
  then show ?thesis
    using assms bits T(2) by (simp add: tracker_tells_def literal_blocks_snoc)
next
  case False
  have "fsd_block_tracker_set_match j m src t = t"
    using assms False by (auto simp: tracker_tells_def fsd_block_tracker_set_match_def)
  moreover have "open_blocks n (ops @ [Set_match j m src]) = open_blocks n ops"
    using False first_claim_claimed[of j ops] by (auto simp: open_blocks_snoc) (auto simp: open_blocks_def)
  moreover have "first_claim i (ops @ [Set_match j m src]) = first_claim i ops" if "i < n" for i
    using False that by (auto simp: first_claim_snoc)
  ultimately show ?thesis using assms by (simp add: tracker_tells_def literal_blocks_snoc)
qed

lemma tracker_tells_finalize:
  assumes "tracker_tells n ops t"
  shows "tracker_tells n (ops @ [Finalize]) (fsd_block_tracker_finalize t)"
proof -
  have T: "tracker_bits (open_blocks n ops) t" using assms by (simp add: tracker_tells_def)
  note F = tracker_finalize_bits[OF T]
  obtain l bm where u: "fsd_block_tracker_finalize t = t\<lparr>t_literal_count := l, t_unmatched_bitmap := bm\<rparr>"
    using F(2) unfolding same_but_literals_def by blast
  have "t_literal_count (fsd_block_tracker_finalize t) = card (literal_blocks n (ops @ [Finalize]))"
    using F(3) assms literal_blocks_finalized[of ops n]
    by (auto simp: tracker_tells_def literal_blocks_snoc) (simp add: literal_blocks_def)
  then show ?thesis
    using F(1) assms by (auto simp: tracker_tells_def open_blocks_snoc first_claim_snoc u)
qed

lemma tracker_tells_history:
  assumes "fsd_block_tracker_create mok n bs = Inr t" and "n < 2 ^ 63"
  shows "tracker_tells n ops (fold tracker_call ops t)"
proof (induction ops rule: rev_induct)
  case Nil
  then show ?case using tracker_tells_create[OF assms] by simp
next
  case (snoc c ops)
  let ?t = "fold tracker_call ops t"
  show ?case
  proof (cases c)
    case (Set_match j m src)
    then show ?thesis using tracker_tells_match[OF snoc.IH] by simp
  next
    case Finalize
    then show ?thesis using tracker_tells_finalize[OF snoc.IH] by simp
  next
    case (Set_crc32 i crc)
    then show ?thesis
      using snoc.IH tracker_set_crc32_bits[of "open_blocks n ops" ?t i crc]
      by (auto simp: tracker_tells_def open_blocks_snoc literal_blocks_snoc first_claim_snoc setters_keep_type)
  next
    case (Set_delta i off d k)
    then show ?thesis
      using snoc.IH tracker_set_delta_bits[of "open_blocks n ops" ?t i off d k]
      by (auto simp: tracker_tells_def open_blocks_snoc literal_blocks_snoc first_claim_snoc setters_keep_type)
  qed
qed

text \<open>
  C9. The tracker after any sequence of matches (of every type, NONE included), checksums, deltas
  and finalizations from a created one, told from the sequence alone: a block is reported
  unmatched, and visited by the iteration, exactly when no match was recorded for it and the
  tracker was not finalized; the Kernighan popcount is the number of those blocks; a block's type
  is that of the first match other than NONE; each of the five counters is the number of blocks
  of its type; and the literal counter is the number of blocks unmatched at the first
  finalization. So as long as the tracker is not finalized and NONE is not recorded as a match,
  the unmatched blocks are exactly those of type NONE.
\<close>

theorem tracker_unmatched_exact:
  assumes "fsd_block_tracker_create mok n bs = Inr t0" and "n < 2 ^ 63" and "t = fold tracker_call ops t0"
  shows "(\<forall>i. fsd_block_tracker_is_unmatched t i \<longleftrightarrow> i < n \<and> Finalize \<notin> set ops \<and> \<not> claimed i ops) \<and>
    fsd_block_tracker_unmatched_count t = card {i. fsd_block_tracker_is_unmatched t i} \<and>
    fsd_block_tracker_foreach_unmatched t (\<lambda>i l. l @ [i]) [] = filter (fsd_block_tracker_is_unmatched t) [0..<n] \<and>
    (\<forall>i < n. fsd_block_tracker_get t i = Some (t_blocks t ! i) \<and> b_dest_index (t_blocks t ! i) = i \<and>
       b_match_type (t_blocks t ! i) = first_claim i ops) \<and>
    t_identity_count t = count_type FSD_MATCH_IDENTITY t \<and> t_relocate_count t = count_type FSD_MATCH_RELOCATE t \<and>
    t_partial_count t = count_type FSD_MATCH_PARTIAL t \<and> t_zero_count t = count_type FSD_MATCH_ZERO t \<and>
    t_one_count t = count_type FSD_MATCH_ONE t \<and>
    t_literal_count t = (if Finalize \<in> set ops
      then card {i. i < n \<and> \<not> claimed i (takeWhile (\<lambda>c. c \<noteq> Finalize) ops)} else 0) \<and>
    (Finalize \<notin> set ops \<and> (\<forall>i src. Set_match i FSD_MATCH_NONE src \<notin> set ops) \<longrightarrow>
      (\<forall>i < n. fsd_block_tracker_is_unmatched t i \<longleftrightarrow> b_match_type (t_blocks t ! i) = FSD_MATCH_NONE))"
proof -
  have T: "tracker_tells n ops t" unfolding assms(3) by (rule tracker_tells_history[OF assms(1,2)])
  then have bits: "tracker_bits (open_blocks n ops) t" and n: "t_count t = n" by (simp_all add: tracker_tells_def)
  have un: "fsd_block_tracker_is_unmatched t i \<longleftrightarrow> i \<in> open_blocks n ops" for i
    by (rule tracker_bits_is_unmatched[OF bits])
  have unset: "{i. fsd_block_tracker_is_unmatched t i} = open_blocks n ops" by (simp add: un)
  have "Finalize \<notin> set (takeWhile (\<lambda>c. c \<noteq> Finalize) ops)" by (auto dest: set_takeWhileD)
  then have lit: "card (literal_blocks n ops) = (if Finalize \<in> set ops
      then card {i. i < n \<and> \<not> claimed i (takeWhile (\<lambda>c. c \<noteq> Finalize) ops)} else 0)"
    by (simp add: literal_blocks_def open_blocks_def)
  have none: "claimed i ops \<longleftrightarrow> first_claim i ops \<noteq> FSD_MATCH_NONE"
    if "\<forall>i src. Set_match i FSD_MATCH_NONE src \<notin> set ops" for i
    using that
  proof (induction ops rule: rev_induct)
    case Nil
    then show ?case by (simp add: claimed_def first_claim_def List.map_filter_def)
  next
    case (snoc c ops)
    then show ?case by (cases c) (auto simp: claimed_snoc first_claim_snoc)
  qed
  show ?thesis
  proof (intro conjI)
    show "\<forall>i. fsd_block_tracker_is_unmatched t i \<longleftrightarrow> i < n \<and> Finalize \<notin> set ops \<and> \<not> claimed i ops"
      by (simp add: un open_blocks_def)
    show "fsd_block_tracker_unmatched_count t = card {i. fsd_block_tracker_is_unmatched t i}"
      unfolding unset by (rule tracker_bits_unmatched_count[OF bits])
    show "fsd_block_tracker_foreach_unmatched t (\<lambda>i l. l @ [i]) [] = filter (fsd_block_tracker_is_unmatched t) [0..<n]"
      using tracker_bits_foreach[OF bits] n by (simp add: un cong: filter_cong)
    show "\<forall>i < n. fsd_block_tracker_get t i = Some (t_blocks t ! i) \<and> b_dest_index (t_blocks t ! i) = i \<and>
       b_match_type (t_blocks t ! i) = first_claim i ops"
      using T by (simp add: tracker_tells_def tracker_bits_def fsd_block_tracker_get_def)
    show "t_literal_count t = (if Finalize \<in> set ops
      then card {i. i < n \<and> \<not> claimed i (takeWhile (\<lambda>c. c \<noteq> Finalize) ops)} else 0)"
      using T lit by (simp add: tracker_tells_def)
    show "Finalize \<notin> set ops \<and> (\<forall>i src. Set_match i FSD_MATCH_NONE src \<notin> set ops) \<longrightarrow>
      (\<forall>i < n. fsd_block_tracker_is_unmatched t i \<longleftrightarrow> b_match_type (t_blocks t ! i) = FSD_MATCH_NONE)"
      using T none by (simp add: un open_blocks_def tracker_tells_def)
  qed (use bits in \<open>simp_all add: tracker_bits_def\<close>)
qed

theorem tracker_unmatched_exact_witness:
  "let t0 = (case fsd_block_tracker_create (\<lambda>_. True) 3 32 of Inr t \<Rightarrow> t);
       t = fold tracker_call [Set_match 1 FSD_MATCH_ZERO 0, Set_match 2 FSD_MATCH_NONE 0] t0
   in fsd_block_tracker_unmatched_count t = 1 \<and> t_literal_count (tracker_call Finalize t) = 1"
proof -
  let ?t0 = "case fsd_block_tracker_create (\<lambda>_. True) 3 32 of Inr t \<Rightarrow> t"
  let ?ops = "[Set_match 1 FSD_MATCH_ZERO 0, Set_match 2 FSD_MATCH_NONE 0]"
  have c: "fsd_block_tracker_create (\<lambda>_. True) 3 32 = Inr ?t0" "(3::nat) < 2 ^ 63"
    by (simp_all add: fsd_block_tracker_create_def Let_def)
  note P = tracker_unmatched_exact [OF c refl, of ?ops] tracker_unmatched_exact [OF c refl, of "?ops @ [Finalize]"]
  have "{i. i < 3 \<and> \<not> claimed i ?ops} = {0::nat}"
    by (auto simp: claimed_def)
  with P show ?thesis by (simp add: Let_def)
qed

lemma finalize_facts:
  assumes "tracker_inv t" and "t_literal_count t = 0"
  shows "let u = fsd_block_tracker_finalize t in
    t_blocks u = t_blocks t \<and> (\<forall>i. \<not> fsd_block_tracker_is_unmatched u i) \<and>
    t_literal_count u = count_type FSD_MATCH_NONE t \<and>
    t_identity_count u + t_relocate_count u + t_partial_count u + t_zero_count u +
      t_one_count u + t_literal_count u = t_count t"
proof -
  have bits: "tracker_bits (none_blocks t) t" using assms(1) by (simp add: tracker_inv_bits)
  define u where "u = fsd_block_tracker_finalize t"
  have fin: "tracker_bits {} u" "same_but_literals t u" "t_literal_count u = card (none_blocks t)"
    using tracker_finalize_bits[OF bits] assms(2) by (simp_all add: u_def)
  from fin(2) obtain l bm where u: "u = t\<lparr>t_literal_count := l, t_unmatched_bitmap := bm\<rparr>"
    unfolding same_but_literals_def by blast
  have "t_literal_count u = count_type FSD_MATCH_NONE t"
    using fin(3) count_type_card[OF tracker_inv_sizes(1)[OF assms(1)]] by (simp add: none_blocks_def)
  moreover have "\<not> fsd_block_tracker_is_unmatched u i" for i
    using tracker_bits_is_unmatched[OF fin(1)] by simp
  ultimately show ?thesis
    unfolding u_def [symmetric] Let_def
    using u assms(1) count_types_sum[of t] by (simp add: tracker_inv_def)
qed

text \<open>
  C33. Finalizing classifies every remaining block as a literal: the block states do not change, no
  block stays unmatched, the literal counter grows by the number of blocks of type NONE, and the
  six counters of the result add up to the number of destination blocks.
\<close>

theorem tracker_finalize_complete:
  assumes "tracker_inv t" and "t_literal_count t = 0"
  shows "let u = fsd_block_tracker_finalize t in
    t_blocks u = t_blocks t \<and> (\<forall>i. \<not> fsd_block_tracker_is_unmatched u i) \<and>
    t_literal_count u = count_type FSD_MATCH_NONE t \<and>
    t_identity_count u + t_relocate_count u + t_partial_count u + t_zero_count u +
      t_one_count u + t_literal_count u = t_count t"
  using assms by (rule finalize_facts)

theorem tracker_finalize_complete_witness:
  "let t = fsd_block_tracker_set_match 1 FSD_MATCH_ZERO 0
     (case fsd_block_tracker_create (\<lambda>_. True) 3 32 of Inr t \<Rightarrow> t)
   in t_literal_count (fsd_block_tracker_finalize t) = 2"
proof -
  let ?t = "fsd_block_tracker_set_match 1 FSD_MATCH_ZERO 0
     (case fsd_block_tracker_create (\<lambda>_. True) 3 32 of Inr t \<Rightarrow> t)"
  have "fsd_block_tracker_create (\<lambda>_. True) 3 32 = Inr (case fsd_block_tracker_create (\<lambda>_. True) 3 32 of Inr t \<Rightarrow> t)"
    by (simp add: fsd_block_tracker_create_def Let_def)
  from tracker_create_inv(1)[OF this] have inv: "tracker_inv ?t" by (intro tracker_set_match_inv) simp_all
  have "t_literal_count ?t = 0" "count_type FSD_MATCH_NONE ?t = 2"
    by (simp_all add: count_type_def fsd_block_tracker_set_match_def fsd_block_tracker_create_def
        Let_def u64_def fresh_block_def upt_rec)
  then show ?thesis using tracker_finalize_complete [OF inv] unfolding Let_def by metis
qed

text \<open>
  The contract the stages rely on, as a map from matched blocks to their match: a block is
  matched once, by the first stage that claims it.
\<close>

definition matched :: "block_tracker \<Rightarrow> nat \<Rightarrow> (fsd_match_type \<times> nat) option" where
  "matched t i =
     (if i < t_count t \<and> b_match_type (t_blocks t ! i) \<noteq> FSD_MATCH_NONE
      then Some (b_match_type (t_blocks t ! i), b_src_index (t_blocks t ! i)) else None)"

text \<open>
  C32. \<^verbatim>\<open>fsd_block_tracker_set_match\<close> refines insertion into a finite map that never
  overwrites: an unmatched block in range is bound to its match, a block already matched or out
  of range leaves the map, and the whole tracker, as it was.
\<close>

theorem set_match_first_wins:
  assumes "tracker_inv t" and "m \<noteq> FSD_MATCH_NONE"
  shows "matched (fsd_block_tracker_set_match i m src t) =
    (if i < t_count t \<and> matched t i = None then (matched t)(i \<mapsto> (m, src)) else matched t) \<and>
    (matched t i \<noteq> None \<or> t_count t \<le> i \<longrightarrow> fsd_block_tracker_set_match i m src t = t)"
  using assms tracker_inv_sizes(1)[OF assms(1)]
  by (auto simp: matched_def fsd_block_tracker_set_match_def fun_eq_iff nth_list_update
      split: if_splits)

theorem set_match_first_wins_witness:
  "let t = (case fsd_block_tracker_create (\<lambda>_. True) 2 32 of Inr t \<Rightarrow> t);
       u = fsd_block_tracker_set_match 0 FSD_MATCH_IDENTITY 0 t
   in matched (fsd_block_tracker_set_match 0 FSD_MATCH_ZERO 7 u) = [0 \<mapsto> (FSD_MATCH_IDENTITY, 0)]"
proof -
  obtain t where t: "fsd_block_tracker_create (\<lambda>_. True) 2 32 = Inr t"
    by (simp add: fsd_block_tracker_create_def Let_def)
  note props = tracker_create_inv[OF t]
  let ?u = "fsd_block_tracker_set_match 0 FSD_MATCH_IDENTITY 0 t"
  have start: "matched t = Map.empty" using props by (auto simp: matched_def fresh_block_def)
  have u: "matched ?u = [0 \<mapsto> (FSD_MATCH_IDENTITY, 0)]"
    using set_match_first_wins [of t FSD_MATCH_IDENTITY 0 0] props start by simp
  have "matched (fsd_block_tracker_set_match 0 FSD_MATCH_ZERO 7 ?u) = matched ?u"
    using set_match_first_wins [of ?u FSD_MATCH_ZERO 0 7] tracker_set_match_inv props u by simp
  then show ?thesis using t u by simp
qed

end
