(* ===== verification/Match_Soundness.thy ===== *)
theory Match_Soundness
  imports Block_Tracker
begin

text \<open>
  What it means that a block's match is right, for a source and a destination image: the bytes
  the decoder will produce for the block are the destination's bytes. The matching stages
  establish it, the encoder and decoder rely on it.
\<close>

definition block_sound :: "bytes \<Rightarrow> bytes \<Rightarrow> nat \<Rightarrow> nat \<Rightarrow> block_state \<Rightarrow> bool" where
  "block_sound src dest bs i b \<longleftrightarrow>
     (case b_match_type b of
        FSD_MATCH_NONE \<Rightarrow> True
      | FSD_MATCH_IDENTITY \<Rightarrow>
          (i + 1) * bs \<le> length src \<and> bytes_at (i * bs) bs src = bytes_at (i * bs) bs dest
      | FSD_MATCH_RELOCATE \<Rightarrow>
          (b_src_index b + 1) * bs \<le> length src \<and>
          bytes_at (b_src_index b * bs) bs src = bytes_at (i * bs) bs dest
      | FSD_MATCH_PARTIAL \<Rightarrow>
          (let p = int (b_src_index b) * int bs + b_byte_offset b in
           0 \<le> p \<and> nat p + bs \<le> length src \<and>
           (\<exists>d. b_delta b = Some d \<and> length d = bs \<and> b_delta_size b = bs \<and>
              map2 (+) (bytes_at (nat p) bs src) d = bytes_at (i * bs) bs dest))
      | FSD_MATCH_ZERO \<Rightarrow> bytes_at (i * bs) bs dest = replicate bs 0
      | FSD_MATCH_ONE \<Rightarrow> bytes_at (i * bs) bs dest = replicate bs 0xFF)"

definition blocks_right :: "bytes \<Rightarrow> bytes \<Rightarrow> nat \<Rightarrow> block_tracker \<Rightarrow> bool" where
  "blocks_right src dest bs t \<longleftrightarrow> length (t_blocks t) = t_count t \<and> t_count t * bs = length dest \<and>
     (\<forall>i < t_count t. block_sound src dest bs i (t_blocks t ! i))"

text \<open>While the stages run, the bitmap and the counters are exact as well.\<close>

definition tracker_sound :: "bytes \<Rightarrow> bytes \<Rightarrow> nat \<Rightarrow> block_tracker \<Rightarrow> bool" where
  "tracker_sound src dest bs t \<longleftrightarrow> tracker_inv t \<and> blocks_right src dest bs t"

lemma blocks_right_block:
  "blocks_right src dest bs t \<Longrightarrow> i < t_count t \<Longrightarrow> block_sound src dest bs i (t_blocks t ! i)"
  by (simp add: blocks_right_def)

lemma tracker_sound_intro:
  assumes "tracker_inv t" and "t_count t * bs = length dest"
    and "\<And>i. i < t_count t \<Longrightarrow> block_sound src dest bs i (t_blocks t ! i)"
  shows "tracker_sound src dest bs t"
  using assms tracker_inv_sizes(1) by (simp add: tracker_sound_def blocks_right_def)

text \<open>
  The block of an image that a stage reads: \<^verbatim>\<open>data + i * block_size\<close>, for \<^verbatim>\<open>block_size\<close>
  bytes. A block that is not inside the image is not readable; the stages return \<^verbatim>\<open>UB_FAULT\<close>
  where the code would read one.
\<close>

definition block_at :: "bytes \<Rightarrow> nat \<Rightarrow> nat \<Rightarrow> bytes option" where
  "block_at data bs i = (if (i + 1) * bs \<le> length data then Some (bytes_at (i * bs) bs data) else None)"

lemma block_at_SomeD:
  "block_at data bs i = Some b \<Longrightarrow> (i + 1) * bs \<le> length data \<and> b = bytes_at (i * bs) bs data \<and> length b = bs"
  by (auto simp: block_at_def split: if_splits)

lemma block_in_image: "i < n \<Longrightarrow> n * bs \<le> length data \<Longrightarrow> (i + 1) * bs \<le> length data" for i n bs :: nat
  using mult_le_mono1[of "i + 1" n bs] by linarith

lemma block_at_in: "i < n \<Longrightarrow> n * bs \<le> length data \<Longrightarrow> block_at data bs i = Some (bytes_at (i * bs) bs data)"
  using block_in_image[of i n bs data] by (simp add: block_at_def)

text \<open>A fresh tracker is sound: nothing is matched yet.\<close>

lemma tracker_sound_create:
  assumes "fsd_block_tracker_create mok n bs = Inr t" and "n < 2 ^ 63" and "n * bs = length dest"
  shows "tracker_sound src dest bs t"
  using tracker_create_inv[OF assms(1,2)] assms(3)
  by (intro tracker_sound_intro) (auto simp: block_sound_def fresh_block_def)

text \<open>Recording a match that is right keeps the tracker sound.\<close>

lemma tracker_sound_set_match:
  assumes "tracker_sound src dest bs t" and "m \<noteq> FSD_MATCH_NONE"
    and "i < t_count t \<Longrightarrow> b_match_type (t_blocks t ! i) = FSD_MATCH_NONE \<Longrightarrow>
      block_sound src dest bs i ((t_blocks t ! i)\<lparr>b_match_type := m, b_src_index := s\<rparr>)"
  shows "tracker_sound src dest bs (fsd_block_tracker_set_match i m s t)"
proof -
  have inv: "tracker_inv t" using assms(1) by (simp add: tracker_sound_def)
  have "block_sound src dest bs j (t_blocks (fsd_block_tracker_set_match i m s t) ! j)"
    if "j < t_count t" for j
    using assms that tracker_inv_sizes(1)[OF inv]
    by (auto simp: tracker_sound_def blocks_right_def fsd_block_tracker_set_match_def nth_list_update)
  then show ?thesis
    using assms(1) tracker_set_match_inv[OF inv assms(2)] by (intro tracker_sound_intro) (simp_all add: tracker_sound_def blocks_right_def)
qed

lemma tracker_sound_set_crc32:
  assumes "tracker_sound src dest bs t"
  shows "tracker_sound src dest bs (fsd_block_tracker_set_crc32 i c t)"
proof -
  have inv: "tracker_inv t" using assms(1) by (simp add: tracker_sound_def)
  have "block_sound src dest bs j (b\<lparr>b_crc32 := c\<rparr>) = block_sound src dest bs j b" for j b
    by (simp add: block_sound_def cong: fsd_match_type.case_cong)
  then have "block_sound src dest bs j (t_blocks (fsd_block_tracker_set_crc32 i c t) ! j)"
    if "j < t_count t" for j
    using assms that tracker_inv_sizes(1)[OF inv]
    by (auto simp: tracker_sound_def blocks_right_def fsd_block_tracker_set_crc32_def nth_list_update)
  then show ?thesis
    using assms(1) tracker_set_crc32_inv[OF inv] by (intro tracker_sound_intro) (simp_all add: tracker_sound_def blocks_right_def)
qed

text \<open>Finalizing changes no block.\<close>

lemma fold_finalize_blocks: "t_blocks (fold finalize_block is t) = t_blocks t \<and>
    t_count (fold finalize_block is t) = t_count t \<and>
    t_block_size (fold finalize_block is t) = t_block_size t"
  by (induction "is" arbitrary: t) (auto simp: finalize_block_def)

lemma finalize_blocks [simp]:
  "t_blocks (fsd_block_tracker_finalize t) = t_blocks t"
  "t_count (fsd_block_tracker_finalize t) = t_count t"
  by (simp_all add: fsd_block_tracker_finalize_def fold_finalize_blocks)

lemma blocks_right_finalize: "blocks_right src dest bs t \<Longrightarrow> blocks_right src dest bs (fsd_block_tracker_finalize t)"
  by (simp add: blocks_right_def)

text \<open>Recording a partial match: the match, then its delta.\<close>

definition partial_at :: "bytes \<Rightarrow> bytes \<Rightarrow> nat \<Rightarrow> nat \<Rightarrow> nat \<Rightarrow> block_tracker \<Rightarrow> block_tracker" where
  "partial_at src dest bs i p t =
     fsd_block_tracker_set_delta i (int (p mod bs))
       (map2 (-) (bytes_at (i * bs) bs dest) (bytes_at p bs src)) bs
       (fsd_block_tracker_set_match i FSD_MATCH_PARTIAL (p div bs) t)"

lemma map2_add_sub: "length xs = length ys \<Longrightarrow> map2 (+) ys (map2 (-) xs ys) = xs" for xs ys :: bytes
  by (simp add: list_eq_iff_nth_eq)

lemma tracker_sound_partial_at:
  assumes "tracker_sound src dest bs t" and "fsd_block_tracker_is_unmatched t i" and "p + bs \<le> length src"
  shows "tracker_sound src dest bs (partial_at src dest bs i p t)"
proof -
  let ?b = "t_blocks t ! i" and ?t = "partial_at src dest bs i p t"
  let ?d = "map2 (-) (bytes_at (i * bs) bs dest) (bytes_at p bs src)"
  have inv: "tracker_inv t" and cnt: "t_count t * bs = length dest" and len: "length (t_blocks t) = t_count t"
    using assms(1) by (simp_all add: tracker_sound_def blocks_right_def)
  have i: "i < t_count t" "b_match_type ?b = FSD_MATCH_NONE" using assms(2) tracker_is_unmatched[OF inv] by auto
  then have "(i + 1) * bs \<le> t_count t * bs" by (intro mult_le_mono1) simp
  then have l: "length (bytes_at (i * bs) bs dest) = bs" "length (bytes_at p bs src) = bs"
    using cnt assms(3) by simp_all
  have p: "int (p div bs) * int bs + int (p mod bs) = int p"
    by (metis div_mult_mod_eq of_nat_add of_nat_mult)
  have blocks: "t_blocks ?t = (t_blocks t)[i := ?b\<lparr>b_match_type := FSD_MATCH_PARTIAL, b_src_index := p div bs,
      b_byte_offset := int (p mod bs), b_delta := Some ?d, b_delta_size := bs\<rparr>]"
    using i len by (simp add: partial_at_def fsd_block_tracker_set_delta_def fsd_block_tracker_set_match_def)
  have count: "t_count ?t = t_count t" by (simp add: partial_at_def)
  show ?thesis
  proof (rule tracker_sound_intro)
    show "tracker_inv ?t"
      unfolding partial_at_def by (intro tracker_set_delta_inv tracker_set_match_inv inv) simp
    show "t_count ?t * bs = length dest" using count cnt by simp
    fix j assume j: "j < t_count ?t"
    show "block_sound src dest bs j (t_blocks ?t ! j)"
    proof (cases "j = i")
      case True
      have "map2 (+) (bytes_at p bs src) ?d = bytes_at (i * bs) bs dest"
        by (rule map2_add_sub) (use l in simp)
      then have "block_sound src dest bs i (t_blocks ?t ! i)"
        unfolding blocks using i(1) len assms(3) l p by (simp add: block_sound_def Let_def)
      with True show ?thesis by simp
    next
      case False
      then show ?thesis using j count assms(1) unfolding blocks by (simp add: tracker_sound_def blocks_right_def)
    qed
  qed
qed

section \<open>The interface: a matching stage\<close>

text \<open>
  What the controller relies on: a stage that is ready for the images leaves a sound tracker
  sound and undoes no match, whatever it returns; it never faults, and it is cancelled only when it
  was interrupted.
\<close>

definition extends_matches :: "block_tracker \<Rightarrow> block_tracker \<Rightarrow> bool" where
  "extends_matches t t' \<longleftrightarrow> t_count t' = t_count t \<and> t_literal_count t' = t_literal_count t \<and>
     (\<forall>i. matched t i \<noteq> None \<longrightarrow> matched t' i = matched t i)"

lemma extends_matches_refl [simp]: "extends_matches t t"
  by (simp add: extends_matches_def)

lemma extends_matches_trans: "extends_matches t u \<Longrightarrow> extends_matches u v \<Longrightarrow> extends_matches t v"
  unfolding extends_matches_def by metis

lemma count_match_literal [simp]: "t_literal_count (count_match m t) = t_literal_count t"
  by (cases m) (simp_all add: count_match_def)

lemma extends_matches_setters:
  assumes "tracker_inv t"
  shows "m \<noteq> FSD_MATCH_NONE \<Longrightarrow> extends_matches t (fsd_block_tracker_set_match i m s t)"
    and "extends_matches t (fsd_block_tracker_set_crc32 i c t)"
    and "extends_matches t (fsd_block_tracker_set_delta i off d n t)"
  using tracker_inv_sizes(1)[OF assms]
  by (auto simp: extends_matches_def matched_def fsd_block_tracker_set_match_def fsd_block_tracker_set_crc32_def
      fsd_block_tracker_set_delta_def nth_list_update split: if_splits)

lemma extends_partial_at: "tracker_inv t \<Longrightarrow> extends_matches t (partial_at src dest bs i p t)"
  unfolding partial_at_def
  by (meson extends_matches_setters extends_matches_trans fsd_match_type.distinct tracker_set_match_inv)

text \<open>Matches are only added, so the number of unmatched blocks does not grow.\<close>

lemma extends_unmatched_count:
  assumes "tracker_inv t" and "tracker_inv t'" and "extends_matches t t'"
  shows "fsd_block_tracker_unmatched_count t' \<le> fsd_block_tracker_unmatched_count t"
proof -
  let ?U = "\<lambda>t. {i. i < t_count t \<and> b_match_type (t_blocks t ! i) = FSD_MATCH_NONE}"
  have "i \<in> ?U t" if "i \<in> ?U t'" for i
  proof (rule ccontr)
    assume "i \<notin> ?U t"
    with that assms(3) have "matched t i \<noteq> None" by (auto simp: extends_matches_def matched_def)
    then have "matched t' i \<noteq> None" using assms(3) by (simp add: extends_matches_def)
    then show False using that by (simp add: matched_def split: if_splits)
  qed
  then have "?U t' \<subseteq> ?U t" by blast
  then have "card (?U t') \<le> card (?U t)" by (intro card_mono) simp_all
  then show ?thesis
    using tracker_unmatched_count_card[OF assms(1)] tracker_unmatched_count_card[OF assms(2)]
      tracker_inv_sizes(1)[OF assms(1)] tracker_inv_sizes(1)[OF assms(2)]
    by (simp add: count_type_def length_filter_conv_card)
qed

section \<open>Loops over the blocks\<close>

lemma fold_stage_sound:
  assumes "\<And>i t. tracker_sound src dest bs t \<Longrightarrow> tracker_sound src dest bs (f i t)"
    and "\<And>i t. tracker_sound src dest bs t \<Longrightarrow> extends_matches t (f i t)"
    and "tracker_sound src dest bs t"
  shows "tracker_sound src dest bs (fold f ks t) \<and> extends_matches t (fold f ks t)"
  using assms(3)
proof (induction ks arbitrary: t)
  case (Cons i ks)
  have "extends_matches t (f i t)" by (rule assms(2)[OF Cons.prems])
  with Cons.IH[OF assms(1)[OF Cons.prems, of i]] show ?case using extends_matches_trans by auto
qed simp

definition match_of :: "block_state \<Rightarrow> (fsd_match_type \<times> nat) option" where
  "match_of b = (if b_match_type b = FSD_MATCH_NONE then None else Some (b_match_type b, b_src_index b))"

lemma matched_match_of: "i < t_count t \<Longrightarrow> matched t i = match_of (t_blocks t ! i)"
  by (simp add: matched_def match_of_def)

text \<open>
  An update that changes the tracker block by block: iteration \<^verbatim>\<open>i\<close> touches block \<^verbatim>\<open>i\<close> only, and
  relates its states before and after by \<^verbatim>\<open>effect i\<close>.
\<close>

definition blockwise :: "(nat \<Rightarrow> block_tracker \<Rightarrow> block_tracker) \<Rightarrow> (nat \<Rightarrow> block_state \<Rightarrow> block_state \<Rightarrow> bool) \<Rightarrow> bool" where
  "blockwise f effect \<longleftrightarrow> (\<forall>t i. tracker_inv t \<longrightarrow> i < t_count t \<longrightarrow>
     tracker_inv (f i t) \<and> t_count (f i t) = t_count t \<and> effect i (t_blocks t ! i) (t_blocks (f i t) ! i) \<and>
     (\<forall>j. j \<noteq> i \<longrightarrow> t_blocks (f i t) ! j = t_blocks t ! j))"

lemma blockwiseI:
  assumes "\<And>t i. tracker_inv t \<Longrightarrow> i < t_count t \<Longrightarrow> tracker_inv (f i t)"
    and "\<And>t i. tracker_inv t \<Longrightarrow> i < t_count t \<Longrightarrow> t_count (f i t) = t_count t"
    and "\<And>t i. tracker_inv t \<Longrightarrow> i < t_count t \<Longrightarrow> effect i (t_blocks t ! i) (t_blocks (f i t) ! i)"
    and "\<And>t i j. tracker_inv t \<Longrightarrow> i < t_count t \<Longrightarrow> j \<noteq> i \<Longrightarrow> t_blocks (f i t) ! j = t_blocks t ! j"
  shows "blockwise f effect"
  using assms by (simp add: blockwise_def)

lemma blockwise_fold:
  assumes "blockwise f effect" and "tracker_inv t" and "k \<le> t_count t"
  shows "let u = fold f [0..<k] t in tracker_inv u \<and> t_count u = t_count t \<and>
    (\<forall>i < k. effect i (t_blocks t ! i) (t_blocks u ! i)) \<and> (\<forall>i \<ge> k. t_blocks u ! i = t_blocks t ! i)"
  using assms(3)
proof (induction k)
  case (Suc k)
  let ?u = "fold f [0..<k] t"
  have IH: "tracker_inv ?u" "t_count ?u = t_count t" "\<forall>i < k. effect i (t_blocks t ! i) (t_blocks ?u ! i)"
    "\<forall>i \<ge> k. t_blocks ?u ! i = t_blocks t ! i"
    using Suc by (simp_all add: Let_def)
  moreover have "k < t_count ?u" using Suc.prems IH(2) by simp
  ultimately have "tracker_inv (f k ?u) \<and> t_count (f k ?u) = t_count ?u \<and>
      effect k (t_blocks ?u ! k) (t_blocks (f k ?u) ! k) \<and> (\<forall>j. j \<noteq> k \<longrightarrow> t_blocks (f k ?u) ! j = t_blocks ?u ! j)"
    using assms(1) unfolding blockwise_def by blast
  with IH show ?case by (auto simp: Let_def less_Suc_eq)
qed (use assms(2) in simp)

section \<open>The contract\<close>

locale matching_stage =
  fixes run :: "'s \<Rightarrow> block_tracker \<Rightarrow> bytes \<Rightarrow> bytes \<Rightarrow> fsd_error \<times> 's \<times> block_tracker"
    and ready :: "bytes \<Rightarrow> bytes \<Rightarrow> nat \<Rightarrow> 's \<Rightarrow> bool"
    and interrupted :: "'s \<Rightarrow> bool"
  assumes run_sound: "ready src dest bs s \<Longrightarrow> tracker_sound src dest bs t \<Longrightarrow> run s t src dest = (e, s', t') \<Longrightarrow>
    tracker_sound src dest bs t' \<and> extends_matches t t'"
    and run_result: "ready src dest bs s \<Longrightarrow> tracker_sound src dest bs t \<Longrightarrow> run s t src dest = (e, s', t') \<Longrightarrow>
      e \<in> {FSD_SUCCESS, FSD_ERR_OUT_OF_MEMORY} \<or> e = FSD_ERR_CANCELLED \<and> interrupted s"
begin

text \<open>The progress a controller reports after a stage has not gone back.\<close>

lemma run_progress:
  assumes "ready src dest bs s" and "tracker_sound src dest bs t" and "run s t src dest = (e, s', t')"
  shows "fsd_block_tracker_unmatched_count t' \<le> fsd_block_tracker_unmatched_count t"
  using run_sound[OF assms] assms(2) by (intro extends_unmatched_count) (simp_all add: tracker_sound_def)

end

end
