(* ===== verification/Simd.thy ===== *)
theory Simd
  imports Fsd_Base
begin

text \<open>
  The byte kernels of \<^verbatim>\<open>src/simd\<close>: the scalar routines that work on 64-bit words, the AVX2
  routines on 32-byte vectors, the NEON routines on 16-byte vectors, and the run-time choice
  between them. The vector instructions are modelled lane by lane. The three families are
  interpretations of one interface, so that every client may use whichever was selected.
\<close>

section \<open>Reference meaning\<close>

definition all_bytes :: "byte \<Rightarrow> bytes \<Rightarrow> nat \<Rightarrow> bool" where
  "all_bytes v data len \<longleftrightarrow> (\<forall>i < len. data ! i = v)"

definition equal_bytes :: "bytes \<Rightarrow> bytes \<Rightarrow> nat \<Rightarrow> nat" where
  "equal_bytes a b len = (\<Sum>i<len. of_bool (a ! i = b ! i))"

section \<open>Scalar kernels\<close>

text \<open>\<^verbatim>\<open>memcpy\<close> of eight bytes into a \<^verbatim>\<open>uint64_t\<close>, on a little-endian host.\<close>

definition load_word :: "bytes \<Rightarrow> nat \<Rightarrow> 64 word" where
  "load_word data off = word_rcat (rev (map (\<lambda>k. data ! (off + k)) [0..<8]))"

definition tail_is :: "byte \<Rightarrow> bytes \<Rightarrow> nat \<Rightarrow> nat \<Rightarrow> bool" where
  "tail_is v data start len \<longleftrightarrow> list_all (\<lambda>i. data ! i = v) [start..<len]"

definition fsd_scalar_is_zero :: "bytes \<Rightarrow> nat \<Rightarrow> bool" where
  "fsd_scalar_is_zero data len =
     (let word_count = len div 8 in
      list_all (\<lambda>i. load_word data (i * 8) = 0) [0..<word_count] \<and> tail_is 0 data (word_count * 8) len)"

definition fsd_scalar_is_one :: "bytes \<Rightarrow> nat \<Rightarrow> bool" where
  "fsd_scalar_is_one data len =
     (let word_count = len div 8; all_ones = 0xFFFFFFFFFFFFFFFF in
      list_all (\<lambda>i. load_word data (i * 8) = all_ones) [0..<word_count] \<and>
      tail_is 0xFF data (word_count * 8) len)"

primrec count_zero_bytes :: "nat \<Rightarrow> 64 word \<Rightarrow> nat \<Rightarrow> nat" where
  "count_zero_bytes 0 diff count = count"
| "count_zero_bytes (Suc j) diff count =
     count_zero_bytes j (drop_bit 8 diff) (if diff AND 0xFF = 0 then count + 1 else count)"

definition count_tail :: "bytes \<Rightarrow> bytes \<Rightarrow> nat \<Rightarrow> nat \<Rightarrow> nat \<Rightarrow> nat" where
  "count_tail a b start len count =
     foldl (\<lambda>c i. if a ! i = b ! i then c + 1 else c) count [start..<len]"

definition fsd_scalar_count_matches :: "bytes \<Rightarrow> bytes \<Rightarrow> nat \<Rightarrow> nat" where
  "fsd_scalar_count_matches a b len =
     (let word_count = len div 8;
          count = foldl (\<lambda>c i.
              let diff = load_word a (i * 8) XOR load_word b (i * 8) in
              if diff = 0 then c + 8 else count_zero_bytes 8 diff c) 0 [0..<word_count]
      in count_tail a b (word_count * 8) len count)"

section \<open>AVX2 kernels\<close>

text \<open>A \<^verbatim>\<open>__m256i\<close> register is the list of its 32 byte lanes.\<close>

definition mm256_loadu_si256 :: "bytes \<Rightarrow> nat \<Rightarrow> bytes" where
  "mm256_loadu_si256 data i = map (\<lambda>k. data ! (i * 32 + k)) [0..<32]"

definition cmpeq_lanes :: "bytes \<Rightarrow> bytes \<Rightarrow> bytes" where
  "cmpeq_lanes x y = map2 (\<lambda>a b. if a = b then 0xFF else 0) x y"

definition mm256_movemask_epi8 :: "bytes \<Rightarrow> 32 word" where
  "mm256_movemask_epi8 v = horner_sum of_bool 2 (map (\<lambda>x. bit x 7) v)"

definition popcount32 :: "32 word \<Rightarrow> nat" where
  "popcount32 m = (\<Sum>k<32. of_bool (bit m k))"

definition fsd_avx2_is_zero :: "bytes \<Rightarrow> nat \<Rightarrow> bool" where
  "fsd_avx2_is_zero data len =
     (let zero = replicate 32 0; vec_count = len div 32 in
      list_all (\<lambda>i. mm256_movemask_epi8 (cmpeq_lanes (mm256_loadu_si256 data i) zero) = 0xFFFFFFFF)
        [0..<vec_count] \<and>
      tail_is 0 data (vec_count * 32) len)"

definition fsd_avx2_is_one :: "bytes \<Rightarrow> nat \<Rightarrow> bool" where
  "fsd_avx2_is_one data len =
     (let ones = replicate 32 0xFF; vec_count = len div 32 in
      list_all (\<lambda>i. mm256_movemask_epi8 (cmpeq_lanes (mm256_loadu_si256 data i) ones) = 0xFFFFFFFF)
        [0..<vec_count] \<and>
      tail_is 0xFF data (vec_count * 32) len)"

definition fsd_avx2_count_matches :: "bytes \<Rightarrow> bytes \<Rightarrow> nat \<Rightarrow> nat" where
  "fsd_avx2_count_matches a b len =
     (let vec_count = len div 32;
          count = foldl (\<lambda>c i. c + popcount32 (mm256_movemask_epi8
              (cmpeq_lanes (mm256_loadu_si256 a i) (mm256_loadu_si256 b i)))) 0 [0..<vec_count]
      in count_tail a b (vec_count * 32) len count)"

section \<open>NEON kernels\<close>

text \<open>A \<^verbatim>\<open>uint8x16_t\<close> register is the list of its 16 byte lanes.\<close>

definition vld1q_u8 :: "bytes \<Rightarrow> nat \<Rightarrow> bytes" where
  "vld1q_u8 data off = map (\<lambda>k. data ! (off + k)) [0..<16]"

definition vreinterpretq_u64_u8 :: "bytes \<Rightarrow> 64 word list" where
  "vreinterpretq_u64_u8 v = [load_word v 0, load_word v 8]"

text \<open>Pairwise widening addition, \<^verbatim>\<open>vpaddlq_u8\<close>, \<^verbatim>\<open>_u16\<close> and \<^verbatim>\<open>_u32\<close>.\<close>

fun vpaddlq :: "'a::len word list \<Rightarrow> 'b::len word list" where
  "vpaddlq (x # y # zs) = (ucast x + ucast y) # vpaddlq zs"
| "vpaddlq _ = []"

definition neon_all_ones :: "bytes \<Rightarrow> bool" where
  "neon_all_ones cmp =
     (let as64 = vreinterpretq_u64_u8 cmp in
      \<not> (as64 ! 0 \<noteq> 0xFFFFFFFFFFFFFFFF \<or> as64 ! 1 \<noteq> 0xFFFFFFFFFFFFFFFF))"

definition fsd_neon_is_zero :: "bytes \<Rightarrow> nat \<Rightarrow> bool" where
  "fsd_neon_is_zero data len =
     (let zero = replicate 16 0; vec_count = len div 16 in
      list_all (\<lambda>i. neon_all_ones (cmpeq_lanes (vld1q_u8 data (i * 16)) zero)) [0..<vec_count] \<and>
      tail_is 0 data (vec_count * 16) len)"

definition fsd_neon_is_one :: "bytes \<Rightarrow> nat \<Rightarrow> bool" where
  "fsd_neon_is_one data len =
     (let ones = replicate 16 0xFF; vec_count = len div 16 in
      list_all (\<lambda>i. neon_all_ones (cmpeq_lanes (vld1q_u8 data (i * 16)) ones)) [0..<vec_count] \<and>
      tail_is 0xFF data (vec_count * 16) len)"

definition neon_count_lanes :: "bytes \<Rightarrow> bytes \<Rightarrow> nat" where
  "neon_count_lanes va vb =
     (let cmp = cmpeq_lanes va vb;
          ones = map (drop_bit 7) cmp;
          sum16 = vpaddlq ones :: 16 word list;
          sum32 = vpaddlq sum16 :: 32 word list;
          sum64 = vpaddlq sum32 :: 64 word list
      in unat (sum64 ! 0 + sum64 ! 1))"

definition fsd_neon_count_matches :: "bytes \<Rightarrow> bytes \<Rightarrow> nat \<Rightarrow> nat" where
  "fsd_neon_count_matches a b len =
     (let vec_count = len div 16;
          count = foldl (\<lambda>c i. c + neon_count_lanes (vld1q_u8 a (i * 16)) (vld1q_u8 b (i * 16)))
            0 [0..<vec_count]
      in count_tail a b (vec_count * 16) len count)"

section \<open>Dispatch\<close>

text \<open>The capability flags the dispatch table records.\<close>

definition FSD_SIMD_NONE :: "32 word" where "FSD_SIMD_NONE = 0"
definition FSD_SIMD_SSE2 :: "32 word" where "FSD_SIMD_SSE2 = push_bit 0 1"
definition FSD_SIMD_AVX :: "32 word" where "FSD_SIMD_AVX = push_bit 1 1"
definition FSD_SIMD_AVX2 :: "32 word" where "FSD_SIMD_AVX2 = push_bit 2 1"
definition FSD_SIMD_NEON :: "32 word" where "FSD_SIMD_NEON = push_bit 3 1"

record simd_dispatch =
  sd_caps :: "32 word"
  sd_name :: "string option"
  sd_is_zero :: "(bytes \<Rightarrow> nat \<Rightarrow> bool) option"
  sd_is_one :: "(bytes \<Rightarrow> nat \<Rightarrow> bool) option"
  sd_count_matches :: "(bytes \<Rightarrow> bytes \<Rightarrow> nat \<Rightarrow> nat) option"

text \<open>The table before \<^verbatim>\<open>fsd_simd_init\<close>: all zero.\<close>

definition g_fsd_simd_zero :: simd_dispatch where
  "g_fsd_simd_zero = \<lparr>sd_caps = 0, sd_name = None, sd_is_zero = None, sd_is_one = None,
     sd_count_matches = None\<rparr>"

text \<open>
  What \<^verbatim>\<open>cpuid\<close>, \<^verbatim>\<open>xgetbv\<close> and \<^verbatim>\<open>getauxval\<close> answer, and the target the program was
  compiled for.
\<close>

record cpu =
  cpuid1_ecx :: "32 word"
  cpuid1_edx :: "32 word"
  cpuid0_eax :: "32 word"
  cpuid7_ebx :: "32 word"
  xgetbv0 :: "64 word"
  hwcap_neon :: bool

datatype target = FSD_X86 | FSD_ARM64 | FSD_ARM32_LINUX | FSD_ARM32_OTHER | OTHER_ARCH

definition os_saves_ymm :: "cpu \<Rightarrow> bool" where
  "os_saves_ymm c \<longleftrightarrow> cpuid1_ecx c AND push_bit 27 1 \<noteq> 0 \<and> xgetbv0 c AND 0x6 = 0x6"

definition detect_x86_caps :: "cpu \<Rightarrow> 32 word" where
  "detect_x86_caps c =
     (let caps = FSD_SIMD_NONE;
          caps = (if cpuid1_edx c AND push_bit 26 1 \<noteq> 0 then caps OR FSD_SIMD_SSE2 else caps);
          caps = (if os_saves_ymm c \<and> cpuid1_ecx c AND push_bit 28 1 \<noteq> 0 then caps OR FSD_SIMD_AVX
                  else caps);
          caps = (if os_saves_ymm c \<and> 7 \<le> sint (cpuid0_eax c) \<and> cpuid7_ebx c AND push_bit 5 1 \<noteq> 0
                  then caps OR FSD_SIMD_AVX2 else caps)
      in caps)"

definition detect_arm_caps :: "target \<Rightarrow> cpu \<Rightarrow> 32 word" where
  "detect_arm_caps tgt c =
     (if tgt = FSD_ARM32_LINUX then (if hwcap_neon c then FSD_SIMD_NEON else FSD_SIMD_NONE)
      else FSD_SIMD_NEON)"

definition setup_scalar_dispatch :: simd_dispatch where
  "setup_scalar_dispatch = \<lparr>sd_caps = FSD_SIMD_NONE, sd_name = Some ''scalar'',
     sd_is_zero = Some fsd_scalar_is_zero, sd_is_one = Some fsd_scalar_is_one,
     sd_count_matches = Some fsd_scalar_count_matches\<rparr>"

definition setup_avx2_dispatch :: simd_dispatch where
  "setup_avx2_dispatch = \<lparr>sd_caps = FSD_SIMD_AVX2, sd_name = Some ''AVX2'',
     sd_is_zero = Some fsd_avx2_is_zero, sd_is_one = Some fsd_avx2_is_one,
     sd_count_matches = Some fsd_avx2_count_matches\<rparr>"

definition setup_neon_dispatch :: simd_dispatch where
  "setup_neon_dispatch = \<lparr>sd_caps = FSD_SIMD_NEON, sd_name = Some ''NEON'',
     sd_is_zero = Some fsd_neon_is_zero, sd_is_one = Some fsd_neon_is_one,
     sd_count_matches = Some fsd_neon_count_matches\<rparr>"

text \<open>\<^verbatim>\<open>has_avx2\<close> and \<^verbatim>\<open>has_neon\<close> are the build flags \<^verbatim>\<open>FSDIFF_HAS_AVX2\<close> and \<^verbatim>\<open>FSDIFF_HAS_NEON\<close>.\<close>

definition fsd_simd_init :: "bool \<Rightarrow> bool \<Rightarrow> target \<Rightarrow> cpu \<Rightarrow> simd_dispatch" where
  "fsd_simd_init has_avx2 has_neon tgt c =
     (let d = setup_scalar_dispatch in
      if tgt = FSD_X86 then
        (if has_avx2 \<and> detect_x86_caps c AND FSD_SIMD_AVX2 \<noteq> 0 then setup_avx2_dispatch else d)
      else if tgt \<in> {FSD_ARM64, FSD_ARM32_LINUX, FSD_ARM32_OTHER} then
        (if has_neon \<and> detect_arm_caps tgt c AND FSD_SIMD_NEON \<noteq> 0 then setup_neon_dispatch else d)
      else d)"

definition fsd_simd_force_scalar :: "simd_dispatch \<Rightarrow> simd_dispatch" where
  "fsd_simd_force_scalar d = setup_scalar_dispatch"

definition fsd_simd_get_caps :: "simd_dispatch \<Rightarrow> 32 word" where
  "fsd_simd_get_caps d = sd_caps d"

definition fsd_simd_get_name :: "simd_dispatch \<Rightarrow> string" where
  "fsd_simd_get_name d = (case sd_name d of Some n \<Rightarrow> n | None \<Rightarrow> ''uninitialized'')"

section \<open>The interface: byte kernels\<close>

locale byte_kernels =
  fixes is_zero :: "bytes \<Rightarrow> nat \<Rightarrow> bool"
    and is_one :: "bytes \<Rightarrow> nat \<Rightarrow> bool"
    and count_matches :: "bytes \<Rightarrow> bytes \<Rightarrow> nat \<Rightarrow> nat"
  assumes is_zero: "is_zero data len \<longleftrightarrow> all_bytes 0 data len"
    and is_one: "is_one data len \<longleftrightarrow> all_bytes 0xFF data len"
    and count_matches: "count_matches a b len = equal_bytes a b len"
begin

lemma count_le: "count_matches a b len \<le> len"
  unfolding count_matches equal_bytes_def by (rule order_trans[OF sum_bounded_above[where K = 1]]) auto

lemma count_full: "count_matches a b len = len \<longleftrightarrow> (\<forall>i < len. a ! i = b ! i)"
proof
  assume full: "count_matches a b len = len"
  show "\<forall>i < len. a ! i = b ! i"
  proof (rule ccontr)
    assume "\<not> (\<forall>i < len. a ! i = b ! i)"
    then obtain i where i: "i < len" "a ! i \<noteq> b ! i" by blast
    have "(\<Sum>i<len. of_bool (a ! i = b ! i)) < (\<Sum>i<len. 1 :: nat)"
      by (rule sum_strict_mono_ex1) (use i in auto)
    then show False using full by (simp add: count_matches equal_bytes_def)
  qed
qed (simp add: count_matches equal_bytes_def)

lemma zero_block: "len \<le> length data \<Longrightarrow> is_zero data len \<longleftrightarrow> take len data = replicate len 0"
  by (auto simp: is_zero all_bytes_def list_eq_iff_nth_eq)

lemma one_block: "len \<le> length data \<Longrightarrow> is_one data len \<longleftrightarrow> take len data = replicate len 0xFF"
  by (auto simp: is_one all_bytes_def list_eq_iff_nth_eq)

end

section \<open>Vectors of several bytes at a time\<close>

lemma all_in_blocks:
  fixes n w :: nat
  assumes "0 < w"
  shows "(\<forall>i < n div w. \<forall>k < w. P (i * w + k)) \<and> (\<forall>i. n div w * w \<le> i \<and> i < n \<longrightarrow> P i) \<longleftrightarrow>
    (\<forall>i < n. P i)" (is "?L \<longleftrightarrow> _")
proof
  assume L: ?L
  show "\<forall>i < n. P i"
  proof (intro allI impI)
    fix i assume "i < n"
    show "P i"
    proof (cases "i < n div w * w")
      case True
      then have "i div w < n div w" by (rule less_mult_imp_div_less)
      then have "P (i div w * w + i mod w)" using L mod_less_divisor[OF assms] by blast
      then show ?thesis by simp
    next
      case False
      then show ?thesis using L \<open>i < n\<close> by simp
    qed
  qed
next
  assume R: "\<forall>i < n. P i"
  have "i * w + k < n" if "i < n div w" "k < w" for i k
  proof -
    have "i * w + k < Suc i * w" using that(2) by simp
    also have "\<dots> \<le> n div w * w" using that(1) by (intro mult_le_mono1) simp
    finally show ?thesis by (meson div_times_less_eq_dividend order_less_le_trans)
  qed
  then show ?L using R by simp
qed

lemma sum_in_blocks:
  fixes f :: "nat \<Rightarrow> nat"
  shows "(\<Sum>i<n div w. \<Sum>k<w. f (i * w + k)) + (\<Sum>i = n div w * w..<n. f i) = (\<Sum>i<n. f i)"
proof -
  have "(\<Sum>k<w. f (i * w + k)) = sum f {i * w..<i * w + w}" for i
    using sum.shift_bounds_nat_ivl[of f 0 "i * w" w] by (simp add: lessThan_atLeast0 add.commute)
  then have "(\<Sum>i<n div w. \<Sum>k<w. f (i * w + k)) = sum f {..<n div w * w}"
    using sum.nat_group[of f w "n div w"] by simp
  then show ?thesis
    using sum.atLeastLessThan_concat[of 0 "n div w * w" n f] by (simp add: lessThan_atLeast0)
qed

lemma foldl_sum: "foldl (\<lambda>c i. c + f i) (c0 :: nat) [m..<n] = c0 + (\<Sum>i = m..<n. f i)"
  by (induction n) auto

lemma tail_is_iff: "tail_is v data start len \<longleftrightarrow> (\<forall>i. start \<le> i \<and> i < len \<longrightarrow> data ! i = v)"
  by (auto simp: tail_is_def list_all_iff)

lemma count_tail_eq: "count_tail a b start len c = c + (\<Sum>i = start..<len. of_bool (a ! i = b ! i))"
proof -
  have "(\<lambda>(c :: nat) i. if a ! i = b ! i then c + 1 else c) = (\<lambda>c i. c + of_bool (a ! i = b ! i))"
    by (auto simp: fun_eq_iff)
  then show ?thesis unfolding count_tail_def by (simp add: foldl_sum)
qed

text \<open>A kernel that tests blocks and then the tail tests every byte, and one that counts counts every byte.\<close>

lemma block_test:
  assumes "0 < w" and "\<And>i. i < len div w \<Longrightarrow> T i \<longleftrightarrow> (\<forall>k < w. data ! (i * w + k) = v)"
  shows "list_all T [0..<len div w] \<and> tail_is v data (len div w * w) len \<longleftrightarrow> all_bytes v data len"
  using all_in_blocks[OF assms(1), of len "\<lambda>i. data ! i = v"] assms(2)
  by (auto simp: list_all_iff tail_is_iff all_bytes_def)

lemma block_count:
  assumes "\<And>i. g i = (\<Sum>k<w. of_bool (a ! (i * w + k) = b ! (i * w + k)))"
  shows "count_tail a b (len div w * w) len (foldl (\<lambda>c i. c + g i) 0 [0..<len div w]) = equal_bytes a b len"
  using sum_in_blocks[where f = "\<lambda>i. of_bool (a ! i = b ! i)" and n = len and w = w]
  by (simp add: count_tail_eq foldl_sum assms equal_bytes_def lessThan_atLeast0)

section \<open>The scalar kernels meet the interface\<close>

lemma bit_load_word: "bit (load_word data off) n \<longleftrightarrow> n < 64 \<and> bit (data ! (off + n div 8)) (n mod 8)"
proof (cases "n < 64")
  case True
  then have "n div 8 < 8" by (simp add: div_less_iff_less_mult)
  then show ?thesis
    using True bit_horner_sum_uint_exp_iff[of "map (\<lambda>k. data ! (off + k)) [0..<8]" n]
    by (simp add: load_word_def word_rcat_def bit_word_of_int_iff del: upt_Suc)
qed (simp add: load_word_def word_rcat_def bit_word_of_int_iff)

lemma load_word_eq_iff: "load_word a m = load_word b n \<longleftrightarrow> (\<forall>k < 8. a ! (m + k) = b ! (n + k))"
proof
  assume eq: "load_word a m = load_word b n"
  show "\<forall>k < 8. a ! (m + k) = b ! (n + k)"
  proof (intro allI impI bit_word_eqI)
    fix k j :: nat assume "k < 8" "j < LENGTH(8)"
    then have "(8 * k + j) div 8 = k" "(8 * k + j) mod 8 = j" "8 * k + j < 64" by simp_all
    then show "bit (a ! (m + k)) j = bit (b ! (n + k)) j"
      using bit_load_word[of a m "8 * k + j"] bit_load_word[of b n "8 * k + j"] eq by simp
  qed
next
  assume "\<forall>k < 8. a ! (m + k) = b ! (n + k)"
  then show "load_word a m = load_word b n"
    by (intro bit_word_eqI) (simp add: bit_load_word div_less_iff_less_mult)
qed

lemma load_word_const:
  "load_word data off = 0 \<longleftrightarrow> (\<forall>k < 8. data ! (off + k) = 0)"
  "load_word data off = 0xFFFFFFFFFFFFFFFF \<longleftrightarrow> (\<forall>k < 8. data ! (off + k) = 0xFF)"
proof -
  have "load_word (replicate 8 0) 0 = 0" "load_word (replicate 8 0xFF) 0 = 0xFFFFFFFFFFFFFFFF"
    by code_simp+
  then show "load_word data off = 0 \<longleftrightarrow> (\<forall>k < 8. data ! (off + k) = 0)"
      "load_word data off = 0xFFFFFFFFFFFFFFFF \<longleftrightarrow> (\<forall>k < 8. data ! (off + k) = 0xFF)"
    using load_word_eq_iff[of data off "replicate 8 0" 0] load_word_eq_iff[of data off "replicate 8 0xFF" 0]
    by (simp_all)
qed

lemma count_zero_bytes_sum:
  "count_zero_bytes n diff c = c + (\<Sum>k<n. of_bool (drop_bit (8 * k) diff AND 0xFF = 0))"
proof (induction n arbitrary: diff c)
  case (Suc n)
  have "(\<Sum>k<Suc n. of_bool (drop_bit (8 * k) diff AND 0xFF = 0)) =
      of_bool (diff AND 0xFF = 0) + (\<Sum>k<n. of_bool (drop_bit (8 * k) (drop_bit 8 diff) AND 0xFF = 0) :: nat)"
    by (simp only: sum.lessThan_Suc_shift drop_bit_drop_bit) (simp add: ac_simps del: sum_of_bool_eq)
  then show ?case using Suc.IH[of "drop_bit 8 diff"] by (simp del: sum_of_bool_eq)
qed simp

lemma xor_byte_zero:
  assumes "k < 8"
  shows "drop_bit (8 * k) (load_word a m XOR load_word b n) AND 0xFF = 0 \<longleftrightarrow> a ! (m + k) = b ! (n + k)"
proof -
  let ?d = "drop_bit (8 * k) (load_word a m XOR load_word b n)"
  have "?d AND 0xFF = 0 \<longleftrightarrow> take_bit 8 ?d = 0" using take_bit_eq_mask[of 8 ?d] by (simp add: mask_eq_exp_minus_1)
  also have "\<dots> \<longleftrightarrow> (\<forall>j < 8. \<not> bit ?d j)"
    unfolding bit_eq_iff[of "take_bit 8 ?d"] bit_take_bit_iff by (auto simp del: drop_bit_xor)
  also have "\<dots> \<longleftrightarrow> (\<forall>j < 8. bit (a ! (m + k)) j = bit (b ! (n + k)) j)"
    using assms by (auto simp: bit_drop_bit_eq bit_xor_iff bit_load_word)
  also have "\<dots> \<longleftrightarrow> a ! (m + k) = b ! (n + k)" by (auto intro: bit_word_eqI)
  finally show ?thesis .
qed

lemma scalar_word_count:
  "(let diff = load_word a (i * 8) XOR load_word b (i * 8) in
    if diff = 0 then c + 8 else count_zero_bytes 8 diff c) =
   c + (\<Sum>k<8. of_bool (a ! (i * 8 + k) = b ! (i * 8 + k)))"
proof -
  have "(\<Sum>k<8. of_bool (drop_bit (8 * k) (load_word a (i * 8) XOR load_word b (i * 8)) AND 0xFF = 0)) =
      (\<Sum>k<8. of_bool (a ! (i * 8 + k) = b ! (i * 8 + k)) :: nat)"
    by (intro sum.cong refl) (simp only: xor_byte_zero lessThan_iff)
  moreover have "(\<Sum>k<8. of_bool (a ! (i * 8 + k) = b ! (i * 8 + k))) = (8 :: nat)"
    if "load_word a (i * 8) XOR load_word b (i * 8) = 0"
  proof -
    have "(load_word a (i * 8) XOR load_word b (i * 8)) XOR load_word b (i * 8) = load_word b (i * 8)"
      using that by simp
    then have "load_word a (i * 8) = load_word b (i * 8)" by (simp add: xor.assoc)
    then have "of_bool (a ! (i * 8 + k) = b ! (i * 8 + k)) = (1 :: nat)" if "k < 8" for k
      using that load_word_eq_iff[of a "i * 8" b "i * 8"] by simp
    then show ?thesis by (simp del: sum_of_bool_eq)
  qed
  ultimately show ?thesis by (simp add: Let_def count_zero_bytes_sum del: sum_of_bool_eq)
qed

interpretation scalar: byte_kernels fsd_scalar_is_zero fsd_scalar_is_one fsd_scalar_count_matches
proof unfold_locales
  show "fsd_scalar_is_zero data len \<longleftrightarrow> all_bytes 0 data len" for data len
    unfolding fsd_scalar_is_zero_def Let_def by (rule block_test) (simp_all add: load_word_const)
  show "fsd_scalar_is_one data len \<longleftrightarrow> all_bytes 0xFF data len" for data len
    unfolding fsd_scalar_is_one_def Let_def by (rule block_test) (simp_all add: load_word_const)
  show "fsd_scalar_count_matches a b len = equal_bytes a b len" for a b len
    unfolding fsd_scalar_count_matches_def scalar_word_count
    unfolding Let_def by (rule block_count) simp
qed

section \<open>The AVX2 kernels meet the interface\<close>

lemma length_cmpeq_lanes [simp]: "length (cmpeq_lanes x y) = min (length x) (length y)"
  by (simp add: cmpeq_lanes_def)

lemma cmpeq_lanes_nth: "k < length x \<Longrightarrow> k < length y \<Longrightarrow> cmpeq_lanes x y ! k = (if x ! k = y ! k then 0xFF else 0)"
  by (simp add: cmpeq_lanes_def)

lemma cmpeq_msb: "k < length x \<Longrightarrow> k < length y \<Longrightarrow> bit (cmpeq_lanes x y ! k) 7 \<longleftrightarrow> x ! k = y ! k"
  by (simp add: cmpeq_lanes_nth)

lemma bit_movemask: "bit (mm256_movemask_epi8 v) k \<longleftrightarrow> k < 32 \<and> k < length v \<and> bit (v ! k) 7"
  by (auto simp: mm256_movemask_epi8_def bit_horner_sum_bit_iff)

lemma length_loadu [simp]: "length (mm256_loadu_si256 data i) = 32"
  by (simp add: mm256_loadu_si256_def)

lemma loadu_nth [simp]: "k < 32 \<Longrightarrow> mm256_loadu_si256 data i ! k = data ! (i * 32 + k)"
  by (simp add: mm256_loadu_si256_def del: upt_Suc)

lemma movemask_full:
  assumes "length x = 32" and "length y = 32"
  shows "mm256_movemask_epi8 (cmpeq_lanes x y) = 0xFFFFFFFF \<longleftrightarrow> (\<forall>k < 32. x ! k = y ! k)"
proof -
  have "(0xFFFFFFFF :: 32 word) = -1" by simp
  moreover have "w = -1 \<longleftrightarrow> (\<forall>k < 32. bit w k)" for w :: "32 word"
    by (auto intro!: bit_word_eqI)
  ultimately have "mm256_movemask_epi8 (cmpeq_lanes x y) = 0xFFFFFFFF \<longleftrightarrow>
      (\<forall>k < 32. bit (mm256_movemask_epi8 (cmpeq_lanes x y)) k)" by presburger
  then show ?thesis using assms by (simp add: bit_movemask cmpeq_msb)
qed

lemma movemask_popcount:
  assumes "length x = 32" and "length y = 32"
  shows "popcount32 (mm256_movemask_epi8 (cmpeq_lanes x y)) = (\<Sum>k<32. of_bool (x ! k = y ! k))"
  unfolding popcount32_def by (intro sum.cong) (simp_all add: bit_movemask cmpeq_msb assms)

interpretation avx2: byte_kernels fsd_avx2_is_zero fsd_avx2_is_one fsd_avx2_count_matches
proof unfold_locales
  show "fsd_avx2_is_zero data len \<longleftrightarrow> all_bytes 0 data len" for data len
    unfolding fsd_avx2_is_zero_def Let_def
    by (rule block_test) (simp_all add: movemask_full)
  show "fsd_avx2_is_one data len \<longleftrightarrow> all_bytes 0xFF data len" for data len
    unfolding fsd_avx2_is_one_def Let_def
    by (rule block_test) (simp_all add: movemask_full)
  show "fsd_avx2_count_matches a b len = equal_bytes a b len" for a b len
    unfolding fsd_avx2_count_matches_def Let_def by (rule block_count) (simp add: movemask_popcount)
qed

section \<open>The NEON kernels meet the interface\<close>

lemma length_vld1q [simp]: "length (vld1q_u8 data off) = 16"
  by (simp add: vld1q_u8_def)

lemma vld1q_nth [simp]: "k < 16 \<Longrightarrow> vld1q_u8 data off ! k = data ! (off + k)"
  by (simp add: vld1q_u8_def del: upt_Suc)

lemma neon_all_ones_iff:
  assumes "length x = 16" and "length y = 16"
  shows "neon_all_ones (cmpeq_lanes x y) \<longleftrightarrow> (\<forall>k < 16. x ! k = y ! k)"
proof -
  have lane: "cmpeq_lanes x y ! k = 0xFF \<longleftrightarrow> x ! k = y ! k" if "k < 16" for k
    using that assms by (simp add: cmpeq_lanes_nth)
  have "neon_all_ones (cmpeq_lanes x y) \<longleftrightarrow> (\<forall>k < 8. x ! k = y ! k) \<and> (\<forall>k < 8. x ! (8 + k) = y ! (8 + k))"
    using lane by (simp add: neon_all_ones_def vreinterpretq_u64_u8_def load_word_const)
  also have "\<dots> \<longleftrightarrow> (\<forall>k < 16. x ! k = y ! k)"
  proof -
    have "k < 8 \<or> (\<exists>j < 8. k = 8 + j)" if "k < 16" for k :: nat
      using that le_Suc_ex[of 8 k] by fastforce
    then show ?thesis by (auto; meson)
  qed
  finally show ?thesis .
qed

text \<open>Pairwise sums of small lanes do not wrap: the lanes' values add up.\<close>

lemma length_vpaddlq [simp]: "length (vpaddlq xs) = length xs div 2"
  by (induction xs rule: vpaddlq.induct) auto

lemma vpaddlq_sum:
  fixes xs :: "'a::len word list"
  assumes "even (length xs)" and "\<And>x. x \<in> set xs \<Longrightarrow> unat x \<le> B" and "2 * B < 2 ^ LENGTH('b)"
    and "LENGTH('a) \<le> LENGTH('b)"
  shows "sum_list (map unat (vpaddlq xs :: 'b::len word list)) = sum_list (map unat xs) \<and>
    (\<forall>y \<in> set (vpaddlq xs :: 'b word list). unat y \<le> 2 * B)"
  using assms(1,2)
proof (induction xs rule: vpaddlq.induct)
  case (1 x y zs)
  have u: "unat (ucast x :: 'b word) = unat x" "unat (ucast y :: 'b word) = unat y"
    using assms(4) order_less_le_trans[OF unsigned_less[of x, where 'a = nat]]
      order_less_le_trans[OF unsigned_less[of y, where 'a = nat]]
    by (simp_all add: unsigned_ucast_eq take_bit_nat_eq_self)
  have "unat x + unat y \<le> 2 * B" using "1.prems"(2)[of x] "1.prems"(2)[of y] by simp
  then have "unat (ucast x + ucast y :: 'b word) = unat x + unat y"
    using assms(3) u by (simp add: unat_add_lem[THEN iffD1])
  then show ?case using 1 \<open>unat x + unat y \<le> 2 * B\<close> by auto
qed auto

lemma neon_count_lanes_eq:
  assumes "length x = 16" and "length y = 16"
  shows "neon_count_lanes x y = (\<Sum>k<16. of_bool (x ! k = y ! k))"
proof -
  let ?ones = "map (drop_bit 7) (cmpeq_lanes x y)"
  let ?s16 = "vpaddlq ?ones :: 16 word list"
  let ?s32 = "vpaddlq ?s16 :: 32 word list"
  let ?s64 = "vpaddlq ?s32 :: 64 word list"
  have lane: "unat (?ones ! k) = of_bool (x ! k = y ! k)" if "k < 16" for k
    using that assms by (simp add: cmpeq_lanes_nth)
  have small: "unat v \<le> 1" if v: "v \<in> set ?ones" for v
  proof -
    obtain k where "k < length ?ones" "v = ?ones ! k" using v unfolding in_set_conv_nth by blast
    then show ?thesis using lane[of k] assms by simp
  qed
  have s1: "sum_list (map unat ?s16) = sum_list (map unat ?ones)" "\<And>v. v \<in> set ?s16 \<Longrightarrow> unat v \<le> 2"
    using vpaddlq_sum[of ?ones 1, where 'b = 16] small assms by auto
  have s2: "sum_list (map unat ?s32) = sum_list (map unat ?s16)" "\<And>v. v \<in> set ?s32 \<Longrightarrow> unat v \<le> 4"
    using vpaddlq_sum[of ?s16 2, where 'b = 32] s1(2) assms by auto
  have s3: "sum_list (map unat ?s64) = sum_list (map unat ?s32)" "\<And>v. v \<in> set ?s64 \<Longrightarrow> unat v \<le> 8"
    using vpaddlq_sum[of ?s32 4, where 'b = 64] s2(2) assms by auto
  have "length ?s64 = 2" using assms by simp
  then obtain p q where pq: "?s64 = [p, q]" by (metis (no_types) length_0_conv length_Suc_conv numeral_2_eq_2)
  have "unat p \<le> 8" "unat q \<le> 8" using s3(2) pq by auto
  then have "unat (p + q) = unat p + unat q" by (intro unat_add_lem[THEN iffD1]) simp
  then have "neon_count_lanes x y = sum_list (map unat ?ones)"
    using pq s1(1) s2(1) s3(1) by (simp add: neon_count_lanes_def Let_def)
  also have "\<dots> = (\<Sum>k<16. unat (?ones ! k))"
    using assms sum_list_sum_nth[of "map unat ?ones"] by (simp add: lessThan_atLeast0)
  finally show ?thesis using lane by simp
qed

interpretation neon: byte_kernels fsd_neon_is_zero fsd_neon_is_one fsd_neon_count_matches
proof unfold_locales
  show "fsd_neon_is_zero data len \<longleftrightarrow> all_bytes 0 data len" for data len
    unfolding fsd_neon_is_zero_def Let_def by (rule block_test) (simp_all add: neon_all_ones_iff)
  show "fsd_neon_is_one data len \<longleftrightarrow> all_bytes 0xFF data len" for data len
    unfolding fsd_neon_is_one_def Let_def by (rule block_test) (simp_all add: neon_all_ones_iff)
  show "fsd_neon_count_matches a b len = equal_bytes a b len" for a b len
    unfolding fsd_neon_count_matches_def Let_def by (rule block_count) (simp add: neon_count_lanes_eq)
qed

section \<open>The table the clients see\<close>

text \<open>
  A dispatch table is usable when each entry is either missing, so that the client falls back to
  its own scalar code, or means what the interface says.
\<close>

definition dispatch_ok :: "simd_dispatch \<Rightarrow> bool" where
  "dispatch_ok d \<longleftrightarrow>
     (\<forall>f. sd_is_zero d = Some f \<longrightarrow> (\<forall>x n. f x n \<longleftrightarrow> all_bytes 0 x n)) \<and>
     (\<forall>f. sd_is_one d = Some f \<longrightarrow> (\<forall>x n. f x n \<longleftrightarrow> all_bytes 0xFF x n)) \<and>
     (\<forall>f. sd_count_matches d = Some f \<longrightarrow> (\<forall>a b n. f a b n = equal_bytes a b n))"

lemma dispatch_ok_tables:
  "dispatch_ok g_fsd_simd_zero" "dispatch_ok setup_scalar_dispatch" "dispatch_ok setup_avx2_dispatch"
  "dispatch_ok setup_neon_dispatch"
  by (simp_all add: dispatch_ok_def g_fsd_simd_zero_def setup_scalar_dispatch_def
      setup_avx2_dispatch_def setup_neon_dispatch_def scalar.is_zero scalar.is_one
      scalar.count_matches avx2.is_zero avx2.is_one avx2.count_matches neon.is_zero neon.is_one
      neon.count_matches)

lemma dispatch_ok_init: "dispatch_ok (fsd_simd_init has_avx2 has_neon tgt c)"
  by (simp add: fsd_simd_init_def Let_def dispatch_ok_tables)

lemma detect_x86_avx2:
  "detect_x86_caps c AND FSD_SIMD_AVX2 \<noteq> 0 \<longleftrightarrow>
     os_saves_ymm c \<and> 7 \<le> sint (cpuid0_eax c) \<and> cpuid7_ebx c AND push_bit 5 1 \<noteq> 0"
  by (simp add: detect_x86_caps_def Let_def FSD_SIMD_NONE_def FSD_SIMD_SSE2_def FSD_SIMD_AVX_def FSD_SIMD_AVX2_def)

text \<open>
  C19. The three families of kernels compute the same functions: for every input and every length,
  word-wise, 32-byte and 16-byte processing agree with the byte-by-byte test for zero, the test for
  \<^verbatim>\<open>0xFF\<close> and the count of equal positions, including the tail that fills no vector.
\<close>

theorem simd_kernels_agree:
  "fsd_scalar_is_zero data len = all_bytes 0 data len \<and> fsd_avx2_is_zero data len = all_bytes 0 data len \<and>
   fsd_neon_is_zero data len = all_bytes 0 data len \<and>
   fsd_scalar_is_one data len = all_bytes 0xFF data len \<and> fsd_avx2_is_one data len = all_bytes 0xFF data len \<and>
   fsd_neon_is_one data len = all_bytes 0xFF data len \<and>
   fsd_scalar_count_matches a b len = equal_bytes a b len \<and> fsd_avx2_count_matches a b len = equal_bytes a b len \<and>
   fsd_neon_count_matches a b len = equal_bytes a b len"
  by (simp add: scalar.is_zero scalar.is_one scalar.count_matches avx2.is_zero avx2.is_one
      avx2.count_matches neon.is_zero neon.is_one neon.count_matches)


end
