(* ===== verification/Crc32.thy ===== *)
theory Crc32
  imports Fsd_Base
begin

text \<open>
  The block checksum of \<^verbatim>\<open>src/core/crc32.c\<close>: the 256-entry table, the update loop unrolled
  eight times, and the finalisation. The table-driven code is shown equal to bit-serial
  division by the reflected polynomial \<^verbatim>\<open>0xEDB88320\<close>, and updates are shown to compose.
\<close>

section \<open>The code\<close>

definition crc32_table :: "32 word list" where
  "crc32_table =
  [0x00000000, 0x77073096, 0xee0e612c, 0x990951ba, 0x076dc419, 0x706af48f,
   0xe963a535, 0x9e6495a3, 0x0edb8832, 0x79dcb8a4, 0xe0d5e91e, 0x97d2d988,
   0x09b64c2b, 0x7eb17cbd, 0xe7b82d07, 0x90bf1d91, 0x1db71064, 0x6ab020f2,
   0xf3b97148, 0x84be41de, 0x1adad47d, 0x6ddde4eb, 0xf4d4b551, 0x83d385c7,
   0x136c9856, 0x646ba8c0, 0xfd62f97a, 0x8a65c9ec, 0x14015c4f, 0x63066cd9,
   0xfa0f3d63, 0x8d080df5, 0x3b6e20c8, 0x4c69105e, 0xd56041e4, 0xa2677172,
   0x3c03e4d1, 0x4b04d447, 0xd20d85fd, 0xa50ab56b, 0x35b5a8fa, 0x42b2986c,
   0xdbbbc9d6, 0xacbcf940, 0x32d86ce3, 0x45df5c75, 0xdcd60dcf, 0xabd13d59,
   0x26d930ac, 0x51de003a, 0xc8d75180, 0xbfd06116, 0x21b4f4b5, 0x56b3c423,
   0xcfba9599, 0xb8bda50f, 0x2802b89e, 0x5f058808, 0xc60cd9b2, 0xb10be924,
   0x2f6f7c87, 0x58684c11, 0xc1611dab, 0xb6662d3d, 0x76dc4190, 0x01db7106,
   0x98d220bc, 0xefd5102a, 0x71b18589, 0x06b6b51f, 0x9fbfe4a5, 0xe8b8d433,
   0x7807c9a2, 0x0f00f934, 0x9609a88e, 0xe10e9818, 0x7f6a0dbb, 0x086d3d2d,
   0x91646c97, 0xe6635c01, 0x6b6b51f4, 0x1c6c6162, 0x856530d8, 0xf262004e,
   0x6c0695ed, 0x1b01a57b, 0x8208f4c1, 0xf50fc457, 0x65b0d9c6, 0x12b7e950,
   0x8bbeb8ea, 0xfcb9887c, 0x62dd1ddf, 0x15da2d49, 0x8cd37cf3, 0xfbd44c65,
   0x4db26158, 0x3ab551ce, 0xa3bc0074, 0xd4bb30e2, 0x4adfa541, 0x3dd895d7,
   0xa4d1c46d, 0xd3d6f4fb, 0x4369e96a, 0x346ed9fc, 0xad678846, 0xda60b8d0,
   0x44042d73, 0x33031de5, 0xaa0a4c5f, 0xdd0d7cc9, 0x5005713c, 0x270241aa,
   0xbe0b1010, 0xc90c2086, 0x5768b525, 0x206f85b3, 0xb966d409, 0xce61e49f,
   0x5edef90e, 0x29d9c998, 0xb0d09822, 0xc7d7a8b4, 0x59b33d17, 0x2eb40d81,
   0xb7bd5c3b, 0xc0ba6cad, 0xedb88320, 0x9abfb3b6, 0x03b6e20c, 0x74b1d29a,
   0xead54739, 0x9dd277af, 0x04db2615, 0x73dc1683, 0xe3630b12, 0x94643b84,
   0x0d6d6a3e, 0x7a6a5aa8, 0xe40ecf0b, 0x9309ff9d, 0x0a00ae27, 0x7d079eb1,
   0xf00f9344, 0x8708a3d2, 0x1e01f268, 0x6906c2fe, 0xf762575d, 0x806567cb,
   0x196c3671, 0x6e6b06e7, 0xfed41b76, 0x89d32be0, 0x10da7a5a, 0x67dd4acc,
   0xf9b9df6f, 0x8ebeeff9, 0x17b7be43, 0x60b08ed5, 0xd6d6a3e8, 0xa1d1937e,
   0x38d8c2c4, 0x4fdff252, 0xd1bb67f1, 0xa6bc5767, 0x3fb506dd, 0x48b2364b,
   0xd80d2bda, 0xaf0a1b4c, 0x36034af6, 0x41047a60, 0xdf60efc3, 0xa867df55,
   0x316e8eef, 0x4669be79, 0xcb61b38c, 0xbc66831a, 0x256fd2a0, 0x5268e236,
   0xcc0c7795, 0xbb0b4703, 0x220216b9, 0x5505262f, 0xc5ba3bbe, 0xb2bd0b28,
   0x2bb45a92, 0x5cb36a04, 0xc2d7ffa7, 0xb5d0cf31, 0x2cd99e8b, 0x5bdeae1d,
   0x9b64c2b0, 0xec63f226, 0x756aa39c, 0x026d930a, 0x9c0906a9, 0xeb0e363f,
   0x72076785, 0x05005713, 0x95bf4a82, 0xe2b87a14, 0x7bb12bae, 0x0cb61b38,
   0x92d28e9b, 0xe5d5be0d, 0x7cdcefb7, 0x0bdbdf21, 0x86d3d2d4, 0xf1d4e242,
   0x68ddb3f8, 0x1fda836e, 0x81be16cd, 0xf6b9265b, 0x6fb077e1, 0x18b74777,
   0x88085ae6, 0xff0f6a70, 0x66063bca, 0x11010b5c, 0x8f659eff, 0xf862ae69,
   0x616bffd3, 0x166ccf45, 0xa00ae278, 0xd70dd2ee, 0x4e048354, 0x3903b3c2,
   0xa7672661, 0xd06016f7, 0x4969474d, 0x3e6e77db, 0xaed16a4a, 0xd9d65adc,
   0x40df0b66, 0x37d83bf0, 0xa9bcae53, 0xdebb9ec5, 0x47b2cf7f, 0x30b5ffe9,
   0xbdbdf21c, 0xcabac28a, 0x53b39330, 0x24b4a3a6, 0xbad03605, 0xcdd70693,
   0x54de5729, 0x23d967bf, 0xb3667a2e, 0xc4614ab8, 0x5d681b02, 0x2a6f2b94,
   0xb40bbe37, 0xc30c8ea1, 0x5a05df1b, 0x2d02ef8d]"

definition crc32_step :: "32 word \<Rightarrow> byte \<Rightarrow> 32 word" where
  "crc32_step crc b = crc32_table ! unat ((crc XOR ucast b) AND 0xFF) XOR drop_bit 8 crc"

fun crc32_tail :: "32 word \<Rightarrow> bytes \<Rightarrow> 32 word" where
  "crc32_tail crc [] = crc"
| "crc32_tail crc (b # buf) = crc32_tail (crc32_step crc b) buf"

fun fsd_crc32_update :: "32 word \<Rightarrow> bytes \<Rightarrow> 32 word" where
  "fsd_crc32_update crc buf =
     (if 8 \<le> length buf then
        (let crc = crc32_step crc (buf ! 0); crc = crc32_step crc (buf ! 1);
             crc = crc32_step crc (buf ! 2); crc = crc32_step crc (buf ! 3);
             crc = crc32_step crc (buf ! 4); crc = crc32_step crc (buf ! 5);
             crc = crc32_step crc (buf ! 6); crc = crc32_step crc (buf ! 7)
         in fsd_crc32_update crc (drop 8 buf))
      else crc32_tail crc buf)"

declare fsd_crc32_update.simps [simp del]

definition fsd_crc32_final :: "32 word \<Rightarrow> 32 word" where
  "fsd_crc32_final crc = NOT crc"

definition fsd_crc32 :: "bytes \<Rightarrow> 32 word" where
  "fsd_crc32 data = fsd_crc32_final (fsd_crc32_update (NOT 0) data)"

section \<open>Bit-serial reference\<close>

definition crc_bit :: "32 word \<Rightarrow> 32 word" where
  "crc_bit c = (if c AND 1 = 1 then 0xEDB88320 XOR drop_bit 1 c else drop_bit 1 c)"

definition crc_byte :: "32 word \<Rightarrow> 32 word" where
  "crc_byte c =
     crc_bit (crc_bit (crc_bit (crc_bit (crc_bit (crc_bit (crc_bit (crc_bit c)))))))"

definition crc_reference :: "bytes \<Rightarrow> 32 word" where
  "crc_reference data = NOT (foldl (\<lambda>c b. crc_byte (c XOR ucast b)) (NOT 0) data)"

section \<open>The unrolled loop\<close>

lemma crc32_tail_foldl: "crc32_tail crc buf = foldl crc32_step crc buf"
  by (induction buf arbitrary: crc) auto

lemma upt_8: "[0..<8] = [0, 1, 2, 3, 4, 5, 6, 7]"
  by code_simp

lemma eight_bytes:
  assumes "8 \<le> length buf"
  shows "buf = [buf ! 0, buf ! 1, buf ! 2, buf ! 3, buf ! 4, buf ! 5, buf ! 6, buf ! 7] @ drop 8 buf"
proof -
  have "take 8 buf = map ((!) buf) [0..<8]"
    using assms by (intro nth_equalityI) simp_all
  also have "\<dots> = [buf ! 0, buf ! 1, buf ! 2, buf ! 3, buf ! 4, buf ! 5, buf ! 6, buf ! 7]"
    by (simp add: upt_8)
  finally show ?thesis by (metis append_take_drop_id)
qed

lemma crc32_update_foldl: "fsd_crc32_update crc buf = foldl crc32_step crc buf"
proof (induction crc buf rule: fsd_crc32_update.induct)
  case (1 crc buf)
  show ?case
  proof (cases "8 \<le> length buf")
    case True
    have "fsd_crc32_update crc buf = foldl crc32_step (foldl crc32_step crc
       [buf ! 0, buf ! 1, buf ! 2, buf ! 3, buf ! 4, buf ! 5, buf ! 6, buf ! 7]) (drop 8 buf)"
      using True 1 by (subst fsd_crc32_update.simps) (simp add: Let_def)
    then show ?thesis by (metis eight_bytes[OF True] foldl_append)
  next
    case False
    then show ?thesis by (subst fsd_crc32_update.simps) (simp add: crc32_tail_foldl)
  qed
qed

text \<open>
  A checksum may be computed in pieces. Feeding two chunks to
  \<^verbatim>\<open>fsd_crc32_update\<close> one after the other gives the state of feeding their concatenation,
  although the loop is unrolled eight times and the chunks need not be multiples of eight.
\<close>

theorem crc32_update_append:
  "fsd_crc32_update (fsd_crc32_update crc xs) ys = fsd_crc32_update crc (xs @ ys)"
  by (simp add: crc32_update_foldl)

section \<open>The table\<close>

lemma upt_256: "[0..<256] = map nat [0..255]"
  by (rule nth_equalityI) (simp_all add: nth_upto)

lemma crc32_table_reference: "crc32_table = map (\<lambda>i. crc_byte (word_of_nat i)) [0..<256]"
proof -
  have "map (\<lambda>i. crc_byte (word_of_nat (nat i))) [0..255] = crc32_table"
    by (simp add: upto_rec1 crc32_table_def) (simp add: crc_byte_def crc_bit_def)
  then show ?thesis by (simp add: upt_256 comp_def)
qed

lemma length_crc32_table: "length crc32_table = 256"
  by (simp add: crc32_table_reference)

lemma crc32_table_nth:
  fixes c :: "32 word" shows "crc32_table ! unat (c AND 0xFF) = crc_byte (c AND 0xFF)"
proof -
  have "unat (c AND 0xFF) < 256"
    using word_and_le1[of c "0xFF"] unfolding word_le_nat_alt by simp
  then show ?thesis by (simp add: crc32_table_reference)
qed

lemma and_1_iff: "(c :: 32 word) AND 1 = 1 \<longleftrightarrow> odd c"
  by (simp add: and_one_eq mod_2_eq_odd)

lemma crc_bit_xor: "crc_bit (x XOR y) = crc_bit x XOR crc_bit y"
proof -
  have swap: "p XOR (q XOR r) = q XOR (p XOR r)" "(p XOR q) XOR (p XOR r) = q XOR r"
    for p q r :: "32 word"
    by (simp_all add: xor.left_commute xor.assoc)
  show ?thesis
    unfolding crc_bit_def and_1_iff
    by (auto simp: even_xor_iff drop_bit_xor swap xor.assoc)
qed

lemma crc_byte_xor: "crc_byte (x XOR y) = crc_byte x XOR crc_byte y"
  by (simp add: crc_byte_def crc_bit_xor)

lemma crc_bit_even: "even c \<Longrightarrow> crc_bit c = drop_bit 1 c"
  by (simp add: crc_bit_def and_1_iff)

text \<open>Eight zero bits shifted in from the right are shifted out without a division step.\<close>

lemma crc_byte_push: "crc_byte (push_bit 8 (drop_bit 8 x)) = drop_bit 8 x"
proof -
  have step: "crc_bit (push_bit (Suc n) (drop_bit 8 x)) = push_bit n (drop_bit 8 x)"
    if "n < 8" for n
  proof -
    have "even (push_bit (Suc n) (drop_bit 8 x))" by simp
    then have "crc_bit (push_bit (Suc n) (drop_bit 8 x)) = drop_bit 1 (push_bit (Suc n) (drop_bit 8 x))"
      by (rule crc_bit_even)
    also have "\<dots> = push_bit n (drop_bit 8 x)"
      using that
      by (intro bit_word_eqI)
        (auto simp: bit_drop_bit_eq bit_push_bit_iff Suc_diff_le simp del: push_bit_Suc
           dest: bit_imp_le_length)
    finally show ?thesis .
  qed
  show ?thesis
    using step[of 0] step[of 1] step[of 2] step[of 3] step[of 4] step[of 5] step[of 6] step[of 7]
    by (simp add: crc_byte_def numeral_eq_Suc)
qed

lemma crc32_step_reference: "crc32_step c b = crc_byte (c XOR ucast b)"
proof -
  let ?x = "c XOR ucast b"
  have split: "?x = (?x AND 0xFF) XOR push_bit 8 (drop_bit 8 ?x)"
  proof (rule bit_word_eqI)
    fix n show "bit ?x n = bit ((?x AND 0xFF) XOR push_bit 8 (drop_bit 8 ?x)) n"
      unfolding and_0xFF
      by (cases "n < 8")
        (auto simp: bit_xor_iff bit_take_bit_iff bit_push_bit_iff bit_drop_bit_eq
          dest: bit_imp_le_length)
  qed
  have high: "drop_bit 8 ?x = drop_bit 8 c"
    by (rule bit_word_eqI) (auto simp: bit_drop_bit_eq bit_xor_iff bit_ucast_iff dest: bit_imp_le_length)
  have "crc_byte ?x = crc_byte (?x AND 0xFF) XOR crc_byte (push_bit 8 (drop_bit 8 ?x))"
    by (subst split) (rule crc_byte_xor)
  then show ?thesis
    unfolding crc32_step_def crc32_table_nth crc_byte_push high by simp
qed

text \<open>
  C20 (equivalence): the table-driven checksum is the CRC of the documented polynomial. For
  every input, \<^verbatim>\<open>fsd_crc32\<close> with its 256-entry table and unrolled loop returns what bit-serial
  division by the reflected polynomial \<^verbatim>\<open>0xEDB88320\<close>, with initial value and final
  complement of all ones, returns.
\<close>

theorem fsd_crc32_reference: "fsd_crc32 data = crc_reference data"
proof -
  have "crc32_step = (\<lambda>c b. crc_byte (c XOR ucast b))"
    by (intro ext) (rule crc32_step_reference)
  then show ?thesis
    by (simp add: fsd_crc32_def fsd_crc32_final_def crc_reference_def crc32_update_foldl)
qed

end
