(* ===== verification/Stage_Identity.thy ===== *)
theory Stage_Identity
  imports Match_Soundness Simd Crc32
begin

text \<open>
  Stage 1, \<^verbatim>\<open>src/stages/stage_identity.c\<close>: all-zero and all-\<^verbatim>\<open>0xFF\<close> destination blocks, blocks
  equal to the source block at the same position, and the CRC32 of every other block for the
  relocation stage. The kernels are those of the dispatch table, or the file's own scalar loops
  when the table has no entry. The effect of a run on every block is stated exactly.
\<close>

record identity_stage =
  is_block_size :: nat
  is_verbose :: int

definition is_zero_block :: "simd_dispatch \<Rightarrow> bytes \<Rightarrow> nat \<Rightarrow> bool" where
  "is_zero_block g_fsd_simd block sz =
     (case sd_is_zero g_fsd_simd of
        Some is_zero \<Rightarrow> is_zero block sz
      | None \<Rightarrow>
          (let count = sz div 8 in
           list_all (\<lambda>i. load_word block (i * 8) = 0) [0..<count] \<and>
           list_all (\<lambda>i. block ! (count * 8 + i) = 0) [0..<sz mod 8]))"

definition is_one_block :: "simd_dispatch \<Rightarrow> bytes \<Rightarrow> nat \<Rightarrow> bool" where
  "is_one_block g_fsd_simd block sz =
     (case sd_is_one g_fsd_simd of
        Some is_one \<Rightarrow> is_one block sz
      | None \<Rightarrow>
          (let all_ones = NOT 0; count = sz div 8 in
           list_all (\<lambda>i. load_word block (i * 8) = all_ones) [0..<count] \<and>
           list_all (\<lambda>i. block ! (count * 8 + i) = 0xFF) [0..<sz mod 8]))"

definition fsd_identity_stage_create :: "bool \<Rightarrow> nat \<Rightarrow> fsd_error + identity_stage" where
  "fsd_identity_stage_create calloc_ok block_size =
     (if block_size = 0 then Inl FSD_ERR_INVALID_ARG
      else if \<not> calloc_ok then Inl FSD_ERR_OUT_OF_MEMORY
      else Inr \<lparr>is_block_size = block_size, is_verbose = 0\<rparr>)"

text \<open>One iteration of the loop over the blocks both images have.\<close>

definition identity_common ::
  "simd_dispatch \<Rightarrow> nat \<Rightarrow> bytes \<Rightarrow> bytes \<Rightarrow> nat \<Rightarrow> block_tracker action" where
  "identity_common g_fsd_simd block_size src dest i t =
     (case block_at dest block_size i of
        None \<Rightarrow> (UB_FAULT, t)
      | Some dest_block \<Rightarrow>
          if is_zero_block g_fsd_simd dest_block block_size
          then (FSD_SUCCESS, fsd_block_tracker_set_match i FSD_MATCH_ZERO 0 t)
          else if is_one_block g_fsd_simd dest_block block_size
          then (FSD_SUCCESS, fsd_block_tracker_set_match i FSD_MATCH_ONE 0 t)
          else
            (case block_at src block_size i of
               None \<Rightarrow> (UB_FAULT, t)
             | Some src_block \<Rightarrow>
                 if src_block = dest_block
                 then (FSD_SUCCESS, fsd_block_tracker_set_match i FSD_MATCH_IDENTITY i t)
                 else (FSD_SUCCESS, fsd_block_tracker_set_crc32 i (fsd_crc32 dest_block) t)))"

text \<open>One iteration of the loop over the blocks beyond the source.\<close>

definition identity_dest_only ::
  "simd_dispatch \<Rightarrow> nat \<Rightarrow> bytes \<Rightarrow> nat \<Rightarrow> block_tracker action" where
  "identity_dest_only g_fsd_simd block_size dest i t =
     (case block_at dest block_size i of
        None \<Rightarrow> (UB_FAULT, t)
      | Some dest_block \<Rightarrow>
          if is_zero_block g_fsd_simd dest_block block_size
          then (FSD_SUCCESS, fsd_block_tracker_set_match i FSD_MATCH_ZERO 0 t)
          else if is_one_block g_fsd_simd dest_block block_size
          then (FSD_SUCCESS, fsd_block_tracker_set_match i FSD_MATCH_ONE 0 t)
          else (FSD_SUCCESS, fsd_block_tracker_set_crc32 i (fsd_crc32 dest_block) t))"

definition fsd_identity_stage_run ::
  "simd_dispatch \<Rightarrow> identity_stage \<Rightarrow> bytes \<Rightarrow> nat \<Rightarrow> bytes \<Rightarrow> nat \<Rightarrow> block_tracker action" where
  "fsd_identity_stage_run g_fsd_simd stage src src_blocks dest dest_blocks =
     (let block_size = is_block_size stage;
          common_blocks = (if src_blocks < dest_blocks then src_blocks else dest_blocks)
      in seqE (for_loop 0 common_blocks (identity_common g_fsd_simd block_size src dest))
              (for_loop common_blocks (dest_blocks - common_blocks)
                 (identity_dest_only g_fsd_simd block_size dest)))"

definition fsd_identity_stage_set_verbose :: "int \<Rightarrow> identity_stage \<Rightarrow> identity_stage" where
  "fsd_identity_stage_set_verbose verbose stage = stage\<lparr>is_verbose := verbose\<rparr>"

section \<open>The block tests\<close>

lemma all_bytes_eq: "length d = n \<Longrightarrow> all_bytes v d n \<longleftrightarrow> d = replicate n v"
  by (auto simp: all_bytes_def list_eq_iff_nth_eq)

lemma tail_offset: "list_all (\<lambda>i. d ! (m + i) = v) [0..<k] = tail_is v d m (m + k)"
proof
  assume *: "list_all (\<lambda>i. d ! (m + i) = v) [0..<k]"
  show "tail_is v d m (m + k)" unfolding tail_is_iff
  proof (intro allI impI)
    fix i assume "m \<le> i \<and> i < m + k"
    then show "d ! i = v" using * by (auto simp: list_all_iff dest: bspec[of _ _ "i - m"])
  qed
qed (simp add: tail_is_iff list_all_iff)

lemma is_zero_block_iff:
  assumes "dispatch_ok g" and "length d = n"
  shows "is_zero_block g d n \<longleftrightarrow> d = replicate n 0"
proof (cases "sd_is_zero g")
  case None
  then have "is_zero_block g d n = fsd_scalar_is_zero d n"
    using tail_offset[of d "n div 8 * 8" 0 "n mod 8"]
    by (simp add: is_zero_block_def fsd_scalar_is_zero_def Let_def)
  then show ?thesis using assms(2) by (simp add: scalar.is_zero all_bytes_eq)
qed (use assms in \<open>simp add: is_zero_block_def dispatch_ok_def all_bytes_eq\<close>)

lemma is_one_block_iff:
  assumes "dispatch_ok g" and "length d = n"
  shows "is_one_block g d n \<longleftrightarrow> d = replicate n 0xFF"
proof (cases "sd_is_one g")
  case None
  have ones: "(0xFFFFFFFFFFFFFFFF :: 64 word) = - 1" by simp
  from None have "is_one_block g d n = fsd_scalar_is_one d n"
    using tail_offset[of d "n div 8 * 8" "0xFF" "n mod 8"]
    by (simp add: is_one_block_def fsd_scalar_is_one_def Let_def ones)
  then show ?thesis using assms(2) by (simp add: scalar.is_one all_bytes_eq)
qed (use assms in \<open>simp add: is_one_block_def dispatch_ok_def all_bytes_eq\<close>)

section \<open>What a run does to a block\<close>

text \<open>The match a block's content asks for; the first rule that applies wins.\<close>

definition content_match :: "bytes \<Rightarrow> bytes \<Rightarrow> nat \<Rightarrow> nat \<Rightarrow> (fsd_match_type \<times> nat) option" where
  "content_match src dest bs i =
     (if bytes_at (i * bs) bs dest = replicate bs 0 then Some (FSD_MATCH_ZERO, 0)
      else if bytes_at (i * bs) bs dest = replicate bs 0xFF then Some (FSD_MATCH_ONE, 0)
      else if i < length src div bs \<and> bytes_at (i * bs) bs src = bytes_at (i * bs) bs dest
      then Some (FSD_MATCH_IDENTITY, i) else None)"

definition identity_update :: "bytes \<Rightarrow> bytes \<Rightarrow> nat \<Rightarrow> nat \<Rightarrow> block_tracker \<Rightarrow> block_tracker" where
  "identity_update src dest bs i t =
     (case content_match src dest bs i of
        Some (m, s) \<Rightarrow> fsd_block_tracker_set_match i m s t
      | None \<Rightarrow> fsd_block_tracker_set_crc32 i (fsd_crc32 (bytes_at (i * bs) bs dest)) t)"

lemma in_source: "0 < bs \<Longrightarrow> i < length src div bs \<longleftrightarrow> (i + 1) * bs \<le> length src" for bs :: nat
  by (metis Suc_eq_plus1 Suc_le_eq less_eq_div_iff_mult_less_eq)

lemma identity_common_update:
  assumes "dispatch_ok g" and "0 < bs" and "(i + 1) * bs \<le> length dest" and "i < length src div bs"
  shows "identity_common g bs src dest i t = (FSD_SUCCESS, identity_update src dest bs i t)"
proof -
  have "length (bytes_at (i * bs) bs dest) = bs" using assms(3) by simp
  note tests = is_zero_block_iff[OF assms(1) this] is_one_block_iff[OF assms(1) this]
  show ?thesis
    using assms(2-4) tests
    by (simp add: identity_common_def identity_update_def content_match_def block_at_def in_source)
qed

lemma identity_dest_only_update:
  assumes "dispatch_ok g" and "0 < bs" and "(i + 1) * bs \<le> length dest" and "\<not> i < length src div bs"
  shows "identity_dest_only g bs dest i t = (FSD_SUCCESS, identity_update src dest bs i t)"
proof -
  have "length (bytes_at (i * bs) bs dest) = bs" using assms(3) by simp
  note tests = is_zero_block_iff[OF assms(1) this] is_one_block_iff[OF assms(1) this]
  show ?thesis
    using assms(2-4) tests
    by (simp add: identity_dest_only_def identity_update_def content_match_def block_at_def in_source)
qed

text \<open>The two loops together apply the update to every destination block, in order.\<close>

lemma identity_run_fold:
  assumes "dispatch_ok g" and "0 < is_block_size s" and "n * is_block_size s \<le> length dest"
  shows "fsd_identity_stage_run g s src (length src div is_block_size s) dest n t =
    (FSD_SUCCESS, fold (identity_update src dest (is_block_size s)) [0..<n] t)"
proof -
  let ?bs = "is_block_size s" and ?f = "identity_update src dest (is_block_size s)"
  define c where "c = (if length src div ?bs < n then length src div ?bs else n)"
  have c: "c \<le> n" "c \<le> length src div ?bs" "c \<noteq> n \<Longrightarrow> c = length src div ?bs" by (auto simp: c_def)
  have "for_loop 0 c (identity_common g ?bs src dest) t = (FSD_SUCCESS, fold ?f [0..<0 + c] t)"
    by (rule fold_for_loop) (use c block_in_image[OF _ assms(3)] assms(1,2) in \<open>simp add: identity_common_update\<close>)
  moreover have "for_loop c (n - c) (identity_dest_only g ?bs dest) u = (FSD_SUCCESS, fold ?f [c..<c + (n - c)] u)" for u
  proof (rule fold_for_loop)
    fix j t assume "c \<le> j" "j < c + (n - c)"
    then have "j < n" "\<not> j < length src div ?bs" using c by auto
    then show "identity_dest_only g ?bs dest j t = (FSD_SUCCESS, ?f j t)"
      using block_in_image[OF _ assms(3)] assms(1,2) by (simp add: identity_dest_only_update)
  qed
  moreover have "[0..<n] = [0..<c] @ [c..<n]" using upt_add_eq_append[of 0 c "n - c"] c(1) by simp
  ultimately show ?thesis using c(1) by (simp add: fsd_identity_stage_run_def Let_def c_def [symmetric])
qed

section \<open>Soundness and the effect of a run\<close>

lemma identity_update_sound:
  assumes "tracker_sound src dest bs t" and "0 < bs"
  shows "tracker_sound src dest bs (identity_update src dest bs i t)" (is ?S)
    and "extends_matches t (identity_update src dest bs i t)" (is ?E)
proof -
  have inv: "tracker_inv t" using assms(1) by (simp add: tracker_sound_def)
  have "m \<noteq> FSD_MATCH_NONE \<and> block_sound src dest bs i (b\<lparr>b_match_type := m, b_src_index := s\<rparr>)"
    if "content_match src dest bs i = Some (m, s)" for m s b
    using that assms(2) by (auto simp: content_match_def block_sound_def in_source split: if_splits)
  then show ?S ?E
    using assms(1) tracker_sound_set_match[OF assms(1)] extends_matches_setters[OF inv]
    by (auto simp: identity_update_def tracker_sound_set_crc32 split: option.split)
qed

text \<open>The stage as the controller calls it, with the block counts of the two images.\<close>

definition identity_run ::
  "simd_dispatch \<Rightarrow> identity_stage \<Rightarrow> block_tracker \<Rightarrow> bytes \<Rightarrow> bytes \<Rightarrow> fsd_error \<times> identity_stage \<times> block_tracker" where
  "identity_run g s t src dest =
     (case fsd_identity_stage_run g s src (length src div is_block_size s) dest
        (length dest div is_block_size s) t of (e, t') \<Rightarrow> (e, s, t'))"

definition identity_ready :: "simd_dispatch \<Rightarrow> bytes \<Rightarrow> bytes \<Rightarrow> nat \<Rightarrow> identity_stage \<Rightarrow> bool" where
  "identity_ready g src dest bs s \<longleftrightarrow> dispatch_ok g \<and> is_block_size s = bs \<and> 0 < bs"

lemma identity_run_eq:
  assumes "identity_ready g src dest bs s"
  shows "identity_run g s t src dest =
    (FSD_SUCCESS, s, fold (identity_update src dest bs) [0..<length dest div bs] t)"
  using assms identity_run_fold[of g s "length dest div bs" dest src t]
  by (simp add: identity_run_def identity_ready_def)

interpretation identity: matching_stage "identity_run g" "identity_ready g" "\<lambda>_. False" for g
proof unfold_locales
  fix src dest bs s t e s' t'
  assume "identity_ready g src dest bs s" "tracker_sound src dest bs t" "identity_run g s t src dest = (e, s', t')"
  then show "tracker_sound src dest bs t' \<and> extends_matches t t'"
    and "e \<in> {FSD_SUCCESS, FSD_ERR_OUT_OF_MEMORY} \<or> e = FSD_ERR_CANCELLED \<and> False"
    using fold_stage_sound[of src dest bs "identity_update src dest bs", OF identity_update_sound]
    by (auto simp: identity_run_eq identity_ready_def)
qed

text \<open>How the update of block \<^verbatim>\<open>i\<close> changes its state.\<close>

definition identity_effect :: "bytes \<Rightarrow> bytes \<Rightarrow> nat \<Rightarrow> nat \<Rightarrow> block_state \<Rightarrow> block_state \<Rightarrow> bool" where
  "identity_effect src dest bs i b b' \<longleftrightarrow>
     match_of b' = (case match_of b of Some x \<Rightarrow> Some x | None \<Rightarrow> content_match src dest bs i) \<and>
     (match_of b' = None \<longrightarrow> b_crc32 b' = fsd_crc32 (bytes_at (i * bs) bs dest))"

lemma identity_update_blockwise: "blockwise (identity_update src dest bs) (identity_effect src dest bs)"
proof (rule blockwiseI)
  fix t i assume inv: "tracker_inv t" and i: "i < t_count t"
  have m: "m \<noteq> FSD_MATCH_NONE" if "content_match src dest bs i = Some (m, s)" for m s
    using that by (auto simp: content_match_def split: if_splits)
  show "tracker_inv (identity_update src dest bs i t)"
    using inv m by (auto simp: identity_update_def tracker_set_crc32_inv tracker_set_match_inv split: option.split)
  show "t_count (identity_update src dest bs i t) = t_count t"
    by (auto simp: identity_update_def split: option.split)
  show "t_blocks (identity_update src dest bs i t) ! j = t_blocks t ! j" if "j \<noteq> i" for j
    using that by (auto simp: identity_update_def fsd_block_tracker_set_match_def fsd_block_tracker_set_crc32_def split: option.split)
  show "identity_effect src dest bs i (t_blocks t ! i) (t_blocks (identity_update src dest bs i t) ! i)"
    using i m tracker_inv_sizes(1)[OF inv]
    by (auto simp: identity_effect_def identity_update_def match_of_def fsd_block_tracker_set_match_def
        fsd_block_tracker_set_crc32_def split: option.split)
qed

text \<open>
  C14. The identity stage computes exactly the classification of the block contents: run on any
  tracker of the destination, it succeeds, keeps the matches there were, and gives every other block
  the match its content asks for (zero before one before identity with the source block at the
  same position, which exists only up to the shorter image); the blocks left unmatched carry the
  CRC32 of their content, on which the relocation stage relies.
\<close>

theorem identity_stage_exact:
  assumes "dispatch_ok g" and "0 < is_block_size s" and "tracker_inv t"
    and "t_count t * is_block_size s = length dest"
  shows "\<exists>u. fsd_identity_stage_run g s src (length src div is_block_size s) dest (t_count t) t = (FSD_SUCCESS, u) \<and>
    (\<forall>i < t_count t.
       matched u i = (case matched t i of Some x \<Rightarrow> Some x | None \<Rightarrow> content_match src dest (is_block_size s) i) \<and>
       (matched u i = None \<longrightarrow> b_crc32 (t_blocks u ! i) =
          fsd_crc32 (bytes_at (i * is_block_size s) (is_block_size s) dest)))"
  using identity_run_fold[OF assms(1,2), of "t_count t" dest src t]
    blockwise_fold[OF identity_update_blockwise assms(3) order_refl, of src dest "is_block_size s"] assms(4)
  by (simp add: Let_def identity_effect_def matched_match_of)

theorem identity_stage_exact_witness:
  "let t = (case fsd_block_tracker_create (\<lambda>_. True) 3 2 of Inr t \<Rightarrow> t) in
   \<exists>u. fsd_identity_stage_run setup_scalar_dispatch \<lparr>is_block_size = 2, is_verbose = 0\<rparr> [1, 2, 3, 4] 2 [1, 2, 0, 0, 7, 7] 3 t =
       (FSD_SUCCESS, u) \<and>
     matched u 0 = Some (FSD_MATCH_IDENTITY, 0) \<and> matched u 1 = Some (FSD_MATCH_ZERO, 0) \<and> matched u 2 = None"
proof -
  obtain t where t: "fsd_block_tracker_create (\<lambda>_. True) 3 2 = Inr t"
    by (simp add: fsd_block_tracker_create_def Let_def)
  note props = tracker_create_inv[OF t]
  have start: "matched t i = None" for i using props by (auto simp: matched_def fresh_block_def)
  let ?s = "\<lparr>is_block_size = 2, is_verbose = 0\<rparr>" and ?dest = "[1, 2, 0, 0, 7, 7] :: bytes"
  have two: "replicate 2 x = [x, x]" for x :: byte by (simp add: numeral_2_eq_2)
  have c: "content_match [1, 2, 3, 4] ?dest 2 0 = Some (FSD_MATCH_IDENTITY, 0)"
    "content_match [1, 2, 3, 4] ?dest 2 1 = Some (FSD_MATCH_ZERO, 0)"
    "content_match [1, 2, 3, 4] ?dest 2 2 = None"
    by (simp_all add: content_match_def bytes_at_def two)
  have "length ([1, 2, 3, 4] :: bytes) div 2 = 2" "length ?dest = 6" by simp_all
  then obtain u where u: "fsd_identity_stage_run setup_scalar_dispatch ?s [1, 2, 3, 4] 2 ?dest 3 t = (FSD_SUCCESS, u)"
      and m: "\<forall>i < 3. matched u i = content_match [1, 2, 3, 4] ?dest 2 i"
    using identity_stage_exact [of setup_scalar_dispatch ?s t ?dest "[1, 2, 3, 4]"] props dispatch_ok_tables(2) start
    by (auto simp del: list.size)
  have "matched u 0 = Some (FSD_MATCH_IDENTITY, 0)" "matched u 1 = Some (FSD_MATCH_ZERO, 0)" "matched u 2 = None"
    using c m[rule_format, of 0] m[rule_format, of 1] m[rule_format, of 2] by simp_all
  then show ?thesis unfolding Let_def t using u by auto
qed

end
