(* ===== verification/Memory_Pool.thy ===== *)
theory Memory_Pool
  imports Fsd_Base
begin

text \<open>
  The chunked allocator of \<^verbatim>\<open>src/core/memory_pool.c\<close>. Chunks live in a store, a pointer to a
  chunk is its index there, and the chunk list is the chain of \<^verbatim>\<open>next\<close> links from the pool's
  head, as in the code, so that a link that is overwritten loses its tail. Addresses are numbers
  below \<^verbatim>\<open>2 ^ 64\<close>. The theorems show that live allocations never overlap, that the plain
  allocator returns 8-byte aligned addresses, and that the memory limit is respected.
\<close>

record pool_chunk =
  c_data :: nat
  c_size :: nat
  c_used :: nat
  c_next :: "nat option"

record memory_pool =
  pl_store :: "pool_chunk list"
  pl_chunks :: "nat option"
  pl_current :: "nat option"
  pl_chunk_size :: nat
  pl_total_allocated :: nat
  pl_max_memory :: nat
  pl_calls :: nat

text \<open>
  The underlying allocator, by the number of the request: whether a chunk header is granted, and
  the address of a data block, if any.
\<close>

record allocator =
  al_header :: "nat \<Rightarrow> bool"
  al_data :: "nat \<Rightarrow> nat \<Rightarrow> nat option"

definition u64_sub :: "nat \<Rightarrow> nat \<Rightarrow> nat" where
  "u64_sub a b = u64 (a + 2 ^ 64 - b)"

lemma u64_sub_le: "b \<le> a \<Longrightarrow> a < 2 ^ 64 \<Longrightarrow> u64_sub a b = a - b"
proof -
  assume "b \<le> a" "a < 2 ^ 64"
  then have "a + 2 ^ 64 - b = (a - b) + 2 ^ 64" and "a - b < 2 ^ 64" by simp_all
  then show ?thesis by (simp only: u64_sub_def u64_def mod_add_self2 mod_less)
qed

section \<open>Operations\<close>

definition create_chunk :: "allocator \<Rightarrow> nat \<Rightarrow> memory_pool \<Rightarrow> nat option \<times> memory_pool" where
  "create_chunk A sz pool =
     (let k = pl_calls pool; pool' = pool\<lparr>pl_calls := k + 1\<rparr> in
      if 0 < pl_max_memory pool \<and> pl_max_memory pool < u64 (pl_total_allocated pool + sz)
      then (None, pool)
      else if \<not> al_header A k then (None, pool')
      else case al_data A k sz of
        None \<Rightarrow> (None, pool')
      | Some d \<Rightarrow>
          (Some (length (pl_store pool)),
           pool'\<lparr>pl_store := pl_store pool @ [\<lparr>c_data = d, c_size = sz, c_used = 0, c_next = None\<rparr>],
                 pl_total_allocated := u64 (pl_total_allocated pool + sz)\<rparr>))"

definition fsd_pool_create :: "allocator \<Rightarrow> bool \<Rightarrow> nat \<Rightarrow> nat \<Rightarrow> fsd_error + memory_pool" where
  "fsd_pool_create A pool_ok chunk_size max_memory =
     (if chunk_size = 0 then Inl FSD_ERR_INVALID_ARG
      else if \<not> pool_ok then Inl FSD_ERR_OUT_OF_MEMORY
      else
        let pool = \<lparr>pl_store = [], pl_chunks = None, pl_current = None, pl_chunk_size = chunk_size,
                    pl_total_allocated = 0, pl_max_memory = max_memory, pl_calls = 0\<rparr>
        in case create_chunk A chunk_size pool of
             (None, _) \<Rightarrow> Inl FSD_ERR_OUT_OF_MEMORY
           | (Some i, pool) \<Rightarrow> Inr (pool\<lparr>pl_chunks := Some i, pl_current := Some i\<rparr>))"

definition upd_chunk :: "nat \<Rightarrow> (pool_chunk \<Rightarrow> pool_chunk) \<Rightarrow> memory_pool \<Rightarrow> memory_pool" where
  "upd_chunk i f pool = pool\<lparr>pl_store := (pl_store pool)[i := f (pl_store pool ! i)]\<rparr>"

text \<open>Linking a new chunk behind the current one, or as the head of an empty pool.\<close>

definition link_chunk :: "nat \<Rightarrow> memory_pool \<Rightarrow> memory_pool" where
  "link_chunk n pool =
     (case pl_current pool of
        Some i \<Rightarrow> (upd_chunk i (\<lambda>c. c\<lparr>c_next := Some n\<rparr>) pool)\<lparr>pl_current := Some n\<rparr>
      | None \<Rightarrow> pool\<lparr>pl_chunks := Some n, pl_current := Some n\<rparr>)"

definition pool_grow :: "allocator \<Rightarrow> nat \<Rightarrow> nat \<Rightarrow> memory_pool \<Rightarrow> nat option \<times> memory_pool" where
  "pool_grow A sz new_size pool =
     (case create_chunk A new_size pool of
        (None, pool) \<Rightarrow> (None, pool)
      | (Some n, pool) \<Rightarrow>
          (Some (c_data (pl_store pool ! n)),
           upd_chunk n (\<lambda>c. c\<lparr>c_used := sz\<rparr>) (link_chunk n pool)))"

definition fsd_pool_alloc :: "allocator \<Rightarrow> nat \<Rightarrow> memory_pool \<Rightarrow> nat option \<times> memory_pool" where
  "fsd_pool_alloc A sz pool =
     (if sz = 0 then (None, pool)
      else if 2 ^ 64 - 1 - 7 < sz then (None, pool)
      else
        let sz = (sz + 7) div 8 * 8;
            new_size = (if pl_chunk_size pool < sz then sz else pl_chunk_size pool)
        in case pl_current pool of
             Some i \<Rightarrow>
               (let c = pl_store pool ! i in
                if sz \<le> u64_sub (c_size c) (c_used c)
                then (Some (c_data c + c_used c), upd_chunk i (\<lambda>c. c\<lparr>c_used := c_used c + sz\<rparr>) pool)
                else pool_grow A sz new_size pool)
           | None \<Rightarrow> pool_grow A sz new_size pool)"

text \<open>\<^verbatim>\<open>x & ~(alignment - 1)\<close> for a power of two.\<close>

definition align_up :: "nat \<Rightarrow> nat \<Rightarrow> nat" where
  "align_up addr alignment = u64 (addr + alignment - 1) div alignment * alignment"

definition is_pow2 :: "nat \<Rightarrow> bool" where
  "is_pow2 a \<longleftrightarrow> (of_nat a :: 64 word) AND (of_nat a - 1) = 0"

definition aligned_grow :: "allocator \<Rightarrow> nat \<Rightarrow> nat \<Rightarrow> memory_pool \<Rightarrow> nat option \<times> memory_pool" where
  "aligned_grow A sz alignment pool =
     (if 2 ^ 64 - 1 - (alignment - 1) < sz then (None, pool)
      else
        let new_size = sz + alignment - 1;
            new_size = (if new_size < pl_chunk_size pool then pl_chunk_size pool else new_size)
        in case create_chunk A new_size pool of
             (None, pool) \<Rightarrow> (None, pool)
           | (Some n, pool) \<Rightarrow>
               (let addr = c_data (pl_store pool ! n);
                    aligned = align_up addr alignment;
                    padding = u64_sub aligned addr
                in (Some aligned,
                    upd_chunk n (\<lambda>c. c\<lparr>c_used := padding + sz\<rparr>) (link_chunk n pool))))"

definition fsd_pool_alloc_aligned ::
  "allocator \<Rightarrow> nat \<Rightarrow> nat \<Rightarrow> memory_pool \<Rightarrow> nat option \<times> memory_pool" where
  "fsd_pool_alloc_aligned A sz alignment pool =
     (if sz = 0 \<or> alignment = 0 then (None, pool)
      else if \<not> is_pow2 alignment then (None, pool)
      else case pl_current pool of
        Some i \<Rightarrow>
          (let c = pl_store pool ! i;
               addr = c_data c + c_used c;
               aligned = align_up addr alignment;
               padding = u64_sub aligned addr;
               free_space = u64_sub (c_size c) (c_used c)
           in if padding \<le> free_space \<and> sz \<le> free_space - padding
              then (Some aligned, upd_chunk i (\<lambda>c. c\<lparr>c_used := c_used c + (padding + sz)\<rparr>) pool)
              else aligned_grow A sz alignment pool)
      | None \<Rightarrow> aligned_grow A sz alignment pool)"

text \<open>
  The chain of chunks from the head. A link always points to a chunk created later, so as many
  steps as there are chunks reach its end.
\<close>

primrec chain :: "nat \<Rightarrow> pool_chunk list \<Rightarrow> nat option \<Rightarrow> nat list" where
  "chain 0 store p = []"
| "chain (Suc n) store p = (case p of None \<Rightarrow> [] | Some i \<Rightarrow> i # chain n store (c_next (store ! i)))"

definition pool_chain :: "memory_pool \<Rightarrow> nat list" where
  "pool_chain pool = chain (length (pl_store pool)) (pl_store pool) (pl_chunks pool)"

definition fsd_pool_reset :: "memory_pool \<Rightarrow> memory_pool" where
  "fsd_pool_reset pool =
     (fold (\<lambda>i. upd_chunk i (\<lambda>c. c\<lparr>c_used := 0\<rparr>)) (pool_chain pool) pool)
       \<lparr>pl_current := pl_chunks pool\<rparr>"

definition fsd_pool_usage :: "memory_pool \<Rightarrow> nat" where
  "fsd_pool_usage pool = foldl (\<lambda>used i. u64 (used + c_used (pl_store pool ! i))) 0 (pool_chain pool)"

text \<open>The chunks \<^verbatim>\<open>fsd_pool_destroy\<close> returns to the allocator.\<close>

definition fsd_pool_destroy :: "memory_pool \<Rightarrow> nat list" where
  "fsd_pool_destroy pool = pool_chain pool"

section \<open>Runs of a pool\<close>

text \<open>
  Every state a pool can reach from its creation by any sequence of operations, with the
  allocations made since the last reset, newest first.
\<close>

datatype pool_op = Alloc nat | Alloc_Aligned nat nat | Reset

inductive pool_run :: "allocator \<Rightarrow> nat \<Rightarrow> nat \<Rightarrow> pool_op list \<Rightarrow> memory_pool \<Rightarrow> (nat \<times> nat) list \<Rightarrow> bool"
  for A cs mx where
  create: "fsd_pool_create A ok cs mx = Inr p \<Longrightarrow> pool_run A cs mx [] p []"
| alloc: "pool_run A cs mx ops p L \<Longrightarrow> fsd_pool_alloc A n p = (Some a, p') \<Longrightarrow>
    pool_run A cs mx (Alloc n # ops) p' ((a, n) # L)"
| alloc_fail: "pool_run A cs mx ops p L \<Longrightarrow> fsd_pool_alloc A n p = (None, p') \<Longrightarrow>
    pool_run A cs mx (Alloc n # ops) p' L"
| aligned: "pool_run A cs mx ops p L \<Longrightarrow> k < 2 ^ 64 \<Longrightarrow> fsd_pool_alloc_aligned A n k p = (Some a, p') \<Longrightarrow>
    pool_run A cs mx (Alloc_Aligned n k # ops) p' ((a, n) # L)"
| aligned_fail: "pool_run A cs mx ops p L \<Longrightarrow> k < 2 ^ 64 \<Longrightarrow> fsd_pool_alloc_aligned A n k p = (None, p') \<Longrightarrow>
    pool_run A cs mx (Alloc_Aligned n k # ops) p' L"
| reset: "pool_run A cs mx ops p L \<Longrightarrow> pool_run A cs mx (Reset # ops) (fsd_pool_reset p) []"

section \<open>The invariant\<close>

text \<open>What a granted data block satisfies: it does not wrap around the address space, and \<^verbatim>\<open>malloc\<close> aligns it.\<close>

definition sane_allocator :: "allocator \<Rightarrow> bool" where
  "sane_allocator A \<longleftrightarrow> (\<forall>k s d. al_data A k s = Some d \<longrightarrow> 0 < d \<and> 8 dvd d \<and> d + s \<le> 2 ^ 64)"

definition chunk_ok :: "pool_chunk \<Rightarrow> bool" where
  "chunk_ok c \<longleftrightarrow> c_used c \<le> c_size c \<and> 0 < c_data c \<and> c_data c + c_size c \<le> 2 ^ 64 \<and> 8 dvd c_data c"

definition pool_ok :: "memory_pool \<Rightarrow> bool" where
  "pool_ok p \<longleftrightarrow> (\<exists>h < length (pl_store p). pl_chunks p = Some h) \<and>
     (\<exists>i < length (pl_store p). pl_current p = Some i) \<and> (\<forall>c \<in> set (pl_store p). chunk_ok c)"

lemma chunk_ok_free: "chunk_ok c \<Longrightarrow> u64_sub (c_size c) (c_used c) = c_size c - c_used c"
  by (intro u64_sub_le) (auto simp: chunk_ok_def)

text \<open>
  The contract of an allocation: the chunks keep their blocks, one chunk \<^verbatim>\<open>i\<close> grows its used
  part, and the new region lies in what was added to it.
\<close>

definition grown :: "pool_chunk list \<Rightarrow> pool_chunk list \<Rightarrow> nat \<Rightarrow> bool" where
  "grown s s' i \<longleftrightarrow> length s \<le> length s' \<and>
     (\<forall>j < length s. c_data (s' ! j) = c_data (s ! j) \<and> c_size (s' ! j) = c_size (s ! j) \<and>
        (if j = i then c_used (s ! j) \<le> c_used (s' ! j) else c_used (s' ! j) = c_used (s ! j)))"

definition fresh_region :: "memory_pool \<Rightarrow> memory_pool \<Rightarrow> nat \<Rightarrow> nat \<Rightarrow> bool" where
  "fresh_region p p' a n \<longleftrightarrow> (\<exists>i < length (pl_store p').
     grown (pl_store p) (pl_store p') i \<and>
     c_data (pl_store p' ! i) + (if i < length (pl_store p) then c_used (pl_store p ! i) else 0) \<le> a \<and>
     a + n \<le> c_data (pl_store p' ! i) + c_used (pl_store p' ! i))"

lemma create_chunk_cases:
  assumes "sane_allocator A" and "create_chunk A s p = (r, p')"
  shows "pl_chunks p' = pl_chunks p \<and> r = None \<and> pl_store p' = pl_store p \<and> pl_current p' = pl_current p \<or>
    (\<exists>d. pl_chunks p' = pl_chunks p \<and> r = Some (length (pl_store p)) \<and> pl_current p' = pl_current p \<and>
      pl_store p' = pl_store p @ [\<lparr>c_data = d, c_size = s, c_used = 0, c_next = None\<rparr>] \<and>
      0 < d \<and> 8 dvd d \<and> d + s \<le> 2 ^ 64)"
  using assms by (auto simp: create_chunk_def sane_allocator_def Let_def split: if_splits option.splits)

lemma link_chunk_store:
  assumes "pl_current p = Some i"
  shows "pl_store (link_chunk n p) = (pl_store p)[i := (pl_store p ! i)\<lparr>c_next := Some n\<rparr>]"
    and "pl_current (link_chunk n p) = Some n" and "pl_chunks (link_chunk n p) = pl_chunks p"
  using assms by (simp_all add: link_chunk_def upd_chunk_def)

text \<open>A new chunk, linked and with its first region taken.\<close>

lemma new_chunk_ok:
  assumes ok: "pool_ok p" and c: "create_chunk A s p = (Some n, p1)" and A: "sane_allocator A"
    and used: "used \<le> s" and p': "p' = upd_chunk n (\<lambda>c. c\<lparr>c_used := used\<rparr>) (link_chunk n p1)"
  shows "pool_ok p' \<and> n = length (pl_store p) \<and> length (pl_store p') = Suc n \<and>
    grown (pl_store p) (pl_store p') n \<and> c_data (pl_store p' ! n) = c_data (pl_store p1 ! n) \<and>
    c_used (pl_store p' ! n) = used \<and> c_data (pl_store p1 ! n) + s \<le> 2 ^ 64 \<and> 8 dvd c_data (pl_store p1 ! n)"
proof -
  obtain i h where i: "i < length (pl_store p)" "pl_current p = Some i" and h: "h < length (pl_store p)" "pl_chunks p = Some h"
    using ok by (auto simp: pool_ok_def)
  have "pl_chunks p1 = pl_chunks p" using create_chunk_cases[OF A c] by auto
  obtain d where d: "n = length (pl_store p)" "pl_current p1 = Some i"
      "pl_store p1 = pl_store p @ [\<lparr>c_data = d, c_size = s, c_used = 0, c_next = None\<rparr>]"
      "0 < d" "8 dvd d" "d + s \<le> 2 ^ 64"
    using create_chunk_cases[OF A c] i(2) by auto
  let ?new = "\<lparr>c_data = d, c_size = s, c_used = used, c_next = None\<rparr>"
  have st: "pl_store p' = (pl_store p)[i := (pl_store p ! i)\<lparr>c_next := Some n\<rparr>] @ [?new]"
    using i d(1,3) p' link_chunk_store[OF d(2)]
    by (simp add: upd_chunk_def list_update_append nth_append)
  have "chunk_ok ((pl_store p ! i)\<lparr>c_next := Some n\<rparr>)"
    using ok i by (auto simp: pool_ok_def chunk_ok_def)
  moreover have "chunk_ok ?new" using d(4-6) used by (simp add: chunk_ok_def)
  ultimately have "\<forall>c \<in> set (pl_store p'). chunk_ok c"
    using ok st by (auto simp: pool_ok_def dest!: set_update_subset_insert[THEN subsetD])
  moreover have "pl_current p' = Some n" using p' link_chunk_store(2)[OF d(2)] by (simp add: upd_chunk_def)
  moreover have "grown (pl_store p) (pl_store p') n"
    using st d(1) i(1) by (auto simp: grown_def nth_append nth_list_update)
  moreover have "pl_chunks p' = Some h"
    using p' link_chunk_store(3)[OF d(2)] h(2) \<open>pl_chunks p1 = pl_chunks p\<close> by (simp add: upd_chunk_def)
  ultimately show ?thesis using st d i h(1) by (simp add: pool_ok_def nth_append)
qed

lemma upd_used_ok:
  assumes "pool_ok p" and "pl_current p = Some i" and "c = pl_store p ! i"
    and "c_used c \<le> u" and "u \<le> c_size c"
  shows "pool_ok (upd_chunk i (\<lambda>c. c\<lparr>c_used := u\<rparr>) p) \<and>
    grown (pl_store p) (pl_store (upd_chunk i (\<lambda>c. c\<lparr>c_used := u\<rparr>) p)) i \<and> i < length (pl_store p) \<and> chunk_ok c"
proof -
  have i: "i < length (pl_store p)" "chunk_ok c" using assms(1-3) by (auto simp: pool_ok_def)
  then have "chunk_ok (c\<lparr>c_used := u\<rparr>)" using assms(5) by (simp add: chunk_ok_def)
  then have "\<forall>x \<in> set ((pl_store p)[i := c\<lparr>c_used := u\<rparr>]). chunk_ok x"
    using assms(1) by (auto simp: pool_ok_def dest!: set_update_subset_insert[THEN subsetD])
  then show ?thesis
    using assms i by (auto simp: pool_ok_def upd_chunk_def grown_def nth_list_update)
qed

lemma round_up_8: "n \<le> (n + 7) div 8 * 8" for n :: nat
  by presburger

text \<open>An allocation in the current chunk, and one in a new chunk.\<close>

lemma pool_grow_fresh:
  assumes "pool_ok p" and "sane_allocator A" and "pool_grow A s new p = (r, p')" and "s \<le> new" and "n \<le> s"
  shows "pool_ok p' \<and> (case r of None \<Rightarrow> pl_store p' = pl_store p | Some a \<Rightarrow> fresh_region p p' a n)"
proof (cases "create_chunk A new p")
  case (Pair q p1)
  show ?thesis
  proof (cases q)
    case None
    then show ?thesis using assms(1-3) Pair create_chunk_cases[OF assms(2), of new p q p1]
      by (auto simp: pool_grow_def pool_ok_def)
  next
    case (Some m)
    then have r: "r = Some (c_data (pl_store p1 ! m))"
        "p' = upd_chunk m (\<lambda>c. c\<lparr>c_used := s\<rparr>) (link_chunk m p1)"
      using assms(3) Pair by (simp_all add: pool_grow_def)
    have "create_chunk A new p = (Some m, p1)" using Pair Some by simp
    note N = new_chunk_ok[OF assms(1) this assms(2,4) r(2)]
    have "fresh_region p p' (c_data (pl_store p1 ! m)) n"
      unfolding fresh_region_def using N assms(5) by (elim conjE, intro exI[of _ m]) simp
    then show ?thesis using N r(1) by simp
  qed
qed

lemma pool_alloc_fresh:
  assumes "pool_ok p" and "sane_allocator A" and "fsd_pool_alloc A n p = (r, p')"
  shows "pool_ok p' \<and> (case r of None \<Rightarrow> pl_store p' = pl_store p | Some a \<Rightarrow> fresh_region p p' a n)"
proof (cases "n = 0 \<or> 2 ^ 64 - 1 - 7 < n")
  case True
  then show ?thesis using assms(1,3) by (auto simp: fsd_pool_alloc_def)
next
  case False
  obtain i where i: "i < length (pl_store p)" "pl_current p = Some i" using assms(1) by (auto simp: pool_ok_def)
  let ?c = "pl_store p ! i" and ?s = "(n + 7) div 8 * 8"
  have c: "chunk_ok ?c" using assms(1) i by (simp add: pool_ok_def)
  show ?thesis
  proof (cases "?s \<le> u64_sub (c_size ?c) (c_used ?c)")
    case True
    then have r: "r = Some (c_data ?c + c_used ?c)" "p' = upd_chunk i (\<lambda>c. c\<lparr>c_used := c_used c + ?s\<rparr>) p"
      using False assms(3) i(2) by (auto simp: fsd_pool_alloc_def Let_def)
    have "p' = upd_chunk i (\<lambda>c. c\<lparr>c_used := c_used ?c + ?s\<rparr>) p" using r(2) by (simp add: upd_chunk_def)
    moreover have "c_used ?c + ?s \<le> c_size ?c" using True chunk_ok_free[OF c] c by (auto simp: chunk_ok_def)
    ultimately have N: "pool_ok p'" "grown (pl_store p) (pl_store p') i" "length (pl_store p') = length (pl_store p)"
        "pl_store p' ! i = ?c\<lparr>c_used := c_used ?c + ?s\<rparr>"
      using upd_used_ok[OF assms(1) i(2) refl, of "c_used ?c + ?s"] i(1) by (simp_all add: upd_chunk_def)
    have "fresh_region p p' (c_data ?c + c_used ?c) n"
      unfolding fresh_region_def using N i(1) round_up_8[of n] by (intro exI[of _ i]) simp
    then show ?thesis using N r(1) by simp
  next
    case no: False
    then have "pool_grow A ?s (if pl_chunk_size p < ?s then ?s else pl_chunk_size p) p = (r, p')"
      using False assms(3) i(2) by (auto simp: fsd_pool_alloc_def Let_def)
    then show ?thesis by (rule pool_grow_fresh[OF assms(1,2)]) (auto intro: round_up_8)
  qed
qed

text \<open>Rounding an address up: without wrap-around the padding is what was added.\<close>

lemma align_up_ge:
  assumes "0 < k" and "addr + k \<le> 2 ^ 64"
  shows "addr \<le> align_up addr k" and "align_up addr k < addr + k"
    and "u64_sub (align_up addr k) addr = align_up addr k - addr"
proof -
  have lt: "addr + k - 1 < 2 ^ 64" using assms by linarith
  have eq: "align_up addr k = (addr + k - 1) div k * k" using u64_id[OF lt] by (simp add: align_up_def)
  have d: "(addr + k - 1) div k * k + (addr + k - 1) mod k = addr + k - 1" by simp
  have m: "(addr + k - 1) mod k < k" using assms(1) by simp
  show ge: "addr \<le> align_up addr k" and "align_up addr k < addr + k" unfolding eq using d m assms(1) by linarith+
  then show "u64_sub (align_up addr k) addr = align_up addr k - addr"
    using assms(2) by (intro u64_sub_le) linarith+
qed

lemma align_up_wraps:
  assumes "0 < k" and "k < 2 ^ 64" and "addr < 2 ^ 64" and "2 ^ 64 < addr + k"
  shows "2 ^ 64 - addr \<le> u64_sub (align_up addr k) addr"
proof -
  have "u64 (addr + k - 1) = addr + k - 1 - 2 ^ 64"
    using assms unfolding u64_def by (simp add: mod_if)
  then have "align_up addr k \<le> addr + k - 1 - 2 ^ 64" by (simp add: align_up_def)
  then have "align_up addr k + 2 ^ 64 - addr < 2 ^ 64" using assms by linarith
  then show ?thesis unfolding u64_sub_def by (simp add: u64_id)
qed

lemma aligned_grow_fresh:
  assumes "pool_ok p" and "sane_allocator A" and "aligned_grow A n k p = (r, p')" and "0 < n" and "0 < k"
  shows "pool_ok p' \<and> (case r of None \<Rightarrow> pl_store p' = pl_store p | Some a \<Rightarrow> fresh_region p p' a n)"
proof (cases "2 ^ 64 - 1 - (k - 1) < n")
  case True
  then show ?thesis using assms(1,3) by (simp add: aligned_grow_def)
next
  case False
  define new where "new = (if n + k - 1 < pl_chunk_size p then pl_chunk_size p else n + k - 1)"
  have new: "n + k - 1 \<le> new" by (simp add: new_def)
  have ag: "aligned_grow A n k p = (case create_chunk A new p of (None, p1) \<Rightarrow> (None, p1)
      | (Some m, p1) \<Rightarrow> let addr = c_data (pl_store p1 ! m); padding = u64_sub (align_up addr k) addr in
          (Some (align_up addr k), upd_chunk m (\<lambda>c. c\<lparr>c_used := padding + n\<rparr>) (link_chunk m p1)))"
    using False unfolding aligned_grow_def new_def Let_def by (simp only: if_False)
  show ?thesis
  proof (cases "create_chunk A new p")
    case (Pair q p1)
    show ?thesis
    proof (cases q)
      case None
      then show ?thesis using assms(1-3) Pair create_chunk_cases[OF assms(2), of new p q p1]
        by (auto simp: ag pool_ok_def)
    next
      case (Some m)
      let ?a = "c_data (pl_store p1 ! m)"
      let ?u = "u64_sub (align_up ?a k) ?a + n"
      have r: "r = Some (align_up ?a k)" "p' = upd_chunk m (\<lambda>c. c\<lparr>c_used := ?u\<rparr>) (link_chunk m p1)"
        using assms(3) Pair Some by (simp_all add: ag Let_def)
      have cr: "create_chunk A new p = (Some m, p1)" using Pair Some by simp
      have "m = length (pl_store p)" "?a + new \<le> 2 ^ 64"
        using create_chunk_cases[OF assms(2) cr] by auto
      then have "?a + k \<le> 2 ^ 64" using new assms(4) by linarith
      note al = align_up_ge[OF assms(5) this]
      have "?u \<le> new" using al new assms(4) by linarith
      note N = new_chunk_ok[OF assms(1) cr assms(2) this r(2)]
      have "fresh_region p p' (align_up ?a k) n"
        unfolding fresh_region_def using N al by (elim conjE, intro exI[of _ m]) simp
      then show ?thesis using N r(1) by simp
    qed
  qed
qed

lemma pool_alloc_aligned_fresh:
  assumes "pool_ok p" and "sane_allocator A" and "fsd_pool_alloc_aligned A n k p = (r, p')" and "k < 2 ^ 64"
  shows "pool_ok p' \<and> (case r of None \<Rightarrow> pl_store p' = pl_store p | Some a \<Rightarrow> fresh_region p p' a n)"
proof (cases "n = 0 \<or> k = 0 \<or> \<not> is_pow2 k")
  case True
  then show ?thesis using assms(1,3) by (auto simp: fsd_pool_alloc_aligned_def split: if_splits)
next
  case False
  obtain i where i: "i < length (pl_store p)" "pl_current p = Some i" using assms(1) by (auto simp: pool_ok_def)
  let ?c = "pl_store p ! i"
  let ?addr = "c_data ?c + c_used ?c"
  let ?pad = "u64_sub (align_up ?addr k) ?addr" and ?free = "c_size ?c - c_used ?c"
  have c: "chunk_ok ?c" using assms(1) i by (simp add: pool_ok_def)
  show ?thesis
  proof (cases "?pad \<le> ?free \<and> n \<le> ?free - ?pad")
    case True
    then have r: "r = Some (align_up ?addr k)"
        "p' = upd_chunk i (\<lambda>c. c\<lparr>c_used := c_used ?c + (?pad + n)\<rparr>) p"
      using False assms(3) i(2) chunk_ok_free[OF c] by (auto simp: fsd_pool_alloc_aligned_def Let_def upd_chunk_def)
    have fits: "c_used ?c + (?pad + n) \<le> c_size ?c" using True c by (auto simp: chunk_ok_def)
    have "?addr + k \<le> 2 ^ 64"
    proof (rule ccontr)
      assume "\<not> ?addr + k \<le> 2 ^ 64"
      then have "2 ^ 64 - ?addr \<le> ?pad"
        using False assms(4) c fits by (intro align_up_wraps) (auto simp: chunk_ok_def)
      moreover have "?pad + n + ?addr \<le> 2 ^ 64" using fits c unfolding chunk_ok_def by linarith
      ultimately show False using False by linarith
    qed
    note al = align_up_ge[OF _ this]
    have N: "pool_ok p'" "grown (pl_store p) (pl_store p') i" "length (pl_store p') = length (pl_store p)"
        "pl_store p' ! i = ?c\<lparr>c_used := c_used ?c + (?pad + n)\<rparr>"
      using upd_used_ok[OF assms(1) i(2) refl _ fits] i(1) r(2) by (simp_all add: upd_chunk_def)
    have "fresh_region p p' (align_up ?addr k) n"
      unfolding fresh_region_def using N i(1) al False by (intro exI[of _ i]) simp
    then show ?thesis using N r(1) by simp
  next
    case no: False
    then have "aligned_grow A n k p = (r, p')"
      using False assms(3) i(2) chunk_ok_free[OF c] by (auto simp: fsd_pool_alloc_aligned_def Let_def)
    then show ?thesis using False by (intro aligned_grow_fresh[OF assms(1,2)]) auto
  qed
qed

section \<open>Live allocations\<close>

definition disjoint_from :: "nat \<times> nat \<Rightarrow> nat \<times> nat \<Rightarrow> bool" where
  "disjoint_from x y \<longleftrightarrow> fst x + snd x \<le> fst y \<or> fst y + snd y \<le> fst x"

text \<open>The data blocks an allocator has granted and not taken back do not overlap.\<close>

definition disjoint_chunks :: "pool_chunk list \<Rightarrow> bool" where
  "disjoint_chunks s \<longleftrightarrow> (\<forall>i < length s. \<forall>j < length s. i \<noteq> j \<longrightarrow>
     disjoint_from (c_data (s ! i), c_size (s ! i)) (c_data (s ! j), c_size (s ! j)))"

definition lives_in :: "pool_chunk list \<Rightarrow> nat \<times> nat \<Rightarrow> bool" where
  "lives_in s x \<longleftrightarrow> (\<exists>i < length s. c_data (s ! i) \<le> fst x \<and>
     fst x + snd x \<le> c_data (s ! i) + c_used (s ! i) \<and> c_used (s ! i) \<le> c_size (s ! i))"

lemma grown_disjoint: "grown s s' i \<Longrightarrow> disjoint_chunks s' \<Longrightarrow> disjoint_chunks s"
proof -
  assume g: "grown s s' i" and d: "disjoint_chunks s'"
  show "disjoint_chunks s"
    unfolding disjoint_chunks_def
  proof (intro allI impI)
    fix j k assume jk: "j < length s" "k < length s" "j \<noteq> k"
    have same: "c_data (s' ! m) = c_data (s ! m)" "c_size (s' ! m) = c_size (s ! m)" if "m < length s" for m
      using g that by (simp_all add: grown_def)
    have "j < length s'" "k < length s'" using g jk by (simp_all add: grown_def)
    then have "disjoint_from (c_data (s' ! j), c_size (s' ! j)) (c_data (s' ! k), c_size (s' ! k))"
      using d jk(3) by (simp add: disjoint_chunks_def)
    then show "disjoint_from (c_data (s ! j), c_size (s ! j)) (c_data (s ! k), c_size (s ! k))"
      using same jk by simp
  qed
qed

lemma fresh_region_live:
  assumes "fresh_region p p' a n" and "pool_ok p'" and "\<forall>x \<in> set L. lives_in (pl_store p) x"
    and "disjoint_chunks (pl_store p')"
  shows "(\<forall>x \<in> set ((a, n) # L). lives_in (pl_store p') x) \<and> (\<forall>x \<in> set L. disjoint_from (a, n) x)"
proof -
  let ?s = "pl_store p" and ?s' = "pl_store p'"
  obtain i where i: "i < length ?s'" "grown ?s ?s' i"
      "c_data (?s' ! i) + (if i < length ?s then c_used (?s ! i) else 0) \<le> a"
      "a + n \<le> c_data (?s' ! i) + c_used (?s' ! i)"
    using assms(1) by (auto simp: fresh_region_def)
  have fits: "c_used (?s' ! j) \<le> c_size (?s' ! j)" if "j < length ?s'" for j
    using assms(2) that by (simp add: pool_ok_def chunk_ok_def)
  have "lives_in ?s' (a, n)" using i fits[of i] by (auto simp: lives_in_def)
  moreover have "lives_in ?s' x \<and> disjoint_from (a, n) x" if "x \<in> set L" for x
  proof -
    obtain j where j: "j < length ?s" "c_data (?s ! j) \<le> fst x" "fst x + snd x \<le> c_data (?s ! j) + c_used (?s ! j)"
      using assms(3) \<open>x \<in> set L\<close> by (auto simp: lives_in_def)
    have g: "j < length ?s'" "c_data (?s' ! j) = c_data (?s ! j)" "c_used (?s ! j) \<le> c_used (?s' ! j)"
      using i(2) j(1) unfolding grown_def by (metis order_less_le_trans, metis, metis order_refl)
    have "lives_in ?s' x" using j g fits[OF g(1)] by (auto simp: lives_in_def)
    moreover have "disjoint_from (a, n) x"
    proof (cases "j = i")
      case True
      then have "c_data (?s ! j) + c_used (?s ! j) \<le> a" using i(3) j(1) g(2) by simp
      then show ?thesis using j(3) by (simp add: disjoint_from_def)
    next
      case False
      then have "disjoint_from (c_data (?s' ! i), c_size (?s' ! i)) (c_data (?s' ! j), c_size (?s' ! j))"
        using assms(4) i(1) g(1) by (simp add: disjoint_chunks_def)
      moreover have "c_data (?s' ! i) \<le> a" "a + n \<le> c_data (?s' ! i) + c_size (?s' ! i)"
        using i(3,4) fits[OF i(1)] by linarith+
      moreover have "c_data (?s' ! j) \<le> fst x" "fst x + snd x \<le> c_data (?s' ! j) + c_size (?s' ! j)"
        using j(2,3) g fits[OF g(1)] by linarith+
      ultimately show ?thesis by (auto simp: disjoint_from_def)
    qed
    ultimately show ?thesis by simp
  qed
  ultimately show ?thesis by simp
qed

lemma clear_used_ok:
  assumes "pool_ok p"
  shows "pool_ok (upd_chunk i (\<lambda>c. c\<lparr>c_used := 0\<rparr>) p)"
proof (cases "i < length (pl_store p)")
  case True
  then have "chunk_ok ((pl_store p ! i)\<lparr>c_used := 0\<rparr>)" using assms by (simp add: pool_ok_def chunk_ok_def)
  then show ?thesis
    using assms by (auto simp: pool_ok_def upd_chunk_def dest!: set_update_subset_insert[THEN subsetD])
qed (use assms in \<open>simp add: pool_ok_def upd_chunk_def list_update_beyond\<close>)

lemma pool_reset_ok: "pool_ok p \<Longrightarrow> pool_ok (fsd_pool_reset p)"
proof -
  assume ok: "pool_ok p"
  have "pool_ok (fold (\<lambda>i. upd_chunk i (\<lambda>c. c\<lparr>c_used := 0\<rparr>)) is p) \<and>
      pl_chunks (fold (\<lambda>i. upd_chunk i (\<lambda>c. c\<lparr>c_used := 0\<rparr>)) is p) = pl_chunks p \<and>
      length (pl_store (fold (\<lambda>i. upd_chunk i (\<lambda>c. c\<lparr>c_used := 0\<rparr>)) is p)) = length (pl_store p)" for "is"
    using ok by (induction "is" arbitrary: p) (simp_all add: clear_used_ok, simp_all add: upd_chunk_def)
  then show ?thesis using ok unfolding fsd_pool_reset_def pool_ok_def by auto
qed

lemma pool_create_ok: "sane_allocator A \<Longrightarrow> fsd_pool_create A ok cs mx = Inr p \<Longrightarrow> pool_ok p"
  by (auto simp: fsd_pool_create_def pool_ok_def chunk_ok_def Let_def split: if_splits prod.splits option.splits
      dest!: create_chunk_cases)

lemma pool_run_ok:
  assumes "pool_run A cs mx ops p L" and "sane_allocator A"
  shows "pool_ok p \<and> (disjoint_chunks (pl_store p) \<longrightarrow>
    (\<forall>x \<in> set L. lives_in (pl_store p) x) \<and> sorted_wrt disjoint_from L)"
  using assms(1)
proof induction
  case (create ok p)
  then show ?case using pool_create_ok[OF assms(2)] by simp
next
  case (alloc ops p L n a p')
  note F = pool_alloc_fresh[OF _ assms(2) alloc.hyps(2)]
  have "disjoint_chunks (pl_store p)" if "disjoint_chunks (pl_store p')"
    using F alloc.IH that by (auto simp: fresh_region_def intro: grown_disjoint)
  then show ?case using F fresh_region_live[of p p' a n L] alloc.IH by auto
next
  case (aligned ops p L k n a p')
  note F = pool_alloc_aligned_fresh[OF _ assms(2) aligned.hyps(3,2)]
  have "disjoint_chunks (pl_store p)" if "disjoint_chunks (pl_store p')"
    using F aligned.IH that by (auto simp: fresh_region_def intro: grown_disjoint)
  then show ?case using F fresh_region_live[of p p' a n L] aligned.IH by auto
next
  case (alloc_fail ops p L n p')
  then show ?case using pool_alloc_fresh[OF _ assms(2) alloc_fail.hyps(2)] by auto
next
  case (aligned_fail ops p L k n p')
  then show ?case using pool_alloc_aligned_fresh[OF _ assms(2) aligned_fail.hyps(3,2)] by auto
next
  case (reset ops p L)
  then show ?case using pool_reset_ok by simp
qed

section \<open>Alignment, limit, release\<close>

text \<open>Facts that every operation keeps, by cases on what it does to the store.\<close>

definition used_aligned :: "memory_pool \<Rightarrow> bool" where
  "used_aligned p \<longleftrightarrow> (\<forall>c \<in> set (pl_store p). 8 dvd c_used c)"

lemma used_aligned_upd:
  "used_aligned p \<Longrightarrow> (i < length (pl_store p) \<Longrightarrow> 8 dvd c_used (f (pl_store p ! i))) \<Longrightarrow> used_aligned (upd_chunk i f p)"
  by (cases "i < length (pl_store p)")
    (auto simp: used_aligned_def upd_chunk_def list_update_beyond dest!: set_update_subset_insert[THEN subsetD])

lemma used_aligned_reset: "used_aligned p \<Longrightarrow> used_aligned (fsd_pool_reset p)"
proof -
  assume ok: "used_aligned p"
  have "used_aligned (fold (\<lambda>i. upd_chunk i (\<lambda>c. c\<lparr>c_used := 0\<rparr>)) is p)" for "is"
    using ok by (induction "is" arbitrary: p) (simp_all add: used_aligned_upd)
  then show ?thesis unfolding fsd_pool_reset_def used_aligned_def by simp
qed

lemma pool_grow_aligned:
  assumes "used_aligned p" and "pool_ok p" and "sane_allocator A" and "pool_grow A s new p = (r, p')" and "8 dvd s"
  shows "used_aligned p' \<and> (\<forall>a. r = Some a \<longrightarrow> 8 dvd a)"
proof (cases "create_chunk A new p")
  case (Pair q p1)
  note C = create_chunk_cases[OF assms(3) Pair]
  show ?thesis
  proof (cases q)
    case None
    then show ?thesis using assms(1,4) Pair C by (auto simp: pool_grow_def used_aligned_def)
  next
    case (Some m)
    then have m: "used_aligned p1" "8 dvd c_data (pl_store p1 ! m)" "m < length (pl_store p1)"
      using C assms(1) by (auto simp: used_aligned_def)
    have "used_aligned (link_chunk m p1)"
      using m(1) used_aligned_upd[OF m(1), of _ "\<lambda>c. c\<lparr>c_next := Some m\<rparr>"]
      by (auto simp: link_chunk_def used_aligned_def split: option.splits)
    then have "used_aligned (upd_chunk m (\<lambda>c. c\<lparr>c_used := s\<rparr>) (link_chunk m p1))"
      using assms(5) by (intro used_aligned_upd) simp_all
    then show ?thesis using assms(4) Pair Some m(2) by (auto simp: pool_grow_def)
  qed
qed

lemma pool_alloc_aligned8:
  assumes "used_aligned p" and "pool_ok p" and "sane_allocator A" and "fsd_pool_alloc A n p = (r, p')"
  shows "used_aligned p' \<and> (\<forall>a. r = Some a \<longrightarrow> 8 dvd a)"
proof (cases "n = 0 \<or> 2 ^ 64 - 1 - 7 < n")
  case True
  then show ?thesis using assms(1,4) by (auto simp: fsd_pool_alloc_def)
next
  case False
  obtain i where i: "i < length (pl_store p)" "pl_current p = Some i" using assms(2) by (auto simp: pool_ok_def)
  let ?s = "(n + 7) div 8 * 8" and ?c = "pl_store p ! i"
  have c: "8 dvd c_data ?c" "8 dvd c_used ?c"
    using assms(1,2) i(1) by (simp_all add: pool_ok_def chunk_ok_def used_aligned_def)
  show ?thesis
  proof (cases "?s \<le> u64_sub (c_size ?c) (c_used ?c)")
    case True
    then have r: "r = Some (c_data ?c + c_used ?c)" "p' = upd_chunk i (\<lambda>c. c\<lparr>c_used := c_used c + ?s\<rparr>) p"
      using False assms(4) i(2) by (auto simp: fsd_pool_alloc_def Let_def)
    have "used_aligned p'" unfolding r(2) using assms(1) c(2) by (intro used_aligned_upd) simp_all
    then show ?thesis using r(1) c by simp
  next
    case no: False
    then have "pool_grow A ?s (if pl_chunk_size p < ?s then ?s else pl_chunk_size p) p = (r, p')"
      using False assms(4) i(2) by (auto simp: fsd_pool_alloc_def Let_def)
    then show ?thesis by (rule pool_grow_aligned[OF assms(1-3)]) simp
  qed
qed

lemma pool_run_aligned8:
  assumes "pool_run A cs mx ops p L" and "sane_allocator A" and "\<forall>op \<in> set ops. \<exists>n. op = Alloc n \<or> op = Reset"
  shows "used_aligned p \<and> (\<forall>x \<in> set L. 8 dvd fst x)"
  using assms(1,3)
proof induction
  case (create ok p)
  then show ?case
    by (auto simp: fsd_pool_create_def Let_def used_aligned_def split: if_splits prod.splits option.splits
        dest!: create_chunk_cases[OF assms(2)])
next
  case (alloc ops p L n a p')
  then show ?case using pool_alloc_aligned8[OF _ _ assms(2) alloc.hyps(2)] pool_run_ok[OF alloc.hyps(1) assms(2)]
    by auto
next
  case (alloc_fail ops p L n p')
  then show ?case using pool_alloc_aligned8[OF _ _ assms(2) alloc_fail.hyps(2)] pool_run_ok[OF alloc_fail.hyps(1) assms(2)]
    by auto
next
  case (reset ops p L)
  then show ?case using used_aligned_reset by simp
qed auto

text \<open>The accounting of the limit.\<close>

definition total_ok :: "nat \<Rightarrow> memory_pool \<Rightarrow> bool" where
  "total_ok mx p \<longleftrightarrow> pl_max_memory p = mx \<and> pl_total_allocated p = sum_list (map c_size (pl_store p)) \<and>
     pl_total_allocated p \<le> mx"

text \<open>\<^verbatim>\<open>malloc\<close> grants no block larger than \<^verbatim>\<open>PTRDIFF_MAX\<close>.\<close>

definition bounded_allocator :: "allocator \<Rightarrow> bool" where
  "bounded_allocator A \<longleftrightarrow> (\<forall>k n d. al_data A k n = Some d \<longrightarrow> n < 2 ^ 63)"

lemma total_ok_upd:
  assumes "total_ok mx p" and "\<And>c. c_size (f c) = c_size c"
  shows "total_ok mx (upd_chunk i f p)"
proof -
  have "map c_size ((pl_store p)[i := f (pl_store p ! i)]) = map c_size (pl_store p)"
    by (cases "i < length (pl_store p)")
      (simp_all add: map_update assms(2) list_update_beyond list_update_same_conv)
  then show ?thesis using assms(1) by (simp add: total_ok_def upd_chunk_def)
qed

lemma create_chunk_total:
  assumes "total_ok mx p" and "create_chunk A n p = (r, p')" and "0 < mx" and "mx < 2 ^ 63"
    and "bounded_allocator A"
  shows "total_ok mx p'"
proof (cases "\<exists>m. r = Some m")
  case True
  then have pass: "\<not> mx < u64 (pl_total_allocated p + n)" and "n < 2 ^ 63"
    using assms
    by (auto simp: create_chunk_def total_ok_def bounded_allocator_def Let_def split: if_splits option.splits)
  then have "u64 (pl_total_allocated p + n) = pl_total_allocated p + n"
    using assms(1,4) by (intro u64_id) (simp add: total_ok_def)
  then show ?thesis using assms(1,2) pass
    by (auto simp: create_chunk_def total_ok_def Let_def split: if_splits option.splits)
next
  case False
  then show ?thesis using assms(1,2)
    by (auto simp: create_chunk_def total_ok_def Let_def split: if_splits option.splits)
qed

lemma total_ok_link: "total_ok mx p \<Longrightarrow> total_ok mx (link_chunk n p)"
proof (cases "pl_current p")
  case (Some i)
  assume "total_ok mx p"
  then have "total_ok mx (upd_chunk i (\<lambda>c. c\<lparr>c_next := Some n\<rparr>) p)" by (rule total_ok_upd) simp
  then show ?thesis using Some by (simp add: link_chunk_def total_ok_def)
qed (simp add: link_chunk_def total_ok_def)

lemma pool_ops_total:
  assumes "total_ok mx p" and "0 < mx" and "mx < 2 ^ 63" and A: "bounded_allocator A"
  shows "total_ok mx (snd (fsd_pool_alloc A n p))" and "total_ok mx (snd (fsd_pool_alloc_aligned A n k p))"
    and "total_ok mx (fsd_pool_reset p)"
proof -
  have upd: "total_ok mx (upd_chunk i (\<lambda>c. c\<lparr>c_used := f c\<rparr>) q)" if "total_ok mx q" for i f q
    using that by (rule total_ok_upd) simp
  have grow: "total_ok mx (snd (pool_grow A s m p))" for s m
    using create_chunk_total[OF assms(1) _ assms(2,3) A]
    by (auto simp: pool_grow_def split: prod.splits option.splits intro!: upd total_ok_link)
  have agrow: "total_ok mx (snd (aligned_grow A s m p))" for s m
    using create_chunk_total[OF assms(1) _ assms(2,3) A] assms(1)
    by (auto simp: aligned_grow_def Let_def split: prod.splits option.splits intro!: upd total_ok_link)
  show "total_ok mx (snd (fsd_pool_alloc A n p))"
    using assms(1) grow by (auto simp: fsd_pool_alloc_def Let_def split: option.splits intro!: upd)
  show "total_ok mx (snd (fsd_pool_alloc_aligned A n k p))"
    using assms(1) agrow by (auto simp: fsd_pool_alloc_aligned_def Let_def split: option.splits intro!: upd)
  have "total_ok mx (fold (\<lambda>i. upd_chunk i (\<lambda>c. c\<lparr>c_used := 0\<rparr>)) is p)" for "is"
    using assms(1) by (induction "is" arbitrary: p) (simp_all add: upd)
  from this[of "pool_chain p"] show "total_ok mx (fsd_pool_reset p)"
    by (simp add: fsd_pool_reset_def total_ok_def)
qed

lemma pool_run_total:
  assumes "pool_run A cs mx ops p L" and "0 < mx" and "mx < 2 ^ 63" and A: "bounded_allocator A"
  shows "total_ok mx p"
  using assms(1)
proof induction
  case (create ok p)
  let ?p0 = "\<lparr>pl_store = [], pl_chunks = None, pl_current = None, pl_chunk_size = cs,
      pl_total_allocated = 0, pl_max_memory = mx, pl_calls = 0\<rparr>"
  have "total_ok mx ?p0" by (simp add: total_ok_def)
  then have "total_ok mx (snd (create_chunk A cs ?p0))"
    using create_chunk_total[OF _ prod.collapse[symmetric] assms(2,3) A] by blast
  then show ?case using create
    by (auto simp: fsd_pool_create_def Let_def total_ok_def split: if_splits prod.splits option.splits)
next
  case (alloc ops p L n a p')
  then show ?case using pool_ops_total(1)[OF alloc.IH assms(2,3) A, of n] by simp
next
  case (alloc_fail ops p L n p')
  then show ?case using pool_ops_total(1)[OF alloc_fail.IH assms(2,3) A, of n] by simp
next
  case (aligned ops p L k n a p')
  then show ?case using pool_ops_total(2)[OF aligned.IH assms(2,3) A, of n k] by simp
next
  case (aligned_fail ops p L k n p')
  then show ?case using pool_ops_total(2)[OF aligned_fail.IH assms(2,3) A, of n k] by simp
next
  case (reset ops p L)
  then show ?case by (intro pool_ops_total(3)[OF _ assms(2,3) A])
qed

text \<open>Without a reset the chain of links runs through all chunks in order of creation.\<close>

definition linked :: "memory_pool \<Rightarrow> bool" where
  "linked p \<longleftrightarrow> pl_store p \<noteq> [] \<and> pl_chunks p = Some 0 \<and> pl_current p = Some (length (pl_store p) - 1) \<and>
     (\<forall>i < length (pl_store p). c_next (pl_store p ! i) = (if Suc i < length (pl_store p) then Some (Suc i) else None))"

lemma chain_linked:
  assumes "linked p" and "i \<le> length (pl_store p)"
  shows "chain (length (pl_store p) - i) (pl_store p) (if i < length (pl_store p) then Some i else None) =
    [i..<length (pl_store p)]"
  using assms(2)
proof (induction rule: inc_induct)
  case (step i)
  then have "length (pl_store p) - i = Suc (length (pl_store p) - Suc i)" by simp
  then show ?case using step assms(1) by (simp add: linked_def upt_conv_Cons)
qed simp

lemma pool_destroy_linked: "linked p \<Longrightarrow> fsd_pool_destroy p = [0..<length (pl_store p)]"
  using chain_linked[of p 0] by (simp add: linked_def fsd_pool_destroy_def pool_chain_def)

lemma linked_upd: "linked p \<Longrightarrow> linked (upd_chunk i (\<lambda>c. c\<lparr>c_used := u c\<rparr>) p)"
  by (cases "i < length (pl_store p)") (auto simp: linked_def upd_chunk_def nth_list_update list_update_beyond)

lemma linked_new:
  assumes "linked p" and "create_chunk A n p = (Some m, p1)"
  shows "linked (link_chunk m p1)"
proof -
  obtain d where d: "m = length (pl_store p)" "pl_current p1 = pl_current p" "pl_chunks p1 = pl_chunks p"
      "pl_store p1 = pl_store p @ [\<lparr>c_data = d, c_size = n, c_used = 0, c_next = None\<rparr>]"
    using assms(2) by (auto simp: create_chunk_def Let_def split: if_splits option.splits)
  let ?last = "length (pl_store p) - 1"
  have ne: "pl_store p \<noteq> []" "pl_current p1 = Some ?last" using assms(1) d(2) by (simp_all add: linked_def)
  then have st: "pl_store (link_chunk m p1) =
      (pl_store p)[?last := (pl_store p ! ?last)\<lparr>c_next := Some m\<rparr>] @ [\<lparr>c_data = d, c_size = n, c_used = 0, c_next = None\<rparr>]"
    using d(4) link_chunk_store(1)[OF ne(2)] by (simp add: nth_append list_update_append)
  have "c_next (pl_store (link_chunk m p1) ! i) = (if Suc i < Suc m then Some (Suc i) else None)" if "i < Suc m" for i
  proof -
    consider "i = m" | "i < m" "i = ?last" | "i < m" "i < ?last" using \<open>i < Suc m\<close> d(1) by linarith
    then show ?thesis
      by cases (use st d(1) ne(1) assms(1) in \<open>auto simp: nth_append linked_def\<close>)
  qed
  then show ?thesis using st d(1,3) assms(1) link_chunk_store(2,3)[OF ne(2)] by (simp add: linked_def)
qed

lemma linked_fail: "linked p \<Longrightarrow> create_chunk A n p = (None, p1) \<Longrightarrow> linked p1"
  by (auto simp: create_chunk_def Let_def linked_def split: if_splits option.splits)

lemma pool_alloc_linked:
  assumes "linked p"
  shows "linked (snd (fsd_pool_alloc A n p))" and "linked (snd (fsd_pool_alloc_aligned A n k p))"
proof -
  have grow: "linked (snd (pool_grow A s m p))" for s m
    using linked_new[OF assms] linked_fail[OF assms]
    by (auto simp: pool_grow_def split: prod.splits option.splits intro!: linked_upd)
  have agrow: "linked (snd (aligned_grow A s m p))" for s m
    using linked_new[OF assms] linked_fail[OF assms] assms
    by (auto simp: aligned_grow_def Let_def split: prod.splits option.splits intro!: linked_upd)
  show "linked (snd (fsd_pool_alloc A n p))"
    using assms grow by (auto simp: fsd_pool_alloc_def Let_def split: option.splits intro!: linked_upd)
  show "linked (snd (fsd_pool_alloc_aligned A n k p))"
    using assms agrow by (auto simp: fsd_pool_alloc_aligned_def Let_def split: option.splits intro!: linked_upd)
qed

lemma pool_run_linked: "pool_run A cs mx ops p L \<Longrightarrow> Reset \<notin> set ops \<Longrightarrow> linked p"
proof (induction rule: pool_run.induct)
  case (create ok p)
  then show ?case
    by (auto simp: fsd_pool_create_def create_chunk_def linked_def Let_def split: if_splits option.splits)
next
  case (alloc ops p L n a p')
  then show ?case using pool_alloc_linked(1)[of p A n] by simp
next
  case (alloc_fail ops p L n p')
  then show ?case using pool_alloc_linked(1)[of p A n] by simp
next
  case (aligned ops p L k n a p')
  then show ?case using pool_alloc_linked(2)[of p A n k] by simp
next
  case (aligned_fail ops p L k n p')
  then show ?case using pool_alloc_linked(2)[of p A n k] by simp
qed simp

section \<open>Properties\<close>

text \<open>An allocator that hands out blocks of up to a mebibyte, one after the other, for the witnesses.\<close>

definition bump_allocator :: allocator where
  "bump_allocator = \<lparr>al_header = (\<lambda>_. True),
     al_data = (\<lambda>k n. if n \<le> 1048576 then Some (1048576 * (k mod 1024 + 1)) else None)\<rparr>"

lemma bump_allocator_sane: "sane_allocator bump_allocator" "bounded_allocator bump_allocator"
proof -
  have "1048576 * (k mod 1024 + 1) + n \<le> 2 ^ 64" if "n \<le> 1048576" for k n :: nat
  proof -
    have "k mod 1024 < 1024" by simp
    then have "1048576 * (k mod 1024 + 1) \<le> 1048576 * 1024" by (intro mult_le_mono2) simp
    then show ?thesis using that by simp
  qed
  then show "sane_allocator bump_allocator" "bounded_allocator bump_allocator"
    by (auto simp: sane_allocator_def bounded_allocator_def bump_allocator_def dvd_mult2 split: if_splits)
qed

text \<open>
  C17. Pool allocations are usable memory: in every state a pool reaches by any sequence of plain and
  aligned allocations, failures and resets, the regions handed out since the last reset are
  pairwise disjoint and each lies inside the data block of one chunk, provided the blocks
  granted by the underlying allocator do not overlap and do not wrap around the address space.
\<close>

theorem pool_allocations_disjoint:
  assumes "pool_run A cs mx ops p L" and "sane_allocator A" and "disjoint_chunks (pl_store p)"
  shows "sorted_wrt disjoint_from L \<and>
    (\<forall>x \<in> set L. \<exists>c \<in> set (pl_store p). c_data c \<le> fst x \<and> fst x + snd x \<le> c_data c + c_size c)"
proof -
  note R = pool_run_ok[OF assms(1,2)]
  have "\<exists>c \<in> set (pl_store p). c_data c \<le> fst x \<and> fst x + snd x \<le> c_data c + c_size c" if x: "x \<in> set L" for x
  proof -
    have "lives_in (pl_store p) x" using R assms(3) x by blast
    then obtain i where "i < length (pl_store p)" "c_data (pl_store p ! i) \<le> fst x"
        "fst x + snd x \<le> c_data (pl_store p ! i) + c_used (pl_store p ! i)"
        "c_used (pl_store p ! i) \<le> c_size (pl_store p ! i)"
      by (auto simp: lives_in_def)
    then show ?thesis by (intro bexI[of _ "pl_store p ! i"]) simp_all
  qed
  then show ?thesis using R assms(3) by blast
qed

lemmas pool_eval = fsd_pool_create_def create_chunk_def bump_allocator_def fsd_pool_alloc_def
  fsd_pool_alloc_aligned_def pool_grow_def link_chunk_def upd_chunk_def fsd_pool_reset_def
  fsd_pool_destroy_def pool_chain_def u64_def u64_sub_def align_up_def is_pow2_def

text \<open>Two allocations from 16-byte chunks: the second does not fit behind the first.\<close>

lemma bump_run:
  "\<exists>p. pool_run bump_allocator 16 64 [Alloc 8, Alloc 10] p [(2097152, 8), (1048576, 10)] \<and>
    disjoint_chunks (pl_store p)"
proof -
  let ?c = "\<lambda>d u nx. \<lparr>c_data = d, c_size = 16, c_used = u, c_next = nx\<rparr>"
  let ?p = "\<lambda>s cur tot k. \<lparr>pl_store = s, pl_chunks = Some 0, pl_current = Some cur, pl_chunk_size = 16,
      pl_total_allocated = tot, pl_max_memory = 64, pl_calls = k\<rparr>"
  let ?pa = "?p [?c 1048576 0 None] 0 16 1" and ?pb = "?p [?c 1048576 16 None] 0 16 1"
  let ?pc = "?p [?c 1048576 16 (Some 1), ?c 2097152 8 None] 1 32 2"
  have "fsd_pool_create bump_allocator True 16 64 = Inr ?pa" by (simp add: pool_eval)
  then have "pool_run bump_allocator 16 64 [] ?pa []" by (rule pool_run.create)
  moreover have "fsd_pool_alloc bump_allocator 10 ?pa = (Some 1048576, ?pb)" by (simp add: pool_eval)
  ultimately have "pool_run bump_allocator 16 64 [Alloc 10] ?pb [(1048576, 10)]" by (rule pool_run.alloc)
  moreover have "fsd_pool_alloc bump_allocator 8 ?pb = (Some 2097152, ?pc)" by (simp add: pool_eval)
  ultimately have "pool_run bump_allocator 16 64 [Alloc 8, Alloc 10] ?pc [(2097152, 8), (1048576, 10)]"
    by (rule pool_run.alloc)
  moreover have "disjoint_chunks (pl_store ?pc)" by (auto simp: disjoint_chunks_def disjoint_from_def less_Suc_eq)
  ultimately show ?thesis by blast
qed

theorem pool_allocations_disjoint_witness:
  "\<exists>p. pool_run bump_allocator 16 64 [Alloc 8, Alloc 10] p [(2097152, 8), (1048576, 10)] \<and>
    sorted_wrt disjoint_from [(2097152, 8), (1048576, 10)]"
proof -
  obtain p where p: "pool_run bump_allocator 16 64 [Alloc 8, Alloc 10] p [(2097152, 8), (1048576, 10)]"
      "disjoint_chunks (pl_store p)"
    using bump_run by blast
  then show ?thesis using pool_allocations_disjoint [OF p(1) bump_allocator_sane(1) p(2)] by blast
qed

text \<open>
  C39. As long as only the plain allocator is used, every address it returns is a multiple of
  eight, whatever odd sizes were requested before, so that hash entries and file tables can be
  stored there.
\<close>

theorem pool_alloc_eight_aligned:
  assumes "pool_run A cs mx ops p L" and "sane_allocator A" and "\<forall>op \<in> set ops. \<exists>n. op = Alloc n \<or> op = Reset"
  shows "\<forall>x \<in> set L. 8 dvd fst x"
  using pool_run_aligned8[OF assms] by blast

theorem pool_alloc_eight_aligned_witness:
  "\<exists>p. pool_run bump_allocator 16 64 [Alloc 8, Alloc 10] p [(2097152, 8), (1048576, 10)] \<and>
    list_all (\<lambda>x. 8 dvd fst x) [(2097152 :: nat, 8 :: nat), (1048576, 10)]"
proof -
  obtain p where p: "pool_run bump_allocator 16 64 [Alloc 8, Alloc 10] p [(2097152, 8), (1048576, 10)]"
    using bump_run by blast
  then show ?thesis using pool_alloc_eight_aligned [OF p bump_allocator_sane(1)] by auto
qed

text \<open>
  The aligned allocator does not round its size up, so a plain allocation after it can be
  misaligned.
\<close>

lemma pool_aligned_then_misaligned:
  "case fsd_pool_create bump_allocator True 64 0 of Inr p \<Rightarrow>
     (case fsd_pool_alloc_aligned bump_allocator 3 1 p of (_, p) \<Rightarrow> fst (fsd_pool_alloc bump_allocator 8 p)) =
     Some 1048579"
  by (simp add: pool_eval)

text \<open>
  C40. A pool with a limit never holds more data memory than the limit: for limits and blocks below
  \<^verbatim>\<open>2 ^ 63\<close> bytes the recorded total is the sum of the sizes of all chunks ever created and is at
  most the limit.
\<close>

theorem pool_limit_respected:
  assumes "pool_run A cs mx ops p L" and "0 < mx" and "mx < 2 ^ 63" and "bounded_allocator A"
  shows "pl_total_allocated p = sum_list (map c_size (pl_store p)) \<and> pl_total_allocated p \<le> mx"
  using pool_run_total[OF assms] by (simp add: total_ok_def)

theorem pool_limit_respected_witness:
  "\<exists>p. pool_run bump_allocator 16 64 [Alloc 8, Alloc 10] p [(2097152, 8), (1048576, 10)] \<and> pl_total_allocated p \<le> 64"
  using bump_run pool_limit_respected [OF _ _ _ bump_allocator_sane(2), of 16 64 "[Alloc 8, Alloc 10]"]
  by fastforce

text \<open>
  Destroying a pool that was never reset returns every chunk to the allocator, in order of
  creation and each once: nothing leaks.
\<close>

theorem pool_destroy_frees_all:
  assumes "pool_run A cs mx ops p L" and "Reset \<notin> set ops"
  shows "fsd_pool_destroy p = [0..<length (pl_store p)]"
  using pool_run_linked[OF assms] by (rule pool_destroy_linked)

theorem pool_destroy_frees_all_witness:
  "\<exists>p. pool_run bump_allocator 16 64 [Alloc 8, Alloc 10] p [(2097152, 8), (1048576, 10)] \<and>
    fsd_pool_destroy p = [0..<length (pl_store p)]"
  using bump_run pool_destroy_frees_all [of bump_allocator 16 64 "[Alloc 8, Alloc 10]"] by fastforce

text \<open>
  After a reset this fails: an allocation that does not fit the head chunk overwrites its link,
  and the chunks behind it are never released.
\<close>

lemma pool_reset_leaks:
  "case fsd_pool_create bump_allocator True 8 0 of Inr p \<Rightarrow>
     (let p = snd (fsd_pool_alloc bump_allocator 8 p); p = snd (fsd_pool_alloc bump_allocator 8 p);
          p = fsd_pool_reset p; p = snd (fsd_pool_alloc bump_allocator 16 p)
      in length (pl_store p) = 3 \<and> fsd_pool_destroy p = [0, 2])"
  by (simp add: pool_eval)

end
