(* ===== verification/Hash_Table.thy ===== *)
theory Hash_Table
  imports Memory_Pool
begin

text \<open>
  The chained hash table of \<^verbatim>\<open>src/core/hash_table.c\<close> from CRC32 values to block indices. Entries
  and buckets are carved from a memory pool, which is threaded through the operations; a chain is
  the list of its entries from the bucket head, and a pointer into a chain is the rest of it. The
  table is an index in the sense of the interface below: it forgets nothing it stored, and an
  insertion for which the pool has no memory is skipped, as in the code.
\<close>

definition LOAD_FACTOR_NUM :: nat where "LOAD_FACTOR_NUM = 3"
definition LOAD_FACTOR_DENOM :: nat where "LOAD_FACTOR_DENOM = 4"
definition MIN_BUCKETS :: nat where "MIN_BUCKETS = 1024"

definition sizeof_hash_entry :: nat where "sizeof_hash_entry = 24"
definition sizeof_hash_table :: nat where "sizeof_hash_table = 32"

record hash_entry =
  he_crc32 :: "32 word"
  he_block_index :: nat

record hash_table =
  ht_buckets :: "hash_entry list list"
  ht_bucket_count :: nat
  ht_entry_count :: nat

definition hash_to_bucket :: "32 word \<Rightarrow> nat \<Rightarrow> nat" where
  "hash_to_bucket crc bucket_count = unat crc mod bucket_count"

definition next_power_of_2 :: "64 word \<Rightarrow> 64 word" where
  "next_power_of_2 n =
     (if n = 0 then 1
      else
        let n = n - 1;
            n = n OR drop_bit 1 n;
            n = n OR drop_bit 2 n;
            n = n OR drop_bit 4 n;
            n = n OR drop_bit 8 n;
            n = n OR drop_bit 16 n;
            n = n OR drop_bit 32 n
        in n + 1)"

definition table_bucket_count :: "nat \<Rightarrow> nat" where
  "table_bucket_count expected_entries =
     (let bucket_count = u64 (expected_entries * LOAD_FACTOR_DENOM) div LOAD_FACTOR_NUM;
          bucket_count = (if bucket_count < MIN_BUCKETS then MIN_BUCKETS else bucket_count)
      in unat (next_power_of_2 (of_nat bucket_count)))"

definition fsd_hash_table_create ::
  "allocator \<Rightarrow> nat \<Rightarrow> memory_pool \<Rightarrow> (fsd_error + hash_table) \<times> memory_pool" where
  "fsd_hash_table_create A expected_entries pool =
     (let bucket_count = table_bucket_count expected_entries in
      case fsd_pool_alloc A sizeof_hash_table pool of
        (None, pool) \<Rightarrow> (Inl FSD_ERR_OUT_OF_MEMORY, pool)
      | (Some _, pool) \<Rightarrow>
          (case fsd_pool_alloc A (u64 (bucket_count * 8)) pool of
             (None, pool) \<Rightarrow> (Inl FSD_ERR_OUT_OF_MEMORY, pool)
           | (Some _, pool) \<Rightarrow>
               (Inr \<lparr>ht_buckets = replicate bucket_count [], ht_bucket_count = bucket_count,
                     ht_entry_count = 0\<rparr>, pool)))"

definition fsd_hash_table_insert ::
  "allocator \<Rightarrow> 32 word \<Rightarrow> nat \<Rightarrow> hash_table \<times> memory_pool \<Rightarrow> hash_table \<times> memory_pool" where
  "fsd_hash_table_insert A crc block_index tp =
     (case tp of (table, pool) \<Rightarrow>
        (case fsd_pool_alloc A sizeof_hash_entry pool of
           (None, pool) \<Rightarrow> (table, pool)
         | (Some _, pool) \<Rightarrow>
             (let entry = \<lparr>he_crc32 = crc, he_block_index = block_index\<rparr>;
                  bucket = hash_to_bucket crc (ht_bucket_count table)
              in (table\<lparr>ht_buckets := (ht_buckets table)[bucket := entry # ht_buckets table ! bucket],
                        ht_entry_count := ht_entry_count table + 1\<rparr>, pool))))"

text \<open>The first entry with the CRC, with the chain behind it.\<close>

definition fsd_hash_table_lookup :: "hash_table \<Rightarrow> 32 word \<Rightarrow> hash_entry list" where
  "fsd_hash_table_lookup table crc =
     dropWhile (\<lambda>e. he_crc32 e \<noteq> crc) (ht_buckets table ! hash_to_bucket crc (ht_bucket_count table))"

definition fsd_hash_table_count :: "hash_table \<Rightarrow> nat" where
  "fsd_hash_table_count table = ht_entry_count table"

section \<open>The number of buckets\<close>

lemma smear_step:
  fixes x y :: "64 word"
  assumes "\<And>j. bit y j \<longleftrightarrow> (\<exists>d < s. bit x (j + d))"
  shows "bit (y OR drop_bit s y) j \<longleftrightarrow> (\<exists>d < s + s. bit x (j + d))"
proof -
  have "(\<exists>d < s + s. bit x (j + d)) \<longleftrightarrow> (\<exists>d < s. bit x (j + d)) \<or> (\<exists>d < s. bit x (s + j + d))"
  proof
    assume "\<exists>d < s + s. bit x (j + d)"
    then obtain d where "d < s + s" "bit x (j + d)" by blast
    then show "(\<exists>d < s. bit x (j + d)) \<or> (\<exists>d < s. bit x (s + j + d))"
      by (cases "d < s") (auto intro: exI[of _ "d - s"] simp: ac_simps)
  next
    assume "(\<exists>d < s. bit x (j + d)) \<or> (\<exists>d < s. bit x (s + j + d))"
    then show "\<exists>d < s + s. bit x (j + d)"
    proof
      assume "\<exists>d < s. bit x (s + j + d)"
      then obtain d where "d < s" "bit x (s + j + d)" by blast
      then show ?thesis by (intro exI[of _ "s + d"]) (simp add: ac_simps)
    qed (meson trans_less_add1)
  qed
  then show ?thesis by (simp add: bit_or_iff bit_drop_bit_eq assms)
qed

text \<open>The six steps together: every bit at or below a set bit is set.\<close>

definition smeared :: "64 word \<Rightarrow> 64 word" where
  "smeared m = (let a = m OR drop_bit 1 m; a = a OR drop_bit 2 a; a = a OR drop_bit 4 a;
      a = a OR drop_bit 8 a; a = a OR drop_bit 16 a in a OR drop_bit 32 a)"

lemma bit_smeared: "bit (smeared m) j \<longleftrightarrow> (\<exists>d < 64. bit m (j + d))"
proof -
  define ya where "ya = m OR drop_bit 1 m"
  define yb where "yb = ya OR drop_bit 2 ya"
  define yc where "yc = yb OR drop_bit 4 yb"
  define yd where "yd = yc OR drop_bit 8 yc"
  define ye where "ye = yd OR drop_bit 16 yd"
  have s1: "bit m j \<longleftrightarrow> (\<exists>d < 1. bit m (j + d))" for j by simp
  have s2: "bit ya j \<longleftrightarrow> (\<exists>d < 2. bit m (j + d))" for j using smear_step[OF s1, of j] by (simp only: ya_def one_add_one)
  have s4: "bit yb j \<longleftrightarrow> (\<exists>d < 4. bit m (j + d))" for j using smear_step[OF s2, of j] by (simp add: yb_def)
  have s8: "bit yc j \<longleftrightarrow> (\<exists>d < 8. bit m (j + d))" for j using smear_step[OF s4, of j] by (simp add: yc_def)
  have s16: "bit yd j \<longleftrightarrow> (\<exists>d < 16. bit m (j + d))" for j using smear_step[OF s8, of j] by (simp add: yd_def)
  have s32: "bit ye j \<longleftrightarrow> (\<exists>d < 32. bit m (j + d))" for j using smear_step[OF s16, of j] by (simp add: ye_def)
  have "smeared m = ye OR drop_bit 32 ye" unfolding smeared_def ya_def yb_def yc_def yd_def ye_def Let_def by (rule refl)
  then show ?thesis using smear_step[OF s32, of j] by simp
qed

lemma bit_unat: "bit m j \<longleftrightarrow> bit (unat m) j" for m :: "64 word"
  using bit_imp_le_length[of m j] by (auto simp: bit_unsigned_iff)

lemma bit_unat_le: "bit m j \<Longrightarrow> 2 ^ j \<le> unat m" for m :: "64 word"
  unfolding bit_unat by (rule ccontr) (simp add: bit_iff_odd)

lemma smeared_mask:
  assumes lt: "unat m < 2 ^ k" and top: "0 < k \<Longrightarrow> 2 ^ (k - 1) \<le> unat m" and "k \<le> 64"
  shows "smeared m = Bit_Operations.mask k"
proof -
  have bit_top: "bit m (k - 1)" if "0 < k"
  proof -
    have "unat m div 2 ^ (k - 1) = 1"
      using lt top[OF that] power_Suc[of "2 :: nat" "k - 1"] that by (intro div_nat_eqI) simp_all
    then show ?thesis by (simp add: bit_unat bit_iff_odd)
  qed
  have "bit (smeared m) j \<longleftrightarrow> j < k" for j
  proof
    assume "bit (smeared m) j"
    then obtain d where "2 ^ (j + d) \<le> unat m" using bit_smeared bit_unat_le by blast
    also note lt
    finally have "j + d < k" by simp
    then show "j < k" by simp
  next
    assume "j < k"
    then show "bit (smeared m) j"
      unfolding bit_smeared using bit_top \<open>k \<le> 64\<close> by (intro exI[of _ "k - 1 - j"]) auto
  qed
  then show ?thesis by (intro bit_word_eqI) (simp add: bit_mask_iff)
qed

text \<open>The smallest power of two that is not below \<^verbatim>\<open>n\<close>, for \<^verbatim>\<open>n\<close> up to \<^verbatim>\<open>2 ^ 63\<close>; above, the result wraps to zero.\<close>

lemma next_power_of_2_word:
  assumes "n \<noteq> 0"
  shows "\<exists>k \<le> 64. next_power_of_2 n = push_bit k 1 \<and> unat n \<le> 2 ^ k \<and> (\<forall>j. unat n \<le> 2 ^ j \<longrightarrow> k \<le> j)"
proof -
  have m: "unat (n - 1) + 1 = unat n" using assms by (simp add: unat_minus_one unat_gt_0)
  define k where "k = (LEAST j. unat n \<le> 2 ^ j)"
  have le: "unat n \<le> 2 ^ k" unfolding k_def by (rule LeastI[of _ "unat n"]) (simp add: less_imp_le)
  have least: "k \<le> j" if "unat n \<le> 2 ^ j" for j unfolding k_def using that by (rule Least_le)
  have "unat n \<le> 2 ^ 64" using unsigned_less[of n, where 'a = nat] by simp
  then have k64: "k \<le> 64" by (rule least)
  have "2 ^ (k - 1) \<le> unat (n - 1)" if "0 < k"
    using least[of "k - 1"] that m by fastforce
  then have "smeared (n - 1) = Bit_Operations.mask k" using m le k64 by (intro smeared_mask) simp_all
  moreover have "next_power_of_2 n = smeared (n - 1) + 1"
    using assms by (simp add: next_power_of_2_def smeared_def Let_def)
  ultimately have "next_power_of_2 n = push_bit k 1" by (simp add: mask_eq_exp_minus_1 push_bit_eq_mult)
  then show ?thesis using le least k64 by blast
qed

lemma next_power_of_2_nat:
  assumes "0 < n" and "n \<le> 2 ^ 63"
  obtains k where "k \<le> 63" "unat (next_power_of_2 (of_nat n)) = 2 ^ k" "n \<le> 2 ^ k" "\<And>j. n \<le> 2 ^ j \<Longrightarrow> k \<le> j"
proof -
  have u: "unat (of_nat n :: 64 word) = n" using assms(2) by (intro unat_of_nat_less) simp
  then have "(of_nat n :: 64 word) \<noteq> 0" using assms(1) by auto
  then obtain k where k: "next_power_of_2 (of_nat n) = push_bit k 1" "n \<le> 2 ^ k" "\<And>j. n \<le> 2 ^ j \<Longrightarrow> k \<le> j"
    using next_power_of_2_word u by metis
  have "k \<le> 63" using k(3) assms(2) by blast
  moreover have "unat (push_bit k 1 :: 64 word) = 2 ^ k"
  proof -
    have "(2 :: nat) ^ k < 2 ^ 64" using \<open>k \<le> 63\<close> by (intro power_strict_increasing) simp_all
    then show ?thesis using unat_of_nat_less[of "2 ^ k", where 'a = 64] by (simp add: push_bit_eq_mult)
  qed
  ultimately show thesis using k that by metis
qed

section \<open>The interface: an index from CRC values to block numbers\<close>

text \<open>
  \<^verbatim>\<open>pairs\<close> are the associations an index holds, \<^verbatim>\<open>find\<close> the candidates it returns for a CRC.
  Insertion may be skipped for want of memory, and is not when there is \<^verbatim>\<open>room\<close>.
\<close>

locale crc_index =
  fixes ins :: "32 word \<Rightarrow> nat \<Rightarrow> 's \<Rightarrow> 's"
    and find :: "'s \<Rightarrow> 32 word \<Rightarrow> nat list"
    and pairs :: "'s \<Rightarrow> (32 word \<times> nat) set"
    and ok :: "'s \<Rightarrow> bool"
    and room :: "'s \<Rightarrow> bool"
  assumes ins_ok: "ok s \<Longrightarrow> ok (ins c i s)"
    and ins_pairs: "ok s \<Longrightarrow> pairs s \<subseteq> pairs (ins c i s) \<and> pairs (ins c i s) \<subseteq> insert (c, i) (pairs s)"
    and ins_stores: "ok s \<Longrightarrow> room s \<Longrightarrow> room (ins c i s) \<and> (c, i) \<in> pairs (ins c i s)"
    and find_sound: "ok s \<Longrightarrow> i \<in> set (find s c) \<Longrightarrow> \<exists>c'. (c', i) \<in> pairs s"
    and find_complete: "ok s \<Longrightarrow> (c, i) \<in> pairs s \<Longrightarrow> i \<in> set (find s c)"
begin

text \<open>Building an index over the numbers that pass a filter.\<close>

definition index_step :: "(nat \<Rightarrow> bool) \<Rightarrow> (nat \<Rightarrow> 32 word) \<Rightarrow> nat \<Rightarrow> 's \<Rightarrow> 's" where
  "index_step keep crc i s = (if keep i then ins (crc i) i s else s)"

lemma index_fold:
  "ok s \<Longrightarrow> ok (fold (index_step keep crc) ks s) \<and> pairs s \<subseteq> pairs (fold (index_step keep crc) ks s) \<and>
     pairs (fold (index_step keep crc) ks s) \<subseteq> pairs s \<union> {(crc i, i) |i. i \<in> set ks \<and> keep i}"
proof (induction ks arbitrary: s)
  case (Cons i ks)
  let ?s = "index_step keep crc i s"
  have "ok ?s" "pairs s \<subseteq> pairs ?s" "pairs ?s \<subseteq> pairs s \<union> {(crc j, j) |j. j = i \<and> keep j}"
    using ins_ok[OF Cons.prems, of "crc i" i] ins_pairs[OF Cons.prems, of "crc i" i] Cons.prems
    by (auto simp: index_step_def)
  with Cons.IH[of ?s] show ?case by (simp, blast)
qed simp

lemma index_fold_complete:
  "ok s \<Longrightarrow> room s \<Longrightarrow> i \<in> set ks \<Longrightarrow> keep i \<Longrightarrow> (crc i, i) \<in> pairs (fold (index_step keep crc) ks s)"
proof (induction ks arbitrary: s)
  case (Cons j ks)
  let ?s = "index_step keep crc j s"
  have s: "ok ?s" "room ?s" using Cons.prems(1,2) ins_ok ins_stores by (simp_all add: index_step_def)
  show ?case
  proof (cases "i \<in> set ks")
    case True
    then show ?thesis using Cons.IH[OF s] Cons.prems(4) by simp
  next
    case False
    then have "(crc i, i) \<in> pairs ?s" using Cons.prems ins_stores by (auto simp: index_step_def)
    then show ?thesis using index_fold[OF s(1)] by auto
  qed
qed simp

end

section \<open>The hash table is such an index\<close>

definition table_pairs :: "hash_table \<Rightarrow> (32 word \<times> nat) set" where
  "table_pairs t = (\<lambda>e. (he_crc32 e, he_block_index e)) ` set (concat (ht_buckets t))"

text \<open>Every entry is in the bucket its CRC selects, and the entry count is exact.\<close>

definition table_ok :: "hash_table \<Rightarrow> bool" where
  "table_ok t \<longleftrightarrow> 0 < ht_bucket_count t \<and> length (ht_buckets t) = ht_bucket_count t \<and>
     ht_entry_count t = length (concat (ht_buckets t)) \<and>
     (\<forall>b < ht_bucket_count t. \<forall>e \<in> set (ht_buckets t ! b). hash_to_bucket (he_crc32 e) (ht_bucket_count t) = b)"

lemma hash_to_bucket_less: "0 < n \<Longrightarrow> hash_to_bucket c n < n"
  by (simp add: hash_to_bucket_def)

definition add_entry :: "32 word \<Rightarrow> nat \<Rightarrow> hash_table \<Rightarrow> hash_table" where
  "add_entry c i t =
     (let b = hash_to_bucket c (ht_bucket_count t) in
      t\<lparr>ht_buckets := (ht_buckets t)[b := \<lparr>he_crc32 = c, he_block_index = i\<rparr> # ht_buckets t ! b],
        ht_entry_count := ht_entry_count t + 1\<rparr>)"

lemma concat_update_length:
  "b < length xs \<Longrightarrow> length (concat (xs[b := y # xs ! b])) = Suc (length (concat xs))"
  by (induction xs arbitrary: b) (auto split: nat.splits)

lemma set_concat_update:
  "b < length xs \<Longrightarrow> set (concat (xs[b := y # xs ! b])) = insert y (set (concat xs))"
  by (induction xs arbitrary: b) (auto split: nat.splits)

lemma add_entry_ok:
  assumes "table_ok t"
  shows "table_ok (add_entry c i t)" and "table_pairs (add_entry c i t) = insert (c, i) (table_pairs t)"
proof -
  let ?b = "hash_to_bucket c (ht_bucket_count t)"
  have b: "?b < length (ht_buckets t)" using assms hash_to_bucket_less by (simp add: table_ok_def)
  show "table_ok (add_entry c i t)"
    using assms b concat_update_length[OF b]
    by (auto simp: table_ok_def add_entry_def Let_def nth_list_update simp del: length_concat)
  show "table_pairs (add_entry c i t) = insert (c, i) (table_pairs t)"
    using set_concat_update[OF b] by (simp add: table_pairs_def add_entry_def Let_def del: set_concat)
qed

lemma insert_cases:
  "\<exists>p'. fsd_hash_table_insert A c i (t, p) =
     (if fst (fsd_pool_alloc A sizeof_hash_entry p) = None then t else add_entry c i t, p') \<and>
     p' = snd (fsd_pool_alloc A sizeof_hash_entry p)"
  by (auto simp: fsd_hash_table_insert_def add_entry_def Let_def split: prod.splits option.splits)

lemma lookup_sound: "table_ok t \<Longrightarrow> e \<in> set (fsd_hash_table_lookup t c) \<Longrightarrow> (he_crc32 e, he_block_index e) \<in> table_pairs t"
proof -
  assume ok: "table_ok t" and "e \<in> set (fsd_hash_table_lookup t c)"
  then have "e \<in> set (ht_buckets t ! hash_to_bucket c (ht_bucket_count t))"
    unfolding fsd_hash_table_lookup_def by (meson set_dropWhileD)
  moreover have "ht_buckets t ! hash_to_bucket c (ht_bucket_count t) \<in> set (ht_buckets t)"
    using ok hash_to_bucket_less by (simp add: table_ok_def)
  ultimately have "e \<in> set (concat (ht_buckets t))" by auto
  then show ?thesis unfolding table_pairs_def by (rule rev_image_eqI) simp
qed

lemma in_dropWhile: "x \<in> set xs \<Longrightarrow> \<not> P x \<Longrightarrow> x \<in> set (dropWhile P xs)"
  by (induction xs) auto

lemma lookup_complete:
  assumes "table_ok t" and "(c, i) \<in> table_pairs t"
  shows "\<exists>e \<in> set (fsd_hash_table_lookup t c). he_crc32 e = c \<and> he_block_index e = i"
proof -
  obtain e b where e: "b < ht_bucket_count t" "e \<in> set (ht_buckets t ! b)" "he_crc32 e = c" "he_block_index e = i"
    using assms by (auto simp: table_pairs_def table_ok_def in_set_conv_nth[of _ "ht_buckets t"])
  then have "b = hash_to_bucket c (ht_bucket_count t)" using assms(1) by (auto simp: table_ok_def)
  then show ?thesis using e in_dropWhile[of e _ "\<lambda>e. he_crc32 e \<noteq> c"] unfolding fsd_hash_table_lookup_def by metis
qed

text \<open>A pool that always finds memory: no limit, and an allocator that grants every chunk it needs.\<close>

definition generous :: "allocator \<Rightarrow> nat \<Rightarrow> memory_pool \<Rightarrow> bool" where
  "generous A n p \<longleftrightarrow> pl_max_memory p = 0 \<and> 0 < n \<and> n \<le> 2 ^ 63 \<and> (\<forall>k. al_header A k) \<and>
     (\<forall>k m. m \<le> max ((n + 7) div 8 * 8) (pl_chunk_size p) \<longrightarrow> al_data A k m \<noteq> None)"

lemma create_chunk_frame:
  "pl_max_memory (snd (create_chunk A n p)) = pl_max_memory p \<and> pl_chunk_size (snd (create_chunk A n p)) = pl_chunk_size p"
  by (auto simp: create_chunk_def Let_def split: option.splits)

lemma alloc_frame:
  "pl_max_memory (snd (fsd_pool_alloc A n p)) = pl_max_memory p \<and> pl_chunk_size (snd (fsd_pool_alloc A n p)) = pl_chunk_size p"
proof -
  have upd: "pl_max_memory (upd_chunk i f q) = pl_max_memory q" "pl_chunk_size (upd_chunk i f q) = pl_chunk_size q"
    "pl_max_memory (link_chunk i q) = pl_max_memory q" "pl_chunk_size (link_chunk i q) = pl_chunk_size q" for i f q
    by (simp_all add: upd_chunk_def link_chunk_def split: option.splits)
  have "pl_max_memory (snd (pool_grow A s m p)) = pl_max_memory p \<and> pl_chunk_size (snd (pool_grow A s m p)) = pl_chunk_size p" for s m
    using create_chunk_frame[of A m p] by (auto simp: pool_grow_def upd split: prod.splits option.splits)
  then show ?thesis by (auto simp: fsd_pool_alloc_def Let_def upd split: option.splits)
qed

lemma generous_alloc:
  assumes "generous A n p"
  shows "fst (fsd_pool_alloc A n p) \<noteq> None" and "generous A n (snd (fsd_pool_alloc A n p))"
proof -
  let ?s = "(n + 7) div 8 * 8"
  have chunk: "fst (create_chunk A m p) \<noteq> None" if "m \<le> max ?s (pl_chunk_size p)" for m
    using assms that by (auto simp: generous_def create_chunk_def Let_def split: option.splits)
  have "fst (pool_grow A ?s m p) \<noteq> None" if "m \<le> max ?s (pl_chunk_size p)" for m
    using chunk[OF that] by (auto simp: pool_grow_def split: prod.splits option.splits)
  then have "fst (pool_grow A ?s (if pl_chunk_size p < ?s then ?s else pl_chunk_size p) p) \<noteq> None" by simp
  then show "fst (fsd_pool_alloc A n p) \<noteq> None"
    using assms by (auto simp: fsd_pool_alloc_def generous_def Let_def split: option.splits)
  show "generous A n (snd (fsd_pool_alloc A n p))"
    using assms alloc_frame[of A n p] by (simp add: generous_def)
qed

interpretation ht: crc_index "fsd_hash_table_insert A" "\<lambda>tp c. map he_block_index (fsd_hash_table_lookup (fst tp) c)"
  "\<lambda>tp. table_pairs (fst tp)" "\<lambda>tp. table_ok (fst tp)" "\<lambda>tp. generous A sizeof_hash_entry (snd tp)" for A
proof unfold_locales
  fix s :: "hash_table \<times> memory_pool" and c i
  obtain t p where s: "s = (t, p)" by fastforce
  note I = insert_cases[of A c i t p]
  assume ok: "table_ok (fst s)"
  show "table_ok (fst (fsd_hash_table_insert A c i s))" using I ok s add_entry_ok[of t c i] by auto
  show "table_pairs (fst s) \<subseteq> table_pairs (fst (fsd_hash_table_insert A c i s)) \<and>
      table_pairs (fst (fsd_hash_table_insert A c i s)) \<subseteq> insert (c, i) (table_pairs (fst s))"
    using I ok s add_entry_ok[of t c i] by auto
  show "generous A sizeof_hash_entry (snd (fsd_hash_table_insert A c i s)) \<and>
      (c, i) \<in> table_pairs (fst (fsd_hash_table_insert A c i s))"
    if "generous A sizeof_hash_entry (snd s)"
    using I ok s that generous_alloc[of A sizeof_hash_entry p] add_entry_ok[of t c i] by auto
  show "\<exists>c'. (c', i) \<in> table_pairs (fst s)" if "i \<in> set (map he_block_index (fsd_hash_table_lookup (fst s) c))"
    using that lookup_sound[OF ok] by auto
  show "i \<in> set (map he_block_index (fsd_hash_table_lookup (fst s) c))" if "(c, i) \<in> table_pairs (fst s)"
    using lookup_complete[OF ok that] by auto
qed

section \<open>Creation\<close>

lemma mult8_wraps: "61 \<le> k \<Longrightarrow> u64 (2 ^ k * 8) = 0"
proof -
  assume "61 \<le> k"
  then have "(2 :: nat) ^ k * 8 = 2 ^ 64 * 2 ^ (k - 61)"
    using power_add[of "2 :: nat" 61 "k - 61"] by simp
  then show ?thesis by (simp only: u64_def mod_mult_self1_is_0)
qed

lemma table_bucket_count_cases:
  obtains (pow) k where "k \<le> 63" "10 \<le> k" "table_bucket_count n = 2 ^ k" "u64 (n * 4) div 3 \<le> 2 ^ k"
proof -
  define b where "b = (if u64 (n * 4) div 3 < 1024 then 1024 else u64 (n * 4) div 3)"
  have t: "table_bucket_count n = unat (next_power_of_2 (of_nat b))"
    by (simp add: table_bucket_count_def b_def LOAD_FACTOR_DENOM_def LOAD_FACTOR_NUM_def MIN_BUCKETS_def Let_def)
  have "u64 (n * 4) < 2 ^ 64" by (simp add: u64_def)
  then have "u64 (n * 4) div 3 \<le> 2 ^ 63" using div_le_mono[of "u64 (n * 4)" "2 ^ 64" 3] by simp
  then have "b \<le> 2 ^ 63" "0 < b" "1024 \<le> b" "u64 (n * 4) div 3 \<le> b" by (simp_all add: b_def)
  then obtain k where k: "k \<le> 63" "unat (next_power_of_2 (of_nat b)) = 2 ^ k" "b \<le> 2 ^ k" "\<And>j. b \<le> 2 ^ j \<Longrightarrow> k \<le> j"
    using next_power_of_2_nat by metis
  have "(2 :: nat) ^ 10 \<le> 2 ^ k" using k(3) \<open>1024 \<le> b\<close> by simp
  then have "10 \<le> k" by (simp only: power_increasing_iff)
  then show thesis
    using k t \<open>u64 (n * 4) div 3 \<le> b\<close> by (intro pow[of k]) simp_all
qed

lemma hash_table_create_facts:
  assumes "fsd_hash_table_create A n p = (Inr t, p')"
  shows "(\<exists>k. ht_bucket_count t = 2 ^ k \<and> 10 \<le> k \<and> k \<le> 60) \<and> ht_bucket_count t * 8 < 2 ^ 64 \<and>
    (n * 4 < 2 ^ 64 \<longrightarrow> n * 4 div 3 \<le> ht_bucket_count t) \<and> table_ok t \<and> table_pairs t = {}"
proof -
  obtain k where k: "k \<le> 63" "10 \<le> k" "table_bucket_count n = 2 ^ k" "u64 (n * 4) div 3 \<le> 2 ^ k"
    by (rule table_bucket_count_cases[of n])
  have t: "t = \<lparr>ht_buckets = replicate (2 ^ k) [], ht_bucket_count = 2 ^ k, ht_entry_count = 0\<rparr>"
    using assms k(3) by (auto simp: fsd_hash_table_create_def Let_def split: prod.splits option.splits)
  have "\<not> 61 \<le> k"
  proof
    assume "61 \<le> k"
    then have "u64 (table_bucket_count n * 8) = 0" using k(3) mult8_wraps by simp
    then show False using assms
      by (auto simp: fsd_hash_table_create_def fsd_pool_alloc_def[of A 0] Let_def split: prod.splits option.splits)
  qed
  then have "(2 :: nat) ^ k \<le> 2 ^ 60" by (intro power_increasing) simp_all
  then show ?thesis using k t \<open>\<not> 61 \<le> k\<close> by (auto simp: table_ok_def table_pairs_def u64_id)
qed

text \<open>
  A hash table that is created has a bucket array of the size its bucket count says: the count
  is a power of two, at least 1024 and at least four thirds of the expected number of entries
  (when that product does not wrap), its byte size did not wrap around, and the table is empty
  and well formed. No request for entries, however large, yields a table with fewer buckets than
  it uses.
\<close>

theorem hash_table_create_sound:
  assumes "fsd_hash_table_create A n p = (Inr t, p')"
  shows "(\<exists>k. ht_bucket_count t = 2 ^ k \<and> 10 \<le> k \<and> k \<le> 60) \<and> ht_bucket_count t * 8 < 2 ^ 64 \<and>
    (n * 4 < 2 ^ 64 \<longrightarrow> n * 4 div 3 \<le> ht_bucket_count t) \<and> table_ok t \<and> table_pairs t = {}"
  using assms by (rule hash_table_create_facts)

theorem hash_table_create_sound_witness:
  "\<exists>t p'. fsd_hash_table_create (bump_allocator) 5 (case fsd_pool_create bump_allocator True 65536 0 of Inr p \<Rightarrow> p) = (Inr t, p') \<and>
     table_ok t \<and> table_pairs t = {}"
proof -
  let ?p = "case fsd_pool_create bump_allocator True 65536 0 of Inr p \<Rightarrow> p"
  have "unat (next_power_of_2 1024) = 1024" by (simp add: next_power_of_2_def Let_def)
  then have b: "table_bucket_count 5 = 1024"
    by (simp add: table_bucket_count_def LOAD_FACTOR_DENOM_def LOAD_FACTOR_NUM_def MIN_BUCKETS_def u64_def Let_def)
  have "\<exists>t p'. fsd_hash_table_create bump_allocator 5 ?p = (Inr t, p')"
    by (simp add: fsd_hash_table_create_def b pool_eval sizeof_hash_table_def Let_def)
  then show ?thesis using hash_table_create_sound [of bump_allocator 5 ?p] by blast
qed

text \<open>
  C18. Lookup refines a finite relation: after any sequence of insertions into a new table, a chain
  returned for a CRC contains every block inserted under that CRC while the pool had memory, all
  of its entries were inserted, and the chain starts at an entry with that CRC.
\<close>

theorem hash_table_lookup_spec:
  assumes "table_ok t" and "fold (\<lambda>(c, i). fsd_hash_table_insert A c i) xs (t, p) = (t', p')"
  shows "table_ok t' \<and> ht_entry_count t' \<le> ht_entry_count t + length xs \<and>
    (\<forall>e \<in> set (fsd_hash_table_lookup t' c). (he_crc32 e, he_block_index e) \<in> table_pairs t \<union> set xs) \<and>
    (fsd_hash_table_lookup t' c \<noteq> [] \<longrightarrow> he_crc32 (hd (fsd_hash_table_lookup t' c)) = c) \<and>
    (generous A sizeof_hash_entry p \<longrightarrow> (\<forall>i. (c, i) \<in> table_pairs t \<union> set xs \<longrightarrow>
      (\<exists>e \<in> set (fsd_hash_table_lookup t' c). he_crc32 e = c \<and> he_block_index e = i)))"
proof -
  have "table_ok t' \<and> ht_entry_count t' \<le> ht_entry_count t + length xs \<and> table_pairs t' \<subseteq> table_pairs t \<union> set xs \<and>
      (generous A sizeof_hash_entry p \<longrightarrow> table_pairs t \<union> set xs \<subseteq> table_pairs t')"
    using assms
  proof (induction xs arbitrary: t p)
    case (Cons x xs)
    obtain c i where x: "x = (c, i)" by fastforce
    obtain t1 p1 where I: "fsd_hash_table_insert A c i (t, p) = (t1, p1)" by fastforce
    have t1: "t1 = t \<or> t1 = add_entry c i t" using insert_cases[of A c i t p] I by auto
    have ok: "table_ok t1" using ht.ins_ok[where s = "(t, p)"] Cons.prems(1) I by (metis fst_conv)
    have cnt: "ht_entry_count t1 \<le> Suc (ht_entry_count t)" using t1 by (auto simp: add_entry_def Let_def)
    have sub: "table_pairs t1 \<subseteq> insert (c, i) (table_pairs t)" using t1 add_entry_ok(2)[OF Cons.prems(1)] by auto
    have gen: "generous A sizeof_hash_entry p1 \<and> insert (c, i) (table_pairs t) \<subseteq> table_pairs t1"
      if "generous A sizeof_hash_entry p"
      using ht.ins_stores[where s = "(t, p)" and A = A and c = c and i = i] ht.ins_pairs[where s = "(t, p)" and A = A and c = c and i = i]
        Cons.prems(1) that I by auto
    show ?case using Cons.IH[OF ok, of p1] Cons.prems(2) x I cnt sub gen by auto
  qed simp
  then show ?thesis
    using lookup_sound[of t' _ c] lookup_complete[of t' c] hd_dropWhile[of "\<lambda>e. he_crc32 e \<noteq> c"]
    by (auto simp: fsd_hash_table_lookup_def) blast+
qed

theorem hash_table_lookup_spec_witness:
  "\<exists>t' p'. fold (\<lambda>(c, i). fsd_hash_table_insert bump_allocator c i) [(7, 3), (7, 4), (1031, 5)]
      (\<lparr>ht_buckets = replicate 8 [], ht_bucket_count = 8, ht_entry_count = 0\<rparr>,
       case fsd_pool_create bump_allocator True 65536 0 of Inr p \<Rightarrow> p) = (t', p') \<and>
     (\<exists>e \<in> set (fsd_hash_table_lookup t' 7). he_crc32 e = 7 \<and> he_block_index e = 3)"
proof -
  let ?t = "\<lparr>ht_buckets = replicate 8 [], ht_bucket_count = 8, ht_entry_count = 0\<rparr>"
  let ?p = "case fsd_pool_create bump_allocator True 65536 0 of Inr p \<Rightarrow> p"
  obtain t' p' where f: "fold (\<lambda>(c, i). fsd_hash_table_insert bump_allocator c i) [(7, 3), (7, 4), (1031, 5)] (?t, ?p) = (t', p')"
    by fastforce
  have "table_ok ?t" by (simp add: table_ok_def)
  moreover have "generous bump_allocator sizeof_hash_entry ?p"
    by (simp add: generous_def sizeof_hash_entry_def pool_eval)
  ultimately show ?thesis using hash_table_lookup_spec [OF _ f, of 7] f by auto
qed

end
