(* ===== verification/Stage_Relocation.thy ===== *)
theory Stage_Relocation
  imports Match_Soundness Hash_Table Simd Crc32
begin

text \<open>
  Stage 2, \<^verbatim>\<open>src/stages/stage_relocation.c\<close>: an index of the non-zero source blocks by CRC32, and
  for each unmatched destination block the first source block of the index that has the same
  content at another position. The index is used through the interface \<^verbatim>\<open>crc_index\<close>; every
  candidate is compared byte for byte.
\<close>

record relocation_stage =
  rs_block_size :: nat
  rs_src_blocks :: nat
  rs_src_hash :: "hash_table option"
  rs_pool :: memory_pool
  rs_verbose :: int

definition is_zero_block_quick :: "bytes \<Rightarrow> nat \<Rightarrow> bool" where
  "is_zero_block_quick block sz =
     (if 16 \<le> sz \<and> load_word block 0 \<noteq> 0 then False
      else if 16 \<le> sz \<and> load_word block ((sz div 8 - 1) * 8) \<noteq> 0 then False
      else list_all (\<lambda>i. load_word block (i * 8) = 0) [0..<sz div 8])"

definition fsd_relocation_stage_create ::
  "bool \<Rightarrow> allocator \<Rightarrow> bool \<Rightarrow> nat \<Rightarrow> nat \<Rightarrow> fsd_error + relocation_stage" where
  "fsd_relocation_stage_create calloc_ok A malloc_ok block_size src_blocks =
     (if block_size = 0 then Inl FSD_ERR_INVALID_ARG
      else if \<not> calloc_ok then Inl FSD_ERR_OUT_OF_MEMORY
      else
        (case fsd_pool_create A malloc_ok (1024 * 1024) 0 of
           Inl err \<Rightarrow> Inl err
         | Inr pool \<Rightarrow> Inr \<lparr>rs_block_size = block_size, rs_src_blocks = src_blocks, rs_src_hash = None,
             rs_pool = pool, rs_verbose = 0\<rparr>))"

definition index_block :: "allocator \<Rightarrow> bytes \<Rightarrow> nat \<Rightarrow> nat \<Rightarrow> (hash_table \<times> memory_pool) action" where
  "index_block A src block_size i tp =
     (case block_at src block_size i of
        None \<Rightarrow> (UB_FAULT, tp)
      | Some block \<Rightarrow>
          if is_zero_block_quick block block_size then (FSD_SUCCESS, tp)
          else (FSD_SUCCESS, fsd_hash_table_insert A (fsd_crc32 block) i tp))"

definition fsd_relocation_stage_build_index :: "allocator \<Rightarrow> bytes \<Rightarrow> relocation_stage action" where
  "fsd_relocation_stage_build_index A src stage =
     (case fsd_hash_table_create A (rs_src_blocks stage) (rs_pool stage) of
        (Inl err, pool) \<Rightarrow> (err, stage\<lparr>rs_pool := pool\<rparr>)
      | (Inr table, pool) \<Rightarrow>
          (case for_loop 0 (rs_src_blocks stage) (index_block A src (rs_block_size stage)) (table, pool) of
             (err, table, pool) \<Rightarrow> (err, stage\<lparr>rs_src_hash := Some table, rs_pool := pool\<rparr>)))"

text \<open>The walk along the chain of a bucket, from the first entry with the block's CRC.\<close>

fun search_chain :: "nat \<Rightarrow> bytes \<Rightarrow> bytes \<Rightarrow> nat \<Rightarrow> hash_entry list \<Rightarrow> block_tracker action" where
  "search_chain block_size src dest dest_idx [] t = (FSD_SUCCESS, t)"
| "search_chain block_size src dest dest_idx (entry # entries) t =
     (let src_idx = he_block_index entry in
      if src_idx = dest_idx then search_chain block_size src dest dest_idx entries t
      else
        (case (block_at src block_size src_idx, block_at dest block_size dest_idx) of
           (Some src_block, Some dest_block) \<Rightarrow>
             if src_block = dest_block
             then (FSD_SUCCESS, fsd_block_tracker_set_match dest_idx FSD_MATCH_RELOCATE src_idx t)
             else search_chain block_size src dest dest_idx entries t
         | _ \<Rightarrow> (UB_FAULT, t)))"

definition relocate_block :: "hash_table \<Rightarrow> nat \<Rightarrow> bytes \<Rightarrow> bytes \<Rightarrow> nat \<Rightarrow> block_tracker action" where
  "relocate_block src_hash block_size src dest dest_idx t =
     (if \<not> fsd_block_tracker_is_unmatched t dest_idx then (FSD_SUCCESS, t)
      else
        (case fsd_block_tracker_get t dest_idx of
           None \<Rightarrow> (UB_FAULT, t)
         | Some state \<Rightarrow>
             search_chain block_size src dest dest_idx (fsd_hash_table_lookup src_hash (b_crc32 state)) t))"

definition fsd_relocation_stage_run :: "relocation_stage \<Rightarrow> bytes \<Rightarrow> bytes \<Rightarrow> block_tracker action" where
  "fsd_relocation_stage_run stage src dest t =
     (case rs_src_hash stage of
        None \<Rightarrow> (FSD_ERR_NOT_INITIALIZED, t)
      | Some src_hash \<Rightarrow>
          for_loop 0 (t_count t) (relocate_block src_hash (rs_block_size stage) src dest) t)"

definition fsd_relocation_stage_set_verbose :: "int \<Rightarrow> relocation_stage \<Rightarrow> relocation_stage" where
  "fsd_relocation_stage_set_verbose verbose stage = stage\<lparr>rs_verbose := verbose\<rparr>"

section \<open>The zero test\<close>

lemma is_zero_block_quick_iff:
  assumes "length d = n" and "8 dvd n"
  shows "is_zero_block_quick d n \<longleftrightarrow> d = replicate n 0"
proof -
  have "n div 8 * 8 = n" using assms(2) by simp
  then have s: "fsd_scalar_is_zero d n = list_all (\<lambda>i. load_word d (i * 8) = 0) [0..<n div 8]"
    by (simp add: fsd_scalar_is_zero_def tail_is_def Let_def)
  have "is_zero_block_quick d n = fsd_scalar_is_zero d n"
  proof (cases "16 \<le> n")
    case True
    then have "0 < n div 8" "n div 8 - 1 < n div 8" by simp_all
    then have "load_word d (0 * 8) = 0" "load_word d ((n div 8 - 1) * 8) = 0"
      if "list_all (\<lambda>i. load_word d (i * 8) = 0) [0..<n div 8]"
      using that unfolding list_all_iff by force+
    with True show ?thesis by (auto simp: is_zero_block_quick_def s)
  qed (simp add: is_zero_block_quick_def s)
  then show ?thesis using assms(1) by (auto simp: scalar.is_zero all_bytes_def list_eq_iff_nth_eq)
qed

section \<open>Building the index\<close>

text \<open>The index holds only source blocks that exist, and, when memory suffices, every one that is not zero.\<close>

definition indexable :: "bytes \<Rightarrow> nat \<Rightarrow> nat \<Rightarrow> bool" where
  "indexable src bs i \<longleftrightarrow> \<not> is_zero_block_quick (bytes_at (i * bs) bs src) bs"

definition src_crc :: "bytes \<Rightarrow> nat \<Rightarrow> nat \<Rightarrow> 32 word" where
  "src_crc src bs i = fsd_crc32 (bytes_at (i * bs) bs src)"

lemma index_loop:
  assumes "n * bs \<le> length src"
  shows "for_loop 0 n (index_block A src bs) tp =
    (FSD_SUCCESS, fold (ht.index_step A (indexable src bs) (src_crc src bs)) [0..<0 + n] tp)"
  by (rule fold_for_loop)
    (use block_at_in[OF _ assms] in \<open>simp add: index_block_def ht.index_step_def indexable_def src_crc_def\<close>)

definition index_ok :: "bytes \<Rightarrow> nat \<Rightarrow> hash_table \<Rightarrow> bool" where
  "index_ok src n table \<longleftrightarrow> table_ok table \<and> (\<forall>(c, i) \<in> table_pairs table. i < n)"

definition index_full :: "bytes \<Rightarrow> nat \<Rightarrow> nat \<Rightarrow> hash_table \<Rightarrow> bool" where
  "index_full src bs n table \<longleftrightarrow> (\<forall>i < n. indexable src bs i \<longrightarrow> (src_crc src bs i, i) \<in> table_pairs table)"

lemma build_index_cases:
  assumes "rs_src_blocks s * rs_block_size s \<le> length src"
    and "fsd_relocation_stage_build_index A src s = (e, s')"
  shows "e \<in> {FSD_SUCCESS, FSD_ERR_OUT_OF_MEMORY} \<and> rs_block_size s' = rs_block_size s \<and>
    (e = FSD_SUCCESS \<longrightarrow> (\<exists>table. rs_src_hash s' = Some table \<and> index_ok src (rs_src_blocks s) table \<and>
      (generous A sizeof_hash_entry (rs_pool s) \<longrightarrow> index_full src (rs_block_size s) (rs_src_blocks s) table)))"
proof (cases "fst (fsd_hash_table_create A (rs_src_blocks s) (rs_pool s))")
  case (Inl err)
  then have "err = FSD_ERR_OUT_OF_MEMORY"
    by (auto simp: fsd_hash_table_create_def Let_def split: option.splits prod.splits)
  then show ?thesis using Inl assms(2) by (auto simp: fsd_relocation_stage_build_index_def split: prod.splits)
next
  case (Inr table)
  let ?n = "rs_src_blocks s" and ?bs = "rs_block_size s"
  obtain pool where c: "fsd_hash_table_create A ?n (rs_pool s) = (Inr table, pool)"
    using Inr by (metis prod.collapse)
  obtain t p where f: "fold (ht.index_step A (indexable src ?bs) (src_crc src ?bs)) [0..<?n] (table, pool) = (t, p)"
    by fastforce
  have new: "table_ok table" "table_pairs table = {}" using hash_table_create_facts[OF c] by simp_all
  have frame: "generous A sizeof_hash_entry pool" if "generous A sizeof_hash_entry (rs_pool s)"
    using c that alloc_frame by (auto simp: fsd_hash_table_create_def Let_def generous_def split: option.splits prod.splits)
      (metis snd_conv)+
  have "table_ok t \<and> table_pairs t \<subseteq> {(src_crc src ?bs i, i) |i. i \<in> set [0..<?n] \<and> indexable src ?bs i}"
    using ht.index_fold[where A = A and s = "(table, pool)" and keep = "indexable src ?bs" and crc = "src_crc src ?bs"
        and ks = "[0..<?n]"] new unfolding f by simp
  then have "index_ok src ?n t" by (auto simp: index_ok_def)
  moreover have "index_full src ?bs ?n t" if "generous A sizeof_hash_entry (rs_pool s)"
    using ht.index_fold_complete[where A = A and s = "(table, pool)" and keep = "indexable src ?bs" and crc = "src_crc src ?bs"
        and ks = "[0..<?n]"] new(1) frame[OF that] unfolding f by (simp add: index_full_def)
  ultimately show ?thesis
    using assms(2) c f index_loop[OF assms(1), of A "(table, pool)"] by (auto simp: fsd_relocation_stage_build_index_def)
qed

section \<open>Searching the index\<close>

definition relocates_to :: "bytes \<Rightarrow> bytes \<Rightarrow> nat \<Rightarrow> nat \<Rightarrow> nat \<Rightarrow> bool" where
  "relocates_to src dest bs i j \<longleftrightarrow> j \<noteq> i \<and> bytes_at (j * bs) bs src = bytes_at (i * bs) bs dest"

lemma search_chain_find:
  assumes "\<forall>e \<in> set entries. (he_block_index e + 1) * bs \<le> length src" and "(i + 1) * bs \<le> length dest"
  shows "search_chain bs src dest i entries t =
    (FSD_SUCCESS, case List.find (\<lambda>e. relocates_to src dest bs i (he_block_index e)) entries of
       None \<Rightarrow> t | Some e \<Rightarrow> fsd_block_tracker_set_match i FSD_MATCH_RELOCATE (he_block_index e) t)"
  using assms by (induction entries) (auto simp: block_at_def relocates_to_def Let_def)

definition relocate_update :: "hash_table \<Rightarrow> nat \<Rightarrow> bytes \<Rightarrow> bytes \<Rightarrow> nat \<Rightarrow> block_tracker \<Rightarrow> block_tracker" where
  "relocate_update table bs src dest i t =
     (if fsd_block_tracker_is_unmatched t i
      then (case List.find (\<lambda>e. relocates_to src dest bs i (he_block_index e))
              (fsd_hash_table_lookup table (b_crc32 (t_blocks t ! i))) of
              None \<Rightarrow> t | Some e \<Rightarrow> fsd_block_tracker_set_match i FSD_MATCH_RELOCATE (he_block_index e) t)
      else t)"

lemma lookup_in_source:
  assumes "index_ok src n table" and "n * bs \<le> length src" and "e \<in> set (fsd_hash_table_lookup table c)"
  shows "(he_block_index e + 1) * bs \<le> length src"
proof -
  have "(he_crc32 e, he_block_index e) \<in> table_pairs table"
    using assms(1,3) lookup_sound by (simp add: index_ok_def)
  then have "he_block_index e < n" using assms(1) by (auto simp: index_ok_def)
  then show ?thesis using assms(2) by (rule block_in_image)
qed

lemma relocation_run_fold:
  assumes "rs_src_hash s = Some table" and "index_ok src n table" and "n * rs_block_size s \<le> length src"
    and "t_count t * rs_block_size s \<le> length dest"
  shows "fsd_relocation_stage_run s src dest t =
    (FSD_SUCCESS, fold (relocate_update table (rs_block_size s) src dest) [0..<t_count t] t)"
proof -
  have "for_loop 0 (t_count t) (relocate_block table (rs_block_size s) src dest) t =
      (FSD_SUCCESS, fold (relocate_update table (rs_block_size s) src dest) [0..<0 + t_count t] t)"
  proof (rule fold_for_loop)
    fix j u assume "j < 0 + t_count t"
    then have "(j + 1) * rs_block_size s \<le> length dest" using block_in_image[OF _ assms(4)] by simp
    then show "relocate_block table (rs_block_size s) src dest j u =
        (FSD_SUCCESS, relocate_update table (rs_block_size s) src dest j u)"
      using lookup_in_source[OF assms(2,3)]
      by (simp add: relocate_block_def relocate_update_def search_chain_find fsd_block_tracker_get_def
          fsd_block_tracker_is_unmatched_def)
  qed
  then show ?thesis using assms(1) by (simp add: fsd_relocation_stage_run_def)
qed

lemma relocate_update_sound:
  assumes "index_ok src n table" and "n * bs \<le> length src" and "tracker_sound src dest bs t"
  shows "tracker_sound src dest bs (relocate_update table bs src dest i t)" (is ?S)
    and "extends_matches t (relocate_update table bs src dest i t)" (is ?E)
proof -
  let ?es = "fsd_hash_table_lookup table (b_crc32 (t_blocks t ! i))"
  have inv: "tracker_inv t" using assms(3) by (simp add: tracker_sound_def)
  have found: "e \<in> set ?es \<and> relocates_to src dest bs i (he_block_index e)"
    if "List.find (\<lambda>e. relocates_to src dest bs i (he_block_index e)) ?es = Some e" for e
    using that by (auto simp: find_Some_iff)
  have right: "block_sound src dest bs i (b\<lparr>b_match_type := FSD_MATCH_RELOCATE, b_src_index := he_block_index e\<rparr>)"
    if "List.find (\<lambda>e. relocates_to src dest bs i (he_block_index e)) ?es = Some e" for b e
    using found[OF that] lookup_in_source[OF assms(1,2), of e "b_crc32 (t_blocks t ! i)"]
    by (simp add: block_sound_def relocates_to_def)
  have set: "tracker_sound src dest bs (fsd_block_tracker_set_match i FSD_MATCH_RELOCATE (he_block_index e) t)"
    if "List.find (\<lambda>e. relocates_to src dest bs i (he_block_index e)) ?es = Some e" for e
    by (rule tracker_sound_set_match[OF assms(3) _ right[OF that]]) simp
  show ?S using assms(3) set by (simp add: relocate_update_def split: option.split)
  show ?E using extends_matches_setters(1)[OF inv] by (simp add: relocate_update_def split: option.split)
qed

section \<open>The stage as the controller runs it\<close>

definition relocation_run ::
  "allocator \<Rightarrow> relocation_stage \<Rightarrow> block_tracker \<Rightarrow> bytes \<Rightarrow> bytes \<Rightarrow> fsd_error \<times> relocation_stage \<times> block_tracker" where
  "relocation_run A s t src dest =
     (case fsd_relocation_stage_build_index A src s of
        (e, s) \<Rightarrow> if e \<noteq> FSD_SUCCESS then (e, s, t)
                  else (case fsd_relocation_stage_run s src dest t of (e, t) \<Rightarrow> (e, s, t)))"

definition relocation_ready :: "bytes \<Rightarrow> bytes \<Rightarrow> nat \<Rightarrow> relocation_stage \<Rightarrow> bool" where
  "relocation_ready src dest bs s \<longleftrightarrow> rs_block_size s = bs \<and> rs_src_blocks s * bs \<le> length src"

lemma relocation_run_cases:
  assumes "relocation_ready src dest bs s" and "t_count t * bs = length dest" and "relocation_run A s t src dest = (e, s', u)"
  shows "e = FSD_ERR_OUT_OF_MEMORY \<and> u = t \<or>
    e = FSD_SUCCESS \<and> (\<exists>table. index_ok src (rs_src_blocks s) table \<and>
      (generous A sizeof_hash_entry (rs_pool s) \<longrightarrow> index_full src bs (rs_src_blocks s) table) \<and>
      u = fold (relocate_update table bs src dest) [0..<t_count t] t)"
proof -
  obtain e1 s1 where b: "fsd_relocation_stage_build_index A src s = (e1, s1)" by fastforce
  have bs: "rs_block_size s = bs" "rs_src_blocks s * rs_block_size s \<le> length src"
    using assms(1) by (auto simp: relocation_ready_def)
  note c = build_index_cases[OF bs(2) b]
  show ?thesis
  proof (cases "e1 = FSD_SUCCESS")
    case True
    then obtain table where table: "rs_src_hash s1 = Some table" "index_ok src (rs_src_blocks s) table"
        "generous A sizeof_hash_entry (rs_pool s) \<longrightarrow> index_full src (rs_block_size s) (rs_src_blocks s) table"
      using c by blast
    have "fsd_relocation_stage_run s1 src dest t = (FSD_SUCCESS, fold (relocate_update table bs src dest) [0..<t_count t] t)"
      using relocation_run_fold[OF table(1,2), of t dest] c bs assms(2) by simp
    then show ?thesis using assms(3) b True table bs(1) by (auto simp: relocation_run_def)
  next
    case False
    then show ?thesis using assms(3) b c by (auto simp: relocation_run_def)
  qed
qed

interpretation relocation: matching_stage "relocation_run A" relocation_ready "\<lambda>_. False" for A
proof unfold_locales
  fix src dest bs s t e s' t'
  assume r: "relocation_ready src dest bs s" and t: "tracker_sound src dest bs t"
    and run: "relocation_run A s t src dest = (e, s', t')"
  have src: "rs_src_blocks s * bs \<le> length src" and count: "t_count t * bs = length dest"
    using r t by (auto simp: relocation_ready_def tracker_sound_def blocks_right_def)
  from relocation_run_cases[OF r count run] show "e \<in> {FSD_SUCCESS, FSD_ERR_OUT_OF_MEMORY} \<or> e = FSD_ERR_CANCELLED \<and> False" by blast
  from relocation_run_cases[OF r count run] show "tracker_sound src dest bs t' \<and> extends_matches t t'"
  proof (elim disjE conjE exE)
    fix table assume "index_ok src (rs_src_blocks s) table" "e = FSD_SUCCESS"
      "t' = fold (relocate_update table bs src dest) [0..<t_count t] t"
    then show ?thesis
      using fold_stage_sound[OF relocate_update_sound[OF _ src]] t by simp
  qed (use t in simp)
qed

text \<open>
  The effect on a block whose CRC is right: it is relocated exactly when its content is at another
  position of the indexed source.
\<close>

definition relocation_effect :: "bytes \<Rightarrow> bytes \<Rightarrow> nat \<Rightarrow> nat \<Rightarrow> nat \<Rightarrow> block_state \<Rightarrow> block_state \<Rightarrow> bool" where
  "relocation_effect src dest bs n i b b' \<longleftrightarrow>
     (case match_of b of
        Some x \<Rightarrow> match_of b' = Some x
      | None \<Rightarrow>
          (b_crc32 b = fsd_crc32 (bytes_at (i * bs) bs dest) \<and> \<not> is_zero_block_quick (bytes_at (i * bs) bs dest) bs \<longrightarrow>
             (if \<exists>j < n. relocates_to src dest bs i j
              then \<exists>j < n. relocates_to src dest bs i j \<and> match_of b' = Some (FSD_MATCH_RELOCATE, j)
              else match_of b' = None)))"

lemma relocate_update_blockwise:
  assumes "index_ok src n table" and "index_full src bs n table"
  shows "blockwise (relocate_update table bs src dest) (relocation_effect src dest bs n)"
proof (rule blockwiseI)
  fix t i assume inv: "tracker_inv t" and i: "i < t_count t"
  let ?u = "relocate_update table bs src dest i t" and ?b = "t_blocks t ! i"
  let ?es = "fsd_hash_table_lookup table (b_crc32 ?b)"
  show "tracker_inv ?u" using inv tracker_set_match_inv[OF inv] by (simp add: relocate_update_def split: option.split)
  show "t_count ?u = t_count t" by (simp add: relocate_update_def split: option.split)
  show "t_blocks ?u ! j = t_blocks t ! j" if "j \<noteq> i" for j
    using that by (simp add: relocate_update_def fsd_block_tracker_set_match_def split: option.split)
  have free: "fsd_block_tracker_is_unmatched t i \<longleftrightarrow> match_of ?b = None"
    using i tracker_is_unmatched[OF inv] by (simp add: match_of_def)
  have set: "match_of (t_blocks (fsd_block_tracker_set_match i FSD_MATCH_RELOCATE j t) ! i) = Some (FSD_MATCH_RELOCATE, j)"
    if "match_of ?b = None" for j
    using i that tracker_inv_sizes(1)[OF inv] by (simp add: match_of_def fsd_block_tracker_set_match_def split: if_splits)
  have entry: "he_block_index e < n" if "e \<in> set ?es" for e
    using assms(1) lookup_sound[OF _ that] by (auto simp: index_ok_def)
  show "relocation_effect src dest bs n i ?b (t_blocks ?u ! i)"
  proof (cases "match_of ?b")
    case None
    show ?thesis
    proof (cases "List.find (\<lambda>e. relocates_to src dest bs i (he_block_index e)) ?es")
      case (Some e)
      then have "relocates_to src dest bs i (he_block_index e)" "he_block_index e < n"
        using entry by (auto simp: find_Some_iff)
      then show ?thesis using None Some free set[OF None] by (auto simp: relocation_effect_def relocate_update_def)
    next
      case (None)
      then have none: "\<not> relocates_to src dest bs i (he_block_index e)" if "e \<in> set ?es" for e
        using that by (auto simp: find_None_iff)
      have "\<not> relocates_to src dest bs i j"
        if "b_crc32 ?b = fsd_crc32 (bytes_at (i * bs) bs dest)" "\<not> is_zero_block_quick (bytes_at (i * bs) bs dest) bs" "j < n" for j
      proof
        assume r: "relocates_to src dest bs i j"
        have "(b_crc32 ?b, j) \<in> table_pairs table"
          using assms(2) that r by (auto simp: index_full_def src_crc_def relocates_to_def indexable_def)
        then obtain e where "e \<in> set ?es" "he_block_index e = j"
          using lookup_complete assms(1) unfolding index_ok_def by blast
        with none r show False by blast
      qed
      then show ?thesis using None \<open>match_of ?b = None\<close> free by (auto simp: relocation_effect_def relocate_update_def)
    qed
  qed (simp add: relocation_effect_def relocate_update_def free)
qed

text \<open>
  C13. The relocation stage finds every relocation. On a stage made for the source image with memory
  for its index, run on a tracker whose unmatched blocks carry the CRC32 of their content and are
  not zero (as the identity stage leaves them), it succeeds, keeps the matches there were, and
  matches a block exactly when its content is that of a source block at another position, to such a
  block.
\<close>

theorem relocation_stage_complete:
  assumes "fsd_relocation_stage_create True A True bs (length src div bs) = Inr s" and "8 dvd bs"
    and "generous A sizeof_hash_entry (rs_pool s)"
    and "fsd_relocation_stage_build_index A src s = (FSD_SUCCESS, s')"
    and "tracker_inv t" and "t_count t * bs = length dest"
    and "\<forall>i < t_count t. matched t i = None \<longrightarrow>
      b_crc32 (t_blocks t ! i) = fsd_crc32 (bytes_at (i * bs) bs dest) \<and> bytes_at (i * bs) bs dest \<noteq> replicate bs 0"
  shows "\<exists>u. fsd_relocation_stage_run s' src dest t = (FSD_SUCCESS, u) \<and>
    (\<forall>i < t_count t.
       (\<forall>x. matched t i = Some x \<longrightarrow> matched u i = Some x) \<and>
       (matched t i = None \<longrightarrow>
          (matched u i = None \<longleftrightarrow> (\<forall>j < length src div bs. j = i \<or> bytes_at (j * bs) bs src \<noteq> bytes_at (i * bs) bs dest)) \<and>
          (matched u i \<noteq> None \<longrightarrow> (\<exists>j < length src div bs. matched u i = Some (FSD_MATCH_RELOCATE, j) \<and>
             j \<noteq> i \<and> bytes_at (j * bs) bs src = bytes_at (i * bs) bs dest))))"
proof -
  let ?n = "length src div bs"
  have s: "rs_block_size s = bs" "rs_src_blocks s = ?n"
    using assms(1) by (auto simp: fsd_relocation_stage_create_def split: if_splits sum.splits)
  then have len: "rs_src_blocks s * rs_block_size s \<le> length src" by simp
  from build_index_cases[OF len assms(4)] assms(3) s obtain table where
    table: "rs_src_hash s' = Some table" "index_ok src ?n table" "index_full src bs ?n table" "rs_block_size s' = bs"
    by auto
  define u where "u = fold (relocate_update table bs src dest) [0..<t_count t] t"
  have run: "fsd_relocation_stage_run s' src dest t = (FSD_SUCCESS, u)"
    unfolding u_def using relocation_run_fold[OF table(1,2), of t dest] table(4) assms(6) by simp
  note eff = blockwise_fold[OF relocate_update_blockwise[OF table(2,3)] assms(5) order_refl, of dest, folded u_def]
  have per: "(\<forall>x. matched t i = Some x \<longrightarrow> matched u i = Some x) \<and>
      (matched t i = None \<longrightarrow>
        (if \<exists>j < ?n. relocates_to src dest bs i j
         then \<exists>j < ?n. relocates_to src dest bs i j \<and> matched u i = Some (FSD_MATCH_RELOCATE, j)
         else matched u i = None))" if i: "i < t_count t" for i
  proof -
    have "(i + 1) * bs \<le> length dest" using block_in_image[OF i, of bs dest] assms(6) by simp
    then have nz: "is_zero_block_quick (bytes_at (i * bs) bs dest) bs \<longleftrightarrow> bytes_at (i * bs) bs dest = replicate bs 0"
      using assms(2) by (intro is_zero_block_quick_iff) simp_all
    have "relocation_effect src dest bs ?n i (t_blocks t ! i) (t_blocks u ! i)" and "t_count u = t_count t"
      using eff i by (simp_all add: Let_def)
    then show ?thesis
      using assms(7)[rule_format, OF i] i nz by (cases "match_of (t_blocks t ! i)") (simp_all add: relocation_effect_def matched_match_of)
  qed
  show ?thesis
  proof (intro exI[of _ u] conjI run allI impI)
    fix i assume i: "i < t_count t"
    note p = per[OF i, unfolded relocates_to_def]
    show "matched u i = Some x" if "matched t i = Some x" for x using p that by blast
    assume none: "matched t i = None"
    show "matched u i = None \<longleftrightarrow> (\<forall>j < ?n. j = i \<or> bytes_at (j * bs) bs src \<noteq> bytes_at (i * bs) bs dest)"
      using p none by (metis option.distinct(1))
    show "\<exists>j < ?n. matched u i = Some (FSD_MATCH_RELOCATE, j) \<and> j \<noteq> i \<and>
        bytes_at (j * bs) bs src = bytes_at (i * bs) bs dest" if "matched u i \<noteq> None"
      using p none that by metis
  qed
qed

text \<open>A stage over a source of two blocks, and a destination whose only block is the second of them.\<close>

lemma bump_relocation:
  assumes "length src = 16"
  shows "\<exists>s s'. fsd_relocation_stage_create True bump_allocator True 8 2 = Inr s \<and>
    generous bump_allocator sizeof_hash_entry (rs_pool s) \<and>
    fsd_relocation_stage_build_index bump_allocator src s = (FSD_SUCCESS, s')"
proof -
  obtain p where p: "fsd_pool_create bump_allocator True 1048576 0 = Inr p" by (simp add: pool_eval)
  then have g: "generous bump_allocator sizeof_hash_entry p" by (auto simp: generous_def sizeof_hash_entry_def pool_eval)
  have b: "table_bucket_count 2 = 1024"
    by (simp add: table_bucket_count_def LOAD_FACTOR_DENOM_def LOAD_FACTOR_NUM_def MIN_BUCKETS_def u64_def
        next_power_of_2_def Let_def)
  have "\<exists>t p'. fsd_hash_table_create bump_allocator 2 p = (Inr t, p')"
    using p by (auto simp: fsd_hash_table_create_def b pool_eval sizeof_hash_table_def Let_def)
  then obtain t p' where t: "fsd_hash_table_create bump_allocator 2 p = (Inr t, p')" by blast
  let ?s = "\<lparr>rs_block_size = 8, rs_src_blocks = 2, rs_src_hash = None, rs_pool = p, rs_verbose = 0\<rparr>"
  have "fsd_relocation_stage_create True bump_allocator True 8 2 = Inr ?s"
    using p by (simp add: fsd_relocation_stage_create_def)
  moreover have "fst (fsd_relocation_stage_build_index bump_allocator src ?s) = FSD_SUCCESS"
    using t index_loop[of 2 8 src bump_allocator "(t, p')"] assms
    by (simp add: fsd_relocation_stage_build_index_def split: prod.split)
  ultimately show ?thesis using g by (metis prod.collapse select_convs(4))
qed

theorem relocation_stage_complete_witness:
  "\<exists>s' t u. fsd_relocation_stage_run s' (replicate 8 1 @ replicate 8 2) (replicate 8 2) t = (FSD_SUCCESS, u) \<and>
    matched t 0 = None \<and> matched u 0 = Some (FSD_MATCH_RELOCATE, 1)"
proof -
  let ?src = "replicate 8 1 @ replicate 8 2 :: bytes" and ?dest = "replicate 8 2 :: bytes"
  obtain s s' where s: "fsd_relocation_stage_create True bump_allocator True 8 (length ?src div 8) = Inr s"
      "generous bump_allocator sizeof_hash_entry (rs_pool s)"
      "fsd_relocation_stage_build_index bump_allocator ?src s = (FSD_SUCCESS, s')"
    using bump_relocation[of ?src] by auto
  obtain t0 where t0: "fsd_block_tracker_create (\<lambda>_. True) 1 8 = Inr t0"
    by (simp add: fsd_block_tracker_create_def Let_def)
  note props = tracker_create_inv[OF t0]
  define t where "t = fsd_block_tracker_set_crc32 0 (fsd_crc32 ?dest) t0"
  have inv: "tracker_inv t" unfolding t_def by (rule tracker_set_crc32_inv) (use props in simp)
  have t: "t_count t = 1" "matched t 0 = None" "b_crc32 (t_blocks t ! 0) = fsd_crc32 ?dest"
    using props by (auto simp: t_def fsd_block_tracker_set_crc32_def matched_def fresh_block_def)
  have eight: "replicate 8 x = [x, x, x, x, x, x, x, x]" for x :: byte by (simp add: numeral_eq_Suc)
  have pre: "\<forall>i < t_count t. matched t i = None \<longrightarrow>
      b_crc32 (t_blocks t ! i) = fsd_crc32 (bytes_at (i * 8) 8 ?dest) \<and> bytes_at (i * 8) 8 ?dest \<noteq> replicate 8 0"
    using t by (simp add: eight bytes_at_def)
  have count: "t_count t * 8 = length ?dest" "(8 :: nat) dvd 8" using t by simp_all
  have d0: "0 < t_count t" "bytes_at (0 * 8) 8 ?dest = ?dest" using t by simp_all
  from relocation_stage_complete [OF s(1) count(2) s(2,3) inv count(1) pre] obtain u where
    u: "fsd_relocation_stage_run s' ?src ?dest t = (FSD_SUCCESS, u)" and
    per: "(matched u 0 = None \<longleftrightarrow> (\<forall>j < length ?src div 8. j = 0 \<or> bytes_at (j * 8) 8 ?src \<noteq> bytes_at (0 * 8) 8 ?dest)) \<and>
      (matched u 0 \<noteq> None \<longrightarrow> (\<exists>j < length ?src div 8. matched u 0 = Some (FSD_MATCH_RELOCATE, j) \<and> j \<noteq> 0 \<and>
         bytes_at (j * 8) 8 ?src = bytes_at (0 * 8) 8 ?dest))"
    using d0(1) t(2) by blast
  have "bytes_at (1 * 8) 8 ?src = ?dest" "length ?src div 8 = 2" by (simp_all add: bytes_at_def)
  then have "matched u 0 \<noteq> None" using per d0(2) by (metis one_less_numeral_iff semiring_norm(76) zero_neq_one)
  then have "\<exists>j < 2. matched u 0 = Some (FSD_MATCH_RELOCATE, j) \<and> j \<noteq> 0"
    using per \<open>length ?src div 8 = 2\<close> by metis
  then have "matched u 0 = Some (FSD_MATCH_RELOCATE, 1)" by (auto simp: less_2_cases_iff)
  with u t(2) show ?thesis by blast
qed

end
