(* ===== verification/Block_Search.thy ===== *)
theory Block_Search
  imports Simd
begin

text \<open>
  The byte-granular search of \<^verbatim>\<open>src/stages/block_search.c\<close> shared by the partial and the
  file-system stages: slide a destination block over a range of source offsets, screen each
  candidate with two sampled windows, and keep the first offset with the most equal bytes.
  Positions are signed 64-bit values; a count outside a buffer is \<^verbatim>\<open>None\<close>.
\<close>

type_synonym count_fn = "bytes \<Rightarrow> bytes \<Rightarrow> nat \<Rightarrow> nat"

definition fsd_block_search_count_fn :: "simd_dispatch \<Rightarrow> count_fn" where
  "fsd_block_search_count_fn g_fsd_simd =
     (case sd_count_matches g_fsd_simd of Some f \<Rightarrow> f | None \<Rightarrow> fsd_scalar_count_matches)"

text \<open>\<^verbatim>\<open>count_fn(src + pos, dest_block + off, len)\<close>.\<close>

definition count_at :: "count_fn \<Rightarrow> bytes \<Rightarrow> nat \<Rightarrow> bytes \<Rightarrow> nat \<Rightarrow> nat \<Rightarrow> nat option" where
  "count_at count_fn src pos dest_block off len =
     (if pos + len \<le> length src \<and> off + len \<le> length dest_block
      then Some (count_fn (drop pos src) (drop off dest_block) len) else None)"

text \<open>The test \<^verbatim>\<open>src_pos < 0 || (size_t)(src_pos + block_size) > src_size\<close>, negated.\<close>

definition pos_ok :: "nat \<Rightarrow> nat \<Rightarrow> int \<Rightarrow> bool" where
  "pos_ok src_size block_size src_pos \<longleftrightarrow> \<not> (src_pos < 0 \<or> src_size < u64 (nat src_pos + block_size))"

text \<open>The sampled length, the required number of equal bytes and the second window's start.\<close>

definition prescreen :: "nat \<Rightarrow> nat \<Rightarrow> nat \<times> nat \<times> nat" where
  "prescreen block_size threshold_count =
     (if 1024 \<le> block_size
      then let prescreen_min = u64 (threshold_count * 128) div block_size
           in (if prescreen_min = 0 then 0 else 128, prescreen_min, block_size div 2)
      else (0, 0, 0))"

definition screened :: "count_fn \<Rightarrow> bytes \<Rightarrow> bytes \<Rightarrow> nat \<times> nat \<times> nat \<Rightarrow> nat \<Rightarrow> bool option" where
  "screened count_fn src dest_block ps src_pos =
     (case ps of (prescreen_len, prescreen_min, prescreen_mid) \<Rightarrow>
        if prescreen_len = 0 then Some True
        else
          (case (count_at count_fn src src_pos dest_block 0 prescreen_len,
                 count_at count_fn src (src_pos + prescreen_mid) dest_block prescreen_mid prescreen_len) of
             (Some a, Some b) \<Rightarrow> Some (\<not> a + b < prescreen_min)
           | _ \<Rightarrow> None))"

fun search_loop :: "count_fn \<Rightarrow> bytes \<Rightarrow> nat \<Rightarrow> bytes \<Rightarrow> nat \<Rightarrow> int \<Rightarrow> nat \<times> nat \<times> nat \<Rightarrow> int list \<Rightarrow> int \<Rightarrow> nat
    \<Rightarrow> (int \<times> nat) option" where
  "search_loop count_fn src src_size dest_block block_size center_pos ps [] best_offset best_count =
     Some (best_offset, best_count)"
| "search_loop count_fn src src_size dest_block block_size center_pos ps (offset # offsets) best_offset best_count =
     (let src_pos = s64 (center_pos + offset) in
      if \<not> pos_ok src_size block_size src_pos
      then search_loop count_fn src src_size dest_block block_size center_pos ps offsets best_offset best_count
      else
        (case screened count_fn src dest_block ps (nat src_pos) of
           None \<Rightarrow> None
         | Some False \<Rightarrow>
             search_loop count_fn src src_size dest_block block_size center_pos ps offsets best_offset best_count
         | Some True \<Rightarrow>
             (case count_at count_fn src (nat src_pos) dest_block 0 block_size of
                None \<Rightarrow> None
              | Some match_count \<Rightarrow>
                  if best_count < match_count
                  then (if match_count = block_size then Some (offset, match_count)
                        else search_loop count_fn src src_size dest_block block_size center_pos ps offsets
                               offset match_count)
                  else search_loop count_fn src src_size dest_block block_size center_pos ps offsets
                         best_offset best_count)))"

text \<open>The returned offset and the value stored to \<^verbatim>\<open>best_count_out\<close>.\<close>

definition fsd_block_search_best ::
  "bytes \<Rightarrow> nat \<Rightarrow> bytes \<Rightarrow> nat \<Rightarrow> int \<Rightarrow> int \<Rightarrow> int \<Rightarrow> nat \<Rightarrow> count_fn \<Rightarrow> (int \<times> nat) option" where
  "fsd_block_search_best src src_size dest_block block_size center_pos min_offset max_offset threshold_count count_fn =
     search_loop count_fn src src_size dest_block block_size center_pos (prescreen block_size threshold_count)
       [min_offset..max_offset] (- 1) (if 0 < threshold_count then threshold_count - 1 else 0)"

section \<open>What the search finds\<close>

lemma count_fn_equal:
  assumes "dispatch_ok g"
  shows "fsd_block_search_count_fn g a b len = equal_bytes a b len"
  using assms by (auto simp: fsd_block_search_count_fn_def dispatch_ok_def scalar.count_matches split: option.split)

text \<open>A candidate: a position the search counts, inside the source and past the screen.\<close>

definition candidate :: "bytes \<Rightarrow> nat \<Rightarrow> bytes \<Rightarrow> nat \<Rightarrow> nat \<Rightarrow> int \<Rightarrow> bool" where
  "candidate src src_size dest_block block_size threshold_count p \<longleftrightarrow>
     0 \<le> p \<and> nat p + block_size \<le> src_size \<and>
     (case prescreen block_size threshold_count of (len, pmin, mid) \<Rightarrow>
        len = 0 \<or> pmin \<le> equal_bytes (drop (nat p) src) dest_block len +
          equal_bytes (drop (nat p + mid) src) (drop mid dest_block) len)"

definition quality :: "bytes \<Rightarrow> bytes \<Rightarrow> nat \<Rightarrow> int \<Rightarrow> nat" where
  "quality src dest_block block_size p = equal_bytes (drop (nat p) src) dest_block block_size"

lemma quality_le: "quality src d bs p \<le> bs"
  unfolding quality_def by (rule scalar.count_le[unfolded scalar.count_matches])

lemma prescreen_fits:
  assumes "prescreen bs thr = (len, pmin, mid)"
  shows "len = 0 \<or> mid + len \<le> bs \<and> len \<le> bs"
  using assms by (auto simp: prescreen_def Let_def split: if_splits)

text \<open>The situation of a call: real buffers, and sizes for which 64-bit arithmetic does not wrap.\<close>

definition search_setup :: "count_fn \<Rightarrow> bytes \<Rightarrow> nat \<Rightarrow> bytes \<Rightarrow> nat \<Rightarrow> bool" where
  "search_setup count_fn src src_size d bs \<longleftrightarrow> count_fn = equal_bytes \<and>
     src_size \<le> length src \<and> bs \<le> length d \<and> length src < 2 ^ 62 \<and> bs < 2 ^ 62"

lemma pos_ok_iff:
  assumes "bs < 2 ^ 62" and "p < 2 ^ 63"
  shows "pos_ok src_size bs p \<longleftrightarrow> 0 \<le> p \<and> nat p + bs \<le> src_size"
proof -
  have "nat p < 2 ^ 63" using assms(2) by (cases "0 \<le> p") (auto simp: nat_less_iff)
  then have "nat p + bs < 2 ^ 64" using assms(1) by simp
  then show ?thesis by (auto simp: pos_ok_def u64_id)
qed

text \<open>One candidate position: skipped, or counted exactly.\<close>

lemma screened_iff:
  assumes "search_setup count_fn src src_size d bs" and "0 \<le> p" and "nat p + bs \<le> src_size"
  shows "screened count_fn src d (prescreen bs thr) (nat p) = Some (candidate src src_size d bs thr p)"
proof -
  obtain len pmin mid where ps: "prescreen bs thr = (len, pmin, mid)" by (metis prod_cases3)
  show ?thesis
    using prescreen_fits[OF ps] assms
    by (auto simp: screened_def candidate_def ps count_at_def search_setup_def not_less)
qed

lemma search_step:
  assumes "search_setup count_fn src src_size d bs" and "\<bar>center + x\<bar> < 2 ^ 63"
  shows "search_loop count_fn src src_size d bs center (prescreen bs thr) (x # xs) bo bc =
    (let q = quality src d bs (center + x) in
     if candidate src src_size d bs thr (center + x) \<and> bc < q
     then (if q = bs then Some (x, bs)
           else search_loop count_fn src src_size d bs center (prescreen bs thr) xs x q)
     else search_loop count_fn src src_size d bs center (prescreen bs thr) xs bo bc)"
proof -
  have w: "s64 (center + x) = center + x" using assms(2) by (intro s64_id) linarith+
  have "bs < 2 ^ 62" using assms(1) by (simp add: search_setup_def)
  note ok = pos_ok_iff[OF this, of "center + x" src_size]
  show ?thesis
  proof (cases "pos_ok src_size bs (center + x)")
    case True
    then have p: "0 \<le> center + x" "nat (center + x) + bs \<le> src_size" using ok assms(2) by simp_all
    then have "count_at count_fn src (nat (center + x)) d 0 bs = Some (quality src d bs (center + x))"
      using assms(1) by (simp add: count_at_def search_setup_def quality_def)
    then show ?thesis using True screened_iff[OF assms(1) p, of thr] w by (simp add: Let_def split: bool.split)
  next
    case False
    then have "\<not> candidate src src_size d bs thr (center + x)" using ok assms(2) by (auto simp: candidate_def)
    then show ?thesis using False w by (simp add: Let_def)
  qed
qed

text \<open>
  Whatever the centre of a search, the loop counts inside the buffers, and what it returns is where
  it started or a position inside the source with its exact count.
\<close>

lemma s64_bounds: "- (2 ^ 63) \<le> s64 x \<and> s64 x < 2 ^ 63"
  by (simp add: s64_def)

lemma search_loop_sound:
  assumes "search_setup count_fn src src_size d bs"
  shows "\<exists>x c. search_loop count_fn src src_size d bs center (prescreen bs thr) xs bo bc = Some (x, c) \<and>
    (x = bo \<and> c = bc \<or> pos_ok src_size bs (s64 (center + x)) \<and> c = quality src d bs (s64 (center + x)))"
proof (induction xs arbitrary: bo bc)
  case (Cons x xs)
  let ?p = "s64 (center + x)"
  have "bs < 2 ^ 62" using assms(1) by (simp add: search_setup_def)
  note ok = pos_ok_iff[OF this, of ?p src_size] s64_bounds[of "center + x"]
  show ?case
  proof (cases "pos_ok src_size bs ?p")
    case True
    then have p: "0 \<le> ?p" "nat ?p + bs \<le> src_size" using ok by simp_all
    then have "count_at count_fn src (nat ?p) d 0 bs = Some (quality src d bs ?p)"
      using assms(1) by (simp add: count_at_def search_setup_def quality_def)
    then show ?thesis
      using True screened_iff[OF assms(1) p, of thr] Cons.IH[of bo bc] Cons.IH[of x "quality src d bs ?p"]
      by (cases "candidate src src_size d bs thr ?p") (auto simp: Let_def)
  qed (use Cons.IH[of bo bc] in \<open>simp add: Let_def\<close>)
qed simp

text \<open>The loop returns the first best candidate that beats the count it starts with.\<close>

definition best_in :: "(int \<Rightarrow> bool) \<Rightarrow> (int \<Rightarrow> nat) \<Rightarrow> int list \<Rightarrow> nat \<Rightarrow> int \<times> nat \<Rightarrow> bool" where
  "best_in cand q xs bc r \<longleftrightarrow> (case r of (x, c) \<Rightarrow>
     x \<in> set xs \<and> cand x \<and> c = q x \<and> bc < c \<and> (\<forall>y \<in> set xs. cand y \<longrightarrow> q y \<le> c) \<and>
     (\<forall>y \<in> set xs. y < x \<longrightarrow> cand y \<longrightarrow> q y < c))"

lemma search_loop_best:
  assumes "search_setup count_fn src src_size d bs" and "\<forall>x \<in> set xs. \<bar>center + x\<bar> < 2 ^ 63" and "sorted_wrt (<) xs"
  shows "\<exists>r. search_loop count_fn src src_size d bs center (prescreen bs thr) xs bo bc = Some r \<and>
    (if \<exists>x \<in> set xs. candidate src src_size d bs thr (center + x) \<and> bc < quality src d bs (center + x)
     then best_in (\<lambda>x. candidate src src_size d bs thr (center + x)) (\<lambda>x. quality src d bs (center + x)) xs bc r
     else r = (bo, bc))"
  using assms(2,3)
proof (induction xs arbitrary: bo bc)
  case (Cons x xs)
  let ?q = "\<lambda>x. quality src d bs (center + x)" and ?cand = "\<lambda>x. candidate src src_size d bs thr (center + x)"
  let ?loop = "search_loop count_fn src src_size d bs center (prescreen bs thr)"
  have step: "?loop (x # xs) bo bc =
      (if ?cand x \<and> bc < ?q x then (if ?q x = bs then Some (x, bs) else ?loop xs x (?q x)) else ?loop xs bo bc)"
    using search_step[OF assms(1)] Cons.prems by (simp add: Let_def)
  have IH: "\<exists>r. ?loop xs b c = Some r \<and>
      (if \<exists>y \<in> set xs. ?cand y \<and> c < ?q y then best_in ?cand ?q xs c r else r = (b, c))" for b c
    by (rule Cons.IH) (use Cons.prems in simp_all)
  have later: "x < y" if "y \<in> set xs" for y using Cons.prems(2) that by simp
  consider (perfect) "?cand x" "bc < ?q x" "?q x = bs" | (better) "?cand x" "bc < ?q x" "?q x \<noteq> bs"
    | (worse) "\<not> (?cand x \<and> bc < ?q x)" by blast
  then show ?case
  proof cases
    case perfect
    have "best_in ?cand ?q (x # xs) bc (x, bs)"
      using perfect quality_le[of src d bs] later by (fastforce simp: best_in_def)
    then show ?thesis using step perfect by auto
  next
    case better
    obtain r where r: "?loop xs x (?q x) = Some r"
      "if \<exists>y \<in> set xs. ?cand y \<and> ?q x < ?q y then best_in ?cand ?q xs (?q x) r else r = (x, ?q x)"
      using IH by blast
    have "best_in ?cand ?q (x # xs) bc r"
    proof (cases "\<exists>y \<in> set xs. ?cand y \<and> ?q x < ?q y")
      case True
      then show ?thesis using r(2) better by (auto simp: best_in_def)
    next
      case False
      then have "r = (x, ?q x)" using r(2) by simp
      moreover have "?q y \<le> ?q x" if "y \<in> set xs" "?cand y" for y using False that by (meson not_less)
      ultimately show ?thesis using better later by (fastforce simp: best_in_def)
    qed
    then show ?thesis using step better r(1) by auto
  next
    case worse
    obtain r where r: "?loop xs bo bc = Some r"
      "if \<exists>y \<in> set xs. ?cand y \<and> bc < ?q y then best_in ?cand ?q xs bc r else r = (bo, bc)"
      using IH by blast
    have "best_in ?cand ?q (x # xs) bc r" if "best_in ?cand ?q xs bc r"
      using that worse by (auto simp: best_in_def)
    then show ?thesis using step worse r by auto
  qed
qed simp

lemma sorted_upto: "sorted_wrt (<) [i..j]"
  by (simp add: strict_sorted_iff)

lemma block_search_best_cases:
  assumes "search_setup count_fn src src_size d bs" and "\<bar>center\<bar> < 2 ^ 62" and "- (2 ^ 62) < lo" and "hi < 2 ^ 62"
  obtains (none) "fsd_block_search_best src src_size d bs center lo hi thr count_fn = Some (- 1, thr - 1)"
      "\<And>x. lo \<le> x \<Longrightarrow> x \<le> hi \<Longrightarrow> candidate src src_size d bs thr (center + x) \<Longrightarrow> quality src d bs (center + x) < max 1 thr"
  | (found) x where "fsd_block_search_best src src_size d bs center lo hi thr count_fn = Some (x, quality src d bs (center + x))"
      "lo \<le> x" "x \<le> hi" "candidate src src_size d bs thr (center + x)" "max 1 thr \<le> quality src d bs (center + x)"
      "\<And>y. lo \<le> y \<Longrightarrow> y \<le> hi \<Longrightarrow> candidate src src_size d bs thr (center + y) \<Longrightarrow>
         quality src d bs (center + y) \<le> quality src d bs (center + x) \<and>
         (y < x \<longrightarrow> quality src d bs (center + y) < quality src d bs (center + x))"
proof -
  have "\<forall>x \<in> set [lo..hi]. \<bar>center + x\<bar> < 2 ^ 63" using assms(2-4) by auto
  then obtain r where r: "fsd_block_search_best src src_size d bs center lo hi thr count_fn = Some r"
    "if \<exists>x \<in> set [lo..hi]. candidate src src_size d bs thr (center + x) \<and> thr - 1 < quality src d bs (center + x)
     then best_in (\<lambda>x. candidate src src_size d bs thr (center + x)) (\<lambda>x. quality src d bs (center + x)) [lo..hi] (thr - 1) r
     else r = (- 1, thr - 1)"
    using search_loop_best[OF assms(1) _ sorted_upto, of lo hi center thr "- 1" "thr - 1"]
    by (cases "0 < thr") (auto simp: fsd_block_search_best_def)
  have bar: "thr - 1 < c \<longleftrightarrow> max 1 thr \<le> c" for c by linarith
  show thesis
  proof (cases "\<exists>x \<in> set [lo..hi]. candidate src src_size d bs thr (center + x) \<and> thr - 1 < quality src d bs (center + x)")
    case True
    then have "best_in (\<lambda>x. candidate src src_size d bs thr (center + x)) (\<lambda>x. quality src d bs (center + x)) [lo..hi] (thr - 1) r"
      using r(2) by simp
    then show thesis using r(1) by (intro found[of "fst r"]) (auto simp: best_in_def bar split: prod.splits)
  next
    case False
    then show thesis using r by (intro none) (auto simp: bar not_le)
  qed
qed

text \<open>
  C15. The search is exhaustive over its candidates: it never counts outside the two buffers, and it
  returns the first of the offsets in range with the most equal bytes among the positions inside the
  source that pass the sampling screen, provided that number reaches the threshold (and one);
  otherwise it returns the sentinel \<^verbatim>\<open>-1\<close> with a count below the threshold. Blocks of less than 1024
  bytes are not screened, so there every position counts.
\<close>

theorem block_search_finds_best:
  assumes "search_setup count_fn src src_size d bs" and "\<bar>center\<bar> < 2 ^ 62" and "- (2 ^ 62) < lo" and "hi < 2 ^ 62"
  shows "\<exists>x c. fsd_block_search_best src src_size d bs center lo hi thr count_fn = Some (x, c) \<and>
    (if \<exists>y. lo \<le> y \<and> y \<le> hi \<and> candidate src src_size d bs thr (center + y) \<and> max 1 thr \<le> quality src d bs (center + y)
     then lo \<le> x \<and> x \<le> hi \<and> candidate src src_size d bs thr (center + x) \<and> c = quality src d bs (center + x) \<and>
       (\<forall>y. lo \<le> y \<and> y \<le> hi \<and> candidate src src_size d bs thr (center + y) \<longrightarrow>
          quality src d bs (center + y) \<le> c \<and> (y < x \<longrightarrow> quality src d bs (center + y) < c))
     else x = - 1 \<and> c = thr - 1) \<and>
    (bs < 1024 \<longrightarrow> (\<forall>p. candidate src src_size d bs thr p \<longleftrightarrow> 0 \<le> p \<and> nat p + bs \<le> src_size))"
proof -
  have small: "bs < 1024 \<longrightarrow> (\<forall>p. candidate src src_size d bs thr p \<longleftrightarrow> 0 \<le> p \<and> nat p + bs \<le> src_size)"
    by (simp add: candidate_def prescreen_def)
  show ?thesis
  proof (rule block_search_best_cases[OF assms, where thr = thr], goal_cases)
    case 1
    then show ?thesis using small by (auto simp: not_le[symmetric])
  next
    case (2 x)
    then show ?thesis using small by auto
  qed
qed

theorem block_search_finds_best_witness:
  "\<exists>x c. fsd_block_search_best [9, 1, 2, 3, 9] 5 [1, 2, 4] 3 0 (- 2) 2 2 equal_bytes = Some (x, c) \<and> x = 1 \<and> c = 2"
proof -
  have "search_setup equal_bytes [9, 1, 2, 3, 9] 5 [1, 2, 4] 3" by (simp add: search_setup_def)
  moreover have "\<bar>0 :: int\<bar> < 2 ^ 62" "- (2 ^ 62) < (- 2 :: int)" "(2 :: int) < 2 ^ 62" by simp_all
  note best = block_search_finds_best [OF calculation this, of 2]
  have three: "(\<Sum>i<3. f i) = f 0 + f 1 + f 2" for f :: "nat \<Rightarrow> nat" by (simp add: numeral_3_eq_3 numeral_2_eq_2)
  have q: "quality [9, 1, 2, 3, 9] [1, 2, 4] 3 p = (if p = 1 then 2 else 0)" if "p = 0 \<or> p = 1 \<or> p = 2" for p
    using that by (auto simp: quality_def equal_bytes_def three nth_Cons')
  have c: "candidate [9, 1, 2, 3, 9] 5 [1, 2, 4] 3 2 p \<longleftrightarrow> p = 0 \<or> p = 1 \<or> p = 2" for p
    by (auto simp: candidate_def prescreen_def)
  have "\<exists>y. - 2 \<le> y \<and> y \<le> 2 \<and> candidate [9, 1, 2, 3, 9] 5 [1, 2, 4] 3 2 (0 + y) \<and>
      max 1 2 \<le> quality [9, 1, 2, 3, 9] [1, 2, 4] 3 (0 + y)"
    by (intro exI[of _ 1]) (simp add: c q)
  note some = this
  from best show ?thesis
  proof (elim exE conjE, goal_cases)
    case (1 x c')
    note r = 1(2)[unfolded if_P[OF some]]
    have "quality [9, 1, 2, 3, 9] [1, 2, 4] 3 (0 + 1) \<le> c'"
      using r c[of 1] by (elim conjE allE[of _ 1]) simp
    then have "x = 1 \<and> c' = 2" using r by (auto simp: c q)
    then show ?thesis using 1(1) by simp
  qed
qed

end
