(* ===== verification/Delta_Match.thy ===== *)
theory Delta_Match
  imports Complex_Main Match_Soundness Block_Search Hash_Table
begin

text \<open>
  What the partial stage and the file-system stage share: their options (threshold and search
  radius), and the recording of a partial match, whose delta is allocated from the pool of the
  controller. A \<^verbatim>\<open>float\<close> option is a rational number, or \<^verbatim>\<open>None\<close> for a value that is not finite;
  the product of a threshold and a block size that is a power of two is exact in C.
\<close>

type_synonym c_float = "rat option"

definition DEFAULT_SEARCH_RADIUS_BLOCKS :: int where "DEFAULT_SEARCH_RADIUS_BLOCKS = 8"

definition clamp_threshold :: "c_float \<Rightarrow> rat" where
  "clamp_threshold threshold =
     (case threshold of Some x \<Rightarrow> if 0 < x \<and> x < 1 then x else 1 / 2 | None \<Rightarrow> 1 / 2)"

definition search_range_of :: "int \<Rightarrow> nat \<Rightarrow> nat" where
  "search_range_of search_radius_blocks block_size =
     (let r = (if search_radius_blocks \<le> 0 then DEFAULT_SEARCH_RADIUS_BLOCKS else search_radius_blocks)
      in u64 (nat r * block_size))"

text \<open>\<^verbatim>\<open>(size_t)(threshold * block_size)\<close>, at least one.\<close>

definition threshold_bytes :: "rat \<Rightarrow> nat \<Rightarrow> nat" where
  "threshold_bytes threshold block_size =
     (let threshold_count = nat \<lfloor>threshold * of_nat block_size\<rfloor>
      in if threshold_count = 0 then 1 else threshold_count)"

lemma threshold_bytes_pos [simp]: "0 < threshold_bytes x bs"
  by (simp add: threshold_bytes_def Let_def)

lemma threshold_bytes_le:
  assumes "0 < bs"
  shows "threshold_bytes (clamp_threshold x) bs \<le> bs"
proof -
  have c: "0 < clamp_threshold x \<and> clamp_threshold x < 1" by (auto simp: clamp_threshold_def split: option.split)
  have "clamp_threshold x * of_nat bs \<le> of_nat bs" using c by (intro mult_left_le_one_le) simp_all
  then have "\<lfloor>clamp_threshold x * of_nat bs\<rfloor> \<le> int bs"
    by (metis floor_mono floor_of_nat)
  then show ?thesis using assms by (simp add: threshold_bytes_def Let_def nat_le_iff)
qed

text \<open>
  Allocating and computing the delta, then the two tracker calls. \<^verbatim>\<open>FSD_ERR_OUT_OF_MEMORY\<close> stands
  for the null pointer, after which the stages go on without the match.
\<close>

definition record_partial ::
  "allocator \<Rightarrow> bytes \<Rightarrow> bytes \<Rightarrow> nat \<Rightarrow> nat \<Rightarrow> nat \<Rightarrow> (block_tracker \<times> memory_pool) action" where
  "record_partial A src dest block_size dest_idx src_pos tp =
     (case tp of (t, delta_pool) \<Rightarrow>
        (case fsd_pool_alloc A block_size delta_pool of
           (None, delta_pool) \<Rightarrow> (FSD_ERR_OUT_OF_MEMORY, t, delta_pool)
         | (Some _, delta_pool) \<Rightarrow>
             if src_pos + block_size \<le> length src \<and> (dest_idx + 1) * block_size \<le> length dest
             then (FSD_SUCCESS, partial_at src dest block_size dest_idx src_pos t, delta_pool)
             else (UB_FAULT, t, delta_pool)))"

section \<open>What recording a match does\<close>

text \<open>
  The relation between the states before and after a part of a stage that records partial
  matches: soundness is kept, matches are only added, and every match added is partial and has at
  least \<^verbatim>\<open>thr\<close> equal bytes.
\<close>

definition partial_source :: "nat \<Rightarrow> block_state \<Rightarrow> int" where
  "partial_source bs b = int (b_src_index b) * int bs + b_byte_offset b"

definition good_partial :: "bytes \<Rightarrow> bytes \<Rightarrow> nat \<Rightarrow> nat \<Rightarrow> block_tracker \<Rightarrow> nat \<Rightarrow> bool" where
  "good_partial src dest bs thr t i \<longleftrightarrow> b_match_type (t_blocks t ! i) = FSD_MATCH_PARTIAL \<and>
     thr \<le> quality src (bytes_at (i * bs) bs dest) bs (partial_source bs (t_blocks t ! i))"

definition adds_partials :: "bytes \<Rightarrow> bytes \<Rightarrow> nat \<Rightarrow> nat \<Rightarrow> block_tracker \<Rightarrow> block_tracker \<Rightarrow> bool" where
  "adds_partials src dest bs thr t u \<longleftrightarrow> tracker_sound src dest bs u \<and> extends_matches t u \<and>
     (\<forall>i < t_count t. t_blocks u ! i = t_blocks t ! i \<or> matched t i = None \<and> good_partial src dest bs thr u i)"

lemma adds_partials_refl: "tracker_sound src dest bs t \<Longrightarrow> adds_partials src dest bs thr t t"
  by (simp add: adds_partials_def)

lemma adds_partials_trans:
  assumes "adds_partials src dest bs thr t u" and "adds_partials src dest bs thr u v"
  shows "adds_partials src dest bs thr t v"
proof -
  have ext: "extends_matches t v" using assms extends_matches_trans by (auto simp: adds_partials_def)
  have cnt: "t_count u = t_count t" using assms(1) by (simp add: adds_partials_def extends_matches_def)
  have "t_blocks v ! i = t_blocks t ! i \<or> matched t i = None \<and> good_partial src dest bs thr v i" if "i < t_count t" for i
  proof (cases "t_blocks v ! i = t_blocks u ! i")
    case True
    then have "good_partial src dest bs thr v i = good_partial src dest bs thr u i" by (simp add: good_partial_def)
    with True assms(1) that show ?thesis by (simp add: adds_partials_def)
  next
    case False
    then have "matched u i = None" "good_partial src dest bs thr v i"
      using assms(2) that cnt by (auto simp: adds_partials_def)
    moreover from this(1) have "matched t i = None"
      using assms(1) unfolding adds_partials_def extends_matches_def by metis
    ultimately show ?thesis by simp
  qed
  then show ?thesis using ext assms(2) by (simp add: adds_partials_def)
qed

lemma partial_at_adds:
  assumes "tracker_sound src dest bs t" and "fsd_block_tracker_is_unmatched t i" and "p + bs \<le> length src"
    and "thr \<le> quality src (bytes_at (i * bs) bs dest) bs (int p)"
  shows "adds_partials src dest bs thr t (partial_at src dest bs i p t)"
    and "\<not> fsd_block_tracker_is_unmatched (partial_at src dest bs i p t) i"
proof -
  let ?u = "partial_at src dest bs i p t"
  have inv: "tracker_inv t" using assms(1) by (simp add: tracker_sound_def)
  have i: "i < t_count t" "b_match_type (t_blocks t ! i) = FSD_MATCH_NONE"
    using assms(2) tracker_is_unmatched[OF inv] by simp_all
  have len: "length (t_blocks t) = t_count t" by (rule tracker_inv_sizes(1)[OF inv])
  have sound: "tracker_sound src dest bs ?u" by (rule tracker_sound_partial_at[OF assms(1-3)])
  have at_i: "b_match_type (t_blocks ?u ! i) = FSD_MATCH_PARTIAL" "b_src_index (t_blocks ?u ! i) = p div bs"
    "b_byte_offset (t_blocks ?u ! i) = int (p mod bs)"
    using i len by (simp_all add: partial_at_def fsd_block_tracker_set_delta_def fsd_block_tracker_set_match_def)
  have "partial_source bs (t_blocks ?u ! i) = int p"
    unfolding partial_source_def at_i by (metis div_mult_mod_eq of_nat_add of_nat_mult)
  then have "good_partial src dest bs thr ?u i" using at_i assms(4) by (simp add: good_partial_def)
  moreover have "t_blocks ?u ! j = t_blocks t ! j" if "j \<noteq> i" for j
    using that by (simp add: partial_at_def fsd_block_tracker_set_delta_def fsd_block_tracker_set_match_def)
  moreover have "matched t i = None" using i by (simp add: matched_def)
  ultimately have "t_blocks ?u ! j = t_blocks t ! j \<or> matched t j = None \<and> good_partial src dest bs thr ?u j" for j
    by (cases "j = i") auto
  then show "adds_partials src dest bs thr t ?u"
    using sound extends_partial_at[OF inv] unfolding adds_partials_def by blast
  have "tracker_inv ?u" using sound by (simp add: tracker_sound_def)
  then show "\<not> fsd_block_tracker_is_unmatched ?u i" using at_i(1) by (simp add: tracker_is_unmatched)
qed

lemma record_partial_cases:
  assumes "tracker_sound src dest bs t" and "fsd_block_tracker_is_unmatched t i" and "p + bs \<le> length src"
    and "thr \<le> quality src (bytes_at (i * bs) bs dest) bs (int p)"
    and "record_partial A src dest bs i p (t, pool) = (e, u, pool')"
  shows "e \<in> {FSD_SUCCESS, FSD_ERR_OUT_OF_MEMORY} \<and> adds_partials src dest bs thr t u \<and>
    pool' = snd (fsd_pool_alloc A bs pool) \<and> (e = FSD_SUCCESS \<longrightarrow> \<not> fsd_block_tracker_is_unmatched u i) \<and>
    (e = FSD_ERR_OUT_OF_MEMORY \<longrightarrow> u = t \<and> fst (fsd_pool_alloc A bs pool) = None)"
proof -
  have "i < t_count t" using assms(1,2) tracker_is_unmatched by (simp add: tracker_sound_def)
  then have "(i + 1) * bs \<le> length dest"
    using assms(1) by (intro block_in_image[of i "t_count t"]) (simp_all add: tracker_sound_def blocks_right_def)
  then show ?thesis
    using assms(3,5) partial_at_adds[OF assms(1-4)] adds_partials_refl[OF assms(1)]
    by (auto simp: record_partial_def split: prod.splits option.splits)
qed

lemma unmatched_block_in:
  assumes "tracker_sound src dest bs t" and "fsd_block_tracker_is_unmatched t i"
  shows "(i + 1) * bs \<le> length dest" "block_at dest bs i = Some (bytes_at (i * bs) bs dest)"
proof -
  have "i < t_count t" using assms tracker_is_unmatched by (simp add: tracker_sound_def)
  then show "(i + 1) * bs \<le> length dest"
    using assms(1) by (intro block_in_image[of i "t_count t"]) (simp_all add: tracker_sound_def blocks_right_def)
  then show "block_at dest bs i = Some (bytes_at (i * bs) bs dest)" by (simp add: block_at_def)
qed

text \<open>Recording either stores the match or, when the pool has no memory, leaves the tracker alone.\<close>

lemma record_partial_outcomes:
  assumes "tracker_sound src dest bs t" and "fsd_block_tracker_is_unmatched t i" and "p + bs \<le> length src"
    and "thr \<le> quality src (bytes_at (i * bs) bs dest) bs (int p)"
  obtains (ok) u pool' where "record_partial A src dest bs i p (t, pool) = (FSD_SUCCESS, u, pool')"
      "adds_partials src dest bs thr t u" "\<not> fsd_block_tracker_is_unmatched u i"
      "generous A bs pool \<Longrightarrow> generous A bs pool'"
    | (oom) pool' where "record_partial A src dest bs i p (t, pool) = (FSD_ERR_OUT_OF_MEMORY, t, pool')"
      "\<not> generous A bs pool"
proof -
  obtain e u pool' where r: "record_partial A src dest bs i p (t, pool) = (e, u, pool')" by (metis prod_cases3)
  note c = record_partial_cases[OF assms r]
  have gen: "fst (fsd_pool_alloc A bs pool) \<noteq> None \<and> generous A bs (snd (fsd_pool_alloc A bs pool))" if "generous A bs pool"
    using generous_alloc[OF that] by auto
  show thesis
  proof (cases "e = FSD_SUCCESS")
    case True
    then show thesis using ok r c gen by auto
  next
    case False
    then show thesis using oom r c gen by auto
  qed
qed

lemma adds_partials_unmatched:
  assumes "tracker_sound src dest bs t" and "adds_partials src dest bs thr t u" and "fsd_block_tracker_is_unmatched u i"
  shows "fsd_block_tracker_is_unmatched t i"
proof -
  have inv: "tracker_inv t" "tracker_inv u" and ext: "extends_matches t u"
    using assms(1,2) by (simp_all add: adds_partials_def tracker_sound_def)
  have i: "i < t_count t" "matched u i = None"
    using assms(3) ext by (simp_all add: tracker_is_unmatched[OF inv(2)] matched_def extends_matches_def)
  then have "matched t i = None" using ext unfolding extends_matches_def by metis
  then show ?thesis using i(1) by (simp add: tracker_is_unmatched[OF inv(1)] matched_def split: if_splits)
qed

section \<open>Signed positions\<close>

lemma s64_s64 [simp]: "s64 (s64 x) = s64 x"
  using s64_bounds[of x] by (intro s64_id) simp_all

lemma s64_of_nat: "n < 2 ^ 62 \<Longrightarrow> s64 (int n) = int n"
  by (intro s64_id) simp_all

lemma s64_add_s64 [simp]: "s64 (a + s64 b) = s64 (a + b)"
proof -
  define q where "q = (b + 2 ^ 63) div 2 ^ 64"
  have "s64 b = b - 2 ^ 64 * q" unfolding s64_def q_def minus_mult_div_eq_mod [symmetric] by simp
  then have "a + s64 b + 2 ^ 63 = (a + b + 2 ^ 63) + 2 ^ 64 * (- q)" by simp
  then have "(a + s64 b + 2 ^ 63) mod 2 ^ 64 = (a + b + 2 ^ 63) mod 2 ^ 64" by (metis mod_mult_self2)
  then show ?thesis unfolding s64_def by simp
qed

lemma count_at_pos:
  assumes "search_setup count_fn src src_size d bs" and "pos_ok src_size bs (s64 p)"
  shows "count_at count_fn src (nat (s64 p)) d 0 bs = Some (quality src d bs (s64 p))"
  using assms pos_ok_iff[of bs "s64 p" src_size] s64_bounds[of p]
  by (simp add: count_at_def search_setup_def quality_def)

end
