(* ===== verification/Ext_Layout.thy ===== *)
theory Ext_Layout
  imports Fsd_Base
begin

text \<open>
  The on-disk layout of ext2/3/4 as \<^verbatim>\<open>src/fs/ext_reader.c\<close> reads it: field offsets, magic
  numbers, feature flags and the reader's own limits, and the little-endian loads. An image is a
  byte list and a pointer into it a byte offset; a load outside the image is \<^verbatim>\<open>None\<close>.
\<close>

named_theorems ext_layout \<open>values of the layout constants\<close>

definition EXT_SB_OFFSET :: nat where [ext_layout]: "EXT_SB_OFFSET = 1024"
definition SB_INODES_COUNT :: nat where [ext_layout]: "SB_INODES_COUNT = 0x00"
definition SB_BLOCKS_COUNT_LO :: nat where [ext_layout]: "SB_BLOCKS_COUNT_LO = 0x04"
definition SB_FIRST_DATA_BLOCK :: nat where [ext_layout]: "SB_FIRST_DATA_BLOCK = 0x14"
definition SB_LOG_BLOCK_SIZE :: nat where [ext_layout]: "SB_LOG_BLOCK_SIZE = 0x18"
definition SB_BLOCKS_PER_GROUP :: nat where [ext_layout]: "SB_BLOCKS_PER_GROUP = 0x20"
definition SB_INODES_PER_GROUP :: nat where [ext_layout]: "SB_INODES_PER_GROUP = 0x28"
definition SB_MAGIC :: nat where [ext_layout]: "SB_MAGIC = 0x38"
definition SB_STATE :: nat where [ext_layout]: "SB_STATE = 0x3A"
definition SB_REV_LEVEL :: nat where [ext_layout]: "SB_REV_LEVEL = 0x4C"
definition SB_INODE_SIZE :: nat where [ext_layout]: "SB_INODE_SIZE = 0x58"
definition SB_FEATURE_INCOMPAT :: nat where [ext_layout]: "SB_FEATURE_INCOMPAT = 0x60"
definition SB_DESC_SIZE :: nat where [ext_layout]: "SB_DESC_SIZE = 0xFE"
definition SB_BLOCKS_COUNT_HI :: nat where [ext_layout]: "SB_BLOCKS_COUNT_HI = 0x150"
definition EXT_SUPER_MAGIC :: "32 word" where [ext_layout]: "EXT_SUPER_MAGIC = 0xEF53"
definition EXT_STATE_CLEAN :: "32 word" where [ext_layout]: "EXT_STATE_CLEAN = 0x0001"
definition INCOMPAT_FILETYPE :: "32 word" where [ext_layout]: "INCOMPAT_FILETYPE = 0x00002"
definition INCOMPAT_RECOVER :: "32 word" where [ext_layout]: "INCOMPAT_RECOVER = 0x00004"
definition INCOMPAT_EXTENTS :: "32 word" where [ext_layout]: "INCOMPAT_EXTENTS = 0x00040"
definition INCOMPAT_64BIT :: "32 word" where [ext_layout]: "INCOMPAT_64BIT = 0x00080"
definition INCOMPAT_FLEX_BG :: "32 word" where [ext_layout]: "INCOMPAT_FLEX_BG = 0x00200"
definition INCOMPAT_CSUM_SEED :: "32 word" where [ext_layout]: "INCOMPAT_CSUM_SEED = 0x02000"
definition INCOMPAT_INLINE_DATA :: "32 word" where [ext_layout]: "INCOMPAT_INLINE_DATA = 0x08000"
definition GD_INODE_TABLE_LO :: nat where [ext_layout]: "GD_INODE_TABLE_LO = 0x08"
definition GD_INODE_TABLE_HI :: nat where [ext_layout]: "GD_INODE_TABLE_HI = 0x28"
definition GD_SIZE_32 :: nat where [ext_layout]: "GD_SIZE_32 = 32"
definition INO_MODE :: nat where [ext_layout]: "INO_MODE = 0x00"
definition INO_SIZE_LO :: nat where [ext_layout]: "INO_SIZE_LO = 0x04"
definition INO_FLAGS :: nat where [ext_layout]: "INO_FLAGS = 0x20"
definition INO_BLOCK :: nat where [ext_layout]: "INO_BLOCK = 0x28"
definition INO_SIZE_HIGH :: nat where [ext_layout]: "INO_SIZE_HIGH = 0x6C"
definition INO_BLOCK_LEN :: nat where [ext_layout]: "INO_BLOCK_LEN = 60"
definition INO_MIN_SIZE :: nat where [ext_layout]: "INO_MIN_SIZE = 128"
definition MODE_FMT_MASK :: "32 word" where [ext_layout]: "MODE_FMT_MASK = 0xF000"
definition MODE_REGULAR :: "32 word" where [ext_layout]: "MODE_REGULAR = 0x8000"
definition MODE_DIRECTORY :: "32 word" where [ext_layout]: "MODE_DIRECTORY = 0x4000"
definition IFLAG_EXTENTS :: "32 word" where [ext_layout]: "IFLAG_EXTENTS = 0x00080000"
definition IFLAG_INLINE_DATA :: "32 word" where [ext_layout]: "IFLAG_INLINE_DATA = 0x10000000"
definition EH_MAGIC_OFF :: nat where [ext_layout]: "EH_MAGIC_OFF = 0"
definition EH_ENTRIES_OFF :: nat where [ext_layout]: "EH_ENTRIES_OFF = 2"
definition EH_DEPTH_OFF :: nat where [ext_layout]: "EH_DEPTH_OFF = 6"
definition EH_SIZE :: nat where [ext_layout]: "EH_SIZE = 12"
definition EXT_ENTRY_SIZE :: nat where [ext_layout]: "EXT_ENTRY_SIZE = 12"
definition EXTENT_HEADER_MAGIC :: "32 word" where [ext_layout]: "EXTENT_HEADER_MAGIC = 0xF30A"
definition EXTENT_MAX_DEPTH :: nat where [ext_layout]: "EXTENT_MAX_DEPTH = 5"
definition EXT_INIT_MAX_LEN :: nat where [ext_layout]: "EXT_INIT_MAX_LEN = 32768"
definition EE_BLOCK_OFF :: nat where [ext_layout]: "EE_BLOCK_OFF = 0"
definition EE_LEN_OFF :: nat where [ext_layout]: "EE_LEN_OFF = 4"
definition EE_START_HI_OFF :: nat where [ext_layout]: "EE_START_HI_OFF = 6"
definition EE_START_LO_OFF :: nat where [ext_layout]: "EE_START_LO_OFF = 8"
definition EI_LEAF_LO_OFF :: nat where [ext_layout]: "EI_LEAF_LO_OFF = 4"
definition EI_LEAF_HI_OFF :: nat where [ext_layout]: "EI_LEAF_HI_OFF = 8"
definition DE_INODE_OFF :: nat where [ext_layout]: "DE_INODE_OFF = 0"
definition DE_REC_LEN_OFF :: nat where [ext_layout]: "DE_REC_LEN_OFF = 4"
definition DE_NAME_LEN_OFF :: nat where [ext_layout]: "DE_NAME_LEN_OFF = 6"
definition DE_FILE_TYPE_OFF :: nat where [ext_layout]: "DE_FILE_TYPE_OFF = 7"
definition DE_NAME_OFF :: nat where [ext_layout]: "DE_NAME_OFF = 8"
definition DE_FT_UNKNOWN :: nat where [ext_layout]: "DE_FT_UNKNOWN = 0"
definition DE_FT_REGULAR :: nat where [ext_layout]: "DE_FT_REGULAR = 1"
definition DE_FT_DIRECTORY :: nat where [ext_layout]: "DE_FT_DIRECTORY = 2"
definition EXT_ROOT_INODE :: nat where [ext_layout]: "EXT_ROOT_INODE = 2"
definition MAX_PATH_LEN :: nat where [ext_layout]: "MAX_PATH_LEN = 4096"
definition MAX_DIR_DEPTH :: nat where [ext_layout]: "MAX_DIR_DEPTH = 128"
definition MAX_EXTENTS_PER_FILE :: nat where [ext_layout]: "MAX_EXTENTS_PER_FILE = 65536"

definition MAX_FILE_BLOCKS :: nat where [ext_layout]: "MAX_FILE_BLOCKS = 2 ^ 32"

definition INCOMPAT_ALLOWED :: "32 word" where
  "INCOMPAT_ALLOWED = INCOMPAT_FILETYPE OR INCOMPAT_EXTENTS OR INCOMPAT_64BIT OR INCOMPAT_FLEX_BG OR
     INCOMPAT_CSUM_SEED OR INCOMPAT_INLINE_DATA"

section \<open>Loads\<close>

definition rd16 :: "bytes \<Rightarrow> nat \<Rightarrow> 32 word option" where
  "rd16 img p = (if p + 2 \<le> length img then Some (le_u16 (bytes_at p 2 img)) else None)"

definition rd32 :: "bytes \<Rightarrow> nat \<Rightarrow> 32 word option" where
  "rd32 img p = (if p + 4 \<le> length img then Some (le_u32 (bytes_at p 4 img)) else None)"

definition rd8 :: "bytes \<Rightarrow> nat \<Rightarrow> byte option" where
  "rd8 img p = (if p < length img then Some (img ! p) else None)"

definition rd_bytes :: "bytes \<Rightarrow> nat \<Rightarrow> nat \<Rightarrow> bytes option" where
  "rd_bytes img p len = (if p + len \<le> length img then Some (bytes_at p len img) else None)"

text \<open>\<^verbatim>\<open>lo | (uint64_t)hi << 32\<close>: the two halves share no bit.\<close>

definition join32 :: "32 word \<Rightarrow> 32 word \<Rightarrow> nat" where
  "join32 lo hi = unat lo + 2 ^ 32 * unat hi"

lemma rd_Some:
  "p + 2 \<le> length img \<Longrightarrow> \<exists>v. rd16 img p = Some v \<and> unat v < 65536"
  "p + 4 \<le> length img \<Longrightarrow> \<exists>v. rd32 img p = Some v"
  "p < length img \<Longrightarrow> \<exists>v. rd8 img p = Some v"
proof -
  have "unat (le_u16 b) < 65536" for b
  proof -
    have "le_u16 b = take_bit 16 (le_u16 b)"
      by (rule bit_word_eqI) (auto simp: le_u16_def bit_or_iff bit_push_bit_iff bit_ucast_iff bit_take_bit_iff dest: bit_imp_le_length)
    then have "unat (le_u16 b) = unat (take_bit 16 (le_u16 b))" by simp
    also have "\<dots> = take_bit 16 (unat (le_u16 b))" by (simp add: unsigned_take_bit_eq)
    also have "\<dots> < 2 ^ 16" by (rule take_bit_nat_less_exp)
    finally show ?thesis by simp
  qed
  then show "p + 2 \<le> length img \<Longrightarrow> \<exists>v. rd16 img p = Some v \<and> unat v < 65536" by (simp add: rd16_def)
qed (simp_all add: rd32_def rd8_def)

lemma unat_less_32 [simp]: "unat (v :: 32 word) < 4294967296"
  using unsigned_less[of v, where 'a = nat] by simp

lemma join32_64: "unat (ucast lo OR push_bit 32 (ucast hi) :: 64 word) = join32 lo hi"
proof -
  have cast: "unat (ucast v :: 64 word) = unat v" for v :: "32 word"
  proof -
    have "unat v < 2 ^ 64" using unat_less_32[of v] by (rule order_less_trans) simp
    then show ?thesis by (simp add: unsigned_ucast_eq take_bit_nat_eq_self_iff)
  qed
  have "ucast lo AND push_bit 32 (ucast hi) = (0 :: 64 word)"
    by (rule bit_word_eqI) (auto simp: bit_and_iff bit_push_bit_iff bit_ucast_iff dest: bit_imp_le_length)
  then have "ucast lo OR push_bit 32 (ucast hi) = (ucast lo + push_bit 32 (ucast hi) :: 64 word)"
    using word_plus_and_or[of "ucast lo :: 64 word" "push_bit 32 (ucast hi)"] by simp
  moreover have "unat (push_bit 32 (ucast hi) :: 64 word) = 2 ^ 32 * unat hi"
    using unat_less_32[of hi] cast[of hi] by (simp add: push_bit_eq_mult unat_word_ariths)
  moreover have "unat lo + 4294967296 * unat hi < 18446744073709551616" using unat_less_32[of lo] unat_less_32[of hi] by linarith
  ultimately show ?thesis using cast[of lo] by (simp add: unat_word_ariths join32_def)
qed

end
