(* ===== verification/Ext_Reader.thy ===== *)
theory Ext_Reader
  imports Ext_Layout "HOL-Library.Monad_Syntax"
begin

text \<open>
  The read-only ext2/3/4 walker of \<^verbatim>\<open>src/fs/ext_reader.c\<close>. Every load goes through the loads of
  the layout theory, so that a function that could read outside the image returns \<^verbatim>\<open>None\<close>; the
  directory walk, which the source bounds with a bitmap of visited inodes, is a partial function,
  and \<^verbatim>\<open>None\<close> also when it does not return. The theorems show that neither happens for any image,
  and that the extents handed to the callback lie inside the file system.
\<close>

section \<open>Opening a file system\<close>

record extfs =
  x_image :: bytes
  x_image_size :: nat
  x_block_size :: nat
  x_block_count :: nat
  x_inodes_count :: nat
  x_inodes_per_group :: nat
  x_blocks_per_group :: nat
  x_inode_size :: nat
  x_desc_size :: nat
  x_first_data_block :: nat
  x_gdt_start :: nat
  x_group_count :: nat
  x_has_filetype :: bool

text \<open>The byte offset of file-system block \<^verbatim>\<open>b\<close>, or \<^verbatim>\<open>None\<close> (the null pointer).\<close>

definition fs_block :: "extfs \<Rightarrow> nat \<Rightarrow> nat option" where
  "fs_block fs b =
     (if b = 0 \<or> x_block_count fs \<le> b then None
      else
        let off = u64 (b * x_block_size fs) in
        if x_image_size fs < u64 (off + x_block_size fs) then None else Some off)"

definition is_pow2_word :: "nat \<Rightarrow> bool" where
  "is_pow2_word n \<longleftrightarrow> (of_nat n :: 32 word) AND (of_nat n - 1) = 0"

text \<open>The geometry checks, with the reason of a rejection.\<close>

definition check_geometry :: "extfs \<Rightarrow> (fsd_error \<times> string) + extfs" where
  "check_geometry fs =
     (if x_inodes_per_group fs = 0 \<or> x_blocks_per_group fs = 0 \<or> x_inodes_count fs = 0 \<or> x_block_count fs = 0
      then Inl (FSD_ERR_CORRUPT_DATA, ''zero geometry field'')
      else if x_inode_size fs < INO_MIN_SIZE \<or> x_block_size fs < x_inode_size fs \<or> \<not> is_pow2_word (x_inode_size fs)
      then Inl (FSD_ERR_CORRUPT_DATA, ''bad inode size'')
      else if x_desc_size fs < GD_SIZE_32 \<or> x_block_size fs < x_desc_size fs
      then Inl (FSD_ERR_CORRUPT_DATA, ''bad descriptor size'')
      else if x_first_data_block fs \<noteq> (if x_block_size fs = 1024 then 1 else 0)
      then Inl (FSD_ERR_CORRUPT_DATA, ''bad first data block'')
      else if x_image_size fs div x_block_size fs < x_block_count fs
      then Inl (FSD_ERR_CORRUPT_DATA, ''filesystem larger than image'')
      else
        let group_count = u32 ((x_block_count fs - x_first_data_block fs + x_blocks_per_group fs - 1) div
              x_blocks_per_group fs)
        in if group_count * x_inodes_per_group fs < x_inodes_count fs
           then Inl (FSD_ERR_CORRUPT_DATA, ''inode count exceeds groups'')
           else
             let gdt_start = (x_first_data_block fs + 1) * x_block_size fs in
             if x_image_size fs < gdt_start + group_count * x_desc_size fs
             then Inl (FSD_ERR_CORRUPT_DATA, ''descriptor table out of range'')
             else Inr (fs\<lparr>x_group_count := group_count, x_gdt_start := gdt_start\<rparr>))"

definition read_geometry :: "bytes \<Rightarrow> nat \<Rightarrow> nat \<Rightarrow> 32 word \<Rightarrow> 32 word \<Rightarrow> 32 word \<Rightarrow> extfs option" where
  "read_geometry img image_size sb log_bs incompat rev_level =
     do {
       blocks_lo \<leftarrow> rd32 img (sb + SB_BLOCKS_COUNT_LO);
       blocks_hi \<leftarrow> (if incompat AND INCOMPAT_64BIT \<noteq> 0 then rd32 img (sb + SB_BLOCKS_COUNT_HI) else Some 0);
       inodes \<leftarrow> rd32 img (sb + SB_INODES_COUNT);
       ipg \<leftarrow> rd32 img (sb + SB_INODES_PER_GROUP);
       bpg \<leftarrow> rd32 img (sb + SB_BLOCKS_PER_GROUP);
       fdb \<leftarrow> rd32 img (sb + SB_FIRST_DATA_BLOCK);
       isz \<leftarrow> (if 1 \<le> rev_level then map_option unat (rd16 img (sb + SB_INODE_SIZE)) else Some INO_MIN_SIZE);
       dsz \<leftarrow> (if incompat AND INCOMPAT_64BIT \<noteq> 0 then map_option unat (rd16 img (sb + SB_DESC_SIZE))
               else Some GD_SIZE_32);
       Some \<lparr>x_image = img, x_image_size = image_size, x_block_size = 1024 * 2 ^ unat log_bs,
             x_block_count = join32 blocks_lo blocks_hi, x_inodes_count = unat inodes,
             x_inodes_per_group = unat ipg, x_blocks_per_group = unat bpg, x_inode_size = isz,
             x_desc_size = dsz, x_first_data_block = unat fdb, x_gdt_start = 0, x_group_count = 0,
             x_has_filetype = (incompat AND INCOMPAT_FILETYPE \<noteq> 0)\<rparr>
     }"

definition fsd_extfs_open :: "bool \<Rightarrow> bytes \<Rightarrow> nat \<Rightarrow> ((fsd_error \<times> string) + extfs) option" where
  "fsd_extfs_open calloc_ok img image_size =
     (if image_size < EXT_SB_OFFSET + 1024
      then Some (Inl (FSD_ERR_BAD_MAGIC, ''image too small for a superblock''))
      else do {
        let sb = EXT_SB_OFFSET;
        magic \<leftarrow> rd16 img (sb + SB_MAGIC);
        if magic \<noteq> EXT_SUPER_MAGIC then Some (Inl (FSD_ERR_BAD_MAGIC, ''no ext superblock magic''))
        else do {
          log_bs \<leftarrow> rd32 img (sb + SB_LOG_BLOCK_SIZE);
          incompat \<leftarrow> rd32 img (sb + SB_FEATURE_INCOMPAT);
          rev_level \<leftarrow> rd32 img (sb + SB_REV_LEVEL);
          if 2 < log_bs then Some (Inl (FSD_ERR_BAD_MAGIC, ''unsupported block size''))
          else if incompat AND INCOMPAT_RECOVER \<noteq> 0
          then Some (Inl (FSD_ERR_BAD_MAGIC, ''journal needs recovery''))
          else if incompat AND NOT INCOMPAT_ALLOWED \<noteq> 0
          then Some (Inl (FSD_ERR_BAD_MAGIC, ''unsupported incompat features''))
          else do {
            state \<leftarrow> rd16 img (sb + SB_STATE);
            if state AND EXT_STATE_CLEAN = 0
            then Some (Inl (FSD_ERR_BAD_MAGIC, ''filesystem not cleanly unmounted''))
            else if \<not> calloc_ok then Some (Inl (FSD_ERR_OUT_OF_MEMORY, ''''))
            else map_option check_geometry (read_geometry img image_size sb log_bs incompat rev_level)
          }
        }
      })"

definition fsd_extfs_block_size :: "extfs \<Rightarrow> nat" where
  "fsd_extfs_block_size fs = x_block_size fs"

definition fsd_extfs_block_count :: "extfs \<Rightarrow> nat" where
  "fsd_extfs_block_count fs = x_block_count fs"

section \<open>Inodes\<close>

text \<open>The byte offset of inode \<^verbatim>\<open>ino\<close>, or the null pointer (the inner \<^verbatim>\<open>None\<close>).\<close>

definition inode_ptr :: "extfs \<Rightarrow> nat \<Rightarrow> nat option option" where
  "inode_ptr fs ino =
     (if ino = 0 \<or> x_inodes_count fs < ino then Some None
      else do {
        let index = ino - 1;
        let group = index div x_inodes_per_group fs;
        let within = index mod x_inodes_per_group fs;
        let gd = x_gdt_start fs + group * x_desc_size fs;
        lo \<leftarrow> rd32 (x_image fs) (gd + GD_INODE_TABLE_LO);
        hi \<leftarrow> (if GD_INODE_TABLE_HI + 4 \<le> x_desc_size fs then rd32 (x_image fs) (gd + GD_INODE_TABLE_HI) else Some 0);
        let table = join32 lo hi;
        let byte = u64 (table * x_block_size fs + within * x_inode_size fs);
        Some (if table = 0 \<or> x_block_count fs \<le> table \<or> x_image_size fs < u64 (byte + x_inode_size fs)
              then None else Some byte)
      })"

definition inode_file_size :: "extfs \<Rightarrow> nat \<Rightarrow> 32 word \<Rightarrow> nat option" where
  "inode_file_size fs ino mode =
     do {
       lo \<leftarrow> rd32 (x_image fs) (ino + INO_SIZE_LO);
       hi \<leftarrow> (if mode AND MODE_FMT_MASK = MODE_REGULAR then rd32 (x_image fs) (ino + INO_SIZE_HIGH) else Some 0);
       Some (join32 lo hi)
     }"

section \<open>Extents\<close>

record ext_extent =
  ex_logical :: nat
  ex_physical :: nat
  ex_count :: nat

definition sizeof_ext_extent :: nat where "sizeof_ext_extent = 24"

text \<open>The growable array of the source: the entries and the capacity.\<close>

type_synonym extent_list = "ext_extent list \<times> nat"

text \<open>\<^verbatim>\<open>malloc_ok\<close> answers \<^verbatim>\<open>malloc\<close> and \<^verbatim>\<open>realloc\<close>; the result tells success from \<^verbatim>\<open>-1\<close>.\<close>

definition extent_append :: "(nat \<Rightarrow> bool) \<Rightarrow> nat \<Rightarrow> nat \<Rightarrow> nat \<Rightarrow> extent_list \<Rightarrow> bool \<times> extent_list" where
  "extent_append malloc_ok logical physical count lst =
     (case lst of (v, cap) \<Rightarrow>
        if count = 0 then (True, lst)
        else if v \<noteq> [] \<and> ex_logical (last v) + ex_count (last v) = logical \<and>
                ex_physical (last v) + ex_count (last v) = physical
        then (True, butlast v @ [(last v)\<lparr>ex_count := ex_count (last v) + count\<rparr>], cap)
        else if MAX_EXTENTS_PER_FILE \<le> length v then (False, lst)
        else
          let cap' = (if length v = cap then (if cap \<noteq> 0 then cap * 2 else 16) else cap) in
          if length v = cap \<and> \<not> malloc_ok (cap' * sizeof_ext_extent) then (False, lst)
          else (True, v @ [\<lparr>ex_logical = logical, ex_physical = physical, ex_count = count\<rparr>], cap'))"

text \<open>A counted loop whose body may fail; the first failure ends it.\<close>

primrec loop_ok :: "nat \<Rightarrow> nat \<Rightarrow> (nat \<Rightarrow> 's \<Rightarrow> (bool \<times> 's) option) \<Rightarrow> 's \<Rightarrow> (bool \<times> 's) option" where
  "loop_ok 0 i body s = Some (True, s)"
| "loop_ok (Suc n) i body s =
     do { (ok, s) \<leftarrow> body i s; if ok then loop_ok n (Suc i) body s else Some (False, s) }"

text \<open>
  The header of an extent-tree node: its depth and number of entries, or \<^verbatim>\<open>None\<close> (inside) when the
  node is not acceptable. \<^verbatim>\<open>expect_depth\<close> is \<^verbatim>\<open>None\<close> for the root.
\<close>

definition node_header :: "extfs \<Rightarrow> nat \<Rightarrow> nat \<Rightarrow> nat option \<Rightarrow> (nat \<times> nat) option option" where
  "node_header fs node space expect_depth =
     (if space < EH_SIZE then Some None
      else do {
        magic \<leftarrow> rd16 (x_image fs) (node + EH_MAGIC_OFF);
        if magic \<noteq> EXTENT_HEADER_MAGIC then Some None
        else do {
          entries \<leftarrow> map_option unat (rd16 (x_image fs) (node + EH_ENTRIES_OFF));
          depth \<leftarrow> map_option unat (rd16 (x_image fs) (node + EH_DEPTH_OFF));
          Some (if EXTENT_MAX_DEPTH < depth \<or> (case expect_depth of Some d \<Rightarrow> depth \<noteq> d | None \<Rightarrow> False) then None
                else if space < EH_SIZE + entries * EXT_ENTRY_SIZE then None
                else Some (depth, entries))
        }
      })"

definition leaf_entry :: "(nat \<Rightarrow> bool) \<Rightarrow> extfs \<Rightarrow> nat \<Rightarrow> extent_list \<Rightarrow> (bool \<times> extent_list) option" where
  "leaf_entry malloc_ok fs entry out =
     do {
       len \<leftarrow> map_option unat (rd16 (x_image fs) (entry + EE_LEN_OFF));
       if len = 0 \<or> EXT_INIT_MAX_LEN < len then Some (True, out)
       else do {
         lo \<leftarrow> rd32 (x_image fs) (entry + EE_START_LO_OFF);
         hi \<leftarrow> rd16 (x_image fs) (entry + EE_START_HI_OFF);
         let phys = join32 lo hi;
         if phys = 0 \<or> x_block_count fs < phys + len then Some (False, out)
         else do {
           blk \<leftarrow> rd32 (x_image fs) (entry + EE_BLOCK_OFF);
           Some (extent_append malloc_ok (unat blk) phys len out)
         }
       }
     }"

text \<open>The entries of a node of known depth; an interior entry descends to a node one level below.\<close>

primrec node_entries :: "nat \<Rightarrow> (nat \<Rightarrow> bool) \<Rightarrow> extfs \<Rightarrow> nat \<Rightarrow> nat \<Rightarrow> extent_list \<Rightarrow> (bool \<times> extent_list) option" where
  "node_entries 0 malloc_ok fs node entries out =
     loop_ok entries 0 (\<lambda>i. leaf_entry malloc_ok fs (node + EH_SIZE + i * EXT_ENTRY_SIZE)) out"
| "node_entries (Suc d) malloc_ok fs node entries out =
     loop_ok entries 0
       (\<lambda>i out. do {
          let entry = node + EH_SIZE + i * EXT_ENTRY_SIZE;
          lo \<leftarrow> rd32 (x_image fs) (entry + EI_LEAF_LO_OFF);
          hi \<leftarrow> rd16 (x_image fs) (entry + EI_LEAF_HI_OFF);
          (case fs_block fs (join32 lo hi) of
             None \<Rightarrow> Some (False, out)
           | Some cb \<Rightarrow> do {
               h \<leftarrow> node_header fs cb (x_block_size fs) (Some d);
               (case h of
                  None \<Rightarrow> Some (False, out)
                | Some (depth, entries) \<Rightarrow> node_entries d malloc_ok fs cb entries out)
             })
        }) out"

definition extents_from_node ::
  "(nat \<Rightarrow> bool) \<Rightarrow> extfs \<Rightarrow> nat \<Rightarrow> nat \<Rightarrow> nat option \<Rightarrow> extent_list \<Rightarrow> (bool \<times> extent_list) option" where
  "extents_from_node malloc_ok fs node space expect_depth out =
     do {
       h \<leftarrow> node_header fs node space expect_depth;
       (case h of None \<Rightarrow> Some (False, out) | Some (depth, entries) \<Rightarrow> node_entries depth malloc_ok fs node entries out)
     }"

text \<open>The file blocks a hole covers at a level of the block map.\<close>

definition map_span :: "extfs \<Rightarrow> nat \<Rightarrow> nat" where
  "map_span fs level =
     (if level = 0 then 1
      else foldl (\<lambda>span l. u64 (span * (x_block_size fs div 4))) (x_block_size fs div 4) [1..<level])"

primrec blockmap_indirect ::
  "nat \<Rightarrow> (nat \<Rightarrow> bool) \<Rightarrow> extfs \<Rightarrow> nat \<Rightarrow> nat \<Rightarrow> nat \<times> extent_list \<Rightarrow> (bool \<times> nat \<times> extent_list) option" where
  "blockmap_indirect 0 malloc_ok fs remaining map_block lo =
     (case lo of (logical, out) \<Rightarrow>
        if remaining = 0 then Some (True, logical, out)
        else if map_block = 0 then Some (True, u64 (logical + map_span fs 0), out)
        else if x_block_count fs \<le> map_block then Some (False, logical, out)
        else (case extent_append malloc_ok logical map_block 1 out of (r, out) \<Rightarrow> Some (r, u64 (logical + 1), out)))"
| "blockmap_indirect (Suc level) malloc_ok fs remaining map_block lo =
     (case lo of (logical, out) \<Rightarrow>
        if remaining = 0 then Some (True, logical, out)
        else if map_block = 0 then Some (True, u64 (logical + map_span fs (Suc level)), out)
        else
          (case fs_block fs map_block of
             None \<Rightarrow> Some (False, logical, out)
           | Some blk \<Rightarrow>
               loop_ok (x_block_size fs div 4) 0
                 (\<lambda>i lo. if remaining \<le> fst lo then Some (True, lo)
                         else do {
                           b \<leftarrow> rd32 (x_image fs) (blk + i * 4);
                           blockmap_indirect level malloc_ok fs remaining (unat b) lo
                         }) (logical, out)))"

definition blockmap_collect ::
  "(nat \<Rightarrow> bool) \<Rightarrow> extfs \<Rightarrow> nat \<Rightarrow> nat \<Rightarrow> extent_list \<Rightarrow> (bool \<times> extent_list) option" where
  "blockmap_collect malloc_ok fs iblock file_blocks out =
     (if MAX_FILE_BLOCKS < file_blocks then Some (False, out)
      else do {
        let step = (\<lambda>level i lo. if file_blocks \<le> fst lo then Some (True, lo)
                     else do {
                       b \<leftarrow> rd32 (x_image fs) (iblock + i * 4);
                       blockmap_indirect level malloc_ok fs file_blocks (unat b) lo
                     });
        (ok, lo) \<leftarrow> loop_ok 12 0 (step 0) (0, out);
        if \<not> ok then Some (False, snd lo)
        else do {
          (ok, lo) \<leftarrow> loop_ok 3 1 (\<lambda>level. step level (11 + level)) lo;
          Some (ok, snd lo)
        }
      })"

text \<open>All mappings of an inode; the array is reused, so only its capacity comes in.\<close>

definition inode_extents :: "(nat \<Rightarrow> bool) \<Rightarrow> extfs \<Rightarrow> nat \<Rightarrow> nat \<Rightarrow> (bool \<times> extent_list) option" where
  "inode_extents malloc_ok fs ino cap =
     do {
       flags \<leftarrow> rd32 (x_image fs) (ino + INO_FLAGS);
       if flags AND IFLAG_INLINE_DATA \<noteq> 0 then Some (True, [], cap)
       else if flags AND IFLAG_EXTENTS \<noteq> 0
       then extents_from_node malloc_ok fs (ino + INO_BLOCK) INO_BLOCK_LEN None ([], cap)
       else do {
         mode \<leftarrow> rd16 (x_image fs) (ino + INO_MODE);
         sz \<leftarrow> inode_file_size fs ino mode;
         let file_blocks = u64 (sz + x_block_size fs - 1) div x_block_size fs;
         blockmap_collect malloc_ok fs (ino + INO_BLOCK) file_blocks ([], cap)
       }
     }"

section \<open>The directory walk\<close>

text \<open>
  The state of a walk: the bitmap of visited inodes, the stack of directories still to read (top
  first) with its capacity, the capacities of the two extent arrays, the caller's state, and
  whether the callback asked to stop or memory ran out.
\<close>

record 'u walk_state =
  w_visited :: bytes
  w_stack :: "(nat \<times> bytes) list"
  w_stack_cap :: nat
  w_dir_cap :: nat
  w_file_cap :: nat
  w_user :: 'u
  w_stopped :: bool
  w_oom :: bool

type_synonym 'u file_cb = "bytes \<Rightarrow> nat \<Rightarrow> nat \<Rightarrow> ext_extent list \<Rightarrow> 'u \<Rightarrow> bool \<times> 'u"

definition sizeof_dir_entry :: nat where "sizeof_dir_entry = 16"

definition dir_push :: "(nat \<Rightarrow> bool) \<Rightarrow> nat \<Rightarrow> bytes \<Rightarrow> 'u walk_state \<Rightarrow> bool \<times> 'u walk_state" where
  "dir_push malloc_ok ino path w =
     (let full = (length (w_stack w) = w_stack_cap w);
          cap = (if full then (if w_stack_cap w \<noteq> 0 then w_stack_cap w * 2 else 64) else w_stack_cap w)
      in
      if full \<and> \<not> malloc_ok (cap * sizeof_dir_entry) then (False, w)
      else if \<not> malloc_ok (length path + 1) then (False, w\<lparr>w_stack_cap := cap\<rparr>)
      else (True, w\<lparr>w_stack_cap := cap, w_stack := (ino, path) # w_stack w\<rparr>))"

definition path_depth :: "bytes \<Rightarrow> nat" where
  "path_depth p = length (filter (\<lambda>c. c = 0x2F) p)"

definition visited_test :: "bytes \<Rightarrow> nat \<Rightarrow> bool option" where
  "visited_test v ino =
     (if ino div 8 < length v then Some (v ! (ino div 8) AND push_bit (ino mod 8) 1 \<noteq> 0) else None)"

definition visited_set :: "bytes \<Rightarrow> nat \<Rightarrow> bytes option" where
  "visited_set v ino =
     (if ino div 8 < length v then Some (v[ino div 8 := v ! (ino div 8) OR push_bit (ino mod 8) 1]) else None)"

text \<open>A directory below: pushed once, unless it is too deep.\<close>

definition enter_dir :: "(nat \<Rightarrow> bool) \<Rightarrow> extfs \<Rightarrow> nat \<Rightarrow> bytes \<Rightarrow> 'u walk_state \<Rightarrow> 'u walk_state option" where
  "enter_dir malloc_ok fs ino path w =
     (if x_inodes_count fs < ino then Some w
      else do {
        seen \<leftarrow> visited_test (w_visited w) ino;
        if seen \<or> MAX_DIR_DEPTH < path_depth path then Some w
        else do {
          v \<leftarrow> visited_set (w_visited w) ino;
          (case dir_push malloc_ok ino path (w\<lparr>w_visited := v\<rparr>) of
             (ok, w) \<Rightarrow> Some (if ok then w else w\<lparr>w_oom := True\<rparr>))
        }
      })"

text \<open>A regular file: the callback gets its extents.\<close>

definition report_file ::
  "(nat \<Rightarrow> bool) \<Rightarrow> extfs \<Rightarrow> 'u file_cb \<Rightarrow> nat \<Rightarrow> bytes \<Rightarrow> 'u walk_state \<Rightarrow> 'u walk_state option" where
  "report_file malloc_ok fs cb ino path w =
     do {
       fi \<leftarrow> inode_ptr fs ino;
       (case fi of
          None \<Rightarrow> Some w
        | Some off \<Rightarrow> do {
            mode \<leftarrow> rd16 (x_image fs) (off + INO_MODE);
            if mode AND MODE_FMT_MASK \<noteq> MODE_REGULAR then Some w
            else do {
              (ok, ext, cap) \<leftarrow> inode_extents malloc_ok fs off (w_file_cap w);
              if \<not> ok then Some (w\<lparr>w_file_cap := cap\<rparr>)
              else do {
                fsize \<leftarrow> inode_file_size fs off mode;
                (case cb path ino fsize ext (w_user w) of
                   (stop, u) \<Rightarrow> Some (w\<lparr>w_file_cap := cap, w_user := u, w_stopped := w_stopped w \<or> stop\<rparr>))
              }
            }
          })
     }"

text \<open>The length of the name and the type of an entry; without type bytes, from the inode's mode.\<close>

definition dirent_kind :: "extfs \<Rightarrow> nat \<Rightarrow> nat \<Rightarrow> (nat \<times> nat) option" where
  "dirent_kind fs de ino =
     (if x_has_filetype fs
      then do {
        nl \<leftarrow> rd8 (x_image fs) (de + DE_NAME_LEN_OFF);
        ft \<leftarrow> rd8 (x_image fs) (de + DE_FILE_TYPE_OFF);
        Some (unat nl, unat ft)
      }
      else do {
        nl \<leftarrow> rd16 (x_image fs) (de + DE_NAME_LEN_OFF);
        ti \<leftarrow> inode_ptr fs ino;
        (case ti of
           None \<Rightarrow> Some (unat nl, DE_FT_UNKNOWN)
         | Some off \<Rightarrow> do {
             mode \<leftarrow> rd16 (x_image fs) (off + INO_MODE);
             Some (unat nl, if mode AND MODE_FMT_MASK = MODE_DIRECTORY then DE_FT_DIRECTORY
                            else if mode AND MODE_FMT_MASK = MODE_REGULAR then DE_FT_REGULAR
                            else DE_FT_UNKNOWN)
           })
      })"

definition dirent_entry ::
  "(nat \<Rightarrow> bool) \<Rightarrow> extfs \<Rightarrow> 'u file_cb \<Rightarrow> bytes \<Rightarrow> nat \<Rightarrow> nat \<Rightarrow> 'u walk_state \<Rightarrow> 'u walk_state option" where
  "dirent_entry malloc_ok fs cb dir_path de rec_len w =
     do {
       ino \<leftarrow> map_option unat (rd32 (x_image fs) (de + DE_INODE_OFF));
       (name_len, ftype) \<leftarrow> dirent_kind fs de ino;
       if ino \<noteq> 0 \<and> 0 < name_len \<and> DE_NAME_OFF + name_len \<le> rec_len
       then do {
         name \<leftarrow> rd_bytes (x_image fs) (de + DE_NAME_OFF) name_len;
         if name \<noteq> [0x2E] \<and> name \<noteq> [0x2E, 0x2E] \<and> 0x2F \<notin> set name \<and> 0 \<notin> set name \<and>
            length dir_path + 1 + name_len < MAX_PATH_LEN
         then
           (let path = dir_path @ [0x2F] @ name in
            if ftype = DE_FT_DIRECTORY then enter_dir malloc_ok fs ino path w
            else if ftype = DE_FT_REGULAR then report_file malloc_ok fs cb ino path w
            else Some w)
         else Some w
       }
       else Some w
     }"

text \<open>
  The entries of one directory block. The loop does not look at the stop flag: a callback that
  asked to stop is still called for the rest of the block.
\<close>

function dirent_loop ::
  "(nat \<Rightarrow> bool) \<Rightarrow> extfs \<Rightarrow> 'u file_cb \<Rightarrow> bytes \<Rightarrow> nat \<Rightarrow> nat \<Rightarrow> 'u walk_state \<Rightarrow> 'u walk_state option" where
  "dirent_loop malloc_ok fs cb dir_path blk pos w =
     (if pos + DE_NAME_OFF \<le> x_block_size fs
      then do {
        rec_len \<leftarrow> rd16 (x_image fs) (blk + pos + DE_REC_LEN_OFF);
        if unat rec_len < DE_NAME_OFF \<or> rec_len AND 3 \<noteq> 0 \<or> x_block_size fs < pos + unat rec_len then Some w
        else do {
          w \<leftarrow> dirent_entry malloc_ok fs cb dir_path (blk + pos) (unat rec_len) w;
          if w_oom w then Some w else dirent_loop malloc_ok fs cb dir_path blk (pos + unat rec_len) w
        }
      }
      else Some w)"
  by pat_completeness auto
termination
  by (relation "measure (\<lambda>(malloc_ok, fs, cb, dir_path, blk, pos, w). x_block_size fs - pos)")
    (auto simp: DE_NAME_OFF_def)

declare dirent_loop.simps [simp del]

primrec dir_blocks ::
  "nat \<Rightarrow> nat \<Rightarrow> (nat \<Rightarrow> bool) \<Rightarrow> extfs \<Rightarrow> 'u file_cb \<Rightarrow> bytes \<Rightarrow> nat \<Rightarrow> 'u walk_state \<Rightarrow> 'u walk_state option" where
  "dir_blocks 0 b malloc_ok fs cb dir_path physical w = Some w"
| "dir_blocks (Suc n) b malloc_ok fs cb dir_path physical w =
     (if w_stopped w \<or> w_oom w then Some w
      else do {
        w \<leftarrow> (case fs_block fs (u64 (physical + b)) of
                None \<Rightarrow> Some w
              | Some blk \<Rightarrow> dirent_loop malloc_ok fs cb dir_path blk 0 w);
        dir_blocks n (Suc b) malloc_ok fs cb dir_path physical w
      })"

primrec dir_extents ::
  "ext_extent list \<Rightarrow> (nat \<Rightarrow> bool) \<Rightarrow> extfs \<Rightarrow> 'u file_cb \<Rightarrow> bytes \<Rightarrow> 'u walk_state \<Rightarrow> 'u walk_state option" where
  "dir_extents [] malloc_ok fs cb dir_path w = Some w"
| "dir_extents (ext # exts) malloc_ok fs cb dir_path w =
     (if w_stopped w \<or> w_oom w then Some w
      else do {
        w \<leftarrow> dir_blocks (ex_count ext) 0 malloc_ok fs cb dir_path (ex_physical ext) w;
        dir_extents exts malloc_ok fs cb dir_path w
      })"

definition visit_dir ::
  "(nat \<Rightarrow> bool) \<Rightarrow> extfs \<Rightarrow> 'u file_cb \<Rightarrow> nat \<Rightarrow> bytes \<Rightarrow> 'u walk_state \<Rightarrow> 'u walk_state option" where
  "visit_dir malloc_ok fs cb ino path w =
     do {
       dino \<leftarrow> inode_ptr fs ino;
       (case dino of
          None \<Rightarrow> Some w
        | Some off \<Rightarrow> do {
            mode \<leftarrow> rd16 (x_image fs) (off + INO_MODE);
            if mode AND MODE_FMT_MASK \<noteq> MODE_DIRECTORY then Some w
            else do {
              (ok, ext, cap) \<leftarrow> inode_extents malloc_ok fs off (w_dir_cap w);
              let w = w\<lparr>w_dir_cap := cap\<rparr>;
              if \<not> ok then Some w else dir_extents ext malloc_ok fs cb path w
            }
          })
     }"

partial_function (option) walk_loop ::
  "(nat \<Rightarrow> bool) \<Rightarrow> extfs \<Rightarrow> 'u file_cb \<Rightarrow> 'u walk_state \<Rightarrow> 'u walk_state option" where
  "walk_loop malloc_ok fs cb w =
     (if w_stopped w \<or> w_oom w then Some w
      else
        (case w_stack w of
           [] \<Rightarrow> Some w
         | d # stack \<Rightarrow>
             Option.bind (visit_dir malloc_ok fs cb (fst d) (snd d) (w\<lparr>w_stack := stack\<rparr>))
               (walk_loop malloc_ok fs cb)))"

definition fsd_extfs_walk :: "(nat \<Rightarrow> bool) \<Rightarrow> extfs \<Rightarrow> 'u file_cb \<Rightarrow> 'u \<Rightarrow> (fsd_error \<times> 'u) option" where
  "fsd_extfs_walk malloc_ok fs cb user =
     (if \<not> malloc_ok (x_inodes_count fs div 8 + 1) \<or> \<not> malloc_ok MAX_PATH_LEN
      then Some (FSD_ERR_OUT_OF_MEMORY, user)
      else
        (case dir_push malloc_ok EXT_ROOT_INODE []
           \<lparr>w_visited = replicate (x_inodes_count fs div 8 + 1) 0, w_stack = [], w_stack_cap = 0, w_dir_cap = 0,
             w_file_cap = 0, w_user = user, w_stopped = False, w_oom = False\<rparr> of
           (ok, w) \<Rightarrow>
             if \<not> ok then Some (FSD_ERR_OUT_OF_MEMORY, user)
             else do {
               v \<leftarrow> visited_set (w_visited w) EXT_ROOT_INODE;
               w \<leftarrow> walk_loop malloc_ok fs cb (w\<lparr>w_visited := v\<rparr>);
               Some (if w_oom w then FSD_ERR_OUT_OF_MEMORY else FSD_SUCCESS, w_user w)
             }))"

section \<open>Computations that return\<close>

definition returns :: "('a \<Rightarrow> bool) \<Rightarrow> 'a option \<Rightarrow> bool" where
  "returns P x \<longleftrightarrow> (\<exists>r. x = Some r \<and> P r)"

lemma returns_Some [simp]: "returns P (Some x) \<longleftrightarrow> P x"
  by (simp add: returns_def)

lemma returns_bind: "returns Q x \<Longrightarrow> (\<And>r. Q r \<Longrightarrow> returns P (f r)) \<Longrightarrow> returns P (Option.bind x f)"
  by (auto simp: returns_def)

lemma returns_mono: "returns P x \<Longrightarrow> (\<And>r. P r \<Longrightarrow> Q r) \<Longrightarrow> returns Q x"
  by (auto simp: returns_def)

lemma returns_eq: "returns P x \<Longrightarrow> returns (\<lambda>r. P r \<and> x = Some r) x"
  by (auto simp: returns_def)

lemma returns_map: "returns (\<lambda>r. P (f r)) x \<Longrightarrow> returns P (map_option f x)"
  by (auto simp: returns_def)

lemma returns_rd [simp]:
  "returns (\<lambda>_. True) (rd16 img p) \<longleftrightarrow> p + 2 \<le> length img"
  "returns (\<lambda>_. True) (rd32 img p) \<longleftrightarrow> p + 4 \<le> length img"
  "returns (\<lambda>_. True) (rd8 img p) \<longleftrightarrow> p < length img"
  "returns (\<lambda>_. True) (rd_bytes img p n) \<longleftrightarrow> p + n \<le> length img"
  by (simp_all add: returns_def rd16_def rd32_def rd8_def rd_bytes_def)

lemma returns_loop:
  assumes "P s" and "\<And>j t. i \<le> j \<Longrightarrow> j < i + n \<Longrightarrow> P t \<Longrightarrow> returns (\<lambda>(ok, t'). P t') (body j t)"
  shows "returns (\<lambda>(ok, t). P t) (loop_ok n i body s)"
  using assms
proof (induction n arbitrary: i s)
  case (Suc n)
  have "returns (\<lambda>(ok, t'). P t') (body i s)" using Suc.prems by simp
  moreover have "returns (\<lambda>(ok, t). P t) (loop_ok n (Suc i) body t)" if "P t" for t
    by (rule Suc.IH[OF that]) (use Suc.prems(2) in auto)
  ultimately show ?case by (auto intro!: returns_bind)
qed simp

section \<open>A file system that was opened\<close>

definition fs_ok :: "extfs \<Rightarrow> bool" where
  "fs_ok fs \<longleftrightarrow> x_image_size fs = length (x_image fs) \<and> length (x_image fs) < 2 ^ 62 \<and>
     1024 \<le> x_block_size fs \<and> x_block_size fs \<le> 4096 \<and> 0 < x_block_count fs \<and>
     x_block_count fs * x_block_size fs \<le> length (x_image fs) \<and>
     128 \<le> x_inode_size fs \<and> x_inode_size fs \<le> 4096 \<and> 32 \<le> x_desc_size fs \<and>
     0 < x_inodes_per_group fs \<and> x_inodes_per_group fs < 2 ^ 32 \<and> x_inodes_count fs < 2 ^ 32 \<and> 0 < x_inodes_count fs \<and>
     x_inodes_count fs \<le> x_group_count fs * x_inodes_per_group fs \<and>
     x_gdt_start fs + x_group_count fs * x_desc_size fs \<le> length (x_image fs)"

text \<open>What the superblock fields can be, before the checks.\<close>

definition fields_ok :: "bytes \<Rightarrow> extfs \<Rightarrow> bool" where
  "fields_ok img fs \<longleftrightarrow> x_image fs = img \<and> x_image_size fs = length img \<and>
     1024 \<le> x_block_size fs \<and> x_block_size fs \<le> 4096 \<and> x_inodes_count fs < 2 ^ 32 \<and> x_inodes_per_group fs < 2 ^ 32"

lemma read_geometry_returns:
  assumes "2048 \<le> length img" and "log_bs \<le> 2"
  shows "returns (fields_ok img) (read_geometry img (length img) 1024 log_bs incompat rev_level)"
proof -
  have "unat log_bs \<le> 2" using assms(2) by (simp add: word_le_nat_alt)
  then have "unat log_bs = 0 \<or> unat log_bs = 1 \<or> unat log_bs = 2" by linarith
  then have bs: "(1024 :: nat) \<le> 1024 * 2 ^ unat log_bs" "(1024 :: nat) * 2 ^ unat log_bs \<le> 4096" by auto
  show ?thesis
    unfolding read_geometry_def
    by (intro returns_bind[where Q = "\<lambda>_. True"])
      (use bs assms(1) in \<open>auto simp: ext_layout fields_ok_def intro!: returns_map\<close>)
qed

lemma check_geometry_ok:
  assumes "fields_ok img fs" and "length img < 2 ^ 62" and "check_geometry fs = Inr fs'"
  shows "fs_ok fs' \<and> x_image fs' = img"
proof -
  have "x_block_count fs \<le> length img div x_block_size fs"
    using assms(1,3) by (auto simp: check_geometry_def fields_ok_def Let_def split: if_splits)
  then have "x_block_count fs * x_block_size fs \<le> length img div x_block_size fs * x_block_size fs" by (rule mult_le_mono1)
  also have "\<dots> \<le> length img" by simp
  finally show ?thesis
    using assms by (auto simp: check_geometry_def fields_ok_def fs_ok_def INO_MIN_SIZE_def GD_SIZE_32_def Let_def not_less split: if_splits)
qed

text \<open>Probing an image reads only the superblock, which it has checked to be there.\<close>

definition open_result :: "bytes \<Rightarrow> (fsd_error \<times> string) + extfs \<Rightarrow> bool" where
  "open_result img r =
     (case r of Inl (e, msg) \<Rightarrow> e \<in> {FSD_ERR_BAD_MAGIC, FSD_ERR_CORRUPT_DATA, FSD_ERR_OUT_OF_MEMORY}
      | Inr fs \<Rightarrow> fs_ok fs \<and> x_image fs = img)"

lemma open_result_simps [simp]:
  "open_result img (Inl (e, msg)) \<longleftrightarrow> e \<in> {FSD_ERR_BAD_MAGIC, FSD_ERR_CORRUPT_DATA, FSD_ERR_OUT_OF_MEMORY}"
  "open_result img (Inr fs) \<longleftrightarrow> fs_ok fs \<and> x_image fs = img"
  by (simp_all add: open_result_def)

lemma open_returns:
  assumes "length img < 2 ^ 62"
  shows "returns (open_result img) (fsd_extfs_open c img (length img))"
proof (cases "length img < EXT_SB_OFFSET + 1024")
  case False
  then have len: "2048 \<le> length img" by (simp add: EXT_SB_OFFSET_def)
  have fin: "open_result img (check_geometry fs)" if "fields_ok img fs" for fs
  proof (cases "check_geometry fs")
    case (Inl a)
    then show ?thesis by (auto simp: check_geometry_def open_result_def Let_def split: if_splits)
  qed (use check_geometry_ok[OF that assms] in auto)
  have geo: "returns (\<lambda>r. open_result img (check_geometry r)) (read_geometry img (length img) 1024 log_bs incompat rev_level)"
    if "\<not> 2 < log_bs" for log_bs incompat rev_level
    by (rule returns_mono[OF read_geometry_returns[OF len] fin]) (use that in \<open>simp_all add: not_less\<close>)
  show ?thesis
    using False len unfolding fsd_extfs_open_def Let_def
    by (auto simp: ext_layout intro!: returns_bind[where Q = "\<lambda>_. True"] returns_map geo)
qed (simp add: fsd_extfs_open_def)

section \<open>Blocks and inodes are inside the image\<close>

lemma fs_block_inside:
  assumes "fs_ok fs" and "fs_block fs b = Some off"
  shows "off + x_block_size fs \<le> length (x_image fs)" "0 < b" "b < x_block_count fs"
proof -
  have b: "0 < b" "b < x_block_count fs" using assms(2) by (auto simp: fs_block_def Let_def split: if_splits)
  then show "0 < b" "b < x_block_count fs" .
  have "(b + 1) * x_block_size fs \<le> x_block_count fs * x_block_size fs" using b by (intro mult_le_mono1) simp
  then have le: "b * x_block_size fs + x_block_size fs \<le> length (x_image fs)" using assms(1) by (simp add: fs_ok_def)
  then have "b * x_block_size fs + x_block_size fs < 2 ^ 64" using assms(1) by (simp add: fs_ok_def)
  then have "off = b * x_block_size fs"
    using assms(2) b by (simp add: fs_block_def u64_id Let_def split: if_splits)
  then show "off + x_block_size fs \<le> length (x_image fs)" using le by simp
qed

lemma inode_ptr_returns:
  assumes "fs_ok fs"
  shows "returns (\<lambda>r. \<forall>off. r = Some off \<longrightarrow> off + 128 \<le> length (x_image fs)) (inode_ptr fs ino)"
proof (cases "ino = 0 \<or> x_inodes_count fs < ino")
  case False
  let ?ipg = "x_inodes_per_group fs" and ?bs = "x_block_size fs"
  define group within gd where "group = (ino - 1) div ?ipg" and "within = (ino - 1) mod ?ipg"
    and "gd = x_gdt_start fs + group * x_desc_size fs"
  have f: "0 < ?ipg" "?ipg < 2 ^ 32" "x_inodes_count fs \<le> x_group_count fs * ?ipg" "32 \<le> x_desc_size fs"
    "x_gdt_start fs + x_group_count fs * x_desc_size fs \<le> length (x_image fs)" "x_image_size fs = length (x_image fs)"
    "length (x_image fs) < 2 ^ 62" "128 \<le> x_inode_size fs" "x_inode_size fs \<le> 4096"
    "x_block_count fs * ?bs \<le> length (x_image fs)"
    using assms by (simp_all add: fs_ok_def)
  have "ino - 1 < x_group_count fs * ?ipg" using False f(3) by linarith
  then have "group < x_group_count fs" unfolding group_def using f(1) by (simp add: less_mult_imp_div_less)
  then have "(group + 1) * x_desc_size fs \<le> x_group_count fs * x_desc_size fs" by (intro mult_le_mono1) simp
  then have gd: "gd + x_desc_size fs \<le> length (x_image fs)" using f(5) by (simp add: gd_def)
  have w: "within * x_inode_size fs < 2 ^ 32 * 4096"
  proof -
    have "within < 2 ^ 32" using f(1,2) mod_less_divisor[OF f(1), of "ino - 1"] by (simp add: within_def)
    then have "within * x_inode_size fs \<le> within * 4096" using f(9) by simp
    also have "\<dots> < 2 ^ 32 * 4096" using \<open>within < 2 ^ 32\<close> by simp
    finally show ?thesis .
  qed
  have table: "u64 (table * ?bs + within * x_inode_size fs) + 128 \<le> length (x_image fs)"
    if "\<not> (table = 0 \<or> x_block_count fs \<le> table \<or>
        x_image_size fs < u64 (u64 (table * ?bs + within * x_inode_size fs) + x_inode_size fs))" for table
  proof -
    have "table * ?bs \<le> x_block_count fs * ?bs" using that by (intro mult_le_mono1) simp
    then have "table * ?bs < 2 ^ 62" using f(7,10) by linarith
    then have "u64 (table * ?bs + within * x_inode_size fs) = table * ?bs + within * x_inode_size fs"
      and "u64 (table * ?bs + within * x_inode_size fs + x_inode_size fs) = table * ?bs + within * x_inode_size fs + x_inode_size fs"
      using w f(9) by (simp_all add: u64_id)
    then show ?thesis using that f(6,8) by simp
  qed
  have r: "returns (\<lambda>_. True) (rd32 (x_image fs) (gd + GD_INODE_TABLE_LO))"
    "returns (\<lambda>_. True) (if GD_INODE_TABLE_HI + 4 \<le> x_desc_size fs then rd32 (x_image fs) (gd + GD_INODE_TABLE_HI) else Some 0)"
    using gd f(4) by (auto simp: GD_INODE_TABLE_LO_def GD_INODE_TABLE_HI_def)
  show ?thesis
    using False r table unfolding inode_ptr_def Let_def group_def [symmetric] within_def [symmetric] gd_def [symmetric]
    by (auto intro!: returns_bind[where Q = "\<lambda>_. True"])
qed (simp add: inode_ptr_def)

lemma inode_file_size_returns:
  assumes "ino + 128 \<le> length (x_image fs)"
  shows "returns (\<lambda>_. True) (inode_file_size fs ino mode)"
  unfolding inode_file_size_def
  by (intro returns_bind[where Q = "\<lambda>_. True"]) (use assms in \<open>auto simp: ext_layout\<close>)

section \<open>Extents lie inside the file system\<close>

definition extent_ok :: "extfs \<Rightarrow> ext_extent \<Rightarrow> bool" where
  "extent_ok fs e \<longleftrightarrow> 0 < ex_physical e \<and> 0 < ex_count e \<and> ex_physical e + ex_count e \<le> x_block_count fs \<and>
     ex_logical e < 2 ^ 32"

definition extents_ok :: "extfs \<Rightarrow> ext_extent list \<Rightarrow> bool" where
  "extents_ok fs v \<longleftrightarrow> list_all (extent_ok fs) v \<and> length v \<le> MAX_EXTENTS_PER_FILE"

lemma extent_append_ok:
  assumes "extents_ok fs (fst lst)" and "logical < 2 ^ 32" and "0 < physical" and "physical + count \<le> x_block_count fs"
  shows "extents_ok fs (fst (snd (extent_append malloc_ok logical physical count lst)))"
proof -
  obtain v cap where lst: "lst = (v, cap)" by fastforce
  have ok: "list_all (extent_ok fs) v" "length v \<le> MAX_EXTENTS_PER_FILE" using assms(1) lst by (simp_all add: extents_ok_def)
  have "extents_ok fs (butlast v @ [(last v)\<lparr>ex_count := ex_count (last v) + count\<rparr>])"
    if "v \<noteq> []" "ex_physical (last v) + ex_count (last v) = physical"
  proof -
    have "v = butlast v @ [last v]" using that(1) by simp
    then have "list_all (extent_ok fs) (butlast v)" "extent_ok fs (last v)"
      using ok(1) by (metis list_all_append list.pred_inject(2))+
    then show ?thesis using that ok(2) assms(4) by (simp add: extents_ok_def extent_ok_def)
  qed
  then show ?thesis
    using ok assms(2-4) lst by (auto simp: extent_append_def extents_ok_def extent_ok_def Let_def)
qed

lemma leaf_entry_returns:
  assumes "entry + 12 \<le> length (x_image fs)" and "extents_ok fs (fst out)"
  shows "returns (\<lambda>(ok, out). extents_ok fs (fst out)) (leaf_entry malloc_ok fs entry out)"
proof -
  have "extents_ok fs (fst (snd (extent_append malloc_ok (unat (blk :: 32 word)) phys len out)))"
    if "\<not> (phys = 0 \<or> x_block_count fs < phys + len)" for blk phys len
    using that assms(2) by (intro extent_append_ok) simp_all
  then show ?thesis
    using assms unfolding leaf_entry_def Let_def
    by (auto simp: ext_layout case_prod_beta intro!: returns_bind[where Q = "\<lambda>_. True"] returns_map)
qed

lemma node_header_returns:
  assumes "node + space \<le> length (x_image fs)"
  shows "returns (\<lambda>h. \<forall>d n. h = Some (d, n) \<longrightarrow> (\<forall>e. expect = Some e \<longrightarrow> d = e) \<and> EH_SIZE + n * EXT_ENTRY_SIZE \<le> space)
    (node_header fs node space expect)"
proof (cases "space < EH_SIZE")
  case False
  then show ?thesis
    using assms unfolding node_header_def
    by (auto simp: EH_MAGIC_OFF_def EH_ENTRIES_OFF_def EH_DEPTH_OFF_def EH_SIZE_def not_less
        intro!: returns_bind[where Q = "\<lambda>_. True"] returns_map split: option.splits)
qed (simp add: node_header_def)

lemma node_entries_returns:
  assumes "fs_ok fs"
  shows "node + EH_SIZE + n * EXT_ENTRY_SIZE \<le> length (x_image fs) \<Longrightarrow> extents_ok fs (fst out) \<Longrightarrow>
    returns (\<lambda>(ok, out). extents_ok fs (fst out)) (node_entries d malloc_ok fs node n out)"
proof (induction d arbitrary: node n out)
  case 0
  have "node + EH_SIZE + i * EXT_ENTRY_SIZE + 12 \<le> length (x_image fs)" if "i < n" for i
  proof -
    have "(i + 1) * EXT_ENTRY_SIZE \<le> n * EXT_ENTRY_SIZE" using that by (intro mult_le_mono1) simp
    then show ?thesis using 0(1) by (simp add: EXT_ENTRY_SIZE_def)
  qed
  then show ?case using 0(2) by (auto intro!: returns_loop leaf_entry_returns)
next
  case (Suc d)
  have step: "returns (\<lambda>(ok, out). extents_ok fs (fst out))
      (Option.bind (rd32 (x_image fs) (node + EH_SIZE + i * EXT_ENTRY_SIZE + EI_LEAF_LO_OFF)) (\<lambda>lo.
       Option.bind (rd16 (x_image fs) (node + EH_SIZE + i * EXT_ENTRY_SIZE + EI_LEAF_HI_OFF)) (\<lambda>hi.
         case fs_block fs (join32 lo hi) of None \<Rightarrow> Some (False, out)
         | Some cb \<Rightarrow> Option.bind (node_header fs cb (x_block_size fs) (Some d)) (\<lambda>h.
             case h of None \<Rightarrow> Some (False, out) | Some (depth, n) \<Rightarrow> node_entries d malloc_ok fs cb n out))))"
    if i: "i < n" and out: "extents_ok fs (fst out)" for i out
  proof -
    have "(i + 1) * EXT_ENTRY_SIZE \<le> n * EXT_ENTRY_SIZE" using i by (intro mult_le_mono1) simp
    then have "node + EH_SIZE + i * EXT_ENTRY_SIZE + 12 \<le> length (x_image fs)"
      using Suc.prems(1) by (simp add: EXT_ENTRY_SIZE_def)
    then have r: "returns (\<lambda>_. True) (rd32 (x_image fs) (node + EH_SIZE + i * EXT_ENTRY_SIZE + EI_LEAF_LO_OFF))"
      "returns (\<lambda>_. True) (rd16 (x_image fs) (node + EH_SIZE + i * EXT_ENTRY_SIZE + EI_LEAF_HI_OFF))"
      by (simp_all add: EI_LEAF_LO_OFF_def EI_LEAF_HI_OFF_def)
    have child: "returns (\<lambda>(ok, out). extents_ok fs (fst out))
        (Option.bind (node_header fs cb (x_block_size fs) (Some d)) (\<lambda>h.
             case h of None \<Rightarrow> Some (False, out) | Some (depth, n) \<Rightarrow> node_entries d malloc_ok fs cb n out))"
      if "fs_block fs b = Some cb" for b cb
    proof (rule returns_bind[OF node_header_returns[OF fs_block_inside(1)[OF assms that]]], goal_cases)
      case (1 h)
      show ?case
      proof (cases h)
        case (Some dn)
        obtain d' n' where dn: "dn = (d', n')" by fastforce
        with 1 Some have "d' = d" by blast
        with Some dn have "h = Some (d, n')" by simp
        then have "cb + EH_SIZE + n' * EXT_ENTRY_SIZE \<le> length (x_image fs)"
          using 1 fs_block_inside(1)[OF assms that] by simp
        from Suc.IH[OF this out] show ?thesis using \<open>h = Some (d, n')\<close> by simp
      qed (use out in simp)
    qed
    show ?thesis
      by (rule returns_bind[OF r(1)], rule returns_bind[OF r(2)]) (use out child in \<open>auto split: option.split\<close>)
  qed
  show ?case
    unfolding node_entries.simps Let_def
    by (rule returns_loop[where P = "\<lambda>out. extents_ok fs (fst out)", OF Suc.prems(2)]) (use step in simp)
qed

lemma extents_from_node_returns:
  assumes "fs_ok fs" and "node + space \<le> length (x_image fs)" and "extents_ok fs (fst out)"
  shows "returns (\<lambda>(ok, out). extents_ok fs (fst out)) (extents_from_node malloc_ok fs node space expect out)"
  unfolding extents_from_node_def
proof (rule returns_bind[OF node_header_returns[OF assms(2)]], goal_cases)
  case (1 h)
  show ?case
  proof (cases h)
    case (Some dn)
    then obtain d n where h: "h = Some (d, n)" by (cases dn) auto
    then have "node + EH_SIZE + n * EXT_ENTRY_SIZE \<le> length (x_image fs)" using 1 assms(2) by fastforce
    then show ?thesis using h node_entries_returns[OF assms(1) _ assms(3)] by simp
  qed (use assms(3) in simp)
qed

text \<open>
  The block map: an entry is recorded only at a logical block below the number of file blocks,
  which is at most \<^verbatim>\<open>2 ^ 32\<close>.
\<close>

lemma blockmap_indirect_returns:
  assumes "fs_ok fs" and "remaining \<le> 2 ^ 32"
  shows "fst lo < remaining \<Longrightarrow> extents_ok fs (fst (snd lo)) \<Longrightarrow>
    returns (\<lambda>(ok, lo). extents_ok fs (fst (snd lo))) (blockmap_indirect level malloc_ok fs remaining map_block lo)"
proof (induction level arbitrary: map_block lo)
  case 0
  obtain logical out where lo: "lo = (logical, out)" by (metis prod.collapse)
  obtain r out' where a: "extent_append malloc_ok logical map_block 1 out = (r, out')" by (metis prod.collapse)
  have "extents_ok fs (fst out')" if "map_block \<noteq> 0" "map_block < x_block_count fs"
    using extent_append_ok[of fs out logical map_block 1 malloc_ok] 0 lo a that assms(2) by simp
  then show ?case using 0 lo a by simp
next
  case (Suc level)
  obtain logical out where lo: "lo = (logical, out)" by (metis prod.collapse)
  show ?case
  proof (cases "fs_block fs map_block")
    case (Some blk)
    have in_blk: "blk + i * 4 + 4 \<le> length (x_image fs)" if "i < x_block_size fs div 4" for i
    proof -
      have "(i + 1) * 4 \<le> x_block_size fs div 4 * 4" using that by (intro mult_le_mono1) simp
      also have "\<dots> \<le> x_block_size fs" by simp
      finally show ?thesis using fs_block_inside(1)[OF assms(1) Some] by simp
    qed
    have "returns (\<lambda>(ok, lo). extents_ok fs (fst (snd lo)))
        (loop_ok (x_block_size fs div 4) 0 (\<lambda>i lo. if remaining \<le> fst lo then Some (True, lo)
           else Option.bind (rd32 (x_image fs) (blk + i * 4)) (\<lambda>b. blockmap_indirect level malloc_ok fs remaining (unat b) lo))
          (logical, out))"
    proof (rule returns_loop[where P = "\<lambda>lo. extents_ok fs (fst (snd lo))"], goal_cases)
      case (2 j lo)
      then show ?case
        using in_blk[of j] Suc.IH[of lo] by (auto intro!: returns_bind[where Q = "\<lambda>_. True"])
    qed (use Suc.prems lo in simp)
    then show ?thesis using Suc.prems lo Some by simp
  qed (use Suc.prems lo in simp)
qed

lemma blockmap_collect_returns:
  assumes "fs_ok fs" and "iblock + 60 \<le> length (x_image fs)" and "extents_ok fs (fst out)"
  shows "returns (\<lambda>(ok, out). extents_ok fs (fst out)) (blockmap_collect malloc_ok fs iblock file_blocks out)"
proof (cases "MAX_FILE_BLOCKS < file_blocks")
  case False
  then have le: "file_blocks \<le> 2 ^ 32" by (simp add: MAX_FILE_BLOCKS_def)
  let ?P = "\<lambda>lo. extents_ok fs (fst (snd lo))"
  let ?step = "\<lambda>level i lo. if file_blocks \<le> fst lo then Some (True, lo)
      else Option.bind (rd32 (x_image fs) (iblock + i * 4)) (\<lambda>b. blockmap_indirect level malloc_ok fs file_blocks (unat b) lo)"
  have step: "returns (\<lambda>(ok, lo). ?P lo) (?step level i lo)" if "?P lo" "i \<le> 14" for level i lo
    using that assms(2) blockmap_indirect_returns[OF assms(1) le, of lo] by (auto intro!: returns_bind[where Q = "\<lambda>_. True"])
  have direct: "returns (\<lambda>(ok, lo). ?P lo) (loop_ok 12 0 (?step 0) (0, out))"
    by (rule returns_loop[where P = ?P]) (use assms(3) step in simp_all)
  have indirect: "returns (\<lambda>(ok, lo). ?P lo) (loop_ok 3 (Suc 0) (\<lambda>level. ?step level (11 + level)) lo)" if "?P lo" for lo
    by (rule returns_loop[where P = ?P, OF that]) (rule step, simp_all)
  show ?thesis
    using False unfolding blockmap_collect_def Let_def
    by (auto intro!: returns_bind[OF direct] returns_bind[OF indirect])
qed (use assms(3) in \<open>simp add: blockmap_collect_def\<close>)

lemma inode_extents_returns:
  assumes "fs_ok fs" and "ino + 128 \<le> length (x_image fs)"
  shows "returns (\<lambda>(ok, out). extents_ok fs (fst out)) (inode_extents malloc_ok fs ino cap)"
proof -
  have empty: "extents_ok fs (fst ([], cap))" by (simp add: extents_ok_def)
  have "ino + INO_BLOCK + 60 \<le> length (x_image fs)" "ino + INO_BLOCK + INO_BLOCK_LEN \<le> length (x_image fs)"
    using assms(2) by (simp_all add: INO_BLOCK_def INO_BLOCK_LEN_def)
  note tree = extents_from_node_returns[OF assms(1) this(2) empty] and map = blockmap_collect_returns[OF assms(1) this(1) empty]
  show ?thesis
    using assms(2) empty tree map unfolding inode_extents_def Let_def
    by (auto simp: INO_FLAGS_def INO_MODE_def
        intro!: returns_bind[where Q = "\<lambda>_. True"] returns_bind[OF inode_file_size_returns])
qed

section \<open>The walk stays in bounds and ends\<close>

text \<open>The number of inodes the bitmap does not mark, and the work left: each push marks one more.\<close>

definition unvisited :: "bytes \<Rightarrow> nat set" where
  "unvisited v = {i. i div 8 < length v \<and> \<not> bit (v ! (i div 8)) (i mod 8)}"

lemma finite_unvisited [simp]: "finite (unvisited v)"
  by (rule finite_subset[of _ "{..<8 * length v}"]) (auto simp: unvisited_def)

definition work_left :: "'u walk_state \<Rightarrow> nat" where
  "work_left w = length (w_stack w) + card (unvisited (w_visited w))"

lemma visited_set_cases:
  assumes "i div 8 < length v"
  shows "returns (\<lambda>v'. length v' = length v \<and> unvisited v' = unvisited v - {i}) (visited_set v i)"
proof -
  let ?v = "v[i div 8 := v ! (i div 8) OR push_bit (i mod 8) 1]"
  have "bit (?v ! (j div 8)) (j mod 8) \<longleftrightarrow> j = i \<or> bit (v ! (j div 8)) (j mod 8)" for j
  proof (cases "j div 8 = i div 8")
    case True
    have "j mod 8 = i mod 8 \<longleftrightarrow> j = i" using True by (metis div_mult_mod_eq)
    moreover have "bit (push_bit (i mod 8) 1 :: byte) (j mod 8) \<longleftrightarrow> j mod 8 = i mod 8"
      by (auto simp: bit_exp_iff)
    ultimately show ?thesis using True assms by (auto simp: bit_or_iff)
  qed auto
  then have "unvisited ?v = unvisited v - {i}" by (auto simp: unvisited_def)
  then show ?thesis using assms by (simp add: visited_set_def)
qed

lemma visited_test_iff: "i div 8 < length v \<Longrightarrow> visited_test v i = Some (i \<notin> unvisited v)"
  by (simp add: visited_test_def unvisited_def bit_iff_and_push_bit_not_eq_0)

text \<open>
  What the paths of a file system are: the root directory has the empty path, and an entry of a
  directory block appends its name.
\<close>

definition maps_to :: "extfs \<Rightarrow> nat \<Rightarrow> ext_extent list \<Rightarrow> bool" where
  "maps_to fs ino exts \<longleftrightarrow> (\<exists>malloc_ok off cap cap'. inode_ptr fs ino = Some (Some off) \<and>
     inode_extents malloc_ok fs off cap = Some (True, exts, cap'))"

lemma maps_toI: "inode_ptr fs ino = Some (Some off) \<Longrightarrow> inode_extents m fs off c = Some (True, exts, c') \<Longrightarrow> maps_to fs ino exts"
  unfolding maps_to_def by blast

definition dir_block :: "extfs \<Rightarrow> nat \<Rightarrow> nat \<Rightarrow> bool" where
  "dir_block fs ino blk \<longleftrightarrow> (\<exists>exts x k. maps_to fs ino exts \<and> x \<in> set exts \<and> k < ex_count x \<and>
     fs_block fs (u64 (ex_physical x + k)) = Some blk)"

definition block_entry :: "extfs \<Rightarrow> nat \<Rightarrow> bytes \<Rightarrow> nat \<Rightarrow> bool" where
  "block_entry fs blk name ino \<longleftrightarrow> (\<exists>pos. pos + DE_NAME_OFF + length name \<le> x_block_size fs \<and>
     map_option unat (rd32 (x_image fs) (blk + pos + DE_INODE_OFF)) = Some ino \<and>
     rd_bytes (x_image fs) (blk + pos + DE_NAME_OFF) (length name) = Some name)"

inductive names :: "extfs \<Rightarrow> bytes \<Rightarrow> nat \<Rightarrow> bool" for fs where
  names_root: "names fs [] EXT_ROOT_INODE"
| names_entry: "names fs path d \<Longrightarrow> dir_block fs d blk \<Longrightarrow> block_entry fs blk name ino \<Longrightarrow> names fs (path @ [0x2F] @ name) ino"

text \<open>
  The invariant of a walk: the bitmap has its size, the stack holds directories under their paths,
  and a property \<^verbatim>\<open>P\<close> of the caller's state holds
  that the callback keeps whenever it is given a path of the file system with the valid extents of the
  inode it names.
\<close>

definition keeps :: "extfs \<Rightarrow> ('u \<Rightarrow> bool) \<Rightarrow> 'u file_cb \<Rightarrow> bool" where
  "keeps fs P cb \<longleftrightarrow> (\<forall>path ino fsize ext u. P u \<longrightarrow> extents_ok fs ext \<longrightarrow> names fs path ino \<longrightarrow> maps_to fs ino ext \<longrightarrow>
     P (snd (cb path ino fsize ext u)))"

definition walk_inv :: "extfs \<Rightarrow> ('u \<Rightarrow> bool) \<Rightarrow> 'u walk_state \<Rightarrow> bool" where
  "walk_inv fs P w \<longleftrightarrow> length (w_visited w) = x_inodes_count fs div 8 + 1 \<and>
     list_all (\<lambda>(ino, path). names fs path ino) (w_stack w) \<and> P (w_user w)"

definition walk_step_ok :: "extfs \<Rightarrow> ('u \<Rightarrow> bool) \<Rightarrow> 'u walk_state \<Rightarrow> 'u walk_state \<Rightarrow> bool" where
  "walk_step_ok fs P w w' \<longleftrightarrow> walk_inv fs P w' \<and> work_left w' \<le> work_left w"

lemma walk_step_ok_refl: "walk_inv fs P w \<Longrightarrow> walk_step_ok fs P w w"
  by (simp add: walk_step_ok_def)

lemma walk_step_ok_trans: "walk_step_ok fs P w w' \<Longrightarrow> walk_step_ok fs P w' w'' \<Longrightarrow> walk_step_ok fs P w w''"
  by (simp add: walk_step_ok_def)

lemma returns_then:
  assumes "returns (walk_step_ok fs P w) x" and "\<And>w'. walk_inv fs P w' \<Longrightarrow> returns (walk_step_ok fs P w') (f w')"
  shows "returns (walk_step_ok fs P w) (Option.bind x f)"
  using assms walk_step_ok_trans by (auto simp: returns_def walk_step_ok_def) fastforce

lemma dir_push_cases:
  obtains c where "dir_push malloc_ok ino path w = (False, w\<lparr>w_stack_cap := c\<rparr>)"
  | c where "dir_push malloc_ok ino path w = (True, w\<lparr>w_stack_cap := c, w_stack := (ino, path) # w_stack w\<rparr>)"
proof -
  let ?full = "length (w_stack w) = w_stack_cap w"
  let ?cap = "if ?full then (if w_stack_cap w \<noteq> 0 then w_stack_cap w * 2 else 64) else w_stack_cap w"
  consider "?full \<and> \<not> malloc_ok (?cap * sizeof_dir_entry)" | "\<not> (?full \<and> \<not> malloc_ok (?cap * sizeof_dir_entry))" "\<not> malloc_ok (length path + 1)"
    | "\<not> (?full \<and> \<not> malloc_ok (?cap * sizeof_dir_entry))" "malloc_ok (length path + 1)" by blast
  then show thesis
  proof cases
    case 1
    then have "dir_push malloc_ok ino path w = (False, w)"
      by (auto simp: dir_push_def Let_def)
    then show thesis using that(1)[of "w_stack_cap w"] by simp
  next
    case 2
    then have "dir_push malloc_ok ino path w = (False, w\<lparr>w_stack_cap := ?cap\<rparr>)"
      unfolding dir_push_def Let_def by (simp only: if_False simp_thms if_True)
    then show thesis by (rule that(1))
  next
    case 3
    then have "dir_push malloc_ok ino path w = (True, w\<lparr>w_stack_cap := ?cap, w_stack := (ino, path) # w_stack w\<rparr>)"
      unfolding dir_push_def Let_def by (simp only: if_False simp_thms if_True)
    then show thesis by (rule that(2))
  qed
qed

lemma enter_dir_returns:
  assumes "walk_inv fs P w" and "names fs path ino"
  shows "returns (walk_step_ok fs P w) (enter_dir malloc_ok fs ino path w)"
proof (cases "x_inodes_count fs < ino")
  case False
  then have in_map: "ino div 8 < length (w_visited w)" using assms(1) by (simp add: walk_inv_def div_le_mono)
  show ?thesis
  proof (cases "ino \<in> unvisited (w_visited w) \<and> \<not> MAX_DIR_DEPTH < path_depth path")
    case True
    obtain v where v: "visited_set (w_visited w) ino = Some v" "length v = length (w_visited w)"
        "unvisited v = unvisited (w_visited w) - {ino}"
      using visited_set_cases[OF in_map] by (auto simp: returns_def)
    have "card (unvisited v) + 1 = card (unvisited (w_visited w))"
      unfolding v(3) using True by (metis Suc_eq_plus1 card_Suc_Diff1 finite_unvisited)
    then show ?thesis
      using False True v assms visited_test_iff[OF in_map]
      by (cases malloc_ok ino path "w\<lparr>w_visited := v\<rparr>" rule: dir_push_cases)
        (auto simp: enter_dir_def walk_step_ok_def walk_inv_def work_left_def)
  next
    case nope: False
    then show ?thesis
      using False visited_test_iff[OF in_map] walk_step_ok_refl[OF assms(1)] by (auto simp: enter_dir_def)
  qed
qed (use walk_step_ok_refl[OF assms(1)] in \<open>simp add: enter_dir_def\<close>)

lemma report_file_returns:
  assumes "fs_ok fs" and "keeps fs P cb" and "walk_inv fs P w" and "names fs path ino"
  shows "returns (walk_step_ok fs P w) (report_file malloc_ok fs cb ino path w)"
  unfolding report_file_def
proof (rule returns_bind[OF returns_eq[OF inode_ptr_returns[OF assms(1)]]], goal_cases)
  case (1 fi)
  note refl = walk_step_ok_refl[OF assms(3)]
  show ?case
  proof (cases fi)
    case (Some off)
    then have off: "off + 128 \<le> length (x_image fs)" using 1 by simp
    have rep: "returns (walk_step_ok fs P w) (Option.bind (inode_extents malloc_ok fs off (w_file_cap w))
        (\<lambda>(ok, ext, cap). if \<not> ok then Some (w\<lparr>w_file_cap := cap\<rparr>)
          else Option.bind (inode_file_size fs off mode) (\<lambda>fsize. case cb path ino fsize ext (w_user w) of
            (stop, u) \<Rightarrow> Some (w\<lparr>w_file_cap := cap, w_user := u, w_stopped := w_stopped w \<or> stop\<rparr>))))" for mode
    proof (rule returns_bind[OF returns_eq[OF inode_extents_returns[OF assms(1) off]]], goal_cases)
      case (1 r)
      obtain ok ext cap where r: "r = (ok, ext, cap)" by (metis prod_cases3)
      have "extents_ok fs ext" using 1 r by simp
      moreover have "maps_to fs ino ext" if ok
        by (rule maps_toI) (use 1 r that Some \<open>_ \<and> inode_ptr fs ino = Some fi\<close> in auto)
      ultimately have "P (snd (cb path ino fsize ext (w_user w)))" if ok for fsize
        using assms(2-4) that by (simp add: keeps_def walk_inv_def)
      then show ?case
        using r assms(3) by (auto simp: walk_step_ok_def walk_inv_def work_left_def case_prod_beta
            intro!: returns_bind[OF inode_file_size_returns[OF off]])
    qed
    show ?thesis
      using Some off refl rep by (auto simp: INO_MODE_def intro!: returns_bind[where Q = "\<lambda>_. True"])
  qed (use refl in simp)
qed

lemma dirent_kind_returns:
  assumes "fs_ok fs" and "de + DE_NAME_OFF \<le> length (x_image fs)"
  shows "returns (\<lambda>_. True) (dirent_kind fs de ino)"
proof (cases "x_has_filetype fs")
  case True
  then show ?thesis
    using assms(2) unfolding dirent_kind_def by (auto simp: ext_layout intro!: returns_bind[where Q = "\<lambda>_. True"])
next
  case False
  have "returns (\<lambda>_. True) (case ti of None \<Rightarrow> Some (nl, DE_FT_UNKNOWN)
      | Some off \<Rightarrow> Option.bind (rd16 (x_image fs) (off + INO_MODE)) (\<lambda>mode. Some (nl, k mode)))"
    if "\<forall>off. ti = Some off \<longrightarrow> off + 128 \<le> length (x_image fs)" for ti nl and k :: "32 word \<Rightarrow> nat"
    using that by (cases ti) (auto simp: INO_MODE_def intro!: returns_bind[where Q = "\<lambda>_. True"])
  then show ?thesis
    using False assms(2) unfolding dirent_kind_def
    by (auto simp: DE_NAME_LEN_OFF_def DE_NAME_OFF_def
        intro!: returns_bind[where Q = "\<lambda>_. True" and x = "rd16 _ _"] returns_bind[OF inode_ptr_returns[OF assms(1)]])
qed

lemma dirent_entry_returns:
  assumes "fs_ok fs" and "keeps fs P cb" and "walk_inv fs P w"
    and "de + rec_len \<le> length (x_image fs)" and "DE_NAME_OFF \<le> rec_len"
    and "\<And>name ino. map_option unat (rd32 (x_image fs) (de + DE_INODE_OFF)) = Some ino \<Longrightarrow>
      DE_NAME_OFF + length name \<le> rec_len \<Longrightarrow> rd_bytes (x_image fs) (de + DE_NAME_OFF) (length name) = Some name \<Longrightarrow>
      names fs (dir_path @ [0x2F] @ name) ino"
  shows "returns (walk_step_ok fs P w) (dirent_entry malloc_ok fs cb dir_path de rec_len w)"
proof -
  note refl = walk_step_ok_refl[OF assms(3)]
  have r: "returns (\<lambda>_. True) (map_option unat (rd32 (x_image fs) (de + DE_INODE_OFF)))"
    "returns (\<lambda>_. True) (dirent_kind fs de ino)" for ino
    using assms(4,5) dirent_kind_returns[OF assms(1), of de] by (auto simp: DE_INODE_OFF_def DE_NAME_OFF_def intro!: returns_map)
  show ?thesis
    unfolding dirent_entry_def Let_def
  proof (rule returns_bind[OF returns_eq[OF r(1)]], rule returns_bind[OF r(2)], goal_cases)
    case (1 ino k)
    obtain name_len ftype where k: "k = (name_len, ftype)" by fastforce
    have name: "returns (walk_step_ok fs P w) (Option.bind (rd_bytes (x_image fs) (de + DE_NAME_OFF) name_len) (\<lambda>name.
         if name \<noteq> [0x2E] \<and> name \<noteq> [0x2E, 0x2E] \<and> 0x2F \<notin> set name \<and> 0 \<notin> set name \<and>
            length dir_path + 1 + name_len < MAX_PATH_LEN
         then (if ftype = DE_FT_DIRECTORY then enter_dir malloc_ok fs ino (dir_path @ [0x2F] @ name) w
               else if ftype = DE_FT_REGULAR then report_file malloc_ok fs cb ino (dir_path @ [0x2F] @ name) w
               else Some w)
         else Some w))" if len: "DE_NAME_OFF + name_len \<le> rec_len"
    proof (rule returns_bind[where Q = "\<lambda>name. rd_bytes (x_image fs) (de + DE_NAME_OFF) name_len = Some name"], goal_cases)
      case 1
      then show ?case using len assms(4) by (simp add: returns_def rd_bytes_def)
    next
      case (2 name)
      then have "length name = name_len" using len assms(4) by (auto simp: rd_bytes_def)
      then have "names fs (dir_path @ [0x2F] @ name) ino" using 1 2 len assms(6) by simp
      then show ?case using refl enter_dir_returns[OF assms(3)] report_file_returns[OF assms(1-3)] by simp
    qed
    then show ?case using k refl by simp
  qed
qed

lemma dirent_loop_returns:
  assumes "fs_ok fs" and "keeps fs P cb" and "blk + x_block_size fs \<le> length (x_image fs)"
    and "names fs dir_path d" and "dir_block fs d blk"
  shows "walk_inv fs P w \<Longrightarrow> returns (walk_step_ok fs P w) (dirent_loop malloc_ok fs cb dir_path blk pos w)"
proof (induction "x_block_size fs - pos" arbitrary: pos w rule: less_induct)
  case less
  show ?case
  proof (cases "pos + DE_NAME_OFF \<le> x_block_size fs")
    case True
    have r: "returns (\<lambda>_. True) (rd16 (x_image fs) (blk + pos + DE_REC_LEN_OFF))"
      using True assms(3) by (simp add: DE_NAME_OFF_def DE_REC_LEN_OFF_def)
    have rest: "returns (walk_step_ok fs P w) (Option.bind (dirent_entry malloc_ok fs cb dir_path (blk + pos) n w)
        (\<lambda>w. if w_oom w then Some w else dirent_loop malloc_ok fs cb dir_path blk (pos + n) w))"
      if "DE_NAME_OFF \<le> n" "pos + n \<le> x_block_size fs" for n
    proof (rule returns_then)
      show "returns (walk_step_ok fs P w) (dirent_entry malloc_ok fs cb dir_path (blk + pos) n w)"
      proof (rule dirent_entry_returns[OF assms(1,2) less.prems], goal_cases)
        case (3 name ino)
        then have "block_entry fs blk name ino" unfolding block_entry_def using that by (intro exI[of _ pos]) simp
        then show ?case by (rule names_entry[OF assms(4,5)])
      qed (use that assms(3) in simp_all)
      fix w' assume "walk_inv fs P w'"
      moreover have "x_block_size fs - (pos + n) < x_block_size fs - pos" using that True by (simp add: DE_NAME_OFF_def)
      ultimately show "returns (walk_step_ok fs P w') (if w_oom w' then Some w' else dirent_loop malloc_ok fs cb dir_path blk (pos + n) w')"
        using less.hyps walk_step_ok_refl by auto
    qed
    show ?thesis
      by (subst dirent_loop.simps)
        (use True rest walk_step_ok_refl[OF less.prems] in \<open>auto simp: not_less intro!: returns_bind[OF r]\<close>)
  qed (use walk_step_ok_refl[OF less.prems] in \<open>simp add: dirent_loop.simps\<close>)
qed

lemma dir_blocks_returns:
  assumes "fs_ok fs" and "keeps fs P cb" and "names fs dir_path d" and "maps_to fs d exts" and "x \<in> set exts"
  shows "walk_inv fs P w \<Longrightarrow> b + n \<le> ex_count x \<Longrightarrow>
    returns (walk_step_ok fs P w) (dir_blocks n b malloc_ok fs cb dir_path (ex_physical x) w)"
proof (induction n arbitrary: b w)
  case (Suc n)
  have "dir_block fs d blk" if "fs_block fs (u64 (ex_physical x + b)) = Some blk" for blk
    unfolding dir_block_def using assms(4,5) Suc.prems(2) that by (intro exI[of _ exts] exI[of _ x] exI[of _ b]) simp
  then have "returns (walk_step_ok fs P w)
      (case fs_block fs (u64 (ex_physical x + b)) of None \<Rightarrow> Some w | Some blk \<Rightarrow> dirent_loop malloc_ok fs cb dir_path blk 0 w)"
    using dirent_loop_returns[OF assms(1,2) _ assms(3) _ Suc.prems(1)] fs_block_inside(1)[OF assms(1)] walk_step_ok_refl[OF Suc.prems(1)]
    by (auto split: option.split)
  then show ?case using Suc.IH Suc.prems(2) walk_step_ok_refl[OF Suc.prems(1)] by (auto intro!: returns_then)
qed (simp add: walk_step_ok_refl)

lemma dir_extents_returns:
  assumes "fs_ok fs" and "keeps fs P cb" and "names fs dir_path d" and "maps_to fs d exts"
  shows "walk_inv fs P w \<Longrightarrow> set xs \<subseteq> set exts \<Longrightarrow> returns (walk_step_ok fs P w) (dir_extents xs malloc_ok fs cb dir_path w)"
proof (induction xs arbitrary: w)
  case (Cons x xs)
  then show ?case
    using dir_blocks_returns[OF assms, of x w 0 "ex_count x"] walk_step_ok_refl[OF Cons.prems(1)] by (auto intro!: returns_then)
qed (simp add: walk_step_ok_refl)

lemma visit_dir_returns:
  assumes "fs_ok fs" and "keeps fs P cb" and "walk_inv fs P w" and "names fs path ino"
  shows "returns (walk_step_ok fs P w) (visit_dir malloc_ok fs cb ino path w)"
  unfolding visit_dir_def
proof (rule returns_bind[OF returns_eq[OF inode_ptr_returns[OF assms(1)]]], goal_cases)
  case (1 dino)
  note refl = walk_step_ok_refl[OF assms(3)]
  show ?case
  proof (cases dino)
    case (Some off)
    then have off: "off + 128 \<le> length (x_image fs)" and ptr: "inode_ptr fs ino = Some (Some off)" using 1 by simp_all
    have dir: "returns (walk_step_ok fs P w) (let w = w\<lparr>w_dir_cap := cap\<rparr> in
        if \<not> ok then Some w else dir_extents ext malloc_ok fs cb path w)"
      if "inode_extents malloc_ok fs off (w_dir_cap w) = Some (ok, ext, cap)" for ok ext cap
    proof -
      have step: "walk_step_ok fs P w (w\<lparr>w_dir_cap := cap\<rparr>)" using assms(3) by (simp add: walk_step_ok_def walk_inv_def work_left_def)
      moreover have "returns (walk_step_ok fs P (w\<lparr>w_dir_cap := cap\<rparr>)) (dir_extents ext malloc_ok fs cb path (w\<lparr>w_dir_cap := cap\<rparr>))"
        if ok
      proof (rule dir_extents_returns[OF assms(1,2,4)])
        show "maps_to fs ino ext" by (rule maps_toI[OF ptr]) (use \<open>inode_extents _ _ _ _ = _\<close> that in simp)
      qed (use step in \<open>simp_all add: walk_step_ok_def\<close>)
      ultimately show ?thesis by (auto simp: Let_def intro: returns_mono walk_step_ok_trans)
    qed
    show ?thesis
      using Some off refl dir
      by (auto simp: INO_MODE_def intro!: returns_bind[where Q = "\<lambda>_. True" and x = "rd16 _ _"]
          returns_bind[OF returns_eq[OF inode_extents_returns[OF assms(1) off]]])
  qed (use refl in simp)
qed

text \<open>Every directory taken from the stack is one unit of work less, so the walk ends.\<close>

lemma walk_loop_returns:
  assumes "fs_ok fs" and "keeps fs P cb"
  shows "walk_inv fs P w \<Longrightarrow> returns (walk_inv fs P) (walk_loop malloc_ok fs cb w)"
proof (induction "work_left w" arbitrary: w rule: less_induct)
  case less
  show ?case
  proof (cases "w_stack w")
    case (Cons d stack)
    let ?w = "w\<lparr>w_stack := stack\<rparr>"
    have "walk_inv fs P ?w" "names fs (snd d) (fst d)" using less.prems Cons by (auto simp: walk_inv_def)
    from visit_dir_returns[OF assms this, of malloc_ok] obtain w' where
      w': "visit_dir malloc_ok fs cb (fst d) (snd d) ?w = Some w'" "walk_inv fs P w'" "work_left w' \<le> work_left ?w"
      by (auto simp: returns_def walk_step_ok_def)
    have "work_left w' < work_left w" using w'(3) Cons by (simp add: work_left_def)
    from less.hyps[OF this w'(2)] show ?thesis
      using less.prems Cons w'(1) by (subst walk_loop.simps) simp
  qed (use less.prems in \<open>subst walk_loop.simps, simp\<close>)
qed

lemma walk_returns:
  assumes "fs_ok fs" and "keeps fs P cb" and "P u"
  shows "returns (\<lambda>(e, u'). e \<in> {FSD_SUCCESS, FSD_ERR_OUT_OF_MEMORY} \<and> P u') (fsd_extfs_walk malloc_ok fs cb u)"
proof -
  let ?w = "\<lparr>w_visited = replicate (x_inodes_count fs div 8 + 1) 0, w_stack = [], w_stack_cap = 0, w_dir_cap = 0,
      w_file_cap = 0, w_user = u, w_stopped = False, w_oom = False\<rparr>"
  show ?thesis
  proof (cases malloc_ok EXT_ROOT_INODE "[] :: bytes" ?w rule: dir_push_cases)
    case (2 c)
    let ?w' = "?w\<lparr>w_stack_cap := c, w_stack := [(EXT_ROOT_INODE, [])]\<rparr>"
    obtain v where v: "visited_set (w_visited ?w') EXT_ROOT_INODE = Some v" "length v = x_inodes_count fs div 8 + 1"
      using visited_set_cases[of EXT_ROOT_INODE "w_visited ?w'"] by (auto simp: returns_def EXT_ROOT_INODE_def)
    have "walk_inv fs P (?w'\<lparr>w_visited := v\<rparr>)" using v assms(3) by (simp add: walk_inv_def names_root)
    from walk_loop_returns[OF assms(1,2) this, of malloc_ok] obtain w'' where
      "walk_loop malloc_ok fs cb (?w'\<lparr>w_visited := v\<rparr>) = Some w''" "walk_inv fs P w''"
      by (auto simp: returns_def)
    with 2 v(1) assms(3) show ?thesis
      by (auto simp: fsd_extfs_walk_def returns_def walk_inv_def)
  qed (use assms(3) in \<open>simp add: fsd_extfs_walk_def\<close>)
qed

lemma extent_in_image:
  assumes "fs_ok fs" and "extent_ok fs x"
  shows "(ex_physical x + ex_count x) * x_block_size fs \<le> length (x_image fs)"
proof -
  have "(ex_physical x + ex_count x) * x_block_size fs \<le> x_block_count fs * x_block_size fs"
    using assms(2) by (intro mult_le_mono1) (simp add: extent_ok_def)
  also have "\<dots> \<le> length (x_image fs)" using assms(1) by (simp add: fs_ok_def)
  finally show ?thesis .
qed

lemma opened_fs_ok: "fsd_extfs_open calloc_ok img (length img) = Some (Inr fs) \<Longrightarrow> length img < 2 ^ 62 \<Longrightarrow> fs_ok fs \<and> x_image fs = img"
  using open_returns[of img calloc_ok] by (simp add: returns_def)

end
