(* ===== verification/Ext_Safety.thy ===== *)
theory Ext_Safety
  imports Ext_Reader
begin

text \<open>
  The properties of the ext walker and a worked image: a file system of six blocks that holds one
  regular file, mapped by an extent tree, in a root directory mapped by a block map. Opening it
  succeeds and the walk reports exactly that file.
\<close>

section \<open>A worked image\<close>

text \<open>
  Block 1 is the superblock, block 2 the group descriptor, block 3 the inode table (inode 2 the root
  directory, inode 3 the file), block 4 the directory and block 5 the contents of the file.
\<close>

definition ext_example :: bytes where
  "ext_example =
     replicate 1024 0
     @ [8, 0, 0, 0, 6, 0, 0, 0] @ replicate 12 0 @ [1, 0, 0, 0] @ replicate 8 0 @ [0, 32, 0, 0] @ replicate 4 0 @ [8, 0, 0, 0]
     @ replicate 12 0 @ [0x53, 0xEF, 1, 0] @ replicate 36 0 @ [2, 0, 0, 0] @ replicate 924 0
     @ replicate 8 0 @ [3, 0, 0, 0] @ replicate 1012 0
     @ replicate 128 0
     @ [0xED, 0x41, 0, 0, 0, 4, 0, 0] @ replicate 32 0 @ [4, 0, 0, 0] @ replicate 84 0
     @ [0xA4, 0x81, 0, 0, 0, 2, 0, 0] @ replicate 24 0 @ [0, 0, 8, 0] @ replicate 4 0
     @ [0x0A, 0xF3, 1, 0, 4, 0, 0, 0, 0, 0, 0, 0, 0, 0, 0, 0, 1, 0, 0, 0, 5, 0, 0, 0] @ replicate 64 0 @ replicate 640 0
     @ [2, 0, 0, 0, 12, 0, 1, 2, 0x2E, 0, 0, 0, 3, 0, 0, 0, 0xF4, 3, 1, 1, 0x61, 0, 0, 0] @ replicate 1000 0
     @ replicate 1024 0x55"

lemma example_length: "length ext_example = 6144" by (simp add: ext_example_def)

lemma example_bytes: "bytes_at p n ext_example = take n (drop p (replicate 1024 0
     @ [8, 0, 0, 0, 6, 0, 0, 0] @ replicate 12 0 @ [1, 0, 0, 0] @ replicate 8 0 @ [0, 32, 0, 0] @ replicate 4 0 @ [8, 0, 0, 0]
     @ replicate 12 0 @ [0x53, 0xEF, 1, 0] @ replicate 36 0 @ [2, 0, 0, 0] @ replicate 924 0
     @ replicate 8 0 @ [3, 0, 0, 0] @ replicate 1012 0
     @ replicate 128 0
     @ [0xED, 0x41, 0, 0, 0, 4, 0, 0] @ replicate 32 0 @ [4, 0, 0, 0] @ replicate 84 0
     @ [0xA4, 0x81, 0, 0, 0, 2, 0, 0] @ replicate 24 0 @ [0, 0, 8, 0] @ replicate 4 0
     @ [0x0A, 0xF3, 1, 0, 4, 0, 0, 0, 0, 0, 0, 0, 0, 0, 0, 0, 1, 0, 0, 0, 5, 0, 0, 0] @ replicate 64 0 @ replicate 640 0
     @ [2, 0, 0, 0, 12, 0, 1, 2, 0x2E, 0, 0, 0, 3, 0, 0, 0, 0xF4, 3, 1, 1, 0x61, 0, 0, 0] @ replicate 1000 0
     @ replicate 1024 0x55))"
  by (simp add: bytes_at_def ext_example_def)

lemmas example_reads = rd16_def rd32_def rd_bytes_def example_length example_bytes le_u16_def le_u32_def ext_layout

definition example_fs :: extfs where
  "example_fs = \<lparr>x_image = ext_example, x_image_size = 6144, x_block_size = 1024,
     x_block_count = 6, x_inodes_count = 8, x_inodes_per_group = 8, x_blocks_per_group = 8192, x_inode_size = 128,
     x_desc_size = 32, x_first_data_block = 1, x_gdt_start = 2048, x_group_count = 1, x_has_filetype = True\<rparr>"

lemma example_open: "fsd_extfs_open True ext_example 6144 = Some (Inr example_fs)" 
  by (simp add: fsd_extfs_open_def read_geometry_def check_geometry_def is_pow2_word_def join32_def u32_def INCOMPAT_ALLOWED_def example_fs_def example_reads)

lemma example_root_inode: "inode_ptr example_fs 2 = Some (Some (3 * 1024 + 128))"
  by (simp add: inode_ptr_def example_fs_def example_reads join32_def u64_def)

lemma example_file_inode: "inode_ptr example_fs 3 = Some (Some (3 * 1024 + 256))"
  by (simp add: inode_ptr_def example_fs_def example_reads join32_def u64_def)

lemma example_file_extents: "inode_extents (\<lambda>_. True) example_fs (3 * 1024 + 256) c = Some (True, [\<lparr>ex_logical = 0, ex_physical = 5, ex_count = 1\<rparr>], if c = 0 then 16 else c)"
  by (simp add: inode_extents_def extents_from_node_def node_header_def leaf_entry_def example_fs_def example_reads join32_def u64_def extent_append_def)

lemma loop_ok_numeral: "loop_ok (numeral k) i body s = do {(ok,s) \<leftarrow> body i s; if ok then loop_ok (pred_numeral k) (Suc i) body s else Some (False,s)}"
 by (simp add: numeral_eq_Suc)

lemma example_root_extents: "inode_extents (\<lambda>_. True) example_fs (3 * 1024 + 128) 0 = Some (True, [\<lparr>ex_logical = 0, ex_physical = 4, ex_count = 1\<rparr>], 16)"
  by (simp add: inode_extents_def inode_file_size_def blockmap_collect_def map_span_def example_fs_def example_reads join32_def u64_def extent_append_def loop_ok_numeral)

lemma example_nth: "p < 6144 \<Longrightarrow> ext_example ! p = hd (bytes_at p 1 ext_example)"
  by (simp add: bytes_at_def hd_drop_conv_nth example_length)

lemma example_dir:
  "dirent_loop (\<lambda>_. True) example_fs cb [] 4096 0 w = report_file (\<lambda>_. True) example_fs cb 3 [0x2F, 0x61] w" if "\<not> w_oom w"
proof -
  have bs: "x_block_size example_fs = 1024" by (simp add: example_fs_def)
  have r: "rd16 (x_image example_fs) 4100 = Some 12" "rd16 (x_image example_fs) 4112 = Some 1012" 
    by (simp_all add: example_reads example_fs_def)
  have d1: "dirent_entry (\<lambda>_. True) example_fs cb [] 4096 12 w = Some w"
    by (simp add: dirent_entry_def dirent_kind_def example_reads example_nth rd8_def example_fs_def)
  have d2: "dirent_entry (\<lambda>_. True) example_fs cb [] 4108 1012 w = report_file (\<lambda>_. True) example_fs cb 3 [0x2F, 0x61] w"
    by (simp add: dirent_entry_def dirent_kind_def example_reads example_nth rd8_def example_fs_def)
  have last: "dirent_loop (\<lambda>_. True) example_fs cb [] 4096 1024 w' = Some w'" for w'
    by (subst dirent_loop.simps) (simp add: bs DE_NAME_OFF_def)
  have "dirent_loop (\<lambda>_. True) example_fs cb [] 4096 12 w = report_file (\<lambda>_. True) example_fs cb 3 [0x2F, 0x61] w"
    by (subst dirent_loop.simps, cases "report_file (\<lambda>_. True) example_fs cb 3 [0x2F, 0x61] w")
      (simp_all add: d2 r bs DE_NAME_OFF_def DE_REC_LEN_OFF_def last)
  then show ?thesis
    using that by (subst dirent_loop.simps) (simp add: d1 r bs DE_NAME_OFF_def DE_REC_LEN_OFF_def)
qed

lemma example_file:
  "report_file (\<lambda>_. True) example_fs cb 3 path w =
     (case cb path 3 512 [\<lparr>ex_logical = 0, ex_physical = 5, ex_count = 1\<rparr>] (w_user w) of
        (stop, u) \<Rightarrow> Some (w\<lparr>w_file_cap := if w_file_cap w = 0 then 16 else w_file_cap w,
          w_user := u, w_stopped := w_stopped w \<or> stop\<rparr>))"
proof -
  have "rd16 (x_image example_fs) 3328 = Some 0x81A4" "inode_file_size example_fs 3328 0x81A4 = Some 512"
    by (simp_all add: example_reads example_fs_def inode_file_size_def join32_def)
  then show ?thesis using example_file_inode example_file_extents by (simp add: report_file_def ext_layout)
qed

text \<open>The whole walk: the callback is called once, with the file and its extent.\<close>

lemma example_walk:
  "fsd_extfs_walk (\<lambda>_. True) example_fs cb u =
   Some (FSD_SUCCESS, snd (cb [0x2F, 0x61] 3 512 [\<lparr>ex_logical = 0, ex_physical = 5, ex_count = 1\<rparr>] u))"
proof -
  have b: "fs_block example_fs 4 = Some 4096" by (simp add: fs_block_def example_fs_def u64_def)
  have m: "rd16 (x_image example_fs) 3200 = Some 0x41ED" "x_inodes_count example_fs = 8" by (simp_all add: example_reads example_fs_def)
  show ?thesis
    using example_root_extents example_root_inode b m
    by (simp add: fsd_extfs_walk_def dir_push_def visited_set_def ext_layout walk_loop.simps visit_dir_def
        example_dir example_file u64_def case_prod_beta)
qed

section \<open>Properties\<close>

text \<open>
  C27: probing any image smaller than \<^verbatim>\<open>2 ^ 62\<close> bytes returns without reading outside it: either
  with one of the three error codes, or with a file system whose geometry fits the image.
\<close>

theorem extfs_open_safe:
  assumes "length img < 2 ^ 62"
  shows "\<exists>r. fsd_extfs_open calloc_ok img (length img) = Some r \<and>
    (case r of
       Inl (e, msg) \<Rightarrow> e \<in> {FSD_ERR_BAD_MAGIC, FSD_ERR_CORRUPT_DATA, FSD_ERR_OUT_OF_MEMORY}
     | Inr fs \<Rightarrow> fs_ok fs \<and> x_image fs = img)"
  using open_returns[OF assms] by (simp add: returns_def open_result_def)

theorem extfs_open_safe_witness:
  "length ext_example < 2 ^ 62 \<and> fsd_extfs_open True ext_example (length ext_example) = Some (Inr example_fs) \<and> fs_ok example_fs"
  using extfs_open_safe[of ext_example True] by (simp add: example_length example_open)

text \<open>The callback that also keeps what it was handed.\<close>

definition recording :: "'u file_cb \<Rightarrow> ((bytes \<times> nat \<times> ext_extent list) list \<times> 'u) file_cb" where
  "recording cb path ino fsize ext u =
     (case cb path ino fsize ext (snd u) of (stop, u') \<Rightarrow> (stop, fst u @ [(path, ino, ext)], u'))"

text \<open>
  C5: walking a file system that was opened always returns, whatever the image holds below the
  superblock and whatever the callback does: no directory loop or damaged tree makes it read outside
  the image or run forever. Every file it reports has the path it is reported under, with the extents
  its inode maps; each extent is a non-empty run of blocks between block 1 and the block count of the
  file system's superblock, hence inside the image, and there are no more of them than the limit.
\<close>

theorem extfs_walk_safe:
  assumes "length img < 2 ^ 62" and "fsd_extfs_open calloc_ok img (length img) = Some (Inr fs)"
  shows "\<exists>e log u'. fsd_extfs_walk malloc_ok fs (recording cb) ([], u) = Some (e, log, u') \<and>
    e \<in> {FSD_SUCCESS, FSD_ERR_OUT_OF_MEMORY} \<and>
    list_all (\<lambda>(path, ino, exts). names fs path ino \<and> maps_to fs ino exts \<and> length exts \<le> MAX_EXTENTS_PER_FILE \<and>
      list_all (\<lambda>x. 0 < ex_physical x \<and> 0 < ex_count x \<and> ex_physical x + ex_count x \<le> x_block_count fs \<and>
        (ex_physical x + ex_count x) * x_block_size fs \<le> length img) exts) log"
proof -
  let ?P = "\<lambda>(log, u). list_all (\<lambda>(path, ino, exts). names fs path ino \<and> maps_to fs ino exts \<and> extents_ok fs exts) log"
  have fs: "fs_ok fs" "x_image fs = img" using opened_fs_ok[OF assms(2,1)] by simp_all
  have "keeps fs ?P (recording cb)" by (auto simp: keeps_def recording_def split: prod.split)
  from walk_returns[OF fs(1) this, of "([], u)" malloc_ok] obtain e log u' where
    r: "fsd_extfs_walk malloc_ok fs (recording cb) ([], u) = Some (e, log, u')"
      "e \<in> {FSD_SUCCESS, FSD_ERR_OUT_OF_MEMORY}" "?P (log, u')"
    by (auto simp: returns_def)
  have "list_all (\<lambda>(path, ino, exts). names fs path ino \<and> maps_to fs ino exts \<and> length exts \<le> MAX_EXTENTS_PER_FILE \<and>
      list_all (\<lambda>x. 0 < ex_physical x \<and> 0 < ex_count x \<and> ex_physical x + ex_count x \<le> x_block_count fs \<and>
        (ex_physical x + ex_count x) * x_block_size fs \<le> length img) exts) log"
    using r(3) extent_in_image[OF fs(1)] fs(2) by (fastforce simp: list_all_iff extents_ok_def extent_ok_def)
  with r(1,2) show ?thesis by blast
qed

theorem extfs_walk_safe_witness:
  "fsd_extfs_open True ext_example (length ext_example) = Some (Inr example_fs) \<and>
   (\<exists>log. fsd_extfs_walk (\<lambda>_. True) example_fs (recording (\<lambda>path ino fsize ext u. (False, u + fsize))) ([], 0) =
      Some (FSD_SUCCESS, log, 512) \<and> list_all (\<lambda>(path, ino, exts). names example_fs path ino \<and> maps_to example_fs ino exts) log)"
  using extfs_walk_safe[of ext_example True example_fs "\<lambda>_. True" "\<lambda>path ino fsize ext u. (False, u + fsize)" 0]
  by (auto simp: example_length example_open example_walk recording_def)

end
