(* ===== verification/Stage_Fsmap.thy ===== *)
theory Stage_Fsmap
  imports Delta_Match Ext_Safety Crc32 "HOL-Library.Product_Lexorder"
begin

text \<open>
  The file-system stage of \<^verbatim>\<open>src/stages/stage_fsmap.c\<close>: when both images hold an ext file system, a
  destination block that belongs to a file is first tried against the bytes at the same offset of the
  source file with the same path. The walks over the two file systems are those of the reader's
  theory; a fault inside one is \<^verbatim>\<open>UB_FAULT\<close> here. The counters that only the verbose output shows are
  left out.
\<close>

definition CANCEL_CHECK_INTERVAL :: nat where "CANCEL_CHECK_INTERVAL = 256"

record src_file =
  sf_path :: bytes
  sf_size :: nat
  sf_ext :: "ext_extent list"

definition sizeof_src_file :: nat where "sizeof_src_file = 32"

record hypothesis =
  hy_dest_block :: nat
  hy_src_pos :: nat

definition sizeof_hypothesis :: nat where "sizeof_hypothesis = 16"

text \<open>
  A cancel flag is \<^verbatim>\<open>None\<close> for a null pointer and otherwise the value the flag has when the run
  starts; what other threads store to the two flags during the run is an argument of the run.
\<close>

record fsmap_stage =
  fm_block_size :: nat
  fm_threshold :: rat
  fm_search_range :: nat
  fm_verbose :: int
  fm_inactive :: bool
  fm_cancel :: "bool option"
  fm_cancel2 :: "bool option"
  fm_pool :: "memory_pool option"
  fm_path_hash :: "hash_table option"
  fm_src_files :: "src_file list"
  fm_cap_src_files :: nat
  fm_hyps :: "hypothesis list"
  fm_cap_hyps :: nat
  fm_src_size :: nat
  fm_dest_size :: nat

definition fsd_fsmap_stage_create :: "bool \<Rightarrow> nat \<Rightarrow> c_float \<Rightarrow> int \<Rightarrow> fsd_error + fsmap_stage" where
  "fsd_fsmap_stage_create calloc_ok block_size threshold search_radius_blocks =
     (if block_size = 0 then Inl FSD_ERR_INVALID_ARG
      else if \<not> calloc_ok then Inl FSD_ERR_OUT_OF_MEMORY
      else Inr \<lparr>fm_block_size = block_size, fm_threshold = clamp_threshold threshold,
                fm_search_range = search_range_of search_radius_blocks block_size, fm_verbose = 0,
                fm_inactive = True, fm_cancel = None, fm_cancel2 = None, fm_pool = None, fm_path_hash = None,
                fm_src_files = [], fm_cap_src_files = 0, fm_hyps = [], fm_cap_hyps = 0,
                fm_src_size = 0, fm_dest_size = 0\<rparr>)"

definition fsd_fsmap_stage_set_cancel :: "bool option \<Rightarrow> bool option \<Rightarrow> fsmap_stage \<Rightarrow> fsmap_stage" where
  "fsd_fsmap_stage_set_cancel flag flag2 stage = stage\<lparr>fm_cancel := flag, fm_cancel2 := flag2\<rparr>"

text \<open>The value loaded from a flag whose other writers only set it.\<close>

definition flag_set :: "bool option \<Rightarrow> bool \<Rightarrow> bool" where
  "flag_set flag stored = (case flag of None \<Rightarrow> False | Some v \<Rightarrow> v \<or> stored)"

definition fsmap_cancelled :: "fsmap_stage \<Rightarrow> bool \<times> bool \<Rightarrow> bool" where
  "fsmap_cancelled stage stored \<longleftrightarrow> flag_set (fm_cancel stage) (fst stored) \<or> flag_set (fm_cancel2 stage) (snd stored)"

definition fsd_fsmap_stage_set_verbose :: "int \<Rightarrow> fsmap_stage \<Rightarrow> fsmap_stage" where
  "fsd_fsmap_stage_set_verbose verbose stage = stage\<lparr>fm_verbose := verbose\<rparr>"

section \<open>The source walk\<close>

text \<open>The caller's state of the source walk: the stage and the out-of-memory mark.\<close>

type_synonym src_walk_ctx = "fsmap_stage \<times> bool"

definition src_walk_cb :: "allocator \<Rightarrow> src_walk_ctx file_cb" where
  "src_walk_cb A path inode_no file_size extents ctx =
     (case ctx of (stage, oom) \<Rightarrow>
        if extents = [] then (False, stage, oom)
        else
          (case (fm_pool stage, fm_path_hash stage) of
             (Some pool, Some path_hash) \<Rightarrow>
               (let n = length (fm_src_files stage);
                    full = (n = fm_cap_src_files stage);
                    cap = (if full then (if fm_cap_src_files stage \<noteq> 0 then fm_cap_src_files stage * 2 else 1024)
                           else fm_cap_src_files stage)
                in
                case (if full then fsd_pool_alloc A (cap * sizeof_src_file) pool else (Some 0, pool)) of
                  (None, pool) \<Rightarrow> (True, stage\<lparr>fm_pool := Some pool\<rparr>, True)
                | (Some _, pool) \<Rightarrow>
                    (case fsd_pool_alloc A (length path + 1) pool of (path_copy, pool) \<Rightarrow>
                       (case fsd_pool_alloc A (length extents * sizeof_ext_extent) pool of (ext_copy, pool) \<Rightarrow>
                          if path_copy = None \<or> ext_copy = None
                          then (True, stage\<lparr>fm_cap_src_files := cap, fm_pool := Some pool\<rparr>, True)
                          else
                            (case fsd_hash_table_insert A (fsd_crc32 path) n (path_hash, pool) of
                               (path_hash, pool) \<Rightarrow>
                                 (False,
                                  stage\<lparr>fm_cap_src_files := cap, fm_pool := Some pool, fm_path_hash := Some path_hash,
                                    fm_src_files := fm_src_files stage @
                                      [\<lparr>sf_path = path, sf_size = file_size, sf_ext = extents\<rparr>]\<rparr>,
                                  oom)))))
           | _ \<Rightarrow> (True, stage, True)))"

fun find_in_chain :: "src_file list \<Rightarrow> 32 word \<Rightarrow> bytes \<Rightarrow> hash_entry list \<Rightarrow> src_file option" where
  "find_in_chain files crc path [] = None"
| "find_in_chain files crc path (e # es) =
     (if he_crc32 e \<noteq> crc \<or> length files \<le> he_block_index e then find_in_chain files crc path es
      else if sf_path (files ! he_block_index e) = path then Some (files ! he_block_index e)
      else find_in_chain files crc path es)"

definition src_file_find :: "fsmap_stage \<Rightarrow> bytes \<Rightarrow> src_file option" where
  "src_file_find stage path =
     (case fm_path_hash stage of
        None \<Rightarrow> None
      | Some table \<Rightarrow>
          (let crc = fsd_crc32 path in find_in_chain (fm_src_files stage) crc path (fsd_hash_table_lookup table crc)))"

fun map_range_in :: "ext_extent list \<Rightarrow> nat \<Rightarrow> nat \<Rightarrow> nat \<Rightarrow> nat option" where
  "map_range_in [] fs_block_size logical_byte len = None"
| "map_range_in (x # xs) fs_block_size logical_byte len =
     (let ext_lo = u64 (ex_logical x * fs_block_size);
          ext_bytes = u64 (ex_count x * fs_block_size)
      in
      if ext_lo \<le> logical_byte \<and> u64 (logical_byte + len) \<le> u64 (ext_lo + ext_bytes)
      then Some (u64 (ex_physical x * fs_block_size + (logical_byte - ext_lo)))
      else map_range_in xs fs_block_size logical_byte len)"

definition src_map_range :: "src_file \<Rightarrow> nat \<Rightarrow> nat \<Rightarrow> nat \<Rightarrow> nat option" where
  "src_map_range f fs_block_size logical_byte len = map_range_in (sf_ext f) fs_block_size logical_byte len"

section \<open>The destination walk\<close>

record dest_walk_ctx =
  dw_stage :: fsmap_stage
  dw_tracker :: block_tracker
  dw_dest_fs_bs :: nat
  dw_src_fs_bs :: nat
  dw_oom :: bool
  dw_files_no_src_path :: nat

text \<open>\<^verbatim>\<open>False\<close> is the error return.\<close>

definition hyp_append :: "(nat \<Rightarrow> bool) \<Rightarrow> nat \<Rightarrow> nat \<Rightarrow> fsmap_stage \<Rightarrow> bool \<times> fsmap_stage" where
  "hyp_append malloc_ok dest_block src_pos stage =
     (let full = (length (fm_hyps stage) = fm_cap_hyps stage);
          cap = (if full then (if fm_cap_hyps stage \<noteq> 0 then fm_cap_hyps stage * 2 else 4096) else fm_cap_hyps stage)
      in if full \<and> \<not> malloc_ok (cap * sizeof_hypothesis) then (False, stage)
         else (True, stage\<lparr>fm_cap_hyps := cap,
                 fm_hyps := fm_hyps stage @ [\<lparr>hy_dest_block = dest_block, hy_src_pos = src_pos\<rparr>]\<rparr>))"

text \<open>
  The loops of the callback: \<^verbatim>\<open>None\<close> in the first component goes on, \<^verbatim>\<open>Some r\<close> returns \<^verbatim>\<open>r\<close>. The lookup
  is lazy: \<^verbatim>\<open>sf\<close> is \<^verbatim>\<open>None\<close> until the first unmatched block of the file.
\<close>

fun dest_blocks_loop ::
  "(nat \<Rightarrow> bool) \<Rightarrow> bytes \<Rightarrow> ext_extent \<Rightarrow> nat list \<Rightarrow> src_file option option \<Rightarrow> dest_walk_ctx \<Rightarrow>
   bool option \<times> src_file option option \<times> dest_walk_ctx" where
  "dest_blocks_loop malloc_ok path x [] sf ctx = (None, sf, ctx)"
| "dest_blocks_loop malloc_ok path x (b # bs) sf ctx =
     (let stage = dw_stage ctx;
          block_size = fm_block_size stage;
          phys_lo = u64 (ex_physical x * dw_dest_fs_bs ctx)
      in
      if t_count (dw_tracker ctx) \<le> b \<or> \<not> fsd_block_tracker_is_unmatched (dw_tracker ctx) b
      then dest_blocks_loop malloc_ok path x bs sf ctx
      else
        (let found = (case sf of Some r \<Rightarrow> r | None \<Rightarrow> src_file_find stage path);
             ctx = (if sf = None \<and> found = None
                    then ctx\<lparr>dw_files_no_src_path := dw_files_no_src_path ctx + 1\<rparr> else ctx)
         in
         case found of
           None \<Rightarrow> (Some False, Some None, ctx)
         | Some f \<Rightarrow>
             (let logical_byte = u64 (ex_logical x * dw_dest_fs_bs ctx + u64_sub (u64 (b * block_size)) phys_lo) in
              case src_map_range f (dw_src_fs_bs ctx) logical_byte block_size of
                None \<Rightarrow> dest_blocks_loop malloc_ok path x bs (Some (Some f)) ctx
              | Some src_pos \<Rightarrow>
                  if fm_src_size stage < u64 (src_pos + block_size)
                  then dest_blocks_loop malloc_ok path x bs (Some (Some f)) ctx
                  else
                    (case hyp_append malloc_ok b src_pos stage of
                       (ok, stage) \<Rightarrow>
                         if \<not> ok then (Some True, Some (Some f), ctx\<lparr>dw_oom := True\<rparr>)
                         else dest_blocks_loop malloc_ok path x bs (Some (Some f)) (ctx\<lparr>dw_stage := stage\<rparr>)))))"

definition extent_first_block :: "nat \<Rightarrow> nat \<Rightarrow> ext_extent \<Rightarrow> nat" where
  "extent_first_block block_size fs_bs x = u64 (u64 (ex_physical x * fs_bs) + block_size - 1) div block_size"

definition extent_end_block :: "nat \<Rightarrow> nat \<Rightarrow> ext_extent \<Rightarrow> nat" where
  "extent_end_block block_size fs_bs x =
     u64 (u64 (ex_physical x * fs_bs) + u64 (ex_count x * fs_bs)) div block_size"

fun dest_extents_loop ::
  "(nat \<Rightarrow> bool) \<Rightarrow> bytes \<Rightarrow> ext_extent list \<Rightarrow> src_file option option \<Rightarrow> dest_walk_ctx \<Rightarrow> bool \<times> dest_walk_ctx" where
  "dest_extents_loop malloc_ok path [] sf ctx = (False, ctx)"
| "dest_extents_loop malloc_ok path (x # xs) sf ctx =
     (let block_size = fm_block_size (dw_stage ctx) in
      case dest_blocks_loop malloc_ok path x
             [extent_first_block block_size (dw_dest_fs_bs ctx) x..<extent_end_block block_size (dw_dest_fs_bs ctx) x] sf ctx of
        (Some r, sf, ctx) \<Rightarrow> (r, ctx)
      | (None, sf, ctx) \<Rightarrow> dest_extents_loop malloc_ok path xs sf ctx)"

definition dest_walk_cb :: "(nat \<Rightarrow> bool) \<Rightarrow> dest_walk_ctx file_cb" where
  "dest_walk_cb malloc_ok path inode_no file_size extents ctx = dest_extents_loop malloc_ok path extents None ctx"

section \<open>The index\<close>

definition hyp_cmp :: "hypothesis \<Rightarrow> hypothesis \<Rightarrow> int" where
  "hyp_cmp ha hb =
     (if hy_dest_block ha \<noteq> hy_dest_block hb
      then (if hy_dest_block ha < hy_dest_block hb then - 1 else 1)
      else if hy_src_pos ha < hy_src_pos hb then - 1 else if hy_src_pos hb < hy_src_pos ha then 1 else 0)"

text \<open>
  \<^verbatim>\<open>qsort\<close> with this comparison: hypotheses that compare equal are equal, so there is only one sorted
  arrangement.
\<close>

definition hyp_key :: "hypothesis \<Rightarrow> nat \<times> nat" where
  "hyp_key h = (hy_dest_block h, hy_src_pos h)"

definition sort_hyps :: "hypothesis list \<Rightarrow> hypothesis list" where
  "sort_hyps hs = sort_key hyp_key hs"

fun drop_duplicates :: "hypothesis \<Rightarrow> hypothesis list \<Rightarrow> hypothesis list" where
  "drop_duplicates kept [] = [kept]"
| "drop_duplicates kept (h # hs) =
     (if hy_dest_block h \<noteq> hy_dest_block kept then kept # drop_duplicates h hs else drop_duplicates kept hs)"

definition tidy_hyps :: "hypothesis list \<Rightarrow> hypothesis list" where
  "tidy_hyps hs =
     (if 1 < length hs then (case sort_hyps hs of [] \<Rightarrow> [] | h # hs \<Rightarrow> drop_duplicates h hs) else hs)"

text \<open>What the memory calls of the index answer.\<close>

record fsmap_env =
  fe_open_src :: bool
  fe_open_dest :: bool
  fe_pool_struct :: bool
  fe_malloc :: "nat \<Rightarrow> bool"
  fe_pool :: allocator

text \<open>The two walks, once both file systems are open.\<close>

definition index_walks :: "fsmap_env \<Rightarrow> extfs \<Rightarrow> extfs \<Rightarrow> block_tracker \<Rightarrow> fsmap_stage action" where
  "index_walks env src_fs dest_fs tracker stage =
     (case fsd_pool_create (fe_pool env) (fe_pool_struct env) (1024 * 1024) 0 of
        Inl _ \<Rightarrow> (FSD_ERR_OUT_OF_MEMORY, stage)
      | Inr pool \<Rightarrow>
          (case fsd_hash_table_create (fe_pool env) 16384 pool of
             (Inl _, pool) \<Rightarrow> (FSD_ERR_OUT_OF_MEMORY, stage\<lparr>fm_pool := Some pool\<rparr>)
           | (Inr table, pool) \<Rightarrow>
               (let stage = stage\<lparr>fm_pool := Some pool, fm_path_hash := Some table\<rparr> in
                case fsd_extfs_walk (fe_malloc env) src_fs (src_walk_cb (fe_pool env)) (stage, False) of
                  None \<Rightarrow> (UB_FAULT, stage)
                | Some (err, stage, oom) \<Rightarrow>
                    if err \<noteq> FSD_SUCCESS \<or> oom then (FSD_ERR_OUT_OF_MEMORY, stage)
                    else
                      (case fsd_extfs_walk (fe_malloc env) dest_fs (dest_walk_cb (fe_malloc env))
                              \<lparr>dw_stage = stage, dw_tracker = tracker, dw_dest_fs_bs = fsd_extfs_block_size dest_fs,
                                dw_src_fs_bs = fsd_extfs_block_size src_fs, dw_oom = False, dw_files_no_src_path = 0\<rparr> of
                         None \<Rightarrow> (UB_FAULT, stage)
                       | Some (err, ctx) \<Rightarrow>
                           if err \<noteq> FSD_SUCCESS \<or> dw_oom ctx then (FSD_ERR_OUT_OF_MEMORY, dw_stage ctx)
                           else (FSD_SUCCESS,
                                 (dw_stage ctx)\<lparr>fm_hyps := tidy_hyps (fm_hyps (dw_stage ctx)), fm_inactive := False\<rparr>)))))"

definition fsd_fsmap_stage_build_index ::
  "fsmap_env \<Rightarrow> bytes \<Rightarrow> bytes \<Rightarrow> block_tracker \<Rightarrow> fsmap_stage action" where
  "fsd_fsmap_stage_build_index env src dest tracker stage =
     (let stage = stage\<lparr>fm_inactive := True, fm_src_size := length src, fm_dest_size := length dest\<rparr> in
      case fsd_extfs_open (fe_open_src env) src (length src) of
        None \<Rightarrow> (UB_FAULT, stage)
      | Some (Inl (err, reason)) \<Rightarrow> (if err = FSD_ERR_OUT_OF_MEMORY then err else FSD_SUCCESS, stage)
      | Some (Inr src_fs) \<Rightarrow>
          (case fsd_extfs_open (fe_open_dest env) dest (length dest) of
             None \<Rightarrow> (UB_FAULT, stage)
           | Some (Inl (err, reason)) \<Rightarrow> (if err = FSD_ERR_OUT_OF_MEMORY then err else FSD_SUCCESS, stage)
           | Some (Inr dest_fs) \<Rightarrow> index_walks env src_fs dest_fs tracker stage))"

section \<open>The run\<close>

text \<open>The position chosen for a block and its count: the hypothesis itself, or a better one nearby.\<close>

definition choose_position ::
  "count_fn \<Rightarrow> fsmap_stage \<Rightarrow> bytes \<Rightarrow> bytes \<Rightarrow> int \<Rightarrow> nat \<Rightarrow> (int \<times> nat) option" where
  "choose_position count_fn stage src dest_block hyp_pos exact =
     (let bs = fm_block_size stage;
          threshold_count = threshold_bytes (fm_threshold stage) bs;
          rng = s64 (int (fm_search_range stage))
      in
      if exact < bs
      then
        (case fsd_block_search_best src (fm_src_size stage) dest_block bs hyp_pos (- rng) rng threshold_count count_fn of
           None \<Rightarrow> None
         | Some (off, sweep_count) \<Rightarrow>
             if exact < sweep_count \<and> off \<noteq> 0 \<and> pos_ok (fm_src_size stage) bs (s64 (hyp_pos + off))
             then Some (s64 (hyp_pos + off), sweep_count)
             else Some (hyp_pos, exact))
      else Some (hyp_pos, exact))"

definition fsmap_block ::
  "allocator \<Rightarrow> count_fn \<Rightarrow> fsmap_stage \<Rightarrow> bytes \<Rightarrow> bytes \<Rightarrow> (nat \<Rightarrow> bool \<times> bool) \<Rightarrow> nat \<Rightarrow>
   (block_tracker \<times> memory_pool) action" where
  "fsmap_block A count_fn stage src dest stored h tp =
     (let bs = fm_block_size stage;
          threshold_count = threshold_bytes (fm_threshold stage) bs;
          dest_idx = hy_dest_block (fm_hyps stage ! h);
          hyp_pos = s64 (int (hy_src_pos (fm_hyps stage ! h)))
      in
      if h mod CANCEL_CHECK_INTERVAL = 0 \<and> fsmap_cancelled stage (stored h) then (FSD_ERR_CANCELLED, tp)
      else if \<not> fsd_block_tracker_is_unmatched (fst tp) dest_idx then (FSD_SUCCESS, tp)
      else
        (case block_at dest bs dest_idx of
           None \<Rightarrow> (UB_FAULT, tp)
         | Some dest_block \<Rightarrow>
             (case (if hyp_pos < 0 then None else count_at count_fn src (nat hyp_pos) dest_block 0 bs) of
                None \<Rightarrow> (UB_FAULT, tp)
              | Some exact \<Rightarrow>
                  (case choose_position count_fn stage src dest_block hyp_pos exact of
                     None \<Rightarrow> (UB_FAULT, tp)
                   | Some (src_pos, best_count) \<Rightarrow>
                       if exact < bs \<and> best_count < threshold_count then (FSD_SUCCESS, tp)
                       else
                         (case record_partial A src dest bs dest_idx (nat src_pos) tp of
                            (FSD_ERR_OUT_OF_MEMORY, tp) \<Rightarrow> (FSD_SUCCESS, tp)
                          | (e, tp) \<Rightarrow> (e, tp))))))"

definition fsd_fsmap_stage_run ::
  "simd_dispatch \<Rightarrow> allocator \<Rightarrow> fsmap_stage \<Rightarrow> bytes \<Rightarrow> bytes \<Rightarrow> (nat \<Rightarrow> bool \<times> bool) \<Rightarrow>
   (block_tracker \<times> memory_pool) action" where
  "fsd_fsmap_stage_run g_fsd_simd A stage src dest stored tp =
     (if fm_inactive stage \<or> fm_hyps stage = [] then (FSD_SUCCESS, tp)
      else for_loop 0 (length (fm_hyps stage))
             (fsmap_block A (fsd_block_search_count_fn g_fsd_simd) stage src dest stored) tp)"

section \<open>Choosing a position\<close>

text \<open>The situation of a run: the images, their sizes, and hypotheses inside the source.\<close>

definition fsmap_setup :: "simd_dispatch \<Rightarrow> fsmap_stage \<Rightarrow> bytes \<Rightarrow> bytes \<Rightarrow> bool" where
  "fsmap_setup g s src dest \<longleftrightarrow> dispatch_ok g \<and> 0 < fm_block_size s \<and> fm_block_size s < 2 ^ 62 \<and>
     fm_src_size s = length src \<and> length src < 2 ^ 62 \<and> fm_search_range s < 2 ^ 62 \<and>
     threshold_bytes (fm_threshold s) (fm_block_size s) \<le> fm_block_size s \<and>
     list_all (\<lambda>h. hy_src_pos h + fm_block_size s \<le> length src) (fm_hyps s)"

lemma choose_position_cases:
  assumes "search_setup count_fn src (fm_src_size s) d (fm_block_size s)" and "fm_src_size s = length src"
    and "fm_search_range s < 2 ^ 62" and "p + fm_block_size s \<le> length src" and "exact = quality src d (fm_block_size s) (int p)"
  shows "\<exists>q c. choose_position count_fn s src d (int p) exact = Some (q, c) \<and> exact \<le> c \<and>
    (c < threshold_bytes (fm_threshold s) (fm_block_size s) \<or>
     0 \<le> q \<and> nat q + fm_block_size s \<le> length src \<and> quality src d (fm_block_size s) q = c)"
proof (cases "exact < fm_block_size s")
  case True
  let ?bs = "fm_block_size s" and ?thr = "threshold_bytes (fm_threshold s) (fm_block_size s)" and ?rng = "fm_search_range s"
  have p: "p < 2 ^ 62" and bs: "?bs < 2 ^ 62" using assms(1,4) by (simp_all add: search_setup_def)
  have rng: "s64 (int ?rng) = int ?rng" by (rule s64_of_nat[OF assms(3)])
  have i: "\<bar>int p\<bar> < 2 ^ 62" "- (2 ^ 62) < - int ?rng" "int ?rng < 2 ^ 62" using p assms(3) by simp_all
  show ?thesis
  proof (rule block_search_best_cases[OF assms(1) i, of ?thr], goal_cases)
    case 1
    have "?thr - 1 < ?thr" using threshold_bytes_pos[of "fm_threshold s" ?bs] by linarith
    then show ?thesis using 1(1) True assms(2,4,5) rng by (auto simp: choose_position_def Let_def)
  next
    case (2 x)
    have w: "s64 (int p + x) = int p + x" using i 2(2,3) by (intro s64_id) simp_all
    have c: "0 \<le> int p + x" "nat (int p + x) + ?bs \<le> length src" using 2(4) assms(2) by (simp_all add: candidate_def)
    have "pos_ok (fm_src_size s) ?bs (int p + x)" using c i 2(3) bs assms(2) by (simp add: pos_ok_iff)
    then show ?thesis using 2(1) True assms(2,4,5) rng w c by (auto simp: choose_position_def Let_def)
  qed
qed (use assms(4,5) in \<open>auto simp: choose_position_def Let_def\<close>)

section \<open>What a run does\<close>

text \<open>A hypothesis that was tried in vain: the source bytes it names are below the threshold.\<close>

definition hypothesis_fails :: "fsmap_stage \<Rightarrow> bytes \<Rightarrow> bytes \<Rightarrow> hypothesis \<Rightarrow> bool" where
  "hypothesis_fails s src dest h \<longleftrightarrow>
     (let bs = fm_block_size s in
      quality src (bytes_at (hy_dest_block h * bs) bs dest) bs (int (hy_src_pos h)) < threshold_bytes (fm_threshold s) bs)"

lemma fsmap_block_adds:
  assumes "fsmap_setup g s src dest" and "fm_block_size s = bs" and "thr = threshold_bytes (fm_threshold s) bs"
    and "tracker_sound src dest bs t" and "h < length (fm_hyps s)"
  shows "\<exists>e u pool'. fsmap_block A (fsd_block_search_count_fn g) s src dest stored h (t, pool) = (e, u, pool') \<and>
    (e = FSD_SUCCESS \<or> e = FSD_ERR_CANCELLED \<and> h mod CANCEL_CHECK_INTERVAL = 0 \<and> fsmap_cancelled s (stored h)) \<and>
    adds_partials src dest bs thr t u \<and> (generous A bs pool \<longrightarrow> generous A bs pool' \<and>
      (e = FSD_SUCCESS \<longrightarrow> fsd_block_tracker_is_unmatched u (hy_dest_block (fm_hyps s ! h)) \<longrightarrow>
         hypothesis_fails s src dest (fm_hyps s ! h)))"
proof -
  note refl = adds_partials_refl[OF assms(4), of thr]
  let ?i = "hy_dest_block (fm_hyps s ! h)" and ?p = "hy_src_pos (fm_hyps s ! h)" and ?cf = "fsd_block_search_count_fn g"
  let ?d = "bytes_at (?i * bs) bs dest"
  let ?q = "quality src ?d bs (int ?p)"
  show ?thesis
  proof (cases "\<not> (h mod CANCEL_CHECK_INTERVAL = 0 \<and> fsmap_cancelled s (stored h)) \<and> fsd_block_tracker_is_unmatched t ?i")
    case True
    note d = unmatched_block_in[OF assms(4) conjunct2[OF True]]
    have p: "?p + bs \<le> length src" "length src < 2 ^ 62" using assms(1,2,5) by (simp_all add: fsmap_setup_def list_all_length)
    then have pos: "s64 (int ?p) = int ?p" by (intro s64_of_nat) simp
    have cf: "?cf = equal_bytes" using assms(1) count_fn_equal by (auto simp: fsmap_setup_def fun_eq_iff)
    then have ss: "search_setup ?cf src (fm_src_size s) ?d bs"
      using assms(1,2) d(1) by (simp add: search_setup_def fsmap_setup_def)
    have exact: "count_at ?cf src (nat (int ?p)) ?d 0 bs = Some ?q"
      using p(1) cf d(1) by (simp add: count_at_def quality_def)
    obtain q c where ch: "choose_position ?cf s src ?d (int ?p) ?q = Some (q, c)" "?q \<le> c"
      "c < thr \<or> 0 \<le> q \<and> nat q + bs \<le> length src \<and> quality src ?d bs q = c"
      using choose_position_cases[of ?cf src s ?d ?p ?q] ss p(1) assms(1-3) by (auto simp: fsmap_setup_def)
    have thr: "thr \<le> bs" using assms(1-3) by (simp add: fsmap_setup_def)
    show ?thesis
    proof (cases "c < thr")
      case lo: True
      then have "?q < bs" using ch(2) thr by simp
      then show ?thesis
        using True lo d(2) pos exact ch refl assms(2,3)
        by (auto simp: fsmap_block_def hypothesis_fails_def Let_def)
    next
      case False
      with ch(3) have q: "0 \<le> q" "nat q + bs \<le> length src" "thr \<le> quality src ?d bs (int (nat q))" by auto
      show ?thesis
        by (rule record_partial_outcomes[OF assms(4) conjunct2[OF True] q(2,3), of A pool])
          (use True False d(2) pos exact ch(1) refl assms(2,3) in \<open>auto simp: fsmap_block_def Let_def\<close>)
    qed
  next
    case False
    then show ?thesis using refl by (auto simp: fsmap_block_def Let_def)
  qed
qed

lemma fsmap_run_adds:
  assumes "fsmap_setup g s src dest" and "fm_block_size s = bs" and "thr = threshold_bytes (fm_threshold s) bs"
    and "tracker_sound src dest bs t"
  shows "\<exists>e u pool'. fsd_fsmap_stage_run g A s src dest stored (t, pool) = (e, u, pool') \<and>
    (e = FSD_SUCCESS \<or> e = FSD_ERR_CANCELLED \<and> (\<exists>h. fsmap_cancelled s (stored h))) \<and>
    adds_partials src dest bs thr t u \<and>
    (generous A bs pool \<and> e = FSD_SUCCESS \<and> \<not> fm_inactive s \<longrightarrow>
      (\<forall>h < length (fm_hyps s). fsd_block_tracker_is_unmatched u (hy_dest_block (fm_hyps s ! h)) \<longrightarrow>
         hypothesis_fails s src dest (fm_hyps s ! h)))"
proof (cases "fm_inactive s \<or> fm_hyps s = []")
  case False
  let ?body = "fsmap_block A (fsd_block_search_count_fn g) s src dest stored"
  let ?P = "\<lambda>k (u, p). adds_partials src dest bs thr t u \<and> (generous A bs pool \<longrightarrow> generous A bs p \<and>
      (\<forall>h < k. fsd_block_tracker_is_unmatched u (hy_dest_block (fm_hyps s ! h)) \<longrightarrow> hypothesis_fails s src dest (fm_hyps s ! h)))"
  let ?R = "\<lambda>e tp. e = FSD_ERR_CANCELLED \<and> (\<exists>h. fsmap_cancelled s (stored h)) \<and> adds_partials src dest bs thr t (fst tp)"
  obtain e u pool' where f: "for_loop 0 (length (fm_hyps s)) ?body (t, pool) = (e, u, pool')" by (metis prod_cases3)
  have "(e = FSD_SUCCESS \<longrightarrow> ?P (0 + length (fm_hyps s)) (u, pool')) \<and> (e \<noteq> FSD_SUCCESS \<longrightarrow> ?R e (u, pool'))"
  proof (rule for_loop_rule[OF _ f])
    show "?P 0 (t, pool)" using adds_partials_refl[OF assms(4)] by simp
    fix j tp e tp' assume P: "?P j tp" and b: "?body j tp = (e, tp')" and j: "0 \<le> j" "j < 0 + length (fm_hyps s)"
    obtain v p where tp: "tp = (v, p)" by fastforce
    have v: "tracker_sound src dest bs v" using P tp by (simp add: adds_partials_def)
    from fsmap_block_adds[OF assms(1-3) v, of j A stored p] j obtain v' p' where
      n: "tp' = (v', p')" "e = FSD_SUCCESS \<or> e = FSD_ERR_CANCELLED \<and> fsmap_cancelled s (stored j)" "adds_partials src dest bs thr v v'"
         "generous A bs p \<longrightarrow> generous A bs p' \<and> (e = FSD_SUCCESS \<longrightarrow>
            fsd_block_tracker_is_unmatched v' (hy_dest_block (fm_hyps s ! j)) \<longrightarrow> hypothesis_fails s src dest (fm_hyps s ! j))"
      using b tp by auto
    show "(e = FSD_SUCCESS \<longrightarrow> ?P (Suc j) tp') \<and> (e \<noteq> FSD_SUCCESS \<longrightarrow> ?R e tp')"
      using P tp n adds_partials_trans[OF _ n(3)] adds_partials_unmatched[OF v n(3)] by (auto simp: less_Suc_eq)
  qed
  then show ?thesis using f False by (auto simp: fsd_fsmap_stage_run_def)
qed (use adds_partials_refl[OF assms(4)] in \<open>auto simp: fsd_fsmap_stage_run_def\<close>)

section \<open>Where a file's bytes are\<close>

text \<open>
  \<^verbatim>\<open>file_at exts fs_bs l n p\<close>: the \<^verbatim>\<open>n\<close> bytes of the file from its byte \<^verbatim>\<open>l\<close> on are contiguous in the
  image and start at \<^verbatim>\<open>p\<close>.
\<close>

definition file_at :: "ext_extent list \<Rightarrow> nat \<Rightarrow> nat \<Rightarrow> nat \<Rightarrow> nat \<Rightarrow> bool" where
  "file_at exts fs_bs l n p \<longleftrightarrow>
     (\<exists>x \<in> set exts. ex_logical x * fs_bs \<le> l \<and> l + n \<le> (ex_logical x + ex_count x) * fs_bs \<and>
        p = ex_physical x * fs_bs + (l - ex_logical x * fs_bs))"

lemma extent_bounds:
  assumes "fs_ok fs" and "extent_ok fs x"
  shows "ex_logical x * x_block_size fs < 2 ^ 44" "ex_count x * x_block_size fs < 2 ^ 62"
    "ex_physical x * x_block_size fs + ex_count x * x_block_size fs \<le> length (x_image fs)"
    "length (x_image fs) < 2 ^ 62" "0 < x_block_size fs"
proof -
  have "ex_logical x * x_block_size fs \<le> ex_logical x * 4096" using assms(1) by (simp add: fs_ok_def)
  also have "\<dots> < 2 ^ 32 * 4096" using assms(2) by (simp add: extent_ok_def)
  finally show "ex_logical x * x_block_size fs < 2 ^ 44" by simp
  show img: "ex_physical x * x_block_size fs + ex_count x * x_block_size fs \<le> length (x_image fs)"
    using extent_in_image[OF assms] by (simp add: algebra_simps)
  show len: "length (x_image fs) < 2 ^ 62" and "0 < x_block_size fs" using assms(1) by (simp_all add: fs_ok_def)
  show "ex_count x * x_block_size fs < 2 ^ 62" using img len by linarith
qed

lemma map_range_in_file_at:
  assumes "fs_ok fs" and "list_all (extent_ok fs) xs" and "l + n < 2 ^ 64" and "map_range_in xs (x_block_size fs) l n = Some p"
  shows "file_at xs (x_block_size fs) l n p \<and> p + n \<le> length (x_image fs)"
  using assms(2,4)
proof (induction xs)
  case (Cons x xs)
  let ?bs = "x_block_size fs"
  have x: "extent_ok fs x" using Cons.prems(1) by simp
  note b = extent_bounds[OF assms(1) x]
  have w: "u64 (ex_logical x * ?bs) = ex_logical x * ?bs" "u64 (ex_count x * ?bs) = ex_count x * ?bs"
    "u64 (ex_logical x * ?bs + ex_count x * ?bs) = ex_logical x * ?bs + ex_count x * ?bs" "u64 (l + n) = l + n"
    using b assms(3) by (simp_all add: u64_id)
  show ?case
  proof (cases "ex_logical x * ?bs \<le> l \<and> l + n \<le> ex_logical x * ?bs + ex_count x * ?bs")
    case True
    then have "ex_physical x * ?bs + (l - ex_logical x * ?bs) + n \<le> length (x_image fs)" using b(3) by linarith
    moreover from this b(4) have "u64 (ex_physical x * ?bs + (l - ex_logical x * ?bs)) = ex_physical x * ?bs + (l - ex_logical x * ?bs)"
      by (intro u64_id) simp
    ultimately show ?thesis
      using True Cons.prems(2) w by (auto simp: file_at_def Let_def add_mult_distrib)
  next
    case False
    then show ?thesis using Cons w by (auto simp: file_at_def Let_def)
  qed
qed simp

text \<open>The blocks between the first and the end block of an extent lie inside it.\<close>

lemma extent_blocks:
  assumes "fs_ok fs" and "extent_ok fs x" and "0 < bs" and "bs < 2 ^ 62"
    and "b \<in> set [extent_first_block bs (x_block_size fs) x..<extent_end_block bs (x_block_size fs) x]"
  shows "ex_physical x * x_block_size fs \<le> b * bs" "b * bs + bs \<le> ex_physical x * x_block_size fs + ex_count x * x_block_size fs"
proof -
  let ?lo = "ex_physical x * x_block_size fs" and ?n = "ex_count x * x_block_size fs"
  note e = extent_bounds[OF assms(1,2)]
  have w: "u64 ?lo = ?lo" "u64 ?n = ?n" "u64 (?lo + ?n) = ?lo + ?n" "u64 (?lo + bs - 1) = ?lo + bs - 1"
    using e(3,4) assms(3,4) by (simp_all add: u64_id)
  have first: "(?lo + bs - 1) div bs \<le> b" and last: "b < (?lo + ?n) div bs"
    using assms(5) w by (simp_all add: extent_first_block_def extent_end_block_def)
  have "?lo \<le> (?lo + bs - 1) div bs * bs"
  proof -
    have "(?lo + bs - 1) mod bs < bs" using assms(3) by simp
    moreover have "(?lo + bs - 1) div bs * bs + (?lo + bs - 1) mod bs = ?lo + bs - 1" by (rule div_mult_mod_eq)
    ultimately show ?thesis by linarith
  qed
  also have "\<dots> \<le> b * bs" using first by (rule mult_le_mono1)
  finally show "?lo \<le> b * bs" .
  have "(b + 1) * bs \<le> (?lo + ?n) div bs * bs" using last by (intro mult_le_mono1) simp
  also have "\<dots> \<le> ?lo + ?n" by simp
  finally show "b * bs + bs \<le> ?lo + ?n" by simp
qed

lemma find_in_chain_sound: "find_in_chain files crc path es = Some f \<Longrightarrow> f \<in> set files \<and> sf_path f = path"
  by (induction es) (auto split: if_splits)

lemma src_file_find_sound: "src_file_find s path = Some f \<Longrightarrow> f \<in> set (fm_src_files s) \<and> sf_path f = path"
  using find_in_chain_sound by (fastforce simp: src_file_find_def Let_def split: option.splits)

section \<open>What the destination walk collects\<close>

text \<open>
  A hypothesis for a file: the destination block is at some offset of the file in the destination,
  and the position is at the same offset of a source file with the same path.
\<close>

definition same_offset :: "src_file list \<Rightarrow> nat \<Rightarrow> nat \<Rightarrow> nat \<Rightarrow> bytes \<Rightarrow> ext_extent list \<Rightarrow> hypothesis \<Rightarrow> bool" where
  "same_offset files bs dest_fs_bs src_fs_bs path exts h \<longleftrightarrow>
     (\<exists>l. file_at exts dest_fs_bs l bs (hy_dest_block h * bs) \<and>
        (\<exists>f \<in> set files. sf_path f = path \<and> file_at (sf_ext f) src_fs_bs l bs (hy_src_pos h)))"

definition collected :: "(hypothesis \<Rightarrow> bool) \<Rightarrow> dest_walk_ctx \<Rightarrow> dest_walk_ctx \<Rightarrow> bool" where
  "collected H ctx ctx' \<longleftrightarrow> (\<exists>new cap stop n.
     ctx' = ctx\<lparr>dw_stage := (dw_stage ctx)\<lparr>fm_hyps := fm_hyps (dw_stage ctx) @ new, fm_cap_hyps := cap\<rparr>,
       dw_oom := stop, dw_files_no_src_path := n\<rparr> \<and> list_all H new)"

lemma collectedI:
  "ctx' = ctx\<lparr>dw_stage := (dw_stage ctx)\<lparr>fm_hyps := fm_hyps (dw_stage ctx) @ new, fm_cap_hyps := cap\<rparr>,
     dw_oom := stop, dw_files_no_src_path := n\<rparr> \<Longrightarrow> list_all H new \<Longrightarrow> collected H ctx ctx'"
  unfolding collected_def by blast

lemma collected_refl [simp]: "collected H ctx ctx"
  by (rule collectedI[where new = "[]" and cap = "fm_cap_hyps (dw_stage ctx)" and stop = "dw_oom ctx" and n = "dw_files_no_src_path ctx"]) simp_all

lemma collected_trans:
  assumes "collected H c c'" and "collected H c' c''"
  shows "collected H c c''"
proof -
  obtain new cap stop n where 1: "c' = c\<lparr>dw_stage := (dw_stage c)\<lparr>fm_hyps := fm_hyps (dw_stage c) @ new, fm_cap_hyps := cap\<rparr>,
       dw_oom := stop, dw_files_no_src_path := n\<rparr>" "list_all H new" using assms(1) by (auto simp: collected_def)
  obtain new' cap' stop' n' where 2: "c'' = c'\<lparr>dw_stage := (dw_stage c')\<lparr>fm_hyps := fm_hyps (dw_stage c') @ new', fm_cap_hyps := cap'\<rparr>,
       dw_oom := stop', dw_files_no_src_path := n'\<rparr>" "list_all H new'" using assms(2) by (auto simp: collected_def)
  show ?thesis by (rule collectedI[where new = "new @ new'" and cap = cap' and stop = stop' and n = n']) (use 1 2 in simp_all)
qed

lemma collected_mono: "collected H c c' \<Longrightarrow> (\<And>h. H h \<Longrightarrow> H' h) \<Longrightarrow> collected H' c c'"
  unfolding collected_def by (metis (no_types, lifting) list.pred_mono_strong)

lemma collected_frame:
  assumes "collected H c c'"
  shows "dw_tracker c' = dw_tracker c" "dw_dest_fs_bs c' = dw_dest_fs_bs c" "dw_src_fs_bs c' = dw_src_fs_bs c"
    "fm_src_files (dw_stage c') = fm_src_files (dw_stage c)" "fm_block_size (dw_stage c') = fm_block_size (dw_stage c)"
    "fm_src_size (dw_stage c') = fm_src_size (dw_stage c)"
  using assms by (auto simp: collected_def)

text \<open>The file table: every entry is a file of the source under its path.\<close>

definition files_ok :: "extfs \<Rightarrow> fsmap_stage \<Rightarrow> bool" where
  "files_ok fs s \<longleftrightarrow> (\<forall>f \<in> set (fm_src_files s). list_all (extent_ok fs) (sf_ext f) \<and>
     (\<exists>ino. names fs (sf_path f) ino \<and> maps_to fs ino (sf_ext f)))"

text \<open>What the loops of the callback need to know of the two file systems and the context.\<close>

definition walk_setup :: "extfs \<Rightarrow> extfs \<Rightarrow> nat \<Rightarrow> dest_walk_ctx \<Rightarrow> bool" where
  "walk_setup src_fs dest_fs bs ctx \<longleftrightarrow> fs_ok src_fs \<and> fs_ok dest_fs \<and> 0 < bs \<and> bs < 2 ^ 62 \<and>
     fm_block_size (dw_stage ctx) = bs \<and> dw_dest_fs_bs ctx = x_block_size dest_fs \<and> dw_src_fs_bs ctx = x_block_size src_fs \<and>
     files_ok src_fs (dw_stage ctx)"

lemma walk_setup_collected: "walk_setup src_fs dest_fs bs ctx \<Longrightarrow> collected H ctx ctx' \<Longrightarrow> walk_setup src_fs dest_fs bs ctx'"
  using collected_frame[of H ctx ctx'] by (simp add: walk_setup_def files_ok_def)

text \<open>A hypothesis the callback adds for the file \<^verbatim>\<open>path\<close> with extents \<^verbatim>\<open>exts\<close>.\<close>

definition good_hyp :: "extfs \<Rightarrow> dest_walk_ctx \<Rightarrow> bytes \<Rightarrow> ext_extent list \<Rightarrow> hypothesis \<Rightarrow> bool" where
  "good_hyp src_fs ctx path exts h \<longleftrightarrow>
     hy_dest_block h < t_count (dw_tracker ctx) \<and> fsd_block_tracker_is_unmatched (dw_tracker ctx) (hy_dest_block h) \<and>
     hy_src_pos h + fm_block_size (dw_stage ctx) \<le> length (x_image src_fs) \<and>
     same_offset (fm_src_files (dw_stage ctx)) (fm_block_size (dw_stage ctx)) (dw_dest_fs_bs ctx) (dw_src_fs_bs ctx) path exts h"

lemma good_hyp_collected: "collected H ctx ctx' \<Longrightarrow> good_hyp src_fs ctx' path exts = good_hyp src_fs ctx path exts"
  using collected_frame[of H ctx ctx'] by (simp add: good_hyp_def fun_eq_iff)

text \<open>The offset in the file of a block inside an extent.\<close>

lemma block_file_offset:
  assumes "fs_ok fs" and "extent_ok fs x" and "bs < 2 ^ 62" and "ex_physical x * x_block_size fs \<le> b * bs"
    and "b * bs + bs \<le> ex_physical x * x_block_size fs + ex_count x * x_block_size fs" and "x \<in> set exts"
  defines "l \<equiv> ex_logical x * x_block_size fs + (b * bs - ex_physical x * x_block_size fs)"
  shows "u64 (ex_logical x * x_block_size fs + u64_sub (u64 (b * bs)) (u64 (ex_physical x * x_block_size fs))) = l"
    "l + bs < 2 ^ 64" "file_at exts (x_block_size fs) l bs (b * bs)"
proof -
  note e = extent_bounds[OF assms(1,2)]
  have w: "b * bs < 2 ^ 64" "ex_physical x * x_block_size fs < 2 ^ 64" using e(3,4) assms(4,5) by simp_all
  have l: "l < 2 ^ 63" using e assms(4,5) by (simp add: l_def)
  have "l < 2 ^ 64" using l by simp
  from u64_id[OF this] show "u64 (ex_logical x * x_block_size fs + u64_sub (u64 (b * bs)) (u64 (ex_physical x * x_block_size fs))) = l"
    unfolding u64_id[OF w(1)] u64_id[OF w(2)] u64_sub_le[OF assms(4) w(1)] l_def .
  show "l + bs < 2 ^ 64" using l assms(3) by simp
  show "file_at exts (x_block_size fs) l bs (b * bs)"
    unfolding file_at_def
  proof (intro bexI[of _ x] conjI)
    show "l + bs \<le> (ex_logical x + ex_count x) * x_block_size fs"
      unfolding add_mult_distrib l_def using assms(4,5) by linarith
  qed (use assms(4,6) in \<open>simp_all add: l_def\<close>)
qed

lemma hyp_append_cases:
  obtains "hyp_append malloc_ok b p s = (False, s)"
  | cap where "hyp_append malloc_ok b p s =
      (True, s\<lparr>fm_hyps := fm_hyps s @ [\<lparr>hy_dest_block = b, hy_src_pos = p\<rparr>], fm_cap_hyps := cap\<rparr>)"
proof -
  let ?full = "length (fm_hyps s) = fm_cap_hyps s"
  let ?cap = "if ?full then (if fm_cap_hyps s \<noteq> 0 then fm_cap_hyps s * 2 else 4096) else fm_cap_hyps s"
  show thesis
  proof (cases "?full \<and> \<not> malloc_ok (?cap * sizeof_hypothesis)")
    case True
    then have "hyp_append malloc_ok b p s = (False, s)" unfolding hyp_append_def Let_def by (rule if_P)
    then show thesis by (rule that(1))
  next
    case False
    then have "hyp_append malloc_ok b p s =
        (True, s\<lparr>fm_cap_hyps := ?cap, fm_hyps := fm_hyps s @ [\<lparr>hy_dest_block = b, hy_src_pos = p\<rparr>]\<rparr>)"
      unfolding hyp_append_def Let_def by (rule if_not_P)
    then show thesis by (intro that(2)[of ?cap]) simp
  qed
qed

lemma hyp_append_collected:
  assumes "hyp_append malloc_ok b p (dw_stage ctx) = (ok, s)" and "H \<lparr>hy_dest_block = b, hy_src_pos = p\<rparr>"
  shows "collected H ctx (if ok then ctx\<lparr>dw_stage := s\<rparr> else ctx\<lparr>dw_oom := True\<rparr>)"
proof (cases malloc_ok b p "dw_stage ctx" rule: hyp_append_cases)
  case 1
  then show ?thesis
    using assms(1) by (intro collectedI[where new = "[]" and cap = "fm_cap_hyps (dw_stage ctx)" and stop = True and
      n = "dw_files_no_src_path ctx"]) simp_all
next
  case (2 cap)
  then show ?thesis
    using assms by (intro collectedI[where new = "[\<lparr>hy_dest_block = b, hy_src_pos = p\<rparr>]" and cap = cap and
      stop = "dw_oom ctx" and n = "dw_files_no_src_path ctx"]) auto
qed

text \<open>A position found for an unmatched block is a hypothesis of the right kind.\<close>

lemma block_hypothesis:
  assumes w: "walk_setup src_fs dest_fs bs ctx" and x: "extent_ok dest_fs x" "x \<in> set exts"
    and b: "b < t_count (dw_tracker ctx)" "fsd_block_tracker_is_unmatched (dw_tracker ctx) b"
      "ex_physical x * x_block_size dest_fs \<le> b * bs"
      "b * bs + bs \<le> ex_physical x * x_block_size dest_fs + ex_count x * x_block_size dest_fs"
    and f: "f \<in> set (fm_src_files (dw_stage ctx))" "sf_path f = path"
    and p: "src_map_range f (x_block_size src_fs)
      (ex_logical x * x_block_size dest_fs + (b * bs - ex_physical x * x_block_size dest_fs)) bs = Some p"
  shows "good_hyp src_fs ctx path exts \<lparr>hy_dest_block = b, hy_src_pos = p\<rparr>"
proof -
  have st: "fs_ok src_fs" "fs_ok dest_fs" "bs < 2 ^ 62" "fm_block_size (dw_stage ctx) = bs" "dw_dest_fs_bs ctx = x_block_size dest_fs"
    "dw_src_fs_bs ctx = x_block_size src_fs" "files_ok src_fs (dw_stage ctx)"
    using w by (simp_all add: walk_setup_def)
  note lb = block_file_offset[OF st(2) x(1) st(3) b(3,4) x(2)]
  have "list_all (extent_ok src_fs) (sf_ext f)" using f(1) st(7) by (simp add: files_ok_def)
  from map_range_in_file_at[OF st(1) this lb(2) p[unfolded src_map_range_def]]
  show ?thesis using b(1,2) f lb(3) st by (auto simp: good_hyp_def same_offset_def)
qed

lemma dest_blocks_loop_collects:
  assumes "extent_ok dest_fs x" and "x \<in> set exts"
  shows "walk_setup src_fs dest_fs bs ctx \<Longrightarrow>
    (\<And>b. b \<in> set blocks \<Longrightarrow> ex_physical x * x_block_size dest_fs \<le> b * bs \<and>
       b * bs + bs \<le> ex_physical x * x_block_size dest_fs + ex_count x * x_block_size dest_fs) \<Longrightarrow>
    (\<And>f. sf = Some (Some f) \<Longrightarrow> f \<in> set (fm_src_files (dw_stage ctx)) \<and> sf_path f = path) \<Longrightarrow>
    dest_blocks_loop malloc_ok path x blocks sf ctx = (r, sf', ctx') \<Longrightarrow>
    collected (good_hyp src_fs ctx path exts) ctx ctx' \<and>
    (\<forall>f. sf' = Some (Some f) \<longrightarrow> f \<in> set (fm_src_files (dw_stage ctx)) \<and> sf_path f = path)"
proof (induction blocks arbitrary: sf ctx)
  case (Cons b blocks)
  let ?s = "dw_stage ctx"
  let ?H = "good_hyp src_fs ctx path exts"
  note IH = Cons.IH[OF _ Cons.prems(2)]
  show ?case
  proof (cases "t_count (dw_tracker ctx) \<le> b \<or> \<not> fsd_block_tracker_is_unmatched (dw_tracker ctx) b")
    case True
    then show ?thesis using IH[of ctx sf] Cons.prems by (simp add: Let_def)
  next
    case open_block: False
    let ?found = "case sf of Some r \<Rightarrow> r | None \<Rightarrow> src_file_find ?s path"
    show ?thesis
    proof (cases ?found)
      case None
      have "collected ?H ctx (ctx\<lparr>dw_files_no_src_path := n\<rparr>)" for n
        by (rule collectedI[where new = "[]" and cap = "fm_cap_hyps ?s" and stop = "dw_oom ctx" and n = n]) auto
      then show ?thesis using open_block None Cons.prems(4) by (auto simp: Let_def split: if_splits)
    next
      case (Some f)
      have f: "f \<in> set (fm_src_files ?s)" "sf_path f = path"
        using Some Cons.prems(3) src_file_find_sound by (auto split: option.splits)
      define l where "l = ex_logical x * x_block_size dest_fs + (b * bs - ex_physical x * x_block_size dest_fs)"
      have st: "fs_ok dest_fs" "bs < 2 ^ 62" "fm_block_size ?s = bs" "dw_dest_fs_bs ctx = x_block_size dest_fs"
        "dw_src_fs_bs ctx = x_block_size src_fs"
        using Cons.prems(1) by (simp_all add: walk_setup_def)
      have b: "ex_physical x * x_block_size dest_fs \<le> b * bs"
        "b * bs + bs \<le> ex_physical x * x_block_size dest_fs + ex_count x * x_block_size dest_fs" using Cons.prems(2) by auto
      note lb = block_file_offset(1)[OF st(1) assms(1) st(2) b assms(2), folded l_def]
      have rec: "collected ?H ctx ctx' \<and> (\<forall>f. sf' = Some (Some f) \<longrightarrow> f \<in> set (fm_src_files ?s) \<and> sf_path f = path)"
        if "dest_blocks_loop malloc_ok path x blocks (Some (Some f)) ctx2 = (r, sf', ctx')" "collected ?H ctx ctx2" for ctx2
        using IH[OF walk_setup_collected[OF Cons.prems(1) that(2)] _ _ that(1)] f that(2) collected_frame[OF that(2)]
          good_hyp_collected[OF that(2)] collected_trans by simp
      note step = open_block Some Cons.prems(4) st lb rec[of ctx] f
      show ?thesis
      proof (cases "src_map_range f (x_block_size src_fs) l bs")
        case None
        then show ?thesis using step by (simp add: Let_def)
      next
        case p: (Some p)
        have good: "?H \<lparr>hy_dest_block = b, hy_src_pos = p\<rparr>"
          using open_block p unfolding l_def by (intro block_hypothesis[OF Cons.prems(1) assms _ _ b f]) auto
        obtain ok s where ha: "hyp_append malloc_ok b p ?s = (ok, s)" by fastforce
        from hyp_append_collected[OF this, of ?H, OF good] rec[of "ctx\<lparr>dw_stage := s\<rparr>"]
        show ?thesis using step p ha by (auto simp: Let_def split: if_splits)
      qed
    qed
  qed
qed simp

lemma dest_extents_loop_collects:
  assumes "list_all (extent_ok dest_fs) exts"
  shows "set xs \<subseteq> set exts \<Longrightarrow> walk_setup src_fs dest_fs bs ctx \<Longrightarrow>
    (\<And>f. sf = Some (Some f) \<Longrightarrow> f \<in> set (fm_src_files (dw_stage ctx)) \<and> sf_path f = path) \<Longrightarrow>
    collected (good_hyp src_fs ctx path exts) ctx (snd (dest_extents_loop malloc_ok path xs sf ctx))"
proof (induction xs arbitrary: sf ctx)
  case (Cons x xs)
  have x: "x \<in> set exts" "extent_ok dest_fs x" using Cons.prems(1) assms by (auto simp: list_all_iff)
  have st: "fs_ok dest_fs" "0 < bs" "bs < 2 ^ 62" "fm_block_size (dw_stage ctx) = bs" "dw_dest_fs_bs ctx = x_block_size dest_fs"
    using Cons.prems(2) by (simp_all add: walk_setup_def)
  let ?blocks = "[extent_first_block bs (x_block_size dest_fs) x..<extent_end_block bs (x_block_size dest_fs) x]"
  obtain r sf' ctx' where b: "dest_blocks_loop malloc_ok path x ?blocks sf ctx = (r, sf', ctx')" by (metis prod_cases3)
  have c: "collected (good_hyp src_fs ctx path exts) ctx ctx'"
    "\<forall>f. sf' = Some (Some f) \<longrightarrow> f \<in> set (fm_src_files (dw_stage ctx)) \<and> sf_path f = path"
    using dest_blocks_loop_collects[OF x(2,1) Cons.prems(2) _ Cons.prems(3) b] extent_blocks[OF st(1) x(2) st(2,3)] by blast+
  show ?case
  proof (cases r)
    case None
    have "collected (good_hyp src_fs ctx' path exts) ctx' (snd (dest_extents_loop malloc_ok path xs sf' ctx'))"
      by (rule Cons.IH[OF _ walk_setup_collected[OF Cons.prems(2) c(1)]])
        (use Cons.prems(1) c collected_frame[OF c(1)] in auto)
    then show ?thesis
      using collected_trans[OF c(1)] good_hyp_collected[OF c(1)] None b st by (simp add: Let_def)
  qed (use c b st in \<open>simp add: Let_def\<close>)
qed simp

section \<open>The two walks\<close>

text \<open>The source walk touches only the file table, its index and their pool.\<close>

definition same_config :: "fsmap_stage \<Rightarrow> fsmap_stage \<Rightarrow> bool" where
  "same_config s s' \<longleftrightarrow> fm_block_size s' = fm_block_size s \<and> fm_threshold s' = fm_threshold s \<and>
     fm_search_range s' = fm_search_range s \<and> fm_cancel s' = fm_cancel s \<and> fm_cancel2 s' = fm_cancel2 s \<and>
     fm_hyps s' = fm_hyps s \<and> fm_src_size s' = fm_src_size s \<and> fm_dest_size s' = fm_dest_size s \<and>
     fm_inactive s' = fm_inactive s"

lemma src_walk_cb_keeps: "keeps fs (\<lambda>(s, oom). same_config s0 s \<and> files_ok fs s) (src_walk_cb A)"
  by (auto simp: keeps_def src_walk_cb_def same_config_def files_ok_def extents_ok_def Let_def
      split: prod.splits option.splits)

definition explained :: "extfs \<Rightarrow> extfs \<Rightarrow> dest_walk_ctx \<Rightarrow> hypothesis \<Rightarrow> bool" where
  "explained src_fs dest_fs ctx h \<longleftrightarrow> (\<exists>path ino exts. names dest_fs path ino \<and> maps_to dest_fs ino exts \<and>
     list_all (extent_ok dest_fs) exts \<and> good_hyp src_fs ctx path exts h)"

lemma dest_walk_cb_keeps:
  assumes "walk_setup src_fs dest_fs bs ctx0"
  shows "keeps dest_fs (collected (explained src_fs dest_fs ctx0) ctx0) (dest_walk_cb malloc_ok)"
  unfolding keeps_def
proof (intro allI impI)
  fix path ino fsize exts ctx
  assume c: "collected (explained src_fs dest_fs ctx0) ctx0 ctx" and x: "extents_ok dest_fs exts"
    and n: "names dest_fs path ino" "maps_to dest_fs ino exts"
  have "collected (good_hyp src_fs ctx path exts) ctx (snd (dest_walk_cb malloc_ok path ino fsize exts ctx))"
    unfolding dest_walk_cb_def
    by (rule dest_extents_loop_collects[OF _ _ walk_setup_collected[OF assms c]]) (use x in \<open>auto simp: extents_ok_def\<close>)
  then have "collected (explained src_fs dest_fs ctx0) ctx (snd (dest_walk_cb malloc_ok path ino fsize exts ctx))"
    by (rule collected_mono) (use x n good_hyp_collected[OF c] in \<open>auto simp: explained_def extents_ok_def\<close>)
  then show "collected (explained src_fs dest_fs ctx0) ctx0 (snd (dest_walk_cb malloc_ok path ino fsize exts ctx))"
    by (rule collected_trans[OF c])
qed

section \<open>Sorting and dropping duplicates\<close>

lemma hyp_cmp_key: "hyp_cmp a b < 0 \<longleftrightarrow> hyp_key a < hyp_key b" "hyp_cmp a b = 0 \<longleftrightarrow> a = b"
  by (auto simp: hyp_cmp_def hyp_key_def less_prod_def intro: hypothesis.equality)

lemma drop_duplicates_spec:
  "sorted (map hy_dest_block (k # hs)) \<Longrightarrow>
     sorted_wrt (<) (map hy_dest_block (drop_duplicates k hs)) \<and> set (drop_duplicates k hs) \<subseteq> insert k (set hs) \<and>
     hy_dest_block ` set (drop_duplicates k hs) = hy_dest_block ` insert k (set hs)"
proof (induction hs arbitrary: k)
  case (Cons h hs)
  show ?case
  proof (cases "hy_dest_block h = hy_dest_block k")
    case True
    then show ?thesis using Cons.IH[of k] Cons.prems by auto
  next
    case False
    then have lt: "hy_dest_block k < hy_dest_block h" using Cons.prems by simp
    note IH = Cons.IH[of h]
    have "hy_dest_block k < hy_dest_block x" if "x \<in> set (drop_duplicates h hs)" for x
    proof -
      have "x \<in> insert h (set hs)" using IH that Cons.prems by auto
      then show ?thesis using lt Cons.prems by force
    qed
    then show ?thesis using False IH Cons.prems by (auto simp: image_iff)
  qed
qed simp

lemma tidy_hyps_spec:
  "sorted_wrt (<) (map hy_dest_block (tidy_hyps hs)) \<and> set (tidy_hyps hs) \<subseteq> set hs \<and>
   hy_dest_block ` set (tidy_hyps hs) = hy_dest_block ` set hs"
proof (cases "1 < length hs")
  case True
  have "sorted (map hyp_key (sort_hyps hs))" by (simp add: sort_hyps_def)
  then have "sorted (map hy_dest_block (sort_hyps hs))"
    by (auto simp: sorted_map hyp_key_def elim!: sorted_wrt_mono_rel[rotated])
  moreover have "set (sort_hyps hs) = set hs" by (simp add: sort_hyps_def)
  moreover obtain k ks where "sort_hyps hs = k # ks" using True calculation(2) by (cases "sort_hyps hs") auto
  ultimately show ?thesis using drop_duplicates_spec[of k ks] True by (auto simp: tidy_hyps_def)
next
  case False
  then consider "hs = []" | h where "hs = [h]" by (cases hs; cases "tl hs") auto
  then show ?thesis by cases (simp_all add: tidy_hyps_def)
qed

section \<open>The index is sound\<close>

lemma file_at_bound:
  assumes "fs_ok fs" and "list_all (extent_ok fs) exts" and "file_at exts (x_block_size fs) l n p"
  shows "p + n \<le> length (x_image fs)"
proof -
  obtain x where x: "extent_ok fs x" "ex_logical x * x_block_size fs \<le> l" "l + n \<le> (ex_logical x + ex_count x) * x_block_size fs"
      "p = ex_physical x * x_block_size fs + (l - ex_logical x * x_block_size fs)"
    using assms(2,3) by (auto simp: file_at_def list_all_iff)
  then show ?thesis using extent_bounds(3)[OF assms(1) x(1)] unfolding add_mult_distrib by linarith
qed

text \<open>The file with path \<^verbatim>\<open>path\<close> has its \<^verbatim>\<open>n\<close> bytes from offset \<^verbatim>\<open>l\<close> on at position \<^verbatim>\<open>p\<close> of the image.\<close>

definition file_has :: "extfs \<Rightarrow> bytes \<Rightarrow> nat \<Rightarrow> nat \<Rightarrow> nat \<Rightarrow> bool" where
  "file_has fs path l n p \<longleftrightarrow> (\<exists>ino exts. names fs path ino \<and> maps_to fs ino exts \<and> file_at exts (x_block_size fs) l n p)"

text \<open>What the index holds when the stage is active.\<close>

definition index_sound :: "extfs \<Rightarrow> extfs \<Rightarrow> nat \<Rightarrow> block_tracker \<Rightarrow> fsmap_stage \<Rightarrow> bool" where
  "index_sound src_fs dest_fs bs t s \<longleftrightarrow> sorted_wrt (<) (map hy_dest_block (fm_hyps s)) \<and>
     list_all (\<lambda>h. hy_dest_block h < t_count t \<and> fsd_block_tracker_is_unmatched t (hy_dest_block h) \<and>
       hy_src_pos h + bs \<le> length (x_image src_fs) \<and> hy_dest_block h * bs + bs \<le> length (x_image dest_fs) \<and>
       (\<exists>path l. file_has dest_fs path l bs (hy_dest_block h * bs) \<and> file_has src_fs path l bs (hy_src_pos h))) (fm_hyps s)"

lemma index_walks_sound:
  assumes "fs_ok src_fs" and "fs_ok dest_fs" and "fm_block_size s = bs" and "0 < bs" and "bs < 2 ^ 62"
    and "fm_hyps s = []" and "fm_src_files s = []" and "fm_inactive s"
  shows "\<exists>e s'. index_walks env src_fs dest_fs t s = (e, s') \<and> e \<in> {FSD_SUCCESS, FSD_ERR_OUT_OF_MEMORY} \<and>
    fm_inactive s' = (e \<noteq> FSD_SUCCESS) \<and> same_config s (s'\<lparr>fm_hyps := [], fm_inactive := True\<rparr>) \<and>
    (e = FSD_SUCCESS \<longrightarrow> index_sound src_fs dest_fs bs t s')"
proof (cases "fsd_pool_create (fe_pool env) (fe_pool_struct env) (1024 * 1024) 0")
  case (Inr pool)
  obtain r pool' where h: "fsd_hash_table_create (fe_pool env) 16384 pool = (r, pool')" by fastforce
  show ?thesis
  proof (cases r)
    case (Inr table)
    let ?s = "s\<lparr>fm_pool := Some pool', fm_path_hash := Some table\<rparr>"
    have "same_config s ?s \<and> files_ok src_fs ?s" using assms(7) by (simp add: same_config_def files_ok_def)
    with walk_returns[OF assms(1) src_walk_cb_keeps, of s "(?s, False)" "fe_malloc env" "fe_pool env"]
    obtain e1 s1 oom1 where w1: "fsd_extfs_walk (fe_malloc env) src_fs (src_walk_cb (fe_pool env)) (?s, False) = Some (e1, s1, oom1)"
        "same_config s s1" "files_ok src_fs s1"
      by (auto simp: returns_def)
    let ?ctx = "\<lparr>dw_stage = s1, dw_tracker = t, dw_dest_fs_bs = x_block_size dest_fs, dw_src_fs_bs = x_block_size src_fs,
        dw_oom = False, dw_files_no_src_path = 0\<rparr>"
    have ctx: "walk_setup src_fs dest_fs bs ?ctx"
      using assms w1 by (simp add: walk_setup_def same_config_def)
    from walk_returns[OF assms(2) dest_walk_cb_keeps[OF ctx] collected_refl, of "fe_malloc env" "fe_malloc env"]
    obtain e2 c2 where w2: "fsd_extfs_walk (fe_malloc env) dest_fs (dest_walk_cb (fe_malloc env)) ?ctx = Some (e2, c2)"
        "collected (explained src_fs dest_fs ?ctx) ?ctx c2"
      by (auto simp: returns_def)
    have hyps: "list_all (explained src_fs dest_fs ?ctx) (fm_hyps (dw_stage c2))" and files: "fm_src_files (dw_stage c2) = fm_src_files s1"
      using w2(2) w1(2) assms(6) by (auto simp: collected_def same_config_def)
    have conf: "same_config s ((dw_stage c2)\<lparr>fm_hyps := []\<rparr>)"
      using w2(2) w1(2) assms(6) by (auto simp: collected_def same_config_def)
    have good: "hy_dest_block h < t_count t \<and> fsd_block_tracker_is_unmatched t (hy_dest_block h) \<and>
       hy_src_pos h + bs \<le> length (x_image src_fs) \<and> hy_dest_block h * bs + bs \<le> length (x_image dest_fs) \<and>
       (\<exists>path l. file_has dest_fs path l bs (hy_dest_block h * bs) \<and> file_has src_fs path l bs (hy_src_pos h))"
      if ex: "explained src_fs dest_fs ?ctx h" for h
    proof -
      have bs: "fm_block_size s1 = bs" using w1(2) assms(3) by (simp add: same_config_def)
      obtain path ino exts where p: "list_all (extent_ok dest_fs) exts" "good_hyp src_fs ?ctx path exts h"
          "names dest_fs path ino" "maps_to dest_fs ino exts"
        using ex by (auto simp: explained_def)
      then have so: "same_offset (fm_src_files s1) bs (x_block_size dest_fs) (x_block_size src_fs) path exts h"
        using bs by (simp add: good_hyp_def)
      then have "hy_dest_block h * bs + bs \<le> length (x_image dest_fs)"
        using file_at_bound[OF assms(2) p(1)] unfolding same_offset_def by blast
      moreover have "\<exists>path l. file_has dest_fs path l bs (hy_dest_block h * bs) \<and> file_has src_fs path l bs (hy_src_pos h)"
        using so p(3,4) w1(3) unfolding same_offset_def file_has_def files_ok_def by blast
      ultimately show ?thesis using p(2) bs by (simp add: good_hyp_def)
    qed
    have "index_sound src_fs dest_fs bs t ((dw_stage c2)\<lparr>fm_hyps := tidy_hyps (fm_hyps (dw_stage c2)), fm_inactive := False\<rparr>)"
      unfolding index_sound_def using tidy_hyps_spec[of "fm_hyps (dw_stage c2)"] hyps good files by (auto simp: list_all_iff)
    then show ?thesis
      using \<open>fsd_pool_create _ _ _ _ = Inr pool\<close> h Inr w1 w2(1) conf assms(6,8)
      by (auto simp: index_walks_def fsd_extfs_block_size_def same_config_def Let_def)
  qed (use Inr h assms(6,8) in \<open>auto simp: index_walks_def same_config_def\<close>)
qed (use assms(6,8) in \<open>auto simp: index_walks_def same_config_def\<close>)

lemma fsmap_index_cases:
  assumes "fm_block_size s = bs" and "0 < bs" and "bs < 2 ^ 62" and "fm_hyps s = []" and "fm_src_files s = []"
    and "length src < 2 ^ 62" and "length dest < 2 ^ 62"
  shows "\<exists>e s'. fsd_fsmap_stage_build_index env src dest t s = (e, s') \<and> e \<in> {FSD_SUCCESS, FSD_ERR_OUT_OF_MEMORY} \<and>
    fm_block_size s' = bs \<and> fm_threshold s' = fm_threshold s \<and> fm_search_range s' = fm_search_range s \<and>
    fm_src_size s' = length src \<and> fm_cancel s' = fm_cancel s \<and> fm_cancel2 s' = fm_cancel2 s \<and>
    (\<not> fm_inactive s' \<longrightarrow> e = FSD_SUCCESS \<and>
       (\<exists>src_fs dest_fs. fsd_extfs_open (fe_open_src env) src (length src) = Some (Inr src_fs) \<and>
          fsd_extfs_open (fe_open_dest env) dest (length dest) = Some (Inr dest_fs) \<and> index_sound src_fs dest_fs bs t s'))"
proof -
  let ?s = "s\<lparr>fm_inactive := True, fm_src_size := length src, fm_dest_size := length dest\<rparr>"
  obtain r where r: "fsd_extfs_open (fe_open_src env) src (length src) = Some r" "open_result src r"
    using open_returns[OF assms(6)] by (auto simp: returns_def)
  obtain r' where r': "fsd_extfs_open (fe_open_dest env) dest (length dest) = Some r'" "open_result dest r'"
    using open_returns[OF assms(7)] by (auto simp: returns_def)
  note step = fsd_fsmap_stage_build_index_def Let_def r(1) r'(1)
  show ?thesis
  proof (cases r)
    case (Inl err)
    then show ?thesis using r(2) assms(1) by (cases err) (auto simp: step)
  next
    case (Inr src_fs)
    note src_fs = this
    show ?thesis
    proof (cases r')
      case (Inl err)
      then show ?thesis using r'(2) assms(1) src_fs by (cases err) (auto simp: step)
    next
      case (Inr dest_fs)
      have "fs_ok src_fs" "fs_ok dest_fs" using Inr src_fs r(2) r'(2) by simp_all
      from index_walks_sound[OF this, of ?s bs env t] obtain e s' where
        "index_walks env src_fs dest_fs t ?s = (e, s')" "e \<in> {FSD_SUCCESS, FSD_ERR_OUT_OF_MEMORY}"
          "fm_inactive s' = (e \<noteq> FSD_SUCCESS)" "same_config ?s (s'\<lparr>fm_hyps := [], fm_inactive := True\<rparr>)"
          "e = FSD_SUCCESS \<longrightarrow> index_sound src_fs dest_fs bs t s'"
        using assms by auto
      then show ?thesis using Inr src_fs r(1) r'(1) assms(1)
        by (auto simp: fsd_fsmap_stage_build_index_def same_config_def Let_def)
    qed
  qed
qed

section \<open>The stage as the controller runs it\<close>

definition fsmap_run ::
  "simd_dispatch \<Rightarrow> fsmap_env \<Rightarrow> allocator \<Rightarrow> (nat \<Rightarrow> bool \<times> bool) \<Rightarrow> fsmap_stage \<times> memory_pool \<Rightarrow> block_tracker \<Rightarrow>
   bytes \<Rightarrow> bytes \<Rightarrow> fsd_error \<times> (fsmap_stage \<times> memory_pool) \<times> block_tracker" where
  "fsmap_run g env A stored sp t src dest =
     (case sp of (s, pool) \<Rightarrow>
        (case fsd_fsmap_stage_build_index env src dest t s of
           (e, s) \<Rightarrow> if e \<noteq> FSD_SUCCESS then (e, (s, pool), t)
             else (case fsd_fsmap_stage_run g A s src dest stored (t, pool) of (e, t, pool) \<Rightarrow> (e, (s, pool), t))))"

definition fsmap_ready :: "simd_dispatch \<Rightarrow> bytes \<Rightarrow> bytes \<Rightarrow> nat \<Rightarrow> fsmap_stage \<times> memory_pool \<Rightarrow> bool" where
  "fsmap_ready g src dest bs sp \<longleftrightarrow> dispatch_ok g \<and> fm_block_size (fst sp) = bs \<and> 0 < bs \<and> bs < 2 ^ 62 \<and>
     length src < 2 ^ 62 \<and> length dest < 2 ^ 62 \<and> fm_search_range (fst sp) < 2 ^ 62 \<and>
     threshold_bytes (fm_threshold (fst sp)) bs \<le> bs \<and> fm_hyps (fst sp) = [] \<and> fm_src_files (fst sp) = []"

lemma fsmap_run_cases:
  assumes "fsmap_ready g src dest bs (s, pool)" and "tracker_sound src dest bs t"
    and "fsmap_run g env A stored (s, pool) t src dest = (e, sp', u)"
  shows "tracker_sound src dest bs u \<and> extends_matches t u \<and>
    (e \<in> {FSD_SUCCESS, FSD_ERR_OUT_OF_MEMORY} \<or> e = FSD_ERR_CANCELLED \<and> (\<exists>h. fsmap_cancelled s (stored h)))"
proof -
  obtain e1 s1 where b: "fsd_fsmap_stage_build_index env src dest t s = (e1, s1)" "e1 \<in> {FSD_SUCCESS, FSD_ERR_OUT_OF_MEMORY}"
      "fm_block_size s1 = bs" "fm_threshold s1 = fm_threshold s" "fm_search_range s1 = fm_search_range s" "fm_src_size s1 = length src"
      "fm_cancel s1 = fm_cancel s" "fm_cancel2 s1 = fm_cancel2 s"
      "\<not> fm_inactive s1 \<longrightarrow> (\<exists>src_fs dest_fs. fsd_extfs_open (fe_open_src env) src (length src) = Some (Inr src_fs) \<and>
          index_sound src_fs dest_fs bs t s1)"
    using fsmap_index_cases[of s bs src dest env t] assms(1) by (auto simp: fsmap_ready_def)
  show ?thesis
  proof (cases "e1 \<noteq> FSD_SUCCESS \<or> fm_inactive s1")
    case True
    then show ?thesis using assms(2,3) b(1,2) by (auto simp: fsmap_run_def fsd_fsmap_stage_run_def split: if_splits)
  next
    case False
    then obtain src_fs dest_fs where i: "fsd_extfs_open (fe_open_src env) src (length src) = Some (Inr src_fs)" "index_sound src_fs dest_fs bs t s1"
      using b(9) by auto
    then have "x_image src_fs = src" using opened_fs_ok assms(1) by (auto simp: fsmap_ready_def)
    then have "list_all (\<lambda>h. hy_src_pos h + bs \<le> length src) (fm_hyps s1)" using i(2) by (auto simp: index_sound_def list_all_iff)
    then have "fsmap_setup g s1 src dest" using assms(1) b by (simp add: fsmap_setup_def fsmap_ready_def)
    moreover have "fsmap_cancelled s1 (stored h) = fsmap_cancelled s (stored h)" for h using b by (simp add: fsmap_cancelled_def)
    ultimately show ?thesis
      using fsmap_run_adds[of g s1 src dest bs _ t A stored pool] b(1,3) assms(2,3) False
      by (auto simp: fsmap_run_def adds_partials_def)
  qed
qed

interpretation fsmap: matching_stage "fsmap_run g env A stored" "fsmap_ready g" "\<lambda>(s, pool). \<exists>h. fsmap_cancelled s (stored h)"
  for g env A stored
proof unfold_locales
  fix src dest bs sp t e sp' t'
  assume "fsmap_ready g src dest bs sp" and "tracker_sound src dest bs t" and "fsmap_run g env A stored sp t src dest = (e, sp', t')"
  then show "tracker_sound src dest bs t' \<and> extends_matches t t'"
    and "e \<in> {FSD_SUCCESS, FSD_ERR_OUT_OF_MEMORY} \<or> e = FSD_ERR_CANCELLED \<and> (case sp of (s, pool) \<Rightarrow> \<exists>h. fsmap_cancelled s (stored h))"
    using fsmap_run_cases[of g src dest bs "fst sp" "snd sp" t env A stored e sp' t'] by (auto simp: case_prod_beta)
qed

section \<open>Cancellation inside the run\<close>

lemma record_partial_frame:
  "j \<noteq> i \<Longrightarrow> t_blocks (fst (snd (record_partial A src dest bs i p tp))) ! j = t_blocks (fst tp) ! j"
  by (auto simp: record_partial_def partial_at_def fsd_block_tracker_set_delta_def fsd_block_tracker_set_match_def
      split: prod.splits option.splits)

lemma fsmap_block_frame:
  assumes "i \<noteq> hy_dest_block (fm_hyps s ! h)"
  shows "t_blocks (fst (snd (fsmap_block A cf s src dest stored h tp))) ! i = t_blocks (fst tp) ! i"
proof -
  have "t_blocks (fst (snd (case record_partial A src dest bs (hy_dest_block (fm_hyps s ! h)) p tp of
      (FSD_ERR_OUT_OF_MEMORY, tp) \<Rightarrow> (FSD_SUCCESS, tp) | (e, tp) \<Rightarrow> (e, tp)))) ! i = t_blocks (fst tp) ! i" for bs p
    using record_partial_frame[OF assms, of A src dest bs p tp] by (auto split: prod.split fsd_error.split)
  then show ?thesis by (auto simp: fsmap_block_def Let_def split: option.split)
qed

lemma fsmap_loop_frame:
  "n \<le> length (fm_hyps s) \<Longrightarrow> i \<notin> hy_dest_block ` set (take n (fm_hyps s)) \<Longrightarrow>
   t_blocks (fst (snd (for_loop 0 n (fsmap_block A cf s src dest stored) tp))) ! i = t_blocks (fst tp) ! i"
proof (induction n)
  case (Suc n)
  have i: "i \<noteq> hy_dest_block (fm_hyps s ! n)" "i \<notin> hy_dest_block ` set (take n (fm_hyps s))"
    using Suc.prems by (auto simp: take_Suc_conv_app_nth)
  have "for_loop 0 (n + 1) (fsmap_block A cf s src dest stored) tp =
      seqE (for_loop 0 n (fsmap_block A cf s src dest stored)) (for_loop n 1 (fsmap_block A cf s src dest stored)) tp"
    using for_loop_split[of 0 n 1 "fsmap_block A cf s src dest stored" tp] by simp
  then show ?case
    using Suc.IH Suc.prems(1) i fsmap_block_frame[OF i(1), of A cf src dest stored]
    by (auto simp: seqE_def split: prod.splits) (metis fst_conv snd_conv)+
qed simp

lemma fsmap_loop_stops:
  assumes "h mod CANCEL_CHECK_INTERVAL = 0" and "fsmap_cancelled s (stored h)" and "h < n"
  shows "for_loop 0 n (fsmap_block A cf s src dest stored) tp =
    seqE (for_loop 0 h (fsmap_block A cf s src dest stored)) (\<lambda>tp. (FSD_ERR_CANCELLED, tp)) tp"
proof -
  obtain m where n: "n = h + Suc m" using assms(3) less_imp_Suc_add by auto
  have "for_loop h (Suc m) (fsmap_block A cf s src dest stored) tp' = (FSD_ERR_CANCELLED, tp')" for tp'
    using assms(1,2) by (simp add: seqE_def fsmap_block_def)
  then have "for_loop h (Suc m) (fsmap_block A cf s src dest stored) = (\<lambda>tp. (FSD_ERR_CANCELLED, tp))" by blast
  then show ?thesis using for_loop_split[of 0 h "Suc m" "fsmap_block A cf s src dest stored" tp] n by simp
qed

section \<open>A worked index\<close>

text \<open>
  The image of the reader's theory against itself, with a tracker of twelve unmatched blocks: the
  stage becomes active and has one hypothesis for each block of the file.
\<close>

abbreviation example_env :: fsmap_env where
  "example_env \<equiv> \<lparr>fe_open_src = True, fe_open_dest = True, fe_pool_struct = True, fe_malloc = (\<lambda>_. True), fe_pool = bump_allocator\<rparr>"

definition roomy :: "memory_pool \<Rightarrow> bool" where
  "roomy p \<longleftrightarrow> pl_max_memory p = 0 \<and> pl_chunk_size p = 1048576"

lemma roomy_generous: "roomy p \<Longrightarrow> 0 < n \<Longrightarrow> n \<le> 1048568 \<Longrightarrow> generous bump_allocator n p"
  by (auto simp: generous_def roomy_def bump_allocator_def)

lemma roomy_alloc:
  assumes "roomy p" and "0 < n" and "n \<le> 1048568"
  obtains a p' where "fsd_pool_alloc bump_allocator n p = (Some a, p')" "roomy p'"
proof -
  note g = generous_alloc[OF roomy_generous[OF assms]]
  obtain x p' where x: "fsd_pool_alloc bump_allocator n p = (x, p')" by fastforce
  then have "roomy p'" using assms(1) alloc_frame[of bump_allocator n p] by (simp add: roomy_def)
  moreover obtain a where "x = Some a" using g(1) x by auto
  ultimately show thesis using that x by simp
qed

lemma bucket_count: "table_bucket_count 16384 = 32768"
  by (simp add: table_bucket_count_def next_power_of_2_def u64_def LOAD_FACTOR_NUM_def LOAD_FACTOR_DENOM_def MIN_BUCKETS_def Let_def)

lemma find_in_chain_single:
  "sf_path f = path \<Longrightarrow> \<exists>e \<in> set es. he_crc32 e = crc \<and> he_block_index e = 0 \<Longrightarrow> find_in_chain [f] crc path es = Some f"
  by (induction es) (auto simp: not_le)

lemma example_index:
  assumes "fsd_fsmap_stage_create True 512 (Some (1/2)) 8 = Inr s" and "fsd_block_tracker_create (\<lambda>_. True) 12 512 = Inr t"
  shows "\<exists>s'. fsd_fsmap_stage_build_index example_env ext_example ext_example t s = (FSD_SUCCESS, s') \<and> \<not> fm_inactive s' \<and>
    fm_hyps s' = [\<lparr>hy_dest_block = 10, hy_src_pos = 5120\<rparr>, \<lparr>hy_dest_block = 11, hy_src_pos = 5632\<rparr>]"
proof -
  let ?x = "\<lparr>ex_logical = 0, ex_physical = 5, ex_count = 1\<rparr>" and ?path = "[0x2F, 0x61] :: bytes"
  let ?f = "\<lparr>sf_path = ?path, sf_size = 512, sf_ext = [?x]\<rparr>"
  obtain p0 where p0: "fsd_pool_create bump_allocator True (1024 * 1024) 0 = Inr p0" "roomy p0"
    by (simp add: pool_eval roomy_def)
  obtain table p1 where p1: "fsd_hash_table_create bump_allocator 16384 p0 = (Inr table, p1)" "roomy p1"
  proof -
    obtain a p where a: "fsd_pool_alloc bump_allocator sizeof_hash_table p0 = (Some a, p)" "roomy p"
      by (rule roomy_alloc[OF p0(2), of sizeof_hash_table]) (simp_all add: sizeof_hash_table_def)
    obtain b p' where b: "fsd_pool_alloc bump_allocator 262144 p = (Some b, p')" "roomy p'"
      by (rule roomy_alloc[OF a(2), of 262144]) simp_all
    have "fsd_hash_table_create bump_allocator 16384 p0 =
        (Inr \<lparr>ht_buckets = replicate 32768 [], ht_bucket_count = 32768, ht_entry_count = 0\<rparr>, p')"
      using a(1) b(1) by (simp add: fsd_hash_table_create_def bucket_count u64_def)
    then show thesis using that b(2) by blast
  qed
  note facts = hash_table_create_facts[OF p1(1)]
  obtain p2 a2 where p2: "fsd_pool_alloc bump_allocator (1024 * sizeof_src_file) p1 = (Some a2, p2)" "roomy p2"
    by (rule roomy_alloc[OF p1(2), of "1024 * sizeof_src_file"]) (simp_all add: sizeof_src_file_def)
  obtain p3 a3 where p3: "fsd_pool_alloc bump_allocator (length ?path + 1) p2 = (Some a3, p3)" "roomy p3"
    by (rule roomy_alloc[OF p2(2), of "length ?path + 1"]) simp_all
  obtain p4 a4 where p4: "fsd_pool_alloc bump_allocator (length [?x] * sizeof_ext_extent) p3 = (Some a4, p4)" "roomy p4"
    by (rule roomy_alloc[OF p3(2), of "length [?x] * sizeof_ext_extent"]) (simp_all add: sizeof_ext_extent_def)
  obtain table' p5 where ins: "fsd_hash_table_insert bump_allocator (fsd_crc32 ?path) 0 (table, p4) = (table', p5)" by fastforce
  have st: "table_ok table' \<and> (fsd_crc32 ?path, 0) \<in> table_pairs table'"
    using ht.ins_ok[of "(table, p4)" bump_allocator "fsd_crc32 ?path" 0] ht.ins_stores[of "(table, p4)" bump_allocator "fsd_crc32 ?path" 0]
      facts roomy_generous[OF p4(2), of sizeof_hash_entry] ins by (simp add: sizeof_hash_entry_def)
  let ?s = "s\<lparr>fm_inactive := True, fm_src_size := 6144, fm_dest_size := 6144, fm_pool := Some p5, fm_path_hash := Some table',
     fm_src_files := [?f], fm_cap_src_files := 1024\<rparr>"
  have s: "fm_src_files s = []" "fm_cap_src_files s = 0" "fm_hyps s = []" "fm_cap_hyps s = 0" "fm_block_size s = 512"
    using assms(1) by (auto simp: fsd_fsmap_stage_create_def)
  have cb: "src_walk_cb bump_allocator ?path 3 512 [?x] (s\<lparr>fm_inactive := True, fm_src_size := 6144, fm_dest_size := 6144,
      fm_pool := Some p1, fm_path_hash := Some table\<rparr>, False) = (False, ?s, False)"
    using s p2 p3 p4 ins by (simp add: src_walk_cb_def)
  have "src_file_find ?s ?path = Some ?f"
    using find_in_chain_single[OF _ lookup_complete[OF conjunct1[OF st] conjunct2[OF st]], of ?f ?path] by (simp add: src_file_find_def)
  moreover have "fsd_block_tracker_is_unmatched t 10" "fsd_block_tracker_is_unmatched t 11" "t_count t = 12"
    using tracker_create_inv[OF assms(2)] by (simp_all add: tracker_is_unmatched fresh_block_def)
  ultimately have "dest_walk_cb (\<lambda>_. True) ?path 3 512 [?x]
      \<lparr>dw_stage = ?s, dw_tracker = t, dw_dest_fs_bs = 1024, dw_src_fs_bs = 1024, dw_oom = False, dw_files_no_src_path = 0\<rparr> =
     (False, \<lparr>dw_stage = ?s\<lparr>fm_cap_hyps := 4096, fm_hyps := [\<lparr>hy_dest_block = 10, hy_src_pos = 5120\<rparr>, \<lparr>hy_dest_block = 11, hy_src_pos = 5632\<rparr>]\<rparr>,
        dw_tracker = t, dw_dest_fs_bs = 1024, dw_src_fs_bs = 1024, dw_oom = False, dw_files_no_src_path = 0\<rparr>)"
    using s by (simp add: dest_walk_cb_def extent_first_block_def extent_end_block_def u64_def u64_sub_def src_map_range_def
       hyp_append_def Let_def upt_conv_Cons)
  moreover have "fsd_extfs_block_size example_fs = 1024" by (simp add: fsd_extfs_block_size_def example_fs_def)
  ultimately show ?thesis
    using p0 p1 s cb
    by (simp add: fsd_fsmap_stage_build_index_def index_walks_def example_length example_open example_walk
       tidy_hyps_def sort_hyps_def hyp_key_def Let_def)
qed

section \<open>Properties\<close>

text \<open>
  C26. Building the index of a new stage never faults, whatever the two images hold. If the stage
  becomes active, both images are ext file systems; the hypotheses are sorted with at most one per
  destination block; each names an unmatched block inside the destination and a position inside the
  source, and the two are at the same offset of a file with the same path in both file systems.
\<close>

theorem fsmap_index_sound:
  assumes "fsd_fsmap_stage_create calloc_ok bs threshold radius = Inr s" and "bs < 2 ^ 62"
    and "length src < 2 ^ 62" and "length dest < 2 ^ 62"
  shows "\<exists>e s'. fsd_fsmap_stage_build_index env src dest t s = (e, s') \<and> e \<in> {FSD_SUCCESS, FSD_ERR_OUT_OF_MEMORY} \<and>
    (\<not> fm_inactive s' \<longrightarrow>
      (\<exists>src_fs dest_fs. fsd_extfs_open (fe_open_src env) src (length src) = Some (Inr src_fs) \<and>
         fsd_extfs_open (fe_open_dest env) dest (length dest) = Some (Inr dest_fs) \<and>
         sorted_wrt (<) (map hy_dest_block (fm_hyps s')) \<and>
         (\<forall>h \<in> set (fm_hyps s'). fsd_block_tracker_is_unmatched t (hy_dest_block h) \<and>
            (hy_dest_block h + 1) * bs \<le> length dest \<and> hy_src_pos h + bs \<le> length src \<and>
            (\<exists>path l. file_has dest_fs path l bs (hy_dest_block h * bs) \<and> file_has src_fs path l bs (hy_src_pos h)))))"
proof -
  have s: "fm_block_size s = bs" "0 < bs" "fm_hyps s = []" "fm_src_files s = []"
    using assms(1) by (auto simp: fsd_fsmap_stage_create_def split: if_splits)
  from fsmap_index_cases[OF s(1,2) assms(2) s(3,4) assms(3,4), of env t] obtain e s' where
    b: "fsd_fsmap_stage_build_index env src dest t s = (e, s')" "e \<in> {FSD_SUCCESS, FSD_ERR_OUT_OF_MEMORY}"
      "\<not> fm_inactive s' \<longrightarrow> (\<exists>src_fs dest_fs. fsd_extfs_open (fe_open_src env) src (length src) = Some (Inr src_fs) \<and>
          fsd_extfs_open (fe_open_dest env) dest (length dest) = Some (Inr dest_fs) \<and> index_sound src_fs dest_fs bs t s')"
    by blast
  have "sorted_wrt (<) (map hy_dest_block (fm_hyps s')) \<and>
      (\<forall>h \<in> set (fm_hyps s'). fsd_block_tracker_is_unmatched t (hy_dest_block h) \<and>
            (hy_dest_block h + 1) * bs \<le> length dest \<and> hy_src_pos h + bs \<le> length src \<and>
            (\<exists>path l. file_has dest_fs path l bs (hy_dest_block h * bs) \<and> file_has src_fs path l bs (hy_src_pos h)))"
    if o: "fsd_extfs_open (fe_open_src env) src (length src) = Some (Inr src_fs)"
      "fsd_extfs_open (fe_open_dest env) dest (length dest) = Some (Inr dest_fs)" "index_sound src_fs dest_fs bs t s'" for src_fs dest_fs
    using o(3) opened_fs_ok[OF o(1) assms(3)] opened_fs_ok[OF o(2) assms(4)]
    by (auto simp: index_sound_def list_all_iff add.commute)
  with b show ?thesis by blast
qed

theorem fsmap_index_sound_witness:
  "\<exists>s t s'. fsd_fsmap_stage_create True 512 (Some (1 / 2)) 8 = Inr s \<and>
     fsd_block_tracker_create (\<lambda>_. True) 12 512 = Inr t \<and>
     fsd_fsmap_stage_build_index example_env ext_example ext_example t s = (FSD_SUCCESS, s') \<and>
     map hy_dest_block (fm_hyps s') = [10, 11] \<and> list_all (\<lambda>h. hy_src_pos h + 512 \<le> length ext_example) (fm_hyps s')"
proof -
  obtain s where s: "fsd_fsmap_stage_create True 512 (Some (1 / 2)) 8 = Inr s" by (simp add: fsd_fsmap_stage_create_def)
  obtain t where t: "fsd_block_tracker_create (\<lambda>_. True) 12 512 = Inr t" by (simp add: fsd_block_tracker_create_def Let_def)
  obtain s' where s': "fsd_fsmap_stage_build_index example_env ext_example ext_example t s = (FSD_SUCCESS, s')" "\<not> fm_inactive s'"
      "fm_hyps s' = [\<lparr>hy_dest_block = 10, hy_src_pos = 5120\<rparr>, \<lparr>hy_dest_block = 11, hy_src_pos = 5632\<rparr>]"
    using example_index[OF s t] by blast
  have "\<forall>h \<in> set (fm_hyps s'). hy_src_pos h + 512 \<le> length ext_example"
    using fsmap_index_sound[OF s, of ext_example ext_example example_env t] s' by (simp add: example_length)
  then show ?thesis using s t s' by (intro exI[of _ s] exI[of _ t] exI[of _ s']) (simp add: list_all_iff)
qed

text \<open>
  C11. A run of the stage is safe and selective: it returns success, or \<^verbatim>\<open>FSD_ERR_CANCELLED\<close> when one
  of its flags was set, without reading outside the images; it changes only unmatched blocks, every
  match it adds is at or above the threshold with a delta that reproduces the block, and when it
  succeeds with memory for the deltas, a block it leaves unmatched is below the threshold at its
  hypothesis.
\<close>

theorem fsmap_stage_correct:
  assumes "fsmap_setup g s src dest" and "tracker_sound src dest (fm_block_size s) t"
  shows "\<exists>e u pool'. fsd_fsmap_stage_run g A s src dest stored (t, pool) = (e, u, pool') \<and>
    (e = FSD_SUCCESS \<or> e = FSD_ERR_CANCELLED \<and> (\<exists>h. fsmap_cancelled s (stored h))) \<and>
    tracker_sound src dest (fm_block_size s) u \<and>
    (\<forall>i < t_count t. t_blocks u ! i = t_blocks t ! i \<or> matched t i = None \<and>
       good_partial src dest (fm_block_size s) (threshold_bytes (fm_threshold s) (fm_block_size s)) u i) \<and>
    (e = FSD_SUCCESS \<and> \<not> fm_inactive s \<and> generous A (fm_block_size s) pool \<longrightarrow>
       (\<forall>h \<in> set (fm_hyps s). fsd_block_tracker_is_unmatched u (hy_dest_block h) \<longrightarrow> hypothesis_fails s src dest h))"
  using fsmap_run_adds[OF assms(1) refl refl assms(2), of A stored pool]
  by (auto simp: adds_partials_def in_set_conv_nth)

theorem fsmap_stage_correct_witness:
  "\<exists>t pool u pool'. fsd_fsmap_stage_run setup_scalar_dispatch bump_allocator
      \<lparr>fm_block_size = 4, fm_threshold = 1 / 2, fm_search_range = 4, fm_verbose = 0, fm_inactive = False,
        fm_cancel = None, fm_cancel2 = None, fm_pool = None, fm_path_hash = None, fm_src_files = [], fm_cap_src_files = 0,
        fm_hyps = [\<lparr>hy_dest_block = 0, hy_src_pos = 2\<rparr>], fm_cap_hyps = 1, fm_src_size = 8, fm_dest_size = 4\<rparr>
      [1, 2, 3, 4, 5, 6, 7, 8] [3, 4, 5, 9] (\<lambda>_. (False, False)) (t, pool) = (FSD_SUCCESS, u, pool') \<and>
    matched t 0 = None \<and> good_partial [1, 2, 3, 4, 5, 6, 7, 8] [3, 4, 5, 9] 4 2 u 0"
proof -
  let ?s = "\<lparr>fm_block_size = 4, fm_threshold = 1 / 2, fm_search_range = 4, fm_verbose = 0, fm_inactive = False,
        fm_cancel = None, fm_cancel2 = None, fm_pool = None, fm_path_hash = None, fm_src_files = [], fm_cap_src_files = 0,
        fm_hyps = [\<lparr>hy_dest_block = 0, hy_src_pos = 2\<rparr>], fm_cap_hyps = 1, fm_src_size = 8, fm_dest_size = 4\<rparr>"
  let ?src = "[1, 2, 3, 4, 5, 6, 7, 8] :: bytes" and ?dest = "[3, 4, 5, 9] :: bytes"
  obtain t where t: "fsd_block_tracker_create (\<lambda>_. True) 1 4 = Inr t"
    by (simp add: fsd_block_tracker_create_def Let_def)
  have sound: "tracker_sound ?src ?dest (fm_block_size ?s) t" using t by (auto intro: tracker_sound_create)
  have start: "t_count t = 1" "matched t 0 = None" using tracker_create_inv[OF t] by (auto simp: matched_def fresh_block_def)
  obtain pool where p: "fsd_pool_create bump_allocator True 64 0 = Inr pool" by (simp add: pool_eval)
  then have g: "generous bump_allocator (fm_block_size ?s) pool" by (auto simp: generous_def pool_eval)
  have thr: "threshold_bytes (1 / 2) 4 = 2" by (simp add: threshold_bytes_def)
  then have "fsmap_setup setup_scalar_dispatch ?s ?src ?dest" by (simp add: fsmap_setup_def dispatch_ok_tables)
  note run = fsmap_stage_correct[OF this sound, of bump_allocator "\<lambda>_. (False, False)" pool]
  have four: "(\<Sum>i<4. f i) = f 0 + f 1 + f 2 + f 3" for f :: "nat \<Rightarrow> nat" by (simp add: numeral_eq_Suc)
  have "quality ?src ?dest 4 2 = 3" by (simp add: quality_def equal_bytes_def four)
  then have "\<not> hypothesis_fails ?s ?src ?dest \<lparr>hy_dest_block = 0, hy_src_pos = 2\<rparr>" using thr by (simp add: hypothesis_fails_def)
  moreover have "\<not> fsmap_cancelled ?s x" for x by (simp add: fsmap_cancelled_def flag_set_def)
  ultimately obtain u pool' where
    u: "fsd_fsmap_stage_run setup_scalar_dispatch bump_allocator ?s ?src ?dest (\<lambda>_. (False, False)) (t, pool) = (FSD_SUCCESS, u, pool')"
      "\<not> fsd_block_tracker_is_unmatched u 0" "t_blocks u ! 0 = t_blocks t ! 0 \<or> good_partial ?src ?dest 4 2 u 0" "tracker_sound ?src ?dest 4 u"
    using run g start thr by auto
  have "t_blocks u ! 0 \<noteq> t_blocks t ! 0"
    using u(2,4) start by (auto simp: tracker_sound_def blocks_right_def tracker_is_unmatched matched_def split: if_splits)
  with u start show ?thesis by auto
qed

text \<open>
  C34. Cancellation is prompt: when from the hypothesis of index \<^verbatim>\<open>k\<close> on the first or the second flag
  reads as set, and the next multiple of 256 is the index of a hypothesis, the run returns
  \<^verbatim>\<open>FSD_ERR_CANCELLED\<close>, whatever it met before, and has touched no block beyond those of the first
  \<^verbatim>\<open>k + 255\<close> hypotheses: at most 255 further hypotheses are processed after the request. The
  tracker is sound at that point.
\<close>

theorem fsmap_cancel_prompt:
  assumes "fsmap_setup g s src dest" and "tracker_sound src dest (fm_block_size s) t" and "\<not> fm_inactive s"
    and "\<And>j. k \<le> j \<Longrightarrow> (\<exists>v. fm_cancel s = Some v \<and> (v \<or> fst (stored j))) \<or>
      (\<exists>v. fm_cancel2 s = Some v \<and> (v \<or> snd (stored j)))"
    and "(k + 255) div 256 * 256 < length (fm_hyps s)"
  shows "\<exists>u pool'. fsd_fsmap_stage_run g A s src dest stored (t, pool) = (FSD_ERR_CANCELLED, u, pool') \<and>
    tracker_sound src dest (fm_block_size s) u \<and>
    (\<forall>i. i \<notin> hy_dest_block ` set (take (k + 255) (fm_hyps s)) \<longrightarrow> t_blocks u ! i = t_blocks t ! i)"
proof -
  define h where "h = (k + 255) div 256 * 256"
  have h: "h mod CANCEL_CHECK_INTERVAL = 0" "h < length (fm_hyps s)" "k \<le> h" "h \<le> k + 255"
    using assms(5) by (simp_all add: h_def CANCEL_CHECK_INTERVAL_def)
  have seen: "fsmap_cancelled s (stored h)"
    using assms(4)[OF h(3)] by (auto simp: fsmap_cancelled_def flag_set_def)
  let ?body = "fsmap_block A (fsd_block_search_count_fn g) s src dest stored"
  obtain e1 u pool' where l: "for_loop 0 h ?body (t, pool) = (e1, u, pool')" by (metis prod_cases3)
  have run: "fsd_fsmap_stage_run g A s src dest stored (t, pool) =
      (if e1 = FSD_SUCCESS then (FSD_ERR_CANCELLED, u, pool') else (e1, u, pool'))"
    using assms(3) h(2) fsmap_loop_stops[where stored = stored, OF h(1) seen h(2), of A "fsd_block_search_count_fn g" src dest "(t, pool)"] l
    by (auto simp: fsd_fsmap_stage_run_def seqE_def)
  with fsmap_run_adds[OF assms(1) refl refl assms(2), of A stored pool]
  have "fsd_fsmap_stage_run g A s src dest stored (t, pool) = (FSD_ERR_CANCELLED, u, pool')"
    "tracker_sound src dest (fm_block_size s) u"
    by (auto simp: adds_partials_def split: if_splits)
  moreover have "t_blocks u ! i = t_blocks t ! i" if "i \<notin> hy_dest_block ` set (take (k + 255) (fm_hyps s))" for i
  proof -
    have "i \<notin> hy_dest_block ` set (take h (fm_hyps s))" 
      using that image_mono[OF set_take_subset_set_take[OF h(4), of "fm_hyps s"], of hy_dest_block] by (rule contra_subsetD[rotated])
    then show ?thesis
      using fsmap_loop_frame[of h s i A "fsd_block_search_count_fn g" src dest stored "(t, pool)"] h(2) l by simp
  qed
  ultimately show ?thesis by blast
qed

theorem fsmap_cancel_prompt_witness:
  "\<exists>t pool u pool'. fsd_fsmap_stage_run setup_scalar_dispatch bump_allocator
      \<lparr>fm_block_size = 4, fm_threshold = 1 / 2, fm_search_range = 4, fm_verbose = 0, fm_inactive = False,
        fm_cancel = None, fm_cancel2 = Some False, fm_pool = None, fm_path_hash = None, fm_src_files = [], fm_cap_src_files = 0,
        fm_hyps = replicate 300 \<lparr>hy_dest_block = 0, hy_src_pos = 2\<rparr>, fm_cap_hyps = 300, fm_src_size = 8, fm_dest_size = 8\<rparr>
      [1, 2, 3, 4, 5, 6, 7, 8] [3, 4, 5, 9, 0, 0, 0, 0] (\<lambda>j. (False, 3 \<le> j)) (t, pool) = (FSD_ERR_CANCELLED, u, pool') \<and>
    t_blocks u ! 1 = t_blocks t ! 1"
proof -
  define hyps where "hyps = replicate 300 \<lparr>hy_dest_block = 0, hy_src_pos = 2\<rparr>"
  have hyps: "set hyps = {\<lparr>hy_dest_block = 0, hy_src_pos = 2\<rparr>}" "length hyps = 300"
    unfolding hyps_def by (rule set_replicate, simp) (rule length_replicate)
  let ?s = "\<lparr>fm_block_size = 4, fm_threshold = 1 / 2, fm_search_range = 4, fm_verbose = 0, fm_inactive = False,
        fm_cancel = None, fm_cancel2 = Some False, fm_pool = None, fm_path_hash = None, fm_src_files = [], fm_cap_src_files = 0,
        fm_hyps = hyps, fm_cap_hyps = 300, fm_src_size = 8, fm_dest_size = 8\<rparr>"
  let ?src = "[1, 2, 3, 4, 5, 6, 7, 8] :: bytes" and ?dest = "[3, 4, 5, 9, 0, 0, 0, 0] :: bytes"
  let ?stored = "\<lambda>j::nat. (False, 3 \<le> j)"
  obtain t where t: "fsd_block_tracker_create (\<lambda>_. True) 2 4 = Inr t"
    by (simp add: fsd_block_tracker_create_def Let_def)
  have sound: "tracker_sound ?src ?dest (fm_block_size ?s) t" using t by (auto intro: tracker_sound_create)
  have run_ok: "fsmap_setup setup_scalar_dispatch ?s ?src ?dest"
    using hyps by (simp add: fsmap_setup_def dispatch_ok_tables threshold_bytes_def list_all_iff)
  have flag: "(\<exists>v. fm_cancel ?s = Some v \<and> (v \<or> fst (?stored j))) \<or> (\<exists>v. fm_cancel2 ?s = Some v \<and> (v \<or> snd (?stored j)))"
    if "3 \<le> j" for j
    using that by auto
  have more: "((3::nat) + 255) div 256 * 256 < length (fm_hyps ?s)" and active: "\<not> fm_inactive ?s"
    by (simp_all add: hyps)
  obtain u pool' where r: "fsd_fsmap_stage_run setup_scalar_dispatch bump_allocator ?s ?src ?dest ?stored (t, undefined) =
      (FSD_ERR_CANCELLED, u, pool')"
    and f: "\<forall>i. i \<notin> hy_dest_block ` set (take (3 + 255) (fm_hyps ?s)) \<longrightarrow> t_blocks u ! i = t_blocks t ! i"
    using fsmap_cancel_prompt[where stored = ?stored and k = 3, OF run_ok sound active flag more] by blast
  have "hy_dest_block ` set (take (3 + 255) (fm_hyps ?s)) \<subseteq> {0}"
  proof (rule image_subsetI)
    fix h assume "h \<in> set (take (3 + 255) (fm_hyps ?s))"
    from in_set_takeD[OF this] show "hy_dest_block h \<in> {0}" by (simp add: hyps)
  qed
  then have "1 \<notin> hy_dest_block ` set (take (3 + 255) (fm_hyps ?s))" by (rule contra_subsetD) simp
  with spec[OF f, of 1] have "t_blocks u ! 1 = t_blocks t ! 1" by (rule mp)
  with r show ?thesis unfolding hyps_def by blast
qed

end
