(* ===== verification/Stage_Partial.thy ===== *)
theory Stage_Partial
  imports Delta_Match Hash_Table
begin

text \<open>
  Stage 3, \<^verbatim>\<open>src/stages/stage_partial.c\<close>: for each block no earlier stage matched, two probes (the
  continuation of the previous block's match and the block's own position), a sweep around the
  block, a sweep behind the previous block's match, and the extension of a match to the blocks that
  follow. Positions are signed 64-bit values with wrap-around.
\<close>

record partial_stage =
  ps_block_size :: nat
  ps_threshold :: rat
  ps_search_range :: nat
  ps_src_blocks :: nat
  ps_src_size :: nat
  ps_verbose :: int

definition fsd_partial_stage_create :: "bool \<Rightarrow> nat \<Rightarrow> c_float \<Rightarrow> int \<Rightarrow> fsd_error + partial_stage" where
  "fsd_partial_stage_create calloc_ok block_size threshold search_radius_blocks =
     (if block_size = 0 then Inl FSD_ERR_INVALID_ARG
      else if \<not> calloc_ok then Inl FSD_ERR_OUT_OF_MEMORY
      else Inr \<lparr>ps_block_size = block_size, ps_threshold = clamp_threshold threshold,
                ps_search_range = search_range_of search_radius_blocks block_size, ps_src_blocks = 0,
                ps_src_size = 0, ps_verbose = 0\<rparr>)"

definition fsd_partial_stage_build_index :: "nat \<Rightarrow> partial_stage action" where
  "fsd_partial_stage_build_index src_blocks stage =
     (FSD_SUCCESS, stage\<lparr>ps_src_blocks := src_blocks, ps_src_size := u64 (src_blocks * ps_block_size stage)\<rparr>)"

text \<open>\<^verbatim>\<open>prev_src_pos\<close> when \<^verbatim>\<open>prev_was_relocated\<close> holds for the block before \<^verbatim>\<open>dest_idx\<close>.\<close>

definition prev_match_pos :: "nat \<Rightarrow> block_tracker \<Rightarrow> nat \<Rightarrow> int option" where
  "prev_match_pos block_size t dest_idx =
     (if 0 < dest_idx
      then (case fsd_block_tracker_get t (dest_idx - 1) of
              None \<Rightarrow> None
            | Some prev \<Rightarrow>
                if b_match_type prev = FSD_MATCH_RELOCATE \<or> b_match_type prev = FSD_MATCH_PARTIAL
                then Some (s64 (int (b_src_index prev * block_size) + b_byte_offset prev)) else None)
      else None)"

text \<open>The probes in order; \<^verbatim>\<open>Some None\<close> when none reaches the bar.\<close>

fun probe_loop :: "count_fn \<Rightarrow> bytes \<Rightarrow> nat \<Rightarrow> bytes \<Rightarrow> nat \<Rightarrow> nat \<Rightarrow> int \<Rightarrow> int list \<Rightarrow> (int \<times> nat) option option" where
  "probe_loop count_fn src src_size dest_block block_size quick_accept dest_pos [] = Some None"
| "probe_loop count_fn src src_size dest_block block_size quick_accept dest_pos (pos # probes) =
     (if \<not> pos_ok src_size block_size pos
      then probe_loop count_fn src src_size dest_block block_size quick_accept dest_pos probes
      else
        (case count_at count_fn src (nat pos) dest_block 0 block_size of
           None \<Rightarrow> None
         | Some c \<Rightarrow>
             if quick_accept \<le> c then Some (Some (s64 (pos - dest_pos), c))
             else probe_loop count_fn src src_size dest_block block_size quick_accept dest_pos probes))"

definition quick_accept_bar :: "nat \<Rightarrow> nat \<Rightarrow> nat" where
  "quick_accept_bar block_size threshold_count =
     (let quick_accept = u64 (block_size * 9 + 9) div 10
      in if quick_accept < threshold_count then threshold_count else quick_accept)"

text \<open>Probes, sweep and relocation-relative sweep: the best offset and its count.\<close>

definition find_partial ::
  "count_fn \<Rightarrow> bytes \<Rightarrow> nat \<Rightarrow> bytes \<Rightarrow> nat \<Rightarrow> nat \<Rightarrow> nat \<Rightarrow> int \<Rightarrow> int option \<Rightarrow> (int \<times> nat) option" where
  "find_partial count_fn src src_size dest_block block_size threshold_count search_range dest_pos prev =
     (let rng = s64 (int search_range);
          probes = (case prev of Some prev_src_pos \<Rightarrow> [s64 (prev_src_pos + int block_size)] | None \<Rightarrow> []) @ [dest_pos]
      in
      case probe_loop count_fn src src_size dest_block block_size (quick_accept_bar block_size threshold_count) dest_pos probes of
        None \<Rightarrow> None
      | Some quick \<Rightarrow>
          (case (case quick of Some best \<Rightarrow> Some best
                 | None \<Rightarrow> fsd_block_search_best src src_size dest_block block_size dest_pos (- rng) rng
                             threshold_count count_fn) of
             None \<Rightarrow> None
           | Some (best_offset, best_count) \<Rightarrow>
               (case prev of
                  Some prev_src_pos \<Rightarrow>
                    if best_count < threshold_count then
                      (let reloc_base = s64 (prev_src_pos + int block_size) in
                       case fsd_block_search_best src src_size dest_block block_size reloc_base 0 rng
                              threshold_count count_fn of
                         None \<Rightarrow> None
                       | Some (reloc_offset, reloc_count) \<Rightarrow>
                           if threshold_count \<le> reloc_count \<and> best_count < reloc_count
                           then Some (s64 (s64 (reloc_base + reloc_offset) - dest_pos), reloc_count)
                           else Some (best_offset, best_count))
                    else Some (best_offset, best_count)
                | None \<Rightarrow> Some (best_offset, best_count))))"

text \<open>The extension loop over the blocks that follow a match.\<close>

fun extend_match ::
  "allocator \<Rightarrow> count_fn \<Rightarrow> bytes \<Rightarrow> nat \<Rightarrow> bytes \<Rightarrow> nat \<Rightarrow> nat \<Rightarrow> int \<Rightarrow> nat list \<Rightarrow> (block_tracker \<times> memory_pool) action" where
  "extend_match A count_fn src src_size dest block_size threshold_count best_offset [] tp = (FSD_SUCCESS, tp)"
| "extend_match A count_fn src src_size dest block_size threshold_count best_offset (ext_idx # rest) tp =
     (if \<not> fsd_block_tracker_is_unmatched (fst tp) ext_idx then (FSD_SUCCESS, tp)
      else
        let ext_src_pos = s64 (int (ext_idx * block_size) + best_offset) in
        if \<not> pos_ok src_size block_size ext_src_pos then (FSD_SUCCESS, tp)
        else
          (case block_at dest block_size ext_idx of
             None \<Rightarrow> (UB_FAULT, tp)
           | Some ext_dest_block \<Rightarrow>
               (case count_at count_fn src (nat ext_src_pos) ext_dest_block 0 block_size of
                  None \<Rightarrow> (UB_FAULT, tp)
                | Some ext_count \<Rightarrow>
                    if ext_count < threshold_count then (FSD_SUCCESS, tp)
                    else
                      (case record_partial A src dest block_size ext_idx (nat ext_src_pos) tp of
                         (FSD_SUCCESS, tp) \<Rightarrow>
                           extend_match A count_fn src src_size dest block_size threshold_count best_offset rest tp
                       | (FSD_ERR_OUT_OF_MEMORY, tp) \<Rightarrow> (FSD_SUCCESS, tp)
                       | (e, tp) \<Rightarrow> (e, tp)))))"

text \<open>One iteration of the loop over the destination blocks.\<close>

definition partial_block ::
  "allocator \<Rightarrow> count_fn \<Rightarrow> partial_stage \<Rightarrow> bytes \<Rightarrow> bytes \<Rightarrow> nat \<Rightarrow> (block_tracker \<times> memory_pool) action" where
  "partial_block A count_fn stage src dest dest_idx tp =
     (let block_size = ps_block_size stage;
          threshold_count = threshold_bytes (ps_threshold stage) block_size;
          src_size = ps_src_size stage
      in
      if \<not> fsd_block_tracker_is_unmatched (fst tp) dest_idx then (FSD_SUCCESS, tp)
      else
        (case block_at dest block_size dest_idx of
           None \<Rightarrow> (UB_FAULT, tp)
         | Some dest_block \<Rightarrow>
             (let dest_pos = s64 (int (dest_idx * block_size)) in
              case find_partial count_fn src src_size dest_block block_size threshold_count (ps_search_range stage)
                     dest_pos (prev_match_pos block_size (fst tp) dest_idx) of
                None \<Rightarrow> (UB_FAULT, tp)
              | Some (best_offset, best_count) \<Rightarrow>
                  if best_count < threshold_count then (FSD_SUCCESS, tp)
                  else
                    (let src_pos = s64 (dest_pos + best_offset) in
                     if \<not> pos_ok src_size block_size src_pos then (FSD_SUCCESS, tp)
                     else
                       (case record_partial A src dest block_size dest_idx (nat src_pos) tp of
                          (FSD_SUCCESS, tp) \<Rightarrow>
                            extend_match A count_fn src src_size dest block_size threshold_count best_offset
                              [dest_idx + 1..<t_count (fst tp)] tp
                        | (FSD_ERR_OUT_OF_MEMORY, tp) \<Rightarrow> (FSD_SUCCESS, tp)
                        | (e, tp) \<Rightarrow> (e, tp))))))"

definition fsd_partial_stage_run ::
  "simd_dispatch \<Rightarrow> allocator \<Rightarrow> partial_stage \<Rightarrow> bytes \<Rightarrow> bytes \<Rightarrow> (block_tracker \<times> memory_pool) action" where
  "fsd_partial_stage_run g_fsd_simd A stage src dest tp =
     for_loop 0 (t_count (fst tp)) (partial_block A (fsd_block_search_count_fn g_fsd_simd) stage src dest) tp"

definition fsd_partial_stage_set_verbose :: "int \<Rightarrow> partial_stage \<Rightarrow> partial_stage" where
  "fsd_partial_stage_set_verbose verbose stage = stage\<lparr>ps_verbose := verbose\<rparr>"

section \<open>Finding a match\<close>

text \<open>An accepted probe.\<close>

lemma probe_loop_cases:
  assumes "search_setup count_fn src src_size d bs" and "\<forall>p \<in> set ps. s64 p = p"
  shows "\<exists>r. probe_loop count_fn src src_size d bs q dest_pos ps = Some r \<and>
    (\<forall>x c. r = Some (x, c) \<longrightarrow> q \<le> c \<and> pos_ok src_size bs (s64 (dest_pos + x)) \<and> c = quality src d bs (s64 (dest_pos + x)))"
  using assms(2)
proof (induction ps)
  case (Cons p ps)
  have p: "s64 (dest_pos + s64 (p - dest_pos)) = p" using Cons.prems by simp
  have "count_at count_fn src (nat p) d 0 bs = Some (quality src d bs p)" if "pos_ok src_size bs p"
    using that assms(1) pos_ok_iff[of bs p src_size] s64_bounds[of p] Cons.prems
    by (simp add: count_at_def search_setup_def quality_def)
  then show ?case using Cons p by auto
qed simp

lemma quick_accept_bar_ge: "thr \<le> quick_accept_bar bs thr"
  by (simp add: quick_accept_bar_def Let_def)

lemma candidate_pos_ok:
  assumes "search_setup count_fn src src_size d bs" and "candidate src src_size d bs thr p"
  shows "s64 p = p" "pos_ok src_size bs p"
proof -
  have p: "0 \<le> p" "nat p + bs \<le> src_size" "src_size < 2 ^ 62" "bs < 2 ^ 62"
    using assms by (auto simp: candidate_def search_setup_def)
  then have "p < 2 ^ 62" by (simp add: nat_less_iff[symmetric])
  then show "s64 p = p" using p(1) by (intro s64_id) simp_all
  show "pos_ok src_size bs p" using p \<open>p < 2 ^ 62\<close> pos_ok_iff[of bs p src_size] by simp
qed

text \<open>The sweep behind the previous match.\<close>

lemma reloc_search_cases:
  assumes "search_setup count_fn src src_size d bs" and "0 < thr"
  obtains x c where "fsd_block_search_best src src_size d bs center 0 hi thr count_fn = Some (x, c)"
    "thr \<le> c \<longrightarrow> pos_ok src_size bs (s64 (center + x)) \<and> c = quality src d bs (s64 (center + x))"
proof -
  have "\<not> thr \<le> thr - 1" using assms(2) by linarith
  then show thesis
    using search_loop_sound[OF assms(1), of center thr "[0..hi]" "- 1" "thr - 1"] assms(2) that
    by (auto simp: fsd_block_search_best_def)
qed

definition no_candidate :: "bytes \<Rightarrow> nat \<Rightarrow> bytes \<Rightarrow> nat \<Rightarrow> nat \<Rightarrow> nat \<Rightarrow> int \<Rightarrow> bool" where
  "no_candidate src src_size d bs thr rng dest_pos \<longleftrightarrow>
     (\<forall>y. - int rng \<le> y \<and> y \<le> int rng \<and> candidate src src_size d bs thr (dest_pos + y) \<longrightarrow>
        quality src d bs (dest_pos + y) < thr)"

lemma find_partial_cases:
  assumes "search_setup count_fn src src_size d bs" and "0 < thr" and "0 \<le> dest_pos" and "dest_pos < 2 ^ 62" and "rng < 2 ^ 62"
  obtains x c where "find_partial count_fn src src_size d bs thr rng dest_pos prev = Some (x, c)"
    "thr \<le> c \<Longrightarrow> pos_ok src_size bs (s64 (dest_pos + x)) \<and> c = quality src d bs (s64 (dest_pos + x))"
    "c < thr \<Longrightarrow> no_candidate src src_size d bs thr rng dest_pos"
proof -
  let ?probes = "(case prev of Some p \<Rightarrow> [s64 (p + int bs)] | None \<Rightarrow> []) @ [dest_pos]"
  have w: "s64 (int rng) = int rng" "s64 dest_pos = dest_pos"
    using assms(3-5) by (auto intro!: s64_id)
  have "\<forall>p \<in> set ?probes. s64 p = p" using w by (cases prev) simp_all
  from probe_loop_cases[OF assms(1) this, of "quick_accept_bar bs thr" dest_pos] obtain quick where
    quick: "probe_loop count_fn src src_size d bs (quick_accept_bar bs thr) dest_pos ?probes = Some quick"
      "\<And>x c. quick = Some (x, c) \<Longrightarrow> quick_accept_bar bs thr \<le> c \<and> pos_ok src_size bs (s64 (dest_pos + x)) \<and>
         c = quality src d bs (s64 (dest_pos + x))"
    by blast
  show thesis
  proof (cases quick)
    case (Some xc)
    then obtain x c where xc: "quick = Some (x, c)" by (cases xc) auto
    have "thr \<le> c" using quick(2)[OF xc] quick_accept_bar_ge[of thr bs] by linarith
    then have "find_partial count_fn src src_size d bs thr rng dest_pos prev = Some (x, c)"
      using quick(1) xc by (simp add: find_partial_def Let_def split: option.split)
    then show thesis using that quick(2)[OF xc] \<open>thr \<le> c\<close> by (metis not_le)
  next
    case None
    have center: "\<bar>dest_pos\<bar> < 2 ^ 62" "- (2 ^ 62) < - int rng" "int rng < 2 ^ 62" using assms(3-5) by simp_all
    show thesis
    proof (rule block_search_best_cases[OF assms(1) center, where thr = thr], goal_cases)
      case 1
      have nocand: "no_candidate src src_size d bs thr rng dest_pos"
        using 1(2) assms(2) by (simp add: no_candidate_def max_def)
      show thesis
      proof (cases prev)
        case (Some pp)
        let ?base = "s64 (pp + int bs)"
        obtain x c where r: "fsd_block_search_best src src_size d bs ?base 0 (int rng) thr count_fn = Some (x, c)"
          "thr \<le> c \<longrightarrow> pos_ok src_size bs (s64 (?base + x)) \<and> c = quality src d bs (s64 (?base + x))"
          by (rule reloc_search_cases[OF assms(1,2), of ?base "int rng"])
        have f: "find_partial count_fn src src_size d bs thr rng dest_pos prev =
            (if thr \<le> c then Some (s64 (s64 (?base + x) - dest_pos), c) else Some (- 1, thr - 1))"
          using quick(1) None Some 1(1) r(1) w assms(2) by (auto simp: find_partial_def Let_def)
        show thesis
        proof (cases "thr \<le> c")
          case True
          then show thesis using that[of "s64 (s64 (?base + x) - dest_pos)" c] f r(2) by simp
        qed (use that f nocand assms(2) in auto)
      next
        case prev: None
        then have "find_partial count_fn src src_size d bs thr rng dest_pos prev = Some (- 1, thr - 1)"
          using quick(1) None 1(1) w by (simp add: find_partial_def Let_def)
        then show thesis using that nocand assms(2) by auto
      qed
    next
      case (2 x)
      then have "find_partial count_fn src src_size d bs thr rng dest_pos prev = Some (x, quality src d bs (dest_pos + x))"
        using quick(1) None w by (simp add: find_partial_def Let_def split: option.split)
      then show thesis using that candidate_pos_ok[OF assms(1) 2(4)] 2(5) by simp
    qed
  qed
qed

section \<open>A run\<close>

definition run_setup :: "simd_dispatch \<Rightarrow> partial_stage \<Rightarrow> bytes \<Rightarrow> bytes \<Rightarrow> bool" where
  "run_setup g s src dest \<longleftrightarrow> dispatch_ok g \<and> 0 < ps_block_size s \<and> ps_block_size s < 2 ^ 62 \<and>
     ps_src_size s \<le> length src \<and> length src < 2 ^ 62 \<and> length dest < 2 ^ 62 \<and> ps_search_range s < 2 ^ 62"

lemma run_setup_search:
  assumes "run_setup g s src dest" and "ps_block_size s = bs" and "(i + 1) * bs \<le> length dest"
  shows "search_setup (fsd_block_search_count_fn g) src (ps_src_size s) (bytes_at (i * bs) bs dest) bs"
proof -
  have "fsd_block_search_count_fn g = equal_bytes"
    using assms(1) count_fn_equal by (auto simp: run_setup_def fun_eq_iff)
  then show ?thesis using assms by (simp add: search_setup_def run_setup_def)
qed

text \<open>Recording at a position the bounds check accepted.\<close>

lemma record_at_pos:
  assumes "run_setup g s src dest" and "ps_block_size s = bs" and "tracker_sound src dest bs t"
    and "fsd_block_tracker_is_unmatched t i" and "pos_ok (ps_src_size s) bs (s64 p)"
    and "thr \<le> quality src (bytes_at (i * bs) bs dest) bs (s64 p)"
  obtains (ok) u pool' where "record_partial A src dest bs i (nat (s64 p)) (t, pool) = (FSD_SUCCESS, u, pool')"
      "adds_partials src dest bs thr t u" "\<not> fsd_block_tracker_is_unmatched u i"
      "generous A bs pool \<Longrightarrow> generous A bs pool'"
    | (oom) pool' where "record_partial A src dest bs i (nat (s64 p)) (t, pool) = (FSD_ERR_OUT_OF_MEMORY, t, pool')"
      "\<not> generous A bs pool"
proof -
  have "bs < 2 ^ 62" using assms(1,2) by (simp add: run_setup_def)
  then have p: "0 \<le> s64 p" "nat (s64 p) + bs \<le> ps_src_size s"
    using pos_ok_iff[of bs "s64 p" "ps_src_size s"] s64_bounds[of p] assms(5) by simp_all
  then have fits: "nat (s64 p) + bs \<le> length src" and q: "thr \<le> quality src (bytes_at (i * bs) bs dest) bs (int (nat (s64 p)))"
    using assms(1,6) by (simp_all add: run_setup_def)
  show thesis
    by (rule record_partial_outcomes[OF assms(3,4) fits q]) (use ok oom in blast)+
qed

lemma extend_match_adds:
  assumes "run_setup g s src dest" and "ps_block_size s = bs" and "tracker_sound src dest bs t"
  shows "\<exists>u pool'. extend_match A (fsd_block_search_count_fn g) src (ps_src_size s) dest bs thr x ks (t, pool) =
      (FSD_SUCCESS, u, pool') \<and> adds_partials src dest bs thr t u \<and> (generous A bs pool \<longrightarrow> generous A bs pool')"
  using assms(3)
proof (induction ks arbitrary: t pool)
  case (Cons k ks)
  let ?p = "int (k * bs) + x" and ?d = "bytes_at (k * bs) bs dest"
  note refl = adds_partials_refl[OF Cons.prems, of thr]
  show ?case
  proof (cases "fsd_block_tracker_is_unmatched t k \<and> pos_ok (ps_src_size s) bs (s64 ?p) \<and> thr \<le> quality src ?d bs (s64 ?p)")
    case True
    note d = unmatched_block_in[OF Cons.prems conjunct1[OF True]]
    note c = count_at_pos[OF run_setup_search[OF assms(1,2) d(1)], of ?p]
    show ?thesis
    proof (rule record_at_pos[OF assms(1,2) Cons.prems, of k ?p thr A pool], goal_cases)
      case (4 u pool')
      then have "tracker_sound src dest bs u" by (simp add: adds_partials_def)
      from Cons.IH[OF this, of pool'] show ?thesis
        using 4 True d(2) c adds_partials_trans[OF 4(2)] by (auto simp: Let_def)
    next
      case (5 pool')
      then show ?thesis using True d(2) c refl by (auto simp: Let_def)
    qed (use True in auto)
  next
    case False
    show ?thesis
    proof (cases "fsd_block_tracker_is_unmatched t k \<and> pos_ok (ps_src_size s) bs (s64 ?p)")
      case True
      note d = unmatched_block_in[OF Cons.prems conjunct1[OF True]]
      note c = count_at_pos[OF run_setup_search[OF assms(1,2) d(1)], of ?p]
      show ?thesis using True False d(2) c refl by (auto simp: Let_def not_le)
    qed (use refl in \<open>auto simp: Let_def\<close>)
  qed
qed (use adds_partials_refl in auto)

text \<open>One block: matched well enough, or searched in vain.\<close>

definition searched_in_vain :: "partial_stage \<Rightarrow> bytes \<Rightarrow> bytes \<Rightarrow> nat \<Rightarrow> bool" where
  "searched_in_vain s src dest i \<longleftrightarrow>
     (let bs = ps_block_size s in
      no_candidate src (ps_src_size s) (bytes_at (i * bs) bs dest) bs (threshold_bytes (ps_threshold s) bs)
        (ps_search_range s) (int (i * bs)))"

lemma partial_block_adds:
  assumes "run_setup g s src dest" and "ps_block_size s = bs" and "thr = threshold_bytes (ps_threshold s) bs"
    and "tracker_sound src dest bs t"
  shows "\<exists>u pool'. partial_block A (fsd_block_search_count_fn g) s src dest i (t, pool) = (FSD_SUCCESS, u, pool') \<and>
    adds_partials src dest bs thr t u \<and> (generous A bs pool \<longrightarrow> generous A bs pool' \<and>
      (fsd_block_tracker_is_unmatched u i \<longrightarrow> searched_in_vain s src dest i))"
proof (cases "fsd_block_tracker_is_unmatched t i")
  case True
  note refl = adds_partials_refl[OF assms(4), of thr]
  note d = unmatched_block_in[OF assms(4) True]
  let ?d = "bytes_at (i * bs) bs dest" and ?cf = "fsd_block_search_count_fn g"
  have "i * bs < 2 ^ 62" using d(1) assms(1) by (simp add: run_setup_def)
  then have "int (i * bs) < 2 ^ 62" "0 \<le> int (i * bs)" "ps_search_range s < 2 ^ 62"
    using assms(1) by (simp_all add: run_setup_def flip: of_nat_mult)
  moreover from this have pos: "s64 (int (i * bs)) = int (i * bs)" using s64_of_nat[OF \<open>i * bs < 2 ^ 62\<close>] by simp
  ultimately obtain x c where
    f: "find_partial ?cf src (ps_src_size s) ?d bs thr (ps_search_range s) (int (i * bs)) (prev_match_pos bs t i) = Some (x, c)"
      and good: "thr \<le> c \<Longrightarrow> pos_ok (ps_src_size s) bs (s64 (int (i * bs) + x)) \<and> c = quality src ?d bs (s64 (int (i * bs) + x))"
      and vain: "c < thr \<Longrightarrow> no_candidate src (ps_src_size s) ?d bs thr (ps_search_range s) (int (i * bs))"
    using find_partial_cases[OF run_setup_search[OF assms(1,2) d(1)], of thr "int (i * bs)" "ps_search_range s" "prev_match_pos bs t i"]
      assms(3) by (metis threshold_bytes_pos)
  show ?thesis
  proof (cases "thr \<le> c")
    case acc: True
    note g = good[OF acc]
    show ?thesis
    proof (rule record_at_pos[OF assms(1,2,4) True, of "int (i * bs) + x" thr A pool], goal_cases)
      case (3 u pool')
      have u: "tracker_sound src dest bs u" using 3(2) by (simp add: adds_partials_def)
      obtain v pool2 where
        e: "extend_match A ?cf src (ps_src_size s) dest bs thr x [i + 1..<t_count u] (u, pool') = (FSD_SUCCESS, v, pool2)"
          "adds_partials src dest bs thr u v" "generous A bs pool' \<longrightarrow> generous A bs pool2"
        using extend_match_adds[OF assms(1,2) u] by blast
      have "\<not> fsd_block_tracker_is_unmatched v i"
        using 3(3) e(2) u unfolding adds_partials_def extends_matches_def tracker_sound_def
        by (auto simp: tracker_is_unmatched matched_def split: if_splits)
      then show ?thesis
        using 3 e acc g f True d(2) pos assms(2,3) adds_partials_trans[OF 3(2) e(2)]
        by (auto simp: partial_block_def Let_def)
    next
      case (4 pool')
      then show ?thesis using acc g f True d(2) pos assms(2,3) refl by (auto simp: partial_block_def Let_def)
    qed (use g acc in auto)
  next
    case False
    then show ?thesis
      using f True d(2) pos assms(2,3) refl vain by (auto simp: partial_block_def searched_in_vain_def Let_def)
  qed
next
  case False
  then show ?thesis using adds_partials_refl[OF assms(4), of thr] by (auto simp: partial_block_def Let_def)
qed

lemma partial_run_adds:
  assumes "run_setup g s src dest" and "ps_block_size s = bs" and "thr = threshold_bytes (ps_threshold s) bs"
    and "tracker_sound src dest bs t"
  shows "\<exists>u pool'. fsd_partial_stage_run g A s src dest (t, pool) = (FSD_SUCCESS, u, pool') \<and>
    adds_partials src dest bs thr t u \<and> (generous A bs pool \<longrightarrow>
      (\<forall>i < t_count t. fsd_block_tracker_is_unmatched u i \<longrightarrow> searched_in_vain s src dest i))"
proof -
  let ?body = "partial_block A (fsd_block_search_count_fn g) s src dest"
  let ?P = "\<lambda>k (u, p). adds_partials src dest bs thr t u \<and> (generous A bs pool \<longrightarrow> generous A bs p \<and>
      (\<forall>i < k. fsd_block_tracker_is_unmatched u i \<longrightarrow> searched_in_vain s src dest i))"
  obtain e u pool' where f: "for_loop 0 (t_count t) ?body (t, pool) = (e, u, pool')" by (metis prod_cases3)
  have "(e = FSD_SUCCESS \<longrightarrow> ?P (0 + t_count t) (u, pool')) \<and> (e \<noteq> FSD_SUCCESS \<longrightarrow> False)"
  proof (rule for_loop_rule[OF _ f])
    show "?P 0 (t, pool)" using adds_partials_refl[OF assms(4)] by simp
    fix j tp e tp' assume P: "?P j tp" and b: "?body j tp = (e, tp')"
    obtain v p where tp: "tp = (v, p)" by fastforce
    have v: "tracker_sound src dest bs v" using P tp by (simp add: adds_partials_def)
    from partial_block_adds[OF assms(1-3) v, of A j p] obtain v' p' where
      n: "tp' = (v', p')" "e = FSD_SUCCESS" "adds_partials src dest bs thr v v'"
         "generous A bs p \<longrightarrow> generous A bs p' \<and> (fsd_block_tracker_is_unmatched v' j \<longrightarrow> searched_in_vain s src dest j)"
      using b tp by auto
    have "fsd_block_tracker_is_unmatched v i" if "fsd_block_tracker_is_unmatched v' i" for i
      using adds_partials_unmatched[OF v n(3) that] .
    then show "(e = FSD_SUCCESS \<longrightarrow> ?P (Suc j) tp') \<and> (e \<noteq> FSD_SUCCESS \<longrightarrow> False)"
      using P tp n adds_partials_trans[OF _ n(3)] by (auto simp: less_Suc_eq)
  qed
  then show ?thesis using f by (auto simp: fsd_partial_stage_run_def)
qed

section \<open>The stage as the controller runs it\<close>

definition partial_run ::
  "simd_dispatch \<Rightarrow> allocator \<Rightarrow> partial_stage \<times> memory_pool \<Rightarrow> block_tracker \<Rightarrow> bytes \<Rightarrow> bytes \<Rightarrow>
   fsd_error \<times> (partial_stage \<times> memory_pool) \<times> block_tracker" where
  "partial_run g A sp t src dest =
     (case sp of (s, pool) \<Rightarrow>
        (case fsd_partial_stage_build_index (length src div ps_block_size s) s of
           (e, s) \<Rightarrow> if e \<noteq> FSD_SUCCESS then (e, (s, pool), t)
             else (case fsd_partial_stage_run g A s src dest (t, pool) of (e, t, pool) \<Rightarrow> (e, (s, pool), t))))"

definition partial_ready :: "simd_dispatch \<Rightarrow> bytes \<Rightarrow> bytes \<Rightarrow> nat \<Rightarrow> partial_stage \<times> memory_pool \<Rightarrow> bool" where
  "partial_ready g src dest bs sp \<longleftrightarrow> dispatch_ok g \<and> ps_block_size (fst sp) = bs \<and> 0 < bs \<and> bs < 2 ^ 62 \<and>
     length src < 2 ^ 62 \<and> length dest < 2 ^ 62 \<and> ps_search_range (fst sp) < 2 ^ 62"

lemma partial_ready_setup:
  assumes "partial_ready g src dest bs (s, pool)"
  shows "run_setup g (snd (fsd_partial_stage_build_index (length src div bs) s)) src dest"
    "ps_src_size (snd (fsd_partial_stage_build_index (length src div bs) s)) = length src div bs * bs"
proof -
  have le: "length src div bs * bs \<le> length src" by simp
  moreover have "length src < 2 ^ 64" using assms by (simp add: partial_ready_def)
  then have "u64 (length src div bs * bs) = length src div bs * bs" by (intro u64_id le_less_trans[OF le])
  moreover note le
  ultimately show "run_setup g (snd (fsd_partial_stage_build_index (length src div bs) s)) src dest"
    "ps_src_size (snd (fsd_partial_stage_build_index (length src div bs) s)) = length src div bs * bs"
    using assms by (simp_all add: run_setup_def partial_ready_def fsd_partial_stage_build_index_def)
qed

interpretation partial: matching_stage "partial_run g A" "partial_ready g" "\<lambda>_. False" for g A
proof unfold_locales
  fix src dest bs sp t e sp' t'
  assume r: "partial_ready g src dest bs sp" and t: "tracker_sound src dest bs t"
    and run: "partial_run g A sp t src dest = (e, sp', t')"
  obtain s pool where sp: "sp = (s, pool)" by fastforce
  let ?s = "snd (fsd_partial_stage_build_index (length src div bs) s)"
  have bs: "ps_block_size s = bs" "ps_block_size ?s = bs"
    using r sp by (simp_all add: partial_ready_def fsd_partial_stage_build_index_def)
  from partial_run_adds[OF partial_ready_setup(1)[OF r[unfolded sp]] bs(2) refl t, of A pool]
  show "tracker_sound src dest bs t' \<and> extends_matches t t'" and "e \<in> {FSD_SUCCESS, FSD_ERR_OUT_OF_MEMORY} \<or> e = FSD_ERR_CANCELLED \<and> False"
    using run sp bs(1) by (auto simp: partial_run_def fsd_partial_stage_build_index_def adds_partials_def)
qed

text \<open>
  C12. The partial stage is safe, sound, selective and thorough. On any tracker that is sound for the
  two images it succeeds without reading outside them; it changes only blocks that were unmatched,
  and every match it adds has at least the threshold number of bytes equal to the source bytes it
  refers to, with a delta that reproduces the block. When the delta pool has memory, a block it
  leaves unmatched has no byte offset within the search radius, inside the source and past the
  sampling screen, that reaches the threshold.
\<close>

theorem partial_stage_correct:
  assumes "run_setup g s src dest" and "tracker_sound src dest (ps_block_size s) t"
  shows "\<exists>u pool'. fsd_partial_stage_run g A s src dest (t, pool) = (FSD_SUCCESS, u, pool') \<and>
    tracker_sound src dest (ps_block_size s) u \<and>
    (\<forall>i < t_count t. t_blocks u ! i = t_blocks t ! i \<or> matched t i = None \<and>
       good_partial src dest (ps_block_size s) (threshold_bytes (ps_threshold s) (ps_block_size s)) u i) \<and>
    (generous A (ps_block_size s) pool \<longrightarrow>
       (\<forall>i < t_count t. matched u i = None \<longrightarrow> searched_in_vain s src dest i))"
proof -
  let ?bs = "ps_block_size s"
  obtain u pool' where u: "fsd_partial_stage_run g A s src dest (t, pool) = (FSD_SUCCESS, u, pool')"
    "adds_partials src dest ?bs (threshold_bytes (ps_threshold s) ?bs) t u"
    "generous A ?bs pool \<longrightarrow> (\<forall>i < t_count t. fsd_block_tracker_is_unmatched u i \<longrightarrow> searched_in_vain s src dest i)"
    using partial_run_adds[OF assms(1) refl refl assms(2)] by blast
  have "fsd_block_tracker_is_unmatched u i" if "i < t_count t" "matched u i = None" for i
    using u(2) that
    by (auto simp: adds_partials_def tracker_sound_def extends_matches_def tracker_is_unmatched matched_def split: if_splits)
  with u show ?thesis by (auto simp: adds_partials_def)
qed

theorem partial_stage_correct_witness:
  "\<exists>t pool u pool'. fsd_partial_stage_run setup_scalar_dispatch bump_allocator
      \<lparr>ps_block_size = 4, ps_threshold = 1 / 2, ps_search_range = 4, ps_src_blocks = 2, ps_src_size = 8, ps_verbose = 0\<rparr>
      [1, 2, 3, 4, 5, 6, 7, 8] [3, 4, 5, 9] (t, pool) = (FSD_SUCCESS, u, pool') \<and>
    matched t 0 = None \<and> good_partial [1, 2, 3, 4, 5, 6, 7, 8] [3, 4, 5, 9] 4 2 u 0"
proof -
  let ?s = "\<lparr>ps_block_size = 4, ps_threshold = 1 / 2, ps_search_range = 4, ps_src_blocks = 2, ps_src_size = 8, ps_verbose = 0\<rparr>"
  let ?src = "[1, 2, 3, 4, 5, 6, 7, 8] :: bytes" and ?dest = "[3, 4, 5, 9] :: bytes"
  obtain t where t: "fsd_block_tracker_create (\<lambda>_. True) 1 4 = Inr t"
    by (simp add: fsd_block_tracker_create_def Let_def)
  note props = tracker_create_inv[OF t]
  have sound: "tracker_sound ?src ?dest (ps_block_size ?s) t" using t by (auto intro: tracker_sound_create)
  have start: "t_count t = 1" "matched t 0 = None" using props by (auto simp: matched_def fresh_block_def)
  obtain pool where p: "fsd_pool_create bump_allocator True 64 0 = Inr pool" by (simp add: pool_eval)
  then have g: "generous bump_allocator (ps_block_size ?s) pool" by (auto simp: generous_def pool_eval)
  have "run_setup setup_scalar_dispatch ?s ?src ?dest" by (simp add: run_setup_def dispatch_ok_tables)
  note run = partial_stage_correct [OF this sound, of bump_allocator pool]
  have thr: "threshold_bytes (ps_threshold ?s) (ps_block_size ?s) = 2" by (simp add: threshold_bytes_def)
  have four: "(\<Sum>i<4. f i) = f 0 + f 1 + f 2 + f 3" for f :: "nat \<Rightarrow> nat" by (simp add: numeral_eq_Suc)
  have "quality ?src ?dest 4 2 = 3" by (simp add: quality_def equal_bytes_def four)
  then have "\<not> searched_in_vain ?s ?src ?dest 0"
    using thr by (auto simp: searched_in_vain_def no_candidate_def candidate_def prescreen_def Let_def intro!: exI[of _ 2])
  with run g start thr obtain u pool' where "fsd_partial_stage_run setup_scalar_dispatch bump_allocator ?s ?src ?dest (t, pool) = (FSD_SUCCESS, u, pool')"
    "matched u 0 \<noteq> None" "t_blocks u ! 0 = t_blocks t ! 0 \<or> good_partial ?src ?dest 4 2 u 0" "tracker_sound ?src ?dest 4 u"
    by auto
  moreover from this have "t_count u = 1" by (simp add: tracker_sound_def blocks_right_def)
  ultimately show ?thesis using start by (auto simp: matched_def split: if_splits)
qed

end
