(* ===== verification/Mmap_Reader.thy ===== *)
theory Mmap_Reader
  imports Fsd_Base
begin

text \<open>
  What the operating system answers about a path, and the memory-mapped reader of
  \<^verbatim>\<open>src/io/mmap_reader.c\<close> (the Unix implementation, on a 64-bit Linux host). The answers
  are data of the model, so every failing call of the source is a branch here.
\<close>

datatype errno = ENOENT | EACCES | EPERM | EOTHER

datatype file_kind = S_IFREG | S_IFBLK | S_IFOTHER

text \<open>
  How a call of \<^verbatim>\<open>pread\<close> may answer: interrupted, failed, or with at most \<^verbatim>\<open>Suc k\<close> bytes. A
  script of answers is used up call by call; after its end every call is served in full.
\<close>

datatype pread_reply = Eintr | Eio | Short nat

record os_path =
  p_kind :: file_kind
  p_content :: bytes
  p_stat :: "errno option"
  p_open :: "errno option"
  p_open_direct :: "errno option"
  p_fstat :: "errno option"
  p_st_size :: int
  p_blkgetsize64 :: "nat option"
  p_blksszget :: "int option"
  p_lseek_end :: int
  p_mmap_ok :: bool
  p_memalign_ok :: bool
  p_slurp_ok :: bool
  p_calloc_ok :: bool
  p_reader_ok :: bool
  p_script :: "pread_reply list"

record mmap_reader =
  m_base_addr :: "bytes option"
  m_file_size :: nat

definition mmap_raw_size :: "os_path \<Rightarrow> nat" where
  "mmap_raw_size p =
     (let raw_size = nat (p_st_size p) in
      if raw_size = 0 \<and> p_kind p = S_IFBLK then
        let raw_size = (case p_blkgetsize64 p of Some bdev_size \<Rightarrow> bdev_size | None \<Rightarrow> raw_size) in
        if raw_size = 0 then (if 0 < p_lseek_end p then nat (p_lseek_end p) else raw_size)
        else raw_size
      else raw_size)"

definition fsd_mmap_open :: "os_path \<Rightarrow> fsd_error + mmap_reader" where
  "fsd_mmap_open p =
     (if \<not> p_calloc_ok p then Inl FSD_ERR_OUT_OF_MEMORY
      else case p_open p of
        Some e \<Rightarrow>
          (if e = ENOENT then Inl FSD_ERR_FILE_NOT_FOUND
           else if e = EACCES \<or> e = EPERM then Inl FSD_ERR_PERMISSION
           else Inl FSD_ERR_IO)
      | None \<Rightarrow>
          (if p_fstat p \<noteq> None then Inl FSD_ERR_IO
           else if p_st_size p < 0 then Inl FSD_ERR_IO
           else
             let raw_size = mmap_raw_size p in
             if UINT64_MAX < raw_size then Inl FSD_ERR_IO
             else if raw_size = 0 then Inr \<lparr>m_base_addr = None, m_file_size = 0\<rparr>
             else if \<not> p_mmap_ok p then Inl FSD_ERR_MMAP_FAILED
             else Inr \<lparr>m_base_addr = Some (take raw_size (p_content p)), m_file_size = raw_size\<rparr>))"

definition fsd_mmap_data :: "mmap_reader \<Rightarrow> bytes option" where
  "fsd_mmap_data r = m_base_addr r"

definition fsd_mmap_size :: "mmap_reader \<Rightarrow> nat" where
  "fsd_mmap_size r = m_file_size r"

text \<open>
  A path whose reported size is the length of its contents: regular files report it in
  \<^verbatim>\<open>st_size\<close>, block devices report zero there and answer \<^verbatim>\<open>BLKGETSIZE64\<close>. File sizes are
  \<^verbatim>\<open>off_t\<close> values and the sector size is an \<^verbatim>\<open>int\<close>.
\<close>

definition honest_path :: "os_path \<Rightarrow> bool" where
  "honest_path p \<longleftrightarrow> length (p_content p) < 2 ^ 63 \<and>
     (case p_blksszget p of Some sector \<Rightarrow> sector < 2 ^ 31 | None \<Rightarrow> True) \<and>
     (case p_kind p of
        S_IFREG \<Rightarrow> p_st_size p = int (length (p_content p))
      | S_IFBLK \<Rightarrow> p_st_size p = 0 \<and> p_blkgetsize64 p = Some (length (p_content p)) \<and>
          p_lseek_end p = int (length (p_content p))
      | S_IFOTHER \<Rightarrow> False)"

text \<open>The bytes a reader gives access to.\<close>

definition mmap_bytes :: "mmap_reader \<Rightarrow> bytes" where
  "mmap_bytes r = (case m_base_addr r of Some d \<Rightarrow> d | None \<Rightarrow> [])"

lemma mmap_raw_size_honest: "honest_path p \<Longrightarrow> mmap_raw_size p = length (p_content p)"
  by (cases "p_kind p") (auto simp: honest_path_def mmap_raw_size_def Let_def)

lemma mmap_open_content:
  assumes "honest_path p" and "fsd_mmap_open p = Inr r"
  shows "mmap_bytes r = p_content p" "m_file_size r = length (p_content p)"
  using assms mmap_raw_size_honest[OF assms(1)]
  by (auto simp: fsd_mmap_open_def mmap_bytes_def Let_def split: option.splits if_splits)

text \<open>The errors the open can return.\<close>

lemma mmap_open_errors:
  "fsd_mmap_open p = Inl e \<Longrightarrow> e \<in> {FSD_ERR_OUT_OF_MEMORY, FSD_ERR_FILE_NOT_FOUND,
     FSD_ERR_PERMISSION, FSD_ERR_IO, FSD_ERR_MMAP_FAILED}"
  by (auto simp: fsd_mmap_open_def Let_def split: option.splits if_splits)

text \<open>A readable regular file, for the witnesses.\<close>

definition regular_path :: "bytes \<Rightarrow> os_path" where
  "regular_path c = \<lparr>p_kind = S_IFREG, p_content = c, p_stat = None, p_open = None, p_open_direct = None,
     p_fstat = None, p_st_size = int (length c), p_blkgetsize64 = None, p_blksszget = None,
     p_lseek_end = int (length c), p_mmap_ok = True, p_memalign_ok = True, p_slurp_ok = True,
     p_calloc_ok = True, p_reader_ok = True, p_script = []\<rparr>"

lemma regular_path_honest: "length c < 2 ^ 63 \<Longrightarrow> honest_path (regular_path c)"
  by (simp add: honest_path_def regular_path_def)

lemma regular_path_mmap: "length c < 2 ^ 63 \<Longrightarrow> \<exists>m. fsd_mmap_open (regular_path c) = Inr m"
  using mmap_raw_size_honest[OF regular_path_honest, of c]
  by (auto simp: fsd_mmap_open_def regular_path_def Let_def UINT64_MAX_def)

end
