(* ===== verification/Source_Reader.thy ===== *)
theory Source_Reader
  imports Mmap_Reader
begin

text \<open>
  The source reader of \<^verbatim>\<open>src/io/source_reader.c\<close>: opening with the backend chosen by mode and
  file type, and reading through the mmap backend or through the \<^verbatim>\<open>O_DIRECT\<close> backend with its
  aligned scratch cache. Clients rely on the locale \<^verbatim>\<open>block_source\<close>: a successful read returns
  the requested bytes of a fixed image, whatever the cache and the short reads did.
\<close>

section \<open>State and the calls it makes\<close>

datatype fsd_source_mode = FSD_SOURCE_AUTO | FSD_SOURCE_MMAP | FSD_SOURCE_DIRECT

datatype fsd_backend = FSD_BACKEND_MMAP | FSD_BACKEND_DIRECT

record direct_fd =
  fd_content :: bytes
  fd_script :: "pread_reply list"

record source_reader =
  sr_backend :: fsd_backend
  sr_file_size :: nat
  sr_mmap :: mmap_reader
  sr_fd :: direct_fd
  sr_alignment :: nat
  sr_scratch :: bytes
  sr_scratch_size :: nat
  sr_scratch_off :: nat
  sr_scratch_valid :: nat
  sr_slurp :: "bytes option"
  sr_memalign_ok :: bool

definition FSD_DIO_DEFAULT_ALIGN :: nat where "FSD_DIO_DEFAULT_ALIGN = 4096"
definition FSD_DIO_SCRATCH_SIZE :: nat where "FSD_DIO_SCRATCH_SIZE = 1 * 1024 * 1024"

definition align_down :: "nat \<Rightarrow> nat \<Rightarrow> nat" where
  "align_down v align = unat ((of_nat v :: 64 word) AND NOT (of_nat align - 1))"

definition round_up_pow2 :: "nat \<Rightarrow> nat \<Rightarrow> nat" where
  "round_up_pow2 v align =
     unat ((of_nat v + of_nat align - 1 :: 64 word) AND NOT (of_nat align - 1))"

definition query_size :: "os_path \<Rightarrow> nat option" where
  "query_size p =
     (if p_kind p = S_IFREG \<and> p_st_size p < 0 then None
      else
        let raw =
          (if p_kind p = S_IFREG then Some (nat (p_st_size p))
           else if p_kind p = S_IFBLK \<and> p_blkgetsize64 p \<noteq> None then p_blkgetsize64 p
           else if p_lseek_end p < 0 then None
           else Some (nat (p_lseek_end p)))
        in case raw of None \<Rightarrow> None | Some r \<Rightarrow> if UINT64_MAX < r then None else Some r)"

definition query_alignment :: "os_path \<Rightarrow> nat" where
  "query_alignment p =
     (if p_kind p = S_IFBLK then
        (case p_blksszget p of
           Some sector \<Rightarrow> if 0 < sector then nat sector else FSD_DIO_DEFAULT_ALIGN
         | None \<Rightarrow> FSD_DIO_DEFAULT_ALIGN)
      else FSD_DIO_DEFAULT_ALIGN)"

definition errno_to_fsd :: "errno \<Rightarrow> fsd_error" where
  "errno_to_fsd e =
     (if e = ENOENT then FSD_ERR_FILE_NOT_FOUND
      else if e = EACCES \<or> e = EPERM then FSD_ERR_PERMISSION
      else FSD_ERR_IO)"

definition empty_reader :: source_reader where
  "empty_reader = \<lparr>sr_backend = FSD_BACKEND_MMAP, sr_file_size = 0,
     sr_mmap = \<lparr>m_base_addr = None, m_file_size = 0\<rparr>,
     sr_fd = \<lparr>fd_content = [], fd_script = []\<rparr>, sr_alignment = 0, sr_scratch = [],
     sr_scratch_size = 0, sr_scratch_off = 0, sr_scratch_valid = 0, sr_slurp = None,
     sr_memalign_ok = True\<rparr>"

definition open_mmap :: "os_path \<Rightarrow> fsd_error + source_reader" where
  "open_mmap p =
     (case fsd_mmap_open p of
        Inl e \<Rightarrow> Inl e
      | Inr m \<Rightarrow> Inr (empty_reader\<lparr>sr_mmap := m, sr_backend := FSD_BACKEND_MMAP,
                   sr_file_size := fsd_mmap_size m\<rparr>))"

definition open_direct :: "os_path \<Rightarrow> fsd_error + source_reader" where
  "open_direct p =
     (case p_open_direct p of Some e \<Rightarrow> Inl (errno_to_fsd e)
      | None \<Rightarrow> (case p_fstat p of Some e \<Rightarrow> Inl (errno_to_fsd e)
      | None \<Rightarrow> (case query_size p of None \<Rightarrow> Inl FSD_ERR_IO
      | Some sz \<Rightarrow>
          let align = query_alignment p;
              align = (if align = 0 \<or> (of_nat align :: 64 word) AND (of_nat align - 1) \<noteq> 0
                       then FSD_DIO_DEFAULT_ALIGN else align);
              scratch_size = FSD_DIO_SCRATCH_SIZE;
              scratch_size = (if scratch_size < align then align else scratch_size);
              scratch_size = round_up_pow2 scratch_size align
          in if \<not> p_memalign_ok p then Inl FSD_ERR_OUT_OF_MEMORY
             else Inr (empty_reader\<lparr>sr_backend := FSD_BACKEND_DIRECT,
                         sr_fd := \<lparr>fd_content = p_content p, fd_script = p_script p\<rparr>,
                         sr_file_size := sz, sr_alignment := align, sr_memalign_ok := p_slurp_ok p,
                         sr_scratch := replicate scratch_size 0,
                         sr_scratch_size := scratch_size\<rparr>))))"

definition fsd_source_reader_open :: "os_path \<Rightarrow> fsd_source_mode \<Rightarrow> fsd_error + source_reader" where
  "fsd_source_reader_open p mode =
     (if \<not> p_reader_ok p then Inl FSD_ERR_OUT_OF_MEMORY
      else
        let resolved =
          (if mode = FSD_SOURCE_AUTO then
             (case p_stat p of Some e \<Rightarrow> Inl (errno_to_fsd e)
              | None \<Rightarrow> Inr (if p_kind p = S_IFBLK then FSD_SOURCE_DIRECT else FSD_SOURCE_MMAP))
           else Inr mode)
        in case resolved of
             Inl e \<Rightarrow> Inl e
           | Inr m \<Rightarrow> if m = FSD_SOURCE_DIRECT then open_direct p else open_mmap p)"

section \<open>Reading\<close>

datatype pread_result = Got bytes | Failed_EINTR | Failed

definition pread :: "nat \<Rightarrow> nat \<Rightarrow> direct_fd \<Rightarrow> pread_result \<times> direct_fd" where
  "pread n off fd =
     (case fd_script fd of
        [] \<Rightarrow> (Got (bytes_at off n (fd_content fd)), fd)
      | Eintr # s \<Rightarrow> (Failed_EINTR, fd\<lparr>fd_script := s\<rparr>)
      | Eio # s \<Rightarrow> (Failed, fd\<lparr>fd_script := s\<rparr>)
      | Short k # s \<Rightarrow> (Got (bytes_at off (min (Suc k) n) (fd_content fd)), fd\<lparr>fd_script := s\<rparr>))"

text \<open>
  \<^verbatim>\<open>got\<close> is the filled part of the buffer. A retry after an interrupt uses up the script, a
  short read fills the buffer further: the loop terminates.
\<close>

function pread_full ::
  "nat \<Rightarrow> nat \<Rightarrow> nat \<Rightarrow> bytes \<Rightarrow> direct_fd \<Rightarrow> fsd_error \<times> bytes \<times> direct_fd" where
  "pread_full len offset file_size got fd =
     (if len \<le> length got then (FSD_SUCCESS, got, fd)
      else case pread (len - length got) (offset + length got) fd of
        (Failed_EINTR, fd') \<Rightarrow> pread_full len offset file_size got fd'
      | (Failed, fd') \<Rightarrow> (FSD_ERR_IO, got, fd')
      | (Got d, fd') \<Rightarrow>
          (if d = [] then
             (if file_size \<le> u64 (offset + length got)
              then (FSD_SUCCESS, got @ replicate (len - length got) 0, fd')
              else (FSD_ERR_IO, got, fd'))
           else pread_full len offset file_size (got @ d) fd'))"
  by pat_completeness auto
termination
  by (relation "measure (\<lambda>(len, offset, file_size, got, fd). (len - length got) + length (fd_script fd))")
     (auto simp: pread_def bytes_at_def split: list.splits pread_reply.splits)

declare pread_full.simps [simp del]

definition cache_hit :: "source_reader \<Rightarrow> nat \<Rightarrow> bool" where
  "cache_hit r offset \<longleftrightarrow> 0 < sr_scratch_valid r \<and> sr_scratch_off r \<le> offset \<and>
     offset < u64 (sr_scratch_off r + sr_scratch_valid r)"

definition refill_scratch :: "source_reader \<Rightarrow> nat \<Rightarrow> fsd_error \<times> source_reader" where
  "refill_scratch r offset =
     (let aligned_off = align_down offset (sr_alignment r);
          chunk = sr_scratch_size r;
          max_aligned = round_up_pow2 (sr_file_size r) (sr_alignment r);
          chunk = (if max_aligned < u64 (aligned_off + chunk) then max_aligned - aligned_off else chunk)
      in case pread_full chunk aligned_off (sr_file_size r) [] (sr_fd r) of
           (err, got, fd') \<Rightarrow>
             let r' = r\<lparr>sr_fd := fd', sr_scratch := got @ drop (length got) (sr_scratch r),
                        sr_scratch_valid := 0\<rparr>
             in if err \<noteq> FSD_SUCCESS then (err, r')
                else (FSD_SUCCESS, r'\<lparr>sr_scratch_off := aligned_off, sr_scratch_valid := chunk\<rparr>))"

text \<open>
  The cache loop. A hit copies at least one byte and a miss is followed by a hit, so
  \<^verbatim>\<open>2 * len + 2\<close> iterations are enough (\<^verbatim>\<open>direct_read_loop_spec\<close>); running out of fuel is
  the value \<^verbatim>\<open>UB_FAULT\<close>.
\<close>

fun direct_read_loop ::
  "nat \<Rightarrow> nat \<Rightarrow> nat \<Rightarrow> bytes \<Rightarrow> source_reader \<Rightarrow> fsd_error \<times> bytes \<times> source_reader" where
  "direct_read_loop 0 offset len out r = (UB_FAULT, out, r)"
| "direct_read_loop (Suc fuel) offset len out r =
     (if len = 0 then (FSD_SUCCESS, out, r)
      else if cache_hit r offset then
        let cached_off = offset - sr_scratch_off r;
            available = sr_scratch_valid r - cached_off;
            copy = (if len < available then len else available)
        in direct_read_loop fuel (offset + copy) (len - copy)
             (out @ bytes_at cached_off copy (sr_scratch r)) r
      else case refill_scratch r offset of
        (err, r') \<Rightarrow>
          if err \<noteq> FSD_SUCCESS then (err, out, r')
          else direct_read_loop fuel offset len out r')"

definition direct_read_at ::
  "nat \<Rightarrow> nat \<Rightarrow> source_reader \<Rightarrow> fsd_error \<times> bytes \<times> source_reader" where
  "direct_read_at offset len r =
     (if len = 0 then (FSD_SUCCESS, [], r)
      else if sr_file_size r < offset \<or> sr_file_size r - offset < len
      then (FSD_ERR_TRUNCATED, [], r)
      else direct_read_loop (2 * len + 2) offset len [] r)"

text \<open>\<^verbatim>\<open>memcpy(dst, base + offset, len)\<close> from a mapping shorter than its recorded size faults.\<close>

definition fsd_source_reader_read_at ::
  "nat \<Rightarrow> nat \<Rightarrow> source_reader \<Rightarrow> fsd_error \<times> bytes \<times> source_reader" where
  "fsd_source_reader_read_at offset len r =
     (if len = 0 then (FSD_SUCCESS, [], r)
      else if sr_file_size r < offset \<or> sr_file_size r - offset < len
      then (FSD_ERR_TRUNCATED, [], r)
      else if sr_backend r = FSD_BACKEND_MMAP then
        (case fsd_mmap_data (sr_mmap r) of
           Some base \<Rightarrow>
             if offset + len \<le> length base then (FSD_SUCCESS, bytes_at offset len base, r)
             else (UB_FAULT, [], r)
         | None \<Rightarrow> (UB_FAULT, [], r))
      else direct_read_at offset len r)"

definition direct_materialize :: "source_reader \<Rightarrow> fsd_error \<times> source_reader" where
  "direct_materialize r =
     (if sr_slurp r \<noteq> None then (FSD_SUCCESS, r)
      else if sr_file_size r = 0 then (FSD_SUCCESS, r\<lparr>sr_slurp := Some [0]\<rparr>)
      else if \<not> sr_memalign_ok r then (FSD_ERR_OUT_OF_MEMORY, r)
      else case pread_full (round_up_pow2 (sr_file_size r) (sr_alignment r)) 0 (sr_file_size r) []
                  (sr_fd r) of
        (err, buf, fd') \<Rightarrow>
          if err \<noteq> FSD_SUCCESS then (err, r\<lparr>sr_fd := fd'\<rparr>)
          else (FSD_SUCCESS, r\<lparr>sr_fd := fd', sr_slurp := Some buf\<rparr>))"

definition fsd_source_reader_data ::
  "source_reader \<Rightarrow> fsd_error \<times> bytes option \<times> source_reader" where
  "fsd_source_reader_data r =
     (if sr_backend r = FSD_BACKEND_MMAP then (FSD_SUCCESS, fsd_mmap_data (sr_mmap r), r)
      else case direct_materialize r of
        (err, r') \<Rightarrow> if err \<noteq> FSD_SUCCESS then (err, None, r') else (FSD_SUCCESS, sr_slurp r', r'))"

definition fsd_source_reader_size :: "source_reader \<Rightarrow> nat" where
  "fsd_source_reader_size r = sr_file_size r"

section \<open>Aligned arithmetic\<close>

lemma unat_and_not_mask:
  "unat ((w :: 64 word) AND NOT (mask k)) = unat w div 2 ^ k * 2 ^ k"
proof -
  have "unat (w AND NOT (mask k)) = push_bit k (drop_bit k (unat w))"
    by (rule bit_eqI)
       (auto simp: bit_unsigned_iff bit_and_iff bit_not_iff bit_mask_iff bit_push_bit_iff
         bit_drop_bit_eq dest: bit_imp_le_length)
  then show ?thesis by (simp add: push_bit_eq_mult drop_bit_eq_div)
qed

lemma align_down_pow2:
  assumes "v < 2 ^ 64"
  shows "align_down v (2 ^ k) = v div 2 ^ k * 2 ^ k"
  using assms unat_and_not_mask[of "of_nat v" k]
  by (simp add: align_down_def mask_eq_exp_minus_1)

lemma round_up_pow2_pow2:
  assumes "v + 2 ^ k \<le> 2 ^ 64"
  shows "round_up_pow2 v (2 ^ k) = (v + 2 ^ k - 1) div 2 ^ k * 2 ^ k"
proof -
  have "(of_nat v + of_nat (2 ^ k) - 1 :: 64 word) = of_nat (v + 2 ^ k - 1)"
    using of_nat_diff[of 1 "v + 2 ^ k"] by (simp add: Suc_le_eq)
  moreover have "v + 2 ^ k - 1 < 2 ^ 64" using assms by simp
  ultimately show ?thesis
    using unat_and_not_mask[of "of_nat (v + 2 ^ k - 1)" k]
    by (simp add: round_up_pow2_def mask_eq_exp_minus_1)
qed

lemma round_up_bounds:
  assumes "v + 2 ^ k \<le> 2 ^ 64"
  shows "v \<le> round_up_pow2 v (2 ^ k)" "round_up_pow2 v (2 ^ k) < v + 2 ^ k"
    "2 ^ k dvd round_up_pow2 v (2 ^ k)"
proof -
  let ?a = "2 ^ k :: nat"
  have pos: "0 < ?a" by simp
  have split: "(v + ?a - 1) div ?a * ?a + (v + ?a - 1) mod ?a = v + ?a - 1" by (rule div_mult_mod_eq)
  have "(v + ?a - 1) mod ?a < ?a" by simp
  with split pos show "v \<le> round_up_pow2 v ?a" "round_up_pow2 v ?a < v + ?a"
    unfolding round_up_pow2_pow2[OF assms] by linarith+
  show "?a dvd round_up_pow2 v ?a" unfolding round_up_pow2_pow2[OF assms] by simp
qed

lemma align_down_bounds:
  assumes "v < 2 ^ 64"
  shows "align_down v (2 ^ k) \<le> v" "v < align_down v (2 ^ k) + 2 ^ k"
proof -
  have "v div 2 ^ k * 2 ^ k + v mod 2 ^ k = v" by (rule div_mult_mod_eq)
  moreover have "v mod 2 ^ k < (2 ^ k :: nat)" by simp
  ultimately show "align_down v (2 ^ k) \<le> v" "v < align_down v (2 ^ k) + 2 ^ k"
    unfolding align_down_pow2[OF assms] by linarith+
qed

section \<open>Full reads of the descriptor\<close>

lemma pread_cases:
  assumes "pread n off fd = (res, fd')"
  shows "fd_content fd' = fd_content fd" "set (fd_script fd') \<subseteq> set (fd_script fd)"
    "res = Failed \<Longrightarrow> Eio \<in> set (fd_script fd)"
    "res = Got d \<Longrightarrow> \<exists>k. d = bytes_at off k (fd_content fd) \<and> k \<le> n \<and> (0 < n \<longrightarrow> 0 < k)"
  using assms by (auto simp: pread_def split: list.splits pread_reply.splits)

text \<open>
  What the filled buffer holds: the image from the offset on, zeros behind its end. Without an
  I/O error in the script the read succeeds.
\<close>

definition padded_at :: "nat \<Rightarrow> nat \<Rightarrow> bytes \<Rightarrow> bytes" where
  "padded_at off n c = map (\<lambda>j. if off + j < length c then c ! (off + j) else 0) [0..<n]"

lemma length_padded_at [simp]: "length (padded_at off n c) = n"
  by (simp add: padded_at_def)

lemma padded_at_extend:
  "padded_at off m c @ bytes_at (off + m) k c = padded_at off (m + length (bytes_at (off + m) k c)) c"
  by (rule nth_equalityI) (auto simp: padded_at_def nth_append bytes_at_def)

lemma padded_at_zeros:
  "length c \<le> off + m \<Longrightarrow> padded_at off m c @ replicate k 0 = padded_at off (m + k) c"
  by (rule nth_equalityI) (auto simp: padded_at_def nth_append)

text \<open>
  What reading \<^verbatim>\<open>len\<close> bytes at \<^verbatim>\<open>offset\<close> from \<^verbatim>\<open>fd\<close> may result in.
\<close>

definition pread_outcome :: "nat \<Rightarrow> nat \<Rightarrow> direct_fd \<Rightarrow> fsd_error \<Rightarrow> bytes \<Rightarrow> direct_fd \<Rightarrow> bool" where
  "pread_outcome len offset fd e buf fd' \<longleftrightarrow>
     fd_content fd' = fd_content fd \<and> set (fd_script fd') \<subseteq> set (fd_script fd) \<and>
     length buf \<le> len \<and> e \<in> {FSD_SUCCESS, FSD_ERR_IO} \<and>
     (e = FSD_SUCCESS \<longrightarrow> buf = padded_at offset len (fd_content fd)) \<and>
     (Eio \<notin> set (fd_script fd) \<longrightarrow> e = FSD_SUCCESS)"

lemma pread_outcome_later:
  assumes "pread n off fd = (res, fd1)" and "pread_outcome len offset fd1 e buf fd'"
  shows "pread_outcome len offset fd e buf fd'"
  using assms(2) pread_cases(1,2)[OF assms(1)] by (auto simp: pread_outcome_def)

lemma pread_full_outcome:
  assumes "got = padded_at offset (length got) (fd_content fd)" and "length got \<le> len"
    and "file_size = length (fd_content fd)" and "offset + len < 2 ^ 64"
    and "pread_full len offset file_size got fd = (e, buf, fd')"
  shows "pread_outcome len offset fd e buf fd'"
  using assms
proof (induction len offset file_size got fd rule: pread_full.induct)
  case (1 len offset file_size got fd)
  show ?case
  proof (cases "len \<le> length got")
    case True
    with "1.prems" show ?thesis by (subst (asm) pread_full.simps) (auto simp: pread_outcome_def)
  next
    case False
    obtain res fd1 where pr: "pread (len - length got) (offset + length got) fd = (res, fd1)"
      by fastforce
    note cs = pread_cases[OF pr] and unfold = pread_full.simps[of len offset file_size got fd]
    show ?thesis
    proof (cases res)
      case Failed
      then have "e = FSD_ERR_IO" "buf = got" "fd' = fd1" using "1.prems"(5) False pr by (simp_all add: unfold)
      with Failed "1.prems"(2) cs show ?thesis by (auto simp: pread_outcome_def)
    next
      case Failed_EINTR
      have "pread_full len offset file_size got fd1 = (e, buf, fd')"
        using "1.prems"(5) False pr Failed_EINTR by (simp add: unfold)
      then have "pread_outcome len offset fd1 e buf fd'"
        using "1.IH"(2)[OF False pr[symmetric] Failed_EINTR] "1.prems" cs(1) by simp
      then show ?thesis by (rule pread_outcome_later[OF pr])
    next
      case (Got d)
      obtain k where k: "d = bytes_at (offset + length got) k (fd_content fd)" "k \<le> len - length got" "0 < k"
        using cs(4)[OF Got] False by auto
      show ?thesis
      proof (cases "d = []")
        case True
        with k have past: "length (fd_content fd) \<le> offset + length got" by (auto simp: bytes_at_def)
        have "u64 (offset + length got) = offset + length got" using "1.prems" False by (intro u64_id) simp
        with past "1.prems"(3) have "file_size \<le> u64 (offset + length got)" by simp
        with "1.prems"(5) False pr Got True
        have "e = FSD_SUCCESS" "buf = got @ replicate (len - length got) 0" "fd' = fd1" by (simp_all add: unfold)
        with padded_at_zeros[OF past, of "len - length got"] "1.prems" cs show ?thesis by (auto simp: pread_outcome_def)
      next
        case nonempty: False
        have eq: "pread_full len offset file_size (got @ d) fd1 = (e, buf, fd')"
          using "1.prems"(5) False pr Got nonempty by (simp add: unfold)
        have got: "got @ d = padded_at offset (length (got @ d)) (fd_content fd1)"
          using padded_at_extend[of offset "length got" "fd_content fd" k] "1.prems"(1) k(1) cs(1) by simp
        have len: "length (got @ d) \<le> len" using k False by simp
        have "pread_outcome len offset fd1 e buf fd'"
          using "1.IH"(1)[OF False pr[symmetric] Got nonempty got len] "1.prems" eq cs(1) by simp
        then show ?thesis by (rule pread_outcome_later[OF pr])
      qed
    qed
  qed
qed

lemmas pread_full_spec = pread_full_outcome[unfolded pread_outcome_def]

section \<open>The cache invariant\<close>

definition direct_ok :: "source_reader \<Rightarrow> bool" where
  "direct_ok r \<longleftrightarrow>
     (\<exists>k \<le> 31. sr_alignment r = 2 ^ k) \<and> sr_file_size r = length (fd_content (sr_fd r)) \<and>
     sr_file_size r < 2 ^ 63 \<and> sr_alignment r \<le> sr_scratch_size r \<and> sr_scratch_size r \<le> 2 ^ 32 \<and>
     length (sr_scratch r) = sr_scratch_size r \<and> sr_scratch_valid r \<le> sr_scratch_size r \<and>
     sr_scratch_off r < 2 ^ 63 \<and>
     take (sr_scratch_valid r) (sr_scratch r) =
       padded_at (sr_scratch_off r) (sr_scratch_valid r) (fd_content (sr_fd r)) \<and>
     (\<forall>buf. sr_slurp r = Some buf \<longrightarrow> take (sr_file_size r) buf = fd_content (sr_fd r))"

definition reliable :: "source_reader \<Rightarrow> bool" where
  "reliable r \<longleftrightarrow> Eio \<notin> set (fd_script (sr_fd r))"

definition same_source :: "source_reader \<Rightarrow> source_reader \<Rightarrow> bool" where
  "same_source r r' \<longleftrightarrow> sr_backend r' = sr_backend r \<and> sr_file_size r' = sr_file_size r \<and>
     sr_mmap r' = sr_mmap r \<and> fd_content (sr_fd r') = fd_content (sr_fd r) \<and>
     (reliable r \<longrightarrow> reliable r')"

lemma same_source_refl [simp]: "same_source r r" by (simp add: same_source_def)

lemma same_source_trans: "same_source a b \<Longrightarrow> same_source b c \<Longrightarrow> same_source a c"
  by (simp add: same_source_def)

lemma refill_scratch_spec:
  assumes ok: "direct_ok r" and off: "offset < sr_file_size r"
    and eq: "refill_scratch r offset = (e, r')"
  shows "direct_ok r' \<and> same_source r r' \<and> e \<in> {FSD_SUCCESS, FSD_ERR_IO} \<and>
    (reliable r \<longrightarrow> e = FSD_SUCCESS) \<and> (e = FSD_SUCCESS \<longrightarrow> cache_hit r' offset)"
proof -
  obtain k where k: "k \<le> 31" "sr_alignment r = 2 ^ k" using ok by (auto simp: direct_ok_def)
  have k31: "(2::nat) ^ k \<le> 2 ^ 31" using k(1) by (intro power_increasing) auto
  have fs: "sr_file_size r < 2 ^ 63" "sr_scratch_size r \<le> 2 ^ 32" "2 ^ k \<le> sr_scratch_size r"
    using ok k by (auto simp: direct_ok_def)
  let ?ao = "align_down offset (2 ^ k)" and ?ma = "round_up_pow2 (sr_file_size r) (2 ^ k)"
  have ao: "?ao \<le> offset" "offset < ?ao + 2 ^ k" using align_down_bounds off fs by auto
  have ma: "sr_file_size r \<le> ?ma" using round_up_bounds fs k31 by auto
  have u: "u64 (?ao + sr_scratch_size r) = ?ao + sr_scratch_size r"
    using ao(1) off fs by (intro u64_id) simp
  define ch where "ch = (if ?ma < ?ao + sr_scratch_size r then ?ma - ?ao else sr_scratch_size r)"
  have ch: "ch \<le> sr_scratch_size r" "offset < ?ao + ch" "?ao + ch < 2 ^ 64" "0 < ch"
    using ao ma off fs by (auto simp: ch_def)
  obtain e1 got fd' where pf: "pread_full ch ?ao (sr_file_size r) [] (sr_fd r) = (e1, got, fd')"
    by (metis prod_cases3)
  have spec: "fd_content fd' = fd_content (sr_fd r) \<and> set (fd_script fd') \<subseteq> set (fd_script (sr_fd r)) \<and>
      length got \<le> ch \<and> e1 \<in> {FSD_SUCCESS, FSD_ERR_IO} \<and>
      (e1 = FSD_SUCCESS \<longrightarrow> got = padded_at ?ao ch (fd_content (sr_fd r))) \<and>
      (Eio \<notin> set (fd_script (sr_fd r)) \<longrightarrow> e1 = FSD_SUCCESS)"
    using pread_full_spec[OF _ _ _ ch(3) pf] ok by (simp add: direct_ok_def padded_at_def)
  have r': "refill_scratch r offset =
      (let r1 = r\<lparr>sr_fd := fd', sr_scratch := got @ drop (length got) (sr_scratch r),
         sr_scratch_valid := 0\<rparr>
       in if e1 \<noteq> FSD_SUCCESS then (e1, r1)
          else (FSD_SUCCESS, r1\<lparr>sr_scratch_off := ?ao, sr_scratch_valid := ch\<rparr>))"
    using pf u by (simp add: refill_scratch_def k(2) ch_def Let_def)
  have "?ao < 2 ^ 63" using ao(1) off fs by simp
  then show ?thesis
    using eq[unfolded r'] ok spec ch u64_id[OF ch(3)] ao k
    by (cases "e1 = FSD_SUCCESS")
       (auto simp: direct_ok_def same_source_def reliable_def cache_hit_def Let_def padded_at_def)
qed

lemma cached_bytes:
  assumes "direct_ok r" and "cache_hit r offset" and "offset + copy \<le> sr_scratch_off r + sr_scratch_valid r"
    and "offset + copy \<le> sr_file_size r"
  shows "bytes_at (offset - sr_scratch_off r) copy (sr_scratch r) = bytes_at offset copy (fd_content (sr_fd r))"
proof (rule nth_equalityI)
  have len: "length (sr_scratch r) = sr_scratch_size r" "sr_scratch_valid r \<le> sr_scratch_size r"
      "sr_file_size r = length (fd_content (sr_fd r))" "sr_scratch_off r \<le> offset"
    using assms by (auto simp: direct_ok_def cache_hit_def)
  then show "length (bytes_at (offset - sr_scratch_off r) copy (sr_scratch r)) =
      length (bytes_at offset copy (fd_content (sr_fd r)))"
    using assms(3,4) by auto
  fix j
  assume "j < length (bytes_at (offset - sr_scratch_off r) copy (sr_scratch r))"
  then have j: "j < copy" by simp
  let ?i = "offset - sr_scratch_off r + j"
  have i: "?i < sr_scratch_valid r" using assms(3) len j by linarith
  have "sr_scratch r ! ?i = take (sr_scratch_valid r) (sr_scratch r) ! ?i" using i by simp
  also have "\<dots> = fd_content (sr_fd r) ! (offset + j)"
    using assms(1,4) i j len by (auto simp: direct_ok_def padded_at_def)
  finally show "bytes_at (offset - sr_scratch_off r) copy (sr_scratch r) ! j =
      bytes_at offset copy (fd_content (sr_fd r)) ! j"
    using assms(3,4) j i len by (simp add: nth_bytes_at)
qed

lemma direct_read_loop_spec:
  assumes "direct_ok r" and "offset + len \<le> sr_file_size r"
    and "2 * len + 1 + (if cache_hit r offset then 0 else 1) \<le> fuel"
    and "direct_read_loop fuel offset len out r = (e, d, r')"
  shows "direct_ok r' \<and> same_source r r' \<and> e \<in> {FSD_SUCCESS, FSD_ERR_IO} \<and>
    (reliable r \<longrightarrow> e = FSD_SUCCESS) \<and>
    (e = FSD_SUCCESS \<longrightarrow> d = out @ bytes_at offset len (fd_content (sr_fd r)))"
  using assms
proof (induction fuel arbitrary: offset len out r)
  case 0
  then show ?case by simp
next
  case (Suc fuel)
  consider "len = 0" | "0 < len" "cache_hit r offset" | "0 < len" "\<not> cache_hit r offset" by auto
  then show ?case
  proof cases
    case 1
    with Suc.prems show ?thesis by simp
  next
    case 2
    let ?avail = "sr_scratch_valid r - (offset - sr_scratch_off r)"
    define copy where "copy = (if len < ?avail then len else ?avail)"
    have "u64 (sr_scratch_off r + sr_scratch_valid r) = sr_scratch_off r + sr_scratch_valid r"
      using Suc.prems(1) by (intro u64_id) (auto simp: direct_ok_def)
    with 2(2) have hit: "sr_scratch_off r \<le> offset" "offset < sr_scratch_off r + sr_scratch_valid r"
      by (auto simp: cache_hit_def)
    with 2(1) have copy: "0 < copy" "copy \<le> len" "offset + copy \<le> sr_scratch_off r + sr_scratch_valid r"
      by (auto simp: copy_def)
    have step: "direct_read_loop fuel (offset + copy) (len - copy)
        (out @ bytes_at (offset - sr_scratch_off r) copy (sr_scratch r)) r = (e, d, r')"
      using Suc.prems(4) 2 by (simp add: copy_def Let_def)
    have cached: "bytes_at (offset - sr_scratch_off r) copy (sr_scratch r) =
        bytes_at offset copy (fd_content (sr_fd r))"
      using cached_bytes[OF Suc.prems(1) 2(2) copy(3)] copy(2) Suc.prems(2) by simp
    have "bytes_at offset copy (fd_content (sr_fd r)) @ bytes_at (offset + copy) (len - copy)
        (fd_content (sr_fd r)) = bytes_at offset len (fd_content (sr_fd r))"
      using bytes_at_append[of offset copy _ "len - copy"] copy(2) by simp
    moreover have "2 * (len - copy) + 1 + (if cache_hit r (offset + copy) then 0 else 1) \<le> fuel"
      using Suc.prems(3) copy 2 by (auto split: if_splits)
    ultimately show ?thesis
      using Suc.IH[OF Suc.prems(1) _ _ step] copy(2) Suc.prems(2) cached by auto
  next
    case 3
    obtain e1 r1 where rf: "refill_scratch r offset = (e1, r1)" by fastforce
    have off: "offset < sr_file_size r" using 3(1) Suc.prems(2) by simp
    note spec = refill_scratch_spec[OF Suc.prems(1) off rf]
    show ?thesis
    proof (cases "e1 = FSD_SUCCESS")
      case True
      have step: "direct_read_loop fuel offset len out r1 = (e, d, r')"
        using Suc.prems(4) 3 rf True by simp
      have "offset + len \<le> sr_file_size r1" using spec Suc.prems(2) by (simp add: same_source_def)
      with Suc.IH[OF _ _ _ step] spec True Suc.prems(3) 3 show ?thesis
        by (auto simp: same_source_def)
    next
      case False
      with Suc.prems(4) 3 rf spec show ?thesis by auto
    qed
  qed
qed

section \<open>The interface: an image read by ranges\<close>

locale block_source =
  fixes read_at :: "nat \<Rightarrow> nat \<Rightarrow> 'r \<Rightarrow> fsd_error \<times> bytes \<times> 'r"
    and content :: "'r \<Rightarrow> bytes"
    and ok :: "'r \<Rightarrow> bool"
    and sound :: "'r \<Rightarrow> bool"
  assumes read_at_keeps: "ok r \<Longrightarrow> read_at off n r = (e, d, r') \<Longrightarrow>
        ok r' \<and> content r' = content r \<and> (sound r \<longrightarrow> sound r')"
    and read_at_exact: "ok r \<Longrightarrow> read_at off n r = (FSD_SUCCESS, d, r') \<Longrightarrow>
        d = bytes_at off n (content r) \<and> (0 < n \<longrightarrow> off + n \<le> length (content r))"
    and read_at_errors: "ok r \<Longrightarrow>
        fst (read_at off n r) \<in> {FSD_SUCCESS, FSD_ERR_IO, FSD_ERR_TRUNCATED}"
    and read_at_in_range: "ok r \<Longrightarrow> sound r \<Longrightarrow> off + n \<le> length (content r) \<Longrightarrow>
        fst (read_at off n r) = FSD_SUCCESS"
begin

lemma read_at_sound:
  assumes "ok r" and "sound r" and "off + n \<le> length (content r)"
  obtains r' where "read_at off n r = (FSD_SUCCESS, bytes_at off n (content r), r')"
    "ok r'" "sound r'" "content r' = content r"
proof -
  obtain e d r' where eq: "read_at off n r = (e, d, r')" by (metis prod_cases3)
  with read_at_in_range[OF assms] have "e = FSD_SUCCESS" by simp
  with that read_at_exact[OF assms(1)] read_at_keeps[OF assms(1) eq] assms(2) eq show thesis by auto
qed

text \<open>A sequence of reads through one reader, with the answers it got.\<close>

fun read_many :: "(nat \<times> nat) list \<Rightarrow> 'r \<Rightarrow> (fsd_error \<times> bytes) list" where
  "read_many [] r = []"
| "read_many ((off, n) # reqs) r =
     (case read_at off n r of (e, d, r') \<Rightarrow> (e, d) # read_many reqs r')"

lemma read_many_exact:
  assumes "ok r" and "k < length reqs" and "reqs ! k = (off, n)" and "read_many reqs r ! k = (e, d)"
  shows "e \<in> {FSD_SUCCESS, FSD_ERR_IO, FSD_ERR_TRUNCATED} \<and>
    (e = FSD_SUCCESS \<longrightarrow> d = bytes_at off n (content r)) \<and>
    (sound r \<and> off + n \<le> length (content r) \<longrightarrow> e = FSD_SUCCESS)"
  using assms
proof (induction reqs arbitrary: r k)
  case (Cons q reqs)
  obtain o1 n1 where q: "q = (o1, n1)" by fastforce
  obtain e1 d1 r1 where r1: "read_at o1 n1 r = (e1, d1, r1)" by (metis prod_cases3)
  note K = read_at_keeps[OF Cons.prems(1) r1]
  show ?case
  proof (cases k)
    case 0
    then show ?thesis
      using Cons.prems q r1 read_at_exact[OF Cons.prems(1)] read_at_errors[OF Cons.prems(1), of off n]
        read_at_in_range[OF Cons.prems(1), of off n] by auto
  next
    case (Suc k')
    then show ?thesis using Cons.IH[of r1 k'] Cons.prems q r1 K by auto
  qed
qed simp

end

definition source_ok :: "source_reader \<Rightarrow> bool" where
  "source_ok r \<longleftrightarrow>
     (case sr_backend r of
        FSD_BACKEND_MMAP \<Rightarrow> sr_file_size r = length (mmap_bytes (sr_mmap r)) \<and> sr_file_size r < 2 ^ 63
      | FSD_BACKEND_DIRECT \<Rightarrow> direct_ok r)"

definition source_content :: "source_reader \<Rightarrow> bytes" where
  "source_content r =
     (case sr_backend r of
        FSD_BACKEND_MMAP \<Rightarrow> mmap_bytes (sr_mmap r)
      | FSD_BACKEND_DIRECT \<Rightarrow> fd_content (sr_fd r))"

lemma source_size: "source_ok r \<Longrightarrow> fsd_source_reader_size r = length (source_content r)"
  by (auto simp: source_ok_def source_content_def fsd_source_reader_size_def direct_ok_def
      split: fsd_backend.splits)

lemma source_size_bound: "source_ok r \<Longrightarrow> length (source_content r) < 2 ^ 63"
  by (auto simp: source_ok_def source_content_def direct_ok_def split: fsd_backend.splits)

lemma source_read_cases:
  assumes "source_ok r" and "fsd_source_reader_read_at off n r = (e, d, r')"
  shows "source_ok r' \<and> source_content r' = source_content r \<and> (reliable r \<longrightarrow> reliable r') \<and>
    e \<in> {FSD_SUCCESS, FSD_ERR_IO, FSD_ERR_TRUNCATED} \<and>
    (e = FSD_SUCCESS \<longrightarrow> d = bytes_at off n (source_content r) \<and>
       (0 < n \<longrightarrow> off + n \<le> length (source_content r))) \<and>
    (reliable r \<and> off + n \<le> length (source_content r) \<longrightarrow> e = FSD_SUCCESS)"
proof (cases "n = 0 \<or> sr_file_size r < off \<or> sr_file_size r - off < n")
  case True
  with assms source_size[OF assms(1)] show ?thesis
    by (auto simp: fsd_source_reader_read_at_def fsd_source_reader_size_def split: if_splits)
next
  case False
  then have range: "off + n \<le> sr_file_size r" "0 < n" by auto
  show ?thesis
  proof (cases "sr_backend r")
    case FSD_BACKEND_MMAP
    with False range assms show ?thesis
      by (auto simp: fsd_source_reader_read_at_def source_ok_def source_content_def mmap_bytes_def
          fsd_mmap_data_def split: option.splits if_splits)
  next
    case FSD_BACKEND_DIRECT
    then have ok: "direct_ok r" using assms(1) by (simp add: source_ok_def)
    have "direct_read_loop (2 * n + 2) off n [] r = (e, d, r')"
      using assms(2) FSD_BACKEND_DIRECT False
      by (simp add: fsd_source_reader_read_at_def direct_read_at_def)
    from direct_read_loop_spec[OF ok range(1) _ this]
    have "direct_ok r' \<and> same_source r r' \<and> e \<in> {FSD_SUCCESS, FSD_ERR_IO} \<and>
        (reliable r \<longrightarrow> e = FSD_SUCCESS) \<and>
        (e = FSD_SUCCESS \<longrightarrow> d = bytes_at off n (fd_content (sr_fd r)))" by simp
    moreover have "sr_file_size r = length (fd_content (sr_fd r))" using ok by (simp add: direct_ok_def)
    ultimately show ?thesis
      using range FSD_BACKEND_DIRECT by (auto simp: source_ok_def source_content_def same_source_def)
  qed
qed

interpretation src: block_source fsd_source_reader_read_at source_content source_ok reliable
proof (unfold_locales, goal_cases)
  case (1 r off n e d r')
  then show ?case using source_read_cases by blast
next
  case (2 r off n d r')
  then show ?case using source_read_cases by blast
next
  case (3 r off n)
  then show ?case using source_read_cases by (metis prod_cases3 fst_conv)
next
  case (4 r off n)
  then show ?case using source_read_cases by (metis prod_cases3 fst_conv)
qed

section \<open>Opening\<close>

lemma power_of_two_test:
  fixes n :: nat
  assumes "0 < n" and "n AND (n - 1) = 0"
  shows "\<exists>k. n = 2 ^ k"
  using assms
proof (induction n rule: less_induct)
  case (less n)
  show ?case
  proof (cases "odd n")
    case True
    then have "n AND (n - 1) = 2 * (n div 2)" by (subst and_rec) (auto elim!: oddE)
    with less.prems True have "n = 1" by (auto elim!: oddE)
    then show ?thesis by (intro exI[of _ 0]) simp
  next
    case False
    then have half: "0 < n div 2" "n div 2 < n" "(n - 1) div 2 = n div 2 - 1"
      using less.prems(1) by (auto elim!: evenE)
    have "n AND (n - 1) = 2 * ((n div 2) AND (n div 2 - 1))"
      using False half(3) by (subst and_rec) simp
    with less.prems(2) have "(n div 2) AND (n div 2 - 1) = 0" by simp
    with less.IH half obtain k where "n div 2 = 2 ^ k" by blast
    with False have "n = 2 ^ Suc k" by (auto elim!: evenE)
    then show ?thesis by blast
  qed
qed

lemma word_power_of_two_test:
  assumes "0 < n" and "n < 2 ^ 64" and "(of_nat n :: 64 word) AND (of_nat n - 1) = 0"
  shows "\<exists>k. n = 2 ^ k"
proof -
  have nz: "(of_nat n :: 64 word) \<noteq> 0"
    using assms(1,2) unat_of_nat_less[where 'a = 64, of n] by fastforce
  have "unat ((of_nat n :: 64 word) AND (of_nat n - 1)) = n AND (n - 1)"
    using assms(2) nz by (simp add: unsigned_and_eq unat_minus_one)
  with assms(3) have "n AND (n - 1) = 0" by simp
  then show ?thesis using power_of_two_test assms(1) by blast
qed

lemma open_direct_ok:
  assumes "honest_path p" and "open_direct p = Inr r"
  shows "direct_ok r \<and> sr_backend r = FSD_BACKEND_DIRECT \<and> fd_content (sr_fd r) = p_content p \<and>
    fd_script (sr_fd r) = p_script p"
proof -
  let ?q = "query_alignment p"
  define align where "align = (if ?q = 0 \<or> (of_nat ?q :: 64 word) AND (of_nat ?q - 1) \<noteq> 0
      then FSD_DIO_DEFAULT_ALIGN else ?q)"
  define ss where "ss = round_up_pow2 (if FSD_DIO_SCRATCH_SIZE < align then align
      else FSD_DIO_SCRATCH_SIZE) align"
  have q: "?q < 2 ^ 31"
    using assms(1) by (auto simp: honest_path_def query_alignment_def FSD_DIO_DEFAULT_ALIGN_def
        split: option.splits)
  have "\<exists>k. align = 2 ^ k"
  proof (cases "align = ?q")
    case True
    then have "0 < ?q" "(of_nat ?q :: 64 word) AND (of_nat ?q - 1) = 0 \<or> ?q = 2 ^ 12"
      by (auto simp: align_def FSD_DIO_DEFAULT_ALIGN_def split: if_splits)
    then show ?thesis using word_power_of_two_test[of ?q] q True by auto
  next
    case False
    then have "align = 2 ^ 12" by (auto simp: align_def FSD_DIO_DEFAULT_ALIGN_def split: if_splits)
    then show ?thesis by blast
  qed
  then obtain k where k: "align = 2 ^ k" by blast
  have "align < 2 ^ 31" using q by (auto simp: align_def FSD_DIO_DEFAULT_ALIGN_def)
  with k have k31: "k < 31" using power_less_imp_less_exp[of 2 k 31] by simp
  let ?s = "if FSD_DIO_SCRATCH_SIZE < align then align else FSD_DIO_SCRATCH_SIZE"
  have s: "?s \<le> 2 ^ 31" "align \<le> ?s" using \<open>align < 2 ^ 31\<close> by (auto simp: FSD_DIO_SCRATCH_SIZE_def)
  have bounds: "?s + 2 ^ k \<le> 2 ^ 64" using s \<open>align < 2 ^ 31\<close> k by simp
  have ss: "align \<le> ss" "ss \<le> 2 ^ 32"
    using round_up_bounds(1,2)[OF bounds] s k \<open>align < 2 ^ 31\<close> by (simp_all add: ss_def)
  have size: "query_size p = Some (length (p_content p))"
    using assms(1) by (cases "p_kind p") (auto simp: honest_path_def query_size_def UINT64_MAX_def)
  have r: "r = empty_reader\<lparr>sr_backend := FSD_BACKEND_DIRECT,
      sr_fd := \<lparr>fd_content = p_content p, fd_script = p_script p\<rparr>,
      sr_file_size := length (p_content p), sr_alignment := align, sr_memalign_ok := p_slurp_ok p,
      sr_scratch := replicate ss 0, sr_scratch_size := ss\<rparr>"
    using assms(2) size unfolding open_direct_def Let_def align_def [symmetric] ss_def [symmetric]
    by (auto split: option.splits if_splits)
  have "\<exists>k \<le> 31. align = 2 ^ k" using k k31 by (intro exI[of _ k]) simp
  moreover have "length (p_content p) < 2 ^ 63" using assms(1) by (simp add: honest_path_def)
  ultimately show ?thesis
    using ss unfolding r direct_ok_def by (simp add: empty_reader_def padded_at_def)
qed

lemma source_open_ok:
  assumes "honest_path p" and "fsd_source_reader_open p mode = Inr r"
  shows "source_ok r" "source_content r = p_content p" "Eio \<notin> set (p_script p) \<Longrightarrow> reliable r"
proof -
  have "open_direct p = Inr r \<or> open_mmap p = Inr r"
    using assms(2) by (auto simp: fsd_source_reader_open_def Let_def split: if_splits sum.splits)
  moreover have "source_ok r \<and> source_content r = p_content p \<and> reliable r" if "open_mmap p = Inr r"
    using that mmap_open_content[OF assms(1)] assms(1)
    by (auto simp: open_mmap_def source_ok_def source_content_def fsd_mmap_size_def reliable_def
        honest_path_def empty_reader_def split: sum.splits)
  ultimately have "source_ok r \<and> source_content r = p_content p \<and>
      (Eio \<notin> set (p_script p) \<longrightarrow> reliable r)"
    using open_direct_ok[OF assms(1)] by (auto simp: source_ok_def source_content_def reliable_def)
  then show "source_ok r" "source_content r = p_content p" "Eio \<notin> set (p_script p) \<Longrightarrow> reliable r"
    by auto
qed

lemma source_open_errors:
  "fsd_source_reader_open p mode = Inl e \<Longrightarrow> e \<in> {FSD_ERR_OUT_OF_MEMORY, FSD_ERR_FILE_NOT_FOUND,
     FSD_ERR_PERMISSION, FSD_ERR_IO, FSD_ERR_MMAP_FAILED}"
  by (auto simp: fsd_source_reader_open_def open_direct_def open_mmap_def errno_to_fsd_def Let_def
      split: if_splits option.splits sum.splits dest!: mmap_open_errors)

text \<open>The whole image handed to the diff stages.\<close>

lemma source_data_content:
  assumes "source_ok r" and "fsd_source_reader_data r = (e, data, r')"
  shows "e \<in> {FSD_SUCCESS, FSD_ERR_IO, FSD_ERR_OUT_OF_MEMORY}"
    and "e = FSD_SUCCESS \<Longrightarrow> data = Some d \<Longrightarrow>
      take (fsd_source_reader_size r) d = source_content r"
    and "e = FSD_SUCCESS \<Longrightarrow> data = None \<Longrightarrow> source_content r = []"
proof -
  have direct: "e \<in> {FSD_SUCCESS, FSD_ERR_IO, FSD_ERR_OUT_OF_MEMORY} \<and>
      (e = FSD_SUCCESS \<longrightarrow> data \<noteq> None \<and> take (sr_file_size r) (the data) = fd_content (sr_fd r))"
    if be: "sr_backend r = FSD_BACKEND_DIRECT"
  proof -
    have ok: "direct_ok r" using assms(1) be by (simp add: source_ok_def)
    then obtain k where k: "k \<le> 31" "sr_alignment r = 2 ^ k" by (auto simp: direct_ok_def)
    have k31: "(2::nat) ^ k \<le> 2 ^ 31" using k(1) by (intro power_increasing) auto
    have fs: "sr_file_size r < 2 ^ 63" "sr_file_size r = length (fd_content (sr_fd r))"
      using ok by (simp_all add: direct_ok_def)
    let ?n = "round_up_pow2 (sr_file_size r) (sr_alignment r)"
    have n: "sr_file_size r \<le> ?n" "0 + ?n < 2 ^ 64"
      using round_up_bounds(1,2)[of "sr_file_size r" k] fs k31 unfolding k(2) by auto
    obtain e1 buf fd' where pf: "pread_full ?n 0 (sr_file_size r) [] (sr_fd r) = (e1, buf, fd')"
      by (metis prod_cases3)
    have spec: "e1 \<in> {FSD_SUCCESS, FSD_ERR_IO}"
        "e1 = FSD_SUCCESS \<Longrightarrow> buf = padded_at 0 ?n (fd_content (sr_fd r))"
      using pread_full_spec[OF _ _ fs(2) n(2) pf] by (simp_all add: padded_at_def)
    have "take (sr_file_size r) (padded_at 0 ?n (fd_content (sr_fd r))) = fd_content (sr_fd r)"
      using n(1) fs(2) by (intro nth_equalityI) (auto simp: padded_at_def)
    moreover have "take (sr_file_size r) b = fd_content (sr_fd r)" if "sr_slurp r = Some b" for b
      using ok that by (auto simp: direct_ok_def)
    ultimately show ?thesis
      using assms(2) be pf spec fs(2)
      by (cases "sr_slurp r")
         (auto simp: fsd_source_reader_data_def direct_materialize_def
           split: if_splits dest: sym)
  qed
  have mmap: "e = FSD_SUCCESS \<and> data = m_base_addr (sr_mmap r) \<and>
      sr_file_size r = length (mmap_bytes (sr_mmap r)) \<and> source_content r = mmap_bytes (sr_mmap r)"
    if "sr_backend r = FSD_BACKEND_MMAP"
    using assms that by (auto simp: fsd_source_reader_data_def fsd_mmap_data_def source_ok_def
        source_content_def)
  show "e \<in> {FSD_SUCCESS, FSD_ERR_IO, FSD_ERR_OUT_OF_MEMORY}"
    using direct mmap by (cases "sr_backend r") auto
  show "take (fsd_source_reader_size r) d = source_content r" if "e = FSD_SUCCESS" "data = Some d"
    using direct mmap that by (cases "sr_backend r")
      (auto simp: fsd_source_reader_size_def source_content_def mmap_bytes_def split: option.splits)
  show "source_content r = []" if "e = FSD_SUCCESS" "data = None"
    using direct mmap that by (cases "sr_backend r") (auto simp: mmap_bytes_def split: option.splits)
qed

lemma regular_path_open: "length c < 2 ^ 63 \<Longrightarrow> \<exists>r. fsd_source_reader_open (regular_path c) FSD_SOURCE_AUTO = Inr r"
  using regular_path_mmap[of c]
  by (auto simp: fsd_source_reader_open_def open_mmap_def regular_path_def)

section \<open>Property\<close>

text \<open>
  C10. Through either backend, and whatever the script of interrupted and short reads, every
  answer to a sequence of reads on an opened source is right: a success returns exactly the
  requested bytes of the image, a failure is an I/O or truncation error, and a range inside the
  image is always served when no I/O error occurs. In particular the scratch cache of the
  direct backend never returns stale or padding bytes.
\<close>

theorem source_reads_exact:
  assumes "honest_path p" and "fsd_source_reader_open p mode = Inr r"
    and "k < length reqs" and "reqs ! k = (off, n)" and "src.read_many reqs r ! k = (e, d)"
  shows "e \<in> {FSD_SUCCESS, FSD_ERR_IO, FSD_ERR_TRUNCATED} \<and>
    (e = FSD_SUCCESS \<longrightarrow> d = bytes_at off n (p_content p)) \<and>
    (Eio \<notin> set (p_script p) \<and> off + n \<le> length (p_content p) \<longrightarrow> e = FSD_SUCCESS)"
  using src.read_many_exact[OF source_open_ok(1)[OF assms(1,2)] assms(3-5)]
    source_open_ok(2,3)[OF assms(1,2)] by simp

text \<open>A block device whose first three reads are interrupted, short and short again.\<close>

definition flaky_device :: os_path where
  "flaky_device = (regular_path [10, 20, 30, 40, 50])\<lparr>p_kind := S_IFBLK, p_st_size := 0,
     p_blkgetsize64 := Some 5, p_blksszget := Some 512, p_script := [Eintr, Short 1, Short 0]\<rparr>"

theorem source_reads_exact_witness:
  "\<exists>r. fsd_source_reader_open flaky_device FSD_SOURCE_AUTO = Inr r \<and>
    fst (src.read_many [(1, 3), (0, 2)] r ! 1) = FSD_SUCCESS \<and>
    snd (src.read_many [(1, 3), (0, 2)] r ! 1) = [10, 20]"
proof -
  have honest: "honest_path flaky_device"
    by (simp add: honest_path_def flaky_device_def regular_path_def)
  obtain r where r: "fsd_source_reader_open flaky_device FSD_SOURCE_AUTO = Inr r"
    by (simp add: fsd_source_reader_open_def open_direct_def query_size_def flaky_device_def
        regular_path_def Let_def UINT64_MAX_def)
  obtain e d where ed: "src.read_many [(1, 3), (0, 2)] r ! 1 = (e, d)" by fastforce
  have "e = FSD_SUCCESS \<and> d = bytes_at 0 2 (p_content flaky_device)"
    using source_reads_exact [OF honest r _ _ ed, of 0 2]
    by (simp add: flaky_device_def regular_path_def)
  then show ?thesis
    using r ed by (intro exI[of _ r]) (simp add: flaky_device_def regular_path_def bytes_at_def)
qed

end
