(* ===== verification/Stage_Controller.thy ===== *)
theory Stage_Controller
  imports Stage_Identity Stage_Relocation Stage_Fsmap Stage_Partial Source_Reader
begin

text \<open>
  The stage controller of \<^verbatim>\<open>src/stages/stage_controller.c\<close>: it owns the tracker, the shared pool and
  the four matching stages, runs the enabled ones in order, reports progress, and gives up between
  stages when one of the two cancel flags is set. Destruction only frees memory.
\<close>

text \<open>The options of a diff (\<^verbatim>\<open>include/fsdiff/options.h\<close>); the allocator field is never read.\<close>

record diff_options =
  do_block_size_log2 :: nat
  do_enable_identity :: bool
  do_enable_relocation :: bool
  do_enable_partial :: bool
  do_partial_threshold :: c_float
  do_search_radius :: int
  do_max_memory_mb :: nat
  do_force_scalar :: bool
  do_verbose :: bool
  do_source_mode :: fsd_source_mode
  do_enable_fsmap :: bool

definition FSD_DEFAULT_BLOCK_SIZE :: nat where "FSD_DEFAULT_BLOCK_SIZE = 4096"

text \<open>
  The controller. A cancel flag is a value at the start of the run, \<^verbatim>\<open>None\<close> for a null pointer; the
  progress callback is installed or not, and its calls are collected in \<^verbatim>\<open>ct_reports\<close>.
\<close>

record stage_controller =
  ct_block_size :: nat
  ct_enable_identity :: bool
  ct_enable_relocation :: bool
  ct_enable_fsmap :: bool
  ct_enable_partial :: bool
  ct_verbose_identity :: int
  ct_verbose_relocation :: int
  ct_verbose_fsmap :: int
  ct_verbose_partial :: int
  ct_identity :: "identity_stage option"
  ct_relocation :: "relocation_stage option"
  ct_fsmap :: "fsmap_stage option"
  ct_partial :: "partial_stage option"
  ct_tracker :: block_tracker
  ct_pool :: memory_pool
  ct_cancelled :: bool
  ct_ext_cancel :: "bool option"
  ct_progress_cb :: bool
  ct_reports :: "(nat \<times> nat) list"

text \<open>What the memory calls answer.\<close>

record controller_env =
  ce_calloc :: bool
  ce_tracker :: "nat \<Rightarrow> bool"
  ce_pool_struct :: bool
  ce_pool :: allocator
  ce_identity :: bool
  ce_relocation :: bool
  ce_relocation_pool_struct :: bool
  ce_relocation_pool :: allocator
  ce_fsmap :: bool
  ce_fsmap_env :: fsmap_env
  ce_partial :: bool

section \<open>Creation and setters\<close>

text \<open>\<^verbatim>\<open>make_stage enabled r\<close>: the optional creation of one stage.\<close>

definition make_stage :: "bool \<Rightarrow> fsd_error + 's \<Rightarrow> fsd_error + 's option" where
  "make_stage enabled r = (if enabled then map_sum id Some r else Inr None)"

definition create_stages ::
  "controller_env \<Rightarrow> c_float \<Rightarrow> int \<Rightarrow> nat \<Rightarrow> stage_controller \<Rightarrow> fsd_error + stage_controller" where
  "create_stages env threshold radius src_blocks ctrl =
     (case make_stage (ct_enable_identity ctrl) (fsd_identity_stage_create (ce_identity env) (ct_block_size ctrl)) of
        Inl err \<Rightarrow> Inl err
      | Inr i \<Rightarrow>
          (case make_stage (ct_enable_relocation ctrl)
                  (fsd_relocation_stage_create (ce_relocation env) (ce_relocation_pool env)
                     (ce_relocation_pool_struct env) (ct_block_size ctrl) src_blocks) of
             Inl err \<Rightarrow> Inl err
           | Inr r \<Rightarrow>
               (case make_stage (ct_enable_fsmap ctrl)
                       (fsd_fsmap_stage_create (ce_fsmap env) (ct_block_size ctrl) threshold radius) of
                  Inl err \<Rightarrow> Inl err
                | Inr f \<Rightarrow>
                    (case make_stage (ct_enable_partial ctrl)
                            (fsd_partial_stage_create (ce_partial env) (ct_block_size ctrl) threshold radius) of
                       Inl err \<Rightarrow> Inl err
                     | Inr p \<Rightarrow> Inr (ctrl\<lparr>ct_identity := i, ct_relocation := r, ct_fsmap := f, ct_partial := p\<rparr>)))))"

text \<open>
  \<^verbatim>\<open>1ULL << block_size_log2\<close> is defined for shifts below 64 only. Without options (a null pointer) every
  stage is enabled.
\<close>

definition fsd_stage_controller_create ::
  "controller_env \<Rightarrow> diff_options option \<Rightarrow> nat \<Rightarrow> nat \<Rightarrow> fsd_error + stage_controller" where
  "fsd_stage_controller_create env opts src_blocks dest_blocks =
     (if (case opts of Some p \<Rightarrow> do_enable_relocation p \<and> \<not> do_enable_identity p | None \<Rightarrow> False)
      then Inl FSD_ERR_INVALID_ARG
      else if \<not> ce_calloc env then Inl FSD_ERR_OUT_OF_MEMORY
      else if (case opts of Some p \<Rightarrow> 64 \<le> do_block_size_log2 p | None \<Rightarrow> False) then Inl UB_FAULT
      else
        let block_size = (case opts of Some p \<Rightarrow> 2 ^ do_block_size_log2 p | None \<Rightarrow> FSD_DEFAULT_BLOCK_SIZE);
            enable_identity = (case opts of Some p \<Rightarrow> do_enable_identity p | None \<Rightarrow> True);
            enable_relocation = (case opts of Some p \<Rightarrow> do_enable_relocation p | None \<Rightarrow> True);
            enable_fsmap = (case opts of Some p \<Rightarrow> do_enable_fsmap p | None \<Rightarrow> True);
            enable_partial = (case opts of Some p \<Rightarrow> do_enable_partial p | None \<Rightarrow> True);
            threshold = (case opts of Some p \<Rightarrow> do_partial_threshold p | None \<Rightarrow> Some (1 / 2));
            radius = (case opts of Some p \<Rightarrow> do_search_radius p | None \<Rightarrow> 0)
        in
        case fsd_block_tracker_create (ce_tracker env) dest_blocks block_size of
          Inl err \<Rightarrow> Inl err
        | Inr tracker \<Rightarrow>
            (case fsd_pool_create (ce_pool env) (ce_pool_struct env) (4 * 1024 * 1024) 0 of
               Inl err \<Rightarrow> Inl err
             | Inr pool \<Rightarrow>
                 create_stages env threshold radius src_blocks
                   \<lparr>ct_block_size = block_size, ct_enable_identity = enable_identity,
                     ct_enable_relocation = enable_relocation, ct_enable_fsmap = enable_fsmap,
                     ct_enable_partial = enable_partial, ct_verbose_identity = 0, ct_verbose_relocation = 0,
                     ct_verbose_fsmap = 0, ct_verbose_partial = 0, ct_identity = None, ct_relocation = None,
                     ct_fsmap = None, ct_partial = None, ct_tracker = tracker, ct_pool = pool, ct_cancelled = False,
                     ct_ext_cancel = None, ct_progress_cb = False, ct_reports = []\<rparr>))"

definition fsd_stage_controller_get_tracker :: "stage_controller \<Rightarrow> block_tracker" where
  "fsd_stage_controller_get_tracker ctrl = ct_tracker ctrl"

definition fsd_stage_controller_set_progress :: "bool \<Rightarrow> stage_controller \<Rightarrow> stage_controller" where
  "fsd_stage_controller_set_progress callback ctrl = ctrl\<lparr>ct_progress_cb := callback\<rparr>"

definition fsd_stage_controller_cancel :: "stage_controller \<Rightarrow> stage_controller" where
  "fsd_stage_controller_cancel ctrl = ctrl\<lparr>ct_cancelled := True\<rparr>"

definition fsd_stage_controller_set_cancel_flag :: "bool option \<Rightarrow> stage_controller \<Rightarrow> stage_controller" where
  "fsd_stage_controller_set_cancel_flag flag ctrl = ctrl\<lparr>ct_ext_cancel := flag\<rparr>"

definition fsd_stage_controller_set_verbose_identity :: "int \<Rightarrow> stage_controller \<Rightarrow> stage_controller" where
  "fsd_stage_controller_set_verbose_identity v ctrl =
     ctrl\<lparr>ct_verbose_identity := v, ct_identity := map_option (fsd_identity_stage_set_verbose v) (ct_identity ctrl)\<rparr>"

definition fsd_stage_controller_set_verbose_relocation :: "int \<Rightarrow> stage_controller \<Rightarrow> stage_controller" where
  "fsd_stage_controller_set_verbose_relocation v ctrl =
     ctrl\<lparr>ct_verbose_relocation := v, ct_relocation := map_option (fsd_relocation_stage_set_verbose v) (ct_relocation ctrl)\<rparr>"

definition fsd_stage_controller_set_verbose_fsmap :: "int \<Rightarrow> stage_controller \<Rightarrow> stage_controller" where
  "fsd_stage_controller_set_verbose_fsmap v ctrl =
     ctrl\<lparr>ct_verbose_fsmap := v, ct_fsmap := map_option (fsd_fsmap_stage_set_verbose v) (ct_fsmap ctrl)\<rparr>"

definition fsd_stage_controller_set_verbose_partial :: "int \<Rightarrow> stage_controller \<Rightarrow> stage_controller" where
  "fsd_stage_controller_set_verbose_partial v ctrl =
     ctrl\<lparr>ct_verbose_partial := v, ct_partial := map_option (fsd_partial_stage_set_verbose v) (ct_partial ctrl)\<rparr>"

definition fsd_stage_controller_set_verbose :: "int \<Rightarrow> stage_controller \<Rightarrow> stage_controller" where
  "fsd_stage_controller_set_verbose v ctrl =
     fsd_stage_controller_set_verbose_partial v
       (fsd_stage_controller_set_verbose_fsmap v
         (fsd_stage_controller_set_verbose_relocation v
           (fsd_stage_controller_set_verbose_identity v ctrl)))"

section \<open>The run\<close>

text \<open>
  The moments at which the flags are loaded. Other threads only set them; \<^verbatim>\<open>stored\<close> says what they have
  stored to the controller's own flag and to the external one by then.
\<close>

datatype check_point = Before_identity | Before_relocation | Before_fsmap | In_fsmap nat | Before_partial

type_synonym stores = "check_point \<Rightarrow> bool \<times> bool"

definition controller_cancelled :: "stage_controller \<Rightarrow> bool \<times> bool \<Rightarrow> bool" where
  "controller_cancelled ctrl stored \<longleftrightarrow> (ct_cancelled ctrl \<or> fst stored) \<or> flag_set (ct_ext_cancel ctrl) (snd stored)"

definition report :: "nat \<Rightarrow> nat \<Rightarrow> stage_controller \<Rightarrow> stage_controller" where
  "report n blocks ctrl = (if ct_progress_cb ctrl then ctrl\<lparr>ct_reports := ct_reports ctrl @ [(n, blocks)]\<rparr> else ctrl)"

definition report_matched :: "nat \<Rightarrow> stage_controller \<Rightarrow> stage_controller" where
  "report_matched dest_blocks ctrl =
     report (u64_sub dest_blocks (fsd_block_tracker_unmatched_count (ct_tracker ctrl))) dest_blocks ctrl"

text \<open>What follows each stage: its error, or the progress report.\<close>

definition after_stage :: "nat \<Rightarrow> fsd_error \<Rightarrow> stage_controller \<Rightarrow> fsd_error \<times> stage_controller" where
  "after_stage dest_blocks e ctrl = (if e \<noteq> FSD_SUCCESS then (e, ctrl) else (FSD_SUCCESS, report_matched dest_blocks ctrl))"

definition identity_step :: "simd_dispatch \<Rightarrow> stores \<Rightarrow> bytes \<Rightarrow> bytes \<Rightarrow> stage_controller action" where
  "identity_step g stored src dest ctrl =
     (case ct_identity ctrl of
        Some st \<Rightarrow>
          if \<not> ct_enable_identity ctrl then (FSD_SUCCESS, ctrl)
          else if controller_cancelled ctrl (stored Before_identity) then (FSD_ERR_CANCELLED, ctrl)
          else (case identity_run g st (ct_tracker ctrl) src dest of
                  (e, st, t) \<Rightarrow> after_stage (length dest div ct_block_size ctrl) e (ctrl\<lparr>ct_tracker := t\<rparr>))
      | None \<Rightarrow> (FSD_SUCCESS, ctrl))"

definition relocation_step :: "allocator \<Rightarrow> stores \<Rightarrow> bytes \<Rightarrow> bytes \<Rightarrow> stage_controller action" where
  "relocation_step A stored src dest ctrl =
     (case ct_relocation ctrl of
        Some st \<Rightarrow>
          if \<not> ct_enable_relocation ctrl then (FSD_SUCCESS, ctrl)
          else if controller_cancelled ctrl (stored Before_relocation) then (FSD_ERR_CANCELLED, ctrl)
          else (case relocation_run A st (ct_tracker ctrl) src dest of
                  (e, st, t) \<Rightarrow> after_stage (length dest div ct_block_size ctrl) e
                    (ctrl\<lparr>ct_relocation := Some st, ct_tracker := t\<rparr>))
      | None \<Rightarrow> (FSD_SUCCESS, ctrl))"

text \<open>The stage gets both flags, to look at them inside its loop.\<close>

definition fsmap_step :: "simd_dispatch \<Rightarrow> fsmap_env \<Rightarrow> allocator \<Rightarrow> stores \<Rightarrow> bytes \<Rightarrow> bytes \<Rightarrow> stage_controller action" where
  "fsmap_step g env A stored src dest ctrl =
     (case ct_fsmap ctrl of
        Some st \<Rightarrow>
          if \<not> ct_enable_fsmap ctrl then (FSD_SUCCESS, ctrl)
          else if controller_cancelled ctrl (stored Before_fsmap) then (FSD_ERR_CANCELLED, ctrl)
          else (case fsmap_run g env A (\<lambda>h. stored (In_fsmap h))
                       (fsd_fsmap_stage_set_cancel (Some (ct_cancelled ctrl)) (ct_ext_cancel ctrl) st, ct_pool ctrl)
                       (ct_tracker ctrl) src dest of
                  (e, (st, pool), t) \<Rightarrow> after_stage (length dest div ct_block_size ctrl) e
                    (ctrl\<lparr>ct_fsmap := Some st, ct_pool := pool, ct_tracker := t\<rparr>))
      | None \<Rightarrow> (FSD_SUCCESS, ctrl))"

definition partial_step :: "simd_dispatch \<Rightarrow> allocator \<Rightarrow> stores \<Rightarrow> bytes \<Rightarrow> bytes \<Rightarrow> stage_controller action" where
  "partial_step g A stored src dest ctrl =
     (case ct_partial ctrl of
        Some st \<Rightarrow>
          if \<not> ct_enable_partial ctrl then (FSD_SUCCESS, ctrl)
          else if controller_cancelled ctrl (stored Before_partial) then (FSD_ERR_CANCELLED, ctrl)
          else (case partial_run g A (st, ct_pool ctrl) (ct_tracker ctrl) src dest of
                  (e, (st, pool), t) \<Rightarrow> after_stage (length dest div ct_block_size ctrl) e
                    (ctrl\<lparr>ct_partial := Some st, ct_pool := pool, ct_tracker := t\<rparr>))
      | None \<Rightarrow> (FSD_SUCCESS, ctrl))"

definition finish :: "nat \<Rightarrow> stage_controller action" where
  "finish dest_blocks ctrl =
     (FSD_SUCCESS, report dest_blocks dest_blocks (ctrl\<lparr>ct_tracker := fsd_block_tracker_finalize (ct_tracker ctrl)\<rparr>))"

text \<open>An image is \<^verbatim>\<open>None\<close> for a null data pointer.\<close>

definition fsd_stage_controller_run ::
  "simd_dispatch \<Rightarrow> controller_env \<Rightarrow> stores \<Rightarrow> bytes option \<Rightarrow> bytes option \<Rightarrow> stage_controller action" where
  "fsd_stage_controller_run g env stored src_data dest_data ctrl =
     (case (src_data, dest_data) of
        (Some src, Some dest) \<Rightarrow>
          seqE (identity_step g stored src dest)
           (seqE (relocation_step (ce_relocation_pool env) stored src dest)
             (seqE (fsmap_step g (ce_fsmap_env env) (ce_pool env) stored src dest)
               (seqE (partial_step g (ce_pool env) stored src dest)
                 (finish (length dest div ct_block_size ctrl))))) ctrl
      | _ \<Rightarrow> (FSD_ERR_INVALID_ARG, ctrl))"

section \<open>The invariant of a run\<close>

text \<open>
  Between the stages the tracker is sound for the two images, and the reports made so far have not
  gone back and do not exceed the number of blocks matched.
\<close>

definition matched_blocks :: "block_tracker \<Rightarrow> nat" where
  "matched_blocks t = t_count t - fsd_block_tracker_unmatched_count t"

definition reports_ok :: "nat \<Rightarrow> nat \<Rightarrow> (nat \<times> nat) list \<Rightarrow> bool" where
  "reports_ok blocks now rs \<longleftrightarrow> sorted (map fst rs) \<and> list_all (\<lambda>(n, m). n \<le> now \<and> m = blocks) rs"

lemma reports_ok_mono: "reports_ok blocks now rs \<Longrightarrow> now \<le> now' \<Longrightarrow> reports_ok blocks now' rs"
  by (fastforce simp: reports_ok_def list_all_iff)

lemma reports_ok_append: "reports_ok blocks now rs \<Longrightarrow> now \<le> now' \<Longrightarrow> reports_ok blocks now' (rs @ [(now', blocks)])"
  by (fastforce simp: reports_ok_def list_all_iff sorted_append)

definition ctl_inv :: "bytes \<Rightarrow> bytes \<Rightarrow> nat \<Rightarrow> stage_controller \<Rightarrow> bool" where
  "ctl_inv src dest bs c \<longleftrightarrow> ct_block_size c = bs \<and> 0 < bs \<and> length dest < 2 ^ 62 \<and> tracker_sound src dest bs (ct_tracker c) \<and>
     t_literal_count (ct_tracker c) = 0 \<and> reports_ok (t_count (ct_tracker c)) (matched_blocks (ct_tracker c)) (ct_reports c)"

text \<open>Every stage that exists is ready for the images.\<close>

definition stages_ready :: "simd_dispatch \<Rightarrow> bytes \<Rightarrow> bytes \<Rightarrow> nat \<Rightarrow> stage_controller \<Rightarrow> bool" where
  "stages_ready g src dest bs c \<longleftrightarrow>
     (\<forall>s. ct_identity c = Some s \<longrightarrow> identity_ready g src dest bs s) \<and>
     (\<forall>s. ct_relocation c = Some s \<longrightarrow> relocation_ready src dest bs s) \<and>
     (\<forall>s pool. ct_fsmap c = Some s \<longrightarrow> fsmap_ready g src dest bs (s, pool)) \<and>
     (\<forall>s pool. ct_partial c = Some s \<longrightarrow> partial_ready g src dest bs (s, pool))"

definition same_control :: "stage_controller \<Rightarrow> stage_controller \<Rightarrow> bool" where
  "same_control c c' \<longleftrightarrow> ct_cancelled c' = ct_cancelled c \<and> ct_ext_cancel c' = ct_ext_cancel c \<and> ct_progress_cb c' = ct_progress_cb c \<and>
     ct_enable_identity c' = ct_enable_identity c \<and> ct_enable_relocation c' = ct_enable_relocation c \<and>
     ct_enable_fsmap c' = ct_enable_fsmap c \<and> ct_enable_partial c' = ct_enable_partial c"

lemma same_control_refl [simp]: "same_control c c"
  by (simp add: same_control_def)

lemma same_control_trans: "same_control c c' \<Longrightarrow> same_control c' c'' \<Longrightarrow> same_control c c''"
  by (simp add: same_control_def)

definition flag_seen :: "stores \<Rightarrow> stage_controller \<Rightarrow> bool" where
  "flag_seen stored c \<longleftrightarrow> (\<exists>k. controller_cancelled c (stored k))"

text \<open>What one step of the run does.\<close>

definition ctl_step :: "bytes \<Rightarrow> bytes \<Rightarrow> nat \<Rightarrow> stores \<Rightarrow> stage_controller \<Rightarrow> fsd_error \<times> stage_controller \<Rightarrow> bool" where
  "ctl_step src dest bs stored c r \<longleftrightarrow>
     (case r of (e, c') \<Rightarrow> ctl_inv src dest bs c' \<and> same_control c c' \<and> extends_matches (ct_tracker c) (ct_tracker c') \<and>
        (e \<in> {FSD_SUCCESS, FSD_ERR_OUT_OF_MEMORY} \<or> e = FSD_ERR_CANCELLED \<and> flag_seen stored c))"

lemma ctl_step_refl: "ctl_inv src dest bs c \<Longrightarrow> ctl_step src dest bs stored c (FSD_SUCCESS, c)"
  by (simp add: ctl_step_def)

lemma ctl_step_cancel:
  "ctl_inv src dest bs c \<Longrightarrow> controller_cancelled c (stored k) \<Longrightarrow> ctl_step src dest bs stored c (FSD_ERR_CANCELLED, c)"
  by (auto simp: ctl_step_def flag_seen_def)

lemma flag_seen_same: "same_control c c' \<Longrightarrow> flag_seen stored c' = flag_seen stored c"
  by (simp add: flag_seen_def controller_cancelled_def same_control_def)

lemma unmatched_le_count: "tracker_inv t \<Longrightarrow> fsd_block_tracker_unmatched_count t \<le> t_count t"
  using tracker_unmatched_count_card[of t] tracker_inv_sizes(1)[of t] by (simp add: count_type_def) (metis length_filter_le)

lemma ctl_step_after:
  assumes "ctl_inv src dest bs c" and "tracker_sound src dest bs t" and "extends_matches (ct_tracker c) t"
    and "e \<in> {FSD_SUCCESS, FSD_ERR_OUT_OF_MEMORY} \<or> e = FSD_ERR_CANCELLED \<and> flag_seen stored c"
    and "ct_tracker c' = t" and "ct_reports c' = ct_reports c" and "ct_block_size c' = bs" and "same_control c c'"
  shows "ctl_step src dest bs stored c (after_stage (length dest div ct_block_size c) e c')"
proof -
  have inv: "tracker_inv (ct_tracker c)" "tracker_inv t" using assms(1,2) by (simp_all add: ctl_inv_def tracker_sound_def)
  have n: "t_count t = t_count (ct_tracker c)" "t_literal_count t = t_literal_count (ct_tracker c)"
    using assms(3) by (simp_all add: extends_matches_def)
  have bs: "0 < bs" "ct_block_size c = bs" "length dest < 2 ^ 62" using assms(1) by (simp_all add: ctl_inv_def)
  have blocks: "length dest div bs = t_count t"
    using assms(2) bs(1) by (metis tracker_sound_def blocks_right_def nonzero_mult_div_cancel_right less_numeral_extra(3))
  have un: "fsd_block_tracker_unmatched_count t \<le> t_count t" by (rule unmatched_le_count[OF inv(2)])
  have "t_count t < 2 ^ 64" using blocks bs(3) div_le_dividend[of "length dest" bs] by simp
  then have sub: "u64_sub (t_count t) (fsd_block_tracker_unmatched_count t) = matched_blocks t"
    unfolding matched_blocks_def by (rule u64_sub_le[OF un])
  have up: "matched_blocks (ct_tracker c) \<le> matched_blocks t"
    using extends_unmatched_count[OF inv assms(3)] n by (simp add: matched_blocks_def)
  have rep: "reports_ok (t_count t) (matched_blocks (ct_tracker c)) (ct_reports c)" using assms(1) n by (simp add: ctl_inv_def)
  have "ctl_inv src dest bs c'" using assms(1,2,5-7) n reports_ok_mono[OF rep up] by (simp add: ctl_inv_def)
  moreover have "ctl_inv src dest bs (report_matched (t_count t) c')"
    using assms(1,2,5-7) n reports_ok_mono[OF rep up] reports_ok_append[OF rep up] sub
    by (simp add: ctl_inv_def report_matched_def report_def)
  moreover have "same_control c (report_matched n c')" "ct_tracker (report_matched n c') = t" for n
    using assms(5,8) by (simp_all add: report_matched_def report_def same_control_def)
  ultimately show ?thesis using assms(3,4,5,8) bs(2) blocks by (auto simp: ctl_step_def after_stage_def)
qed

lemmas step_facts = ctl_inv_def same_control_def

lemma identity_step_ok:
  assumes "ctl_inv src dest bs c" and "\<And>s. ct_identity c = Some s \<Longrightarrow> identity_ready g src dest bs s"
  shows "ctl_step src dest bs stored c (identity_step g stored src dest c)"
proof (cases "ct_identity c")
  case (Some s)
  obtain e s' t where run: "identity_run g s (ct_tracker c) src dest = (e, s', t)" by (metis prod_cases3)
  have r: "identity_ready g src dest bs s" "tracker_sound src dest bs (ct_tracker c)" using assms Some by (simp_all add: step_facts)
  have "ctl_step src dest bs stored c (after_stage (length dest div ct_block_size c) e (c\<lparr>ct_tracker := t\<rparr>))"
    by (rule ctl_step_after[OF assms(1)])
      (use identity.run_sound[OF r run] identity.run_result[OF r run] assms(1) in \<open>auto simp: step_facts\<close>)
  then show ?thesis
    using Some run ctl_step_refl[OF assms(1)] ctl_step_cancel[OF assms(1)] by (auto simp: identity_step_def)
qed (use ctl_step_refl[OF assms(1)] in \<open>simp add: identity_step_def\<close>)

lemma relocation_step_ok:
  assumes "ctl_inv src dest bs c" and "\<And>s. ct_relocation c = Some s \<Longrightarrow> relocation_ready src dest bs s"
  shows "ctl_step src dest bs stored c (relocation_step A stored src dest c)"
proof (cases "ct_relocation c")
  case (Some s)
  obtain e s' t where run: "relocation_run A s (ct_tracker c) src dest = (e, s', t)" by (metis prod_cases3)
  have r: "relocation_ready src dest bs s" "tracker_sound src dest bs (ct_tracker c)" using assms Some by (simp_all add: step_facts)
  have "ctl_step src dest bs stored c (after_stage (length dest div ct_block_size c) e (c\<lparr>ct_relocation := Some s', ct_tracker := t\<rparr>))"
    by (rule ctl_step_after[OF assms(1)])
      (use relocation.run_sound[OF r run] relocation.run_result[OF r run] assms(1) in \<open>auto simp: step_facts\<close>)
  then show ?thesis
    using Some run ctl_step_refl[OF assms(1)] ctl_step_cancel[OF assms(1)] by (auto simp: relocation_step_def)
qed (use ctl_step_refl[OF assms(1)] in \<open>simp add: relocation_step_def\<close>)

lemma fsmap_step_ok:
  assumes "ctl_inv src dest bs c" and "\<And>s pool. ct_fsmap c = Some s \<Longrightarrow> fsmap_ready g src dest bs (s, pool)"
  shows "ctl_step src dest bs stored c (fsmap_step g env A stored src dest c)"
proof (cases "ct_fsmap c")
  case (Some s)
  let ?s = "fsd_fsmap_stage_set_cancel (Some (ct_cancelled c)) (ct_ext_cancel c) s"
  obtain e s' pool t where run: "fsmap_run g env A (\<lambda>h. stored (In_fsmap h)) (?s, ct_pool c) (ct_tracker c) src dest = (e, (s', pool), t)"
    by (metis prod_cases4 prod.collapse)
  have r: "fsmap_ready g src dest bs (?s, ct_pool c)" "tracker_sound src dest bs (ct_tracker c)"
    using assms Some by (auto simp: step_facts fsmap_ready_def fsd_fsmap_stage_set_cancel_def)
  have "flag_seen stored c" if "\<exists>h. fsmap_cancelled ?s (stored (In_fsmap h))"
    using that by (auto simp: flag_seen_def fsmap_cancelled_def controller_cancelled_def fsd_fsmap_stage_set_cancel_def flag_set_def)
  then have "ctl_step src dest bs stored c
      (after_stage (length dest div ct_block_size c) e (c\<lparr>ct_fsmap := Some s', ct_pool := pool, ct_tracker := t\<rparr>))"
    by (intro ctl_step_after[OF assms(1)])
      (use fsmap.run_sound[OF r run] fsmap.run_result[OF r run] assms(1) in \<open>auto simp: step_facts\<close>)
  then show ?thesis
    using Some run ctl_step_refl[OF assms(1)] ctl_step_cancel[OF assms(1)] by (auto simp: fsmap_step_def)
qed (use ctl_step_refl[OF assms(1)] in \<open>simp add: fsmap_step_def\<close>)

lemma partial_step_ok:
  assumes "ctl_inv src dest bs c" and "\<And>s pool. ct_partial c = Some s \<Longrightarrow> partial_ready g src dest bs (s, pool)"
  shows "ctl_step src dest bs stored c (partial_step g A stored src dest c)"
proof (cases "ct_partial c")
  case (Some s)
  obtain e s' pool t where run: "partial_run g A (s, ct_pool c) (ct_tracker c) src dest = (e, (s', pool), t)"
    by (metis prod_cases4 prod.collapse)
  have r: "partial_ready g src dest bs (s, ct_pool c)" "tracker_sound src dest bs (ct_tracker c)"
    using assms Some by (auto simp: step_facts)
  have "ctl_step src dest bs stored c
      (after_stage (length dest div ct_block_size c) e (c\<lparr>ct_partial := Some s', ct_pool := pool, ct_tracker := t\<rparr>))"
    by (rule ctl_step_after[OF assms(1)])
      (use partial.run_sound[OF r run] partial.run_result[OF r run] assms(1) in \<open>auto simp: step_facts\<close>)
  then show ?thesis
    using Some run ctl_step_refl[OF assms(1)] ctl_step_cancel[OF assms(1)] by (auto simp: partial_step_def)
qed (use ctl_step_refl[OF assms(1)] in \<open>simp add: partial_step_def\<close>)

text \<open>A step leaves the stages that come after it alone.\<close>

lemma after_stage_frame [simp]:
  "ct_relocation (snd (after_stage n e c)) = ct_relocation c" "ct_fsmap (snd (after_stage n e c)) = ct_fsmap c"
  "ct_partial (snd (after_stage n e c)) = ct_partial c"
  by (simp_all add: after_stage_def report_matched_def report_def)

lemma step_frames_snd:
  "ct_relocation (snd (identity_step g stored src dest c)) = ct_relocation c"
  "ct_fsmap (snd (identity_step g stored src dest c)) = ct_fsmap c"
  "ct_partial (snd (identity_step g stored src dest c)) = ct_partial c"
  "ct_fsmap (snd (relocation_step A stored src dest c)) = ct_fsmap c"
  "ct_partial (snd (relocation_step A stored src dest c)) = ct_partial c"
  "ct_partial (snd (fsmap_step g env A stored src dest c)) = ct_partial c"
  by (simp_all add: identity_step_def relocation_step_def fsmap_step_def split: option.split prod.split)

lemma step_frames:
  "identity_step g stored src dest c = (e, c') \<Longrightarrow> ct_relocation c' = ct_relocation c \<and> ct_fsmap c' = ct_fsmap c \<and> ct_partial c' = ct_partial c"
  "relocation_step A stored src dest c = (e, c') \<Longrightarrow> ct_fsmap c' = ct_fsmap c \<and> ct_partial c' = ct_partial c"
  "fsmap_step g env A stored src dest c = (e, c') \<Longrightarrow> ct_partial c' = ct_partial c"
  by (drule arg_cong[where f = snd], drule sym, simp only: snd_conv step_frames_snd)+

text \<open>The stages together, up to the point where the tracker is finalized.\<close>

definition match_stages :: "simd_dispatch \<Rightarrow> controller_env \<Rightarrow> stores \<Rightarrow> bytes \<Rightarrow> bytes \<Rightarrow> stage_controller action" where
  "match_stages g env stored src dest =
     seqE (identity_step g stored src dest)
       (seqE (relocation_step (ce_relocation_pool env) stored src dest)
         (seqE (fsmap_step g (ce_fsmap_env env) (ce_pool env) stored src dest) (partial_step g (ce_pool env) stored src dest)))"

lemma run_match_stages:
  "fsd_stage_controller_run g env stored (Some src) (Some dest) c =
     seqE (match_stages g env stored src dest) (finish (length dest div ct_block_size c)) c"
  by (simp add: fsd_stage_controller_run_def match_stages_def seqE_def split: prod.split)

lemma ctl_step_then:
  assumes "ctl_step src dest bs stored c (f c)"
    and "\<And>c'. f c = (FSD_SUCCESS, c') \<Longrightarrow> ctl_inv src dest bs c' \<Longrightarrow> ctl_step src dest bs stored c' (h c')"
  shows "ctl_step src dest bs stored c (seqE f h c)"
proof -
  obtain e c' where f: "f c = (e, c')" by fastforce
  show ?thesis
  proof (cases "e = FSD_SUCCESS")
    case True
    have "ctl_inv src dest bs c'" "same_control c c'" "extends_matches (ct_tracker c) (ct_tracker c')"
      using assms(1) f by (simp_all add: ctl_step_def)
    note c' = this
    obtain e2 c2 where h: "h c' = (e2, c2)" by fastforce
    have "ctl_step src dest bs stored c' (e2, c2)" using assms(2)[of c'] c'(1) f True h by simp
    then show ?thesis
      using f h True flag_seen_same[OF c'(2)] extends_matches_trans[OF c'(3)] same_control_trans[OF c'(2)]
      by (simp add: seqE_def ctl_step_def)
  qed (use assms(1) f in \<open>simp add: seqE_def\<close>)
qed

lemma match_stages_ok:
  assumes "ctl_inv src dest bs c" and "stages_ready g src dest bs c"
  shows "ctl_step src dest bs stored c (match_stages g env stored src dest c)"
  unfolding match_stages_def
proof (rule ctl_step_then)
  note ready = assms(2)[unfolded stages_ready_def]
  show "ctl_step src dest bs stored c (identity_step g stored src dest c)"
    by (rule identity_step_ok[OF assms(1)]) (use ready in blast)
  fix c1 assume 1: "identity_step g stored src dest c = (FSD_SUCCESS, c1)" "ctl_inv src dest bs c1"
  show "ctl_step src dest bs stored c1 (seqE (relocation_step (ce_relocation_pool env) stored src dest)
         (seqE (fsmap_step g (ce_fsmap_env env) (ce_pool env) stored src dest) (partial_step g (ce_pool env) stored src dest)) c1)"
  proof (rule ctl_step_then)
    show "ctl_step src dest bs stored c1 (relocation_step (ce_relocation_pool env) stored src dest c1)"
      by (rule relocation_step_ok[OF 1(2)]) (use ready step_frames(1)[OF 1(1)] in auto)
    fix c2 assume 2: "relocation_step (ce_relocation_pool env) stored src dest c1 = (FSD_SUCCESS, c2)" "ctl_inv src dest bs c2"
    show "ctl_step src dest bs stored c2 (seqE (fsmap_step g (ce_fsmap_env env) (ce_pool env) stored src dest)
         (partial_step g (ce_pool env) stored src dest) c2)"
    proof (rule ctl_step_then)
      show "ctl_step src dest bs stored c2 (fsmap_step g (ce_fsmap_env env) (ce_pool env) stored src dest c2)"
        by (rule fsmap_step_ok[OF 2(2)]) (use ready step_frames(1)[OF 1(1)] step_frames(2)[OF 2(1)] in auto)
      fix c3 assume 3: "fsmap_step g (ce_fsmap_env env) (ce_pool env) stored src dest c2 = (FSD_SUCCESS, c3)" "ctl_inv src dest bs c3"
      show "ctl_step src dest bs stored c3 (partial_step g (ce_pool env) stored src dest c3)"
        by (rule partial_step_ok[OF 3(2)])
          (use ready step_frames(1)[OF 1(1)] step_frames(2)[OF 2(1)] step_frames(3)[OF 3(1)] in auto)
    qed
  qed
qed

section \<open>A new controller is ready\<close>

lemma search_range_small:
  assumes "radius < 2 ^ 31" and "bs \<le> 2 ^ 24"
  shows "search_range_of radius bs < 2 ^ 62"
proof -
  let ?r = "nat (if radius \<le> 0 then DEFAULT_SEARCH_RADIUS_BLOCKS else radius)"
  have "?r \<le> 2 ^ 31" using assms(1) by (auto simp: DEFAULT_SEARCH_RADIUS_BLOCKS_def)
  then have "?r * bs \<le> 2 ^ 31 * 2 ^ 24" using assms(2) by (intro mult_mono) simp_all
  then have "?r * bs < 2 ^ 62" by simp
  moreover have "u64 n \<le> n" for n by (simp add: u64_def)
  ultimately show ?thesis unfolding search_range_of_def Let_def by (rule le_less_trans[rotated])
qed

lemma make_stage_Some: "make_stage b r = Inr (Some s) \<Longrightarrow> b \<and> r = Inr s"
  by (cases r) (auto simp: make_stage_def split: if_splits)

lemma make_stage_None: "make_stage b r = Inr None \<Longrightarrow> \<not> b"
  by (cases r) (auto simp: make_stage_def split: if_splits)

lemma create_stages_cases:
  assumes "create_stages env threshold radius src_blocks c0 = Inr c"
  obtains i r f p where "c = c0\<lparr>ct_identity := i, ct_relocation := r, ct_fsmap := f, ct_partial := p\<rparr>"
    "make_stage (ct_enable_identity c0) (fsd_identity_stage_create (ce_identity env) (ct_block_size c0)) = Inr i"
    "make_stage (ct_enable_relocation c0) (fsd_relocation_stage_create (ce_relocation env) (ce_relocation_pool env)
       (ce_relocation_pool_struct env) (ct_block_size c0) src_blocks) = Inr r"
    "make_stage (ct_enable_fsmap c0) (fsd_fsmap_stage_create (ce_fsmap env) (ct_block_size c0) threshold radius) = Inr f"
    "make_stage (ct_enable_partial c0) (fsd_partial_stage_create (ce_partial env) (ct_block_size c0) threshold radius) = Inr p"
  using assms unfolding create_stages_def by (auto split: sum.splits)

lemma create_stages_ready:
  assumes "create_stages env threshold radius src_blocks c0 = Inr c" and "ct_block_size c0 = bs" and "0 < bs" and "bs \<le> 2 ^ 24"
    and "radius < 2 ^ 31" and "dispatch_ok g" and "src_blocks * bs \<le> length src" and "length src < 2 ^ 62" and "length dest < 2 ^ 62"
  shows "stages_ready g src dest bs c"
proof -
  obtain i r f p where c: "c = c0\<lparr>ct_identity := i, ct_relocation := r, ct_fsmap := f, ct_partial := p\<rparr>"
    and m: "make_stage (ct_enable_identity c0) (fsd_identity_stage_create (ce_identity env) (ct_block_size c0)) = Inr i"
    "make_stage (ct_enable_relocation c0) (fsd_relocation_stage_create (ce_relocation env) (ce_relocation_pool env)
       (ce_relocation_pool_struct env) (ct_block_size c0) src_blocks) = Inr r"
    "make_stage (ct_enable_fsmap c0) (fsd_fsmap_stage_create (ce_fsmap env) (ct_block_size c0) threshold radius) = Inr f"
    "make_stage (ct_enable_partial c0) (fsd_partial_stage_create (ce_partial env) (ct_block_size c0) threshold radius) = Inr p"
    using assms(1) by (rule create_stages_cases)
  note rng = search_range_small[OF assms(5,4)] and thr = threshold_bytes_le[OF assms(3)]
  have bs: "bs < 2 ^ 62" using assms(4) by simp
  have "identity_ready g src dest bs s" if "i = Some s" for s
    using make_stage_Some[OF m(1)[unfolded that]] assms(2,3,6)
    by (auto simp: fsd_identity_stage_create_def identity_ready_def split: if_splits)
  moreover have "relocation_ready src dest bs s" if "r = Some s" for s
    using make_stage_Some[OF m(2)[unfolded that]] assms(2,7)
    by (auto simp: fsd_relocation_stage_create_def relocation_ready_def split: if_splits sum.splits)
  moreover have "fsmap_ready g src dest bs (s, pool)" if "f = Some s" for s pool
    using make_stage_Some[OF m(3)[unfolded that]] assms(2,3,6,8,9) rng thr bs
    by (auto simp: fsd_fsmap_stage_create_def fsmap_ready_def split: if_splits)
  moreover have "partial_ready g src dest bs (s, pool)" if "p = Some s" for s pool
    using make_stage_Some[OF m(4)[unfolded that]] assms(2,3,6,8,9) rng bs
    by (auto simp: fsd_partial_stage_create_def partial_ready_def split: if_splits)
  ultimately show ?thesis by (simp add: stages_ready_def c)
qed

text \<open>The situation in which \<^verbatim>\<open>fsd_diff_files\<close> uses a controller.\<close>

definition diff_setup :: "simd_dispatch \<Rightarrow> diff_options \<Rightarrow> bytes \<Rightarrow> bytes \<Rightarrow> bool" where
  "diff_setup g opts src dest \<longleftrightarrow> dispatch_ok g \<and> do_block_size_log2 opts \<le> 24 \<and> do_search_radius opts < 2 ^ 31 \<and>
     length src < 2 ^ 62 \<and> length dest < 2 ^ 62 \<and> 2 ^ do_block_size_log2 opts dvd length dest"

lemma create_controller_ok:
  assumes "fsd_stage_controller_create env (Some opts) (length src div bs) (length dest div bs) = Inr c"
    and "diff_setup g opts src dest" and "bs = 2 ^ do_block_size_log2 opts"
  shows "ctl_inv src dest bs c \<and> stages_ready g src dest bs c \<and> ct_reports c = []"
proof -
  obtain t pool c0 where t: "fsd_block_tracker_create (ce_tracker env) (length dest div bs) bs = Inr t"
    and c0: "create_stages env (do_partial_threshold opts) (do_search_radius opts) (length src div bs) c0 = Inr c"
      "ct_block_size c0 = bs" "ct_tracker c0 = t" "ct_reports c0 = []"
    using assms(1,3) by (auto simp: fsd_stage_controller_create_def Let_def split: if_splits sum.splits)
  have bs: "0 < bs" "bs \<le> 2 ^ 24"
    using assms(2,3) power_increasing[of "do_block_size_log2 opts" 24 "2 :: nat"] by (simp_all add: diff_setup_def)
  have len: "length dest div bs * bs = length dest" "length dest < 2 ^ 62" "length src < 2 ^ 62"
    using assms(2,3) by (simp_all add: diff_setup_def)
  have "length dest div bs \<le> length dest" by simp
  then have small: "length dest div bs < 2 ^ 63" by (rule le_less_trans) (use len(2) in simp)
  have sound: "tracker_sound src dest bs t" by (rule tracker_sound_create[OF t small len(1)])
  have lit: "t_literal_count t = 0" using t by (auto simp: fsd_block_tracker_create_def Let_def split: if_splits)
  obtain i r f p where "c = c0\<lparr>ct_identity := i, ct_relocation := r, ct_fsmap := f, ct_partial := p\<rparr>"
    using c0(1) by (rule create_stages_cases)
  then have "ct_block_size c = bs" "ct_tracker c = t" "ct_reports c = []" using c0(2-4) by simp_all
  moreover have "stages_ready g src dest bs c"
    by (rule create_stages_ready[OF c0(1,2) bs]) (use assms(2) len in \<open>simp_all add: diff_setup_def\<close>)
  ultimately show ?thesis using sound lit len bs by (simp add: ctl_inv_def reports_ok_def)
qed

text \<open>The setters do not disturb it.\<close>

lemma setters_keep:
  assumes "ctl_inv src dest bs c \<and> stages_ready g src dest bs c"
  shows "ctl_inv src dest bs (fsd_stage_controller_set_cancel_flag flag c) \<and> stages_ready g src dest bs (fsd_stage_controller_set_cancel_flag flag c)"
    "ctl_inv src dest bs (fsd_stage_controller_set_progress cb c) \<and> stages_ready g src dest bs (fsd_stage_controller_set_progress cb c)"
    "ctl_inv src dest bs (fsd_stage_controller_set_verbose v c) \<and> stages_ready g src dest bs (fsd_stage_controller_set_verbose v c)"
  using assms
  by (auto simp: ctl_inv_def stages_ready_def fsd_stage_controller_set_cancel_flag_def fsd_stage_controller_set_progress_def
      fsd_stage_controller_set_verbose_def fsd_stage_controller_set_verbose_identity_def
      fsd_stage_controller_set_verbose_relocation_def fsd_stage_controller_set_verbose_fsmap_def
      fsd_stage_controller_set_verbose_partial_def fsd_identity_stage_set_verbose_def fsd_relocation_stage_set_verbose_def
      fsd_fsmap_stage_set_verbose_def fsd_partial_stage_set_verbose_def identity_ready_def relocation_ready_def
      fsmap_ready_def partial_ready_def)

section \<open>The result of a run\<close>

definition finished :: "bytes \<Rightarrow> bytes \<Rightarrow> nat \<Rightarrow> block_tracker \<Rightarrow> bool" where
  "finished src dest bs t \<longleftrightarrow> blocks_right src dest bs t \<and> (\<forall>i. \<not> fsd_block_tracker_is_unmatched t i) \<and>
     t_identity_count t + t_relocate_count t + t_partial_count t + t_zero_count t + t_one_count t + t_literal_count t = t_count t"

lemma finish_ok:
  assumes "ctl_inv src dest bs c" and "n = t_count (ct_tracker c)"
  shows "\<exists>c'. finish n c = (FSD_SUCCESS, c') \<and> finished src dest bs (ct_tracker c') \<and>
    t_count (ct_tracker c') = n \<and> reports_ok n n (ct_reports c') \<and> (ct_progress_cb c \<longrightarrow> last (ct_reports c') = (n, n) \<and> ct_reports c' \<noteq> [])"
proof -
  have inv: "tracker_inv (ct_tracker c)" "t_literal_count (ct_tracker c) = 0" and right: "blocks_right src dest bs (ct_tracker c)"
    using assms(1) by (simp_all add: ctl_inv_def tracker_sound_def)
  have rep: "reports_ok n (matched_blocks (ct_tracker c)) (ct_reports c)" "matched_blocks (ct_tracker c) \<le> n"
    using assms by (simp_all add: ctl_inv_def matched_blocks_def)
  show ?thesis
    using finalize_facts[OF inv] blocks_right_finalize[OF right] reports_ok_mono[OF rep] reports_ok_append[OF rep] assms(2)
    by (auto simp: finish_def report_def finished_def Let_def)
qed

lemma run_ok:
  assumes "ctl_inv src dest bs c" and "stages_ready g src dest bs c" and "n = length dest div bs"
  shows "\<exists>e c'. fsd_stage_controller_run g env stored (Some src) (Some dest) c = (e, c') \<and>
    (e \<in> {FSD_SUCCESS, FSD_ERR_OUT_OF_MEMORY} \<or> e = FSD_ERR_CANCELLED \<and> flag_seen stored c) \<and>
    t_count (ct_tracker c') = n \<and> reports_ok n n (ct_reports c') \<and>
    (e = FSD_SUCCESS \<longrightarrow> finished src dest bs (ct_tracker c') \<and> (ct_progress_cb c \<longrightarrow> last (ct_reports c') = (n, n) \<and> ct_reports c' \<noteq> []))"
proof -
  obtain e c1 where m: "match_stages g env stored src dest c = (e, c1)" by fastforce
  have step: "ctl_step src dest bs stored c (e, c1)" using match_stages_ok[OF assms(1,2), of stored env] m by simp
  have inv: "ctl_inv src dest bs c1" "same_control c c1" using step by (simp_all add: ctl_step_def)
  have n: "t_count (ct_tracker c1) = n"
    using inv(1) assms(3) by (simp add: ctl_inv_def tracker_sound_def blocks_right_def)
      (metis nonzero_mult_div_cancel_right less_numeral_extra(3))
  have rep: "reports_ok n n (ct_reports c1)"
    using inv(1) n reports_ok_mono[of n "matched_blocks (ct_tracker c1)" "ct_reports c1" n]
    by (simp add: ctl_inv_def matched_blocks_def)
  show ?thesis
  proof (cases "e = FSD_SUCCESS")
    case True
    then show ?thesis
      using finish_ok[OF inv(1) n[symmetric]] m inv(2) assms(1,3)
      by (auto simp: run_match_stages seqE_def same_control_def ctl_inv_def)
  next
    case False
    then show ?thesis using m step n rep by (auto simp: run_match_stages seqE_def ctl_step_def)
  qed
qed

text \<open>
  C4. The controller, from creation to the end of a run, whatever stages the options enable: the run
  never reads outside the images and returns success, out of memory, or cancelled, the last only if a
  cancel flag was seen. On success every block of the destination has a match that reproduces it or
  is counted as a literal, no block is left unmatched and the counters add up. The progress reports
  never go back, never exceed the number of blocks, and end with all of them.
\<close>

theorem controller_run_correct:
  assumes "fsd_stage_controller_create env (Some opts) (length src div bs) (length dest div bs) = Inr c0"
    and "diff_setup g opts src dest" and "bs = 2 ^ do_block_size_log2 opts"
    and "c = fsd_stage_controller_set_progress cb (fsd_stage_controller_set_cancel_flag flag c0)"
  shows "\<exists>e c'. fsd_stage_controller_run g env stored (Some src) (Some dest) c = (e, c') \<and>
    (e \<in> {FSD_SUCCESS, FSD_ERR_OUT_OF_MEMORY} \<or> e = FSD_ERR_CANCELLED \<and> (\<exists>k. controller_cancelled c (stored k))) \<and>
    sorted (map fst (ct_reports c')) \<and> (\<forall>(n, m) \<in> set (ct_reports c'). n \<le> m \<and> m = length dest div bs) \<and>
    (e = FSD_SUCCESS \<longrightarrow>
      (let t = fsd_stage_controller_get_tracker c' in
       blocks_right src dest bs t \<and> (\<forall>i. \<not> fsd_block_tracker_is_unmatched t i) \<and>
       t_identity_count t + t_relocate_count t + t_partial_count t + t_zero_count t + t_one_count t + t_literal_count t =
         length dest div bs) \<and>
      (cb \<longrightarrow> last (ct_reports c') = (length dest div bs, length dest div bs)))"
proof -
  have "ctl_inv src dest bs c" "stages_ready g src dest bs c"
    using create_controller_ok[OF assms(1-3)] setters_keep[of src dest bs _ g] assms(4) by blast+
  moreover have "ct_progress_cb c = cb" using assms(4) by (simp add: fsd_stage_controller_set_progress_def)
  ultimately show ?thesis
    using run_ok[of src dest bs c g "length dest div bs" env stored]
    by (fastforce simp: finished_def flag_seen_def reports_ok_def list_all_iff fsd_stage_controller_get_tracker_def Let_def)
qed

text \<open>A controller for one block of 32 bytes, with memory for everything.\<close>

definition roomy_allocator :: allocator where
  "roomy_allocator = \<lparr>al_header = (\<lambda>_. True), al_data = (\<lambda>k n. Some (8388608 * (k mod 1024 + 1)))\<rparr>"

definition roomy_env :: controller_env where
  "roomy_env = \<lparr>ce_calloc = True, ce_tracker = (\<lambda>_. True), ce_pool_struct = True, ce_pool = roomy_allocator, ce_identity = True,
     ce_relocation = True, ce_relocation_pool_struct = True, ce_relocation_pool = roomy_allocator, ce_fsmap = True,
     ce_fsmap_env = \<lparr>fe_open_src = True, fe_open_dest = True, fe_pool_struct = True, fe_malloc = (\<lambda>_. True), fe_pool = roomy_allocator\<rparr>,
     ce_partial = True\<rparr>"

definition small_options :: diff_options where
  "small_options = \<lparr>do_block_size_log2 = 5, do_enable_identity = True, do_enable_relocation = True, do_enable_partial = True,
     do_partial_threshold = Some (1 / 2), do_search_radius = 8, do_max_memory_mb = 0, do_force_scalar = False, do_verbose = False,
     do_source_mode = FSD_SOURCE_AUTO, do_enable_fsmap = True\<rparr>"

lemma small_controller:
  obtains c where "fsd_stage_controller_create roomy_env (Some small_options) 1 1 = Inr c" "ct_enable_identity c" "ct_identity c \<noteq> None"
  by (auto simp: fsd_stage_controller_create_def create_stages_def make_stage_def roomy_env_def roomy_allocator_def small_options_def
      fsd_block_tracker_create_def fsd_pool_create_def create_chunk_def fsd_identity_stage_create_def
      fsd_relocation_stage_create_def fsd_fsmap_stage_create_def fsd_partial_stage_create_def u64_def Let_def)

theorem controller_run_correct_witness:
  "\<exists>c0 e c'. fsd_stage_controller_create roomy_env (Some small_options) (length (replicate 40 7 :: bytes) div 32)
       (length (replicate 32 9 :: bytes) div 32) = Inr c0 \<and>
     fsd_stage_controller_run setup_scalar_dispatch roomy_env (\<lambda>_. (False, False)) (Some (replicate 40 7)) (Some (replicate 32 9))
       (fsd_stage_controller_set_progress True (fsd_stage_controller_set_cancel_flag (Some False) c0)) = (e, c') \<and>
     e \<in> {FSD_SUCCESS, FSD_ERR_OUT_OF_MEMORY} \<and> sorted (map fst (ct_reports c'))"
proof -
  obtain c0 where c0: "fsd_stage_controller_create roomy_env (Some small_options) 1 1 = Inr c0" by (rule small_controller)
  have "ct_cancelled c0 = False"
    using c0 by (auto simp: fsd_stage_controller_create_def Let_def elim!: create_stages_cases split: if_splits sum.splits)
  then have quiet: "\<not> controller_cancelled (fsd_stage_controller_set_progress True (fsd_stage_controller_set_cancel_flag (Some False) c0)) (False, False)"
    by (simp add: controller_cancelled_def flag_set_def fsd_stage_controller_set_progress_def fsd_stage_controller_set_cancel_flag_def)
  have "diff_setup setup_scalar_dispatch small_options (replicate 40 7) (replicate 32 9)"
    by (simp add: diff_setup_def small_options_def dispatch_ok_tables)
  from controller_run_correct[OF _ this refl refl, of roomy_env c0 "\<lambda>_. (False, False)" True "Some False"] quiet c0
  show ?thesis by (auto simp: small_options_def)
qed

lemma cancel_honoured:
  assumes "ct_cancelled c \<or> ct_ext_cancel c = Some True"
    and "ct_enable_identity c \<and> ct_identity c \<noteq> None \<or> ct_enable_relocation c \<and> ct_relocation c \<noteq> None \<or>
      ct_enable_fsmap c \<and> ct_fsmap c \<noteq> None \<or> ct_enable_partial c \<and> ct_partial c \<noteq> None"
  shows "fsd_stage_controller_run g env stored (Some src) (Some dest) c = (FSD_ERR_CANCELLED, c)"
proof -
  have "controller_cancelled c st" for st using assms(1) by (auto simp: controller_cancelled_def flag_set_def)
  then show ?thesis
    using assms(2)
    by (auto simp: fsd_stage_controller_run_def seqE_def identity_step_def relocation_step_def fsmap_step_def partial_step_def
        split: option.split)
qed

text \<open>
  C35. A cancel request made before the run is honoured at once: if a flag is set and a stage is
  enabled, the run returns \<^verbatim>\<open>FSD_ERR_CANCELLED\<close> and leaves the controller as it was.
\<close>

theorem controller_cancel_honoured:
  assumes "ct_cancelled c \<or> ct_ext_cancel c = Some True"
    and "ct_enable_identity c \<and> ct_identity c \<noteq> None \<or> ct_enable_relocation c \<and> ct_relocation c \<noteq> None \<or>
      ct_enable_fsmap c \<and> ct_fsmap c \<noteq> None \<or> ct_enable_partial c \<and> ct_partial c \<noteq> None"
  shows "fsd_stage_controller_run g env stored (Some src) (Some dest) c = (FSD_ERR_CANCELLED, c)"
  using assms by (rule cancel_honoured)

theorem controller_cancel_honoured_witness:
  "\<exists>c. fsd_stage_controller_create roomy_env (Some small_options) 1 1 = Inr c \<and>
     fsd_stage_controller_run setup_scalar_dispatch roomy_env (\<lambda>_. (False, False)) (Some (replicate 32 7)) (Some (replicate 32 9))
       (fsd_stage_controller_cancel c) = (FSD_ERR_CANCELLED, fsd_stage_controller_cancel c)"
proof -
  obtain c where c: "fsd_stage_controller_create roomy_env (Some small_options) 1 1 = Inr c" "ct_enable_identity c" "ct_identity c \<noteq> None"
    by (rule small_controller)
  then show ?thesis
    using controller_cancel_honoured[of "fsd_stage_controller_cancel c" setup_scalar_dispatch roomy_env "\<lambda>_. (False, False)"
        "replicate 32 7" "replicate 32 9"]
    by (auto simp: fsd_stage_controller_cancel_def)
qed

end
