(* ===== verification/Stdio_File.thy ===== *)
theory Stdio_File
  imports Fsd_Base
begin

text \<open>
  The part of C's \<^verbatim>\<open>stdio\<close> the program uses: a stream with the bytes written to it, a
  read position, and the environment's answers. \<^verbatim>\<open>fspace\<close> is how many more bytes
  \<^verbatim>\<open>fwrite\<close> accepts (\<^verbatim>\<open>None\<close>: any number), the three flags are what \<^verbatim>\<open>fflush\<close>,
  \<^verbatim>\<open>fclose\<close> and \<^verbatim>\<open>ferror\<close> report, so that a full disk is a value of the model.
\<close>

record FILE =
  fdata :: bytes
  fspace :: "nat option"
  fpos :: nat
  fflush_ok :: bool
  fclose_ok :: bool
  fread_ok :: bool

definition fwrite_count :: "bytes \<Rightarrow> FILE \<Rightarrow> nat" where
  "fwrite_count d f = (case fspace f of None \<Rightarrow> length d | Some k \<Rightarrow> min k (length d))"

definition fwrite :: "bytes \<Rightarrow> FILE \<Rightarrow> nat \<times> FILE" where
  "fwrite d f =
     (let n = fwrite_count d f
      in (n, f\<lparr>fdata := fdata f @ take n d, fspace := map_option (\<lambda>k. k - n) (fspace f)\<rparr>))"

definition fread :: "nat \<Rightarrow> FILE \<Rightarrow> bytes \<times> FILE" where
  "fread n f = (let d = bytes_at (fpos f) n (fdata f) in (d, f\<lparr>fpos := fpos f + length d\<rparr>))"

definition rewind :: "FILE \<Rightarrow> FILE" where
  "rewind f = f\<lparr>fpos := 0\<rparr>"

text \<open>A stream that takes \<^verbatim>\<open>n\<close> more bytes.\<close>

definition has_room :: "nat \<Rightarrow> FILE \<Rightarrow> bool" where
  "has_room n f \<longleftrightarrow> (case fspace f of None \<Rightarrow> True | Some k \<Rightarrow> n \<le> k)"

definition fappend :: "bytes \<Rightarrow> FILE \<Rightarrow> FILE" where
  "fappend d f = f\<lparr>fdata := fdata f @ d, fspace := map_option (\<lambda>k. k - length d) (fspace f)\<rparr>"

lemma fappend_sel [simp]:
  "fdata (fappend d f) = fdata f @ d" "fpos (fappend d f) = fpos f"
  "fflush_ok (fappend d f) = fflush_ok f" "fclose_ok (fappend d f) = fclose_ok f"
  "fread_ok (fappend d f) = fread_ok f"
  by (simp_all add: fappend_def)

lemma fappend_Nil [simp]: "fappend [] f = f"
  by (cases "fspace f") (simp_all add: fappend_def)

lemma fappend_append [simp]: "fappend ys (fappend xs f) = fappend (xs @ ys) f"
  by (cases "fspace f") (simp_all add: fappend_def)

lemma has_room_fappend [simp]:
  "has_room (length d + n) f \<Longrightarrow> has_room n (fappend d f)"
  by (auto simp: has_room_def fappend_def split: option.splits)

lemma has_room_mono: "has_room n f \<Longrightarrow> m \<le> n \<Longrightarrow> has_room m f"
  by (auto simp: has_room_def split: option.splits)

lemma fwrite_full: "has_room (length d) f \<Longrightarrow> fwrite d f = (length d, fappend d f)"
  by (auto simp: fwrite_def fwrite_count_def has_room_def fappend_def Let_def min_def
      split: option.splits)

lemma fwrite_short: "\<not> has_room (length d) f \<Longrightarrow> fst (fwrite d f) \<noteq> length d"
  by (auto simp: fwrite_def fwrite_count_def has_room_def Let_def split: option.splits)

lemma fwrite_complete: "fwrite d f = (n, f') \<Longrightarrow> n = length d \<Longrightarrow> f' = fappend d f"
  by (metis fst_conv fwrite_full fwrite_short snd_conv)

text \<open>An empty file on a roomy disk, for the witnesses.\<close>

definition empty_file :: FILE where
  "empty_file = \<lparr>fdata = [], fspace = None, fpos = 0, fflush_ok = True, fclose_ok = True, fread_ok = True\<rparr>"

end
