(* ===== verification/Buffered_Writer.thy ===== *)
theory Buffered_Writer
  imports Stdio_File
begin

text \<open>
  The buffered output stream of \<^verbatim>\<open>src/io/buffered_writer.c\<close>: creation, flushing, the
  buffer-filling write loop, the byte and little-endian writers, the byte count and closing.
  The interface other components rely on is the locale \<^verbatim>\<open>byte_sink\<close>: what was put is
  appended to a logical stream, whatever the buffering does.
\<close>

definition FSD_WRITER_DEFAULT_BUFFER :: nat where
  "FSD_WRITER_DEFAULT_BUFFER = 64 * 1024"

record writer =
  w_file :: FILE
  w_buffer :: bytes
  w_buffer_size :: nat
  w_buffer_pos :: nat
  w_total_written :: nat
  w_owns_file :: bool

text \<open>A \<^verbatim>\<open>memcpy\<close> of \<^verbatim>\<open>d\<close> to offset \<^verbatim>\<open>pos\<close> of an array; it grows the list if it runs over the end.\<close>

definition store_at :: "nat \<Rightarrow> bytes \<Rightarrow> bytes \<Rightarrow> bytes" where
  "store_at pos d buf = take pos buf @ d @ drop (pos + length d) buf"

text \<open>
  \<^verbatim>\<open>malloc_ok\<close> answers whether an allocation of a size succeeds; the fresh buffer's
  contents are unspecified in C and zero here.
\<close>

definition fsd_writer_create_from_file ::
  "(nat \<Rightarrow> bool) \<Rightarrow> FILE option \<Rightarrow> nat \<Rightarrow> fsd_error + writer" where
  "fsd_writer_create_from_file malloc_ok file buffer_size =
     (case file of None \<Rightarrow> Inl FSD_ERR_INVALID_ARG
      | Some f \<Rightarrow>
         (let buffer_size = (if buffer_size = 0 then FSD_WRITER_DEFAULT_BUFFER else buffer_size)
          in if \<not> malloc_ok 48 then Inl FSD_ERR_OUT_OF_MEMORY
             else if \<not> malloc_ok buffer_size then Inl FSD_ERR_OUT_OF_MEMORY
             else Inr \<lparr>w_file = f, w_buffer = replicate buffer_size 0,
                       w_buffer_size = buffer_size, w_buffer_pos = 0, w_total_written = 0,
                       w_owns_file = False\<rparr>))"

text \<open>\<^verbatim>\<open>file\<close> is what \<^verbatim>\<open>fopen(path, "wb")\<close> returned.\<close>

definition fsd_writer_create ::
  "(nat \<Rightarrow> bool) \<Rightarrow> FILE option \<Rightarrow> nat \<Rightarrow> fsd_error + writer" where
  "fsd_writer_create malloc_ok file buffer_size =
     (case file of None \<Rightarrow> Inl FSD_ERR_IO
      | Some f \<Rightarrow>
         (case fsd_writer_create_from_file malloc_ok (Some f) buffer_size of
            Inl e \<Rightarrow> Inl e | Inr w \<Rightarrow> Inr (w\<lparr>w_owns_file := True\<rparr>)))"

definition fsd_writer_flush :: "writer action" where
  "fsd_writer_flush w =
     (if w_buffer_pos w = 0 then (FSD_SUCCESS, w)
      else case fwrite (take (w_buffer_pos w) (w_buffer w)) (w_file w) of
        (written, f) \<Rightarrow>
          (if written \<noteq> w_buffer_pos w then (FSD_ERR_IO, w\<lparr>w_file := f\<rparr>)
           else (FSD_SUCCESS,
                 w\<lparr>w_file := f, w_total_written := w_total_written w + w_buffer_pos w,
                   w_buffer_pos := 0\<rparr>)))"

text \<open>
  The write loop. An iteration either finishes or flushes a full buffer; with a buffer of at
  least one byte only the first can store nothing, so \<^verbatim>\<open>length src + 2\<close> iterations are
  enough (\<^verbatim>\<open>writer_write_appends\<close>); running out of fuel is the value \<^verbatim>\<open>UB_FAULT\<close>.
\<close>

fun writer_write_loop :: "nat \<Rightarrow> bytes \<Rightarrow> writer action" where
  "writer_write_loop 0 src w = (UB_FAULT, w)"
| "writer_write_loop (Suc fuel) src w =
     (if src = [] then (FSD_SUCCESS, w)
      else
        let space = w_buffer_size w - w_buffer_pos w in
        if length src \<le> space then
          (FSD_SUCCESS, w\<lparr>w_buffer := store_at (w_buffer_pos w) src (w_buffer w),
                          w_buffer_pos := w_buffer_pos w + length src\<rparr>)
        else
          seqE fsd_writer_flush (writer_write_loop fuel (drop space src))
            (w\<lparr>w_buffer := store_at (w_buffer_pos w) (take space src) (w_buffer w),
               w_buffer_pos := w_buffer_size w\<rparr>))"

definition fsd_writer_write :: "bytes \<Rightarrow> writer action" where
  "fsd_writer_write data w = writer_write_loop (length data + 2) data w"

definition writer_put_byte :: "byte \<Rightarrow> writer action" where
  "writer_put_byte b w =
     (FSD_SUCCESS, w\<lparr>w_buffer := store_at (w_buffer_pos w) [b] (w_buffer w),
                     w_buffer_pos := w_buffer_pos w + 1\<rparr>)"

definition fsd_writer_write_byte :: "byte \<Rightarrow> writer action" where
  "fsd_writer_write_byte b w =
     (if w_buffer_size w \<le> w_buffer_pos w
      then seqE fsd_writer_flush (writer_put_byte b) w
      else writer_put_byte b w)"

definition fsd_writer_write_u16_le :: "16 word \<Rightarrow> writer action" where
  "fsd_writer_write_u16_le v = fsd_writer_write (u16_le v)"

definition fsd_writer_write_u32_le :: "32 word \<Rightarrow> writer action" where
  "fsd_writer_write_u32_le v = fsd_writer_write (u32_le v)"

definition fsd_writer_write_u64_le :: "64 word \<Rightarrow> writer action" where
  "fsd_writer_write_u64_le v = fsd_writer_write (u64_le v)"

definition fsd_writer_bytes_written :: "writer \<Rightarrow> nat" where
  "fsd_writer_bytes_written w = w_total_written w + w_buffer_pos w"

text \<open>The error code of a close and the stream it leaves; the writer itself is freed.\<close>

definition fsd_writer_close :: "writer \<Rightarrow> fsd_error \<times> FILE" where
  "fsd_writer_close w =
     (case fsd_writer_flush w of
        (err, w') \<Rightarrow>
          (let f = w_file w';
               err = (if \<not> fflush_ok f \<and> err = FSD_SUCCESS then FSD_ERR_IO else err);
               err = (if w_owns_file w' \<and> \<not> fclose_ok f \<and> err = FSD_SUCCESS then FSD_ERR_IO
                      else err)
           in (err, f)))"

section \<open>The interface: a byte sink\<close>

locale byte_sink =
  fixes put :: "bytes \<Rightarrow> 'w action"
    and stream :: "'w \<Rightarrow> bytes"
    and ok :: "'w \<Rightarrow> bool"
    and room :: "nat \<Rightarrow> 'w \<Rightarrow> bool"
  assumes put_appends: "ok w \<Longrightarrow> put d w = (FSD_SUCCESS, w') \<Longrightarrow> ok w' \<and> stream w' = stream w @ d"
    and put_succeeds: "ok w \<Longrightarrow> room (length d + n) w \<Longrightarrow>
          \<exists>w'. put d w = (FSD_SUCCESS, w') \<and> room n w'"
    and put_errors: "ok w \<Longrightarrow> fst (put d w) \<in> {FSD_SUCCESS, FSD_ERR_IO}"
begin

text \<open>Several puts in a row append in order, and a sink with room for all of them takes them.\<close>

fun puts :: "bytes list \<Rightarrow> 'w action" where
  "puts [] w = (FSD_SUCCESS, w)"
| "puts (d # ds) w = seqE (put d) (puts ds) w"

lemma puts_appends:
  "ok w \<Longrightarrow> puts ds w = (FSD_SUCCESS, w') \<Longrightarrow> ok w' \<and> stream w' = stream w @ concat ds"
proof (induction ds arbitrary: w)
  case Nil
  then show ?case by simp
next
  case (Cons d ds)
  obtain e w1 where eq: "put d w = (e, w1)" by fastforce
  with Cons.prems have "e = FSD_SUCCESS" by (cases "e = FSD_SUCCESS") auto
  with eq have w1: "ok w1" "stream w1 = stream w @ d" using put_appends[OF Cons.prems(1)] by auto
  have "puts ds w1 = (FSD_SUCCESS, w')" using Cons.prems(2) eq \<open>e = FSD_SUCCESS\<close> by simp
  with Cons.IH[OF w1(1)] w1(2) show ?case by simp
qed

lemma puts_succeed:
  "ok w \<Longrightarrow> room (length (concat ds) + n) w \<Longrightarrow> \<exists>w'. puts ds w = (FSD_SUCCESS, w') \<and> room n w'"
proof (induction ds arbitrary: w)
  case Nil
  then show ?case by simp
next
  case (Cons d ds)
  obtain w1 where w1: "put d w = (FSD_SUCCESS, w1)" "room (length (concat ds) + n) w1"
    using put_succeeds[of w d "length (concat ds) + n"] Cons.prems by (auto simp: add.assoc)
  then have "ok w1" using put_appends Cons.prems(1) by blast
  with Cons.IH w1 show ?case by auto
qed

end

section \<open>The writer is a byte sink\<close>

definition w_stream :: "writer \<Rightarrow> bytes" where
  "w_stream w = fdata (w_file w) @ take (w_buffer_pos w) (w_buffer w)"

text \<open>
  The well-formedness of a writer. The length of the buffer list is the memory safety of the
  stores: a store past the capacity would lengthen it.
\<close>

definition writer_ok :: "writer \<Rightarrow> bool" where
  "writer_ok w \<longleftrightarrow> 0 < w_buffer_size w \<and> length (w_buffer w) = w_buffer_size w \<and>
     w_buffer_pos w \<le> w_buffer_size w \<and> w_total_written w = length (fdata (w_file w))"

text \<open>The file takes \<^verbatim>\<open>n\<close> bytes more than are buffered, can be flushed and can be read back.\<close>

definition writer_room :: "nat \<Rightarrow> writer \<Rightarrow> bool" where
  "writer_room n w \<longleftrightarrow> has_room (w_buffer_pos w + n) (w_file w) \<and> fflush_ok (w_file w) \<and> fread_ok (w_file w)"

lemma writer_bytes_written: "writer_ok w \<Longrightarrow> fsd_writer_bytes_written w = length (w_stream w)"
  by (simp add: fsd_writer_bytes_written_def writer_ok_def w_stream_def)

lemma writer_create_ok:
  assumes "fsd_writer_create_from_file mok file bs = Inr w"
  shows "w_stream w = fdata (the file)" "fdata (the file) = [] \<Longrightarrow> writer_ok w"
  using assms
  by (auto simp: fsd_writer_create_from_file_def w_stream_def writer_ok_def Let_def
      FSD_WRITER_DEFAULT_BUFFER_def split: option.splits if_splits)

lemma length_store_at [simp]:
  "pos + length d \<le> length buf \<Longrightarrow> length (store_at pos d buf) = length buf"
  by (simp add: store_at_def)

lemma take_store_at [simp]:
  "pos \<le> length buf \<Longrightarrow> take (pos + length d) (store_at pos d buf) = take pos buf @ d"
  by (simp add: store_at_def)

lemma writer_flush_ok:
  assumes "writer_ok w" and "fsd_writer_flush w = (e, w')"
  shows "e \<in> {FSD_SUCCESS, FSD_ERR_IO}"
    and "e = FSD_SUCCESS \<Longrightarrow> writer_ok w' \<and> w_stream w' = w_stream w \<and> w_buffer_pos w' = 0 \<and>
           w_buffer_size w' = w_buffer_size w \<and> fdata (w_file w') = w_stream w"
    and "has_room (w_buffer_pos w + n) (w_file w) \<Longrightarrow> e = FSD_SUCCESS \<and> has_room n (w_file w')"
proof -
  let ?d = "take (w_buffer_pos w) (w_buffer w)"
  have len: "length ?d = w_buffer_pos w" using assms(1) by (simp add: writer_ok_def)
  show "e \<in> {FSD_SUCCESS, FSD_ERR_IO}"
    using assms(2) by (auto simp: fsd_writer_flush_def split: if_splits prod.splits)
  show "writer_ok w' \<and> w_stream w' = w_stream w \<and> w_buffer_pos w' = 0 \<and>
      w_buffer_size w' = w_buffer_size w \<and> fdata (w_file w') = w_stream w"
    if "e = FSD_SUCCESS"
    using assms that len
    by (auto simp: fsd_writer_flush_def w_stream_def writer_ok_def
        dest!: fwrite_complete split: if_splits prod.splits)
  show "e = FSD_SUCCESS \<and> has_room n (w_file w')"
    if room: "has_room (w_buffer_pos w + n) (w_file w)"
  proof -
    have "has_room (length ?d) (w_file w)" using room len by (auto intro: has_room_mono)
    then have "fwrite ?d (w_file w) = (w_buffer_pos w, fappend ?d (w_file w))"
      using fwrite_full len by metis
    moreover have "has_room n (fappend ?d (w_file w))"
      using room len by (simp add: add.commute)
    ultimately show ?thesis
      using assms(2) room by (auto simp: fsd_writer_flush_def split: if_splits)
  qed
qed

lemma writer_flush_flags:
  "fsd_writer_flush w = (e, w') \<Longrightarrow> fflush_ok (w_file w') = fflush_ok (w_file w) \<and> fread_ok (w_file w') = fread_ok (w_file w)"
  by (auto simp: fsd_writer_flush_def fwrite_def Let_def split: if_splits prod.splits)

text \<open>A write that does not fit: the buffer is filled up and flushed.\<close>

lemma writer_spill:
  assumes ok: "writer_ok w" and space: "space = w_buffer_size w - w_buffer_pos w" "space < length src"
    and fl: "fsd_writer_flush (w\<lparr>w_buffer := store_at (w_buffer_pos w) (take space src) (w_buffer w),
               w_buffer_pos := w_buffer_size w\<rparr>) = (e1, w1)"
  shows "e1 \<in> {FSD_SUCCESS, FSD_ERR_IO}"
    and "e1 = FSD_SUCCESS \<Longrightarrow> writer_ok w1 \<and> w_buffer_pos w1 = 0 \<and> w_buffer_size w1 = w_buffer_size w \<and>
      w_stream w1 = w_stream w @ take space src"
    and "writer_room (length src + n) w \<Longrightarrow> e1 = FSD_SUCCESS \<and> writer_room (length (drop space src) + n) w1"
proof -
  let ?w = "w\<lparr>w_buffer := store_at (w_buffer_pos w) (take space src) (w_buffer w), w_buffer_pos := w_buffer_size w\<rparr>"
  have ok1: "writer_ok ?w" and str1: "w_stream ?w = w_stream w @ take space src"
    using ok space take_store_at[of "w_buffer_pos w" "w_buffer w" "take space src"]
    by (auto simp: writer_ok_def w_stream_def)
  note flush = writer_flush_ok[OF ok1 fl]
  show "e1 \<in> {FSD_SUCCESS, FSD_ERR_IO}" using flush(1) by auto
  show "e1 = FSD_SUCCESS \<Longrightarrow> writer_ok w1 \<and> w_buffer_pos w1 = 0 \<and> w_buffer_size w1 = w_buffer_size w \<and>
      w_stream w1 = w_stream w @ take space src"
    using flush(2) str1 by auto
  assume room: "writer_room (length src + n) w"
  then have "has_room (w_buffer_pos ?w + (length (drop space src) + n)) (w_file ?w)"
    using space ok by (auto simp: writer_room_def writer_ok_def ac_simps)
  then show "e1 = FSD_SUCCESS \<and> writer_room (length (drop space src) + n) w1"
    using flush(3) flush(2) writer_flush_flags[OF fl] room by (auto simp: writer_room_def)
qed

lemma writer_write_loop_spec:
  assumes "writer_ok w"
    and "length src + (if w_buffer_pos w = w_buffer_size w then 1 else 0) < fuel"
    and "writer_write_loop fuel src w = (e, w')"
  shows "e \<in> {FSD_SUCCESS, FSD_ERR_IO} \<and>
    (e = FSD_SUCCESS \<longrightarrow> writer_ok w' \<and> w_stream w' = w_stream w @ src) \<and>
    (writer_room (length src + n) w \<longrightarrow> e = FSD_SUCCESS \<and> writer_room n w')"
  using assms
proof (induction fuel arbitrary: src w)
  case (Suc fuel)
  let ?space = "w_buffer_size w - w_buffer_pos w"
  show ?case
  proof (cases "length src \<le> ?space")
    case True
    with Suc.prems show ?thesis
      by (auto simp: Let_def writer_ok_def w_stream_def writer_room_def add.assoc split: if_splits)
  next
    case False
    let ?w = "w\<lparr>w_buffer := store_at (w_buffer_pos w) (take ?space src) (w_buffer w), w_buffer_pos := w_buffer_size w\<rparr>"
    obtain e1 w1 where fl: "fsd_writer_flush ?w = (e1, w1)" by fastforce
    note spill = writer_spill[OF Suc.prems(1) refl _ fl]
    have loop: "writer_write_loop (Suc fuel) src w = seqE fsd_writer_flush (writer_write_loop fuel (drop ?space src)) ?w"
      using False by (auto simp: Let_def)
    show ?thesis
    proof (cases "e1 = FSD_SUCCESS")
      case True
      have w1: "writer_ok w1" "w_buffer_pos w1 = 0" "w_buffer_size w1 = w_buffer_size w" "w_stream w1 = w_stream w @ take ?space src"
        using spill(2)[OF _ True] False by simp_all
      have fuel: "length (drop ?space src) + (if w_buffer_pos w1 = w_buffer_size w1 then 1 else 0) < fuel"
        using Suc.prems(1,2) w1(2,3) False by (auto simp: writer_ok_def split: if_splits)
      have "writer_write_loop fuel (drop ?space src) w1 = (e, w')" using Suc.prems(3) loop fl True by simp
      from Suc.IH[OF w1(1) fuel this] show ?thesis using w1(4) spill(3)[of n] False by auto
    qed (use Suc.prems(3) loop fl spill(1) spill(3)[of n] False in auto)
  qed
qed simp

lemma writer_write_spec:
  assumes "writer_ok w" and "fsd_writer_write d w = (e, w')"
  shows "e \<in> {FSD_SUCCESS, FSD_ERR_IO} \<and>
    (e = FSD_SUCCESS \<longrightarrow> writer_ok w' \<and> w_stream w' = w_stream w @ d) \<and>
    (writer_room (length d + n) w \<longrightarrow> e = FSD_SUCCESS \<and> writer_room n w')"
  using assms by (intro writer_write_loop_spec) (auto simp: fsd_writer_write_def)

interpretation wr: byte_sink fsd_writer_write w_stream writer_ok writer_room
proof (unfold_locales, goal_cases)
  case (1 w d w')
  then show ?case using writer_write_spec by blast
next
  case (2 w d n)
  then show ?case using writer_write_spec[of w d _ _ n] by (metis prod.collapse)
next
  case (3 w d)
  then show ?case using writer_write_spec[of w d] by (metis prod.collapse)
qed

text \<open>The single-byte writer takes another path through the buffer to the same stream.\<close>

lemma writer_write_byte_spec:
  assumes "writer_ok w" and "fsd_writer_write_byte b w = (e, w')"
  shows "e \<in> {FSD_SUCCESS, FSD_ERR_IO} \<and>
    (e = FSD_SUCCESS \<longrightarrow> writer_ok w' \<and> w_stream w' = w_stream w @ [b]) \<and>
    (writer_room (Suc n) w \<longrightarrow> e = FSD_SUCCESS \<and> writer_room n w')"
proof -
  have put: "writer_ok v \<Longrightarrow> w_buffer_pos v < w_buffer_size v \<Longrightarrow> writer_put_byte b v = (e', v') \<Longrightarrow>
      e' = FSD_SUCCESS \<and> writer_ok v' \<and> w_stream v' = w_stream v @ [b] \<and>
      (writer_room (Suc n) v \<longrightarrow> writer_room n v')" for v v' e'
    using take_store_at[of "w_buffer_pos v" "w_buffer v" "[b]"]
    by (auto simp: writer_put_byte_def writer_ok_def w_stream_def writer_room_def)
  show ?thesis
  proof (cases "w_buffer_size w \<le> w_buffer_pos w")
    case False
    with assms put[of w e w'] show ?thesis by (simp add: fsd_writer_write_byte_def)
  next
    case True
    obtain e1 w1 where fl: "fsd_writer_flush w = (e1, w1)" by fastforce
    note flush = writer_flush_ok[OF assms(1) fl]
    show ?thesis
    proof (cases "e1 = FSD_SUCCESS")
      case ok: True
      note w1 = flush(2)[OF ok]
      have "0 < w_buffer_size w1" using w1 by (simp add: writer_ok_def)
      moreover have "writer_put_byte b w1 = (e, w')"
        using True assms(2) fl ok by (simp add: fsd_writer_write_byte_def)
      moreover have "writer_room (Suc n) w \<Longrightarrow> writer_room (Suc n) w1"
        using flush(3)[of "Suc n"] w1 writer_flush_flags[OF fl] by (simp add: writer_room_def)
      ultimately show ?thesis using put[of w1 e w'] w1 by auto
    next
      case False
      moreover have "writer_room (Suc n) w \<Longrightarrow> e1 = FSD_SUCCESS"
        using flush(3)[of "Suc n"] by (simp add: writer_room_def)
      ultimately show ?thesis
        using True assms(2) fl flush(1) by (auto simp: fsd_writer_write_byte_def)
    qed
  qed
qed

section \<open>Property\<close>

text \<open>
  C24. A buffered writer is transparent: for a buffer of any size, if a sequence of writes and
  the close succeed, the file holds exactly the concatenation of what was written, and the byte
  count reported before the close is its length; a failed flush or a failed flush of the stream
  is never reported as success.
\<close>

theorem writer_transparent:
  assumes "fsd_writer_create_from_file mok (Some f) bs = Inr w" and "fdata f = []"
    and "wr.puts ds w = (FSD_SUCCESS, w')" and "fsd_writer_close w' = (e, g)"
  shows "fsd_writer_bytes_written w' = length (concat ds) \<and> e \<in> {FSD_SUCCESS, FSD_ERR_IO} \<and>
    (e = FSD_SUCCESS \<longrightarrow> fdata g = concat ds \<and> fflush_ok g)"
proof -
  have ok: "writer_ok w" "w_stream w = []" using writer_create_ok[OF assms(1)] assms(2) by simp_all
  then have w': "writer_ok w'" "w_stream w' = concat ds" using wr.puts_appends[OF _ assms(3)] by simp_all
  obtain e1 w1 where fl: "fsd_writer_flush w' = (e1, w1)" by fastforce
  note F = writer_flush_ok(1,2)[OF w'(1) fl]
  have "fsd_writer_bytes_written w' = length (w_stream w')"
    using w'(1) by (simp add: fsd_writer_bytes_written_def w_stream_def writer_ok_def)
  then show ?thesis
    using assms(4) fl F w' by (auto simp: fsd_writer_close_def Let_def split: if_splits)
qed

theorem writer_transparent_witness:
  "\<exists>w w' e g. fsd_writer_create_from_file (\<lambda>_. True) (Some empty_file) 2 = Inr w \<and>
     wr.puts [[1, 2, 3], [4]] w = (FSD_SUCCESS, w') \<and> fsd_writer_close w' = (e, g) \<and>
     e = FSD_SUCCESS \<and> fdata g = [1, 2, 3, 4]"
proof -
  let ?w0 = "\<lparr>w_file = empty_file, w_buffer = [0, 0], w_buffer_size = 2, w_buffer_pos = 0,
               w_total_written = 0, w_owns_file = False\<rparr>"
  let ?w1 = "\<lparr>w_file = empty_file\<lparr>fdata := [1, 2]\<rparr>, w_buffer = [3, 2], w_buffer_size = 2,
               w_buffer_pos = 1, w_total_written = 2, w_owns_file = False\<rparr>"
  let ?w2 = "\<lparr>w_file = empty_file\<lparr>fdata := [1, 2]\<rparr>, w_buffer = [3, 4], w_buffer_size = 2,
               w_buffer_pos = 2, w_total_written = 2, w_owns_file = False\<rparr>"
  let ?g = "empty_file\<lparr>fdata := [1, 2, 3, 4]\<rparr>"
  have c: "fsd_writer_create_from_file (\<lambda>_. True) (Some empty_file) 2 = Inr ?w0" by code_simp
  have "fsd_writer_write [1, 2, 3] ?w0 = (FSD_SUCCESS, ?w1)" by code_simp
  moreover have "fsd_writer_write [4] ?w1 = (FSD_SUCCESS, ?w2)" by code_simp
  ultimately have p: "wr.puts [[1, 2, 3], [4]] ?w0 = (FSD_SUCCESS, ?w2)" by simp
  have g: "fsd_writer_close ?w2 = (FSD_SUCCESS, ?g)" by code_simp
  show ?thesis
    using writer_transparent [OF c _ p g] c p g by (auto simp: empty_file_def)
qed

end
