(* ===== verification/Op_Encoder.thy ===== *)
theory Op_Encoder
  imports Block_Tracker Buffered_Writer
begin

text \<open>
  The operation encoder of \<^verbatim>\<open>src/encoding/operation_encoder.c\<close>: variable-length integers,
  the count field, the scan for runs of blocks, the sparse and dense diff formats, and the loop
  that turns a block tracker into the operation, diff and literal streams. The lemmas show
  which bytes each operation appends to which stream; the decoder's theory reads them back.
\<close>

section \<open>Integers of the format\<close>

function encode_varint :: "nat \<Rightarrow> bytes" where
  "encode_varint value =
     (if 128 \<le> value then ((of_nat value AND 0x7F) OR 0x80) # encode_varint (drop_bit 7 value)
      else [of_nat value AND 0x7F])"
  by pat_completeness auto
termination
  by (relation "measure id") (auto simp: drop_bit_eq_div)

declare encode_varint.simps [simp del]

definition FSD_OP_COPY_IDENTITY :: byte where "FSD_OP_COPY_IDENTITY = 0"
definition FSD_OP_COPY_RELOCATE :: byte where "FSD_OP_COPY_RELOCATE = 1"
definition FSD_OP_ZERO :: byte where "FSD_OP_ZERO = 2"
definition FSD_OP_ONE :: byte where "FSD_OP_ONE = 3"
definition FSD_OP_COPY_ADD :: byte where "FSD_OP_COPY_ADD = 4"
definition FSD_OP_LITERAL :: byte where "FSD_OP_LITERAL = 5"

lemmas op_codes = FSD_OP_COPY_IDENTITY_def FSD_OP_COPY_RELOCATE_def FSD_OP_ZERO_def FSD_OP_ONE_def
  FSD_OP_COPY_ADD_def FSD_OP_LITERAL_def

definition encode_count :: "byte \<Rightarrow> nat \<Rightarrow> writer action" where
  "encode_count op_byte count =
     (if count \<le> 8 then
        fsd_writer_write_byte (op_byte OR push_bit 3 3 OR ((of_nat count - 1) AND 0x7))
      else if count \<le> 256 then
        seqE (fsd_writer_write_byte (op_byte OR push_bit 3 0))
          (fsd_writer_write_byte (of_nat (count - 1)))
      else if count \<le> 65536 then
        seqE (fsd_writer_write_byte (op_byte OR push_bit 3 1))
          (fsd_writer_write_u16_le (of_nat (count - 1)))
      else
        seqE (fsd_writer_write_byte (op_byte OR push_bit 3 2))
          (fsd_writer_write_u32_le (of_nat count)))"

section \<open>The encoder's state and the three writers\<close>

record op_encoder =
  e_block_size :: nat
  e_op_bytes :: nat
  e_diff_bytes :: nat
  e_literal_bytes :: nat

record writers =
  op_writer :: writer
  diff_writer :: writer
  lit_writer :: writer

definition on_op :: "writer action \<Rightarrow> writers action" where
  "on_op f s = (case f (op_writer s) of (e, w) \<Rightarrow> (e, s\<lparr>op_writer := w\<rparr>))"

definition on_diff :: "writer action \<Rightarrow> writers action" where
  "on_diff f s = (case f (diff_writer s) of (e, w) \<Rightarrow> (e, s\<lparr>diff_writer := w\<rparr>))"

definition on_lit :: "writer action \<Rightarrow> writers action" where
  "on_lit f s = (case f (lit_writer s) of (e, w) \<Rightarrow> (e, s\<lparr>lit_writer := w\<rparr>))"

definition failE :: "fsd_error \<Rightarrow> 's action" where
  "failE e s = (e, s)"

definition emit_literal_run :: "bytes \<Rightarrow> nat \<Rightarrow> nat \<Rightarrow> nat \<Rightarrow> writers action" where
  "emit_literal_run dest_data block_size first_block run_count =
     seqE (on_op (encode_count (push_bit 5 FSD_OP_LITERAL) run_count))
       (let off = u64 (first_block * block_size); n = u64 (run_count * block_size)
        in if length dest_data < off + n then failE UB_FAULT
           else on_lit (fsd_writer_write (bytes_at off n dest_data)))"

definition fsd_op_encoder_create :: "(nat \<Rightarrow> bool) \<Rightarrow> nat \<Rightarrow> fsd_error + op_encoder" where
  "fsd_op_encoder_create malloc_ok block_size =
     (if block_size = 0 then Inl FSD_ERR_INVALID_ARG
      else if \<not> malloc_ok 32 then Inl FSD_ERR_OUT_OF_MEMORY
      else Inr \<lparr>e_block_size = block_size, e_op_bytes = 0, e_diff_bytes = 0, e_literal_bytes = 0\<rparr>)"

section \<open>Runs of blocks\<close>

text \<open>Distances between the source and destination of a block, in blocks and in bytes.\<close>

definition block_offset :: "block_state \<Rightarrow> nat \<Rightarrow> int" where
  "block_offset b i = s64 (int (b_src_index b)) - s64 (int i)"

definition partial_offset :: "nat \<Rightarrow> block_state \<Rightarrow> nat \<Rightarrow> int" where
  "partial_offset block_size b i =
     s64 (int (b_src_index b) * int block_size + b_byte_offset b) - s64 (int i * int block_size)"

function relocate_run :: "block_tracker \<Rightarrow> nat \<Rightarrow> int \<Rightarrow> nat \<Rightarrow> nat" where
  "relocate_run t i base_offset run_count =
     (if i + run_count < t_count t then
        let nxt = t_blocks t ! (i + run_count) in
        if b_match_type nxt \<noteq> FSD_MATCH_RELOCATE then run_count
        else if block_offset nxt (i + run_count) \<noteq> base_offset then run_count
        else relocate_run t i base_offset (run_count + 1)
      else run_count)"
  by pat_completeness auto
termination by (relation "measure (\<lambda>(t, i, b, r). t_count t - (i + r))") auto

function same_type_run :: "block_tracker \<Rightarrow> nat \<Rightarrow> fsd_match_type \<Rightarrow> nat \<Rightarrow> nat" where
  "same_type_run t i match_type run_count =
     (if i + run_count < t_count t then
        if b_match_type (t_blocks t ! (i + run_count)) \<noteq> match_type then run_count
        else same_type_run t i match_type (run_count + 1)
      else run_count)"
  by pat_completeness auto
termination by (relation "measure (\<lambda>(t, i, m, r). t_count t - (i + r))") auto

definition max_run_for_format :: "nat \<Rightarrow> nat" where
  "max_run_for_format block_size =
     (let m = UINT32_MAX div (block_size * 2) in if m = 0 then 1 else m)"

function partial_run :: "block_tracker \<Rightarrow> nat \<Rightarrow> nat \<Rightarrow> int \<Rightarrow> nat \<Rightarrow> nat" where
  "partial_run t block_size i byte_offset run_count =
     (if i + run_count < t_count t \<and> run_count < max_run_for_format block_size then
        let nxt = t_blocks t ! (i + run_count) in
        if b_match_type nxt \<noteq> FSD_MATCH_PARTIAL then run_count
        else if partial_offset block_size nxt (i + run_count) \<noteq> byte_offset then run_count
        else partial_run t block_size i byte_offset (run_count + 1)
      else run_count)"
  by pat_completeness auto
termination by (relation "measure (\<lambda>(t, bs, i, b, r). t_count t - (i + r))") auto

declare relocate_run.simps [simp del] same_type_run.simps [simp del] partial_run.simps [simp del]

definition op_run :: "block_tracker \<Rightarrow> nat \<Rightarrow> nat \<Rightarrow> nat" where
  "op_run t block_size i =
     (let state = t_blocks t ! i in
      case b_match_type state of
        FSD_MATCH_RELOCATE \<Rightarrow> relocate_run t i (block_offset state i) 1
      | FSD_MATCH_PARTIAL \<Rightarrow> partial_run t block_size i (partial_offset block_size state i) 1
      | m \<Rightarrow> same_type_run t i m 1)"

section \<open>Diff formats\<close>

definition SPARSE_THRESHOLD_PER_BLOCK :: nat where "SPARSE_THRESHOLD_PER_BLOCK = 512"

definition delta_zero :: "bytes option \<Rightarrow> nat \<Rightarrow> bool" where
  "delta_zero delta pos \<longleftrightarrow> (case delta of None \<Rightarrow> True | Some d \<Rightarrow> d ! pos = 0)"

function add_run_end :: "bytes option \<Rightarrow> nat \<Rightarrow> nat \<Rightarrow> nat" where
  "add_run_end delta block_size pos =
     (if pos < block_size then
        if delta_zero delta pos \<and> (block_size \<le> pos + 1 \<or> delta_zero delta (pos + 1)) then pos
        else add_run_end delta block_size (pos + 1)
      else pos)"
  by pat_completeness auto
termination by (relation "measure (\<lambda>(d, bs, pos). bs - pos)") auto

function copy_run_end :: "bytes option \<Rightarrow> nat \<Rightarrow> nat \<Rightarrow> nat" where
  "copy_run_end delta block_size pos =
     (if pos < block_size then
        if delta_zero delta pos then copy_run_end delta block_size (pos + 1) else pos
      else pos)"
  by pat_completeness auto
termination by (relation "measure (\<lambda>(d, bs, pos). bs - pos)") auto

declare add_run_end.simps [simp del] copy_run_end.simps [simp del]

lemma add_run_end_spec:
  "pos \<le> add_run_end delta bs pos \<and> (pos \<le> bs \<longrightarrow> add_run_end delta bs pos \<le> bs) \<and>
   (add_run_end delta bs pos < bs \<longrightarrow> delta_zero delta (add_run_end delta bs pos) \<and>
      (bs \<le> Suc (add_run_end delta bs pos) \<or> delta_zero delta (Suc (add_run_end delta bs pos))))"
proof (induction delta bs pos rule: add_run_end.induct)
  case (1 delta bs pos)
  then show ?case by (subst (1 2 3 4 5 6) add_run_end.simps) auto
qed

lemma copy_run_end_spec:
  "pos \<le> copy_run_end delta bs pos \<and> (pos \<le> bs \<longrightarrow> copy_run_end delta bs pos \<le> bs) \<and>
   (\<forall>j. pos \<le> j \<and> j < copy_run_end delta bs pos \<longrightarrow> delta_zero delta j) \<and>
   (pos < bs \<and> delta_zero delta pos \<longrightarrow> pos < copy_run_end delta bs pos) \<and>
   (copy_run_end delta bs pos < bs \<longrightarrow> \<not> delta_zero delta (copy_run_end delta bs pos))"
proof (induction delta bs pos rule: copy_run_end.induct)
  case (1 delta bs pos)
  show ?case
  proof (cases "pos < bs \<and> delta_zero delta pos")
    case True
    then have eq: "copy_run_end delta bs pos = copy_run_end delta bs (pos + 1)"
      by (subst copy_run_end.simps) simp
    from 1 True show ?thesis unfolding eq by (metis Suc_eq_plus1 Suc_leD Suc_leI le_neq_implies_less)
  next
    case False
    then have "copy_run_end delta bs pos = pos" by (subst copy_run_end.simps) auto
    with False show ?thesis by auto
  qed
qed

text \<open>The bytes of one block in the sparse format, from position \<^verbatim>\<open>pos\<close> on.\<close>

function sparse_block :: "bytes option \<Rightarrow> nat \<Rightarrow> nat \<Rightarrow> bytes" where
  "sparse_block delta block_size pos =
     (if pos < block_size then
        let add_start = pos;
            pos = add_run_end delta block_size pos;
            add_len = pos - add_start;
            add = encode_varint add_len @
              (case delta of Some d \<Rightarrow> if 0 < add_len then bytes_at add_start add_len d else []
               | None \<Rightarrow> [])
        in if block_size \<le> pos then add
           else
             let copy_start = pos; pos = copy_run_end delta block_size pos
             in add @ encode_varint (pos - copy_start) @ sparse_block delta block_size pos
      else [])"
  by pat_completeness auto
termination
proof (relation "measure (\<lambda>(d, bs, pos). bs - pos)", goal_cases)
  case (2 delta bs pos x xa xb xc xd xe)
  then show ?case
    using add_run_end_spec[of pos delta bs] copy_run_end_spec[of "add_run_end delta bs pos" delta bs]
    by auto
qed simp

declare sparse_block.simps [simp del]

definition dense_block :: "block_state \<Rightarrow> nat \<Rightarrow> bytes" where
  "dense_block b block_size =
     (case b_delta b of
        Some d \<Rightarrow> if block_size \<le> b_delta_size b then take block_size d
                  else take (b_delta_size b) d @ replicate (block_size - b_delta_size b) 0
      | None \<Rightarrow> replicate block_size 0)"

definition nonzero_in_block :: "nat \<Rightarrow> block_state \<Rightarrow> nat" where
  "nonzero_in_block block_size b =
     (case b_delta b of
        Some d \<Rightarrow> length (filter (\<lambda>x. x \<noteq> 0) (take (min block_size (b_delta_size b)) d))
      | None \<Rightarrow> 0)"

text \<open>
  The reads of a block's delta stay inside it: the counting and the dense format read
  \<^verbatim>\<open>min block_size delta_size\<close> bytes, the sparse format reads \<^verbatim>\<open>block_size\<close> bytes.
\<close>

definition delta_readable :: "bool \<Rightarrow> nat \<Rightarrow> block_state \<Rightarrow> bool" where
  "delta_readable sparse block_size b \<longleftrightarrow>
     (case b_delta b of
        Some d \<Rightarrow> min block_size (b_delta_size b) \<le> length d \<and> (sparse \<longrightarrow> block_size \<le> length d)
      | None \<Rightarrow> True)"

definition run_blocks :: "block_tracker \<Rightarrow> nat \<Rightarrow> nat \<Rightarrow> block_state list" where
  "run_blocks t i run_count = map (\<lambda>j. t_blocks t ! (i + j)) [0..<run_count]"

definition run_is_sparse :: "nat \<Rightarrow> block_state list \<Rightarrow> bool" where
  "run_is_sparse block_size blocks \<longleftrightarrow>
     sum_list (map (nonzero_in_block block_size) blocks)
       < length blocks * SPARSE_THRESHOLD_PER_BLOCK"

definition run_diff :: "nat \<Rightarrow> block_state list \<Rightarrow> bytes" where
  "run_diff block_size blocks =
     (if run_is_sparse block_size blocks
      then concat (map (\<lambda>b. sparse_block (b_delta b) block_size 0) blocks)
      else concat (map (\<lambda>b. dense_block b block_size) blocks))"

section \<open>Operations\<close>

definition count_enc_of :: "nat \<Rightarrow> nat" where
  "count_enc_of run_count = (if run_count \<le> 256 then 0 else if run_count \<le> 65536 then 1 else 2)"

definition write_count_field :: "nat \<Rightarrow> writer action" where
  "write_count_field run_count =
     (if count_enc_of run_count = 0 then fsd_writer_write_byte (of_nat (run_count - 1))
      else if count_enc_of run_count = 1 then fsd_writer_write_u16_le (of_nat (run_count - 1))
      else fsd_writer_write_u32_le (of_nat run_count))"

definition reloc_offset_enc :: "nat \<Rightarrow> nat" where
  "reloc_offset_enc abs_offset = (if abs_offset \<le> 0xFF then 0 else if abs_offset \<le> 0xFFFF then 1 else 2)"

definition encode_relocate :: "bytes \<Rightarrow> nat \<Rightarrow> block_state \<Rightarrow> nat \<Rightarrow> nat \<Rightarrow> writers action" where
  "encode_relocate dest_data block_size state i run_count =
     (let offset = block_offset state i;
          abs_offset = nat \<bar>offset\<bar>;
          sign_bit = (if offset < 0 then 1 else 0);
          offset_enc = reloc_offset_enc abs_offset;
          count_enc = count_enc_of run_count
      in if 0xFFFFFFFF < abs_offset then emit_literal_run dest_data block_size i run_count
         else
           seqE (on_op (fsd_writer_write_byte
               (push_bit 5 FSD_OP_COPY_RELOCATE OR push_bit 3 (of_nat count_enc) OR
                push_bit 1 (of_nat offset_enc) OR sign_bit)))
           (seqE (on_op (write_count_field run_count))
             (on_op
               (if offset_enc = 0 then fsd_writer_write_byte (of_nat abs_offset)
                else if offset_enc = 1 then fsd_writer_write_u16_le (of_nat abs_offset)
                else fsd_writer_write_u32_le (of_nat abs_offset)))))"

definition partial_offset_enc :: "int \<Rightarrow> nat" where
  "partial_offset_enc byte_offset =
     (if \<bar>byte_offset\<bar> \<le> 0x7FFF then 0 else if \<bar>byte_offset\<bar> \<le> 0x7FFFFF then 1 else 2)"

definition write_partial_offset :: "int \<Rightarrow> writer action" where
  "write_partial_offset byte_offset =
     (if partial_offset_enc byte_offset = 0 then fsd_writer_write_u16_le (of_int byte_offset)
      else if partial_offset_enc byte_offset = 1 then
        (let val = of_int byte_offset :: 32 word in
         seqE (fsd_writer_write_byte (ucast (val AND 0xFF)))
         (seqE (fsd_writer_write_byte (ucast (drop_bit 8 val AND 0xFF)))
           (fsd_writer_write_byte (ucast (drop_bit 16 val AND 0xFF)))))
      else fsd_writer_write_u32_le (of_int byte_offset))"

definition encode_partial ::
  "(nat \<Rightarrow> bool) \<Rightarrow> bytes \<Rightarrow> nat \<Rightarrow> block_tracker \<Rightarrow> nat \<Rightarrow> nat \<Rightarrow> writers action" where
  "encode_partial malloc_ok dest_data block_size t i run_count =
     (let byte_offset = partial_offset block_size (t_blocks t ! i) i;
          blocks = run_blocks t i run_count;
          sparse = run_is_sparse block_size blocks;
          max_diff_len = u64 (run_count * block_size * 2);
          diff = run_diff block_size blocks
      in if byte_offset < - (2 ^ 31) \<or> 2 ^ 31 - 1 < byte_offset
         then emit_literal_run dest_data block_size i run_count
         else if UINT64_MAX div block_size div 2 < run_count then failE FSD_ERR_OUT_OF_MEMORY
         else if \<not> malloc_ok max_diff_len then failE FSD_ERR_OUT_OF_MEMORY
         else if \<not> list_all (delta_readable sparse block_size) blocks \<or> max_diff_len < length diff
         then failE UB_FAULT
         else
           seqE (on_op (fsd_writer_write_byte
               (push_bit 5 FSD_OP_COPY_ADD OR push_bit 3 (of_nat (count_enc_of run_count)) OR
                push_bit 1 (of_nat (partial_offset_enc byte_offset)) OR (if sparse then 1 else 0))))
           (seqE (on_op (write_partial_offset byte_offset))
           (seqE (on_op (write_count_field run_count))
             (if UINT32_MAX < length diff then failE FSD_ERR_OUT_OF_MEMORY
              else seqE (on_op (fsd_writer_write_u32_le (of_nat (length diff))))
                     (on_diff (fsd_writer_write diff))))))"

definition encode_op ::
  "(nat \<Rightarrow> bool) \<Rightarrow> bytes \<Rightarrow> nat \<Rightarrow> block_tracker \<Rightarrow> nat \<Rightarrow> nat \<Rightarrow> writers action" where
  "encode_op malloc_ok dest_data block_size t i run_count =
     (let state = t_blocks t ! i in
      case b_match_type state of
        FSD_MATCH_IDENTITY \<Rightarrow> on_op (encode_count (push_bit 5 FSD_OP_COPY_IDENTITY) run_count)
      | FSD_MATCH_RELOCATE \<Rightarrow> encode_relocate dest_data block_size state i run_count
      | FSD_MATCH_ZERO \<Rightarrow> on_op (encode_count (push_bit 5 FSD_OP_ZERO) run_count)
      | FSD_MATCH_ONE \<Rightarrow> on_op (encode_count (push_bit 5 FSD_OP_ONE) run_count)
      | FSD_MATCH_PARTIAL \<Rightarrow> encode_partial malloc_ok dest_data block_size t i run_count
      | FSD_MATCH_NONE \<Rightarrow> emit_literal_run dest_data block_size i run_count)"

section \<open>Run lengths are positive and the main loop ends\<close>

lemma relocate_run_spec:
  "r \<le> relocate_run t i off r \<and> (i + r \<le> t_count t \<longrightarrow> i + relocate_run t i off r \<le> t_count t) \<and>
   (\<forall>j. r \<le> j \<and> j < relocate_run t i off r \<longrightarrow> b_match_type (t_blocks t ! (i + j)) = FSD_MATCH_RELOCATE \<and>
      block_offset (t_blocks t ! (i + j)) (i + j) = off)"
proof (induction t i off r rule: relocate_run.induct)
  case (1 t i off r)
  show ?case
  proof (cases "i + r < t_count t \<and> b_match_type (t_blocks t ! (i + r)) = FSD_MATCH_RELOCATE \<and>
      block_offset (t_blocks t ! (i + r)) (i + r) = off")
    case True
    then have eq: "relocate_run t i off r = relocate_run t i off (r + 1)"
      by (subst relocate_run.simps) (simp add: Let_def)
    from 1 True show ?thesis
      unfolding eq by (auto simp: Let_def) (metis Suc_leI le_neq_implies_less)+
  next
    case False
    then have "relocate_run t i off r = r" by (subst relocate_run.simps) (auto simp: Let_def)
    then show ?thesis by auto
  qed
qed

lemma same_type_run_spec:
  "r \<le> same_type_run t i m r \<and> (i + r \<le> t_count t \<longrightarrow> i + same_type_run t i m r \<le> t_count t) \<and>
   (\<forall>j. r \<le> j \<and> j < same_type_run t i m r \<longrightarrow> b_match_type (t_blocks t ! (i + j)) = m)"
proof (induction t i m r rule: same_type_run.induct)
  case (1 t i m r)
  show ?case
  proof (cases "i + r < t_count t \<and> b_match_type (t_blocks t ! (i + r)) = m")
    case True
    then have eq: "same_type_run t i m r = same_type_run t i m (r + 1)"
      by (subst same_type_run.simps) simp
    from 1 True show ?thesis
      unfolding eq by auto (metis Suc_leI le_neq_implies_less)+
  next
    case False
    then have "same_type_run t i m r = r" by (subst same_type_run.simps) auto
    then show ?thesis by auto
  qed
qed

lemma partial_run_spec:
  "r \<le> partial_run t bs i off r \<and> (i + r \<le> t_count t \<longrightarrow> i + partial_run t bs i off r \<le> t_count t) \<and>
   (r \<le> max_run_for_format bs \<longrightarrow> partial_run t bs i off r \<le> max_run_for_format bs) \<and>
   (\<forall>j. r \<le> j \<and> j < partial_run t bs i off r \<longrightarrow> b_match_type (t_blocks t ! (i + j)) = FSD_MATCH_PARTIAL \<and>
      partial_offset bs (t_blocks t ! (i + j)) (i + j) = off)"
proof (induction t bs i off r rule: partial_run.induct)
  case (1 t bs i off r)
  show ?case
  proof (cases "i + r < t_count t \<and> r < max_run_for_format bs \<and>
      b_match_type (t_blocks t ! (i + r)) = FSD_MATCH_PARTIAL \<and>
      partial_offset bs (t_blocks t ! (i + r)) (i + r) = off")
    case True
    then have eq: "partial_run t bs i off r = partial_run t bs i off (r + 1)"
      by (subst partial_run.simps) (simp add: Let_def)
    from 1 True show ?thesis
      unfolding eq by (auto simp: Let_def) (metis Suc_leI le_neq_implies_less)+
  next
    case False
    then have "partial_run t bs i off r = r" by (subst partial_run.simps) (auto simp: Let_def)
    then show ?thesis by auto
  qed
qed

lemma op_run_bounds:
  "0 < op_run t bs i" "i < t_count t \<Longrightarrow> i + op_run t bs i \<le> t_count t"
  using relocate_run_spec[of 1 t i] same_type_run_spec[of 1 t i] partial_run_spec[of 1 t bs i]
  by (auto simp: op_run_def Let_def Suc_le_eq split: fsd_match_type.split)

text \<open>The main loop: the operation of the run at \<^verbatim>\<open>i\<close>, then on behind the run.\<close>

function encode_loop ::
  "(nat \<Rightarrow> bool) \<Rightarrow> bytes \<Rightarrow> nat \<Rightarrow> block_tracker \<Rightarrow> nat \<Rightarrow> writers action" where
  "encode_loop malloc_ok dest_data block_size t i s =
     (if i < t_count t then
        (let run_count = op_run t block_size i in
         case encode_op malloc_ok dest_data block_size t i run_count s of
           (err, s') \<Rightarrow> if err \<noteq> FSD_SUCCESS then (err, s')
                        else encode_loop malloc_ok dest_data block_size t (i + run_count) s')
      else (FSD_SUCCESS, s))"
  by pat_completeness auto
termination
  by (relation "measure (\<lambda>(m, d, bs, t, i, s). t_count t - i)")
     (auto simp: op_run_bounds(1) diff_less_mono2)

declare encode_loop.simps [simp del]

definition fsd_op_encoder_encode ::
  "(nat \<Rightarrow> bool) \<Rightarrow> op_encoder \<Rightarrow> block_tracker \<Rightarrow> bytes \<Rightarrow> writers \<Rightarrow>
     fsd_error \<times> op_encoder \<times> writers" where
  "fsd_op_encoder_encode malloc_ok encoder t dest_data s =
     (case encode_loop malloc_ok dest_data (e_block_size encoder) t 0 s of
        (err, s') \<Rightarrow>
          if err \<noteq> FSD_SUCCESS then (err, encoder, s')
          else (FSD_SUCCESS,
                encoder\<lparr>e_op_bytes := fsd_writer_bytes_written (op_writer s'),
                        e_diff_bytes := fsd_writer_bytes_written (diff_writer s'),
                        e_literal_bytes := fsd_writer_bytes_written (lit_writer s')\<rparr>, s'))"

definition fsd_op_encoder_op_size :: "op_encoder \<Rightarrow> nat" where
  "fsd_op_encoder_op_size encoder = e_op_bytes encoder"

definition fsd_op_encoder_diff_size :: "op_encoder \<Rightarrow> nat" where
  "fsd_op_encoder_diff_size encoder = e_diff_bytes encoder"

definition fsd_op_encoder_literal_size :: "op_encoder \<Rightarrow> nat" where
  "fsd_op_encoder_literal_size encoder = e_literal_bytes encoder"

section \<open>Bytes appended to the streams\<close>

text \<open>
  \<^verbatim>\<open>w_emits f d\<close>: on a well-formed writer, \<^verbatim>\<open>f\<close> appends \<^verbatim>\<open>d\<close> when it succeeds, fails only
  with an I/O error, and succeeds when the file has room.
\<close>

definition w_emits :: "writer action \<Rightarrow> bytes \<Rightarrow> bool" where
  "w_emits f d \<longleftrightarrow> (\<forall>w e w' n. writer_ok w \<longrightarrow> f w = (e, w') \<longrightarrow>
     e \<in> {FSD_SUCCESS, FSD_ERR_IO} \<and>
     (e = FSD_SUCCESS \<longrightarrow> writer_ok w' \<and> w_stream w' = w_stream w @ d) \<and>
     (writer_room (length d + n) w \<longrightarrow> e = FSD_SUCCESS \<and> writer_room n w'))"

lemma w_emits_write: "w_emits (fsd_writer_write d) d"
  unfolding w_emits_def using writer_write_spec by blast

lemma w_emits_byte: "w_emits (fsd_writer_write_byte b) [b]"
  unfolding w_emits_def
proof (intro allI impI, goal_cases)
  case (1 w e w' n)
  then show ?case using writer_write_byte_spec[of w b e w' n] by simp
qed

lemma w_emits_u16: "w_emits (fsd_writer_write_u16_le v) (u16_le v)"
  by (simp add: fsd_writer_write_u16_le_def w_emits_write)

lemma w_emits_u32: "w_emits (fsd_writer_write_u32_le v) (u32_le v)"
  by (simp add: fsd_writer_write_u32_le_def w_emits_write)

lemma w_emits_seq:
  assumes "w_emits f a" and "w_emits g b"
  shows "w_emits (seqE f g) (a @ b)"
  unfolding w_emits_def
proof (intro allI impI)
  fix w e w' n
  assume ok: "writer_ok w" and eq: "seqE f g w = (e, w')"
  obtain e1 w1 where f: "f w = (e1, w1)" by fastforce
  have F: "e1 \<in> {FSD_SUCCESS, FSD_ERR_IO}"
      "e1 = FSD_SUCCESS \<Longrightarrow> writer_ok w1 \<and> w_stream w1 = w_stream w @ a"
      "writer_room (length a + (length b + n)) w \<Longrightarrow> e1 = FSD_SUCCESS \<and> writer_room (length b + n) w1"
    using assms(1) ok f unfolding w_emits_def by blast+
  show "e \<in> {FSD_SUCCESS, FSD_ERR_IO} \<and>
       (e = FSD_SUCCESS \<longrightarrow> writer_ok w' \<and> w_stream w' = w_stream w @ a @ b) \<and>
       (writer_room (length (a @ b) + n) w \<longrightarrow> e = FSD_SUCCESS \<and> writer_room n w')"
  proof (cases "e1 = FSD_SUCCESS")
    case True
    then have "g w1 = (e, w')" using f eq by simp
    then have "e \<in> {FSD_SUCCESS, FSD_ERR_IO}"
        "e = FSD_SUCCESS \<Longrightarrow> writer_ok w' \<and> w_stream w' = w_stream w1 @ b"
        "writer_room (length b + n) w1 \<Longrightarrow> e = FSD_SUCCESS \<and> writer_room n w'"
      using assms(2) F(2)[OF True] unfolding w_emits_def by blast+
    then show ?thesis using F True by (simp add: add.assoc)
  next
    case False
    then show ?thesis using f eq F by (auto simp: add.assoc)
  qed
qed

lemmas w_emits_intros = w_emits_write w_emits_byte w_emits_u16 w_emits_u32 w_emits_seq

definition writers_ok :: "writers \<Rightarrow> bool" where
  "writers_ok s \<longleftrightarrow> writer_ok (op_writer s) \<and> writer_ok (diff_writer s) \<and> writer_ok (lit_writer s)"

definition writers_room :: "nat \<Rightarrow> nat \<Rightarrow> nat \<Rightarrow> writers \<Rightarrow> bool" where
  "writers_room x y z s \<longleftrightarrow> writer_room x (op_writer s) \<and> writer_room y (diff_writer s) \<and>
     writer_room z (lit_writer s)"

definition streams_of :: "writers \<Rightarrow> bytes \<times> bytes \<times> bytes" where
  "streams_of s = (w_stream (op_writer s), w_stream (diff_writer s), w_stream (lit_writer s))"

definition extend_streams :: "bytes \<times> bytes \<times> bytes \<Rightarrow> bytes \<Rightarrow> bytes \<Rightarrow> bytes \<Rightarrow> bytes \<times> bytes \<times> bytes" where
  "extend_streams S a b c = (fst S @ a, fst (snd S) @ b, snd (snd S) @ c)"

text \<open>
  The same for an action on the three writers; \<^verbatim>\<open>live\<close> says that no allocation fails, and
  then room in the files is enough for success.
\<close>

definition emits :: "bool \<Rightarrow> writers action \<Rightarrow> bytes \<Rightarrow> bytes \<Rightarrow> bytes \<Rightarrow> bool" where
  "emits live f a b c \<longleftrightarrow> (\<forall>s e s' x y z. writers_ok s \<longrightarrow> f s = (e, s') \<longrightarrow>
     e \<in> {FSD_SUCCESS, FSD_ERR_IO, FSD_ERR_OUT_OF_MEMORY} \<and>
     (e = FSD_SUCCESS \<longrightarrow> writers_ok s' \<and> streams_of s' = extend_streams (streams_of s) a b c) \<and>
     (live \<and> writers_room (length a + x) (length b + y) (length c + z) s \<longrightarrow>
        e = FSD_SUCCESS \<and> writers_room x y z s'))"

lemma emits_seq:
  assumes "emits live f a b c" and "emits live g a' b' c'"
  shows "emits live (seqE f g) (a @ a') (b @ b') (c @ c')"
  unfolding emits_def
proof (intro allI impI)
  fix s e s' x y z
  assume ok: "writers_ok s" and eq: "seqE f g s = (e, s')"
  obtain e1 s1 where f: "f s = (e1, s1)" by fastforce
  have F: "e1 \<in> {FSD_SUCCESS, FSD_ERR_IO, FSD_ERR_OUT_OF_MEMORY}"
      "e1 = FSD_SUCCESS \<Longrightarrow> writers_ok s1 \<and> streams_of s1 = extend_streams (streams_of s) a b c"
      "live \<and> writers_room (length a + (length a' + x)) (length b + (length b' + y))
         (length c + (length c' + z)) s \<Longrightarrow>
       e1 = FSD_SUCCESS \<and> writers_room (length a' + x) (length b' + y) (length c' + z) s1"
    using assms(1) ok f unfolding emits_def by blast+
  show "e \<in> {FSD_SUCCESS, FSD_ERR_IO, FSD_ERR_OUT_OF_MEMORY} \<and>
     (e = FSD_SUCCESS \<longrightarrow> writers_ok s' \<and> streams_of s' = extend_streams (streams_of s) (a @ a') (b @ b') (c @ c')) \<and>
     (live \<and> writers_room (length (a @ a') + x) (length (b @ b') + y) (length (c @ c') + z) s \<longrightarrow>
        e = FSD_SUCCESS \<and> writers_room x y z s')"
  proof (cases "e1 = FSD_SUCCESS")
    case True
    then have "g s1 = (e, s')" using f eq by simp
    then have "e \<in> {FSD_SUCCESS, FSD_ERR_IO, FSD_ERR_OUT_OF_MEMORY}"
        "e = FSD_SUCCESS \<Longrightarrow> writers_ok s' \<and> streams_of s' = extend_streams (streams_of s1) a' b' c'"
        "live \<and> writers_room (length a' + x) (length b' + y) (length c' + z) s1 \<Longrightarrow>
          e = FSD_SUCCESS \<and> writers_room x y z s'"
      using assms(2) F(2)[OF True] unfolding emits_def by blast+
    then show ?thesis using F True by (simp add: add.assoc extend_streams_def)
  next
    case False
    then show ?thesis using f eq F by (auto simp: add.assoc)
  qed
qed

lemma emits_on_op:
  assumes "w_emits f a"
  shows "emits live (on_op f) a [] []"
  unfolding emits_def
proof (intro allI impI)
  fix s e s' x y z
  assume ok: "writers_ok s" and eq: "on_op f s = (e, s')"
  then obtain w where w: "f (op_writer s) = (e, w)" "s' = s\<lparr>op_writer := w\<rparr>"
    by (auto simp: on_op_def split: prod.splits)
  have "writer_ok (op_writer s)" using ok by (simp add: writers_ok_def)
  note spec = assms[unfolded w_emits_def, rule_format, OF this w(1)]
  show "e \<in> {FSD_SUCCESS, FSD_ERR_IO, FSD_ERR_OUT_OF_MEMORY} \<and>
    (e = FSD_SUCCESS \<longrightarrow> writers_ok s' \<and> streams_of s' = extend_streams (streams_of s) a [] []) \<and>
    (live \<and> writers_room (length a + x) (length ([] :: bytes) + y) (length ([] :: bytes) + z) s \<longrightarrow>
      e = FSD_SUCCESS \<and> writers_room x y z s')"
    using spec[of 0] spec[of x] ok unfolding w(2)
    by (auto simp: writers_ok_def writers_room_def streams_of_def extend_streams_def)
qed

lemma emits_on_diff:
  assumes "w_emits f a"
  shows "emits live (on_diff f) [] a []"
  unfolding emits_def
proof (intro allI impI)
  fix s e s' x y z
  assume ok: "writers_ok s" and eq: "on_diff f s = (e, s')"
  then obtain w where w: "f (diff_writer s) = (e, w)" "s' = s\<lparr>diff_writer := w\<rparr>"
    by (auto simp: on_diff_def split: prod.splits)
  have "writer_ok (diff_writer s)" using ok by (simp add: writers_ok_def)
  note spec = assms[unfolded w_emits_def, rule_format, OF this w(1)]
  show "e \<in> {FSD_SUCCESS, FSD_ERR_IO, FSD_ERR_OUT_OF_MEMORY} \<and>
    (e = FSD_SUCCESS \<longrightarrow> writers_ok s' \<and> streams_of s' = extend_streams (streams_of s) [] a []) \<and>
    (live \<and> writers_room (length ([] :: bytes) + x) (length a + y) (length ([] :: bytes) + z) s \<longrightarrow>
      e = FSD_SUCCESS \<and> writers_room x y z s')"
    using spec[of 0] spec[of y] ok unfolding w(2)
    by (auto simp: writers_ok_def writers_room_def streams_of_def extend_streams_def)
qed

lemma emits_on_lit:
  assumes "w_emits f a"
  shows "emits live (on_lit f) [] [] a"
  unfolding emits_def
proof (intro allI impI)
  fix s e s' x y z
  assume ok: "writers_ok s" and eq: "on_lit f s = (e, s')"
  then obtain w where w: "f (lit_writer s) = (e, w)" "s' = s\<lparr>lit_writer := w\<rparr>"
    by (auto simp: on_lit_def split: prod.splits)
  have "writer_ok (lit_writer s)" using ok by (simp add: writers_ok_def)
  note spec = assms[unfolded w_emits_def, rule_format, OF this w(1)]
  show "e \<in> {FSD_SUCCESS, FSD_ERR_IO, FSD_ERR_OUT_OF_MEMORY} \<and>
    (e = FSD_SUCCESS \<longrightarrow> writers_ok s' \<and> streams_of s' = extend_streams (streams_of s) [] [] a) \<and>
    (live \<and> writers_room (length ([] :: bytes) + x) (length ([] :: bytes) + y) (length a + z) s \<longrightarrow>
      e = FSD_SUCCESS \<and> writers_room x y z s')"
    using spec[of 0] spec[of z] ok unfolding w(2)
    by (auto simp: writers_ok_def writers_room_def streams_of_def extend_streams_def)
qed

section \<open>Sizes of the diff formats\<close>

lemma encode_varint_not_Nil [simp]: "encode_varint v \<noteq> []"
  by (subst encode_varint.simps) simp

lemma length_encode_varint: "length (encode_varint v) \<le> max 1 v"
proof (induction v rule: encode_varint.induct)
  case (1 v)
  show ?case
  proof (cases "128 \<le> v")
    case True
    with 1 show ?thesis
      by (subst encode_varint.simps) (simp add: drop_bit_eq_div max_def split: if_splits)
  next
    case False
    then show ?thesis by (subst encode_varint.simps) simp
  qed
qed

lemma sparse_block_step:
  assumes "pos < bs"
  shows "sparse_block (Some d) bs pos =
    encode_varint (add_run_end (Some d) bs pos - pos) @
    bytes_at pos (add_run_end (Some d) bs pos - pos) d @
    (if bs \<le> add_run_end (Some d) bs pos then []
     else encode_varint (copy_run_end (Some d) bs (add_run_end (Some d) bs pos) - add_run_end (Some d) bs pos) @
       sparse_block (Some d) bs (copy_run_end (Some d) bs (add_run_end (Some d) bs pos)))"
  using assms by (subst sparse_block.simps) (simp add: Let_def)

lemma sparse_block_end: "bs \<le> pos \<Longrightarrow> sparse_block delta bs pos = []"
  by (subst sparse_block.simps) simp

text \<open>The sparse format never takes more than two bytes for a byte of the block.\<close>

lemma length_sparse_block:
  assumes "pos \<le> bs"
  shows "length (sparse_block (Some d) bs pos) \<le> 2 * (bs - pos)"
  using assms
proof (induction "bs - pos" arbitrary: pos rule: less_induct)
  case less
  show ?case
  proof (cases "pos < bs")
    case False
    then show ?thesis by (simp add: sparse_block_end)
  next
    case True
    let ?p = "add_run_end (Some d) bs pos" and ?q = "copy_run_end (Some d) bs (add_run_end (Some d) bs pos)"
    have p: "pos \<le> ?p" "?p \<le> bs" "?p < bs \<Longrightarrow> delta_zero (Some d) ?p"
      using add_run_end_spec[of pos "Some d" bs] True by auto
    have add: "length (encode_varint (?p - pos)) + length (bytes_at pos (?p - pos) d) \<le>
        2 * (?p - pos) + (if ?p = pos then 1 else 0)"
      using length_encode_varint[of "?p - pos"] p(1) by (auto simp: max_def split: if_splits)
    show ?thesis
    proof (cases "bs \<le> ?p")
      case last: True
      with add True p(2) show ?thesis by (simp add: sparse_block_step)
    next
      case False
      have q: "?p < ?q" "?q \<le> bs" using copy_run_end_spec[of ?p "Some d" bs] p False by auto
      have IH: "length (sparse_block (Some d) bs ?q) \<le> 2 * (bs - ?q)"
        using less.hyps[of ?q] q p by simp
      have "length (encode_varint (?q - ?p)) \<le> ?q - ?p"
        using length_encode_varint[of "?q - ?p"] q by (simp add: max_def split: if_splits)
      moreover have "length (sparse_block (Some d) bs pos) = length (encode_varint (?p - pos)) +
          length (bytes_at pos (?p - pos) d) + length (encode_varint (?q - ?p)) +
          length (sparse_block (Some d) bs ?q)"
        using True False by (simp add: sparse_block_step)
      moreover have "(?p - pos) + (?q - ?p) + (bs - ?q) = bs - pos" using p q by simp
      moreover have "(if ?p = pos then 1 else 0) \<le> ?q - ?p" using q(1) by (auto simp: Suc_le_eq)
      ultimately show ?thesis using add IH by linarith
    qed
  qed
qed

lemma max_run_fits:
  assumes "0 < bs" and "bs * 2 \<le> UINT32_MAX" and "r \<le> max_run_for_format bs"
  shows "r * bs * 2 \<le> UINT32_MAX"
proof -
  have "UINT32_MAX div (bs * 2) \<noteq> 0" using assms(1,2) by (simp add: div_eq_0_iff)
  with assms(3) have "r \<le> UINT32_MAX div (bs * 2)" by (simp add: max_run_for_format_def Let_def)
  then have "r * (bs * 2) \<le> UINT32_MAX"
    using assms(1) by (simp add: less_eq_div_iff_mult_less_eq)
  then show ?thesis by (simp add: ac_simps)
qed

text \<open>A delta as the partial stage leaves it: one byte for each byte of the block.\<close>

definition delta_ok :: "nat \<Rightarrow> block_state \<Rightarrow> bool" where
  "delta_ok bs b \<longleftrightarrow> (b_match_type b = FSD_MATCH_PARTIAL \<longrightarrow>
     (\<exists>d. b_delta b = Some d \<and> length d = bs \<and> b_delta_size b = bs))"

lemma length_concat_le:
  "(\<And>x. x \<in> set xs \<Longrightarrow> length (f x) \<le> k) \<Longrightarrow> length (concat (map f xs)) \<le> length xs * k"
  by (induction xs) (auto simp: add_mono)

lemma length_run_diff:
  assumes "\<And>b. b \<in> set blocks \<Longrightarrow> \<exists>d. b_delta b = Some d \<and> length d = bs \<and> b_delta_size b = bs"
  shows "length (run_diff bs blocks) \<le> length blocks * (2 * bs)"
  unfolding run_diff_def
proof (split if_split, intro conjI impI)
  show "length (concat (map (\<lambda>b. sparse_block (b_delta b) bs 0) blocks)) \<le> length blocks * (2 * bs)"
    by (rule length_concat_le) (use assms length_sparse_block[of 0 bs] in fastforce)
  show "length (concat (map (\<lambda>b. dense_block b bs) blocks)) \<le> length blocks * (2 * bs)"
    by (rule length_concat_le) (use assms in \<open>fastforce simp: dense_block_def\<close>)
qed

section \<open>The streams of a run\<close>

definition count_op_bytes :: "byte \<Rightarrow> nat \<Rightarrow> bytes" where
  "count_op_bytes op_byte count =
     (if count \<le> 8 then [op_byte OR push_bit 3 3 OR ((of_nat count - 1) AND 0x7)]
      else if count \<le> 256 then [op_byte OR push_bit 3 0, of_nat (count - 1)]
      else if count \<le> 65536 then (op_byte OR push_bit 3 1) # u16_le (of_nat (count - 1))
      else (op_byte OR push_bit 3 2) # u32_le (of_nat count))"

definition count_field :: "nat \<Rightarrow> bytes" where
  "count_field n = (if n \<le> 256 then [of_nat (n - 1)] else if n \<le> 65536 then u16_le (of_nat (n - 1))
     else u32_le (of_nat n))"

definition reloc_offset_field :: "nat \<Rightarrow> bytes" where
  "reloc_offset_field a = (if a \<le> 0xFF then [of_nat a] else if a \<le> 0xFFFF then u16_le (of_nat a)
     else u32_le (of_nat a))"

definition partial_offset_field :: "int \<Rightarrow> bytes" where
  "partial_offset_field off =
     (if partial_offset_enc off = 0 then u16_le (of_int off)
      else if partial_offset_enc off = 1 then take 3 (u32_le (of_int off))
      else u32_le (of_int off))"

definition fits_reloc :: "block_state \<Rightarrow> nat \<Rightarrow> bool" where
  "fits_reloc b i \<longleftrightarrow> nat \<bar>block_offset b i\<bar> \<le> 0xFFFFFFFF"

definition fits_partial :: "nat \<Rightarrow> block_state \<Rightarrow> nat \<Rightarrow> bool" where
  "fits_partial bs b i \<longleftrightarrow> - (2 ^ 31) \<le> partial_offset bs b i \<and> partial_offset bs b i \<le> 2 ^ 31 - 1"

text \<open>Whether the run at \<^verbatim>\<open>i\<close> goes to the literal stream.\<close>

definition as_literal :: "nat \<Rightarrow> block_tracker \<Rightarrow> nat \<Rightarrow> bool" where
  "as_literal bs t i \<longleftrightarrow>
     (let b = t_blocks t ! i in
      case b_match_type b of
        FSD_MATCH_NONE \<Rightarrow> True
      | FSD_MATCH_RELOCATE \<Rightarrow> \<not> fits_reloc b i
      | FSD_MATCH_PARTIAL \<Rightarrow> \<not> fits_partial bs b i
      | _ \<Rightarrow> False)"

definition reloc_op_bytes :: "int \<Rightarrow> nat \<Rightarrow> bytes" where
  "reloc_op_bytes off n =
     (push_bit 5 FSD_OP_COPY_RELOCATE OR push_bit 3 (of_nat (count_enc_of n)) OR
       push_bit 1 (of_nat (reloc_offset_enc (nat \<bar>off\<bar>))) OR (if off < 0 then 1 else 0)) #
     count_field n @ reloc_offset_field (nat \<bar>off\<bar>)"

definition partial_op_bytes :: "int \<Rightarrow> nat \<Rightarrow> bool \<Rightarrow> nat \<Rightarrow> bytes" where
  "partial_op_bytes off n sparse diff_len =
     (push_bit 5 FSD_OP_COPY_ADD OR push_bit 3 (of_nat (count_enc_of n)) OR
       push_bit 1 (of_nat (partial_offset_enc off)) OR (if sparse then 1 else 0)) #
     partial_offset_field off @ count_field n @ u32_le (of_nat diff_len)"

definition op_part :: "nat \<Rightarrow> block_tracker \<Rightarrow> nat \<times> nat \<Rightarrow> bytes" where
  "op_part bs t = (\<lambda>(i, n).
     let b = t_blocks t ! i; blocks = run_blocks t i n in
     if as_literal bs t i then count_op_bytes (push_bit 5 FSD_OP_LITERAL) n
     else case b_match_type b of
        FSD_MATCH_IDENTITY \<Rightarrow> count_op_bytes (push_bit 5 FSD_OP_COPY_IDENTITY) n
      | FSD_MATCH_ZERO \<Rightarrow> count_op_bytes (push_bit 5 FSD_OP_ZERO) n
      | FSD_MATCH_ONE \<Rightarrow> count_op_bytes (push_bit 5 FSD_OP_ONE) n
      | FSD_MATCH_RELOCATE \<Rightarrow> reloc_op_bytes (block_offset b i) n
      | FSD_MATCH_PARTIAL \<Rightarrow> partial_op_bytes (partial_offset bs b i) n (run_is_sparse bs blocks)
          (length (run_diff bs blocks))
      | _ \<Rightarrow> [])"

definition diff_part :: "nat \<Rightarrow> block_tracker \<Rightarrow> nat \<times> nat \<Rightarrow> bytes" where
  "diff_part bs t = (\<lambda>(i, n).
     if \<not> as_literal bs t i \<and> b_match_type (t_blocks t ! i) = FSD_MATCH_PARTIAL
     then run_diff bs (run_blocks t i n) else [])"

definition lit_part :: "bytes \<Rightarrow> nat \<Rightarrow> block_tracker \<Rightarrow> nat \<times> nat \<Rightarrow> bytes" where
  "lit_part dest bs t = (\<lambda>(i, n). if as_literal bs t i then bytes_at (i * bs) (n * bs) dest else [])"

lemma encode_count_emits: "w_emits (encode_count op n) (count_op_bytes op n)"
  using w_emits_seq[OF w_emits_byte w_emits_byte] w_emits_seq[OF w_emits_byte w_emits_u16]
    w_emits_seq[OF w_emits_byte w_emits_u32] w_emits_byte
  unfolding encode_count_def count_op_bytes_def by auto

text \<open>
  The four-byte count holds a run modulo \<open>2 ^ 32\<close>: a run of \<open>2 ^ 32 + n\<close> blocks is written as one of
  \<open>n\<close> blocks.
\<close>

lemma long_run_truncated:
  "w_emits (encode_count op (2 ^ 32 + n)) ((op OR push_bit 3 2) # u32_le (of_nat n))"
proof -
  have "(2 ^ 32 :: 32 word) = 0" by (simp add: word_unat_eq_iff)
  then have "(of_nat (2 ^ 32 + n) :: 32 word) = of_nat n"
    by (simp only: of_nat_add of_nat_power of_nat_numeral) simp
  then have "count_op_bytes op (2 ^ 32 + n) = (op OR push_bit 3 2) # u32_le (of_nat n)"
    by (simp add: count_op_bytes_def flip: of_nat_add)
  then show ?thesis using encode_count_emits[of op "2 ^ 32 + n"] by simp
qed

lemma write_count_field_emits: "w_emits (write_count_field n) (count_field n)"
  unfolding write_count_field_def count_field_def count_enc_of_def
  by (auto intro: w_emits_intros)

lemma write_partial_offset_emits: "w_emits (write_partial_offset off) (partial_offset_field off)"
proof -
  let ?v = "of_int off :: 32 word"
  have "w_emits (seqE (fsd_writer_write_byte (ucast (?v AND 0xFF)))
      (seqE (fsd_writer_write_byte (ucast (drop_bit 8 ?v AND 0xFF)))
        (fsd_writer_write_byte (ucast (drop_bit 16 ?v AND 0xFF))))) (take 3 (u32_le ?v))"
    using w_emits_seq[OF w_emits_byte w_emits_seq[OF w_emits_byte w_emits_byte],
        of "ucast (?v AND 0xFF)" "ucast (drop_bit 8 ?v AND 0xFF)" "ucast (drop_bit 16 ?v AND 0xFF)"]
    by (simp add: u32_le_def)
  then show ?thesis
    unfolding write_partial_offset_def partial_offset_field_def Let_def
    by (auto intro: w_emits_intros)
qed

lemma emit_literal_run_emits:
  assumes "(i + n) * bs \<le> length dest" and "length dest < 2 ^ 63"
  shows "emits live (emit_literal_run dest bs i n) (count_op_bytes (push_bit 5 FSD_OP_LITERAL) n) []
    (bytes_at (i * bs) (n * bs) dest)"
proof -
  have "i * bs + n * bs \<le> length dest" using assms(1) by (simp add: distrib_right)
  then have "u64 (i * bs) = i * bs" "u64 (n * bs) = n * bs" "i * bs + n * bs \<le> length dest"
    using assms(2) by (auto intro!: u64_id)
  then show ?thesis
    using emits_seq[OF emits_on_op[OF encode_count_emits] emits_on_lit[OF w_emits_write]]
    by (simp add: emit_literal_run_def Let_def)
qed

lemma encode_relocate_emits:
  assumes "(i + n) * bs \<le> length dest" and "length dest < 2 ^ 63"
  shows "emits live (encode_relocate dest bs b i n)
    (if fits_reloc b i then reloc_op_bytes (block_offset b i) n
     else count_op_bytes (push_bit 5 FSD_OP_LITERAL) n) []
    (if fits_reloc b i then [] else bytes_at (i * bs) (n * bs) dest)"
proof (cases "fits_reloc b i")
  case False
  then show ?thesis
    using emit_literal_run_emits[OF assms] by (simp add: encode_relocate_def fits_reloc_def Let_def)
next
  case True
  let ?a = "nat \<bar>block_offset b i\<bar>"
  have off: "w_emits (if reloc_offset_enc ?a = 0 then fsd_writer_write_byte (of_nat ?a)
      else if reloc_offset_enc ?a = 1 then fsd_writer_write_u16_le (of_nat ?a)
      else fsd_writer_write_u32_le (of_nat ?a)) (reloc_offset_field ?a)"
    by (auto simp: reloc_offset_enc_def reloc_offset_field_def intro: w_emits_intros)
  from True show ?thesis
    using emits_seq[OF emits_on_op[OF w_emits_byte]
        emits_seq[OF emits_on_op[OF write_count_field_emits] emits_on_op[OF off]]]
    by (simp add: encode_relocate_def fits_reloc_def reloc_op_bytes_def Let_def)
qed

lemma encode_partial_emits:
  assumes "(i + n) * bs \<le> length dest" and "length dest < 2 ^ 63" and "0 < bs" and "0 < n"
    and "bs * 2 \<le> UINT32_MAX" and "n \<le> max_run_for_format bs"
    and deltas: "\<And>b. b \<in> set (run_blocks t i n) \<Longrightarrow>
      \<exists>d. b_delta b = Some d \<and> length d = bs \<and> b_delta_size b = bs"
  shows "emits (\<forall>k. mok k) (encode_partial mok dest bs t i n)
    (if fits_partial bs (t_blocks t ! i) i
     then partial_op_bytes (partial_offset bs (t_blocks t ! i) i) n
       (run_is_sparse bs (run_blocks t i n)) (length (run_diff bs (run_blocks t i n)))
     else count_op_bytes (push_bit 5 FSD_OP_LITERAL) n)
    (if fits_partial bs (t_blocks t ! i) i then run_diff bs (run_blocks t i n) else [])
    (if fits_partial bs (t_blocks t ! i) i then [] else bytes_at (i * bs) (n * bs) dest)"
proof (cases "fits_partial bs (t_blocks t ! i) i")
  case False
  then show ?thesis
    using emit_literal_run_emits[OF assms(1,2)]
    by (auto simp: encode_partial_def fits_partial_def Let_def not_le)
next
  case True
  let ?bl = "run_blocks t i n" and ?off = "partial_offset bs (t_blocks t ! i) i"
  have cap: "n * bs * 2 \<le> UINT32_MAX" using max_run_fits[OF assms(3,5,6)] .
  have "UINT32_MAX < 2 ^ 64" by (simp add: UINT32_MAX_def)
  with cap have u: "u64 (n * bs * 2) = n * bs * 2" by (intro u64_id) (rule le_less_trans)
  have len: "length (run_diff bs ?bl) \<le> n * bs * 2"
  proof -
    have "length ?bl = n" by (simp add: run_blocks_def)
    then show ?thesis using length_run_diff[of ?bl bs] deltas by (simp add: ac_simps)
  qed
  have "n \<le> UINT32_MAX div bs div 2"
    using cap assms(3) by (simp add: less_eq_div_iff_mult_less_eq ac_simps)
  also have "\<dots> \<le> UINT64_MAX div bs div 2"
    by (intro div_le_mono) (simp add: UINT32_MAX_def UINT64_MAX_def)
  finally have mem: "\<not> UINT64_MAX div bs div 2 < n" by simp
  have readable: "list_all (delta_readable (run_is_sparse bs ?bl) bs) ?bl"
    using deltas by (fastforce simp: list_all_iff delta_readable_def)
  have range: "\<not> (?off < - (2 ^ 31) \<or> 2 ^ 31 - 1 < ?off)" using True by (auto simp: fits_partial_def)
  have ok: "emits (\<forall>k. mok k)
     (seqE (on_op (fsd_writer_write_byte
               (push_bit 5 FSD_OP_COPY_ADD OR push_bit 3 (of_nat (count_enc_of n)) OR
                push_bit 1 (of_nat (partial_offset_enc ?off)) OR
                (if run_is_sparse bs ?bl then 1 else 0))))
           (seqE (on_op (write_partial_offset ?off))
           (seqE (on_op (write_count_field n))
           (seqE (on_op (fsd_writer_write_u32_le (of_nat (length (run_diff bs ?bl)))))
                     (on_diff (fsd_writer_write (run_diff bs ?bl)))))))
     (partial_op_bytes ?off n (run_is_sparse bs ?bl) (length (run_diff bs ?bl))) (run_diff bs ?bl) []"
    using emits_seq[OF emits_on_op[OF w_emits_byte]
        emits_seq[OF emits_on_op[OF write_partial_offset_emits]
        emits_seq[OF emits_on_op[OF write_count_field_emits]
        emits_seq[OF emits_on_op[OF w_emits_u32] emits_on_diff[OF w_emits_write]]]]]
    by (simp add: partial_op_bytes_def)
  have fail: "\<not> mok k \<Longrightarrow> emits (\<forall>k. mok k) (failE FSD_ERR_OUT_OF_MEMORY) a b c" for k a b c
    by (auto simp: emits_def failE_def)
  have "\<not> UINT32_MAX < length (run_diff bs ?bl)" using len cap by simp
  with True show ?thesis
    using ok fail len u mem readable range
    by (cases "mok (n * bs * 2)") (auto simp: encode_partial_def Let_def)
qed

text \<open>What the encoder needs of a tracker: the invariant, the block counts, the deltas.\<close>

definition encodable :: "bytes \<Rightarrow> nat \<Rightarrow> block_tracker \<Rightarrow> bool" where
  "encodable dest bs t \<longleftrightarrow> length (t_blocks t) = t_count t \<and> t_count t * bs = length dest \<and>
     length dest < 2 ^ 63 \<and> 0 < bs \<and> bs \<le> 2 ^ 24 \<and> (\<forall>b \<in> set (t_blocks t). delta_ok bs b)"

lemma partial_run_blocks:
  assumes "encodable dest bs t" and "i < t_count t" and "b_match_type (t_blocks t ! i) = FSD_MATCH_PARTIAL"
    and "n = op_run t bs i" and "b \<in> set (run_blocks t i n)"
  shows "\<exists>d. b_delta b = Some d \<and> length d = bs \<and> b_delta_size b = bs"
proof -
  obtain j where j: "j < n" "b = t_blocks t ! (i + j)" using assms(5) by (auto simp: run_blocks_def)
  have "n = partial_run t bs i (partial_offset bs (t_blocks t ! i) i) 1"
    using assms(3,4) by (simp add: op_run_def Let_def)
  with j assms(3) have "b_match_type b = FSD_MATCH_PARTIAL"
    using partial_run_spec[of 1 t bs i] by (cases "j = 0") (auto simp: Suc_le_eq)
  moreover have "i + j < t_count t" using j(1) op_run_bounds(2)[OF assms(2), of bs] assms(4) by simp
  ultimately show ?thesis
    using assms(1) j(2) by (auto simp: encodable_def delta_ok_def)
qed

lemma run_in_dest:
  assumes "encodable dest bs t" and "i < t_count t"
  shows "(i + op_run t bs i) * bs \<le> length dest"
  using assms op_run_bounds(2)[OF assms(2), of bs] by (metis encodable_def mult_le_mono1)

lemma encode_op_emits:
  assumes "encodable dest bs t" and "i < t_count t" and "n = op_run t bs i"
  shows "emits (\<forall>k. mok k) (encode_op mok dest bs t i n)
    (op_part bs t (i, n)) (diff_part bs t (i, n)) (lit_part dest bs t (i, n))"
proof -
  have fit: "(i + n) * bs \<le> length dest" "length dest < 2 ^ 63" "0 < bs" "bs * 2 \<le> UINT32_MAX" "0 < n"
    using run_in_dest[OF assms(1,2)] assms op_run_bounds(1)
    by (auto simp: encodable_def UINT32_MAX_def)
  have pm: "b_match_type (t_blocks t ! i) = FSD_MATCH_PARTIAL \<Longrightarrow> n \<le> max_run_for_format bs"
    using partial_run_spec[of 1 t bs i] assms(3)
    by (auto simp: op_run_def Let_def max_run_for_format_def Suc_le_eq)
  note parts = op_part_def diff_part_def lit_part_def as_literal_def encode_op_def Let_def
  show ?thesis
  proof (cases "b_match_type (t_blocks t ! i)")
    case FSD_MATCH_RELOCATE
    then show ?thesis using encode_relocate_emits[OF fit(1,2)] by (simp add: parts if_distrib cong: if_cong)
  next
    case FSD_MATCH_PARTIAL
    have "emits (\<forall>k. mok k) (encode_partial mok dest bs t i n)
      (if fits_partial bs (t_blocks t ! i) i
       then partial_op_bytes (partial_offset bs (t_blocks t ! i) i) n
         (run_is_sparse bs (run_blocks t i n)) (length (run_diff bs (run_blocks t i n)))
       else count_op_bytes (push_bit 5 FSD_OP_LITERAL) n)
      (if fits_partial bs (t_blocks t ! i) i then run_diff bs (run_blocks t i n) else [])
      (if fits_partial bs (t_blocks t ! i) i then [] else bytes_at (i * bs) (n * bs) dest)"
      by (rule encode_partial_emits[OF fit(1,2,3,5,4) pm])
         (use FSD_MATCH_PARTIAL partial_run_blocks[OF assms(1,2) _ assms(3)] in blast)+
    with FSD_MATCH_PARTIAL show ?thesis by (simp add: parts if_distrib cong: if_cong)
  qed (use emits_on_op[OF encode_count_emits] emit_literal_run_emits[OF fit(1,2)] in
      \<open>simp_all add: parts\<close>)
qed

text \<open>The runs the main loop goes through.\<close>

function runs_from :: "nat \<Rightarrow> block_tracker \<Rightarrow> nat \<Rightarrow> (nat \<times> nat) list" where
  "runs_from bs t i =
     (if i < t_count t then (i, op_run t bs i) # runs_from bs t (i + op_run t bs i) else [])"
  by pat_completeness auto
termination
  by (relation "measure (\<lambda>(bs, t, i). t_count t - i)") (auto simp: op_run_bounds(1) diff_less_mono2)

declare runs_from.simps [simp del]

abbreviation op_stream where "op_stream bs t i \<equiv> concat (map (op_part bs t) (runs_from bs t i))"
abbreviation diff_stream where "diff_stream bs t i \<equiv> concat (map (diff_part bs t) (runs_from bs t i))"
abbreviation lit_stream where "lit_stream dest bs t i \<equiv> concat (map (lit_part dest bs t) (runs_from bs t i))"

lemma encode_loop_emits:
  assumes "encodable dest bs t"
  shows "emits (\<forall>k. mok k) (encode_loop mok dest bs t i)
    (op_stream bs t i) (diff_stream bs t i) (lit_stream dest bs t i)"
  using assms
proof (induction bs t i rule: runs_from.induct)
  case (1 bs t i)
  show ?case
  proof (cases "i < t_count t")
    case False
    then have "runs_from bs t i = []" by (subst runs_from.simps) simp
    moreover have "encode_loop mok dest bs t i s = (FSD_SUCCESS, s)" for s
      using False by (subst encode_loop.simps) simp
    ultimately show ?thesis by (auto simp: emits_def extend_streams_def streams_of_def)
  next
    case True
    let ?n = "op_run t bs i"
    have "encode_loop mok dest bs t i =
        seqE (encode_op mok dest bs t i ?n) (encode_loop mok dest bs t (i + ?n))"
      using True by (intro ext) (subst encode_loop.simps, simp add: seqE_def Let_def split: prod.split)
    moreover have "runs_from bs t i = (i, ?n) # runs_from bs t (i + ?n)"
      using True by (subst runs_from.simps) simp
    ultimately show ?thesis
      using emits_seq[OF encode_op_emits[OF "1.prems" True refl] "1.IH"[OF True "1.prems"]] by simp
  qed
qed

text \<open>The sizes an encoder reports are those of the three streams it has written, on top of what the writers held.\<close>

lemma encoder_sizes_exact:
  assumes "encodable dest (e_block_size enc) t" and "writers_ok s"
    and "fsd_op_encoder_encode mok enc t dest s = (FSD_SUCCESS, enc', s')"
  shows "fsd_op_encoder_op_size enc' = fsd_writer_bytes_written (op_writer s) + length (op_stream (e_block_size enc) t 0)"
    and "fsd_op_encoder_diff_size enc' = fsd_writer_bytes_written (diff_writer s) + length (diff_stream (e_block_size enc) t 0)"
    and "fsd_op_encoder_literal_size enc' = fsd_writer_bytes_written (lit_writer s) + length (lit_stream dest (e_block_size enc) t 0)"
proof -
  obtain e u where u: "encode_loop mok dest (e_block_size enc) t 0 s = (e, u)" by (rule prod.exhaust)
  then have e: "e = FSD_SUCCESS" "s' = u"
    "enc' = enc\<lparr>e_op_bytes := fsd_writer_bytes_written (op_writer u), e_diff_bytes := fsd_writer_bytes_written (diff_writer u),
       e_literal_bytes := fsd_writer_bytes_written (lit_writer u)\<rparr>"
    using assms(3) by (auto simp: fsd_op_encoder_encode_def split: if_splits)
  note defs = fsd_op_encoder_op_size_def fsd_op_encoder_diff_size_def fsd_op_encoder_literal_size_def
  note out = encode_loop_emits[OF assms(1), of mok 0, unfolded emits_def, rule_format, OF assms(2) u]
  show "fsd_op_encoder_op_size enc' = fsd_writer_bytes_written (op_writer s) + length (op_stream (e_block_size enc) t 0)"
    "fsd_op_encoder_diff_size enc' = fsd_writer_bytes_written (diff_writer s) + length (diff_stream (e_block_size enc) t 0)"
    "fsd_op_encoder_literal_size enc' = fsd_writer_bytes_written (lit_writer s) + length (lit_stream dest (e_block_size enc) t 0)"
    using out e assms(2) by (auto simp: defs writers_ok_def writer_bytes_written extend_streams_def streams_of_def)
qed

end
