(* ===== verification/Patch_Apply.thy ===== *)
theory Patch_Apply
  imports Source_Reader Op_Encoder Bkdf_Header
begin

text \<open>
  Patch application, \<^verbatim>\<open>src/patch.c\<close>: the readers of the variable-length fields, one handler
  per operation, the main loop and \<^verbatim>\<open>fsd_patch_apply\<close> with its guards and its clean-up.
  A pointer into a stream is the list of the bytes from it to the stream's end. An access
  outside an object would be the value \<^verbatim>\<open>UB_FAULT\<close>; the theorems show that no patch causes one.
\<close>

section \<open>Fields\<close>

fun read_varint_loop :: "64 word \<Rightarrow> nat \<Rightarrow> bytes \<Rightarrow> fsd_error \<times> nat \<times> bytes" where
  "read_varint_loop value shift [] = (FSD_ERR_TRUNCATED, 0, [])"
| "read_varint_loop value shift (b # ptr) =
     (let value = value OR push_bit shift (ucast (b AND 0x7F)) in
      if b AND 0x80 = 0 then (FSD_SUCCESS, unat value, ptr)
      else if 64 \<le> shift + 7 then (FSD_ERR_CORRUPT_DATA, 0, ptr)
      else read_varint_loop value (shift + 7) ptr)"

definition read_varint :: "bytes \<Rightarrow> fsd_error \<times> nat \<times> bytes" where
  "read_varint ptr = read_varint_loop 0 0 ptr"

definition count_enc_bits :: "byte \<Rightarrow> byte" where
  "count_enc_bits first_byte = drop_bit 3 first_byte AND 0x3"

definition offset_enc_bits :: "byte \<Rightarrow> byte" where
  "offset_enc_bits first_byte = drop_bit 1 first_byte AND 0x3"

text \<open>Reading \<^verbatim>\<open>n\<close> bytes at a pointer and moving it behind them; past the end it is a fault.\<close>

definition consume :: "nat \<Rightarrow> bytes \<Rightarrow> (bytes \<Rightarrow> 'a) \<Rightarrow> fsd_error \<times> 'a \<times> bytes" where
  "consume n ptr f =
     (if length ptr < n then (UB_FAULT, f [], ptr) else (FSD_SUCCESS, f (take n ptr), drop n ptr))"

definition read_count :: "bytes \<Rightarrow> byte \<Rightarrow> fsd_error \<times> nat \<times> bytes" where
  "read_count ptr first_byte =
     (let count_enc = count_enc_bits first_byte in
      if count_enc = 0 then
        (if ptr = [] then (FSD_ERR_TRUNCATED, 0, ptr)
         else consume 1 ptr (\<lambda>p. unat (hd p) + 1))
      else if count_enc = 1 then
        (if length ptr < 2 then (FSD_ERR_TRUNCATED, 0, ptr)
         else consume 2 ptr (\<lambda>p. unat (le_u16 p) + 1))
      else if count_enc = 2 then
        (if length ptr < 4 then (FSD_ERR_TRUNCATED, 0, ptr)
         else consume 4 ptr (\<lambda>p. unat (le_u32 p)))
      else (FSD_SUCCESS, unat (first_byte AND 0x7) + 1, ptr))"

definition read_reloc_offset :: "bytes \<Rightarrow> byte \<Rightarrow> fsd_error \<times> int \<times> bytes" where
  "read_reloc_offset ptr first_byte =
     (let offset_enc = offset_enc_bits first_byte in
      if offset_enc = 0 then
        (if ptr = [] then (FSD_ERR_TRUNCATED, 0, ptr)
         else consume 1 ptr (\<lambda>p. int (unat (hd p))))
      else if offset_enc = 1 then
        (if length ptr < 2 then (FSD_ERR_TRUNCATED, 0, ptr)
         else consume 2 ptr (\<lambda>p. int (unat (le_u16 p))))
      else if offset_enc = 2 then
        (if length ptr < 4 then (FSD_ERR_TRUNCATED, 0, ptr)
         else consume 4 ptr (\<lambda>p. int (unat (le_u32 p))))
      else (FSD_SUCCESS, 0, ptr))"

definition le_u24 :: "bytes \<Rightarrow> 32 word" where
  "le_u24 p = ucast (p ! 0) OR push_bit 8 (ucast (p ! 1)) OR push_bit 16 (ucast (p ! 2))"

definition sign_extend_24 :: "32 word \<Rightarrow> int" where
  "sign_extend_24 raw =
     (if raw AND 0x800000 \<noteq> 0 then sint (ucast raw OR 0xFFFFFFFFFF000000 :: 64 word)
      else int (unat raw))"

definition read_byte_offset :: "bytes \<Rightarrow> byte \<Rightarrow> fsd_error \<times> int \<times> bytes" where
  "read_byte_offset ptr first_byte =
     (let offset_enc = offset_enc_bits first_byte in
      if offset_enc = 0 then
        (if length ptr < 2 then (FSD_ERR_TRUNCATED, 0, ptr)
         else consume 2 ptr (\<lambda>p. sint (ucast (le_u16 p) :: 16 word)))
      else if offset_enc = 1 then
        (if length ptr < 3 then (FSD_ERR_TRUNCATED, 0, ptr)
         else consume 3 ptr (\<lambda>p. sign_extend_24 (le_u24 p)))
      else if offset_enc = 2 then
        (if length ptr < 4 then (FSD_ERR_TRUNCATED, 0, ptr)
         else consume 4 ptr (\<lambda>p. sint (le_u32 p)))
      else (FSD_SUCCESS, 0, ptr))"

section \<open>The sparse diff format\<close>

text \<open>
  Adding a run of diff bytes to the block buffer from \<^verbatim>\<open>out_pos\<close> on; bytes past the block are
  skipped. \<^verbatim>\<open>put_add\<close> is the statement \<^verbatim>\<open>block_buf[out_pos] += diff_val\<close>: it faults when the index
  is not inside the buffer.
\<close>

definition put_add :: "bytes \<Rightarrow> nat \<Rightarrow> byte \<Rightarrow> bytes option" where
  "put_add buf out_pos diff_val =
     (if out_pos < length buf then Some (buf[out_pos := buf ! out_pos + diff_val]) else None)"

fun add_bytes :: "nat \<Rightarrow> bytes \<Rightarrow> bytes \<Rightarrow> nat \<Rightarrow> fsd_error \<times> bytes \<times> nat" where
  "add_bytes block_size [] buf out_pos = (FSD_SUCCESS, buf, out_pos)"
| "add_bytes block_size (diff_val # ds) buf out_pos =
     (if out_pos < block_size
      then case put_add buf out_pos diff_val of
             None \<Rightarrow> (UB_FAULT, buf, out_pos)
           | Some buf' \<Rightarrow> add_bytes block_size ds buf' (out_pos + 1)
      else add_bytes block_size ds buf out_pos)"

lemma read_varint_loop_shorter:
  "read_varint_loop v s ptr = (FSD_SUCCESS, n, rest) \<Longrightarrow> length rest < length ptr"
  by (induction v s ptr rule: read_varint_loop.induct)
     (auto simp: Let_def split: if_splits intro: less_SucI)

lemma read_varint_shorter: "read_varint ptr = (FSD_SUCCESS, n, rest) \<Longrightarrow> length rest < length ptr"
  unfolding read_varint_def by (rule read_varint_loop_shorter)

text \<open>The loop over a block; it ends because every iteration reads a length from the diff region.\<close>

function sparse_loop ::
  "nat \<Rightarrow> bytes \<Rightarrow> bytes \<Rightarrow> nat \<Rightarrow> fsd_error \<times> bytes \<times> bytes" where
  "sparse_loop block_size cursor buf out_pos =
     (if out_pos < block_size then
        case read_varint cursor of (err, add_len, cursor1) \<Rightarrow>
        if err \<noteq> FSD_SUCCESS then (err, buf, cursor1)
        else if length cursor1 < add_len then (FSD_ERR_TRUNCATED, buf, cursor1)
        else
          case consume add_len cursor1 id of (err1, diff_vals, cursor2) \<Rightarrow>
          if err1 \<noteq> FSD_SUCCESS then (err1, buf, cursor2)
          else
          case add_bytes block_size diff_vals buf out_pos of (err_add, buf1, out_pos1) \<Rightarrow>
          if err_add \<noteq> FSD_SUCCESS then (err_add, buf1, cursor2)
          else if block_size \<le> out_pos1 then (FSD_SUCCESS, buf1, cursor2)
          else
            case read_varint cursor2 of (err2, copy_len, cursor3) \<Rightarrow>
            if err2 \<noteq> FSD_SUCCESS then (err2, buf1, cursor3)
            else if block_size - out_pos1 < copy_len then (FSD_ERR_CORRUPT_DATA, buf1, cursor3)
            else if add_len = 0 \<and> copy_len = 0 \<and> out_pos1 + copy_len < block_size
            then (FSD_ERR_CORRUPT_DATA, buf1, cursor3)
            else sparse_loop block_size cursor3 buf1 (out_pos1 + copy_len)
      else (FSD_SUCCESS, buf, cursor))"
  by pat_completeness auto
termination
  by (relation "measure (\<lambda>(bs, cursor, buf, p). length cursor)")
     (auto simp: consume_def split: if_splits dest!: read_varint_shorter[OF sym])

declare sparse_loop.simps [simp del]

section \<open>Operations\<close>

record patch_state =
  ps_op :: bytes
  ps_diff :: bytes
  ps_lit :: bytes
  ps_dest_block :: nat
  ps_reader :: source_reader
  ps_output :: FILE
  ps_progress :: "(nat \<times> nat) list"

text \<open>\<^verbatim>\<open>fwrite(buf, 1, block_size, output)\<close> reads \<^verbatim>\<open>block_size\<close> bytes of the buffer.\<close>

definition write_block :: "nat \<Rightarrow> bytes \<Rightarrow> patch_state action" where
  "write_block block_size buf st =
     (if length buf < block_size then (UB_FAULT, st)
      else case fwrite (take block_size buf) (ps_output st) of
        (n, f) \<Rightarrow> (if n \<noteq> block_size then FSD_ERR_IO else FSD_SUCCESS, st\<lparr>ps_output := f\<rparr>))"

definition read_block ::
  "nat \<Rightarrow> nat \<Rightarrow> nat \<Rightarrow> patch_state \<Rightarrow> fsd_error \<times> bytes \<times> patch_state" where
  "read_block block_size src_size src_offset st =
     (if src_size < u64 (src_offset + block_size) then (FSD_ERR_CORRUPT_DATA, [], st)
      else case fsd_source_reader_read_at src_offset block_size (ps_reader st) of
        (e, d, r) \<Rightarrow> (e, d, st\<lparr>ps_reader := r\<rparr>))"

definition copy_block :: "nat \<Rightarrow> nat \<Rightarrow> nat \<Rightarrow> patch_state action" where
  "copy_block block_size src_size src_offset st =
     (case read_block block_size src_size src_offset st of
        (e, d, st') \<Rightarrow> if e \<noteq> FSD_SUCCESS then (e, st') else write_block block_size d st')"

definition op_identity :: "nat \<Rightarrow> nat \<Rightarrow> nat \<Rightarrow> patch_state action" where
  "op_identity block_size src_size count =
     for_loop 0 count (\<lambda>i st.
       copy_block block_size src_size (u64 (u64 (ps_dest_block st + i) * block_size)) st)"

definition op_relocate :: "nat \<Rightarrow> nat \<Rightarrow> nat \<Rightarrow> byte \<Rightarrow> patch_state action" where
  "op_relocate block_size src_size count first_byte st =
     (case read_reloc_offset (ps_op st) first_byte of
        (e, off, rest) \<Rightarrow>
          if e \<noteq> FSD_SUCCESS then (e, st)
          else
            let offset = (if first_byte AND 0x1 \<noteq> 0 then - off else off) in
            for_loop 0 count (\<lambda>i st.
              let src_block = s64 (s64 (int (u64 (ps_dest_block st + i))) + offset) in
              if src_block < 0 then (FSD_ERR_CORRUPT_DATA, st)
              else copy_block block_size src_size (u64 (nat src_block * block_size)) st)
              (st\<lparr>ps_op := rest\<rparr>))"

definition op_fill :: "byte \<Rightarrow> nat \<Rightarrow> nat \<Rightarrow> patch_state action" where
  "op_fill v block_size count =
     for_loop 0 count (\<lambda>i. write_block block_size (replicate block_size v))"

definition op_literal :: "nat \<Rightarrow> nat \<Rightarrow> patch_state action" where
  "op_literal block_size count =
     for_loop 0 count (\<lambda>i st.
       if length (ps_lit st) < block_size then (FSD_ERR_TRUNCATED, st)
       else case consume block_size (ps_lit st) id of (e, data, lit_ptr) \<Rightarrow>
         if e \<noteq> FSD_SUCCESS then (e, st)
         else seqE (write_block block_size data) (\<lambda>st. (FSD_SUCCESS, st\<lparr>ps_lit := lit_ptr\<rparr>)) st)"

text \<open>The diff of block \<^verbatim>\<open>blk\<close> added to the source bytes; \<^verbatim>\<open>region\<close> is the operation's diff data.\<close>

definition apply_dense :: "nat \<Rightarrow> bytes \<Rightarrow> nat \<Rightarrow> bytes \<Rightarrow> fsd_error \<times> bytes" where
  "apply_dense block_size region blk buf =
     (let blk_offset = u64 (blk * block_size) in
      if length region < blk_offset \<or> length region - blk_offset < block_size
      then (FSD_ERR_TRUNCATED, buf)
      else case consume block_size (drop blk_offset region) id of
        (e, diff, _) \<Rightarrow>
          if e \<noteq> FSD_SUCCESS \<or> length buf < block_size then (UB_FAULT, buf)
          else (FSD_SUCCESS, map2 (+) (take block_size buf) diff @ drop block_size buf))"

definition copy_add_block ::
  "nat \<Rightarrow> nat \<Rightarrow> int \<Rightarrow> bool \<Rightarrow> bytes \<Rightarrow> nat \<Rightarrow> (patch_state \<times> bytes) action" where
  "copy_add_block block_size src_size byte_offset sparse region blk = (\<lambda>(st, cursor).
     let src_byte_pos = s64 (s64 (int (u64 (u64 (ps_dest_block st + blk) * block_size))) + byte_offset) in
     if src_byte_pos < 0 then (FSD_ERR_CORRUPT_DATA, (st, cursor))
     else
       case read_block block_size src_size (nat src_byte_pos) st of (e, buf, st') \<Rightarrow>
       if e \<noteq> FSD_SUCCESS then (e, (st', cursor))
       else
         case (if sparse then sparse_loop block_size cursor buf 0
               else case apply_dense block_size region blk buf of (e, b) \<Rightarrow> (e, b, cursor)) of
           (e2, buf2, cursor') \<Rightarrow>
             if e2 \<noteq> FSD_SUCCESS then (e2, (st', cursor'))
             else case write_block block_size buf2 st' of (e3, st'') \<Rightarrow> (e3, (st'', cursor')))"

definition bump :: "bool \<Rightarrow> nat \<Rightarrow> nat \<Rightarrow> patch_state action" where
  "bump progress_cb dest_blocks count st =
     (let d = u64 (ps_dest_block st + count) in
      (FSD_SUCCESS, st\<lparr>ps_dest_block := d,
         ps_progress := (if progress_cb then ps_progress st @ [(d, dest_blocks)] else ps_progress st)\<rparr>))"

definition op_copy_add :: "nat \<Rightarrow> nat \<Rightarrow> nat \<Rightarrow> byte \<Rightarrow> patch_state \<Rightarrow> fsd_error \<times> nat \<times> patch_state" where
  "op_copy_add block_size src_size dest_blocks first_byte st =
     (if count_enc_bits first_byte = 3 then (FSD_ERR_CORRUPT_DATA, 0, st)
      else case read_byte_offset (ps_op st) first_byte of (e, byte_offset, p1) \<Rightarrow>
      if e \<noteq> FSD_SUCCESS then (e, 0, st)
      else case read_count p1 first_byte of (e, count, p2) \<Rightarrow>
      if e \<noteq> FSD_SUCCESS then (e, 0, st)
      else if dest_blocks - ps_dest_block st < count then (FSD_ERR_CORRUPT_DATA, 0, st)
      else if length p2 < 4 then (FSD_ERR_TRUNCATED, 0, st)
      else case consume 4 p2 (\<lambda>p. unat (le_u32 p)) of (e, diff_len, p3) \<Rightarrow>
      if e \<noteq> FSD_SUCCESS then (e, 0, st)
      else if length (ps_diff st) < diff_len then (FSD_ERR_TRUNCATED, 0, st)
      else case consume diff_len (ps_diff st) id of (e, region, diff_ptr) \<Rightarrow>
      if e \<noteq> FSD_SUCCESS then (e, 0, st)
      else
        case for_loop 0 count
               (copy_add_block block_size src_size byte_offset (first_byte AND 0x1 \<noteq> 0) region)
               (st\<lparr>ps_op := p3, ps_diff := diff_ptr\<rparr>, region) of
          (e, (st', cursor)) \<Rightarrow> (e, count, st'))"

definition patch_step :: "bool \<Rightarrow> nat \<Rightarrow> nat \<Rightarrow> nat \<Rightarrow> patch_state action" where
  "patch_step progress_cb block_size src_size dest_blocks st =
     (case ps_op st of
        [] \<Rightarrow> (UB_FAULT, st)
      | first_byte # rest \<Rightarrow>
          let op_type = drop_bit 5 first_byte AND 0x7; st = st\<lparr>ps_op := rest\<rparr> in
          if op_type = FSD_OP_COPY_ADD then
            (case op_copy_add block_size src_size dest_blocks first_byte st of
               (e, count, st') \<Rightarrow>
                 if e \<noteq> FSD_SUCCESS then (e, st') else bump progress_cb dest_blocks count st')
          else
            (case read_count rest first_byte of
               (e, count, p) \<Rightarrow>
                 if e \<noteq> FSD_SUCCESS then (e, st)
                 else if dest_blocks - ps_dest_block st < count then (FSD_ERR_CORRUPT_DATA, st)
                 else
                   seqE
                     (if op_type = FSD_OP_COPY_IDENTITY then op_identity block_size src_size count
                      else if op_type = FSD_OP_COPY_RELOCATE
                      then op_relocate block_size src_size count first_byte
                      else if op_type = FSD_OP_ZERO then op_fill 0 block_size count
                      else if op_type = FSD_OP_ONE then op_fill 0xFF block_size count
                      else if op_type = FSD_OP_LITERAL then op_literal block_size count
                      else failE FSD_ERR_BAD_OPERATION)
                     (bump progress_cb dest_blocks count) (st\<lparr>ps_op := p\<rparr>)))"

section \<open>The handlers leave the operation pointer alone\<close>

lemma write_block_op [simp]: "ps_op (snd (write_block bs b st)) = ps_op st"
  by (simp add: write_block_def split: prod.splits)

lemma read_block_op: "read_block bs ss off st = (e, d, st') \<Longrightarrow> ps_op st' = ps_op st"
  by (auto simp: read_block_def split: if_splits prod.splits)

lemma copy_block_op [simp]: "ps_op (snd (copy_block bs ss off st)) = ps_op st"
  by (auto simp: copy_block_def read_block_op split: prod.splits)

lemma seqE_op: "ps_op (snd (f st)) = p \<Longrightarrow> (\<And>st. ps_op (snd (g st)) = ps_op st) \<Longrightarrow>
    ps_op (snd (seqE f g st)) = p"
  by (simp add: seqE_def split: prod.splits) (metis snd_conv)

lemma op_identity_op [simp]: "ps_op (snd (op_identity bs ss n st)) = ps_op st"
  unfolding op_identity_def by (rule for_loop_invariant[where P = "\<lambda>s. ps_op s = ps_op st"]) auto

lemma op_fill_op [simp]: "ps_op (snd (op_fill v bs n st)) = ps_op st"
  unfolding op_fill_def by (rule for_loop_invariant[where P = "\<lambda>s. ps_op s = ps_op st"]) auto

lemma op_literal_op [simp]: "ps_op (snd (op_literal bs n st)) = ps_op st"
  unfolding op_literal_def
  by (rule for_loop_invariant[where P = "\<lambda>s. ps_op s = ps_op st"]) 
     (auto simp: consume_def intro!: seqE_op)

lemma read_count_shorter: "read_count p fb = (e, n, p') \<Longrightarrow> length p' \<le> length p"
  by (auto simp: read_count_def consume_def Let_def split: if_splits)

lemma read_reloc_offset_shorter: "read_reloc_offset p fb = (e, n, p') \<Longrightarrow> length p' \<le> length p"
  by (auto simp: read_reloc_offset_def consume_def Let_def split: if_splits)

lemma read_byte_offset_shorter: "read_byte_offset p fb = (e, n, p') \<Longrightarrow> length p' \<le> length p"
  by (auto simp: read_byte_offset_def consume_def Let_def split: if_splits)

lemma op_relocate_op: "length (ps_op (snd (op_relocate bs ss n fb st))) \<le> length (ps_op st)"
proof -
  obtain e off rest where r: "read_reloc_offset (ps_op st) fb = (e, off, rest)" by (metis prod_cases3)
  define body where "body = (\<lambda>i st. let src_block = s64 (s64 (int (u64 (ps_dest_block st + i))) +
      (if fb AND 0x1 \<noteq> 0 then - off else off)) in
      if src_block < 0 then (FSD_ERR_CORRUPT_DATA, st)
      else copy_block bs ss (u64 (nat src_block * bs)) st)"
  have "ps_op (snd (for_loop 0 n body (st\<lparr>ps_op := rest\<rparr>))) = rest"
    by (rule for_loop_invariant[where P = "\<lambda>s. ps_op s = rest"]) (auto simp: body_def Let_def)
  then show ?thesis
    using r read_reloc_offset_shorter[OF r] by (simp add: op_relocate_def Let_def body_def)
qed

lemma copy_add_block_op [simp]:
  "ps_op (fst (snd (copy_add_block bs ss off sp region blk (st, c)))) = ps_op st"
  using write_block_op[of bs]
  by (auto simp: copy_add_block_def Let_def read_block_op simp del: write_block_op
      split: prod.splits if_splits) (metis snd_conv read_block_op)+

lemma op_copy_add_op:
  assumes "op_copy_add bs ss db fb st = (e, n, st')"
  shows "length (ps_op st') \<le> length (ps_op st)"
proof -
  have loop: "ps_op (fst x) = ps_op s" if
    "for_loop 0 k (copy_add_block bs ss off sp region) (s, c) = (e', x)" for k off sp region s c e' x
    using for_loop_invariant[where P = "\<lambda>x. ps_op (fst x) = ps_op s" and s = "(s, c)" and i = 0
        and n = k and body = "copy_add_block bs ss off sp region"] that
    by (metis copy_add_block_op fst_conv snd_conv surj_pair)
  show ?thesis
    using assms by (auto simp: op_copy_add_def consume_def Let_def split: if_splits prod.splits
        dest!: read_byte_offset_shorter read_count_shorter loop)
qed

section \<open>The main loop\<close>

lemma bump_op [simp]: "ps_op (snd (bump cb db n st)) = ps_op st"
  by (simp add: bump_def Let_def)

lemma patch_step_shorter:
  assumes "ps_op st \<noteq> []" and "patch_step cb bs ss db st = (e, st')"
  shows "length (ps_op st') < length (ps_op st)"
proof -
  obtain fb rest where p: "ps_op st = fb # rest" using assms(1) by (cases "ps_op st") auto
  have seq: "length (ps_op (snd (seqE f (bump cb db n) s))) \<le> k"
    if "length (ps_op (snd (f s))) \<le> k" for f n s k
    using that by (simp add: seqE_def split: prod.splits) (metis bump_op snd_conv)
  show ?thesis
  proof (cases "drop_bit 5 fb AND 7 = FSD_OP_COPY_ADD")
    case True
    obtain e1 n st1 where c: "op_copy_add bs ss db fb (st\<lparr>ps_op := rest\<rparr>) = (e1, n, st1)"
      by (metis prod_cases3)
    have "ps_op st' = ps_op st1"
      using assms(2) True p c by (auto simp: patch_step_def Let_def bump_def split: if_splits)
    then show ?thesis using op_copy_add_op[OF c] p by simp
  next
    case False
    obtain e1 n q where c: "read_count rest fb = (e1, n, q)" by (metis prod_cases3)
    have q: "length q \<le> length rest" using read_count_shorter[OF c] .
    let ?f = "if drop_bit 5 fb AND 7 = FSD_OP_COPY_IDENTITY then op_identity bs ss n
        else if drop_bit 5 fb AND 7 = FSD_OP_COPY_RELOCATE then op_relocate bs ss n fb
        else if drop_bit 5 fb AND 7 = FSD_OP_ZERO then op_fill 0 bs n
        else if drop_bit 5 fb AND 7 = FSD_OP_ONE then op_fill 0xFF bs n
        else if drop_bit 5 fb AND 7 = FSD_OP_LITERAL then op_literal bs n
        else failE FSD_ERR_BAD_OPERATION"
    have "length (ps_op (snd (?f (st\<lparr>ps_op := q\<rparr>)))) \<le> length rest"
      using q op_relocate_op[of bs ss n fb "st\<lparr>ps_op := q\<rparr>"] by (simp add: failE_def)
    then have "length (ps_op (snd (seqE ?f (bump cb db n) (st\<lparr>ps_op := q\<rparr>)))) \<le> length rest"
      by (rule seq)
    then show ?thesis
      using assms(2) False p c by (auto simp: patch_step_def Let_def split: if_splits)
  qed
qed

function patch_loop :: "bool \<Rightarrow> nat \<Rightarrow> nat \<Rightarrow> nat \<Rightarrow> patch_state action" where
  "patch_loop progress_cb block_size src_size dest_blocks st =
     (if ps_dest_block st < dest_blocks \<and> ps_op st \<noteq> [] then
        case patch_step progress_cb block_size src_size dest_blocks st of
          (err, st') \<Rightarrow>
            if err \<noteq> FSD_SUCCESS then (err, st')
            else patch_loop progress_cb block_size src_size dest_blocks st'
      else if ps_dest_block st \<noteq> dest_blocks then (FSD_ERR_TRUNCATED, st)
      else (FSD_SUCCESS, st))"
  by pat_completeness auto
termination
  by (relation "measure (\<lambda>(cb, bs, ss, db, st). length (ps_op st))")
     (auto dest: patch_step_shorter[OF _ sym])

declare patch_loop.simps [simp del]

section \<open>The whole application\<close>

text \<open>What the call is given: the paths, the answers of the system, the context's options.\<close>

record patch_env =
  pe_source_mode :: fsd_source_mode
  pe_progress_cb :: bool
  pe_src :: os_path
  pe_patch :: os_path
  pe_out_stat :: "errno option"
  pe_out_kind :: file_kind
  pe_fopen :: "FILE option"
  pe_malloc_ok :: "nat \<Rightarrow> bool"

text \<open>
  The outcome: the error code, the output file (\<^verbatim>\<open>None\<close> when it was never opened or has been
  unlinked) and the calls of the progress callback.
\<close>

record patch_outcome =
  po_error :: fsd_error
  po_output :: "FILE option"
  po_progress :: "(nat \<times> nat) list"

definition fsd_path_is_regular_or_missing :: "errno option \<Rightarrow> file_kind \<Rightarrow> bool" where
  "fsd_path_is_regular_or_missing st kind =
     (case st of Some e \<Rightarrow> e = ENOENT | None \<Rightarrow> kind = S_IFREG)"

definition patch_failed :: "fsd_error \<Rightarrow> patch_outcome" where
  "patch_failed e = \<lparr>po_error = e, po_output = None, po_progress = []\<rparr>"

definition check_header_sizes :: "fsd_header \<Rightarrow> nat \<Rightarrow> fsd_error" where
  "check_header_sizes h patch_size =
     (let block_size = 2 ^ unat (h_block_size_log2 h);
          op_len = unat (h_op_stream_len h); diff_len = unat (h_diff_stream_len h)
      in if INT64_MAX div block_size < unat (h_dest_blocks h) then FSD_ERR_CORRUPT_DATA
         else if patch_size < FSD_HEADER_SIZE then FSD_ERR_TRUNCATED
         else if patch_size - FSD_HEADER_SIZE < op_len then FSD_ERR_CORRUPT_DATA
         else if patch_size - FSD_HEADER_SIZE - op_len < diff_len then FSD_ERR_CORRUPT_DATA
         else FSD_SUCCESS)"

text \<open>
  The stream pointers of the patch: the operations, the diffs and the literals follow the
  header. Forming a pointer past the end of the mapping is a fault.
\<close>

definition locate_streams :: "fsd_header \<Rightarrow> bytes \<Rightarrow> fsd_error" where
  "locate_streams h patch_data =
     (if length patch_data < FSD_HEADER_SIZE + unat (h_op_stream_len h) + unat (h_diff_stream_len h)
      then UB_FAULT else FSD_SUCCESS)"

definition start_state :: "fsd_header \<Rightarrow> bytes \<Rightarrow> source_reader \<Rightarrow> FILE \<Rightarrow> patch_state" where
  "start_state h patch_data reader output =
     (let op_len = unat (h_op_stream_len h); diff_len = unat (h_diff_stream_len h)
      in \<lparr>ps_op = bytes_at FSD_HEADER_SIZE op_len patch_data,
          ps_diff = bytes_at (FSD_HEADER_SIZE + op_len) diff_len patch_data,
          ps_lit = drop (FSD_HEADER_SIZE + op_len + diff_len) patch_data,
          ps_dest_block = 0, ps_reader = reader, ps_output = output, ps_progress = []\<rparr>)"

definition fsd_patch_apply :: "patch_env \<Rightarrow> patch_outcome" where
  "fsd_patch_apply env =
     (case fsd_source_reader_open (pe_src env) (pe_source_mode env) of
        Inl e \<Rightarrow> patch_failed e
      | Inr src_reader \<Rightarrow>
     (case fsd_mmap_open (pe_patch env) of
        Inl e \<Rightarrow> patch_failed e
      | Inr patch_reader \<Rightarrow>
     (let patch_data = (case fsd_mmap_data patch_reader of Some d \<Rightarrow> d | None \<Rightarrow> []);
          patch_size = fsd_mmap_size patch_reader;
          src_size = fsd_source_reader_size src_reader
      in case fsd_header_read_memory patch_data of
        Inl e \<Rightarrow> patch_failed e
      | Inr h \<Rightarrow>
      let block_size = 2 ^ unat (h_block_size_log2 h); dest_blocks = unat (h_dest_blocks h) in
      if check_header_sizes h patch_size \<noteq> FSD_SUCCESS
      then patch_failed (check_header_sizes h patch_size)
      else if locate_streams h patch_data \<noteq> FSD_SUCCESS
      then patch_failed (locate_streams h patch_data)
      else
        let may_unlink_on_error = fsd_path_is_regular_or_missing (pe_out_stat env) (pe_out_kind env)
        in case pe_fopen env of
          None \<Rightarrow> patch_failed FSD_ERR_IO
        | Some output \<Rightarrow>
            if \<not> pe_malloc_ok env block_size
            then \<lparr>po_error = FSD_ERR_OUT_OF_MEMORY, po_output = Some output, po_progress = []\<rparr>
            else
              case patch_loop (pe_progress_cb env) block_size src_size dest_blocks
                     (start_state h patch_data src_reader output) of
                (err, st) \<Rightarrow>
                  \<lparr>po_error = err,
                   po_output = (if err \<noteq> FSD_SUCCESS \<and> may_unlink_on_error then None
                                else Some (ps_output st)),
                   po_progress = ps_progress st\<rparr>)))"

text \<open>\<^verbatim>\<open>file\<close> is what \<^verbatim>\<open>fopen(patch_path, "rb")\<close> returned.\<close>

definition fsd_patch_read_header :: "FILE option \<Rightarrow> fsd_error + fsd_header" where
  "fsd_patch_read_header file =
     (case file of None \<Rightarrow> Inl FSD_ERR_FILE_NOT_FOUND | Some f \<Rightarrow> fst (fsd_header_read (Some f)))"

definition fsd_patch_output_size :: "FILE option \<Rightarrow> fsd_error + nat" where
  "fsd_patch_output_size file =
     (case fsd_patch_read_header file of
        Inl e \<Rightarrow> Inl e
      | Inr h \<Rightarrow>
          let block_size = 2 ^ unat (h_block_size_log2 h) in
          if UINT64_MAX div block_size < unat (h_dest_blocks h) then Inl FSD_ERR_CORRUPT_DATA
          else Inr (unat (h_dest_blocks h) * block_size))"

section \<open>Safety of the handlers\<close>

text \<open>
  \<^verbatim>\<open>appended c n st st'\<close>: from \<^verbatim>\<open>st\<close> to \<^verbatim>\<open>st'\<close> exactly \<^verbatim>\<open>n\<close> bytes were appended to the output;
  the source is still readable with contents \<^verbatim>\<open>c\<close>, position and progress did not move.
\<close>

definition appended :: "bytes \<Rightarrow> nat \<Rightarrow> patch_state \<Rightarrow> patch_state \<Rightarrow> bool" where
  "appended c n st st' \<longleftrightarrow> source_ok (ps_reader st') \<and> source_content (ps_reader st') = c \<and>
     ps_dest_block st' = ps_dest_block st \<and> ps_progress st' = ps_progress st \<and>
     (\<exists>d. length d = n \<and> ps_output st' = fappend d (ps_output st))"

definition decode_errors :: "fsd_error set" where
  "decode_errors = {FSD_ERR_IO, FSD_ERR_CORRUPT_DATA, FSD_ERR_TRUNCATED, FSD_ERR_BAD_OPERATION}"

definition readable :: "bytes \<Rightarrow> patch_state \<Rightarrow> bool" where
  "readable c st \<longleftrightarrow> source_ok (ps_reader st) \<and> source_content (ps_reader st) = c"

lemma appended_0: "readable c st \<Longrightarrow> appended c 0 st st"
  by (simp add: appended_def readable_def)

lemma appended_readable: "appended c n st st' \<Longrightarrow> readable c st'"
  by (simp add: appended_def readable_def)

lemma appended_trans: "appended c m a b \<Longrightarrow> appended c n b d \<Longrightarrow> appended c (m + n) a d"
  by (auto simp: appended_def) (metis length_append fappend_append)

lemma appended_move: "appended c n (st\<lparr>ps_op := p, ps_diff := q\<rparr>) st' \<longleftrightarrow> appended c n st st'"
    "appended c n (st\<lparr>ps_op := p\<rparr>) st' \<longleftrightarrow> appended c n st st'"
  by (simp_all add: appended_def)

lemma write_block_safe:
  assumes "readable c st" and "length buf = bs" and "write_block bs buf st = (e, st')"
  shows "(e = FSD_SUCCESS \<longrightarrow> appended c bs st st' \<and> ps_lit st' = ps_lit st) \<and>
    (e \<noteq> FSD_SUCCESS \<longrightarrow> e \<in> decode_errors)"
  using assms by (auto simp: write_block_def appended_def readable_def decode_errors_def
      split: prod.splits if_splits dest!: fwrite_complete)

lemma read_block_safe:
  assumes "readable c st" and "read_block bs ss off st = (e, d, st')"
  shows "(e = FSD_SUCCESS \<longrightarrow> appended c 0 st st' \<and> d = bytes_at off bs c \<and> (0 < bs \<longrightarrow> length d = bs)) \<and>
    (e \<noteq> FSD_SUCCESS \<longrightarrow> e \<in> decode_errors)"
proof (cases "ss < u64 (off + bs)")
  case True
  with assms(2) show ?thesis by (auto simp: read_block_def decode_errors_def)
next
  case False
  obtain r where r: "fsd_source_reader_read_at off bs (ps_reader st) = (e, d, r)"
      "st' = st\<lparr>ps_reader := r\<rparr>"
    using assms(2) False by (auto simp: read_block_def split: prod.splits)
  have ok: "source_ok (ps_reader st)" "source_content (ps_reader st) = c"
    using assms(1) by (simp_all add: readable_def)
  have "e \<in> {FSD_SUCCESS, FSD_ERR_IO, FSD_ERR_TRUNCATED}"
    using src.read_at_errors[OF ok(1), of off bs] r(1) by simp
  moreover have "source_ok r \<and> source_content r = c" using src.read_at_keeps[OF ok(1) r(1)] ok(2) by simp
  moreover have "d = bytes_at off bs c \<and> (0 < bs \<longrightarrow> off + bs \<le> length c)" if "e = FSD_SUCCESS"
    using src.read_at_exact[OF ok(1)] r(1) that ok(2) by blast
  ultimately show ?thesis
    using r(2) by (auto simp: appended_def decode_errors_def intro!: exI[of _ "[]"])
qed

lemma copy_block_safe:
  assumes "readable c st" and "0 < bs" and "copy_block bs ss off st = (e, st')"
  shows "(e = FSD_SUCCESS \<longrightarrow> appended c bs st st') \<and> (e \<noteq> FSD_SUCCESS \<longrightarrow> e \<in> decode_errors)"
proof -
  obtain e1 d st1 where r: "read_block bs ss off st = (e1, d, st1)" by (metis prod_cases3)
  note R = read_block_safe[OF assms(1) r]
  show ?thesis
  proof (cases "e1 = FSD_SUCCESS")
    case True
    then have "write_block bs d st1 = (e, st')" using assms(3) r by (simp add: copy_block_def)
    moreover have ap: "appended c 0 st st1" "length d = bs" using R True assms(2) by auto
    ultimately have "(e = FSD_SUCCESS \<longrightarrow> appended c bs st1 st') \<and> (e \<noteq> FSD_SUCCESS \<longrightarrow> e \<in> decode_errors)"
      using write_block_safe[OF appended_readable[OF ap(1)] ap(2)] by blast
    then show ?thesis using appended_trans[OF ap(1), of bs st'] by simp
  next
    case False
    with R r assms(3) show ?thesis by (auto simp: copy_block_def)
  qed
qed

text \<open>A loop that appends one block per iteration.\<close>

lemma block_loop_safe:
  assumes "readable c st" and "for_loop 0 n body st = (e, st')"
    and "\<And>j t e t'. j < n \<Longrightarrow> readable c t \<Longrightarrow> body j t = (e, t') \<Longrightarrow>
      (e = FSD_SUCCESS \<longrightarrow> appended c bs t t') \<and> (e \<noteq> FSD_SUCCESS \<longrightarrow> e \<in> decode_errors)"
  shows "(e = FSD_SUCCESS \<longrightarrow> appended c (n * bs) st st') \<and> (e \<noteq> FSD_SUCCESS \<longrightarrow> e \<in> decode_errors)"
proof -
  have "(e = FSD_SUCCESS \<longrightarrow> appended c ((0 + n) * bs) st st') \<and> (e \<noteq> FSD_SUCCESS \<longrightarrow> e \<in> decode_errors)"
  proof (rule for_loop_rule[where P = "\<lambda>j t. appended c (j * bs) st t" and Q = "\<lambda>e t. e \<in> decode_errors",
        OF _ assms(2)])
    show "appended c (0 * bs) st st" using appended_0[OF assms(1)] by simp
    fix j t e t'
    assume "j < 0 + n" "appended c (j * bs) st t" "body j t = (e, t')"
    with assms(3)[of j t e t'] appended_readable appended_trans[of c "j * bs" st t bs t']
    show "(e = FSD_SUCCESS \<longrightarrow> appended c (Suc j * bs) st t') \<and> (e \<noteq> FSD_SUCCESS \<longrightarrow> e \<in> decode_errors)"
      by (auto simp: add.commute)
  qed
  then show ?thesis by simp
qed

lemma op_identity_safe:
  assumes "readable c st" and "0 < bs" and "op_identity bs ss n st = (e, st')"
  shows "(e = FSD_SUCCESS \<longrightarrow> appended c (n * bs) st st') \<and> (e \<noteq> FSD_SUCCESS \<longrightarrow> e \<in> decode_errors)"
  by (rule block_loop_safe[OF assms(1) assms(3)[unfolded op_identity_def]])
     (use copy_block_safe assms(2) in blast)

lemma op_fill_safe:
  assumes "readable c st" and "op_fill v bs n st = (e, st')"
  shows "(e = FSD_SUCCESS \<longrightarrow> appended c (n * bs) st st') \<and> (e \<noteq> FSD_SUCCESS \<longrightarrow> e \<in> decode_errors)"
proof (rule block_loop_safe[OF assms(1) assms(2)[unfolded op_fill_def]], goal_cases)
  case (1 j t e t')
  then show ?case using write_block_safe[OF 1(2) _ 1(3)] by simp
qed

lemma op_relocate_safe:
  assumes "readable c st" and "0 < bs" and "op_relocate bs ss n fb st = (e, st')"
  shows "(e = FSD_SUCCESS \<longrightarrow> appended c (n * bs) st st') \<and> (e \<noteq> FSD_SUCCESS \<longrightarrow> e \<in> decode_errors)"
proof -
  obtain e1 off rest where r: "read_reloc_offset (ps_op st) fb = (e1, off, rest)" by (metis prod_cases3)
  have e1: "e1 = FSD_SUCCESS \<or> e1 \<in> decode_errors"
    using r by (auto simp: read_reloc_offset_def consume_def decode_errors_def Let_def split: if_splits)
  show ?thesis
  proof (cases "e1 = FSD_SUCCESS")
    case False
    with e1 r assms(3) show ?thesis by (auto simp: op_relocate_def)
  next
    case True
    define body where "body = (\<lambda>i st. let src_block = s64 (s64 (int (u64 (ps_dest_block st + i))) +
      (if fb AND 0x1 \<noteq> 0 then - off else off)) in
      if src_block < 0 then (FSD_ERR_CORRUPT_DATA, st)
      else copy_block bs ss (u64 (nat src_block * bs)) st)"
    have loop: "for_loop 0 n body (st\<lparr>ps_op := rest\<rparr>) = (e, st')"
      using True r assms(3) by (simp add: op_relocate_def body_def Let_def)
    have "readable c (st\<lparr>ps_op := rest\<rparr>)" using assms(1) by (simp add: readable_def)
    then have "(e = FSD_SUCCESS \<longrightarrow> appended c (n * bs) (st\<lparr>ps_op := rest\<rparr>) st') \<and>
        (e \<noteq> FSD_SUCCESS \<longrightarrow> e \<in> decode_errors)"
      using loop
    proof (rule block_loop_safe)
      fix j t e t'
      assume "readable c t" "body j t = (e, t')"
      then show "(e = FSD_SUCCESS \<longrightarrow> appended c bs t t') \<and> (e \<noteq> FSD_SUCCESS \<longrightarrow> e \<in> decode_errors)"
        using copy_block_safe[OF _ assms(2)]
        by (auto simp: body_def Let_def decode_errors_def split: if_splits)
    qed
    then show ?thesis by (simp add: appended_move)
  qed
qed

lemma op_literal_safe:
  assumes "readable c st" and "op_literal bs n st = (e, st')"
  shows "(e = FSD_SUCCESS \<longrightarrow> appended c (n * bs) st st') \<and> (e \<noteq> FSD_SUCCESS \<longrightarrow> e \<in> decode_errors)"
proof (rule block_loop_safe[OF assms(1) assms(2)[unfolded op_literal_def]], goal_cases)
  case (1 j t e t')
  show ?case
  proof (cases "length (ps_lit t) < bs")
    case True
    with 1 show ?thesis by (auto simp: decode_errors_def)
  next
    case False
    obtain e1 t1 where w: "write_block bs (take bs (ps_lit t)) t = (e1, t1)" by fastforce
    have "(e1 = FSD_SUCCESS \<longrightarrow> appended c bs t t1 \<and> ps_lit t1 = ps_lit t) \<and>
        (e1 \<noteq> FSD_SUCCESS \<longrightarrow> e1 \<in> decode_errors)"
      using write_block_safe[OF 1(2) _ w] False by simp
    with 1(3) False w show ?thesis
      by (cases "e1 = FSD_SUCCESS") (auto simp: consume_def appended_def)
  qed
qed

lemma add_bytes_safe:
  "add_bytes bs ds buf p = (e, buf', p') \<Longrightarrow> length buf = bs \<Longrightarrow> e = FSD_SUCCESS \<and> length buf' = bs"
  by (induction bs ds buf p rule: add_bytes.induct) (auto simp: put_add_def split: if_splits)

lemma read_varint_loop_errors:
  "fst (read_varint_loop v s p) \<in> {FSD_SUCCESS, FSD_ERR_TRUNCATED, FSD_ERR_CORRUPT_DATA}"
  by (induction v s p rule: read_varint_loop.induct) (auto simp: Let_def)

text \<open>
  The tenth byte of a varint is shifted by 63, so a value of 65 bits is accepted with its highest
  bit lost.
\<close>

lemma varint_overflow_accepted: "read_varint ([128, 128, 128, 128, 128, 128, 128, 128, 128, 2] @ rest) = (FSD_SUCCESS, 0, rest)"
  by (simp add: read_varint_def)

lemma read_varint_errors: "read_varint p = (e, n, q) \<Longrightarrow> e \<noteq> FSD_SUCCESS \<Longrightarrow> e \<in> decode_errors"
  using read_varint_loop_errors[of 0 0 p] by (auto simp: read_varint_def decode_errors_def)

text \<open>One iteration of the sparse loop whose first length is in bounds.\<close>

lemma sparse_loop_step:
  assumes "p < bs" and "read_varint cur = (FSD_SUCCESS, n1, c1)" and "n1 \<le> length c1"
    and "add_bytes bs (take n1 c1) buf p = (FSD_SUCCESS, b1, p1)" and "read_varint (drop n1 c1) = (e2, n2, c3)"
  shows "sparse_loop bs cur buf p =
    (if bs \<le> p1 then (FSD_SUCCESS, b1, drop n1 c1)
     else if e2 \<noteq> FSD_SUCCESS then (e2, b1, c3)
     else if bs - p1 < n2 then (FSD_ERR_CORRUPT_DATA, b1, c3)
     else if n1 = 0 \<and> n2 = 0 \<and> p1 + n2 < bs then (FSD_ERR_CORRUPT_DATA, b1, c3)
     else sparse_loop bs c3 b1 (p1 + n2))"
  using assms by (simp add: sparse_loop.simps[of bs cur buf p] consume_def)

lemma sparse_loop_safe:
  "sparse_loop bs cur buf p = (e, buf', cur') \<Longrightarrow> length buf = bs \<Longrightarrow>
   (e = FSD_SUCCESS \<longrightarrow> length buf' = bs) \<and> (e \<noteq> FSD_SUCCESS \<longrightarrow> e \<in> decode_errors)"
proof (induction bs cur buf p rule: sparse_loop.induct)
  case (1 bs cur buf p)
  show ?case
  proof (cases "p < bs")
    case False
    with "1.prems" show ?thesis by (simp add: sparse_loop.simps)
  next
    case True
    obtain e1 n1 c1 where v1: "read_varint cur = (e1, n1, c1)" by (metis prod_cases3)
    show ?thesis
    proof (cases "e1 \<noteq> FSD_SUCCESS \<or> length c1 < n1")
      case bad: True
      with "1.prems" True v1 read_varint_errors[OF v1] show ?thesis
        by (auto simp: sparse_loop.simps[of bs cur buf p] decode_errors_def split: if_splits)
    next
      case good: False
      let ?c2 = "drop n1 c1"
      obtain b1 p1 where ab: "add_bytes bs (take n1 c1) buf p = (FSD_SUCCESS, b1, p1)" and len: "length b1 = bs"
        using add_bytes_safe[OF _ "1.prems"(2)] by (metis prod_cases3)
      obtain e2 n2 c3 where v2: "read_varint ?c2 = (e2, n2, c3)" by (metis prod_cases3)
      have co: "consume n1 c1 id = (FSD_SUCCESS, take n1 c1, ?c2)" using good by (simp add: consume_def)
      have eq: "sparse_loop bs cur buf p =
          (if bs \<le> p1 then (FSD_SUCCESS, b1, ?c2)
           else if e2 \<noteq> FSD_SUCCESS then (e2, b1, c3)
           else if bs - p1 < n2 then (FSD_ERR_CORRUPT_DATA, b1, c3)
           else if n1 = 0 \<and> n2 = 0 \<and> p1 + n2 < bs then (FSD_ERR_CORRUPT_DATA, b1, c3)
           else sparse_loop bs c3 b1 (p1 + n2))"
        using good v1 by (intro sparse_loop_step[OF True _ _ ab v2]) auto
      show ?thesis
      proof (cases "bs \<le> p1 \<or> e2 \<noteq> FSD_SUCCESS \<or> bs - p1 < n2 \<or> (n1 = 0 \<and> n2 = 0 \<and> p1 + n2 < bs)")
        case True
        with "1.prems" eq len read_varint_errors[OF v2] show ?thesis
          by (auto simp: decode_errors_def split: if_splits)
      next
        case False
        have "sparse_loop bs c3 b1 (p1 + n2) = (e, buf', cur')" using "1.prems" eq False by auto
        moreover note "1.IH"[OF True v1[symmetric] refl _ _ co[symmetric] refl _ ab[symmetric] refl _ _ v2[symmetric] refl]
        ultimately show ?thesis using good False len by auto
      qed
    qed
  qed
qed

lemma copy_add_block_safe:
  assumes "readable c st" and "0 < bs"
    and "copy_add_block bs ss off sp region blk (st, cur) = (e, (st', cur'))"
  shows "(e = FSD_SUCCESS \<longrightarrow> appended c bs st st') \<and> (e \<noteq> FSD_SUCCESS \<longrightarrow> e \<in> decode_errors)"
proof -
  define pos where "pos = s64 (s64 (int (u64 (u64 (ps_dest_block st + blk) * bs))) + off)"
  obtain e1 d st1 where r: "read_block bs ss (nat pos) st = (e1, d, st1)" by (metis prod_cases3)
  note R = read_block_safe[OF assms(1) r]
  show ?thesis
  proof (cases "pos < 0 \<or> e1 \<noteq> FSD_SUCCESS")
    case True
    with assms(3) r R show ?thesis
      unfolding copy_add_block_def Let_def prod.case pos_def [symmetric]
      by (auto simp: decode_errors_def split: if_splits)
  next
    case False
    obtain e2 b2 c2 where m: "(if sp then sparse_loop bs cur d 0
        else case apply_dense bs region blk d of (e, b) \<Rightarrow> (e, b, cur)) = (e2, b2, c2)"
      by (metis prod_cases3)
    have len: "length d = bs" and ap: "appended c 0 st st1" using R False assms(2) by auto
    have M: "(e2 = FSD_SUCCESS \<longrightarrow> length b2 = bs) \<and> (e2 \<noteq> FSD_SUCCESS \<longrightarrow> e2 \<in> decode_errors)"
    proof (cases sp)
      case True
      then show ?thesis using m sparse_loop_safe[of bs cur d 0 e2 b2 c2] len by simp
    next
      case False
      then show ?thesis
        using m len by (auto simp: apply_dense_def consume_def decode_errors_def Let_def split: if_splits)
    qed
    obtain e3 st3 where w: "write_block bs b2 st1 = (e3, st3)" by fastforce
    have eq: "(e, (st', cur')) = (if e2 \<noteq> FSD_SUCCESS then (e2, (st1, c2)) else (e3, (st3, c2)))"
      using assms(3) r False m w
      unfolding copy_add_block_def Let_def prod.case pos_def [symmetric] by (auto split: if_splits)
    show ?thesis
    proof (cases "e2 = FSD_SUCCESS")
      case True
      have "(e3 = FSD_SUCCESS \<longrightarrow> appended c bs st1 st3) \<and> (e3 \<noteq> FSD_SUCCESS \<longrightarrow> e3 \<in> decode_errors)"
        using write_block_safe[OF appended_readable[OF ap] _ w] M True by simp
      then show ?thesis using eq True appended_trans[OF ap, of bs st3] by simp
    next
      case bad: False
      then show ?thesis using eq M by simp
    qed
  qed
qed

lemma op_copy_add_safe:
  assumes "readable c st" and "0 < bs" and "op_copy_add bs ss db fb st = (e, n, st')"
  shows "(e = FSD_SUCCESS \<longrightarrow> appended c (n * bs) st st' \<and> n \<le> db - ps_dest_block st) \<and>
    (e \<noteq> FSD_SUCCESS \<longrightarrow> e \<in> decode_errors)"
proof -
  obtain e1 off p1 where r1: "read_byte_offset (ps_op st) fb = (e1, off, p1)" by (metis prod_cases3)
  obtain e2 cnt p2 where r2: "read_count p1 fb = (e2, cnt, p2)" by (metis prod_cases3)
  have E: "e1 = FSD_SUCCESS \<or> e1 \<in> decode_errors" "e2 = FSD_SUCCESS \<or> e2 \<in> decode_errors"
    using r1 r2 by (auto simp: read_byte_offset_def read_count_def consume_def decode_errors_def Let_def
        split: if_splits)
  show ?thesis
  proof (cases "count_enc_bits fb = 3 \<or> e1 \<noteq> FSD_SUCCESS \<or> e2 \<noteq> FSD_SUCCESS \<or>
      db - ps_dest_block st < cnt \<or> length p2 < 4 \<or> length (ps_diff st) < unat (le_u32 (take 4 p2))")
    case True
    have "e \<noteq> FSD_SUCCESS \<and> e \<in> decode_errors"
      using True assms(3) r1 r2 E
      by (auto simp: op_copy_add_def consume_def decode_errors_def split: if_splits)
    then show ?thesis by simp
  next
    case False
    let ?k = "unat (le_u32 (take 4 p2))"
    let ?body = "copy_add_block bs ss off (fb AND 0x1 \<noteq> 0) (take ?k (ps_diff st))"
    let ?st = "st\<lparr>ps_op := drop 4 p2, ps_diff := drop ?k (ps_diff st)\<rparr>"
    obtain e3 st3 c3 where l: "for_loop 0 cnt ?body (?st, take ?k (ps_diff st)) = (e3, (st3, c3))"
      by (metis prod_cases3)
    have res: "e = e3" "n = cnt" "st' = st3"
      using assms(3) False r1 r2 l by (auto simp: op_copy_add_def consume_def Let_def)
    have "readable c ?st" using assms(1) by (simp add: readable_def)
    have "(e3 = FSD_SUCCESS \<longrightarrow> appended c ((0 + cnt) * bs) ?st (fst (st3, c3))) \<and>
        (e3 \<noteq> FSD_SUCCESS \<longrightarrow> e3 \<in> decode_errors)"
    proof (rule for_loop_rule[where P = "\<lambda>j x. appended c (j * bs) ?st (fst x)"
          and Q = "\<lambda>e x. e \<in> decode_errors", OF _ l])
      show "appended c (0 * bs) ?st (fst (?st, take ?k (ps_diff st)))"
        using appended_0[OF \<open>readable c ?st\<close>] by simp
      fix j x e x'
      assume P: "appended c (j * bs) ?st (fst x)" and b: "?body j x = (e, x')"
      have "(e = FSD_SUCCESS \<longrightarrow> appended c bs (fst x) (fst x')) \<and> (e \<noteq> FSD_SUCCESS \<longrightarrow> e \<in> decode_errors)"
        using copy_add_block_safe[OF appended_readable[OF P] assms(2)] b by (metis prod.collapse)
      then show "(e = FSD_SUCCESS \<longrightarrow> appended c (Suc j * bs) ?st (fst x')) \<and>
          (e \<noteq> FSD_SUCCESS \<longrightarrow> e \<in> decode_errors)"
        using appended_trans[OF P, of bs "fst x'"] by (simp add: add.commute)
    qed
    then show ?thesis using res False by (simp add: appended_move)
  qed
qed

section \<open>What the handlers leave alone\<close>

text \<open>
  A property of the decoder's state that survives moving the stream cursors, writing to the
  output and reading from the source survives every operation handler, whatever it returns.
\<close>

locale handler_frame =
  fixes K :: "patch_state \<Rightarrow> bool"
  assumes K_cursors [simp]: "K (st\<lparr>ps_op := a\<rparr>) = K st" "K (st\<lparr>ps_diff := a\<rparr>) = K st" "K (st\<lparr>ps_lit := a\<rparr>) = K st"
    and K_output [simp]: "K (st\<lparr>ps_output := f\<rparr>) = K st"
    and K_read: "K st \<Longrightarrow> fsd_source_reader_read_at off n (ps_reader st) = (e, d, q) \<Longrightarrow> K (st\<lparr>ps_reader := q\<rparr>)"
begin

lemma kept_write_block: "K st \<Longrightarrow> K (snd (write_block bs buf st))"
  by (simp add: write_block_def split_beta)

lemma kept_read_block: "K st \<Longrightarrow> K (snd (snd (read_block bs ss off st)))"
  using K_read by (auto simp: read_block_def split: prod.split)

lemma kept_copy_block: "K st \<Longrightarrow> K (snd (copy_block bs ss off st))"
  using kept_read_block[of st bs ss off] kept_write_block by (auto simp: copy_block_def split_beta)

lemma kept_seqE: "K (snd (f st)) \<Longrightarrow> (\<And>st. K st \<Longrightarrow> K (snd (g st))) \<Longrightarrow> K (snd (seqE f g st))"
  by (simp add: seqE_def split_beta)

lemma kept_loop: "K st \<Longrightarrow> (\<And>i st. K st \<Longrightarrow> K (snd (body i st))) \<Longrightarrow> K (snd (for_loop i n body st))"
  by (rule for_loop_invariant[where P = K])

lemma kept_op_identity: "K st \<Longrightarrow> K (snd (op_identity bs ss n st))"
  unfolding op_identity_def by (auto intro: kept_loop kept_copy_block)

lemma kept_op_fill: "K st \<Longrightarrow> K (snd (op_fill v bs n st))"
  unfolding op_fill_def by (auto intro: kept_loop kept_write_block)

lemma kept_op_literal: "K st \<Longrightarrow> K (snd (op_literal bs n st))"
  unfolding op_literal_def by (rule kept_loop) (auto simp: split_beta intro!: kept_seqE kept_write_block)

lemma kept_op_relocate: "K st \<Longrightarrow> K (snd (op_relocate bs ss n fb st))"
  by (auto simp: op_relocate_def split_beta Let_def intro!: kept_loop kept_copy_block)

lemma kept_copy_add_block: "K st \<Longrightarrow> K (fst (snd (copy_add_block bs ss off sp region blk (st, c))))"
  using kept_read_block kept_write_block by (simp add: copy_add_block_def Let_def split_beta)

lemma kept_op_copy_add: "K st \<Longrightarrow> K (snd (snd (op_copy_add bs ss db fb st)))"
proof -
  assume st: "K st"
  have loop: "K (fst (snd (for_loop 0 k (copy_add_block bs ss off sp region) (s, c))))" if "K s" for k off sp region s c
    by (rule for_loop_invariant[where P = "\<lambda>x. K (fst x)"]) (use that kept_copy_add_block in \<open>auto simp: split_paired_all\<close>)
  show ?thesis using st loop by (simp add: op_copy_add_def split_beta)
qed

lemmas kept_ops = kept_op_identity kept_op_fill kept_op_literal kept_op_relocate

text \<open>A step that fails leaves the property; one that succeeds ends with the new position.\<close>

lemma kept_patch_step_error:
  assumes "K st" and "patch_step cb bs ss db st = (e, st')" and "e \<noteq> FSD_SUCCESS"
  shows "K st'"
proof (cases "ps_op st")
  case (Cons fb rest)
  obtain e1 n p where c: "read_count rest fb = (e1, n, p)" by (rule prod_cases3)
  have kept: "K (snd (f (st\<lparr>ps_op := p\<rparr>)))" if "f \<in> {op_identity bs ss n, op_relocate bs ss n fb, op_fill 0 bs n,
      op_fill 0xFF bs n, op_literal bs n, failE FSD_ERR_BAD_OPERATION}" for f
    using that assms(1) by (auto simp: failE_def intro: kept_ops)
  have seq: "K st'" if "seqE f (bump cb db n) (st\<lparr>ps_op := p\<rparr>) = (e, st')" "f \<in> {op_identity bs ss n, op_relocate bs ss n fb, op_fill 0 bs n,
      op_fill 0xFF bs n, op_literal bs n, failE FSD_ERR_BAD_OPERATION}" for f
    using that(1) kept[OF that(2)] assms(3) by (auto simp: seqE_def bump_def Let_def split_beta split: if_splits)
  show ?thesis
    using Cons c assms kept_op_copy_add[of "st\<lparr>ps_op := rest\<rparr>" bs ss db fb]
    by (auto simp: patch_step_def Let_def split_beta bump_def simp del: op_codes split: if_splits intro: seq)
qed (use assms in \<open>simp add: patch_step_def\<close>)

end

text \<open>The handlers move neither the position in the output nor the progress reports.\<close>

definition same_position :: "nat \<Rightarrow> (nat \<times> nat) list \<Rightarrow> patch_state \<Rightarrow> bool" where
  "same_position k reports st \<longleftrightarrow> ps_dest_block st = k \<and> ps_progress st = reports"

interpretation position: handler_frame "same_position k reports" for k reports
  by unfold_locales (simp_all add: same_position_def)

section \<open>Safety of the loop\<close>

text \<open>
  \<^verbatim>\<open>advanced\<close>: the position moved from \<^verbatim>\<open>st\<close> to \<^verbatim>\<open>st'\<close> and as many blocks were appended;
  the progress reports are those positions.
\<close>

definition advanced :: "bool \<Rightarrow> nat \<Rightarrow> nat \<Rightarrow> bytes \<Rightarrow> patch_state \<Rightarrow> patch_state \<Rightarrow> bool" where
  "advanced cb bs db c st st' \<longleftrightarrow> readable c st' \<and> ps_dest_block st \<le> ps_dest_block st' \<and>
     ps_dest_block st' \<le> db \<and>
     (\<exists>d. length d = (ps_dest_block st' - ps_dest_block st) * bs \<and>
        ps_output st' = fappend d (ps_output st)) \<and>
     (\<exists>ps. ps_progress st' = ps_progress st @ map (\<lambda>k. (k, db)) ps \<and> sorted ps \<and>
        (\<forall>k \<in> set ps. ps_dest_block st \<le> k \<and> k \<le> ps_dest_block st') \<and>
        (\<not> cb \<longrightarrow> ps = []) \<and>
        (cb \<and> ps_dest_block st < ps_dest_block st' \<longrightarrow> ps \<noteq> [] \<and> last ps = ps_dest_block st'))"

lemma advanced_refl: "readable c st \<Longrightarrow> ps_dest_block st \<le> db \<Longrightarrow> advanced cb bs db c st st"
  unfolding advanced_def by (auto intro!: exI[of _ "[]"])

lemma advanced_trans:
  assumes "advanced cb bs db c a b" and "advanced cb bs db c b d"
  shows "advanced cb bs db c a d"
proof -
  obtain x ps where x: "length x = (ps_dest_block b - ps_dest_block a) * bs"
      "ps_output b = fappend x (ps_output a)" "ps_progress b = ps_progress a @ map (\<lambda>k. (k, db)) ps"
      "sorted ps" "\<forall>k \<in> set ps. ps_dest_block a \<le> k \<and> k \<le> ps_dest_block b"
      "cb \<and> ps_dest_block a < ps_dest_block b \<longrightarrow> ps \<noteq> [] \<and> last ps = ps_dest_block b" "\<not> cb \<longrightarrow> ps = []"
    using assms(1) unfolding advanced_def by blast
  obtain y qs where y: "length y = (ps_dest_block d - ps_dest_block b) * bs"
      "ps_output d = fappend y (ps_output b)" "ps_progress d = ps_progress b @ map (\<lambda>k. (k, db)) qs"
      "sorted qs" "\<forall>k \<in> set qs. ps_dest_block b \<le> k \<and> k \<le> ps_dest_block d"
      "cb \<and> ps_dest_block b < ps_dest_block d \<longrightarrow> qs \<noteq> [] \<and> last qs = ps_dest_block d" "\<not> cb \<longrightarrow> qs = []"
    using assms(2) unfolding advanced_def by blast
  have le: "ps_dest_block a \<le> ps_dest_block b" "ps_dest_block b \<le> ps_dest_block d"
    using assms by (auto simp: advanced_def)
  have len: "length (x @ y) = (ps_dest_block d - ps_dest_block a) * bs"
    using x(1) y(1) le by (simp add: distrib_right [symmetric])
  have out: "ps_output d = fappend (x @ y) (ps_output a)" using x(2) y(2) by simp
  have pr: "ps_progress d = ps_progress a @ map (\<lambda>k. (k, db)) (ps @ qs)" using x(3) y(3) by simp
  have srt: "sorted (ps @ qs)" using x(4,5) y(4,5) by (fastforce simp: sorted_append)
  have rng: "\<forall>k \<in> set (ps @ qs). ps_dest_block a \<le> k \<and> k \<le> ps_dest_block d"
    using x(5) y(5) le by fastforce
  have lst: "cb \<and> ps_dest_block a < ps_dest_block d \<longrightarrow>
      ps @ qs \<noteq> [] \<and> last (ps @ qs) = ps_dest_block d"
  proof (cases "qs = []")
    case True
    with y(6) le have "cb \<Longrightarrow> ps_dest_block b = ps_dest_block d" by auto
    with True x(6) show ?thesis by auto
  next
    case False
    then have "last qs \<in> set qs" by simp
    with False x(6) y(5,6) le show ?thesis by (auto simp: order_le_less)
  qed
  show ?thesis
    unfolding advanced_def
  proof (intro conjI)
    show "\<exists>z. length z = (ps_dest_block d - ps_dest_block a) * bs \<and> ps_output d = fappend z (ps_output a)"
      using len out by blast
    show "\<exists>ps. ps_progress d = ps_progress a @ map (\<lambda>k. (k, db)) ps \<and> sorted ps \<and>
        (\<forall>k \<in> set ps. ps_dest_block a \<le> k \<and> k \<le> ps_dest_block d) \<and> (\<not> cb \<longrightarrow> ps = []) \<and>
        (cb \<and> ps_dest_block a < ps_dest_block d \<longrightarrow> ps \<noteq> [] \<and> last ps = ps_dest_block d)"
      using pr srt rng lst x(7) y(7) by (intro exI[of _ "ps @ qs"]) blast
  qed (use assms(2) le in \<open>simp_all add: advanced_def\<close>)
qed

lemma bump_advanced:
  assumes "appended c (n * bs) st st1" and "n \<le> db - ps_dest_block st" and "ps_dest_block st \<le> db"
    and "db < 2 ^ 64" and "bump cb db n st1 = (e, st')"
  shows "e = FSD_SUCCESS \<and> advanced cb bs db c st st'"
proof -
  let ?d = "ps_dest_block st + n"
  have d: "?d \<le> db" using assms(2,3) by simp
  then have "u64 ?d = ?d" using assms(4) by (intro u64_id) simp
  then have st': "e = FSD_SUCCESS" "st' = st1\<lparr>ps_dest_block := ?d,
      ps_progress := (if cb then ps_progress st1 @ [(?d, db)] else ps_progress st1)\<rparr>"
    using assms(1,5) by (auto simp: bump_def appended_def Let_def)
  have "\<exists>ps. ps_progress st' = ps_progress st @ map (\<lambda>k. (k, db)) ps \<and> sorted ps \<and>
        (\<forall>k \<in> set ps. ps_dest_block st \<le> k \<and> k \<le> ps_dest_block st') \<and> (\<not> cb \<longrightarrow> ps = []) \<and>
        (cb \<and> ps_dest_block st < ps_dest_block st' \<longrightarrow> ps \<noteq> [] \<and> last ps = ps_dest_block st')"
    using assms(1) st'(2) by (intro exI[of _ "if cb then [?d] else []"]) (auto simp: appended_def)
  then show ?thesis
    using assms(1) st' d unfolding advanced_def appended_def readable_def by simp
qed

lemma patch_step_safe:
  assumes ok: "readable c st" "0 < bs" "ps_dest_block st \<le> db" "db < 2 ^ 64" and ne: "ps_op st \<noteq> []"
    and step: "patch_step cb bs ss db st = (e, st')"
  shows "(e = FSD_SUCCESS \<longrightarrow> advanced cb bs db c st st') \<and> (e \<noteq> FSD_SUCCESS \<longrightarrow> e \<in> decode_errors)"
proof -
  obtain fb rest where p: "ps_op st = fb # rest" using ne by (cases "ps_op st") auto
  have rd: "readable c (st\<lparr>ps_op := q\<rparr>)" for q using ok(1) by (simp add: readable_def)
  show ?thesis
  proof (cases "drop_bit 5 fb AND 7 = FSD_OP_COPY_ADD")
    case True
    obtain e1 n st1 where ca: "op_copy_add bs ss db fb (st\<lparr>ps_op := rest\<rparr>) = (e1, n, st1)"
      by (metis prod_cases3)
    note C = op_copy_add_safe[OF rd ok(2) ca]
    show ?thesis
    proof (cases "e1 = FSD_SUCCESS")
      case good: True
      then have "bump cb db n st1 = (e, st')" using step True p ca by (simp add: patch_step_def)
      then show ?thesis
        using bump_advanced[of c n bs st st1] C good ok by (auto simp: appended_move)
    next
      case False
      then show ?thesis using step True p ca C by (simp add: patch_step_def)
    qed
  next
    case False
    obtain e1 n q where rc: "read_count rest fb = (e1, n, q)" by (metis prod_cases3)
    have E: "e1 = FSD_SUCCESS \<or> e1 \<in> decode_errors"
      using rc by (auto simp: read_count_def consume_def decode_errors_def Let_def split: if_splits)
    define f where "f = (if drop_bit 5 fb AND 7 = FSD_OP_COPY_IDENTITY then op_identity bs ss n
        else if drop_bit 5 fb AND 7 = FSD_OP_COPY_RELOCATE then op_relocate bs ss n fb
        else if drop_bit 5 fb AND 7 = FSD_OP_ZERO then op_fill 0 bs n
        else if drop_bit 5 fb AND 7 = FSD_OP_ONE then op_fill 0xFF bs n
        else if drop_bit 5 fb AND 7 = FSD_OP_LITERAL then op_literal bs n
        else failE FSD_ERR_BAD_OPERATION)"
    show ?thesis
    proof (cases "e1 = FSD_SUCCESS \<and> n \<le> db - ps_dest_block st")
      case True
      obtain e2 st2 where f: "f (st\<lparr>ps_op := q\<rparr>) = (e2, st2)" by fastforce
      have seq: "seqE f (bump cb db n) (st\<lparr>ps_op := q\<rparr>) = (e, st')"
        using step False p rc True by (simp add: patch_step_def Let_def f_def)
      have "(e2 = FSD_SUCCESS \<longrightarrow> appended c (n * bs) (st\<lparr>ps_op := q\<rparr>) st2) \<and>
          (e2 \<noteq> FSD_SUCCESS \<longrightarrow> e2 \<in> decode_errors)"
        using f op_identity_safe[OF rd ok(2)] op_relocate_safe[OF rd ok(2)] op_fill_safe[OF rd]
          op_literal_safe[OF rd]
        unfolding f_def by (auto simp: failE_def decode_errors_def split: if_splits)
      then show ?thesis
        using bump_advanced[of c n bs st st2 db cb e st'] seq f True ok
        by (cases "e2 = FSD_SUCCESS") (auto simp: appended_move)
    next
      case bad: False
      then show ?thesis
        using step False p rc E by (auto simp: patch_step_def decode_errors_def Let_def split: if_splits)
    qed
  qed
qed

lemma patch_loop_safe:
  assumes "readable c st" "0 < bs" "ps_dest_block st \<le> db" "db < 2 ^ 64"
    and "patch_loop cb bs ss db st = (e, st')"
  shows "(e = FSD_SUCCESS \<longrightarrow> advanced cb bs db c st st' \<and> ps_dest_block st' = db) \<and>
    (e \<noteq> FSD_SUCCESS \<longrightarrow> e \<in> decode_errors)"
  using assms
proof (induction cb bs ss db st rule: patch_loop.induct)
  case (1 cb bs ss db st)
  show ?case
  proof (cases "ps_dest_block st < db \<and> ps_op st \<noteq> []")
    case False
    with "1.prems" advanced_refl[OF "1.prems"(1,3)] show ?thesis
      by (auto simp: patch_loop.simps[of cb bs ss db st] decode_errors_def split: if_splits)
  next
    case True
    obtain e1 st1 where s: "patch_step cb bs ss db st = (e1, st1)" by fastforce
    note S = patch_step_safe[OF "1.prems"(1-4) conjunct2[OF True] s]
    show ?thesis
    proof (cases "e1 = FSD_SUCCESS")
      case good: True
      have l: "patch_loop cb bs ss db st1 = (e, st')"
        using "1.prems"(5) True s good by (simp add: patch_loop.simps[of cb bs ss db st])
      have ad: "advanced cb bs db c st st1" using S good by simp
      have "(e = FSD_SUCCESS \<longrightarrow> advanced cb bs db c st1 st' \<and> ps_dest_block st' = db) \<and>
          (e \<noteq> FSD_SUCCESS \<longrightarrow> e \<in> decode_errors)"
      proof (rule "1.IH"[OF True s[symmetric] _ _ "1.prems"(2) _ "1.prems"(4) l])
        show "readable c st1" "ps_dest_block st1 \<le> db" using ad by (simp_all add: advanced_def)
      qed (use good in simp)
      then show ?thesis using advanced_trans[OF ad] by blast
    next
      case False
      then show ?thesis
        using "1.prems"(5) True s S by (simp add: patch_loop.simps[of cb bs ss db st])
    qed
  qed
qed

text \<open>Whatever the outcome, the reports are block counts in order, none above the total.\<close>

lemma patch_loop_reports:
  assumes "readable c st" "0 < bs" "ps_dest_block st \<le> db" "db < 2 ^ 64"
    and "patch_loop cb bs ss db st = (e, st')"
  shows "\<exists>ps. ps_progress st' = ps_progress st @ map (\<lambda>k. (k, db)) ps \<and> sorted ps \<and>
    (\<forall>k \<in> set ps. ps_dest_block st \<le> k \<and> k \<le> db) \<and> (\<not> cb \<longrightarrow> ps = [])"
  using assms
proof (induction cb bs ss db st rule: patch_loop.induct)
  case (1 cb bs ss db st)
  show ?case
  proof (cases "ps_dest_block st < db \<and> ps_op st \<noteq> []")
    case False
    with "1.prems" show ?thesis
      by (intro exI[of _ "[]"]) (auto simp: patch_loop.simps[of cb bs ss db st] split: if_splits)
  next
    case True
    obtain e1 st1 where s: "patch_step cb bs ss db st = (e1, st1)" by fastforce
    show ?thesis
    proof (cases "e1 = FSD_SUCCESS")
      case good: True
      have l: "patch_loop cb bs ss db st1 = (e, st')"
        using "1.prems"(5) True s good by (simp add: patch_loop.simps[of cb bs ss db st])
      have ad: "advanced cb bs db c st st1"
        using patch_step_safe[OF "1.prems"(1-4) conjunct2[OF True] s] good by simp
      then obtain ps where ps: "ps_progress st1 = ps_progress st @ map (\<lambda>k. (k, db)) ps" "sorted ps"
          "\<forall>k \<in> set ps. ps_dest_block st \<le> k \<and> k \<le> ps_dest_block st1" "\<not> cb \<longrightarrow> ps = []"
        unfolding advanced_def by blast
      have "\<exists>qs. ps_progress st' = ps_progress st1 @ map (\<lambda>k. (k, db)) qs \<and> sorted qs \<and>
          (\<forall>k \<in> set qs. ps_dest_block st1 \<le> k \<and> k \<le> db) \<and> (\<not> cb \<longrightarrow> qs = [])"
      proof (rule "1.IH"[OF True s[symmetric] _ _ "1.prems"(2) _ "1.prems"(4) l])
        show "readable c st1" "ps_dest_block st1 \<le> db" using ad by (simp_all add: advanced_def)
      qed (use good in simp)
      then obtain qs where qs: "ps_progress st' = ps_progress st1 @ map (\<lambda>k. (k, db)) qs" "sorted qs"
          "\<forall>k \<in> set qs. ps_dest_block st1 \<le> k \<and> k \<le> db" "\<not> cb \<longrightarrow> qs = []" by blast
      have "ps_dest_block st \<le> ps_dest_block st1" "ps_dest_block st1 \<le> db" using ad by (simp_all add: advanced_def)
      then show ?thesis using ps qs by (intro exI[of _ "ps @ qs"]) (fastforce simp: sorted_append)
    next
      case False
      have "same_position (ps_dest_block st) (ps_progress st) st1"
        by (rule position.kept_patch_step_error[OF _ s False]) (simp add: same_position_def)
      then show ?thesis
        using "1.prems"(5) True s False
        by (intro exI[of _ "[]"]) (simp add: patch_loop.simps[of cb bs ss db st] same_position_def)
    qed
  qed
qed

section \<open>The application as a whole\<close>

lemma header_read_errors: "fsd_header_read_memory d = Inl e \<Longrightarrow> e \<noteq> FSD_SUCCESS \<and> e \<noteq> UB_FAULT"
  by (auto simp: fsd_header_read_memory_def split: if_splits)

lemma header_read_block_size:
  "fsd_header_read_memory d = Inr h \<Longrightarrow> 5 \<le> unat (h_block_size_log2 h) \<and> unat (h_block_size_log2 h) \<le> 24"
  by (auto simp: fsd_header_read_memory_def word_less_nat_alt not_less split: if_splits)

text \<open>
  What a call does once its inputs are readable: it fails before the output is opened, it
  fails to allocate the block buffer, or it ran the main loop.
\<close>

definition ran_loop :: "patch_env \<Rightarrow> fsd_header \<Rightarrow> FILE \<Rightarrow> patch_state \<Rightarrow> bool" where
  "ran_loop env h f st \<longleftrightarrow>
     fsd_header_read_memory (p_content (pe_patch env)) = Inr h \<and>
     check_header_sizes h (length (p_content (pe_patch env))) = FSD_SUCCESS \<and>
     pe_fopen env = Some f \<and> pe_malloc_ok env (2 ^ unat (h_block_size_log2 h)) \<and>
     (\<exists>r. source_ok r \<and> source_content r = p_content (pe_src env) \<and>
        patch_loop (pe_progress_cb env) (2 ^ unat (h_block_size_log2 h)) (length (p_content (pe_src env)))
          (unat (h_dest_blocks h)) (start_state h (p_content (pe_patch env)) r f) =
        (po_error (fsd_patch_apply env), st)) \<and>
     po_output (fsd_patch_apply env) =
       (if po_error (fsd_patch_apply env) \<noteq> FSD_SUCCESS \<and>
           fsd_path_is_regular_or_missing (pe_out_stat env) (pe_out_kind env)
        then None else Some (ps_output st)) \<and>
     po_progress (fsd_patch_apply env) = ps_progress st"

lemma check_header_sizes_bound:
  assumes "check_header_sizes h n = FSD_SUCCESS"
  shows "unat (h_dest_blocks h) * 2 ^ unat (h_block_size_log2 h) < 2 ^ 63"
    and "FSD_HEADER_SIZE + unat (h_op_stream_len h) + unat (h_diff_stream_len h) \<le> n"
proof -
  have "unat (h_dest_blocks h) \<le> INT64_MAX div 2 ^ unat (h_block_size_log2 h)"
    using assms by (auto simp: check_header_sizes_def Let_def split: if_splits)
  then have "unat (h_dest_blocks h) * 2 ^ unat (h_block_size_log2 h) \<le> INT64_MAX"
    by (simp add: less_eq_div_iff_mult_less_eq)
  then show "unat (h_dest_blocks h) * 2 ^ unat (h_block_size_log2 h) < 2 ^ 63"
    by (simp add: INT64_MAX_def)
  show "FSD_HEADER_SIZE + unat (h_op_stream_len h) + unat (h_diff_stream_len h) \<le> n"
    using assms by (auto simp: check_header_sizes_def Let_def split: if_splits)
qed

text \<open>What the call does once both files are open.\<close>

lemma patch_apply_opened:
  assumes "honest_path (pe_src env)" and "honest_path (pe_patch env)"
    and r: "fsd_source_reader_open (pe_src env) (pe_source_mode env) = Inr r" and m: "fsd_mmap_open (pe_patch env) = Inr m"
  defines "pd \<equiv> p_content (pe_patch env)"
  shows "fsd_patch_apply env = (case fsd_header_read_memory pd of Inl e \<Rightarrow> patch_failed e
    | Inr h \<Rightarrow>
      if check_header_sizes h (length pd) \<noteq> FSD_SUCCESS then patch_failed (check_header_sizes h (length pd))
      else case pe_fopen env of None \<Rightarrow> patch_failed FSD_ERR_IO
        | Some f \<Rightarrow>
          if \<not> pe_malloc_ok env (2 ^ unat (h_block_size_log2 h))
          then \<lparr>po_error = FSD_ERR_OUT_OF_MEMORY, po_output = Some f, po_progress = []\<rparr>
          else case patch_loop (pe_progress_cb env) (2 ^ unat (h_block_size_log2 h))
              (length (p_content (pe_src env))) (unat (h_dest_blocks h)) (start_state h pd r f) of
            (err, st) \<Rightarrow>
              \<lparr>po_error = err, po_output = (if err \<noteq> FSD_SUCCESS \<and>
                   fsd_path_is_regular_or_missing (pe_out_stat env) (pe_out_kind env)
                 then None else Some (ps_output st)), po_progress = ps_progress st\<rparr>)"
proof -
  note R = source_open_ok[OF assms(1) r]
  have size: "fsd_source_reader_size r = length (p_content (pe_src env))" using source_size[OF R(1)] R(2) by simp
  have pd: "(case fsd_mmap_data m of Some d \<Rightarrow> d | None \<Rightarrow> []) = pd" "fsd_mmap_size m = length pd"
    using mmap_open_content[OF assms(2) m] by (simp_all add: mmap_bytes_def fsd_mmap_data_def fsd_mmap_size_def pd_def)
  have "locate_streams h pd = FSD_SUCCESS" if "check_header_sizes h (length pd) = FSD_SUCCESS" for h
    using check_header_sizes_bound(2)[OF that] by (simp add: locate_streams_def)
  then show ?thesis
    unfolding fsd_patch_apply_def r m Let_def sum.case pd size by (auto split: sum.split option.split)
qed

lemma patch_apply_cases:
  assumes "honest_path (pe_src env)" and "honest_path (pe_patch env)"
  obtains (early) e where "fsd_patch_apply env = patch_failed e" "e \<noteq> FSD_SUCCESS" "e \<noteq> UB_FAULT"
  | (no_buffer) f where "pe_fopen env = Some f" "fsd_patch_apply env =
      \<lparr>po_error = FSD_ERR_OUT_OF_MEMORY, po_output = Some f, po_progress = []\<rparr>"
  | (ran) h f st where "ran_loop env h f st"
proof (cases "fsd_source_reader_open (pe_src env) (pe_source_mode env)")
  case (Inl e)
  then show thesis using early source_open_errors[OF Inl] by (auto simp: fsd_patch_apply_def)
next
  case r: (Inr r)
  show thesis
  proof (cases "fsd_mmap_open (pe_patch env)")
    case (Inl e)
    then show thesis using early r mmap_open_errors[OF Inl] by (auto simp: fsd_patch_apply_def)
  next
    case m: (Inr m)
    note ap = patch_apply_opened[OF assms r m]
    let ?pd = "p_content (pe_patch env)"
    have guard: "check_header_sizes h n \<noteq> UB_FAULT" for h n by (simp add: check_header_sizes_def Let_def)
    consider (header) e where "fsd_header_read_memory ?pd = Inl e"
      | (sizes) h where "fsd_header_read_memory ?pd = Inr h" "check_header_sizes h (length ?pd) \<noteq> FSD_SUCCESS"
      | (opened) h where "fsd_header_read_memory ?pd = Inr h" "check_header_sizes h (length ?pd) = FSD_SUCCESS"
      by (cases "fsd_header_read_memory ?pd") auto
    then show thesis
    proof cases
      case opened
      obtain f err st where f: "pe_fopen env = Some f" and l: "patch_loop (pe_progress_cb env) (2 ^ unat (h_block_size_log2 h))
          (length (p_content (pe_src env))) (unat (h_dest_blocks h)) (start_state h ?pd r f) = (err, st)"
        if "pe_fopen env \<noteq> None" by fastforce
      show thesis
      proof (cases "pe_fopen env = None \<or> \<not> pe_malloc_ok env (2 ^ unat (h_block_size_log2 h))")
        case True
        then show thesis using early no_buffer ap opened by (cases "pe_fopen env") auto
      next
        case False
        then have "ran_loop env h f st"
          using opened f l ap source_open_ok[OF assms(1) r] unfolding ran_loop_def by auto
        then show thesis by (rule ran)
      qed
    qed (use early ap header_read_errors guard in auto)
  qed
qed

lemma ran_loop_safe:
  assumes "ran_loop env h f st"
  shows "po_error (fsd_patch_apply env) \<noteq> UB_FAULT" and
    "po_error (fsd_patch_apply env) = FSD_SUCCESS \<Longrightarrow>
     \<exists>d. length d = unat (h_dest_blocks h) * 2 ^ unat (h_block_size_log2 h) \<and> ps_output st = fappend d f"
    and "\<exists>ps. ps_progress st = map (\<lambda>k. (k, unat (h_dest_blocks h))) ps \<and> sorted ps \<and>
      (\<forall>k \<in> set ps. k \<le> unat (h_dest_blocks h)) \<and> (\<not> pe_progress_cb env \<longrightarrow> ps = []) \<and>
      (po_error (fsd_patch_apply env) = FSD_SUCCESS \<and> pe_progress_cb env \<and> 0 < unat (h_dest_blocks h) \<longrightarrow>
        ps \<noteq> [] \<and> last ps = unat (h_dest_blocks h))"
proof -
  obtain r0 where r: "source_ok r0" "source_content r0 = p_content (pe_src env)"
      "patch_loop (pe_progress_cb env) (2 ^ unat (h_block_size_log2 h)) (length (p_content (pe_src env)))
          (unat (h_dest_blocks h)) (start_state h (p_content (pe_patch env)) r0 f) =
        (po_error (fsd_patch_apply env), st)"
    using assms by (auto simp: ran_loop_def)
  have rd: "readable (p_content (pe_src env)) (start_state h (p_content (pe_patch env)) r0 f)"
    using r(1,2) by (simp add: readable_def start_state_def Let_def)
  have db: "unat (h_dest_blocks h) < 2 ^ 64" using unsigned_less[of "h_dest_blocks h"] by simp
  note safe = patch_loop_safe[OF rd _ _ db r(3)]
  show "po_error (fsd_patch_apply env) \<noteq> UB_FAULT"
    using safe by (auto simp: decode_errors_def start_state_def Let_def)
  define st0 where "st0 = start_state h (p_content (pe_patch env)) r0 f"
  have st0: "ps_dest_block st0 = 0" "ps_progress st0 = []" "ps_output st0 = f"
    by (simp_all add: st0_def start_state_def Let_def)
  have adv: "advanced (pe_progress_cb env) (2 ^ unat (h_block_size_log2 h)) (unat (h_dest_blocks h))
       (p_content (pe_src env)) st0 st" "ps_dest_block st = unat (h_dest_blocks h)"
    if "po_error (fsd_patch_apply env) = FSD_SUCCESS"
    using safe that by (auto simp: st0_def start_state_def Let_def)
  show "\<exists>d. length d = unat (h_dest_blocks h) * 2 ^ unat (h_block_size_log2 h) \<and> ps_output st = fappend d f"
    if "po_error (fsd_patch_apply env) = FSD_SUCCESS"
    using adv[OF that] unfolding advanced_def st0 by simp
  show "\<exists>ps. ps_progress st = map (\<lambda>k. (k, unat (h_dest_blocks h))) ps \<and> sorted ps \<and>
      (\<forall>k \<in> set ps. k \<le> unat (h_dest_blocks h)) \<and> (\<not> pe_progress_cb env \<longrightarrow> ps = []) \<and>
      (po_error (fsd_patch_apply env) = FSD_SUCCESS \<and> pe_progress_cb env \<and> 0 < unat (h_dest_blocks h) \<longrightarrow>
        ps \<noteq> [] \<and> last ps = unat (h_dest_blocks h))"
  proof (cases "po_error (fsd_patch_apply env) = FSD_SUCCESS")
    case True
    show ?thesis using adv[OF True] True unfolding advanced_def st0 by auto
  next
    case False
    have "0 < (2::nat) ^ unat (h_block_size_log2 h)" by simp
    from patch_loop_reports[OF rd this _ db r(3)] False st0 show ?thesis by (auto simp: st0_def)
  qed
qed

text \<open>A call on two regular files, for the witnesses.\<close>

definition plain_env :: "bytes \<Rightarrow> bytes \<Rightarrow> patch_env" where
  "plain_env src patch = \<lparr>pe_source_mode = FSD_SOURCE_AUTO, pe_progress_cb = True, pe_src = regular_path src,
     pe_patch = regular_path patch, pe_out_stat = Some ENOENT, pe_out_kind = S_IFREG,
     pe_fopen = Some empty_file, pe_malloc_ok = (\<lambda>_. True)\<rparr>"

lemmas apply_regular_simps = fsd_patch_apply_def plain_env_def regular_path_def fsd_source_reader_open_def
  open_mmap_def fsd_mmap_open_def mmap_raw_size_def fsd_mmap_data_def fsd_mmap_size_def UINT64_MAX_def
  check_header_sizes_def INT64_MAX_def FSD_HEADER_SIZE_def locate_streams_def start_state_def Let_def bytes_at_def

text \<open>
  C3. Applying any patch to any source is memory safe and, when it succeeds, complete. No byte
  string in the patch file makes the decoder form a stream pointer past the mapping, read
  outside the patch's streams, the diff region of an operation or the source, or write outside
  the block buffer (each of these is \<^verbatim>\<open>UB_FAULT\<close> in the model), and a success means that the header
  was valid and exactly \<^verbatim>\<open>dest_blocks * block_size\<close> bytes were appended to the output file.
\<close>

theorem patch_apply_safe:
  assumes "honest_path (pe_src env)" and "honest_path (pe_patch env)"
  shows "po_error (fsd_patch_apply env) \<noteq> UB_FAULT \<and>
    (po_error (fsd_patch_apply env) = FSD_SUCCESS \<longrightarrow>
      (\<exists>h f d. fsd_header_read_memory (p_content (pe_patch env)) = Inr h \<and> pe_fopen env = Some f \<and>
        po_output (fsd_patch_apply env) = Some (fappend d f) \<and>
        length d = unat (h_dest_blocks h) * 2 ^ unat (h_block_size_log2 h)))"
  using assms
proof (cases rule: patch_apply_cases)
  case (early e)
  then show ?thesis by (simp add: patch_failed_def)
next
  case (no_buffer f)
  then show ?thesis by simp
next
  case (ran h f st)
  note S = ran_loop_safe(1,2)[OF ran]
  show ?thesis
  proof (intro conjI impI)
    show "po_error (fsd_patch_apply env) \<noteq> UB_FAULT" by (rule S(1))
    assume ok: "po_error (fsd_patch_apply env) = FSD_SUCCESS"
    then obtain d where "length d = unat (h_dest_blocks h) * 2 ^ unat (h_block_size_log2 h)"
        "ps_output st = fappend d f"
      using S(2) by blast
    then show "\<exists>h f d. fsd_header_read_memory (p_content (pe_patch env)) = Inr h \<and> pe_fopen env = Some f \<and>
        po_output (fsd_patch_apply env) = Some (fappend d f) \<and>
        length d = unat (h_dest_blocks h) * 2 ^ unat (h_block_size_log2 h)"
      using ran ok by (auto simp: ran_loop_def)
  qed
qed

theorem patch_apply_safe_witness:
  "po_error (fsd_patch_apply (plain_env [] (header_bytes 1 5 1 0 @ [0x18]))) \<noteq> UB_FAULT"
  using patch_apply_safe [of "plain_env [] (header_bytes 1 5 1 0 @ [0x18])"]
  by (simp add: plain_env_def regular_path_honest)

text \<open>
  The header and the output stream of a call that got as far as opening its output: both inputs
  were opened, the header was accepted and \<^verbatim>\<open>fopen\<close> succeeded.
\<close>

definition output_opened :: "patch_env \<Rightarrow> (fsd_header \<times> FILE) option" where
  "output_opened env =
     (case (fsd_source_reader_open (pe_src env) (pe_source_mode env), fsd_mmap_open (pe_patch env),
            fsd_header_read_memory (p_content (pe_patch env)), pe_fopen env) of
        (Inr r, Inr m, Inr h, Some f) \<Rightarrow>
          if check_header_sizes h (length (p_content (pe_patch env))) = FSD_SUCCESS then Some (h, f) else None
      | _ \<Rightarrow> None)"



text \<open>
  C36. Whatever the outcome, the calls of the progress callback report block counts that never
  decrease and never exceed the header's total, which each call is also given; without a valid
  header or without a callback there are none, and after a successful application of a
  non-empty patch the last report is the total.
\<close>

theorem patch_apply_progress:
  assumes "honest_path (pe_src env)" and "honest_path (pe_patch env)"
  shows "case fsd_header_read_memory (p_content (pe_patch env)) of
      Inl e \<Rightarrow> po_progress (fsd_patch_apply env) = []
    | Inr h \<Rightarrow> \<exists>ps. po_progress (fsd_patch_apply env) = map (\<lambda>k. (k, unat (h_dest_blocks h))) ps \<and> sorted ps \<and>
        (\<forall>k \<in> set ps. k \<le> unat (h_dest_blocks h)) \<and> (\<not> pe_progress_cb env \<longrightarrow> ps = []) \<and>
        (po_error (fsd_patch_apply env) = FSD_SUCCESS \<and> pe_progress_cb env \<and> 0 < unat (h_dest_blocks h) \<longrightarrow>
          ps \<noteq> [] \<and> last ps = unat (h_dest_blocks h))"
  using assms
proof (cases rule: patch_apply_cases)
  case (early e)
  then show ?thesis by (auto simp: patch_failed_def intro!: exI[of _ "[]"] split: sum.split)
next
  case (no_buffer f)
  then show ?thesis by (auto intro!: exI[of _ "[]"] split: sum.split)
next
  case (ran h f st)
  have "po_progress (fsd_patch_apply env) = ps_progress st"
      "fsd_header_read_memory (p_content (pe_patch env)) = Inr h"
    using ran by (simp_all add: ran_loop_def)
  then show ?thesis using ran_loop_safe(3)[OF ran] by simp
qed

theorem patch_apply_progress_witness:
  "po_progress (fsd_patch_apply (plain_env [] (header_bytes 1 5 1 0 @ [0x58]))) = [(1, 1)]"
proof -
  let ?env = "plain_env [] (header_bytes 1 5 1 0 @ [0x58])"
  have honest: "honest_path (pe_src ?env)" "honest_path (pe_patch ?env)"
    by (simp_all add: plain_env_def regular_path_honest)
  let ?st = "\<lambda>op r k f ps. \<lparr>ps_op = op, ps_diff = [], ps_lit = [], ps_dest_block = k, ps_reader = r,
      ps_output = f, ps_progress = ps\<rparr>"
  have filled: "op_fill 0 32 1 (?st [] r 0 empty_file []) =
      (FSD_SUCCESS, ?st [] r 0 (fappend (replicate 32 0) empty_file) [])" for r
    using fwrite_full[of "replicate 32 0" empty_file]
    by (simp add: op_fill_def write_block_def has_room_def empty_file_def)
  have step: "patch_step True 32 0 1 (?st [0x58] r 0 empty_file []) =
      (FSD_SUCCESS, ?st [] r 1 (fappend (replicate 32 0) empty_file) [(1, 1)])" for r
    using filled[of r]
    by (simp add: patch_step_def read_count_def count_enc_bits_def op_codes bump_def u64_def)
  have loop: "patch_loop True 32 0 1 (?st [0x58] r 0 empty_file []) =
      (FSD_SUCCESS, ?st [] r 1 (fappend (replicate 32 0) empty_file) [(1, 1)])" for r
    using step[of r] patch_loop.simps[of True 32 0 1 "?st [0x58] r 0 empty_file []"]
      patch_loop.simps[of True 32 0 1 "?st [] r 1 (fappend (replicate 32 0) empty_file) [(1, 1)]"] by simp
  have run: "po_error (fsd_patch_apply ?env) = FSD_SUCCESS" "length (po_progress (fsd_patch_apply ?env)) = 1"
    by (simp_all add: apply_regular_simps header_read_written fsd_source_reader_size_def empty_reader_def
        loop[unfolded One_nat_def])
  have hd: "fsd_header_read_memory (p_content (pe_patch ?env)) =
      Inr \<lparr>h_magic = FSD_MAGIC, h_version = FSD_VERSION, h_block_size_log2 = 5, h_reserved = 0,
         h_dest_blocks = 1, h_op_stream_len = 1, h_diff_stream_len = 0\<rparr>"
    by (simp add: plain_env_def regular_path_def header_read_written)
  obtain ps where "po_progress (fsd_patch_apply ?env) = map (\<lambda>k. (k, 1)) ps" "ps \<noteq> [] \<and> last ps = 1"
    using patch_apply_progress [OF honest] run(1) unfolding hd by (auto simp: plain_env_def)
  with run(2) show ?thesis by (cases ps) auto
qed

end
