(* ===== verification/Patch_Roundtrip.thy ===== *)
theory Patch_Roundtrip
  imports Patch_Apply Match_Soundness
begin

text \<open>
  The decoder of \<^verbatim>\<open>patch.c\<close> reads back what the encoder of \<^verbatim>\<open>operation_encoder.c\<close> wrote:
  field by field, then the sparse and dense diffs, then operation by operation, then the whole
  patch. The end result is that decoding the streams of a sound tracker yields the destination.
\<close>

section \<open>Integers\<close>

lemma bit_and_0x7F: "bit (v AND 0x7F :: 8 word) n \<longleftrightarrow> bit v n \<and> n < 7"
proof -
  have eq: "(0x7F :: 8 word) = mask 7" by (simp add: mask_eq_exp_minus_1)
  show ?thesis unfolding eq bit_and_iff bit_mask_iff by (auto dest: bit_imp_le_length)
qed

lemma or_0x80_and_0x7F: "((v AND 0x7F) OR 0x80) AND 0x7F = (v AND 0x7F :: 8 word)"
proof (rule bit_word_eqI)
  fix n assume "n < LENGTH(8)"
  have eq: "(0x80 :: 8 word) = push_bit 7 1" by simp
  have "bit (0x80 :: 8 word) n \<longleftrightarrow> n = 7"
    using \<open>n < LENGTH(8)\<close> unfolding eq bit_push_bit_iff by (auto simp: bit_1_iff)
  then show "bit (((v AND 0x7F) OR 0x80) AND 0x7F) n = bit (v AND 0x7F :: 8 word) n"
    by (auto simp: bit_and_0x7F bit_or_iff)
qed

lemma and_0x80_bit: "(v AND 0x80 :: 8 word) = 0 \<longleftrightarrow> \<not> bit v 7"
proof -
  have "(0x80 :: 8 word) = push_bit 7 1" by simp
  then show ?thesis using bit_iff_and_push_bit_not_eq_0[of v 7] by simp
qed

lemma bit_word_of_nat_iff:
  "bit (word_of_nat v :: 'a::len word) n \<longleftrightarrow> n < LENGTH('a) \<and> bit v n"
  using bit_word_of_int_iff[of "int v" n] by (simp add: bit_of_nat_iff)

lemma varint_low_bits:
  "push_bit s (ucast (of_nat v AND 0x7F :: 8 word) :: 64 word) OR push_bit (s + 7) (of_nat (drop_bit 7 v)) =
   push_bit s (of_nat v)"
proof (rule bit_word_eqI)
  fix n assume n: "n < LENGTH(64)"
  have 1: "bit (push_bit s (ucast (of_nat v AND 0x7F :: 8 word) :: 64 word)) n \<longleftrightarrow>
      s \<le> n \<and> n - s < 7 \<and> bit v (n - s)"
    using n by (auto simp: bit_push_bit_iff bit_ucast_iff bit_and_0x7F bit_word_of_nat_iff)
  have 2: "bit (push_bit (s + 7) (of_nat (drop_bit 7 v) :: 64 word)) n \<longleftrightarrow>
      s + 7 \<le> n \<and> bit v (n - s)"
    using n by (auto simp: bit_push_bit_iff bit_word_of_nat_iff bit_drop_bit_eq)
  have 3: "bit (push_bit s (of_nat v :: 64 word)) n \<longleftrightarrow> s \<le> n \<and> bit v (n - s)"
    using n by (auto simp: bit_push_bit_iff bit_word_of_nat_iff)
  show "bit (push_bit s (ucast (of_nat v AND 0x7F :: 8 word) :: 64 word) OR
      push_bit (s + 7) (of_nat (drop_bit 7 v))) n = bit (push_bit s (of_nat v :: 64 word)) n"
    unfolding bit_or_iff 1 2 3 by auto
qed

lemma read_varint_loop_encode:
  "v * 2 ^ s < 2 ^ 64 \<Longrightarrow>
   read_varint_loop a s (encode_varint v @ rest) = (FSD_SUCCESS, unat (a OR push_bit s (of_nat v)), rest)"
proof (induction v arbitrary: a s rule: encode_varint.induct)
  case (1 v)
  show ?case
  proof (cases "128 \<le> v")
    case True
    have cont: "((of_nat v AND 0x7F) OR 0x80) AND 0x80 \<noteq> (0 :: 8 word)"
    proof -
      have "bit (0x80 :: 8 word) 7" by simp
      then show ?thesis by (simp add: and_0x80_bit bit_or_iff)
    qed
    have "(2::nat) ^ (s + 7) \<le> v * 2 ^ s" using True by (simp add: power_add)
    then have "(2::nat) ^ (s + 7) < 2 ^ 64" using "1.prems" by (rule le_less_trans)
    then have s: "\<not> 64 \<le> s + 7" using power_less_imp_less_exp[of "2 :: nat" "s + 7" 64] by simp
    have fit: "drop_bit 7 v * 2 ^ (s + 7) < 2 ^ 64"
    proof -
      have "drop_bit 7 v * 2 ^ 7 \<le> v" by (simp add: drop_bit_eq_div)
      then have "drop_bit 7 v * 2 ^ 7 * 2 ^ s \<le> v * 2 ^ s" by (rule mult_le_mono1)
      then have "drop_bit 7 v * 2 ^ 7 * 2 ^ s < 2 ^ 64" using "1.prems" by (rule le_less_trans)
      then show ?thesis by (simp only: power_add ac_simps)
    qed
    have "read_varint_loop a s (encode_varint v @ rest) =
        read_varint_loop (a OR push_bit s (ucast (of_nat v AND 0x7F :: 8 word))) (s + 7)
          (encode_varint (drop_bit 7 v) @ rest)"
      using True cont s by (subst encode_varint.simps) (simp add: Let_def or_0x80_and_0x7F)
    also have "\<dots> = (FSD_SUCCESS, unat ((a OR push_bit s (ucast (of_nat v AND 0x7F :: 8 word))) OR
        push_bit (s + 7) (of_nat (drop_bit 7 v))), rest)"
      by (rule "1.IH"[OF True fit])
    finally show ?thesis using varint_low_bits[of s v] by (simp add: or.assoc)
  next
    case False
    have last: "(of_nat v AND 0x7F) AND 0x80 = (0 :: 8 word)" by (simp add: and_0x80_bit bit_and_0x7F)
    have "ucast (of_nat v AND 0x7F :: 8 word) = (of_nat v :: 64 word)"
    proof -
      have "v < 2 ^ 7" using False by simp
      then have "drop_bit 7 v = 0" by (simp add: drop_bit_eq_div)
      then show ?thesis using varint_low_bits[of 0 v] by simp
    qed
    then show ?thesis
      using False last by (subst encode_varint.simps) (simp add: Let_def and.assoc)
  qed
qed

lemma read_varint_encode:
  assumes "v < 2 ^ 64"
  shows "read_varint (encode_varint v @ rest) = (FSD_SUCCESS, v, rest)"
  using read_varint_loop_encode[of v 0 0 rest] assms by (simp add: read_varint_def)

section \<open>Counts and offsets\<close>

definition op_code :: "byte \<Rightarrow> byte" where
  "op_code fb = drop_bit 5 fb AND 0x7"

text \<open>The four fields of a first byte do not overlap.\<close>

lemma first_byte_fields:
  fixes k ce oe s :: byte
  assumes "take_bit 3 k = k" and "take_bit 2 ce = ce" and "take_bit 2 oe = oe" and "take_bit 1 s = s"
  shows "count_enc_bits (push_bit 5 k OR push_bit 3 ce OR push_bit 1 oe OR s) = ce"
    "offset_enc_bits (push_bit 5 k OR push_bit 3 ce OR push_bit 1 oe OR s) = oe"
    "(push_bit 5 k OR push_bit 3 ce OR push_bit 1 oe OR s) AND 1 = s"
    "op_code (push_bit 5 k OR push_bit 3 ce OR push_bit 1 oe OR s) = k"
proof -
  define F where "F = push_bit 5 k OR push_bit 3 ce OR push_bit 1 oe OR s"
  have bits: "bit k n \<Longrightarrow> n < 3" "bit ce n \<Longrightarrow> n < 2" "bit oe n \<Longrightarrow> n < 2" "bit s n \<Longrightarrow> n < 1" for n
    using assms bit_take_bit_iff[of 3 k n] bit_take_bit_iff[of 2 ce n] bit_take_bit_iff[of 2 oe n]
      bit_take_bit_iff[of 1 s n] by simp_all
  have F: "bit F n \<longleftrightarrow> n < 8 \<and> (5 \<le> n \<and> bit k (n - 5) \<or> 3 \<le> n \<and> bit ce (n - 3) \<or>
      1 \<le> n \<and> bit oe (n - 1) \<or> bit s n)" for n
    using bits(4)[of n] unfolding F_def bit_or_iff bit_push_bit_iff by auto
  have field: "bit (take_bit w (drop_bit i F)) n \<longleftrightarrow> n < w \<and> bit F (i + n)" for i w n
    by (simp add: bit_take_bit_iff bit_drop_bit_eq)
  have ce5: "n < 5" if "bit ce n" for n using bits(2)[OF that] by simp
  have "take_bit 2 (drop_bit 3 F) = ce"
    by (rule bit_word_eqI)
       (use bits ce5 in \<open>auto simp: field F dest: bits(1,3,4) less_2_cases\<close>)
  then show "count_enc_bits (push_bit 5 k OR push_bit 3 ce OR push_bit 1 oe OR s) = ce"
    unfolding F_def [symmetric] by (simp add: count_enc_bits_def take_bit_eq_mask mask_eq_exp_minus_1)
  have oe7: "n < 7" if "bit oe n" for n using bits(3)[OF that] by simp
  have "take_bit 2 (drop_bit 1 F) = oe"
    by (rule bit_word_eqI) (use bits oe7 in \<open>auto simp: field F dest: bits(4)\<close>)
  then show "offset_enc_bits (push_bit 5 k OR push_bit 3 ce OR push_bit 1 oe OR s) = oe"
    unfolding F_def [symmetric] by (simp add: offset_enc_bits_def take_bit_eq_mask mask_eq_exp_minus_1)
  have "bit (take_bit 1 F) n \<longleftrightarrow> bit s n" for n
    unfolding bit_take_bit_iff F using bits(4)[of n] by auto
  then have "take_bit 1 F = s" by (intro bit_word_eqI)
  then show "(push_bit 5 k OR push_bit 3 ce OR push_bit 1 oe OR s) AND 1 = s"
    unfolding F_def [symmetric] by (simp add: take_bit_eq_mask)
  have "take_bit 3 (drop_bit 5 F) = k"
    by (rule bit_word_eqI) (use bits in \<open>auto simp: field F dest: bits(2,3,4)\<close>)
  then show "op_code (push_bit 5 k OR push_bit 3 ce OR push_bit 1 oe OR s) = k"
    unfolding F_def [symmetric] by (simp add: op_code_def take_bit_eq_mask mask_eq_exp_minus_1)
qed

lemma inline_byte_fields:
  fixes k m :: byte
  assumes "take_bit 3 k = k" and "take_bit 3 m = m"
  shows "count_enc_bits (push_bit 5 k OR push_bit 3 3 OR m) = 3"
    "(push_bit 5 k OR push_bit 3 3 OR m) AND 0x7 = m"
    "op_code (push_bit 5 k OR push_bit 3 3 OR m) = k"
proof -
  define F where "F = push_bit 5 k OR push_bit 3 3 OR m"
  have bits: "bit k n \<Longrightarrow> n < 3" "bit m n \<Longrightarrow> n < 3" for n
    using assms bit_take_bit_iff[of 3 k n] bit_take_bit_iff[of 3 m n] by simp_all
  have eq3: "(3 :: byte) = mask 2" by (simp add: mask_eq_exp_minus_1)
  have three: "bit (3 :: byte) n \<longleftrightarrow> n < 2" for n
    unfolding eq3 bit_mask_iff by auto
  have F: "bit F n \<longleftrightarrow> n < 8 \<and> (5 \<le> n \<and> bit k (n - 5) \<or> 3 \<le> n \<and> n - 3 < 2 \<or> bit m n)" for n
    using bits(2)[of n] unfolding F_def bit_or_iff bit_push_bit_iff three by auto
  have field: "bit (take_bit w (drop_bit i F)) n \<longleftrightarrow> n < w \<and> bit F (i + n)" for i w n
    by (simp add: bit_take_bit_iff bit_drop_bit_eq)
  have "take_bit 2 (drop_bit 3 F) = mask 2"
    by (rule bit_word_eqI) (auto simp: field F bit_mask_iff)
  then show "count_enc_bits (push_bit 5 k OR push_bit 3 3 OR m) = 3"
    unfolding F_def [symmetric] by (simp add: count_enc_bits_def take_bit_eq_mask mask_eq_exp_minus_1)
  have "take_bit 3 F = m"
    by (rule bit_word_eqI) (auto simp: bit_take_bit_iff F dest: bits(2))
  then show "(push_bit 5 k OR push_bit 3 3 OR m) AND 0x7 = m"
    unfolding F_def [symmetric] by (simp add: take_bit_eq_mask mask_eq_exp_minus_1)
  have "take_bit 3 (drop_bit 5 F) = k"
    by (rule bit_word_eqI) (use bits in \<open>auto simp: field F dest: bits(2)\<close>)
  then show "op_code (push_bit 5 k OR push_bit 3 3 OR m) = k"
    unfolding F_def [symmetric] by (simp add: op_code_def take_bit_eq_mask mask_eq_exp_minus_1)
qed

lemma small_fields [simp]:
  "take_bit 2 (of_nat (count_enc_of n)) = (of_nat (count_enc_of n) :: byte)"
  "take_bit 2 (of_nat (reloc_offset_enc a)) = (of_nat (reloc_offset_enc a) :: byte)"
  "take_bit 2 (of_nat (partial_offset_enc off)) = (of_nat (partial_offset_enc off) :: byte)"
  by (simp_all add: count_enc_of_def reloc_offset_enc_def partial_offset_enc_def)

lemma read_count_field:
  assumes "count_enc_bits fb = of_nat (count_enc_of n)" and "0 < n" and "n < 2 ^ 32"
  shows "read_count (count_field n @ rest) fb = (FSD_SUCCESS, n, rest)"
proof -
  have 8: "n \<le> 256 \<Longrightarrow> unat (of_nat (n - 1) :: 8 word) = n - 1" by (rule unat_of_nat_less) simp
  have 16: "n \<le> 65536 \<Longrightarrow> unat (of_nat (n - 1) :: 16 word) = n - 1" by (rule unat_of_nat_less) simp
  have 32: "unat (of_nat n :: 32 word) = n" using assms(3) by (rule_tac unat_of_nat_less) simp
  have le16: "le_u16 (u16_le v) = ucast v" "le_u32 (u32_le w) = w" for v w
    using le_u16_u16_le[of v "[]"] le_u32_u32_le[of w "[]"] by simp_all
  show ?thesis
    using assms 8 16 32 le16
    by (auto simp: read_count_def count_field_def count_enc_of_def consume_def Let_def
        unsigned_ucast_eq take_bit_nat_eq_self)
qed

lemma le_u32_alone: "le_u32 (u32_le w) = w" "le_u16 (u16_le v) = ucast v"
  using le_u32_u32_le[of w "[]"] le_u16_u16_le[of v "[]"] by simp_all

text \<open>A count operation is its first byte, from which the decoder takes the code and the count.\<close>

lemma read_count_op:
  assumes "take_bit 3 k = (k :: byte)" and "0 < n" and "n < 2 ^ 32"
  obtains fb tl where "count_op_bytes (push_bit 5 k) n = fb # tl" "op_code fb = k"
    "\<And>rest. read_count (tl @ rest) fb = (FSD_SUCCESS, n, rest)"
proof (cases "n \<le> 8")
  case True
  let ?fb = "push_bit 5 k OR push_bit 3 3 OR ((of_nat n - 1) AND 0x7) :: byte"
  let ?m = "(of_nat n - 1) AND 0x7 :: byte"
  have "n \<in> {1, 2, 3, 4, 5, 6, 7, 8}" using True assms(2) by auto
  then have m: "unat ?m = n - 1 \<and> take_bit 3 ?m = ?m" by (elim insertE; simp)
  then have "op_code ?fb = k" "count_enc_bits ?fb = 3" "unat (?fb AND 0x7) + 1 = n"
    using inline_byte_fields[OF assms(1), of ?m] assms(2) by simp_all
  moreover have "count_op_bytes (push_bit 5 k) n = [?fb]" using True by (simp add: count_op_bytes_def)
  ultimately show thesis
    by (intro that[of ?fb "[]"]) (simp_all add: read_count_def)
next
  case False
  let ?fb = "push_bit 5 k OR push_bit 3 (of_nat (count_enc_of n)) OR push_bit 1 0 OR 0 :: byte"
  have "count_op_bytes (push_bit 5 k) n = ?fb # count_field n"
    using False by (simp add: count_op_bytes_def count_field_def count_enc_of_def)
  moreover have "op_code ?fb = k" "count_enc_bits ?fb = of_nat (count_enc_of n)"
    using first_byte_fields(1,4)[OF assms(1) small_fields(1)[of n], of 0 0] by simp_all
  ultimately show thesis
    using read_count_field[OF _ assms(2,3)] by (intro that) auto
qed

lemma read_reloc_offset_field:
  assumes "offset_enc_bits fb = of_nat (reloc_offset_enc a)" and "a \<le> 0xFFFFFFFF"
  shows "read_reloc_offset (reloc_offset_field a @ rest) fb = (FSD_SUCCESS, int a, rest)"
proof -
  have 8: "a \<le> 0xFF \<Longrightarrow> uint (of_nat a :: 8 word) = int a"
    by (simp add: unsigned_of_nat take_bit_nat_eq_self)
  have 16: "a \<le> 0xFFFF \<Longrightarrow> uint (of_nat a :: 16 word) = int a"
    by (simp add: unsigned_of_nat take_bit_nat_eq_self)
  have 32: "uint (of_nat a :: 32 word) = int a"
    using assms(2) by (simp add: unsigned_of_nat take_bit_nat_eq_self)
  show ?thesis
    using assms 8 16 32 le_u32_alone
    by (auto simp: read_reloc_offset_def reloc_offset_field_def reloc_offset_enc_def consume_def Let_def
        unsigned_ucast_eq take_bit_int_eq_self)
qed

lemma bit_small_negative:
  fixes off :: int
  assumes "- (2 ^ 23) \<le> off" and "off < 2 ^ 23"
  shows "bit off n \<longleftrightarrow> (if n < 23 then bit off n else off < 0)"
proof -
  have eq: "signed_take_bit 23 off = off" using assms by (rule signed_take_bit_int_eq_self)
  have "bit off n \<longleftrightarrow> bit off (min 23 n)"
    using bit_signed_take_bit_iff[of 23 off n] unfolding eq by simp
  moreover have "bit off 23 \<longleftrightarrow> off < 0" using signed_take_bit_negative_iff[of 23 off] unfolding eq by simp
  moreover have "min 23 n = 23" if "\<not> n < 23" using that by simp
  ultimately show ?thesis by (cases "n < 23") simp_all
qed

lemma bit_le_u24:
  assumes "n < 32"
  shows "bit (le_u24 (take 3 (u32_le w))) n \<longleftrightarrow> n < 24 \<and> bit w n"
  using assms by (simp add: le_u24_def u32_le_def bit_lanes numeral_3_eq_3) linarith

lemma sign_extend_24_field:
  assumes "- (2 ^ 23) \<le> off" and "off < 2 ^ 23"
  shows "sign_extend_24 (le_u24 (take 3 (u32_le (of_int off)))) = off"
proof -
  let ?raw = "le_u24 (take 3 (u32_le (of_int off)))"
  have raw: "bit ?raw n \<longleftrightarrow> n < 24 \<and> bit off n" if "n < 32" for n
    using bit_le_u24[OF that] that by (auto simp: bit_word_of_int_iff)
  have e23: "(0x800000 :: 32 word) = push_bit 23 1" by simp
  have sign: "?raw AND 0x800000 \<noteq> 0 \<longleftrightarrow> off < 0"
    using bit_iff_and_push_bit_not_eq_0[of ?raw 23] raw[of 23] bit_small_negative[OF assms, of 23]
    unfolding e23 by simp
  show ?thesis
  proof (cases "off < 0")
    case True
    have em: "(0xFFFFFFFFFF000000 :: 64 word) = push_bit 24 (mask 40)" by (simp add: mask_eq_exp_minus_1)
    have "(ucast ?raw OR 0xFFFFFFFFFF000000 :: 64 word) = of_int off"
    proof (rule bit_word_eqI)
      fix n assume n: "n < LENGTH(64)"
      have hi: "bit (0xFFFFFFFFFF000000 :: 64 word) n \<longleftrightarrow> 24 \<le> n"
        using n unfolding em bit_push_bit_iff bit_mask_iff by auto
      have lo: "bit (ucast ?raw :: 64 word) n \<longleftrightarrow> n < 24 \<and> bit off n"
        using n raw[of n] by (cases "n < 32") (auto simp: bit_ucast_iff dest: bit_imp_le_length)
      have "24 \<le> n \<Longrightarrow> bit off n" using bit_small_negative[OF assms, of n] True by simp
      then show "bit (ucast ?raw OR 0xFFFFFFFFFF000000 :: 64 word) n = bit (of_int off :: 64 word) n"
        using n unfolding bit_or_iff hi lo by (auto simp: bit_word_of_int_iff)
    qed
    then show ?thesis
      using sign True assms by (simp add: sign_extend_24_def signed_of_int signed_take_bit_int_eq_self)
  next
    case False
    have "?raw = of_int off"
    proof (rule bit_word_eqI)
      fix n assume n: "n < LENGTH(32)"
      then show "bit ?raw n = bit (of_int off :: 32 word) n"
        using raw[of n] bit_small_negative[OF assms, of n] False by (auto simp: bit_word_of_int_iff)
    qed
    moreover have "unat (of_int off :: 32 word) = nat off"
      using False assms by (simp add: unat_eq_nat_uint unsigned_of_int take_bit_int_eq_self)
    ultimately show ?thesis using sign False by (simp add: sign_extend_24_def)
  qed
qed

lemma read_byte_offset_field:
  assumes "offset_enc_bits fb = of_nat (partial_offset_enc off)" and "- (2 ^ 31) \<le> off" and "off \<le> 2 ^ 31 - 1"
  shows "read_byte_offset (partial_offset_field off @ rest) fb = (FSD_SUCCESS, off, rest)"
proof -
  have enc: "partial_offset_enc off = 0 \<and> \<bar>off\<bar> \<le> 0x7FFF \<or>
      partial_offset_enc off = 1 \<and> \<bar>off\<bar> \<le> 0x7FFFFF \<or> partial_offset_enc off = 2"
    by (simp add: partial_offset_enc_def)
  then consider "partial_offset_enc off = 0" "\<bar>off\<bar> \<le> 0x7FFF"
    | "partial_offset_enc off = 1" "\<bar>off\<bar> \<le> 0x7FFFFF" | "partial_offset_enc off = 2"
    by (elim disjE conjE) simp_all
  then show ?thesis
  proof cases
    case 1
    have "ucast (ucast (of_int off :: 16 word) :: 32 word) = (of_int off :: 16 word)"
      by (rule bit_word_eqI) (simp add: bit_ucast_iff)
    moreover have "sint (of_int off :: 16 word) = off"
      using 1(2) by (simp add: signed_of_int signed_take_bit_int_eq_self)
    ultimately show ?thesis
      using assms(1) 1 by (simp add: read_byte_offset_def partial_offset_field_def consume_def le_u32_alone)
  next
    case 2
    have "- (2 ^ 23) \<le> off" "off < 2 ^ 23" using 2(2) by auto
    then show ?thesis
      using assms(1) 2 sign_extend_24_field[of off]
      by (simp add: read_byte_offset_def partial_offset_field_def consume_def)
  next
    case 3
    have "sint (of_int off :: 32 word) = off"
      using assms(2,3) by (simp add: signed_of_int signed_take_bit_int_eq_self)
    then show ?thesis
      using assms(1) 3 by (simp add: read_byte_offset_def partial_offset_field_def consume_def le_u32_alone)
  qed
qed

section \<open>Diffs\<close>

definition add_region :: "nat \<Rightarrow> nat \<Rightarrow> bytes \<Rightarrow> bytes \<Rightarrow> bytes" where
  "add_region p q buf d = map (\<lambda>j. if p \<le> j \<and> j < q then buf ! j + d ! (j - p) else buf ! j) [0..<length buf]"

lemma add_bytes_run:
  assumes "p + length ds \<le> bs" and "length buf = bs"
  shows "add_bytes bs ds buf p = (FSD_SUCCESS, add_region p (p + length ds) buf ds, p + length ds)"
  using assms
proof (induction ds arbitrary: buf p)
  case Nil
  have "add_region p p buf [] = buf" by (rule nth_equalityI) (auto simp: add_region_def)
  then show ?case by simp
next
  case (Cons d ds)
  let ?b = "buf[p := buf ! p + d]"
  have "add_bytes bs (d # ds) buf p = (FSD_SUCCESS, add_region (p + 1) (p + 1 + length ds) ?b ds, p + 1 + length ds)"
    using Cons.prems Cons.IH[of "p + 1" ?b] by (simp add: put_add_def)
  moreover have "add_region (p + 1) (p + 1 + length ds) ?b ds = add_region p (p + length (d # ds)) buf (d # ds)"
    using Cons.prems by (intro nth_equalityI) (auto simp: add_region_def nth_list_update nth_Cons')
  ultimately show ?case by simp
qed

text \<open>The block with the diff applied from a position on.\<close>

definition patched :: "nat \<Rightarrow> bytes \<Rightarrow> bytes \<Rightarrow> bytes" where
  "patched p buf d = map (\<lambda>j. if j < p then buf ! j else buf ! j + d ! j) [0..<length buf]"

lemma patched_0: "length d = length buf \<Longrightarrow> patched 0 buf d = map2 (+) buf d"
  by (rule nth_equalityI) (auto simp: patched_def)

lemma patched_end: "length buf \<le> p \<Longrightarrow> patched p buf d = buf"
  by (rule nth_equalityI) (auto simp: patched_def)

lemma patched_add:
  assumes "q \<le> length d" and "p \<le> q"
  shows "patched q (add_region p q buf (bytes_at p (q - p) d)) d = patched p buf d"
  unfolding patched_def by (rule nth_equalityI) (use assms in \<open>auto simp: add_region_def nth_bytes_at\<close>)

lemma patched_copy:
  assumes "p \<le> q" and "\<And>j. p \<le> j \<Longrightarrow> j < q \<Longrightarrow> d ! j = 0"
  shows "patched q buf d = patched p buf d"
  unfolding patched_def by (rule map_cong) (use assms in auto)

lemma sparse_loop_block:
  assumes "length d = bs" and "length buf = bs" and "p \<le> bs" and "bs < 2 ^ 64"
  shows "sparse_loop bs (sparse_block (Some d) bs p @ rest) buf p = (FSD_SUCCESS, patched p buf d, rest)"
  using assms
proof (induction "bs - p" arbitrary: p buf rule: less_induct)
  case less
  show ?case
  proof (cases "p < bs")
    case False
    with less.prems show ?thesis by (simp add: sparse_block_end sparse_loop.simps patched_end)
  next
    case True
    let ?q = "add_run_end (Some d) bs p"
    have q: "p \<le> ?q" "?q \<le> bs" "?q < bs \<Longrightarrow> delta_zero (Some d) ?q"
      using add_run_end_spec[of p "Some d" bs] True by auto
    let ?n = "?q - p" and ?ds = "bytes_at p (?q - p) d"
    have n: "length ?ds = ?n" "?n < 2 ^ 64" "p + ?n = ?q" using q less.prems by auto
    let ?b1 = "add_region p ?q buf ?ds"
    have ab: "add_bytes bs ?ds buf p = (FSD_SUCCESS, ?b1, ?q)"
      using add_bytes_run[of p ?ds bs buf] n q less.prems(2) by simp
    have b1: "length ?b1 = bs" using less.prems by (simp add: add_region_def)
    have p1: "patched ?q ?b1 d = patched p buf d"
      using patched_add[of ?q d p buf] q less.prems by simp
    show ?thesis
    proof (cases "bs \<le> ?q")
      case last: True
      have "sparse_block (Some d) bs p @ rest = encode_varint ?n @ ?ds @ rest"
        using last True by (simp add: sparse_block_step)
      moreover obtain e2 n2 c3 where v2: "read_varint (drop ?n (?ds @ rest)) = (e2, n2, c3)"
        by (metis prod_cases3)
      ultimately have "sparse_loop bs (sparse_block (Some d) bs p @ rest) buf p = (FSD_SUCCESS, ?b1, rest)"
        using sparse_loop_step[OF True read_varint_encode[OF n(2)] _ _ v2, of buf ?b1 ?q] n(1) ab last
        by simp
      moreover have "?b1 = patched p buf d" using p1 last b1 by (simp add: patched_end)
      ultimately show ?thesis by simp
    next
      case False
      let ?c = "copy_run_end (Some d) bs ?q"
      have c: "?q < ?c" "?c \<le> bs" "\<And>j. ?q \<le> j \<Longrightarrow> j < ?c \<Longrightarrow> delta_zero (Some d) j"
        using copy_run_end_spec[of ?q "Some d" bs] q False by auto
      let ?rest = "encode_varint (?c - ?q) @ sparse_block (Some d) bs ?c @ rest"
      have stream: "sparse_block (Some d) bs p @ rest = encode_varint ?n @ ?ds @ ?rest"
        using False True by (simp add: sparse_block_step)
      have v1: "read_varint (encode_varint ?n @ ?ds @ ?rest) = (FSD_SUCCESS, ?n, ?ds @ ?rest)"
        by (rule read_varint_encode[OF n(2)])
      have v2: "read_varint (drop ?n (?ds @ ?rest)) =
          (FSD_SUCCESS, ?c - ?q, sparse_block (Some d) bs ?c @ rest)"
        using read_varint_encode[of "?c - ?q"] c less.prems(4) n(1) by simp
      have "sparse_loop bs (sparse_block (Some d) bs p @ rest) buf p =
          sparse_loop bs (sparse_block (Some d) bs ?c @ rest) ?b1 (?q + (?c - ?q))"
        using sparse_loop_step[OF True v1 _ _ v2, of buf ?b1 ?q] n(1) ab c False unfolding stream by auto
      also have "\<dots> = (FSD_SUCCESS, patched ?c ?b1 d, rest)"
        using less.hyps[of ?c ?b1] c q b1 less.prems by simp
      also have "patched ?c ?b1 d = patched p buf d"
        using patched_copy[of ?q ?c d ?b1] c p1 by (simp add: delta_zero_def)
      finally show ?thesis .
    qed
  qed
qed

lemma apply_dense_block:
  assumes "length region = n * bs" and "blk < n" and "n * bs < 2 ^ 64" and "length buf = bs"
  shows "apply_dense bs region blk buf = (FSD_SUCCESS, map2 (+) buf (bytes_at (blk * bs) bs region))"
proof -
  have "(blk + 1) * bs \<le> n * bs" using assms(2) by (intro mult_le_mono1) simp
  then have le: "blk * bs + bs \<le> n * bs" by simp
  then have "u64 (blk * bs) = blk * bs" using assms(3) by (intro u64_id) simp
  moreover have "\<not> length region < blk * bs" "\<not> length region - blk * bs < bs"
    using le assms(1) by linarith+
  ultimately show ?thesis using assms(4) by (simp add: apply_dense_def consume_def Let_def bytes_at_def)
qed

section \<open>Operations that succeed\<close>

text \<open>A reader that reads the image \<^verbatim>\<open>c\<close> and meets no I/O error.\<close>

definition reads :: "bytes \<Rightarrow> source_reader \<Rightarrow> bool" where
  "reads c r \<longleftrightarrow> source_ok r \<and> reliable r \<and> source_content r = c"

lemma write_block_ok:
  assumes "length buf = bs" and "has_room bs (ps_output st)"
  shows "write_block bs buf st = (FSD_SUCCESS, st\<lparr>ps_output := fappend buf (ps_output st)\<rparr>)"
  using fwrite_full[of buf "ps_output st"] assms by (simp add: write_block_def)

lemma read_block_ok:
  assumes "reads c (ps_reader st)" and "off + bs \<le> length c"
  obtains r where "reads c r"
    "read_block bs (length c) off st = (FSD_SUCCESS, bytes_at off bs c, st\<lparr>ps_reader := r\<rparr>)"
proof -
  have ok: "source_ok (ps_reader st)" "reliable (ps_reader st)" "source_content (ps_reader st) = c"
    using assms(1) by (simp_all add: reads_def)
  have "u64 (off + bs) = off + bs"
    using source_size_bound[OF ok(1)] assms(2) ok(3) by (intro u64_id) simp
  moreover obtain r where
    "fsd_source_reader_read_at off bs (ps_reader st) = (FSD_SUCCESS, bytes_at off bs c, r)"
    "source_ok r" "reliable r" "source_content r = c"
    using src.read_at_sound[OF ok(1,2), of off bs] assms(2) ok(3) by auto
  ultimately show thesis
    using assms(2) by (intro that[of r]) (simp_all add: read_block_def reads_def)
qed

lemma copy_block_ok:
  assumes "reads c (ps_reader st)" and "off + bs \<le> length c" and "has_room bs (ps_output st)"
  obtains r where "reads c r" "copy_block bs (length c) off st =
    (FSD_SUCCESS, st\<lparr>ps_reader := r, ps_output := fappend (bytes_at off bs c) (ps_output st)\<rparr>)"
proof -
  obtain r where r: "reads c r"
      "read_block bs (length c) off st = (FSD_SUCCESS, bytes_at off bs c, st\<lparr>ps_reader := r\<rparr>)"
    using read_block_ok[OF assms(1,2)] .
  have "length (bytes_at off bs c) = bs" using assms(2) by simp
  from write_block_ok[OF this, of "st\<lparr>ps_reader := r\<rparr>"] assms(3) r show thesis
    by (intro that[of r]) (simp_all add: copy_block_def)
qed

text \<open>A loop whose iteration \<^verbatim>\<open>j\<close> writes block \<^verbatim>\<open>i + j\<close> of the destination.\<close>

definition at_block :: "bytes \<Rightarrow> bytes \<Rightarrow> nat \<Rightarrow> nat \<Rightarrow> nat \<Rightarrow> patch_state \<Rightarrow> patch_state \<Rightarrow> bool" where
  "at_block src dest bs i j st t \<longleftrightarrow> (\<exists>r. reads src r \<and>
     t = st\<lparr>ps_reader := r, ps_output := fappend (bytes_at (i * bs) (j * bs) dest) (ps_output st)\<rparr>)"

lemma at_block_0: "reads src (ps_reader st) \<Longrightarrow> at_block src dest bs i 0 st st"
  unfolding at_block_def by (rule exI[of _ "ps_reader st"]) simp

lemma at_block_Suc:
  assumes "at_block src dest bs i j st t" and "reads src r"
  shows "at_block src dest bs i (Suc j) st
    (t\<lparr>ps_reader := r, ps_output := fappend (bytes_at ((i + j) * bs) bs dest) (ps_output t)\<rparr>)"
proof -
  have "bytes_at (i * bs) (j * bs) dest @ bytes_at ((i + j) * bs) bs dest = bytes_at (i * bs) (Suc j * bs) dest"
    using bytes_at_append[of "i * bs" "j * bs" dest bs] by (simp add: algebra_simps)
  then show ?thesis using assms unfolding at_block_def by auto
qed

lemma at_block_room:
  assumes "at_block src dest bs i j st t" and "has_room (n * bs) (ps_output st)" and "j < n"
    and "(i + n) * bs \<le> length dest"
  shows "has_room bs (ps_output t)"
proof -
  have "(j + 1) * bs \<le> n * bs" using assms(3) by (intro mult_le_mono1) simp
  then have "length (bytes_at (i * bs) (j * bs) dest) + bs \<le> n * bs" by simp
  then have "has_room (length (bytes_at (i * bs) (j * bs) dest) + bs) (ps_output st)"
    using assms(2) has_room_mono by blast
  then show ?thesis using assms(1) by (auto simp: at_block_def)
qed

lemma dest_loop:
  assumes "reads src (ps_reader st)" and "has_room (n * bs) (ps_output st)" and "(i + n) * bs \<le> length dest"
    and "\<And>j t. j < n \<Longrightarrow> reads src (ps_reader t) \<Longrightarrow> ps_dest_block t = ps_dest_block st \<Longrightarrow>
      has_room bs (ps_output t) \<Longrightarrow> \<exists>r. reads src r \<and> body j t =
        (FSD_SUCCESS, t\<lparr>ps_reader := r, ps_output := fappend (bytes_at ((i + j) * bs) bs dest) (ps_output t)\<rparr>)"
  obtains t where "for_loop 0 n body st = (FSD_SUCCESS, t)" "at_block src dest bs i n st t"
proof -
  obtain e t where l: "for_loop 0 n body st = (e, t)" by fastforce
  have "(e = FSD_SUCCESS \<longrightarrow> at_block src dest bs i (0 + n) st t) \<and> (e \<noteq> FSD_SUCCESS \<longrightarrow> False)"
  proof (rule for_loop_rule[where P = "\<lambda>j t. at_block src dest bs i j st t" and Q = "\<lambda>_ _. False", OF _ l])
    show "at_block src dest bs i 0 st st" by (rule at_block_0[OF assms(1)])
    fix j t e t'
    assume j: "j < 0 + n" and P: "at_block src dest bs i j st t" and b: "body j t = (e, t')"
    have "reads src (ps_reader t)" "ps_dest_block t = ps_dest_block st" using P by (auto simp: at_block_def)
    then obtain r where "reads src r" "body j t = (FSD_SUCCESS,
        t\<lparr>ps_reader := r, ps_output := fappend (bytes_at ((i + j) * bs) bs dest) (ps_output t)\<rparr>)"
      using assms(4)[of j t] at_block_room[OF P assms(2) _ assms(3)] j by auto
    then show "(e = FSD_SUCCESS \<longrightarrow> at_block src dest bs i (Suc j) st t') \<and> (e \<noteq> FSD_SUCCESS \<longrightarrow> False)"
      using b at_block_Suc[OF P] by auto
  qed
  then show thesis using that l by auto
qed

section \<open>The runs of a sound tracker\<close>

lemma run_blocks_alike:
  assumes "i < t_count t" and "j < op_run t bs i"
  shows "b_match_type (t_blocks t ! (i + j)) = b_match_type (t_blocks t ! i)"
    and "b_match_type (t_blocks t ! i) = FSD_MATCH_RELOCATE \<Longrightarrow>
      block_offset (t_blocks t ! (i + j)) (i + j) = block_offset (t_blocks t ! i) i"
    and "b_match_type (t_blocks t ! i) = FSD_MATCH_PARTIAL \<Longrightarrow>
      partial_offset bs (t_blocks t ! (i + j)) (i + j) = partial_offset bs (t_blocks t ! i) i"
  using assms(2) relocate_run_spec[of 1 t i "block_offset (t_blocks t ! i) i"]
    same_type_run_spec[of 1 t i "b_match_type (t_blocks t ! i)"]
    partial_run_spec[of 1 t bs i "partial_offset bs (t_blocks t ! i) i"]
  by (cases "j = 0"; cases "b_match_type (t_blocks t ! i)"; auto simp: op_run_def Let_def Suc_le_eq)+

text \<open>Where the decoder is, between two operations.\<close>

definition decoded :: "bytes \<Rightarrow> bytes \<Rightarrow> nat \<Rightarrow> nat \<Rightarrow> nat \<Rightarrow> patch_state \<Rightarrow> patch_state \<Rightarrow> bool" where
  "decoded src dest bs i n st t \<longleftrightarrow> reads src (ps_reader t) \<and>
     ps_output t = fappend (bytes_at (i * bs) (n * bs) dest) (ps_output st) \<and>
     ps_dest_block t = ps_dest_block st"

lemma at_block_decoded: "at_block src dest bs i n st t \<Longrightarrow> decoded src dest bs i n st t"
  by (auto simp: at_block_def decoded_def)

lemma block_in_dest:
  assumes "i < m" and "m * bs = length (dest :: bytes)"
  shows "i * bs + bs \<le> length dest" "length (bytes_at (i * bs) bs dest) = bs"
proof -
  have "(i + 1) * bs \<le> m * bs" using assms(1) by (intro mult_le_mono1) simp
  then show "i * bs + bs \<le> length dest" using assms(2) by simp
  then show "length (bytes_at (i * bs) bs dest) = bs" by simp
qed

lemma factor_less: "x * bs < k \<Longrightarrow> 0 < bs \<Longrightarrow> x < (k :: nat)"
  by (rule le_less_trans[of x "x * bs"]) simp_all

lemma op_identity_ok:
  assumes "blocks_right src dest bs t" and "length dest < 2 ^ 63"
    and "\<And>j. j < n \<Longrightarrow> b_match_type (t_blocks t ! (i + j)) = FSD_MATCH_IDENTITY"
    and "i + n \<le> t_count t" and "reads src (ps_reader st)" and "has_room (n * bs) (ps_output st)"
    and "ps_dest_block st = i" and "0 < bs"
  obtains t' where "op_identity bs (length src) n st = (FSD_SUCCESS, t')" "at_block src dest bs i n st t'"
proof -
  have cnt: "t_count t * bs = length dest" using assms(1) by (simp add: blocks_right_def)
  have dest: "(i + n) * bs \<le> length dest" using assms(4) cnt by (metis mult_le_mono1)
  show thesis
  proof (rule dest_loop[OF assms(5,6) dest, of "\<lambda>k s. copy_block bs (length src) (u64 (u64 (ps_dest_block s + k) * bs)) s"])
    fix j and s :: patch_state
    assume j: "j < n" and s: "reads src (ps_reader s)" "ps_dest_block s = ps_dest_block st"
      "has_room bs (ps_output s)"
    have ij: "i + j < t_count t" using j assms(4) by simp
    have eq: "(i + j + 1) * bs \<le> length src" "bytes_at ((i + j) * bs) bs src = bytes_at ((i + j) * bs) bs dest"
      using blocks_right_block[OF assms(1) ij] assms(3)[OF j] by (simp_all add: block_sound_def)
    have lt: "(i + j) * bs < 2 ^ 64" using block_in_dest(1)[OF ij cnt] assms(2) by simp
    then have "u64 (i + j) = i + j" "u64 ((i + j) * bs) = (i + j) * bs"
      using factor_less[OF lt assms(8)] by (simp_all add: u64_id)
    then have off: "u64 (u64 (ps_dest_block s + j) * bs) = (i + j) * bs" using s(2) assms(7) by simp
    have "(i + j) * bs + bs \<le> length src" using eq(1) by simp
    from copy_block_ok[OF s(1) this s(3)] obtain r where "reads src r" "copy_block bs (length src) ((i + j) * bs) s =
        (FSD_SUCCESS, s\<lparr>ps_reader := r, ps_output := fappend (bytes_at ((i + j) * bs) bs src) (ps_output s)\<rparr>)" .
    then show "\<exists>r. reads src r \<and> copy_block bs (length src) (u64 (u64 (ps_dest_block s + j) * bs)) s =
        (FSD_SUCCESS, s\<lparr>ps_reader := r, ps_output := fappend (bytes_at ((i + j) * bs) bs dest) (ps_output s)\<rparr>)"
      unfolding off eq(2) by blast
  qed (use that in \<open>auto simp: op_identity_def\<close>)
qed

lemma op_fill_ok:
  assumes "\<And>j. j < n \<Longrightarrow> bytes_at ((i + j) * bs) bs dest = replicate bs v"
    and "(i + n) * bs \<le> length dest" and "reads src (ps_reader st)" and "has_room (n * bs) (ps_output st)"
  obtains t' where "op_fill v bs n st = (FSD_SUCCESS, t')" "at_block src dest bs i n st t'"
proof (rule dest_loop[OF assms(3,4,2), of "\<lambda>_. write_block bs (replicate bs v)"])
  fix j and s :: patch_state
  assume "j < n" "reads src (ps_reader s)" "has_room bs (ps_output s)"
  then show "\<exists>r. reads src r \<and> write_block bs (replicate bs v) s =
      (FSD_SUCCESS, s\<lparr>ps_reader := r, ps_output := fappend (bytes_at ((i + j) * bs) bs dest) (ps_output s)\<rparr>)"
    using write_block_ok[of "replicate bs v" bs s] assms(1) by (intro exI[of _ "ps_reader s"]) simp
qed (use that in \<open>auto simp: op_fill_def\<close>)

lemma op_relocate_ok:
  assumes "blocks_right src dest bs t" and "length dest < 2 ^ 63" and "length src < 2 ^ 63"
    and "\<And>j. j < n \<Longrightarrow> b_match_type (t_blocks t ! (i + j)) = FSD_MATCH_RELOCATE"
    and "\<And>j. j < n \<Longrightarrow> block_offset (t_blocks t ! (i + j)) (i + j) = off"
    and "i + n \<le> t_count t" and "reads src (ps_reader st)" and "has_room (n * bs) (ps_output st)"
    and "ps_dest_block st = i" and "0 < bs"
    and "read_reloc_offset (ps_op st) fb = (FSD_SUCCESS, int (nat \<bar>off\<bar>), ro)"
    and "fb AND 1 = (if off < 0 then 1 else 0)"
  obtains t' where "op_relocate bs (length src) n fb st = (FSD_SUCCESS, t')"
    "at_block src dest bs i n (st\<lparr>ps_op := ro\<rparr>) t'"
proof -
  have cnt: "t_count t * bs = length dest" using assms(1) by (simp add: blocks_right_def)
  have dest: "(i + n) * bs \<le> length dest" using assms(6) cnt by (metis mult_le_mono1)
  have sgn: "(if fb AND 1 \<noteq> 0 then - int (nat \<bar>off\<bar>) else int (nat \<bar>off\<bar>)) = off"
    using assms(12) by auto
  define body where "body = (\<lambda>k s. let src_block = s64 (s64 (int (u64 (ps_dest_block s + k))) + off) in
      if src_block < 0 then (FSD_ERR_CORRUPT_DATA, s)
      else copy_block bs (length src) (u64 (nat src_block * bs)) s)"
  have op: "op_relocate bs (length src) n fb st = for_loop 0 n body (st\<lparr>ps_op := ro\<rparr>)"
    unfolding op_relocate_def assms(11) prod.case Let_def sgn body_def by simp
  show thesis
  proof (rule dest_loop[of src "st\<lparr>ps_op := ro\<rparr>" n bs i dest body])
    fix j and s :: patch_state
    assume j: "j < n" and s: "reads src (ps_reader s)" "ps_dest_block s = ps_dest_block (st\<lparr>ps_op := ro\<rparr>)"
      "has_room bs (ps_output s)"
    let ?b = "t_blocks t ! (i + j)"
    have ij: "i + j < t_count t" using j assms(6) by simp
    have eq: "(b_src_index ?b + 1) * bs \<le> length src"
        "bytes_at (b_src_index ?b * bs) bs src = bytes_at ((i + j) * bs) bs dest"
      using blocks_right_block[OF assms(1) ij] assms(4)[OF j] by (simp_all add: block_sound_def)
    have "(i + j) * bs < 2 ^ 63" using block_in_dest(1)[OF ij cnt] assms(2) assms(10) by simp
    from factor_less[OF this assms(10)] have ij63: "i + j < 2 ^ 63" .
    have sb: "b_src_index ?b * bs < 2 ^ 63" using eq(1) assms(3,10) by simp
    from factor_less[OF this assms(10)] have "b_src_index ?b < 2 ^ 63" .
    then have "s64 (int (b_src_index ?b)) = int (b_src_index ?b)" "s64 (int (i + j)) = int (i + j)"
      using ij63 by (intro s64_id; simp)+
    moreover have "u64 (ps_dest_block s + j) = i + j" using s(2) assms(9) ij63 by (simp add: u64_id)
    ultimately have blk: "s64 (s64 (int (u64 (ps_dest_block s + j))) + off) = int (b_src_index ?b)"
      using assms(5)[OF j] by (simp add: block_offset_def algebra_simps)
    have "u64 (b_src_index ?b * bs) = b_src_index ?b * bs" using sb by (intro u64_id) simp
    then have body: "body j s = copy_block bs (length src) (b_src_index ?b * bs) s"
      unfolding body_def Let_def blk by simp
    have "b_src_index ?b * bs + bs \<le> length src" using eq(1) by simp
    from copy_block_ok[OF s(1) this s(3)] obtain r where "reads src r"
      "copy_block bs (length src) (b_src_index ?b * bs) s = (FSD_SUCCESS,
        s\<lparr>ps_reader := r, ps_output := fappend (bytes_at (b_src_index ?b * bs) bs src) (ps_output s)\<rparr>)" .
    then show "\<exists>r. reads src r \<and> body j s = (FSD_SUCCESS,
        s\<lparr>ps_reader := r, ps_output := fappend (bytes_at ((i + j) * bs) bs dest) (ps_output s)\<rparr>)"
      unfolding body eq(2) by blast
  qed (use assms(7,8) dest that op in auto)
qed

lemma op_literal_ok:
  assumes "ps_lit st = bytes_at (i * bs) (n * bs) dest @ rl" and "(i + n) * bs \<le> length dest"
    and "has_room (n * bs) (ps_output st)"
  shows "op_literal bs n st = (FSD_SUCCESS,
    st\<lparr>ps_lit := rl, ps_output := fappend (bytes_at (i * bs) (n * bs) dest) (ps_output st)\<rparr>)"
proof -
  define s where "s j = st\<lparr>ps_lit := drop (j * bs) (ps_lit st),
      ps_output := fappend (bytes_at (i * bs) (j * bs) dest) (ps_output st)\<rparr>" for j
  have len: "length (bytes_at (i * bs) (n * bs) dest) = n * bs"
    using assms(2) by (simp add: distrib_right)
  have "op_literal bs n (s 0) = (FSD_SUCCESS, s (0 + n))"
    unfolding op_literal_def
  proof (rule for_loop_Success)
    fix j assume "j < 0 + n"
    then have jn: "(j + 1) * bs \<le> n * bs" by (intro mult_le_mono1) simp
    then have room: "has_room (length (bytes_at (i * bs) (j * bs) dest) + bs) (ps_output st)"
      using assms(3) has_room_mono[of "n * bs" "ps_output st"] by simp
    have "take bs (drop (j * bs) (bytes_at (i * bs) (n * bs) dest)) = bytes_at ((i + j) * bs) bs dest"
      unfolding bytes_at_def drop_take drop_drop using jn by (simp add: distrib_right add.commute)
    then have lit: "take bs (ps_lit (s j)) = bytes_at ((i + j) * bs) bs dest" "bs \<le> length (ps_lit (s j))"
      using jn len unfolding s_def assms(1) by simp_all
    have l: "length (bytes_at ((i + j) * bs) bs dest) = bs"
      using lit by (metis length_take min.absorb2)
    have w: "write_block bs (bytes_at ((i + j) * bs) bs dest) (s j) =
        (FSD_SUCCESS, (s j)\<lparr>ps_output := fappend (bytes_at ((i + j) * bs) bs dest) (ps_output (s j))\<rparr>)"
      using write_block_ok[OF l, of "s j"] room by (simp add: s_def)
    have "bytes_at (i * bs) (j * bs) dest @ bytes_at ((i + j) * bs) bs dest = bytes_at (i * bs) (Suc j * bs) dest"
      using bytes_at_append[of "i * bs" "j * bs" dest bs] by (simp add: algebra_simps)
    moreover have "drop bs (ps_lit (s j)) = drop (Suc j * bs) (ps_lit st)"
      by (simp add: s_def add.commute)
    ultimately show "(if length (ps_lit (s j)) < bs then (FSD_ERR_TRUNCATED, s j)
        else case consume bs (ps_lit (s j)) id of (e, data, lit_ptr) \<Rightarrow>
          if e \<noteq> FSD_SUCCESS then (e, s j)
          else seqE (write_block bs data) (\<lambda>st. (FSD_SUCCESS, st\<lparr>ps_lit := lit_ptr\<rparr>)) (s j)) =
        (FSD_SUCCESS, s (Suc j))"
      using lit w by (simp add: consume_def) (simp add: s_def)
  qed
  moreover have "s 0 = st" "s n = st\<lparr>ps_lit := rl, ps_output := fappend (bytes_at (i * bs) (n * bs) dest) (ps_output st)\<rparr>"
    using len assms(1) by (simp_all add: s_def)
  ultimately show ?thesis by simp
qed

lemma concat_slice:
  assumes "\<And>x. x \<in> set xs \<Longrightarrow> length x = bs" and "j < length xs"
  shows "bytes_at (j * bs) bs (concat xs) = xs ! j" and "length (concat xs) = length xs * bs"
proof -
  show len: "length (concat xs) = length xs * bs"
    using assms(1) by (induction xs) auto
  show "bytes_at (j * bs) bs (concat xs) = xs ! j"
    using assms
  proof (induction xs arbitrary: j)
    case (Cons x xs)
    then show ?case by (cases j) (auto simp: bytes_at_def)
  qed simp
qed

text \<open>The cursor of a sparse run in front of block \<^verbatim>\<open>j\<close>; a dense run does not move it.\<close>

definition cursor_at :: "nat \<Rightarrow> block_state list \<Rightarrow> nat \<Rightarrow> bytes" where
  "cursor_at bs blocks j =
     (if run_is_sparse bs blocks
      then concat (map (\<lambda>b. sparse_block (b_delta b) bs 0) (drop j blocks)) else run_diff bs blocks)"

lemma partial_block_facts:
  assumes "block_sound src dest bs k b" and "b_match_type b = FSD_MATCH_PARTIAL"
    and "k * bs < 2 ^ 63" and "length src < 2 ^ 63"
  obtains p d where "nat (s64 (int (k * bs)) + partial_offset bs b k) = p"
    "0 \<le> s64 (int (k * bs)) + partial_offset bs b k" "p + bs \<le> length src"
    "b_delta b = Some d" "length d = bs" "b_delta_size b = bs"
    "map2 (+) (bytes_at p bs src) d = bytes_at (k * bs) bs dest"
proof -
  let ?p = "int (b_src_index b) * int bs + b_byte_offset b"
  obtain d where d: "0 \<le> ?p" "nat ?p + bs \<le> length src" "b_delta b = Some d" "length d = bs"
      "b_delta_size b = bs" "map2 (+) (bytes_at (nat ?p) bs src) d = bytes_at (k * bs) bs dest"
    using assms(1,2) by (auto simp: block_sound_def Let_def)
  have "s64 ?p = ?p" using d(1,2) assms(4) by (intro s64_id) auto
  moreover have "int (k * bs) < 2 ^ 63" using assms(3) by (simp only: of_nat_less_numeral_power_cancel_iff)
  then have "s64 (int (k * bs)) = int (k * bs)"
    by (intro s64_id order_trans[OF _ of_nat_0_le_iff]) simp_all
  ultimately have "s64 (int (k * bs)) + partial_offset bs b k = ?p" by (simp add: partial_offset_def)
  with d that[of "nat ?p" d] show thesis by simp
qed

text \<open>Decoding the diff of one block of a run, in either form.\<close>

lemma run_diff_block:
  assumes deltas: "\<And>b. b \<in> set bl \<Longrightarrow> \<exists>d. b_delta b = Some d \<and> length d = bs \<and> b_delta_size b = bs"
    and j: "j < length bl" "b_delta (bl ! j) = Some d" and small: "length bl * bs < 2 ^ 64" and buf: "length buf = bs"
  shows "(if run_is_sparse bs bl then sparse_loop bs (cursor_at bs bl j) buf 0
      else case apply_dense bs (run_diff bs bl) j buf of (e, b) \<Rightarrow> (e, b, cursor_at bs bl j)) =
    (FSD_SUCCESS, map2 (+) buf d, cursor_at bs bl (Suc j))"
proof -
  have d: "length d = bs" "b_delta_size (bl ! j) = bs" using deltas[of "bl ! j"] j by auto
  show ?thesis
  proof (cases "run_is_sparse bs bl")
    case True
    have "drop j bl = bl ! j # drop (Suc j) bl" using j(1) by (metis Cons_nth_drop_Suc)
    then have "cursor_at bs bl j = sparse_block (Some d) bs 0 @ cursor_at bs bl (Suc j)"
      using True j(2) by (simp add: cursor_at_def)
    moreover have "bs \<le> length bl * bs" using j(1) by (cases bl) auto
    then have "bs < 2 ^ 64" using small by (rule le_less_trans)
    ultimately show ?thesis using True sparse_loop_block[OF d(1) buf, of 0] buf d(1) patched_0[of d buf] by simp
  next
    case False
    have blk: "length (dense_block b bs) = bs" if "b \<in> set bl" for b
      using deltas[OF that] by (auto simp: dense_block_def)
    have rd: "run_diff bs bl = concat (map (\<lambda>b. dense_block b bs) bl)" using False by (simp add: run_diff_def)
    have "bytes_at (j * bs) bs (run_diff bs bl) = dense_block (bl ! j) bs" "length (run_diff bs bl) = length bl * bs"
      using concat_slice[of "map (\<lambda>b. dense_block b bs) bl" bs j] blk j(1) unfolding rd by auto
    moreover have "dense_block (bl ! j) bs = d" using d j(2) by (simp add: dense_block_def)
    ultimately show ?thesis
      using False apply_dense_block[of "run_diff bs bl" "length bl" bs j buf] j(1) small buf by (simp add: cursor_at_def)
  qed
qed

lemma copy_add_block_ok:
  assumes sound: "blocks_right src dest bs t" and lens: "length dest < 2 ^ 63" "length src < 2 ^ 63"
    and bs: "0 < bs" and run: "i + n \<le> t_count t" "j < n" "n * bs < 2 ^ 64"
    and partial: "\<And>k. k < n \<Longrightarrow> b_match_type (t_blocks t ! (i + k)) = FSD_MATCH_PARTIAL"
    and off: "\<And>k. k < n \<Longrightarrow> partial_offset bs (t_blocks t ! (i + k)) (i + k) = off"
    and s: "reads src (ps_reader s)" "ps_dest_block s = i" "has_room bs (ps_output s)"
  obtains r where "reads src r"
    "copy_add_block bs (length src) off (run_is_sparse bs (run_blocks t i n)) (run_diff bs (run_blocks t i n)) j
       (s, cursor_at bs (run_blocks t i n) j) =
     (FSD_SUCCESS, (s\<lparr>ps_reader := r, ps_output := fappend (bytes_at ((i + j) * bs) bs dest) (ps_output s)\<rparr>,
       cursor_at bs (run_blocks t i n) (Suc j)))"
proof -
  let ?bl = "run_blocks t i n" and ?b = "t_blocks t ! (i + j)"
  have bl: "length ?bl = n" "?bl ! j = ?b" using run(2) by (simp_all add: run_blocks_def)
  have cnt: "t_count t * bs = length dest" using sound by (simp add: blocks_right_def)
  have ij: "i + j < t_count t" using run by simp
  have lt: "(i + j) * bs < 2 ^ 63" using block_in_dest(1)[OF ij cnt] lens(1) bs by simp
  obtain p d where p: "nat (s64 (int ((i + j) * bs)) + off) = p" "0 \<le> s64 (int ((i + j) * bs)) + off"
      "p + bs \<le> length src" and d: "b_delta ?b = Some d" "length d = bs" "b_delta_size ?b = bs"
      "map2 (+) (bytes_at p bs src) d = bytes_at ((i + j) * bs) bs dest"
    using partial_block_facts[OF blocks_right_block[OF sound ij] partial[OF run(2)] lt lens(2)]
    unfolding off[OF run(2)] by metis
  have "u64 (i + j) = i + j" "u64 ((i + j) * bs) = (i + j) * bs"
    using lt factor_less[OF lt bs] by (simp_all add: u64_id)
  moreover have "s64 (s64 (int ((i + j) * bs)) + off) = s64 (int ((i + j) * bs)) + off"
    using p lens(2) by (intro s64_id) auto
  ultimately have pos: "s64 (s64 (int (u64 (u64 (ps_dest_block s + j) * bs))) + off) = s64 (int ((i + j) * bs)) + off"
    using s(2) by simp
  obtain r where r: "reads src r"
      "read_block bs (length src) p s = (FSD_SUCCESS, bytes_at p bs src, s\<lparr>ps_reader := r\<rparr>)"
    using read_block_ok[OF s(1) p(3)] .
  have "\<exists>d. b_delta b = Some d \<and> length d = bs \<and> b_delta_size b = bs" if "b \<in> set ?bl" for b
  proof -
    obtain k where k: "k < n" "b = t_blocks t ! (i + k)" using \<open>b \<in> set ?bl\<close> by (auto simp: run_blocks_def)
    have ik: "i + k < t_count t" using k run by simp
    have "(i + k) * bs < 2 ^ 63" using block_in_dest(1)[OF ik cnt] lens(1) bs by simp
    from partial_block_facts[OF blocks_right_block[OF sound ik] partial[OF k(1)] this lens(2)]
    show ?thesis using k(2) by metis
  qed
  then have diff: "(if run_is_sparse bs ?bl then sparse_loop bs (cursor_at bs ?bl j) (bytes_at p bs src) 0
        else case apply_dense bs (run_diff bs ?bl) j (bytes_at p bs src) of (e, b) \<Rightarrow> (e, b, cursor_at bs ?bl j)) =
      (FSD_SUCCESS, bytes_at ((i + j) * bs) bs dest, cursor_at bs ?bl (Suc j))"
    using run_diff_block[of ?bl bs j d "bytes_at p bs src"] bl run(2,3) d p(3) by simp
  have "length (bytes_at ((i + j) * bs) bs dest) = bs" using block_in_dest(2)[OF ij cnt] .
  note w = write_block_ok[OF this, of "s\<lparr>ps_reader := r\<rparr>"]
  have "copy_add_block bs (length src) off (run_is_sparse bs ?bl) (run_diff bs ?bl) j (s, cursor_at bs ?bl j) =
      (FSD_SUCCESS, (s\<lparr>ps_reader := r, ps_output := fappend (bytes_at ((i + j) * bs) bs dest) (ps_output s)\<rparr>,
        cursor_at bs ?bl (Suc j)))"
    unfolding copy_add_block_def Let_def prod.case pos p(1) r(2) diff using w s(3) p(2) by simp
  with r(1) show thesis by (rule that)
qed

lemma op_copy_add_ok:
  assumes sound: "blocks_right src dest bs t" and lens: "length dest < 2 ^ 63" "length src < 2 ^ 63"
    and bs: "0 < bs" and run: "i + n \<le> t_count t" "0 < n" "n < 2 ^ 32" "n * bs < 2 ^ 64"
    and partial: "\<And>k. k < n \<Longrightarrow> b_match_type (t_blocks t ! (i + k)) = FSD_MATCH_PARTIAL"
    and off: "\<And>k. k < n \<Longrightarrow> partial_offset bs (t_blocks t ! (i + k)) (i + k) = off"
    and fits: "- (2 ^ 31) \<le> off" "off \<le> 2 ^ 31 - 1" and len: "length (run_diff bs (run_blocks t i n)) \<le> UINT32_MAX"
    and st: "reads src (ps_reader st)" "ps_dest_block st = i" "has_room (n * bs) (ps_output st)"
    and op: "ps_op st = partial_offset_field off @ count_field n @ u32_le (of_nat (length (run_diff bs (run_blocks t i n)))) @ ro"
    and diff: "ps_diff st = run_diff bs (run_blocks t i n) @ rd"
    and fb: "count_enc_bits fb = of_nat (count_enc_of n)" "offset_enc_bits fb = of_nat (partial_offset_enc off)"
      "fb AND 1 = (if run_is_sparse bs (run_blocks t i n) then 1 else 0)"
  obtains t' where "op_copy_add bs (length src) (t_count t) fb st = (FSD_SUCCESS, n, t')"
    "at_block src dest bs i n (st\<lparr>ps_op := ro, ps_diff := rd\<rparr>) t'"
proof -
  let ?bl = "run_blocks t i n" and ?st = "st\<lparr>ps_op := ro, ps_diff := rd\<rparr>"
  let ?body = "copy_add_block bs (length src) off (run_is_sparse bs ?bl) (run_diff bs ?bl)"
  have cnt: "t_count t * bs = length dest" using sound by (simp add: blocks_right_def)
  have dest: "(i + n) * bs \<le> length dest" using run(1) cnt by (metis mult_le_mono1)
  obtain e x where l: "for_loop 0 n ?body (?st, cursor_at bs ?bl 0) = (e, x)"
    by (metis surj_pair)
  have "(e = FSD_SUCCESS \<longrightarrow> at_block src dest bs i (0 + n) ?st (fst x) \<and> snd x = cursor_at bs ?bl (0 + n)) \<and>
      (e \<noteq> FSD_SUCCESS \<longrightarrow> False)"
  proof (rule for_loop_rule[where P = "\<lambda>j x. at_block src dest bs i j ?st (fst x) \<and> snd x = cursor_at bs ?bl j"
        and Q = "\<lambda>_ _. False", OF _ l])
    show "at_block src dest bs i 0 ?st (fst (?st, cursor_at bs ?bl 0)) \<and>
        snd (?st, cursor_at bs ?bl 0) = cursor_at bs ?bl 0"
      using at_block_0[of src ?st] st(1) by simp
    fix j y e y'
    assume j: "j < 0 + n" and P: "at_block src dest bs i j ?st (fst y) \<and> snd y = cursor_at bs ?bl j"
      and b: "?body j y = (e, y')"
    have s: "reads src (ps_reader (fst y))" "ps_dest_block (fst y) = i"
      using P st(2) by (auto simp: at_block_def)
    have room: "has_room bs (ps_output (fst y))"
      using at_block_room[of src dest bs i j ?st "fst y" n] P st(3) j dest by simp
    have jn: "j < n" using j by simp
    obtain r where "reads src r" "?body j (fst y, cursor_at bs ?bl j) = (FSD_SUCCESS,
        ((fst y)\<lparr>ps_reader := r, ps_output := fappend (bytes_at ((i + j) * bs) bs dest) (ps_output (fst y))\<rparr>,
         cursor_at bs ?bl (Suc j)))"
      using copy_add_block_ok[OF sound lens bs run(1) jn run(4) partial off s room] .
    moreover have "y = (fst y, cursor_at bs ?bl j)" using P by (metis prod.collapse)
    ultimately show "(e = FSD_SUCCESS \<longrightarrow> at_block src dest bs i (Suc j) ?st (fst y') \<and>
        snd y' = cursor_at bs ?bl (Suc j)) \<and> (e \<noteq> FSD_SUCCESS \<longrightarrow> False)"
      using b at_block_Suc[of src dest bs i j ?st "fst y" r] P by (metis fst_conv prod.inject snd_conv)
  qed
  then have res: "e = FSD_SUCCESS" "at_block src dest bs i n ?st (fst x)" by auto
  have "unat (of_nat (length (run_diff bs ?bl)) :: 32 word) = length (run_diff bs ?bl)"
    using len by (intro unat_of_nat_less) (simp add: UINT32_MAX_def)
  moreover have "n \<le> t_count t - ps_dest_block st" using run(1) st(2) by simp
  moreover have "count_enc_bits fb \<noteq> 3" using fb(1) by (simp add: count_enc_of_def)
  moreover have "cursor_at bs ?bl 0 = run_diff bs ?bl" by (simp add: cursor_at_def run_diff_def)
  moreover have "(fb AND 1 \<noteq> 0) = run_is_sparse bs ?bl" using fb(3) by simp
  ultimately have "op_copy_add bs (length src) (t_count t) fb st = (FSD_SUCCESS, n, fst x)"
    using read_byte_offset_field[OF fb(2) fits] read_count_field[OF fb(1) run(2,3)] l res(1) op diff
    by (simp add: op_copy_add_def consume_def le_u32_alone split: prod.split)
  then show thesis using res(2) by (rule that)
qed

section \<open>One operation, read back\<close>

lemma patch_step_count:
  assumes "ps_op st = fb # rest" and "op_code fb = k" and "k \<noteq> FSD_OP_COPY_ADD"
    and "read_count rest fb = (FSD_SUCCESS, n, q)" and "n \<le> db - ps_dest_block st"
    and "(if k = FSD_OP_COPY_IDENTITY then op_identity bs ss n
          else if k = FSD_OP_COPY_RELOCATE then op_relocate bs ss n fb
          else if k = FSD_OP_ZERO then op_fill 0 bs n
          else if k = FSD_OP_ONE then op_fill 0xFF bs n
          else if k = FSD_OP_LITERAL then op_literal bs n
          else failE FSD_ERR_BAD_OPERATION) (st\<lparr>ps_op := q\<rparr>) = (FSD_SUCCESS, t')"
  shows "patch_step cb bs ss db st = bump cb db n t'"
  using assms unfolding op_code_def by (auto simp: patch_step_def Let_def)

text \<open>The state behind an operation whose streams were read to \<^verbatim>\<open>ro\<close>, \<^verbatim>\<open>rd\<close> and \<^verbatim>\<open>rl\<close>.\<close>

definition after_op ::
  "bytes \<Rightarrow> bytes \<Rightarrow> nat \<Rightarrow> nat \<Rightarrow> nat \<Rightarrow> bytes \<Rightarrow> bytes \<Rightarrow> bytes \<Rightarrow> patch_state \<Rightarrow> patch_state \<Rightarrow> bool" where
  "after_op src dest bs i n ro rd rl st t \<longleftrightarrow> reads src (ps_reader t) \<and> ps_op t = ro \<and> ps_diff t = rd \<and>
     ps_lit t = rl \<and> ps_dest_block t = i + n \<and>
     ps_output t = fappend (bytes_at (i * bs) (n * bs) dest) (ps_output st)"

lemma after_bump:
  assumes "at_block src dest bs i n s t'" and "ps_op s = ro" and "ps_diff s = rd" and "ps_lit s = rl"
    and "ps_dest_block s = i" and "ps_output s = ps_output st" and "i + n < 2 ^ 64"
  shows "\<exists>u. bump cb db n t' = (FSD_SUCCESS, u) \<and> after_op src dest bs i n ro rd rl st u"
proof -
  have "u64 (i + n) = i + n" using assms(7) by (rule u64_id)
  then show ?thesis
    using assms(1-6) by (auto simp: bump_def at_block_def after_op_def Let_def)
qed

text \<open>What encoding and decoding rely on: the images, the block size, the matches, the run lengths.\<close>

definition codable :: "bytes \<Rightarrow> bytes \<Rightarrow> nat \<Rightarrow> block_tracker \<Rightarrow> bool" where
  "codable src dest bs t \<longleftrightarrow> blocks_right src dest bs t \<and> length dest < 2 ^ 63 \<and> length src < 2 ^ 63 \<and>
     0 < bs \<and> bs \<le> 2 ^ 24 \<and> t_count t < 2 ^ 32"

lemma blocks_right_encodable:
  assumes sound: "blocks_right src dest bs t" and "length dest < 2 ^ 63" and "0 < bs" and "bs \<le> 2 ^ 24"
  shows "encodable dest bs t"
proof -
  have len: "length (t_blocks t) = t_count t"
    using sound by (simp add: blocks_right_def)
  have "delta_ok bs b" if b: "b \<in> set (t_blocks t)" for b
  proof -
    obtain k where "k < t_count t" "b = t_blocks t ! k" using b len by (auto simp: in_set_conv_nth)
    then show ?thesis using blocks_right_block[OF sound, of k]
      by (auto simp: delta_ok_def block_sound_def Let_def)
  qed
  then show ?thesis using assms len by (simp add: encodable_def blocks_right_def)
qed

lemma codable_encodable: "codable src dest bs t \<Longrightarrow> encodable dest bs t"
  by (rule blocks_right_encodable[of src]) (simp_all add: codable_def)

lemma op_code_bits:
  "take_bit 3 FSD_OP_COPY_IDENTITY = FSD_OP_COPY_IDENTITY" "take_bit 3 FSD_OP_COPY_RELOCATE = FSD_OP_COPY_RELOCATE"
  "take_bit 3 FSD_OP_ZERO = FSD_OP_ZERO" "take_bit 3 FSD_OP_ONE = FSD_OP_ONE"
  "take_bit 3 FSD_OP_COPY_ADD = FSD_OP_COPY_ADD" "take_bit 3 FSD_OP_LITERAL = FSD_OP_LITERAL"
  by (simp_all add: op_codes)

text \<open>
  The decoder stands before the run of \<^verbatim>\<open>n\<close> blocks from block \<^verbatim>\<open>i\<close>: the streams begin with what the encoder
  wrote for it. One lemma per kind of run shows that a step of the decoder gets behind it.
\<close>

definition at_run ::
  "bytes \<Rightarrow> bytes \<Rightarrow> nat \<Rightarrow> block_tracker \<Rightarrow> nat \<Rightarrow> nat \<Rightarrow> bytes \<Rightarrow> bytes \<Rightarrow> bytes \<Rightarrow> patch_state \<Rightarrow> bool" where
  "at_run src dest bs t i n ro rd rl st \<longleftrightarrow>
     codable src dest bs t \<and> i < t_count t \<and> n = op_run t bs i \<and>
     reads src (ps_reader st) \<and> ps_dest_block st = i \<and> has_room (n * bs) (ps_output st) \<and>
     ps_op st = op_part bs t (i, n) @ ro \<and> ps_diff st = diff_part bs t (i, n) @ rd \<and>
     ps_lit st = lit_part dest bs t (i, n) @ rl"

lemmas stream_parts = op_part_def diff_part_def lit_part_def as_literal_def Let_def

lemma at_run_facts:
  assumes "at_run src dest bs t i n ro rd rl st"
  shows "blocks_right src dest bs t" "length dest < 2 ^ 63" "length src < 2 ^ 63" "0 < bs" "bs \<le> 2 ^ 24"
    "i + n \<le> t_count t" "0 < n" "n < 2 ^ 32" "i + n < 2 ^ 64" "(i + n) * bs \<le> length dest"
    "n \<le> t_count t - ps_dest_block st" "i < t_count t" "n = op_run t bs i" "codable src dest bs t"
    "reads src (ps_reader st)" "ps_dest_block st = i" "has_room (n * bs) (ps_output st)"
    "ps_op st = op_part bs t (i, n) @ ro" "ps_diff st = diff_part bs t (i, n) @ rd" "ps_lit st = lit_part dest bs t (i, n) @ rl"
proof -
  show cod: "codable src dest bs t" and i: "i < t_count t" and n: "n = op_run t bs i" and b: "ps_dest_block st = i"
    and "reads src (ps_reader st)" "has_room (n * bs) (ps_output st)" "ps_op st = op_part bs t (i, n) @ ro"
      "ps_diff st = diff_part bs t (i, n) @ rd" "ps_lit st = lit_part dest bs t (i, n) @ rl"
    using assms unfolding at_run_def by blast+
  from cod show sound: "blocks_right src dest bs t" and "length dest < 2 ^ 63" "length src < 2 ^ 63" "0 < bs" "bs \<le> 2 ^ 24"
    by (simp_all add: codable_def)
  show run: "i + n \<le> t_count t" "0 < n" using op_run_bounds(1)[of t bs i] op_run_bounds(2)[OF i, of bs] n by auto
  from cod have "t_count t < 2 ^ 32" by (simp add: codable_def)
  with run show "n < 2 ^ 32" "i + n < 2 ^ 64" by auto
  have "t_count t * bs = length dest" using sound by (simp add: blocks_right_def)
  with run(1) show "(i + n) * bs \<le> length dest" by (metis mult_le_mono1)
  show "n \<le> t_count t - ps_dest_block st" using run(1) b by simp
qed

lemma at_run_alike:
  assumes "at_run src dest bs t i n ro rd rl st" and "j < n"
  shows "b_match_type (t_blocks t ! (i + j)) = b_match_type (t_blocks t ! i)"
  using run_blocks_alike(1)[OF at_run_facts(12)[OF assms(1)]] assms(2) at_run_facts(13)[OF assms(1)] by simp

lemma step_literal_run:
  assumes at: "at_run src dest bs t i n ro rd rl st" and lit: "as_literal bs t i"
  shows "\<exists>u. patch_step cb bs (length src) (t_count t) st = (FSD_SUCCESS, u) \<and>
    after_op src dest bs i n ro rd rl st u"
proof -
  note run = at_run_facts(6,7)[OF at] and n32 = at_run_facts(8)[OF at] and in64 = at_run_facts(9)[OF at]
    and dest = at_run_facts(10)[OF at] and left = at_run_facts(11)[OF at] and st = at_run_facts(15-17)[OF at]
    and streams = at_run_facts(18-20)[OF at]
  have "ps_op st = count_op_bytes (push_bit 5 FSD_OP_LITERAL) n @ ro" "ps_diff st = rd"
      "ps_lit st = bytes_at (i * bs) (n * bs) dest @ rl"
    using streams lit by (simp_all add: op_part_def diff_part_def lit_part_def Let_def)
  moreover obtain fb tl where fb: "count_op_bytes (push_bit 5 FSD_OP_LITERAL) n = fb # tl"
      "op_code fb = FSD_OP_LITERAL" "\<And>rest. read_count (tl @ rest) fb = (FSD_SUCCESS, n, rest)"
    using read_count_op[OF op_code_bits(6) run(2) n32] by blast
  ultimately have "patch_step cb bs (length src) (t_count t) st = bump cb (t_count t) n
      (st\<lparr>ps_op := ro, ps_lit := rl, ps_output := fappend (bytes_at (i * bs) (n * bs) dest) (ps_output st)\<rparr>)"
    using op_literal_ok[of "st\<lparr>ps_op := ro\<rparr>" i bs n dest rl] dest st(3) left
    by (intro patch_step_count[OF _ fb(2) _ fb(3)]) (simp_all add: op_codes)
  moreover have "u64 (i + n) = i + n" using in64 by (rule u64_id)
  ultimately show ?thesis
    using st \<open>ps_diff st = rd\<close> by (simp add: bump_def after_op_def Let_def)
qed

lemma step_fill_run:
  fixes k v :: byte
  assumes at: "at_run src dest bs t i n ro rd rl st" and v: "(b_match_type (t_blocks t ! i), k, v) \<in> {(FSD_MATCH_ZERO, FSD_OP_ZERO, 0), (FSD_MATCH_ONE, FSD_OP_ONE, 0xFF)}"
  shows "\<exists>u. patch_step cb bs (length src) (t_count t) st = (FSD_SUCCESS, u) \<and>
    after_op src dest bs i n ro rd rl st u"
proof -
  note run = at_run_facts(6,7)[OF at] and n32 = at_run_facts(8)[OF at] and in64 = at_run_facts(9)[OF at]
    and dest = at_run_facts(10)[OF at] and left = at_run_facts(11)[OF at] and st = at_run_facts(15-17)[OF at]
    and streams = at_run_facts(18-20)[OF at]
  note sound = at_run_facts(1)[OF at] and lens = at_run_facts(2,3)[OF at] and bs = at_run_facts(4,5)[OF at]
    and i = at_run_facts(12)[OF at] and n = at_run_facts(13)[OF at] and cod = at_run_facts(14)[OF at]
    and alike = at_run_alike[OF at]
  have k3: "take_bit 3 k = k" using v op_code_bits by auto
  have s: "ps_op st = count_op_bytes (push_bit 5 k) n @ ro" "ps_diff st = rd" "ps_lit st = rl"
    using streams v by (auto simp: stream_parts)
  obtain fb tl where fb: "count_op_bytes (push_bit 5 k) n = fb # tl" "op_code fb = k"
      "\<And>rest. read_count (tl @ rest) fb = (FSD_SUCCESS, n, rest)"
    using read_count_op[OF k3 run(2) n32] by blast
  have "bytes_at ((i + j) * bs) bs dest = replicate bs v" if "j < n" for j
    using blocks_right_block[OF sound, of "i + j"] alike[OF that] v that run(1)
    by (auto simp: block_sound_def)
  then obtain t' where t': "op_fill v bs n (st\<lparr>ps_op := ro\<rparr>) = (FSD_SUCCESS, t')"
      "at_block src dest bs i n (st\<lparr>ps_op := ro\<rparr>) t'"
    using op_fill_ok[of n i bs dest v src "st\<lparr>ps_op := ro\<rparr>"] dest st by auto
  have "patch_step cb bs (length src) (t_count t) st = bump cb (t_count t) n t'"
    using s(1) fb t'(1) v left
    by (intro patch_step_count[OF _ fb(2) _ fb(3)]) (auto simp: op_codes)
  then show ?thesis using after_bump[OF t'(2), of ro rd rl st] s st in64 by simp
qed

lemma step_identity_run:
  assumes at: "at_run src dest bs t i n ro rd rl st" and kind: "b_match_type (t_blocks t ! i) = FSD_MATCH_IDENTITY"
  shows "\<exists>u. patch_step cb bs (length src) (t_count t) st = (FSD_SUCCESS, u) \<and>
    after_op src dest bs i n ro rd rl st u"
proof -
  note run = at_run_facts(6,7)[OF at] and n32 = at_run_facts(8)[OF at] and in64 = at_run_facts(9)[OF at]
    and dest = at_run_facts(10)[OF at] and left = at_run_facts(11)[OF at] and st = at_run_facts(15-17)[OF at]
    and streams = at_run_facts(18-20)[OF at]
  note sound = at_run_facts(1)[OF at] and lens = at_run_facts(2,3)[OF at] and bs = at_run_facts(4,5)[OF at]
    and i = at_run_facts(12)[OF at] and n = at_run_facts(13)[OF at] and cod = at_run_facts(14)[OF at]
    and alike = at_run_alike[OF at]
  have s: "ps_op st = count_op_bytes (push_bit 5 FSD_OP_COPY_IDENTITY) n @ ro" "ps_diff st = rd" "ps_lit st = rl"
    using streams kind by (auto simp: stream_parts)
  obtain fb tl where fb: "count_op_bytes (push_bit 5 FSD_OP_COPY_IDENTITY) n = fb # tl"
      "op_code fb = FSD_OP_COPY_IDENTITY" "\<And>rest. read_count (tl @ rest) fb = (FSD_SUCCESS, n, rest)"
    using read_count_op[OF op_code_bits(1) run(2) n32] by blast
  obtain t' where t': "op_identity bs (length src) n (st\<lparr>ps_op := ro\<rparr>) = (FSD_SUCCESS, t')"
      "at_block src dest bs i n (st\<lparr>ps_op := ro\<rparr>) t'"
    using op_identity_ok[OF sound lens(1) _ run(1), of "st\<lparr>ps_op := ro\<rparr>"] alike kind st bs
    by auto
  have "patch_step cb bs (length src) (t_count t) st = bump cb (t_count t) n t'"
    using s(1) fb t'(1) left by (intro patch_step_count[OF _ fb(2) _ fb(3)]) (auto simp: op_codes)
  then show ?thesis using after_bump[OF t'(2), of ro rd rl st] s st in64 by simp
qed

lemma step_relocate_run:
  assumes at: "at_run src dest bs t i n ro rd rl st" and kind: "b_match_type (t_blocks t ! i) = FSD_MATCH_RELOCATE" and fits_off: "\<not> as_literal bs t i"
  shows "\<exists>u. patch_step cb bs (length src) (t_count t) st = (FSD_SUCCESS, u) \<and>
    after_op src dest bs i n ro rd rl st u"
proof -
  note run = at_run_facts(6,7)[OF at] and n32 = at_run_facts(8)[OF at] and in64 = at_run_facts(9)[OF at]
    and dest = at_run_facts(10)[OF at] and left = at_run_facts(11)[OF at] and st = at_run_facts(15-17)[OF at]
    and streams = at_run_facts(18-20)[OF at]
  note sound = at_run_facts(1)[OF at] and lens = at_run_facts(2,3)[OF at] and bs = at_run_facts(4,5)[OF at]
    and i = at_run_facts(12)[OF at] and n = at_run_facts(13)[OF at] and cod = at_run_facts(14)[OF at]
    and alike = at_run_alike[OF at]
  let ?off = "block_offset (t_blocks t ! i) i"
  let ?oe = "of_nat (reloc_offset_enc (nat \<bar>?off\<bar>)) :: byte" and ?ce = "of_nat (count_enc_of n) :: byte"
  define fb where "fb = (push_bit 5 FSD_OP_COPY_RELOCATE OR push_bit 3 ?ce OR push_bit 1 ?oe OR
      (if ?off < 0 then 1 else 0))"
  have s: "ps_op st = fb # count_field n @ reloc_offset_field (nat \<bar>?off\<bar>) @ ro" "ps_diff st = rd" "ps_lit st = rl"
    using streams kind fits_off by (auto simp: stream_parts reloc_op_bytes_def fb_def)
  have fits: "nat \<bar>?off\<bar> \<le> 0xFFFFFFFF" using fits_off kind by (simp add: as_literal_def fits_reloc_def Let_def)
  have sg: "take_bit 1 (if ?off < 0 then 1 else 0 :: byte) = (if ?off < 0 then 1 else 0)" by simp
  note fields = first_byte_fields[OF op_code_bits(2) small_fields(1)[of n] small_fields(2)[of "nat \<bar>?off\<bar>"] sg,
      folded fb_def]
  have rc: "read_count (count_field n @ reloc_offset_field (nat \<bar>?off\<bar>) @ ro) fb =
      (FSD_SUCCESS, n, reloc_offset_field (nat \<bar>?off\<bar>) @ ro)"
    by (rule read_count_field[OF fields(1) run(2) n32])
  let ?s = "st\<lparr>ps_op := reloc_offset_field (nat \<bar>?off\<bar>) @ ro\<rparr>"
  have ro: "read_reloc_offset (ps_op ?s) fb = (FSD_SUCCESS, int (nat \<bar>?off\<bar>), ro)"
    using read_reloc_offset_field[OF fields(2) fits] by simp
  obtain t' where t': "op_relocate bs (length src) n fb ?s = (FSD_SUCCESS, t')"
      "at_block src dest bs i n (?s\<lparr>ps_op := ro\<rparr>) t'"
    using op_relocate_ok[OF sound lens _ _ run(1) _ _ _ bs(1) ro fields(3)] alike kind
      run_blocks_alike(2)[OF i] n st by auto
  have "patch_step cb bs (length src) (t_count t) st = bump cb (t_count t) n t'"
    using s(1) t'(1) left
    by (intro patch_step_count[OF _ fields(4) _ rc]) (auto simp: op_codes)
  then show ?thesis using after_bump[OF t'(2), of ro rd rl st] s st in64 by simp
qed

lemma step_partial_run:
  assumes at: "at_run src dest bs t i n ro rd rl st" and kind: "b_match_type (t_blocks t ! i) = FSD_MATCH_PARTIAL" and fits_off: "\<not> as_literal bs t i"
  shows "\<exists>u. patch_step cb bs (length src) (t_count t) st = (FSD_SUCCESS, u) \<and>
    after_op src dest bs i n ro rd rl st u"
proof -
  note run = at_run_facts(6,7)[OF at] and n32 = at_run_facts(8)[OF at] and in64 = at_run_facts(9)[OF at]
    and dest = at_run_facts(10)[OF at] and left = at_run_facts(11)[OF at] and st = at_run_facts(15-17)[OF at]
    and streams = at_run_facts(18-20)[OF at]
  note sound = at_run_facts(1)[OF at] and lens = at_run_facts(2,3)[OF at] and bs = at_run_facts(4,5)[OF at]
    and i = at_run_facts(12)[OF at] and n = at_run_facts(13)[OF at] and cod = at_run_facts(14)[OF at]
    and alike = at_run_alike[OF at]
  let ?off = "partial_offset bs (t_blocks t ! i) i" and ?bl = "run_blocks t i n"
  let ?oe = "of_nat (partial_offset_enc ?off) :: byte" and ?ce = "of_nat (count_enc_of n) :: byte"
  define fb where "fb = (push_bit 5 FSD_OP_COPY_ADD OR push_bit 3 ?ce OR push_bit 1 ?oe OR
      (if run_is_sparse bs ?bl then 1 else 0))"
  let ?tl = "partial_offset_field ?off @ count_field n @ u32_le (of_nat (length (run_diff bs ?bl))) @ ro"
  have s: "ps_op st = fb # ?tl" "ps_diff st = run_diff bs ?bl @ rd" "ps_lit st = rl"
    using streams kind fits_off by (auto simp: stream_parts partial_op_bytes_def fb_def)
  have fits: "- (2 ^ 31) \<le> ?off" "?off \<le> 2 ^ 31 - 1"
    using fits_off kind by (simp_all add: as_literal_def fits_partial_def Let_def)
  have sg: "take_bit 1 (if run_is_sparse bs ?bl then 1 else 0 :: byte) = (if run_is_sparse bs ?bl then 1 else 0)"
    by simp
  note fields = first_byte_fields[OF op_code_bits(5) small_fields(1)[of n] small_fields(3)[of ?off] sg,
      folded fb_def]
  have max: "n \<le> max_run_for_format bs"
    using partial_run_spec[of 1 t bs i] n kind
    by (auto simp: op_run_def Let_def max_run_for_format_def Suc_le_eq)
  have cap: "n * bs * 2 \<le> UINT32_MAX"
    using max_run_fits[OF bs(1) _ max] bs(2) by (simp add: UINT32_MAX_def)
  have "length (run_diff bs ?bl) \<le> length ?bl * (2 * bs)"
    by (rule length_run_diff)
       (use partial_run_blocks[OF codable_encodable[OF cod] i kind n] in blast)
  then have len: "length (run_diff bs ?bl) \<le> UINT32_MAX"
    using cap by (simp add: run_blocks_def ac_simps)
  have "UINT32_MAX < 2 ^ 64" by (simp add: UINT32_MAX_def)
  moreover have "n * bs \<le> n * bs * 2" by simp
  ultimately have n64: "n * bs < 2 ^ 64" using cap by linarith
  let ?s = "st\<lparr>ps_op := ?tl\<rparr>"
  obtain t' where t': "op_copy_add bs (length src) (t_count t) fb ?s = (FSD_SUCCESS, n, t')"
      "at_block src dest bs i n (?s\<lparr>ps_op := ro, ps_diff := rd\<rparr>) t'"
    using op_copy_add_ok[OF sound lens bs(1) run n32 n64 _ _ fits len _ _ _ _ _ fields(1,2,3), of ?s ro rd]
      alike kind run_blocks_alike(3)[OF i] n st s by auto
  have "patch_step cb bs (length src) (t_count t) st = bump cb (t_count t) n t'"
    using s(1) t'(1) fields(4) unfolding op_code_def by (simp add: patch_step_def Let_def)
  then show ?thesis using after_bump[OF t'(2), of ro rd rl st] s st in64 by simp
qed

lemma patch_step_run:
  assumes "at_run src dest bs t i n ro rd rl st"
  shows "\<exists>u. patch_step cb bs (length src) (t_count t) st = (FSD_SUCCESS, u) \<and>
    after_op src dest bs i n ro rd rl st u"
proof (cases "as_literal bs t i")
  case True
  with assms show ?thesis by (rule step_literal_run)
next
  case False
  then have "b_match_type (t_blocks t ! i) \<noteq> FSD_MATCH_NONE" by (auto simp: as_literal_def)
  then consider "b_match_type (t_blocks t ! i) = FSD_MATCH_IDENTITY" | "b_match_type (t_blocks t ! i) = FSD_MATCH_RELOCATE"
    | "b_match_type (t_blocks t ! i) = FSD_MATCH_PARTIAL" | "b_match_type (t_blocks t ! i) = FSD_MATCH_ZERO"
    | "b_match_type (t_blocks t ! i) = FSD_MATCH_ONE"
    by (cases "b_match_type (t_blocks t ! i)") auto
  then show ?thesis
  proof cases
    case 1
    then show ?thesis by (rule step_identity_run[OF assms])
  next
    case 2
    then show ?thesis using False by (rule step_relocate_run[OF assms])
  next
    case 3
    then show ?thesis using False by (rule step_partial_run[OF assms])
  next
    case 4
    then show ?thesis using step_fill_run[OF assms, of FSD_OP_ZERO 0] by simp
  next
    case 5
    then show ?thesis using step_fill_run[OF assms, of FSD_OP_ONE "0xFF"] by simp
  qed
qed

section \<open>The whole patch\<close>

lemma runs_from_step:
  "i < t_count t \<Longrightarrow> runs_from bs t i = (i, op_run t bs i) # runs_from bs t (i + op_run t bs i)"
  "\<not> i < t_count t \<Longrightarrow> runs_from bs t i = []"
  by (subst runs_from.simps, simp)+

lemma op_part_not_Nil: "i < t_count t \<Longrightarrow> op_part bs t (i, n) \<noteq> []"
  by (auto simp: op_part_def count_op_bytes_def reloc_op_bytes_def partial_op_bytes_def as_literal_def Let_def
      split: fsd_match_type.splits)

lemma patch_loop_runs:
  assumes "codable src dest bs t" and "i \<le> t_count t"
    and "reads src (ps_reader st)" "ps_dest_block st = i" "has_room ((t_count t - i) * bs) (ps_output st)"
    and "ps_op st = op_stream bs t i" "ps_diff st = diff_stream bs t i" "ps_lit st = lit_stream dest bs t i"
  shows "\<exists>u. patch_loop cb bs (length src) (t_count t) st = (FSD_SUCCESS, u) \<and>
    ps_output u = fappend (bytes_at (i * bs) ((t_count t - i) * bs) dest) (ps_output st)"
  using assms
proof (induction bs t i arbitrary: st rule: runs_from.induct)
  case (1 bs t i)
  show ?case
  proof (cases "i < t_count t")
    case False
    then show ?thesis using "1.prems" by (simp add: patch_loop.simps[of cb bs "length src" "t_count t" st])
  next
    case True
    let ?n = "op_run t bs i"
    have n: "0 < ?n" "i + ?n \<le> t_count t" using op_run_bounds(1)[of t bs i] op_run_bounds(2)[OF True] by auto
    have split: "(t_count t - i) * bs = ?n * bs + (t_count t - (i + ?n)) * bs"
      using n by (simp add: distrib_right [symmetric])
    have room: "has_room (?n * bs) (ps_output st)"
      using "1.prems"(5) split by (auto intro: has_room_mono)
    have s: "ps_op st = op_part bs t (i, ?n) @ op_stream bs t (i + ?n)"
        "ps_diff st = diff_part bs t (i, ?n) @ diff_stream bs t (i + ?n)"
        "ps_lit st = lit_part dest bs t (i, ?n) @ lit_stream dest bs t (i + ?n)"
      using "1.prems"(6-8) runs_from_step(1)[OF True, of bs] by simp_all
    obtain v where v: "patch_step cb bs (length src) (t_count t) st = (FSD_SUCCESS, v)"
        "after_op src dest bs i ?n (op_stream bs t (i + ?n)) (diff_stream bs t (i + ?n))
           (lit_stream dest bs t (i + ?n)) st v"
      using patch_step_run[of src dest bs t i] "1.prems"(1,3,4) True room s unfolding at_run_def by blast
    have len: "length (bytes_at (i * bs) (?n * bs) dest) = ?n * bs"
      using run_in_dest[OF codable_encodable[OF "1.prems"(1)] True] by (simp add: distrib_right)
    have room': "has_room ((t_count t - (i + ?n)) * bs) (ps_output v)"
      using v(2) "1.prems"(5) len unfolding split by (simp add: after_op_def)
    have "\<exists>u. patch_loop cb bs (length src) (t_count t) v = (FSD_SUCCESS, u) \<and>
        ps_output u = fappend (bytes_at ((i + ?n) * bs) ((t_count t - (i + ?n)) * bs) dest) (ps_output v)"
      by (rule "1.IH"[OF True "1.prems"(1) n(2) _ _ room']) (use v(2) in \<open>simp_all add: after_op_def\<close>)
    moreover have "patch_loop cb bs (length src) (t_count t) st = patch_loop cb bs (length src) (t_count t) v"
      using True "1.prems"(4) s(1) op_part_not_Nil[OF True] v(1)
      by (simp add: patch_loop.simps[of cb bs "length src" "t_count t" st])
    moreover have "bytes_at (i * bs) ((t_count t - i) * bs) dest =
        bytes_at (i * bs) (?n * bs) dest @ bytes_at ((i + ?n) * bs) ((t_count t - (i + ?n)) * bs) dest"
      unfolding split bytes_at_add by (simp add: distrib_right)
    ultimately show ?thesis using v(2) by (auto simp: after_op_def)
  qed
qed

text \<open>The patch file of a finished encoding: header and the three streams.\<close>

definition patch_file :: "nat \<Rightarrow> nat \<Rightarrow> bytes \<times> bytes \<times> bytes \<Rightarrow> bytes" where
  "patch_file dest_blocks log2 = (\<lambda>(ops, diffs, lits).
     header_bytes (of_nat dest_blocks) (of_nat log2) (of_nat (length ops)) (of_nat (length diffs)) @
     ops @ diffs @ lits)"

lemma header_read_patch_file:
  assumes "5 \<le> log2" and "log2 \<le> 24"
  shows "fsd_header_read_memory (patch_file db log2 (ops, diffs, lits)) =
    Inr \<lparr>h_magic = FSD_MAGIC, h_version = 1, h_block_size_log2 = of_nat log2, h_reserved = 0,
         h_dest_blocks = of_nat db, h_op_stream_len = of_nat (length ops),
         h_diff_stream_len = of_nat (length diffs)\<rparr>"
proof -
  have "unat (of_nat log2 :: byte) = log2" using assms by (intro unat_of_nat_less) simp
  then have "\<not> (of_nat log2 :: byte) < 5" "\<not> 24 < (of_nat log2 :: byte)"
    using assms by (simp_all add: word_less_nat_alt)
  then show ?thesis
    unfolding patch_file_def header_bytes_layout fsd_header_read_memory_def FSD_MAGIC_def
    by (simp add: FSD_HEADER_SIZE_def FSD_VERSION_def)
qed

lemma encode_streams:
  assumes "codable src dest (e_block_size enc) t" and "writers_ok s" and "streams_of s = ([], [], [])"
    and "fsd_op_encoder_encode mok enc t dest s = (FSD_SUCCESS, enc', s')"
  shows "streams_of s' = (op_stream (e_block_size enc) t 0, diff_stream (e_block_size enc) t 0,
    lit_stream dest (e_block_size enc) t 0)"
proof -
  obtain e s1 where l: "encode_loop mok dest (e_block_size enc) t 0 s = (e, s1)" by fastforce
  have "e = FSD_SUCCESS" "s' = s1" using assms(4) l by (auto simp: fsd_op_encoder_encode_def split: if_splits)
  moreover have "e = FSD_SUCCESS \<Longrightarrow> streams_of s1 = extend_streams (streams_of s)
      (op_stream (e_block_size enc) t 0) (diff_stream (e_block_size enc) t 0) (lit_stream dest (e_block_size enc) t 0)"
    using encode_loop_emits[OF codable_encodable[OF assms(1)], of mok 0] assms(2) l
    unfolding emits_def by blast
  ultimately show ?thesis using assms(3) by (simp add: extend_streams_def)
qed

text \<open>Encoding, writing the patch file and applying it, composed.\<close>

lemma encode_then_apply:
  assumes "codable src dest (2 ^ log2) t" and "5 \<le> log2" and "log2 \<le> 24"
    and "e_block_size enc = 2 ^ log2" and "writers_ok s" and "streams_of s = ([], [], [])"
    and "fsd_op_encoder_encode mok enc t dest s = (FSD_SUCCESS, enc', s')"
    and "honest_path (pe_src env)" and "p_content (pe_src env) = src"
    and "fsd_source_reader_open (pe_src env) (pe_source_mode env) = Inr r" and "Eio \<notin> set (p_script (pe_src env))"
    and "honest_path (pe_patch env)" and "p_content (pe_patch env) = patch_file (t_count t) log2 (streams_of s')"
    and "fsd_mmap_open (pe_patch env) = Inr m"
    and "pe_fopen env = Some f" and "fdata f = []" and "has_room (length dest) f" and "pe_malloc_ok env (2 ^ log2)"
  shows "po_error (fsd_patch_apply env) = FSD_SUCCESS \<and>
    map_option fdata (po_output (fsd_patch_apply env)) = Some dest"
proof -
  let ?bs = "2 ^ log2 :: nat" and ?pd = "p_content (pe_patch env)"
  obtain ops diffs lits where str: "streams_of s' = (ops, diffs, lits)" by (metis prod_cases3)
  have st: "ops = op_stream ?bs t 0" "diffs = diff_stream ?bs t 0" "lits = lit_stream dest ?bs t 0"
    using encode_streams[of src dest enc t s mok enc' s'] assms(1,4-7) str by simp_all
  define h where "h = \<lparr>h_magic = FSD_MAGIC, h_version = 1, h_block_size_log2 = of_nat log2, h_reserved = 0,
         h_dest_blocks = of_nat (t_count t), h_op_stream_len = of_nat (length ops),
         h_diff_stream_len = of_nat (length diffs)\<rparr>"
  have hd: "fsd_header_read_memory ?pd = Inr h"
    using header_read_patch_file[OF assms(2,3)] assms(13) str by (simp add: h_def)
  have len: "length ?pd = FSD_HEADER_SIZE + length ops + length diffs + length lits"
    using assms(13) str by (simp add: patch_file_def FSD_HEADER_SIZE_def)
  have "length ?pd < 2 ^ 63" using assms(12) by (simp add: honest_path_def)
  then have lo: "length ops < 2 ^ 64" "length diffs < 2 ^ 64" using len by auto
  have cod: "t_count t < 2 ^ 32" "t_count t * ?bs = length dest" "length dest < 2 ^ 63"
    using assms(1) by (simp_all add: codable_def blocks_right_def)
  have h: "unat (h_block_size_log2 h) = log2" "unat (h_dest_blocks h) = t_count t"
      "unat (h_op_stream_len h) = length ops" "unat (h_diff_stream_len h) = length diffs"
    unfolding h_def using assms(3) cod(1) lo by (simp_all add: unat_of_nat_less)
  have "t_count t \<le> INT64_MAX div ?bs"
    using cod(2,3) by (simp add: less_eq_div_iff_mult_less_eq INT64_MAX_def)
  then have ck: "check_header_sizes h (length ?pd) = FSD_SUCCESS"
    unfolding check_header_sizes_def Let_def h using len by simp
  have start: "start_state h ?pd r f = \<lparr>ps_op = ops, ps_diff = diffs, ps_lit = lits, ps_dest_block = 0,
      ps_reader = r, ps_output = f, ps_progress = []\<rparr>"
    unfolding start_state_def Let_def h using assms(13) str
    by (simp add: patch_file_def bytes_at_def FSD_HEADER_SIZE_def)
  note R = source_open_ok[OF assms(8,10)]
  have "reads src r" using R assms(9,11) by (simp add: reads_def)
  moreover have "has_room ((t_count t - 0) * ?bs) f" using assms(17) cod(2) by simp
  ultimately obtain u where u: "patch_loop (pe_progress_cb env) ?bs (length src) (t_count t)
      (start_state h ?pd r f) = (FSD_SUCCESS, u)" "ps_output u = fappend dest f"
    using patch_loop_runs[OF assms(1), of 0 "start_state h ?pd r f" "pe_progress_cb env"] st cod(2) start
    by auto
  have "fsd_patch_apply env = \<lparr>po_error = FSD_SUCCESS, po_output = Some (ps_output u), po_progress = ps_progress u\<rparr>"
    unfolding patch_apply_opened[OF assms(8,12,10,14)] assms(9,15) hd sum.case h
    using ck assms(18) u(1) by simp
  then show ?thesis using u(2) assms(16) by simp
qed

text \<open>
  C2. Encoding a tracker whose matches are right and applying the resulting patch to the source
  reproduces the destination image, byte for byte, with either source backend: for every block
  size the format allows, fewer than \<^verbatim>\<open>2 ^ 32\<close> destination blocks, a readable source and
  room for the output.
\<close>

theorem patch_roundtrip:
  assumes "codable src dest (2 ^ log2) t" and "5 \<le> log2" and "log2 \<le> 24"
    and "e_block_size enc = 2 ^ log2" and "writers_ok s" and "streams_of s = ([], [], [])"
    and "fsd_op_encoder_encode mok enc t dest s = (FSD_SUCCESS, enc', s')"
    and "honest_path (pe_src env)" and "p_content (pe_src env) = src"
    and "fsd_source_reader_open (pe_src env) (pe_source_mode env) = Inr r" and "Eio \<notin> set (p_script (pe_src env))"
    and "honest_path (pe_patch env)" and "p_content (pe_patch env) = patch_file (t_count t) log2 (streams_of s')"
    and "fsd_mmap_open (pe_patch env) = Inr m"
    and "pe_fopen env = Some f" and "fdata f = []" and "has_room (length dest) f" and "pe_malloc_ok env (2 ^ log2)"
  shows "po_error (fsd_patch_apply env) = FSD_SUCCESS \<and>
    map_option fdata (po_output (fsd_patch_apply env)) = Some dest"
  using assms by (rule encode_then_apply)

section \<open>A concrete run\<close>

definition fresh_writers :: writers where
  "fresh_writers =
     (let w = (case fsd_writer_create_from_file (\<lambda>_. True) (Some empty_file) 0 of Inr w \<Rightarrow> w)
      in \<lparr>op_writer = w, diff_writer = w, lit_writer = w\<rparr>)"

lemma fresh_writers_ok:
  "writers_ok fresh_writers" "streams_of fresh_writers = ([], [], [])" "writers_room x y z fresh_writers"
proof -
  obtain w where w: "fsd_writer_create_from_file (\<lambda>_. True) (Some empty_file) 0 = Inr w"
    by (auto simp: fsd_writer_create_from_file_def Let_def)
  have "writer_ok w" "w_stream w = []" using writer_create_ok[OF w] by (simp_all add: empty_file_def)
  moreover have "writer_room n w" for n
    using w by (auto simp: fsd_writer_create_from_file_def Let_def writer_room_def has_room_def empty_file_def)
  ultimately show "writers_ok fresh_writers" "streams_of fresh_writers = ([], [], [])" "writers_room x y z fresh_writers"
    using w by (simp_all add: fresh_writers_def writers_ok_def streams_of_def writers_room_def)
qed

text \<open>With room and memory the encoder succeeds on every encodable tracker.\<close>

lemma encode_succeeds:
  assumes "encodable dest (e_block_size enc) t"
  obtains enc' s' where "fsd_op_encoder_encode (\<lambda>_. True) enc t dest fresh_writers = (FSD_SUCCESS, enc', s')"
    "streams_of s' = (op_stream (e_block_size enc) t 0, diff_stream (e_block_size enc) t 0,
      lit_stream dest (e_block_size enc) t 0)"
proof -
  obtain e s1 where l: "encode_loop (\<lambda>_. True) dest (e_block_size enc) t 0 fresh_writers = (e, s1)" by fastforce
  have em: "emits True (encode_loop (\<lambda>_. True) dest (e_block_size enc) t 0) (op_stream (e_block_size enc) t 0)
      (diff_stream (e_block_size enc) t 0) (lit_stream dest (e_block_size enc) t 0)"
    using encode_loop_emits[OF assms, of "\<lambda>_. True" 0] by simp
  then have "e = FSD_SUCCESS"
    using l fresh_writers_ok(1,3) unfolding emits_def by blast
  moreover have "streams_of s1 = extend_streams (streams_of fresh_writers) (op_stream (e_block_size enc) t 0)
      (diff_stream (e_block_size enc) t 0) (lit_stream dest (e_block_size enc) t 0)"
    using em l fresh_writers_ok(1) \<open>e = FSD_SUCCESS\<close> unfolding emits_def by blast
  ultimately show thesis
    using l fresh_writers_ok(2) by (intro that) (simp_all add: fsd_op_encoder_encode_def extend_streams_def)
qed

theorem patch_roundtrip_witness:
  "\<exists>enc' s'. fsd_op_encoder_encode (\<lambda>_. True)
      \<lparr>e_block_size = 32, e_op_bytes = 0, e_diff_bytes = 0, e_literal_bytes = 0\<rparr>
      (fsd_block_tracker_set_match 0 FSD_MATCH_ZERO 0
        (case fsd_block_tracker_create (\<lambda>_. True) 1 32 of Inr t \<Rightarrow> t)) (replicate 32 0) fresh_writers =
      (FSD_SUCCESS, enc', s') \<and>
    map_option fdata (po_output (fsd_patch_apply (plain_env [1, 2, 3] (patch_file 1 5 (streams_of s'))))) =
      Some (replicate 32 0)"
proof -
  let ?enc = "\<lparr>e_block_size = 32, e_op_bytes = 0, e_diff_bytes = 0, e_literal_bytes = 0\<rparr>"
  let ?dest = "replicate 32 0 :: bytes" and ?src = "[1, 2, 3] :: bytes"
  obtain t0 where t0: "fsd_block_tracker_create (\<lambda>_. True) 1 32 = Inr t0"
    by (simp add: fsd_block_tracker_create_def Let_def)
  let ?t = "fsd_block_tracker_set_match 0 FSD_MATCH_ZERO 0 t0"
  have c: "t_count ?t = 1" using tracker_create_inv[OF t0] by simp
  have "tracker_sound ?src ?dest 32 t0" using tracker_sound_create[OF t0] by simp
  then have sound: "tracker_sound ?src ?dest 32 ?t"
    by (rule tracker_sound_set_match) (simp_all add: block_sound_def)
  have cod: "codable ?src ?dest (2 ^ 5) ?t" using sound c by (simp add: codable_def tracker_sound_def)
  obtain enc' s' where e: "fsd_op_encoder_encode (\<lambda>_. True) ?enc ?t ?dest fresh_writers = (FSD_SUCCESS, enc', s')"
      "streams_of s' = (op_stream 32 ?t 0, diff_stream 32 ?t 0, lit_stream ?dest 32 ?t 0)"
    using encode_succeeds[of ?dest ?enc ?t] codable_encodable[OF cod] by auto
  have ty: "b_match_type (t_blocks ?t ! 0) = FSD_MATCH_ZERO"
    using tracker_create_inv[OF t0] by (simp add: fsd_block_tracker_set_match_def fresh_block_def)
  have "runs_from 32 ?t 0 = [(0, op_run ?t 32 0)]"
    using runs_from_step[of 0 ?t 32] runs_from_step(2)[of _ ?t] c op_run_bounds(1)[of ?t 32 0] by simp
  then have len: "length (patch_file 1 5 (streams_of s')) < 2 ^ 63"
    unfolding e(2) patch_file_def
    using ty by (simp add: op_part_def diff_part_def lit_part_def as_literal_def count_op_bytes_def Let_def)
  let ?env = "plain_env ?src (patch_file 1 5 (streams_of s'))"
  obtain r m where rm: "fsd_source_reader_open (pe_src ?env) (pe_source_mode ?env) = Inr r"
      "fsd_mmap_open (pe_patch ?env) = Inr m"
    using regular_path_open[of ?src] regular_path_mmap[OF len] by (auto simp: plain_env_def)
  have "map_option fdata (po_output (fsd_patch_apply ?env)) = Some ?dest"
    using patch_roundtrip [OF cod _ _ _ fresh_writers_ok(1,2) e(1) _ _ rm(1) _ _ _ rm(2)] c
      regular_path_honest[OF len] regular_path_honest[of ?src]
    by (simp add: plain_env_def empty_file_def has_room_def) (simp add: regular_path_def)
  then show ?thesis using e(1) t0 by auto
qed

end
