(* ===== verification/Diff.thy ===== *)
theory Diff
  imports Stage_Controller Patch_Roundtrip
begin

text \<open>
  The diff API of \<^verbatim>\<open>src/diff.c\<close>: options and context, \<^verbatim>\<open>fsd_diff_files\<close> with all its error paths, the
  copying of the temporary streams, the diagnostic match log, cancellation and statistics. The
  elapsed time is left out of the statistics.
\<close>

section \<open>Options and context\<close>

definition fsd_diff_options_init :: diff_options where
  "fsd_diff_options_init =
     \<lparr>do_block_size_log2 = 12, do_enable_identity = True, do_enable_relocation = True, do_enable_partial = True,
       do_partial_threshold = Some (1 / 2), do_search_radius = 8, do_max_memory_mb = 0, do_force_scalar = False,
       do_verbose = False, do_source_mode = FSD_SOURCE_AUTO, do_enable_fsmap = True\<rparr>"

record diff_stats =
  ds_total_blocks :: nat
  ds_identity_matches :: nat
  ds_relocate_matches :: nat
  ds_partial_matches :: nat
  ds_zero_blocks :: nat
  ds_one_blocks :: nat
  ds_literal_blocks :: nat
  ds_patch_size :: nat

definition zero_stats :: diff_stats where
  "zero_stats = \<lparr>ds_total_blocks = 0, ds_identity_matches = 0, ds_relocate_matches = 0, ds_partial_matches = 0,
     ds_zero_blocks = 0, ds_one_blocks = 0, ds_literal_blocks = 0, ds_patch_size = 0\<rparr>"

record diff_ctx =
  dx_opts :: diff_options
  dx_stats :: diff_stats
  dx_progress_cb :: bool
  dx_cancelled :: bool

definition fsd_diff_create :: "bool \<Rightarrow> diff_options option \<Rightarrow> fsd_error + diff_ctx" where
  "fsd_diff_create calloc_ok opts =
     (if \<not> calloc_ok then Inl FSD_ERR_OUT_OF_MEMORY
      else
        let o' = (case opts of Some p \<Rightarrow> p | None \<Rightarrow> fsd_diff_options_init) in
        if do_block_size_log2 o' < 5 \<or> 24 < do_block_size_log2 o' then Inl FSD_ERR_BAD_BLOCK_SIZE
        else Inr \<lparr>dx_opts = o', dx_stats = zero_stats, dx_progress_cb = False, dx_cancelled = False\<rparr>)"

definition fsd_diff_set_progress :: "bool \<Rightarrow> diff_ctx \<Rightarrow> diff_ctx" where
  "fsd_diff_set_progress callback ctx = ctx\<lparr>dx_progress_cb := callback\<rparr>"

definition fsd_diff_cancel :: "diff_ctx \<Rightarrow> diff_ctx" where
  "fsd_diff_cancel ctx = ctx\<lparr>dx_cancelled := True\<rparr>"

definition fsd_diff_get_stats :: "diff_ctx \<Rightarrow> fsd_error \<times> diff_stats" where
  "fsd_diff_get_stats ctx = (FSD_SUCCESS, dx_stats ctx)"

section \<open>The match log\<close>

text \<open>A row of the log, before it is formatted; a fault is \<^verbatim>\<open>None\<close>.\<close>

datatype match_row = Row_source nat fsd_match_type nat int int nat | Row_plain nat fsd_match_type

definition match_log_row :: "count_fn \<Rightarrow> block_tracker \<Rightarrow> bytes \<Rightarrow> bytes \<Rightarrow> nat \<Rightarrow> nat \<Rightarrow> match_row option" where
  "match_log_row count_fn t src dest block_size i =
     (case fsd_block_tracker_get t i of
        None \<Rightarrow> None
      | Some st \<Rightarrow>
          (let dest_pos = s64 (int (i * block_size)) in
           if b_match_type st = FSD_MATCH_IDENTITY \<or> b_match_type st = FSD_MATCH_RELOCATE
           then (let src_pos = s64 (int (b_src_index st * block_size)) in
                 Some (Row_source i (b_match_type st) (b_src_index st) 0 (s64 (src_pos - dest_pos)) block_size))
           else if b_match_type st = FSD_MATCH_PARTIAL
           then (let src_pos = s64 (s64 (int (b_src_index st * block_size)) + b_byte_offset st) in
                 map_option (Row_source i FSD_MATCH_PARTIAL (b_src_index st) (b_byte_offset st) (s64 (src_pos - dest_pos)))
                   (if pos_ok (length src) block_size src_pos
                    then count_at count_fn src (nat src_pos) dest (nat dest_pos) block_size else Some 0))
           else Some (Row_plain i (b_match_type st))))"

definition fsd_write_match_log :: "count_fn \<Rightarrow> block_tracker \<Rightarrow> bytes \<Rightarrow> bytes \<Rightarrow> nat \<Rightarrow> match_row list option" where
  "fsd_write_match_log count_fn t src dest block_size =
     those (map (match_log_row count_fn t src dest block_size) [0..<t_count t])"

section \<open>Copying a stream\<close>

definition COPY_BUF_SIZE :: nat where "COPY_BUF_SIZE = 65536"

function copy_loop :: "nat \<Rightarrow> FILE \<Rightarrow> FILE \<Rightarrow> fsd_error \<times> nat \<times> FILE" where
  "copy_loop copied src dst =
     (case fread COPY_BUF_SIZE src of
        (d, src') \<Rightarrow>
          if d = [] then (FSD_SUCCESS, copied, dst)
          else (case fwrite d dst of
                  (n, dst) \<Rightarrow> if n \<noteq> length d then (FSD_ERR_IO, copied, dst)
                    else copy_loop (copied + length d) src' dst))"
  by pat_completeness auto
termination
  by (relation "measure (\<lambda>(copied, src, dst). length (fdata src) - fpos src)") (auto simp: fread_def Let_def bytes_at_def)

declare copy_loop.simps [simp del]

definition fsd_copy_stream :: "FILE \<Rightarrow> nat \<Rightarrow> FILE action" where
  "fsd_copy_stream src expected dst =
     (case copy_loop 0 (rewind src) dst of
        (err, copied, dst) \<Rightarrow>
          if err \<noteq> FSD_SUCCESS then (err, dst)
          else if \<not> fread_ok src \<or> copied \<noteq> expected then (FSD_ERR_IO, dst)
          else (FSD_SUCCESS, dst))"

section \<open>Diffing two files\<close>

text \<open>
  What the system answers during one call. \<^verbatim>\<open>de_paths\<close> says that no path is a null pointer;
  \<^verbatim>\<open>de_stored\<close> and \<^verbatim>\<open>de_stored_late\<close> say whether another thread has called \<^verbatim>\<open>fsd_diff_cancel\<close> by a check
  point and by the end of the call.
\<close>

record diff_env =
  de_paths :: bool
  de_src :: os_path
  de_dest :: os_path
  de_controller :: controller_env
  de_stored :: "check_point \<Rightarrow> bool"
  de_stored_late :: bool
  de_match_log :: bool
  de_match_log_fopen :: bool
  de_op_fd :: bool
  de_diff_fd :: bool
  de_lit_fd :: bool
  de_op_file :: "FILE option"
  de_diff_file :: "FILE option"
  de_lit_file :: "FILE option"
  de_op_malloc :: "nat \<Rightarrow> bool"
  de_diff_malloc :: "nat \<Rightarrow> bool"
  de_lit_malloc :: "nat \<Rightarrow> bool"
  de_malloc :: "nat \<Rightarrow> bool"
  de_out_stat :: "errno option"
  de_out_kind :: file_kind
  de_fopen :: "FILE option"

text \<open>
  What a call leaves: the error, the context, the output file (\<^verbatim>\<open>None\<close> when it was not opened or was
  removed again), the temporary files that are still there, the match log and the progress reports.
\<close>

record diff_outcome =
  dr_error :: fsd_error
  dr_ctx :: diff_ctx
  dr_output :: "FILE option"
  dr_temps :: "string list"
  dr_log :: "match_row list option"
  dr_reports :: "(nat \<times> nat) list"

text \<open>The two images; a null data pointer is \<^verbatim>\<open>None\<close>.\<close>

definition open_images ::
  "diff_env \<Rightarrow> diff_options \<Rightarrow> fsd_error + bytes option \<times> nat \<times> bytes option \<times> nat" where
  "open_images env opts =
     (case fsd_source_reader_open (de_src env) (do_source_mode opts) of
        Inl err \<Rightarrow> Inl err
      | Inr src_reader \<Rightarrow>
          (case fsd_mmap_open (de_dest env) of
             Inl err \<Rightarrow> Inl err
           | Inr dest_reader \<Rightarrow>
               (case fsd_source_reader_data src_reader of
                  (err, src_data, src_reader) \<Rightarrow>
                    if err \<noteq> FSD_SUCCESS then Inl err
                    else Inr (map_option (take (fsd_source_reader_size src_reader)) src_data, fsd_source_reader_size src_reader,
                              fsd_mmap_data dest_reader, fsd_mmap_size dest_reader))))"

text \<open>Header and streams into the opened output; \<^verbatim>\<open>fclose\<close> reports what buffered writes could not.\<close>

definition write_output :: "nat \<Rightarrow> nat \<Rightarrow> writers \<Rightarrow> FILE \<Rightarrow> fsd_error \<times> FILE" where
  "write_output dest_blocks log2 ws output =
     (let op_size = fsd_writer_bytes_written (op_writer ws);
          diff_size = fsd_writer_bytes_written (diff_writer ws);
          lit_size = fsd_writer_bytes_written (lit_writer ws)
      in
      case fsd_header_write (of_nat dest_blocks) (of_nat log2) (of_nat op_size) (of_nat diff_size) (Some output) of
        (err, f) \<Rightarrow>
          (case seqE (\<lambda>f. (err, f))
                  (seqE (fsd_copy_stream (w_file (op_writer ws)) op_size)
                    (seqE (fsd_copy_stream (w_file (diff_writer ws)) diff_size)
                      (fsd_copy_stream (w_file (lit_writer ws)) lit_size))) (case f of Some f \<Rightarrow> f | None \<Rightarrow> output) of
             (err, f) \<Rightarrow> (if \<not> fclose_ok f \<and> err = FSD_SUCCESS then FSD_ERR_IO else err, f)))"

definition flush_writers :: "writers action" where
  "flush_writers ws =
     (case fsd_writer_flush (op_writer ws) of (err, w) \<Rightarrow>
        let ws = ws\<lparr>op_writer := w\<rparr> in
        if err \<noteq> FSD_SUCCESS then (err, ws)
        else
          (case fsd_writer_flush (diff_writer ws) of (err, w) \<Rightarrow>
             let ws = ws\<lparr>diff_writer := w\<rparr> in
             if err \<noteq> FSD_SUCCESS then (err, ws)
             else
               (case fsd_writer_flush (lit_writer ws) of (err, w) \<Rightarrow>
                  let ws = ws\<lparr>lit_writer := w\<rparr> in
                  if err \<noteq> FSD_SUCCESS then (err, ws)
                  else if \<not> fflush_ok (w_file (op_writer ws)) \<or> \<not> fflush_ok (w_file (diff_writer ws)) \<or>
                          \<not> fflush_ok (w_file (lit_writer ws))
                  then (FSD_ERR_IO, ws)
                  else (FSD_SUCCESS, ws))))"

text \<open>
  Everything from the writers to \<^verbatim>\<open>fclose\<close>: the error, the output if it was opened, and the size of the
  patch. A writer that could not be created is a null pointer, which the encoder rejects.
\<close>

definition encode_patch ::
  "diff_env \<Rightarrow> nat \<Rightarrow> block_tracker \<Rightarrow> bytes \<Rightarrow> nat \<Rightarrow> FILE \<Rightarrow> FILE \<Rightarrow> FILE \<Rightarrow> fsd_error \<times> FILE option \<times> nat" where
  "encode_patch env log2 tracker dest dest_blocks op_file diff_file lit_file =
     (let w1 = fsd_writer_create_from_file (de_op_malloc env) (Some op_file) 0;
          w2 = fsd_writer_create_from_file (de_diff_malloc env) (Some diff_file) 0;
          w3 = fsd_writer_create_from_file (de_lit_malloc env) (Some lit_file) 0
      in
      case fsd_op_encoder_create (de_malloc env) (2 ^ log2) of
        Inl err \<Rightarrow> (err, None, 0)
      | Inr encoder \<Rightarrow>
          (case (w1, w2, w3) of
             (Inr w1, Inr w2, Inr w3) \<Rightarrow>
               (case fsd_op_encoder_encode (de_malloc env) encoder tracker dest
                       \<lparr>op_writer = w1, diff_writer = w2, lit_writer = w3\<rparr> of
                  (err, encoder, ws) \<Rightarrow>
                    if err \<noteq> FSD_SUCCESS then (err, None, 0)
                    else
                      (case flush_writers ws of
                         (err, ws) \<Rightarrow>
                           if err \<noteq> FSD_SUCCESS then (err, None, 0)
                           else
                             (case de_fopen env of
                                None \<Rightarrow> (FSD_ERR_IO, None, 0)
                              | Some output \<Rightarrow>
                                  (case write_output dest_blocks log2 ws output of
                                     (err, output) \<Rightarrow>
                                       (err, Some output,
                                        FSD_HEADER_SIZE + fsd_writer_bytes_written (op_writer ws) +
                                          fsd_writer_bytes_written (diff_writer ws) +
                                          fsd_writer_bytes_written (lit_writer ws))))))
           | _ \<Rightarrow> (FSD_ERR_INVALID_ARG, None, 0)))"

text \<open>
  The temporary files, by the prefix of their name; \<^verbatim>\<open>created\<close> is what \<^verbatim>\<open>mkstemp\<close> answers.
\<close>

definition fsd_create_temp_file :: "bool \<Rightarrow> string \<Rightarrow> string list \<Rightarrow> string list" where
  "fsd_create_temp_file created prefix temps = (if created then prefix # temps else temps)"

definition fsd_unlink :: "string \<Rightarrow> string list \<Rightarrow> string list" where
  "fsd_unlink name temps = removeAll name temps"

text \<open>
  The temporary files around the encoding. Every path removes the ones that were created; on an error
  the output is removed when it was opened and is safe to remove.
\<close>

definition write_patch ::
  "diff_env \<Rightarrow> nat \<Rightarrow> block_tracker \<Rightarrow> bytes \<Rightarrow> nat \<Rightarrow> fsd_error \<times> FILE option \<times> nat \<times> string list" where
  "write_patch env log2 tracker dest dest_blocks =
     (let temps = fsd_create_temp_file (de_op_fd env) ''fsdiff_op'' [];
          temps = fsd_create_temp_file (de_diff_fd env) ''fsdiff_diff'' temps;
          temps = fsd_create_temp_file (de_lit_fd env) ''fsdiff_lit'' temps
      in
      if \<not> de_op_fd env \<or> \<not> de_diff_fd env \<or> \<not> de_lit_fd env
      then
        (let temps = (if de_op_fd env then fsd_unlink ''fsdiff_op'' temps else temps);
             temps = (if de_diff_fd env then fsd_unlink ''fsdiff_diff'' temps else temps);
             temps = (if de_lit_fd env then fsd_unlink ''fsdiff_lit'' temps else temps)
         in (FSD_ERR_IO, None, 0, temps))
      else
        (case (de_op_file env, de_diff_file env, de_lit_file env) of
           (Some op_file, Some diff_file, Some lit_file) \<Rightarrow>
             (let may_unlink_output = fsd_path_is_regular_or_missing (de_out_stat env) (de_out_kind env) in
              case encode_patch env log2 tracker dest dest_blocks op_file diff_file lit_file of
                (err, output, patch_size) \<Rightarrow>
                  (err, if err \<noteq> FSD_SUCCESS \<and> may_unlink_output then None else output, patch_size,
                   fsd_unlink ''fsdiff_lit'' (fsd_unlink ''fsdiff_diff'' (fsd_unlink ''fsdiff_op'' temps))))
         | _ \<Rightarrow> (FSD_ERR_IO, None, 0,
                  fsd_unlink ''fsdiff_lit'' (fsd_unlink ''fsdiff_diff'' (fsd_unlink ''fsdiff_op'' temps)))))"

definition diff_failed :: "fsd_error \<Rightarrow> diff_ctx \<Rightarrow> (nat \<times> nat) list \<Rightarrow> diff_outcome" where
  "diff_failed err ctx reports =
     \<lparr>dr_error = err, dr_ctx = ctx, dr_output = None, dr_temps = [], dr_log = None, dr_reports = reports\<rparr>"

definition stats_of :: "nat \<Rightarrow> block_tracker \<Rightarrow> nat \<Rightarrow> diff_stats" where
  "stats_of dest_blocks t patch_size =
     \<lparr>ds_total_blocks = dest_blocks, ds_identity_matches = t_identity_count t, ds_relocate_matches = t_relocate_count t,
       ds_partial_matches = t_partial_count t, ds_zero_blocks = t_zero_count t, ds_one_blocks = t_one_count t,
       ds_literal_blocks = t_literal_count t, ds_patch_size = patch_size\<rparr>"

text \<open>What follows a successful run of the stages; \<^verbatim>\<open>UB_FAULT\<close> would be an access outside the images.\<close>

definition finish_diff ::
  "simd_dispatch \<Rightarrow> diff_env \<Rightarrow> nat \<Rightarrow> nat \<Rightarrow> bytes option \<Rightarrow> bytes option \<Rightarrow> diff_ctx \<Rightarrow> stage_controller \<Rightarrow> diff_outcome" where
  "finish_diff g env block_size dest_blocks src_data dest_data ctx c =
     (let tracker = fsd_stage_controller_get_tracker c;
          src = (case src_data of Some d \<Rightarrow> d | None \<Rightarrow> []);
          dest = (case dest_data of Some d \<Rightarrow> d | None \<Rightarrow> []);
          match_log = (if de_match_log env \<and> de_match_log_fopen env
            then map_option Some (fsd_write_match_log (fsd_block_search_count_fn g) tracker src dest block_size)
            else Some None)
      in
      case match_log of
        None \<Rightarrow> diff_failed UB_FAULT ctx (ct_reports c)
      | Some rows \<Rightarrow>
          (case write_patch env (do_block_size_log2 (dx_opts ctx)) tracker dest dest_blocks of
             (err, output, patch_size, temps) \<Rightarrow>
               \<lparr>dr_error = err,
                 dr_ctx = (if err = FSD_SUCCESS then ctx\<lparr>dx_stats := stats_of dest_blocks tracker patch_size\<rparr> else ctx),
                 dr_output = output, dr_temps = temps, dr_log = rows, dr_reports = ct_reports c\<rparr>))"

definition prepare_controller :: "diff_ctx \<Rightarrow> stage_controller \<Rightarrow> stage_controller" where
  "prepare_controller ctx c =
     (let c = fsd_stage_controller_set_cancel_flag (Some (dx_cancelled ctx)) c;
          c = (if dx_progress_cb ctx then fsd_stage_controller_set_progress True c else c)
      in if do_verbose (dx_opts ctx) then fsd_stage_controller_set_verbose 1 c else c)"

text \<open>From the two images on; \<^verbatim>\<open>late\<close> is the context with the cancel flag as it is at the end of the call.\<close>

definition diff_images ::
  "simd_dispatch \<Rightarrow> diff_env \<Rightarrow> diff_ctx \<Rightarrow> diff_ctx \<Rightarrow> bytes option \<Rightarrow> nat \<Rightarrow> bytes option \<Rightarrow> nat \<Rightarrow> diff_outcome" where
  "diff_images g env ctx late src_data src_size dest_data dest_size =
     (let block_size = 2 ^ do_block_size_log2 (dx_opts ctx);
          src_blocks = src_size div block_size;
          dest_blocks = dest_size div block_size
      in
      if dest_size mod block_size \<noteq> 0 then diff_failed FSD_ERR_SIZE_MISMATCH late []
      else
        (case fsd_stage_controller_create (de_controller env) (Some (dx_opts ctx)) src_blocks dest_blocks of
           Inl err \<Rightarrow> diff_failed err late []
         | Inr c \<Rightarrow>
             (case fsd_stage_controller_run g (de_controller env) (\<lambda>k. (False, de_stored env k)) src_data dest_data
                     (prepare_controller ctx c) of
                (err, c) \<Rightarrow>
                  if err \<noteq> FSD_SUCCESS
                  then diff_failed err (if err = FSD_ERR_CANCELLED then ctx\<lparr>dx_cancelled := False\<rparr> else late) (ct_reports c)
                  else finish_diff g env block_size dest_blocks src_data dest_data late c)))"

definition fsd_diff_files :: "simd_dispatch \<Rightarrow> diff_env \<Rightarrow> diff_ctx \<Rightarrow> diff_outcome" where
  "fsd_diff_files g_fsd_simd env ctx =
     (let opts = dx_opts ctx;
          late = ctx\<lparr>dx_cancelled := dx_cancelled ctx \<or> de_stored_late env\<rparr>
      in
      if \<not> de_paths env then diff_failed FSD_ERR_INVALID_ARG late []
      else
        let g_fsd_simd = (if do_force_scalar opts then fsd_simd_force_scalar g_fsd_simd else g_fsd_simd) in
        case open_images env opts of
          Inl err \<Rightarrow> diff_failed err late []
        | Inr (src_data, src_size, dest_data, dest_size) \<Rightarrow>
            diff_images g_fsd_simd env ctx late src_data src_size dest_data dest_size)"

section \<open>The copied streams\<close>

lemma copy_loop_copies:
  assumes "copy_loop copied src dst = (e, n, f)" and "fpos src \<le> length (fdata src)"
  shows "e \<in> {FSD_SUCCESS, FSD_ERR_IO} \<and>
    (e = FSD_SUCCESS \<longrightarrow> n = copied + (length (fdata src) - fpos src) \<and> f = fappend (drop (fpos src) (fdata src)) dst) \<and>
    (has_room (length (fdata src) - fpos src) dst \<longrightarrow> e = FSD_SUCCESS)"
  using assms
proof (induction copied src dst arbitrary: e n f rule: copy_loop.induct)
  case (1 copied src dst)
  let ?d = "bytes_at (fpos src) COPY_BUF_SIZE (fdata src)" and ?rest = "length (fdata src) - fpos src"
  define src' where "src' = src\<lparr>fpos := fpos src + length ?d\<rparr>"
  have fr: "fread COPY_BUF_SIZE src = (?d, src')" by (simp add: fread_def src'_def Let_def)
  have len: "length ?d = min COPY_BUF_SIZE ?rest" by (simp add: bytes_at_def)
  show ?case
  proof (cases "?d = []")
    case True
    then have "?rest = 0" using len by (simp add: COPY_BUF_SIZE_def)
    then show ?thesis using "1.prems" True fr copy_loop.simps[of copied src dst] by simp
  next
    case False
    obtain k dst' where w: "fwrite ?d dst = (k, dst')" by fastforce
    show ?thesis
    proof (cases "k = length ?d")
      case True
      have dst': "dst' = fappend ?d dst" using fwrite_complete[OF w True] .
      have "copy_loop (copied + length ?d) src' dst' = (e, n, f)"
        using "1.prems"(1) False w True fr copy_loop.simps[of copied src dst] by simp
      note IH = "1.IH"[OF fr[symmetric] False w[symmetric] _ this]
      have drop: "drop (fpos src) (fdata src) = ?d @ drop (fpos src + length ?d) (fdata src)"
        using append_take_drop_id[of COPY_BUF_SIZE "drop (fpos src) (fdata src)"]
        by (cases "COPY_BUF_SIZE \<le> ?rest") (simp_all add: bytes_at_def add.commute)
      have rest: "?rest = length ?d + (?rest - length ?d)" using len by simp
      have "has_room ?rest dst \<Longrightarrow> has_room (?rest - length ?d) dst'"
        using has_room_fappend[of ?d "?rest - length ?d" dst] rest dst' by simp
      then show ?thesis using IH True "1.prems"(2) len dst' drop by (simp add: src'_def)
    next
      case False2: False
      have "(FSD_ERR_IO, copied, dst') = (e, n, f)"
        using "1.prems"(1) False w False2 fr copy_loop.simps[of copied src dst] by simp
      moreover have "\<not> has_room ?rest dst"
        using fwrite_full[of ?d dst] has_room_mono[of ?rest dst "length ?d"] w False2 len by auto
      ultimately show ?thesis by auto
    qed
  qed
qed

lemma copy_stream_copies:
  assumes "fsd_copy_stream src expected dst = (e, f)"
  shows "e \<in> {FSD_SUCCESS, FSD_ERR_IO}"
    and "e = FSD_SUCCESS \<Longrightarrow> f = fappend (fdata src) dst \<and> expected = length (fdata src) \<and> fread_ok src"
    and "has_room (length (fdata src)) dst \<Longrightarrow> fread_ok src \<Longrightarrow> expected = length (fdata src) \<Longrightarrow> e = FSD_SUCCESS"
proof -
  obtain e' n f' where c: "copy_loop 0 (rewind src) dst = (e', n, f')" by (metis prod_cases3)
  note C = copy_loop_copies[OF c]
  show "e \<in> {FSD_SUCCESS, FSD_ERR_IO}" "e = FSD_SUCCESS \<Longrightarrow> f = fappend (fdata src) dst \<and> expected = length (fdata src) \<and> fread_ok src"
    "has_room (length (fdata src)) dst \<Longrightarrow> fread_ok src \<Longrightarrow> expected = length (fdata src) \<Longrightarrow> e = FSD_SUCCESS"
    using assms c C by (auto simp: fsd_copy_stream_def rewind_def split: if_splits)
qed

section \<open>The patch file\<close>

text \<open>Every writer has handed its bytes to its file.\<close>

definition flushed :: "writers \<Rightarrow> bool" where
  "flushed ws \<longleftrightarrow> writers_ok ws \<and>
     streams_of ws = (fdata (w_file (op_writer ws)), fdata (w_file (diff_writer ws)), fdata (w_file (lit_writer ws)))"

lemma flush_writers_ok:
  assumes "writers_ok ws" and "flush_writers ws = (e, ws')"
  shows "e \<in> {FSD_SUCCESS, FSD_ERR_IO}"
    and "e = FSD_SUCCESS \<Longrightarrow> flushed ws' \<and> streams_of ws' = streams_of ws"
proof -
  have ok: "writer_ok (op_writer ws)" "writer_ok (diff_writer ws)" "writer_ok (lit_writer ws)"
    using assms(1) by (simp_all add: writers_ok_def)
  obtain e1 w1 e2 w2 e3 w3 where f: "fsd_writer_flush (op_writer ws) = (e1, w1)" "fsd_writer_flush (diff_writer ws) = (e2, w2)"
    "fsd_writer_flush (lit_writer ws) = (e3, w3)" by (metis prod.exhaust)
  note F = writer_flush_ok(1,2)[OF ok(1) f(1)] writer_flush_ok(1,2)[OF ok(2) f(2)] writer_flush_ok(1,2)[OF ok(3) f(3)]
  show "e \<in> {FSD_SUCCESS, FSD_ERR_IO}"
    using assms(2) F(1,3,5) f by (auto simp: flush_writers_def Let_def split: if_splits)
  show "flushed ws' \<and> streams_of ws' = streams_of ws" if "e = FSD_SUCCESS"
    using assms(2) that F f by (auto simp: flush_writers_def flushed_def writers_ok_def streams_of_def Let_def split: if_splits)
qed

lemma write_output_ok:
  assumes "flushed ws" and "write_output n log2 ws out = (e, f)"
  shows "e \<in> {FSD_SUCCESS, FSD_ERR_IO}"
    and "e = FSD_SUCCESS \<Longrightarrow> fdata f = fdata out @ patch_file n log2 (streams_of ws)"
proof -
  let ?a = "fdata (w_file (op_writer ws))" and ?b = "fdata (w_file (diff_writer ws))" and ?c = "fdata (w_file (lit_writer ws))"
  have len: "fsd_writer_bytes_written (op_writer ws) = length ?a" "fsd_writer_bytes_written (diff_writer ws) = length ?b"
    "fsd_writer_bytes_written (lit_writer ws) = length ?c" and str: "streams_of ws = (?a, ?b, ?c)"
    using assms(1) by (auto simp: flushed_def writers_ok_def writer_bytes_written streams_of_def)
  let ?h = "header_bytes (of_nat n) (of_nat log2) (of_nat (length ?a)) (of_nat (length ?b))"
  obtain k f0 where h: "fwrite ?h out = (k, f0)" by fastforce
  obtain e1 f1 where 1: "fsd_copy_stream (w_file (op_writer ws)) (length ?a) f0 = (e1, f1)" by fastforce
  obtain e2 f2 where 2: "fsd_copy_stream (w_file (diff_writer ws)) (length ?b) f1 = (e2, f2)" by fastforce
  obtain e3 f3 where 3: "fsd_copy_stream (w_file (lit_writer ws)) (length ?c) f2 = (e3, f3)" by fastforce
  note C = copy_stream_copies(1,2)[OF 1] copy_stream_copies(1,2)[OF 2] copy_stream_copies(1,2)[OF 3]
  note run = assms(2)[unfolded write_output_def Let_def len fsd_header_write_def option.case h prod.case seqE_def]
  show "e \<in> {FSD_SUCCESS, FSD_ERR_IO}"
    using run C(1,3,5) 1 2 3 by (auto split: if_splits)
  show "fdata f = fdata out @ patch_file n log2 (streams_of ws)" if "e = FSD_SUCCESS"
  proof -
    have ok: "k = 32" "e1 = FSD_SUCCESS" "e2 = FSD_SUCCESS" "e3 = FSD_SUCCESS" "f = f3"
      using run that 1 2 3 by (auto simp: FSD_HEADER_SIZE_def split: if_splits)
    have "f0 = fappend ?h out" using fwrite_complete[OF h] ok(1) by simp
    then show ?thesis using C(2,4,6) ok str by (simp add: patch_file_def)
  qed
qed

text \<open>The temporary streams are created empty, and opening the output for writing truncates it.\<close>

definition fresh_files :: "diff_env \<Rightarrow> bool" where
  "fresh_files env \<longleftrightarrow> pred_option (\<lambda>f. fdata f = []) (de_op_file env) \<and> pred_option (\<lambda>f. fdata f = []) (de_diff_file env) \<and>
     pred_option (\<lambda>f. fdata f = []) (de_lit_file env) \<and> pred_option (\<lambda>f. fdata f = []) (de_fopen env)"

lemma encode_outcome:
  assumes "encodable dest (e_block_size enc) t" and "writers_ok s" and "fsd_op_encoder_encode mok enc t dest s = (e, enc', s')"
  shows "e \<in> {FSD_SUCCESS, FSD_ERR_IO, FSD_ERR_OUT_OF_MEMORY}" and "e = FSD_SUCCESS \<Longrightarrow> writers_ok s'"
proof -
  obtain e1 s1 where l: "encode_loop mok dest (e_block_size enc) t 0 s = (e1, s1)" by fastforce
  have "e = e1 \<and> s' = s1" using assms(3) l by (auto simp: fsd_op_encoder_encode_def split: if_splits)
  moreover have "e1 \<in> {FSD_SUCCESS, FSD_ERR_IO, FSD_ERR_OUT_OF_MEMORY}" "e1 = FSD_SUCCESS \<Longrightarrow> writers_ok s1"
    using encode_loop_emits[OF assms(1), of mok 0] assms(2) l unfolding emits_def by blast+
  ultimately show "e \<in> {FSD_SUCCESS, FSD_ERR_IO, FSD_ERR_OUT_OF_MEMORY}" "e = FSD_SUCCESS \<Longrightarrow> writers_ok s'" by auto
qed

text \<open>The contents of a patch file the encoder produced for a tracker.\<close>

definition encodes :: "bytes \<Rightarrow> nat \<Rightarrow> block_tracker \<Rightarrow> bytes \<Rightarrow> bool" where
  "encodes dest log2 t content \<longleftrightarrow>
     (\<exists>mok enc s enc' s'. e_block_size enc = 2 ^ log2 \<and> writers_ok s \<and> streams_of s = ([], [], []) \<and>
        fsd_op_encoder_encode mok enc t dest s = (FSD_SUCCESS, enc', s') \<and> content = patch_file (t_count t) log2 (streams_of s'))"

lemma created_writers:
  assumes "fsd_writer_create_from_file m1 (Some f1) 0 = Inr w1" and "fsd_writer_create_from_file m2 (Some f2) 0 = Inr w2"
    and "fsd_writer_create_from_file m3 (Some f3) 0 = Inr w3" and "fdata f1 = []" and "fdata f2 = []" and "fdata f3 = []"
  defines "ws \<equiv> \<lparr>op_writer = w1, diff_writer = w2, lit_writer = w3\<rparr>"
  shows "writers_ok ws" "streams_of ws = ([], [], [])"
  using assms(4-6) writer_create_ok[OF assms(1)] writer_create_ok[OF assms(2)] writer_create_ok[OF assms(3)]
  by (simp_all add: ws_def writers_ok_def streams_of_def)

lemma length_patch_file: "length (patch_file n log2 (a, b, c)) = FSD_HEADER_SIZE + length a + length b + length c"
  by (simp add: patch_file_def FSD_HEADER_SIZE_def)

lemma encode_patch_ok:
  assumes enc: "encodable dest (2 ^ log2) t" and fresh: "fresh_files env" and "de_op_file env = Some f1" and "de_diff_file env = Some f2"
    and "de_lit_file env = Some f3" and run: "encode_patch env log2 t dest (t_count t) f1 f2 f3 = (e, out, n)"
  shows "e \<notin> {UB_FAULT, FSD_ERR_CANCELLED}" and "e = FSD_SUCCESS \<Longrightarrow> \<exists>f. out = Some f \<and> encodes dest log2 t (fdata f) \<and> n = length (fdata f)"
proof -
  note files = fresh[unfolded fresh_files_def assms(3-5), simplified]
  let ?w1 = "fsd_writer_create_from_file (de_op_malloc env) (Some f1) 0" and
    ?w2 = "fsd_writer_create_from_file (de_diff_malloc env) (Some f2) 0" and
    ?w3 = "fsd_writer_create_from_file (de_lit_malloc env) (Some f3) 0"
  have "e \<notin> {UB_FAULT, FSD_ERR_CANCELLED} \<and> (e = FSD_SUCCESS \<longrightarrow> (\<exists>f. out = Some f \<and> encodes dest log2 t (fdata f) \<and> n = length (fdata f)))"
  proof (cases "\<exists>encoder w1 w2 w3. fsd_op_encoder_create (de_malloc env) (2 ^ log2) = Inr encoder \<and> ?w1 = Inr w1 \<and> ?w2 = Inr w2 \<and> ?w3 = Inr w3")
    case False
    then show ?thesis using run
      by (auto simp: encode_patch_def fsd_op_encoder_create_def Let_def split: sum.splits if_splits)
  next
    case True
    then obtain encoder w1 w2 w3 where c: "fsd_op_encoder_create (de_malloc env) (2 ^ log2) = Inr encoder"
      "?w1 = Inr w1" "?w2 = Inr w2" "?w3 = Inr w3" by blast
    let ?ws = "\<lparr>op_writer = w1, diff_writer = w2, lit_writer = w3\<rparr>"
    have ws: "writers_ok ?ws" "streams_of ?ws = ([], [], [])" using created_writers[OF c(2-4)] files by simp_all
    have bs: "e_block_size encoder = 2 ^ log2" using c(1) by (auto simp: fsd_op_encoder_create_def split: if_splits)
    obtain e1 enc' ws1 where e1: "fsd_op_encoder_encode (de_malloc env) encoder t dest ?ws = (e1, enc', ws1)" by (metis prod_cases3)
    obtain e2 ws2 where e2: "flush_writers ws1 = (e2, ws2)" by fastforce
    note E1 = encode_outcome[OF _ ws(1) e1, unfolded bs, OF enc]
    show ?thesis
    proof (cases "e1 = FSD_SUCCESS \<and> e2 = FSD_SUCCESS \<and> de_fopen env \<noteq> None")
      case False
      then show ?thesis using run c e1 e2 E1 flush_writers_ok(1)[of ws1 e2 ws2]
        by (auto simp: encode_patch_def Let_def split: if_splits option.splits)
    next
      case True
      then obtain fo where out: "de_fopen env = Some fo" by blast
      obtain e3 f where e3: "write_output (t_count t) log2 ws2 fo = (e3, f)" by fastforce
      have fl: "flushed ws2" "streams_of ws2 = streams_of ws1" using flush_writers_ok(2)[OF _ e2] E1(2) True by simp_all
      have emp: "fdata fo = []" using files out by simp
      have res: "e = e3" "out = Some f" "n = FSD_HEADER_SIZE + fsd_writer_bytes_written (op_writer ws2) +
          fsd_writer_bytes_written (diff_writer ws2) + fsd_writer_bytes_written (lit_writer ws2)"
        using run c e1 e2 e3 out True by (simp_all add: encode_patch_def Let_def)
      have n: "n = length (patch_file (t_count t) log2 (streams_of ws1))"
        using res(3) fl by (simp add: flushed_def writers_ok_def writer_bytes_written streams_of_def length_patch_file)
      have "fdata f = patch_file (t_count t) log2 (streams_of ws1)" if "e3 = FSD_SUCCESS"
        using write_output_ok(2)[OF fl(1) e3 that] emp fl(2) by simp
      moreover have "encodes dest log2 t (patch_file (t_count t) log2 (streams_of ws1))"
        unfolding encodes_def using bs ws e1 True by blast
      ultimately show ?thesis using res n write_output_ok(1)[OF fl(1) e3] by auto
    qed
  qed
  then show "e \<notin> {UB_FAULT, FSD_ERR_CANCELLED}" "e = FSD_SUCCESS \<Longrightarrow> \<exists>f. out = Some f \<and> encodes dest log2 t (fdata f) \<and> n = length (fdata f)" by blast+
qed

lemma write_patch_ok:
  assumes "encodable dest (2 ^ log2) t" and "fresh_files env" and "write_patch env log2 t dest (t_count t) = (e, out, n, temps)"
  shows "e \<notin> {UB_FAULT, FSD_ERR_CANCELLED}" and "temps = []"
    and "e = FSD_SUCCESS \<Longrightarrow> \<exists>f. out = Some f \<and> encodes dest log2 t (fdata f) \<and> n = length (fdata f)"
    and "e \<noteq> FSD_SUCCESS \<Longrightarrow> fsd_path_is_regular_or_missing (de_out_stat env) (de_out_kind env) \<Longrightarrow> out = None"
proof -
  show "temps = []"
    using assms(3) by (auto simp: write_patch_def fsd_create_temp_file_def fsd_unlink_def Let_def split: if_splits option.splits prod.splits)
  show "e \<notin> {UB_FAULT, FSD_ERR_CANCELLED}" "e = FSD_SUCCESS \<Longrightarrow> \<exists>f. out = Some f \<and> encodes dest log2 t (fdata f) \<and> n = length (fdata f)"
    "e \<noteq> FSD_SUCCESS \<Longrightarrow> fsd_path_is_regular_or_missing (de_out_stat env) (de_out_kind env) \<Longrightarrow> out = None"
    using assms(3) encode_patch_ok[OF assms(1,2)]
    by (auto simp: write_patch_def Let_def split: if_splits option.splits prod.splits)
qed

section \<open>The match log\<close>

lemma match_log_row_safe:
  assumes "blocks_right src dest bs t" and "i < t_count t" and "bs < 2 ^ 62" and "length dest < 2 ^ 62"
  shows "match_log_row count_fn t src dest bs i \<noteq> None"
proof -
  have get: "fsd_block_tracker_get t i \<noteq> None"
    using assms(1,2) by (simp add: fsd_block_tracker_get_def blocks_right_def)
  have "(i + 1) * bs \<le> t_count t * bs" using assms(2) by (intro mult_le_mono1) simp
  then have le: "i * bs + bs \<le> length dest" using assms(1) by (simp add: blocks_right_def)
  then have pos: "s64 (int (i * bs)) = int (i * bs)" using assms(4) by (intro s64_of_nat) simp
  have "count_at count_fn src (nat (s64 p)) dest (nat (s64 (int (i * bs)))) bs \<noteq> None" if "pos_ok (length src) bs (s64 p)" for p
    using that pos_ok_iff[OF assms(3), of "s64 p" "length src"] s64_bounds[of p] le unfolding pos nat_int by (simp add: count_at_def)
  then show ?thesis using get by (auto simp: match_log_row_def Let_def simp del: s64_add_s64)
qed

lemma those_Some: "(\<And>x. x \<in> set xs \<Longrightarrow> f x \<noteq> None) \<Longrightarrow> \<exists>ys. those (map f xs) = Some ys"
  by (induction xs) fastforce+

lemma match_log_safe:
  assumes "blocks_right src dest bs t" and "bs < 2 ^ 62" and "length dest < 2 ^ 62"
  shows "fsd_write_match_log count_fn t src dest bs \<noteq> None"
  using those_Some[of "[0..<t_count t]" "match_log_row count_fn t src dest bs"] match_log_row_safe[OF assms(1) _ assms(2,3)]
  by (auto simp: fsd_write_match_log_def)

section \<open>What a call does\<close>

text \<open>The context is one \<^verbatim>\<open>fsd_diff_create\<close> accepts, the images and files behave as the system documents.\<close>

definition diff_call :: "simd_dispatch \<Rightarrow> diff_env \<Rightarrow> diff_ctx \<Rightarrow> bool" where
  "diff_call g env ctx \<longleftrightarrow> dispatch_ok g \<and> 5 \<le> do_block_size_log2 (dx_opts ctx) \<and> do_block_size_log2 (dx_opts ctx) \<le> 24 \<and>
     do_search_radius (dx_opts ctx) < 2 ^ 31 \<and> honest_path (de_src env) \<and> honest_path (de_dest env) \<and>
     length (p_content (de_src env)) < 2 ^ 62 \<and> length (p_content (de_dest env)) < 2 ^ 62 \<and> fresh_files env"

definition diff_sound :: "bytes \<Rightarrow> bytes \<Rightarrow> diff_env \<Rightarrow> diff_ctx \<Rightarrow> diff_outcome \<Rightarrow> bool" where
  "diff_sound src dest env ctx r \<longleftrightarrow> dr_error r \<noteq> UB_FAULT \<and> dr_temps r = [] \<and> dx_opts (dr_ctx r) = dx_opts ctx \<and>
     dx_cancelled (dr_ctx r) = ((dx_cancelled ctx \<or> de_stored_late env) \<and> dr_error r \<noteq> FSD_ERR_CANCELLED) \<and>
     (if dr_error r = FSD_SUCCESS
      then \<exists>t f. let log2 = do_block_size_log2 (dx_opts ctx) in
        finished src dest (2 ^ log2) t \<and> dr_output r = Some f \<and> encodes dest log2 t (fdata f) \<and>
        dx_stats (dr_ctx r) = stats_of (t_count t) t (length (fdata f))
      else dx_stats (dr_ctx r) = dx_stats ctx \<and>
        (fsd_path_is_regular_or_missing (de_out_stat env) (de_out_kind env) \<longrightarrow> dr_output r = None))"

lemma diff_failed_sound:
  "e \<notin> {FSD_SUCCESS, UB_FAULT, FSD_ERR_CANCELLED} \<Longrightarrow> dx_stats ctx' = dx_stats ctx \<Longrightarrow> dx_opts ctx' = dx_opts ctx \<Longrightarrow>
    dx_cancelled ctx' = (dx_cancelled ctx \<or> de_stored_late env) \<Longrightarrow> diff_sound src dest env ctx (diff_failed e ctx' rs)"
  "diff_sound src dest env ctx (diff_failed FSD_ERR_CANCELLED (ctx\<lparr>dx_cancelled := False\<rparr>) rs)"
  by (simp_all add: diff_sound_def diff_failed_def)

lemma source_data_size: "fsd_source_reader_data r = (e, d, r') \<Longrightarrow> fsd_source_reader_size r' = fsd_source_reader_size r"
  by (auto simp: fsd_source_reader_data_def direct_materialize_def fsd_source_reader_size_def split: if_splits prod.splits)

lemma open_images_ok:
  assumes "honest_path (de_src env)" and "honest_path (de_dest env)"
  shows "open_images env opts = Inl e \<Longrightarrow> e \<notin> {FSD_SUCCESS, UB_FAULT, FSD_ERR_CANCELLED}"
    and "open_images env opts = Inr (sd, ss, dd, ds) \<Longrightarrow> ss = length (p_content (de_src env)) \<and> ds = length (p_content (de_dest env)) \<and>
      sd \<in> {None, Some (p_content (de_src env))} \<and> dd \<in> {None, Some (p_content (de_dest env))}"
proof -
  show "e \<notin> {FSD_SUCCESS, UB_FAULT, FSD_ERR_CANCELLED}" if run: "open_images env opts = Inl e"
  proof (cases "fsd_source_reader_open (de_src env) (do_source_mode opts)")
    case (Inl e1)
    then show ?thesis using run source_open_errors[OF Inl] by (auto simp: open_images_def)
  next
    case (Inr r)
    obtain e2 d r' where d: "fsd_source_reader_data r = (e2, d, r')" by (metis prod_cases3)
    show ?thesis using run Inr d source_data_content(1)[OF source_open_ok(1)[OF assms(1) Inr] d] mmap_open_errors[of "de_dest env"]
      by (auto simp: open_images_def split: sum.splits if_splits)
  qed
  show "ss = length (p_content (de_src env)) \<and> ds = length (p_content (de_dest env)) \<and>
      sd \<in> {None, Some (p_content (de_src env))} \<and> dd \<in> {None, Some (p_content (de_dest env))}"
    if run: "open_images env opts = Inr (sd, ss, dd, ds)"
  proof -
    obtain r m where r: "fsd_source_reader_open (de_src env) (do_source_mode opts) = Inr r" and m: "fsd_mmap_open (de_dest env) = Inr m"
      using run by (auto simp: open_images_def split: sum.splits)
    obtain e2 d r' where d: "fsd_source_reader_data r = (e2, d, r')" by (metis prod_cases3)
    have res: "e2 = FSD_SUCCESS" "sd = map_option (take (fsd_source_reader_size r')) d" "ss = fsd_source_reader_size r'"
      "dd = fsd_mmap_data m" "ds = fsd_mmap_size m"
      using run r m d by (auto simp: open_images_def split: if_splits)
    note R = source_open_ok[OF assms(1) r]
    show ?thesis
      using res source_data_content(2)[OF R(1) d] source_size[OF R(1)] R(2) source_data_size[OF d] mmap_open_content[OF assms(2) m]
      by (cases d) (auto simp: fsd_mmap_data_def fsd_mmap_size_def mmap_bytes_def split: option.splits)
  qed
qed

lemma create_controller_errors:
  assumes "fsd_stage_controller_create env (Some opts) n m = Inl e" and "do_block_size_log2 opts \<le> 24"
  shows "e \<in> {FSD_ERR_INVALID_ARG, FSD_ERR_OUT_OF_MEMORY}"
proof -
  have pool: "fsd_pool_create A b sz mx = Inl e' \<Longrightarrow> e' \<in> {FSD_ERR_INVALID_ARG, FSD_ERR_OUT_OF_MEMORY}" for A b sz mx e'
    by (auto simp: fsd_pool_create_def Let_def split: if_splits prod.splits option.splits)
  have stages: "fsd_identity_stage_create b k = Inl e' \<Longrightarrow> e' \<in> {FSD_ERR_INVALID_ARG, FSD_ERR_OUT_OF_MEMORY}"
    "fsd_relocation_stage_create b A b' k j = Inl e' \<Longrightarrow> e' \<in> {FSD_ERR_INVALID_ARG, FSD_ERR_OUT_OF_MEMORY}"
    "fsd_fsmap_stage_create b k th ra = Inl e' \<Longrightarrow> e' \<in> {FSD_ERR_INVALID_ARG, FSD_ERR_OUT_OF_MEMORY}"
    "fsd_partial_stage_create b k th ra = Inl e' \<Longrightarrow> e' \<in> {FSD_ERR_INVALID_ARG, FSD_ERR_OUT_OF_MEMORY}" for b b' k j A th ra e'
    using pool by (auto simp: fsd_identity_stage_create_def fsd_relocation_stage_create_def fsd_fsmap_stage_create_def
        fsd_partial_stage_create_def split: if_splits sum.splits)
  have made: "make_stage en r = Inl e' \<Longrightarrow> r = Inl e'" for en and r :: "fsd_error + 'z" and e'
    by (cases r) (auto simp: make_stage_def split: if_splits)
  have "create_stages env th ra n c0 = Inl e' \<Longrightarrow> e' \<in> {FSD_ERR_INVALID_ARG, FSD_ERR_OUT_OF_MEMORY}" for th ra c0 e'
    unfolding create_stages_def by (auto split: sum.splits dest!: made stages)
  moreover have "fsd_block_tracker_create mok m k = Inl e' \<Longrightarrow> e' \<in> {FSD_ERR_INVALID_ARG, FSD_ERR_OUT_OF_MEMORY}" for mok k e'
    by (auto simp: fsd_block_tracker_create_def Let_def split: if_splits)
  ultimately show ?thesis
    using assms pool by (fastforce simp: fsd_stage_controller_create_def Let_def split: if_splits sum.splits)
qed

lemma finish_diff_sound:
  assumes "finished src dest bs (ct_tracker c)" and "bs = 2 ^ do_block_size_log2 (dx_opts ctx)" and "n = t_count (ct_tracker c)"
    and "do_block_size_log2 (dx_opts ctx) \<le> 24" and "length dest < 2 ^ 62" and "fresh_files env"
    and "dx_stats ctx = dx_stats ctx0" and "dx_opts ctx = dx_opts ctx0" and "dx_cancelled ctx = (dx_cancelled ctx0 \<or> de_stored_late env)"
  shows "diff_sound src dest env ctx0 (finish_diff g env bs n (Some src) (Some dest) ctx c)"
proof -
  let ?t = "ct_tracker c" and ?log2 = "do_block_size_log2 (dx_opts ctx)"
  have bs: "0 < bs" "bs \<le> 2 ^ 24" using assms(2,4) power_increasing[of ?log2 24 "2 :: nat"] by simp_all
  have right: "blocks_right src dest bs ?t" using assms(1) by (simp add: finished_def)
  have "encodable dest (2 ^ ?log2) ?t"
    using blocks_right_encodable[OF right _ bs] assms(2,5) by simp
  note W = write_patch_ok[OF this assms(6)]
  have "fsd_write_match_log cf ?t src dest bs \<noteq> None" for cf
    using match_log_safe[OF right _ assms(5)] bs(2) by simp
  then obtain rows where rows: "fsd_write_match_log (fsd_block_search_count_fn g) ?t src dest bs = Some rows" by blast
  obtain e out k temps where w: "write_patch env ?log2 ?t dest (t_count ?t) = (e, out, k, temps)" by (metis prod_cases4)
  define lg where "lg = (if de_match_log env \<and> de_match_log_fopen env then Some rows else None)"
  have "finish_diff g env bs n (Some src) (Some dest) ctx c =
    \<lparr>dr_error = e, dr_ctx = (if e = FSD_SUCCESS then ctx\<lparr>dx_stats := stats_of n ?t k\<rparr> else ctx),
      dr_output = out, dr_temps = temps, dr_log = lg, dr_reports = ct_reports c\<rparr>"
    using rows w by (simp add: finish_diff_def fsd_stage_controller_get_tracker_def assms(3) lg_def Let_def)
  then show ?thesis
    using W[OF w] assms(1,2,3,7,8,9) by (auto simp: diff_sound_def Let_def)
qed

lemma prepare_controller_keeps:
  assumes "ctl_inv src dest bs c \<and> stages_ready g src dest bs c"
  shows "ctl_inv src dest bs (prepare_controller ctx c)" "stages_ready g src dest bs (prepare_controller ctx c)"
  using assms setters_keep[of src dest bs _ g] by (auto simp: prepare_controller_def Let_def)

lemma force_scalar_ok: "dispatch_ok g \<Longrightarrow> dispatch_ok (if b then fsd_simd_force_scalar g else g)"
  by (simp add: fsd_simd_force_scalar_def dispatch_ok_tables)

lemma diff_images_sound:
  assumes call: "diff_call g env ctx" and src: "src = p_content (de_src env)" and dest: "dest = p_content (de_dest env)"
    and late: "dx_stats late = dx_stats ctx" "dx_opts late = dx_opts ctx" "dx_cancelled late = (dx_cancelled ctx \<or> de_stored_late env)"
    and data: "sd \<in> {None, Some src}" "dd \<in> {None, Some dest}"
  shows "diff_sound src dest env ctx (diff_images g env ctx late sd (length src) dd (length dest))"
proof -
  let ?opts = "dx_opts ctx" and ?bs = "2 ^ do_block_size_log2 (dx_opts ctx) :: nat"
  let ?stored = "\<lambda>k. (False, de_stored env k)"
  note call = call[unfolded diff_call_def, folded src dest]
  note failed = diff_failed_sound(1)[where ctx = ctx and src = src and dest = dest and env = env]
  have ready: "diff_setup g ?opts src dest" if "length dest mod ?bs = 0"
    using call that by (simp add: diff_setup_def dvd_eq_mod_eq_0)
  have created: "e \<notin> {FSD_SUCCESS, UB_FAULT, FSD_ERR_CANCELLED}"
    if "fsd_stage_controller_create (de_controller env) (Some ?opts) n m = Inl e" for n m e
    using create_controller_errors[OF that] call by auto
  have ran: "diff_sound src dest env ctx (diff_images g env ctx late sd (length src) dd (length dest))"
    if c: "fsd_stage_controller_create (de_controller env) (Some ?opts) (length src div ?bs) (length dest div ?bs) = Inr c"
      and dvd: "length dest mod ?bs = 0" for c
  proof (cases "sd = None \<or> dd = None")
    case True
    then have "fsd_stage_controller_run g (de_controller env) ?stored sd dd (prepare_controller ctx c) =
        (FSD_ERR_INVALID_ARG, prepare_controller ctx c)"
      by (auto simp: fsd_stage_controller_run_def split: option.splits)
    then show ?thesis using c dvd failed[OF _ late] by (simp add: diff_images_def Let_def)
  next
    case False
    then have data: "sd = Some src" "dd = Some dest" using data by auto
    have inv: "ctl_inv src dest ?bs (prepare_controller ctx c)" "stages_ready g src dest ?bs (prepare_controller ctx c)"
      using create_controller_ok[OF c ready[OF dvd] refl] prepare_controller_keeps[of src dest ?bs c g] by blast+
    obtain e c' where go: "fsd_stage_controller_run g (de_controller env) ?stored (Some src) (Some dest) (prepare_controller ctx c) = (e, c')"
      and e: "e \<in> {FSD_SUCCESS, FSD_ERR_OUT_OF_MEMORY, FSD_ERR_CANCELLED}"
      and fin: "e = FSD_SUCCESS \<Longrightarrow> finished src dest ?bs (ct_tracker c')" "t_count (ct_tracker c') = length dest div ?bs"
      using run_ok[OF inv refl, of "de_controller env" ?stored] by blast
    show ?thesis
    proof (cases "e = FSD_SUCCESS")
      case True
      have "diff_sound src dest env ctx (finish_diff g env ?bs (length dest div ?bs) (Some src) (Some dest) late c')"
        by (rule finish_diff_sound[OF fin(1)[OF True]]) (use call fin(2) late in simp_all)
      then show ?thesis using dvd c data go True by (simp add: diff_images_def Let_def)
    next
      case False
      then show ?thesis using dvd c data go e late by (auto simp: diff_images_def Let_def intro!: diff_failed_sound)
    qed
  qed
  show ?thesis
  proof (cases "length dest mod ?bs = 0")
    case True
    then show ?thesis using ran[OF _ True] created failed[OF _ late]
      by (cases "fsd_stage_controller_create (de_controller env) (Some ?opts) (length src div ?bs) (length dest div ?bs)")
        (auto simp: diff_images_def)
  qed (use failed[OF _ late] in \<open>simp add: diff_images_def\<close>)
qed

lemma diff_files_ok:
  assumes call: "diff_call g env ctx"
  shows "diff_sound (p_content (de_src env)) (p_content (de_dest env)) env ctx (fsd_diff_files g env ctx)"
proof (cases "de_paths env")
  case True
  define g' where "g' = (if do_force_scalar (dx_opts ctx) then fsd_simd_force_scalar g else g)"
  have honest: "honest_path (de_src env)" "honest_path (de_dest env)" using call by (simp_all add: diff_call_def)
  have "diff_call g' env ctx" using call force_scalar_ok[of g] by (simp add: diff_call_def g'_def)
  note sound = diff_images_sound[OF this refl refl]
  show ?thesis
  proof (cases "open_images env (dx_opts ctx)")
    case (Inl e)
    then show ?thesis using open_images_ok(1)[OF honest Inl] True by (simp add: fsd_diff_files_def Let_def diff_failed_sound)
  next
    case (Inr r)
    obtain sd ss dd ds where r: "r = (sd, ss, dd, ds)" by (metis prod_cases4)
    note im = open_images_ok(2)[OF honest Inr[unfolded r]]
    have "fsd_diff_files g env ctx = diff_images g' env ctx (ctx\<lparr>dx_cancelled := dx_cancelled ctx \<or> de_stored_late env\<rparr>)
        sd (length (p_content (de_src env))) dd (length (p_content (de_dest env)))"
      using Inr r True im by (simp add: fsd_diff_files_def Let_def g'_def)
    then show ?thesis using sound[of "ctx\<lparr>dx_cancelled := dx_cancelled ctx \<or> de_stored_late env\<rparr>" sd dd] im by simp
  qed
qed (simp add: fsd_diff_files_def diff_failed_sound)

section \<open>When the system does not fail\<close>

definition unlimited :: "FILE \<Rightarrow> bool" where
  "unlimited f \<longleftrightarrow> fdata f = [] \<and> fspace f = None \<and> fflush_ok f \<and> fread_ok f \<and> fclose_ok f"

lemma has_room_unlimited: "fspace f = None \<Longrightarrow> has_room n f"
  by (simp add: has_room_def)

lemma flush_writers_live:
  assumes "writers_ok ws" and "writers_room 0 0 0 ws" and "flush_writers ws = (e, ws')"
  shows "e = FSD_SUCCESS \<and> fread_ok (w_file (op_writer ws')) \<and> fread_ok (w_file (diff_writer ws')) \<and> fread_ok (w_file (lit_writer ws'))"
proof -
  have ok: "writer_ok (op_writer ws)" "writer_ok (diff_writer ws)" "writer_ok (lit_writer ws)"
    and room: "writer_room 0 (op_writer ws)" "writer_room 0 (diff_writer ws)" "writer_room 0 (lit_writer ws)"
    using assms(1,2) by (simp_all add: writers_ok_def writers_room_def)
  obtain e1 w1 e2 w2 e3 w3 where f: "fsd_writer_flush (op_writer ws) = (e1, w1)" "fsd_writer_flush (diff_writer ws) = (e2, w2)"
    "fsd_writer_flush (lit_writer ws) = (e3, w3)" by (metis prod.exhaust)
  have s: "e1 = FSD_SUCCESS" "e2 = FSD_SUCCESS" "e3 = FSD_SUCCESS"
    using writer_flush_ok(3)[OF ok(1) f(1), of 0] writer_flush_ok(3)[OF ok(2) f(2), of 0] writer_flush_ok(3)[OF ok(3) f(3), of 0] room
    by (simp_all add: writer_room_def)
  show ?thesis
    using assms(3) f s room writer_flush_flags[OF f(1)] writer_flush_flags[OF f(2)] writer_flush_flags[OF f(3)]
    by (auto simp: flush_writers_def writer_room_def Let_def)
qed

lemma write_output_live:
  assumes "flushed ws" and "fread_ok (w_file (op_writer ws))" and "fread_ok (w_file (diff_writer ws))" and "fread_ok (w_file (lit_writer ws))"
    and "fspace out = None" and "fclose_ok out"
  shows "fst (write_output n log2 ws out) = FSD_SUCCESS"
proof -
  let ?a = "fdata (w_file (op_writer ws))" and ?b = "fdata (w_file (diff_writer ws))" and ?c = "fdata (w_file (lit_writer ws))"
  have len: "fsd_writer_bytes_written (op_writer ws) = length ?a" "fsd_writer_bytes_written (diff_writer ws) = length ?b"
    "fsd_writer_bytes_written (lit_writer ws) = length ?c"
    using assms(1) by (auto simp: flushed_def writers_ok_def writer_bytes_written streams_of_def)
  have copy: "fsd_copy_stream src (length (fdata src)) f = (FSD_SUCCESS, fappend (fdata src) f)"
    if "fread_ok src" "fspace f = None" for src f
    using copy_stream_copies(2,3)[of src "length (fdata src)" f] that has_room_unlimited[of f] by (metis prod.collapse)
  have app: "fspace (fappend d f) = None" if "fspace f = None" for d f using that by (simp add: fappend_def)
  have "fwrite h out = (length h, fappend h out)" for h
    by (rule fwrite_full) (rule has_room_unlimited[OF assms(5)])
  then show ?thesis
    using assms(2-6) by (simp add: write_output_def Let_def len fsd_header_write_def seqE_def copy app FSD_HEADER_SIZE_def)
qed

lemma created_unlimited:
  assumes "unlimited f"
  obtains w where "fsd_writer_create_from_file (\<lambda>_. True) (Some f) 0 = Inr w" "\<And>n. writer_room n w"
  using assms has_room_unlimited[of f]
  by (auto simp: fsd_writer_create_from_file_def unlimited_def writer_room_def Let_def)

definition files_work :: "diff_env \<Rightarrow> bool" where
  "files_work env \<longleftrightarrow> de_op_fd env \<and> de_diff_fd env \<and> de_lit_fd env \<and> (\<exists>f. de_op_file env = Some f \<and> unlimited f) \<and>
     (\<exists>f. de_diff_file env = Some f \<and> unlimited f) \<and> (\<exists>f. de_lit_file env = Some f \<and> unlimited f) \<and>
     (\<exists>f. de_fopen env = Some f \<and> unlimited f) \<and> de_op_malloc env = (\<lambda>_. True) \<and> de_diff_malloc env = (\<lambda>_. True) \<and>
     de_lit_malloc env = (\<lambda>_. True) \<and> de_malloc env = (\<lambda>_. True)"

lemma files_work_fresh: "files_work env \<Longrightarrow> fresh_files env"
  by (auto simp: files_work_def fresh_files_def unlimited_def)

lemma write_patch_live:
  assumes work: "files_work env" and enc: "encodable dest (2 ^ log2) t"
  shows "fst (write_patch env log2 t dest n) = FSD_SUCCESS"
proof -
  obtain f1 f2 f3 f4 where f: "de_op_file env = Some f1" "de_diff_file env = Some f2" "de_lit_file env = Some f3" "de_fopen env = Some f4"
    and un: "unlimited f1" "unlimited f2" "unlimited f3" "unlimited f4"
    and m: "de_op_malloc env = (\<lambda>_. True)" "de_diff_malloc env = (\<lambda>_. True)" "de_lit_malloc env = (\<lambda>_. True)" "de_malloc env = (\<lambda>_. True)"
    using work by (auto simp: files_work_def)
  obtain w1 w2 w3 where w: "fsd_writer_create_from_file (\<lambda>_. True) (Some f1) 0 = Inr w1"
    "fsd_writer_create_from_file (\<lambda>_. True) (Some f2) 0 = Inr w2" "fsd_writer_create_from_file (\<lambda>_. True) (Some f3) 0 = Inr w3"
    and room: "\<And>n. writer_room n w1" "\<And>n. writer_room n w2" "\<And>n. writer_room n w3"
    using created_unlimited[OF un(1)] created_unlimited[OF un(2)] created_unlimited[OF un(3)] by metis
  let ?ws = "\<lparr>op_writer = w1, diff_writer = w2, lit_writer = w3\<rparr>"
  let ?enc = "\<lparr>e_block_size = 2 ^ log2, e_op_bytes = 0, e_diff_bytes = 0, e_literal_bytes = 0\<rparr>"
  have ws: "writers_ok ?ws" using created_writers[OF w] un by (simp add: unlimited_def)
  obtain e1 ws1 where l: "encode_loop (\<lambda>_. True) dest (2 ^ log2) t 0 ?ws = (e1, ws1)" by fastforce
  have "\<And>x y z. writers_room x y z ?ws" using room by (simp add: writers_room_def)
  then have e1: "e1 = FSD_SUCCESS" "writers_ok ws1" "writers_room 0 0 0 ws1"
    using encode_loop_emits[OF enc, of "\<lambda>_. True" 0] l ws unfolding emits_def by (metis (no_types, lifting))+
  obtain e2 ws2 where fl: "flush_writers ws1 = (e2, ws2)" by fastforce
  note live = flush_writers_live[OF e1(2,3) fl]
  have "fst (write_output n log2 ws2 f4) = FSD_SUCCESS"
    using write_output_live flush_writers_ok(2)[OF e1(2) fl] live un(4) by (simp add: unlimited_def)
  then obtain f5 where "write_output n log2 ws2 f4 = (FSD_SUCCESS, f5)" by (metis prod.collapse)
  then have "fst (encode_patch env log2 t dest n f1 f2 f3) = FSD_SUCCESS"
    using f m w l e1(1) fl live
    by (simp add: encode_patch_def fsd_op_encoder_create_def fsd_op_encoder_encode_def Let_def split: prod.split)
  then obtain fo k where "encode_patch env log2 t dest n f1 f2 f3 = (FSD_SUCCESS, fo, k)" by (metis prod.collapse)
  then show ?thesis
    using work f by (simp add: write_patch_def files_work_def Let_def)
qed

text \<open>With the identity stage alone the run of the controller cannot fail.\<close>

definition identity_only :: "diff_options \<Rightarrow> bool" where
  "identity_only opts \<longleftrightarrow> do_enable_identity opts \<and> \<not> do_enable_relocation opts \<and> \<not> do_enable_fsmap opts \<and> \<not> do_enable_partial opts"

definition memory_works :: "controller_env \<Rightarrow> bool" where
  "memory_works env \<longleftrightarrow> ce_calloc env \<and> ce_tracker env = (\<lambda>_. True) \<and> ce_pool_struct env \<and> ce_identity env \<and>
     al_header (ce_pool env) 0 \<and> al_data (ce_pool env) 0 (4 * 1024 * 1024) \<noteq> None"

lemma identity_controller_created:
  assumes "identity_only opts" and "memory_works env" and "do_block_size_log2 opts \<le> 24" and "0 < m"
  obtains c where "fsd_stage_controller_create env (Some opts) n m = Inr c" "ct_relocation c = None" "ct_fsmap c = None"
    "ct_partial c = None" "\<not> ct_cancelled c"
  using assms
  by (auto simp: fsd_stage_controller_create_def create_stages_def make_stage_def identity_only_def memory_works_def
      fsd_block_tracker_create_def fsd_pool_create_def create_chunk_def fsd_identity_stage_create_def Let_def)

lemma prepare_controller_sel [simp]:
  "ct_cancelled (prepare_controller ctx c) = ct_cancelled c" "ct_ext_cancel (prepare_controller ctx c) = Some (dx_cancelled ctx)"
  by (simp_all add: prepare_controller_def Let_def fsd_stage_controller_set_cancel_flag_def fsd_stage_controller_set_progress_def
      fsd_stage_controller_set_verbose_def fsd_stage_controller_set_verbose_identity_def
      fsd_stage_controller_set_verbose_relocation_def fsd_stage_controller_set_verbose_fsmap_def
      fsd_stage_controller_set_verbose_partial_def)

text \<open>A stage that is enabled exists.\<close>

lemma created_stages_exist:
  assumes "fsd_stage_controller_create env (Some opts) n m = Inr c"
  shows "do_enable_identity opts \<Longrightarrow> ct_enable_identity c \<and> ct_identity c \<noteq> None"
    "do_enable_relocation opts \<Longrightarrow> ct_enable_relocation c \<and> ct_relocation c \<noteq> None"
    "do_enable_fsmap opts \<Longrightarrow> ct_enable_fsmap c \<and> ct_fsmap c \<noteq> None"
    "do_enable_partial opts \<Longrightarrow> ct_enable_partial c \<and> ct_partial c \<noteq> None"
    "ct_reports c = []"
proof -
  obtain th ra c0 where c0: "create_stages env th ra n c0 = Inr c" and en: "ct_enable_identity c0 = do_enable_identity opts"
    "ct_enable_relocation c0 = do_enable_relocation opts" "ct_enable_fsmap c0 = do_enable_fsmap opts"
    "ct_enable_partial c0 = do_enable_partial opts" "ct_reports c0 = []"
    using assms by (auto simp: fsd_stage_controller_create_def Let_def split: if_splits sum.splits)
  show "do_enable_identity opts \<Longrightarrow> ct_enable_identity c \<and> ct_identity c \<noteq> None"
    "do_enable_relocation opts \<Longrightarrow> ct_enable_relocation c \<and> ct_relocation c \<noteq> None"
    "do_enable_fsmap opts \<Longrightarrow> ct_enable_fsmap c \<and> ct_fsmap c \<noteq> None"
    "do_enable_partial opts \<Longrightarrow> ct_enable_partial c \<and> ct_partial c \<noteq> None" "ct_reports c = []"
    by (rule create_stages_cases[OF c0], use en make_stage_None in fastforce)+
qed

lemma prepare_controller_enabled [simp]:
  "ct_enable_identity (prepare_controller ctx c) = ct_enable_identity c" "ct_identity (prepare_controller ctx c) = None \<longleftrightarrow> ct_identity c = None"
  "ct_enable_relocation (prepare_controller ctx c) = ct_enable_relocation c" "ct_relocation (prepare_controller ctx c) = None \<longleftrightarrow> ct_relocation c = None"
  "ct_enable_fsmap (prepare_controller ctx c) = ct_enable_fsmap c" "ct_fsmap (prepare_controller ctx c) = None \<longleftrightarrow> ct_fsmap c = None"
  "ct_enable_partial (prepare_controller ctx c) = ct_enable_partial c" "ct_partial (prepare_controller ctx c) = None \<longleftrightarrow> ct_partial c = None"
  by (simp_all add: prepare_controller_def Let_def fsd_stage_controller_set_cancel_flag_def fsd_stage_controller_set_progress_def
      fsd_stage_controller_set_verbose_def fsd_stage_controller_set_verbose_identity_def
      fsd_stage_controller_set_verbose_relocation_def fsd_stage_controller_set_verbose_fsmap_def
      fsd_stage_controller_set_verbose_partial_def)

lemma identity_run_live:
  assumes "stages_ready g src dest bs c" and "ct_relocation c = None" and "ct_fsmap c = None" and "ct_partial c = None"
    and "\<And>k. \<not> controller_cancelled c (stored k)"
  shows "fst (fsd_stage_controller_run g env stored (Some src) (Some dest) c) = FSD_SUCCESS"
proof -
  obtain e c' where i: "identity_step g stored src dest c = (e, c')" by fastforce
  have "e = FSD_SUCCESS"
    using i assms(1,5) by (auto simp: identity_step_def stages_ready_def identity_run_eq after_stage_def split: option.splits if_splits)
  then show ?thesis
    using step_frames(1)[OF i] i assms(2-4)
    by (simp add: fsd_stage_controller_run_def seqE_def relocation_step_def fsmap_step_def partial_step_def finish_def)
qed

lemma finish_diff_error:
  assumes "blocks_right src dest bs (ct_tracker c)" and "bs < 2 ^ 62" and "length dest < 2 ^ 62"
  shows "dr_error (finish_diff g env bs n (Some src) (Some dest) ctx c) =
    fst (write_patch env (do_block_size_log2 (dx_opts ctx)) (ct_tracker c) dest n)"
  using match_log_safe[OF assms, of "fsd_block_search_count_fn g"]
  by (auto simp: finish_diff_def fsd_stage_controller_get_tracker_def Let_def split: prod.split)

lemma identity_images_live:
  assumes call: "diff_call g env ctx" and only: "identity_only (dx_opts ctx)" and mem: "memory_works (de_controller env)"
    and work: "files_work env" and quiet: "\<not> dx_cancelled ctx" "\<And>k. \<not> de_stored env k"
    and src: "src = p_content (de_src env)" and dest: "dest = p_content (de_dest env)" "dest \<noteq> []"
    and dvd: "length dest mod 2 ^ do_block_size_log2 (dx_opts ctx) = 0" and late: "dx_opts late = dx_opts ctx"
  shows "dr_error (diff_images g env ctx late (Some src) (length src) (Some dest) (length dest)) = FSD_SUCCESS"
proof -
  let ?opts = "dx_opts ctx" and ?bs = "2 ^ do_block_size_log2 (dx_opts ctx) :: nat"
  let ?stored = "\<lambda>k. (False, de_stored env k)"
  note call' = call[unfolded diff_call_def, folded src dest(1)]
  have bs: "?bs \<le> 2 ^ 24" using call' power_increasing[of "do_block_size_log2 ?opts" 24 "2 :: nat"] by simp
  have "?bs \<le> length dest" using dvd dest(2) by (simp add: dvd_imp_le mod_eq_0_iff_dvd)
  then have "0 < length dest div ?bs" by (simp add: div_greater_zero_iff)
  then obtain c where c: "fsd_stage_controller_create (de_controller env) (Some ?opts) (length src div ?bs) (length dest div ?bs) = Inr c"
    "ct_relocation c = None" "ct_fsmap c = None" "ct_partial c = None" "\<not> ct_cancelled c"
    using identity_controller_created[OF only mem] call' by metis
  have "diff_setup g ?opts src dest" using call' dvd by (simp add: diff_setup_def dvd_eq_mod_eq_0)
  then have inv: "ctl_inv src dest ?bs (prepare_controller ctx c)" "stages_ready g src dest ?bs (prepare_controller ctx c)"
    using create_controller_ok[OF c(1) _ refl] prepare_controller_keeps[of src dest ?bs c g] by blast+
  obtain e c' where go: "fsd_stage_controller_run g (de_controller env) ?stored (Some src) (Some dest) (prepare_controller ctx c) = (e, c')"
    and fin: "e = FSD_SUCCESS \<Longrightarrow> finished src dest ?bs (ct_tracker c')"
    using run_ok[OF inv refl, of "de_controller env" ?stored] by blast
  have e: "e = FSD_SUCCESS"
    using identity_run_live[OF inv(2), of ?stored "de_controller env"] c quiet go
    by (simp add: controller_cancelled_def flag_set_def)
  have right: "blocks_right src dest ?bs (ct_tracker c')" using fin[OF e] by (simp add: finished_def)
  have len: "length dest < 2 ^ 62" using call' by simp
  have "encodable dest ?bs (ct_tracker c')" using blocks_right_encodable[OF right _ _ bs] len by simp
  then have "dr_error (finish_diff g env ?bs n (Some src) (Some dest) late c') = FSD_SUCCESS" for n
    using finish_diff_error[OF right _ len] bs write_patch_live[OF work] late by (simp add: le_less_trans)
  then show ?thesis using dvd c(1) go e by (simp add: diff_images_def Let_def)
qed

section \<open>The size of a patch\<close>

lemma length_op_part: "length (op_part bs t (i, n)) \<le> 13"
proof -
  have "length (count_op_bytes op n) \<le> 13" "length (count_field n) \<le> 4" "length (reloc_offset_field a) \<le> 4"
    "length (partial_offset_field off) \<le> 4" for op a off
    by (simp_all add: count_op_bytes_def count_field_def reloc_offset_field_def partial_offset_field_def)
  note fields = this
  have "length (reloc_op_bytes off n) \<le> 13" "length (partial_op_bytes off n sp len) \<le> 13" for off sp len
    using fields(2) fields(3)[of "nat \<bar>off\<bar>"] fields(4)[of off] by (simp_all add: reloc_op_bytes_def partial_op_bytes_def)
  then show ?thesis
    using fields(1) by (simp add: op_part_def Let_def split: fsd_match_type.split)
qed

lemma length_data_parts:
  assumes "encodable dest bs t" and "i < t_count t" and "n = op_run t bs i"
  shows "length (diff_part bs t (i, n)) + length (lit_part dest bs t (i, n)) \<le> 2 * n * bs"
proof (cases "\<not> as_literal bs t i \<and> b_match_type (t_blocks t ! i) = FSD_MATCH_PARTIAL")
  case True
  have "length (run_blocks t i n) = n" by (simp add: run_blocks_def)
  then show ?thesis
    using length_run_diff[of "run_blocks t i n" bs] partial_run_blocks[OF assms(1,2) _ assms(3)] True
    by (simp add: diff_part_def lit_part_def ac_simps)
qed (use run_in_dest[OF assms(1,2)] assms(3) in \<open>auto simp: diff_part_def lit_part_def bytes_at_def\<close>)

lemma streams_bound:
  assumes "encodable dest bs t" and "i \<le> t_count t"
  shows "length (op_stream bs t i) \<le> 13 * (t_count t - i) \<and>
    length (diff_stream bs t i) + length (lit_stream dest bs t i) \<le> 2 * (t_count t - i) * bs"
  using assms
proof (induction bs t i rule: runs_from.induct)
  case (1 bs t i)
  show ?case
  proof (cases "i < t_count t")
    case True
    let ?n = "op_run t bs i"
    have n: "0 < ?n" "i + ?n \<le> t_count t" using op_run_bounds(1)[of t bs i] op_run_bounds(2)[OF True] by auto
    note IH = "1.IH"[OF True "1.prems"(1) n(2)]
    have "t_count t - i = ?n + (t_count t - (i + ?n))" using n by simp
    moreover have "length (op_part bs t (i, ?n)) \<le> 13 * ?n" using length_op_part[of bs t i ?n] n(1) by linarith
    ultimately show ?thesis
      using IH length_data_parts[OF "1.prems"(1) True refl] runs_from_step(1)[OF True, of bs]
      by (simp add: distrib_left distrib_right)
  qed (use runs_from_step(2) in simp)
qed

lemma encodes_bound:
  assumes "encodable dest (2 ^ log2) t" and "encodes dest log2 t content"
  shows "length content \<le> FSD_HEADER_SIZE + 13 * t_count t + 2 * length dest"
proof -
  obtain mok enc s enc' s' where enc: "e_block_size enc = 2 ^ log2" "writers_ok s" "streams_of s = ([], [], [])"
    "fsd_op_encoder_encode mok enc t dest s = (FSD_SUCCESS, enc', s')" "content = patch_file (t_count t) log2 (streams_of s')"
    using assms(2) by (auto simp: encodes_def)
  obtain e s1 where l: "encode_loop mok dest (2 ^ log2) t 0 s = (e, s1)" by fastforce
  have "e = FSD_SUCCESS" "s' = s1" using enc(1,4) l by (auto simp: fsd_op_encoder_encode_def split: if_splits)
  moreover have "e = FSD_SUCCESS \<Longrightarrow> streams_of s1 = extend_streams (streams_of s)
      (op_stream (2 ^ log2) t 0) (diff_stream (2 ^ log2) t 0) (lit_stream dest (2 ^ log2) t 0)"
    using encode_loop_emits[OF assms(1), of mok 0] enc(2) l unfolding emits_def by blast
  ultimately have "streams_of s' = (op_stream (2 ^ log2) t 0, diff_stream (2 ^ log2) t 0, lit_stream dest (2 ^ log2) t 0)"
    using enc(3) by (simp add: extend_streams_def)
  moreover have "t_count t * 2 ^ log2 = length dest" using assms(1) by (simp add: encodable_def)
  ultimately show ?thesis
    using streams_bound[OF assms(1), of 0] by (simp add: enc(5) length_patch_file)
qed

section \<open>A worked call\<close>

lemma identity_diff_live:
  assumes "diff_call g env ctx" and "identity_only (dx_opts ctx)" and "memory_works (de_controller env)" and "files_work env"
    and "\<not> dx_cancelled ctx" and "\<And>k. \<not> de_stored env k" and "de_paths env" and "do_source_mode (dx_opts ctx) = FSD_SOURCE_AUTO"
    and "de_src env = regular_path src" and "de_dest env = regular_path dest" and "src \<noteq> []" and "dest \<noteq> []"
    and "length dest mod 2 ^ do_block_size_log2 (dx_opts ctx) = 0"
  shows "dr_error (fsd_diff_files g env ctx) = FSD_SUCCESS"
proof -
  have con: "p_content (de_src env) = src" "p_content (de_dest env) = dest" using assms(9,10) by (simp_all add: regular_path_def)
  note call = assms(1)[unfolded diff_call_def con]
  have "fsd_mmap_open (regular_path d) = Inr \<lparr>m_base_addr = Some d, m_file_size = length d\<rparr>" if "d \<noteq> []" "length d < 2 ^ 62" for d
    using that mmap_raw_size_honest[OF regular_path_honest, of d]
    by (simp add: fsd_mmap_open_def regular_path_def Let_def UINT64_MAX_def)
  then have m: "fsd_mmap_open (regular_path src) = Inr \<lparr>m_base_addr = Some src, m_file_size = length src\<rparr>"
    "fsd_mmap_open (regular_path dest) = Inr \<lparr>m_base_addr = Some dest, m_file_size = length dest\<rparr>"
    using assms(11,12) call by simp_all
  have sel: "p_kind (regular_path d) = S_IFREG" "p_stat (regular_path d) = None" "p_calloc_ok (regular_path d)" "p_reader_ok (regular_path d)" for d
    by (simp_all add: regular_path_def)
  have "open_images env (dx_opts ctx) = Inr (Some src, length src, Some dest, length dest)"
    unfolding open_images_def assms(8-10)
    by (simp add: m sel fsd_source_reader_open_def open_mmap_def fsd_source_reader_data_def fsd_source_reader_size_def
        fsd_mmap_data_def fsd_mmap_size_def empty_reader_def)
  moreover have "diff_call (if do_force_scalar (dx_opts ctx) then fsd_simd_force_scalar g else g) env ctx"
    using assms(1) force_scalar_ok[of g] by (simp add: diff_call_def)
  note live = identity_images_live[OF this assms(2-6) con[symmetric] assms(12,13)]
  ultimately show ?thesis using live[of "ctx\<lparr>dx_cancelled := dx_cancelled ctx \<or> de_stored_late env\<rparr>"] assms(7)
    by (simp add: fsd_diff_files_def)
qed

text \<open>A call on one block of each kind of system answer that does not fail, for the witnesses.\<close>

definition plain_diff_env :: "bytes \<Rightarrow> bytes \<Rightarrow> diff_env" where
  "plain_diff_env src dest = \<lparr>de_paths = True, de_src = regular_path src, de_dest = regular_path dest, de_controller = roomy_env,
     de_stored = (\<lambda>_. False), de_stored_late = False, de_match_log = True, de_match_log_fopen = True, de_op_fd = True, de_diff_fd = True,
     de_lit_fd = True, de_op_file = Some empty_file, de_diff_file = Some empty_file, de_lit_file = Some empty_file,
     de_op_malloc = (\<lambda>_. True), de_diff_malloc = (\<lambda>_. True), de_lit_malloc = (\<lambda>_. True), de_malloc = (\<lambda>_. True),
     de_out_stat = Some ENOENT, de_out_kind = S_IFREG, de_fopen = Some empty_file\<rparr>"

definition identity_ctx :: diff_ctx where
  "identity_ctx = \<lparr>dx_opts = small_options\<lparr>do_enable_relocation := False, do_enable_fsmap := False, do_enable_partial := False\<rparr>,
     dx_stats = zero_stats, dx_progress_cb = False, dx_cancelled = False\<rparr>"

lemma plain_diff_call:
  assumes "length src < 2 ^ 62" and "length dest < 2 ^ 62"
  shows "diff_call setup_scalar_dispatch (plain_diff_env src dest) identity_ctx"
  using assms regular_path_honest[of src] regular_path_honest[of dest]
  by (simp add: diff_call_def plain_diff_env_def identity_ctx_def small_options_def fresh_files_def empty_file_def dispatch_ok_tables)
    (simp add: regular_path_def)

lemma plain_system:
  "identity_only (dx_opts identity_ctx)" "memory_works (de_controller (plain_diff_env src dest))" "files_work (plain_diff_env src dest)"
  by (simp_all add: identity_only_def identity_ctx_def small_options_def memory_works_def plain_diff_env_def roomy_env_def roomy_allocator_def
      files_work_def unlimited_def empty_file_def)

lemma plain_diff_succeeds:
  "dr_error (fsd_diff_files setup_scalar_dispatch (plain_diff_env [1, 2, 3] (replicate 32 7)) identity_ctx) = FSD_SUCCESS"
  by (rule identity_diff_live[OF plain_diff_call plain_system, where src = "[1, 2, 3]" and dest = "replicate 32 7"])
    (simp_all add: plain_diff_env_def identity_ctx_def small_options_def)

lemma diff_output_bound:
  assumes "diff_call g env ctx" and "dr_output (fsd_diff_files g env ctx) = Some f" and "dr_error (fsd_diff_files g env ctx) = FSD_SUCCESS"
  shows "length (fdata f) \<le> FSD_HEADER_SIZE + 13 * (length (p_content (de_dest env)) div 2 ^ do_block_size_log2 (dx_opts ctx)) +
    2 * length (p_content (de_dest env))"
proof -
  let ?src = "p_content (de_src env)" and ?dest = "p_content (de_dest env)" and ?log2 = "do_block_size_log2 (dx_opts ctx)"
  note call = assms(1)[unfolded diff_call_def]
  obtain t where t: "finished ?src ?dest (2 ^ ?log2) t" "encodes ?dest ?log2 t (fdata f)"
    using diff_files_ok[OF assms(1)] assms(2,3) by (auto simp: diff_sound_def Let_def)
  have right: "blocks_right ?src ?dest (2 ^ ?log2) t" using t(1) by (simp add: finished_def)
  then have "t_count t = length ?dest div 2 ^ ?log2"
    by (metis blocks_right_def nonzero_mult_div_cancel_right power_not_zero zero_neq_numeral)
  moreover have "encodable ?dest (2 ^ ?log2) t"
    using blocks_right_encodable[OF right] call power_increasing[of ?log2 24 "2 :: nat"] by simp
  ultimately show ?thesis using encodes_bound[OF _ t(2)] by simp
qed

text \<open>A successful diff and the application of its patch, composed.\<close>

lemma diff_apply_ok:
  assumes "diff_call g env ctx" and "dr_error (fsd_diff_files g env ctx) = FSD_SUCCESS"
    and "length (p_content (de_dest env)) div 2 ^ do_block_size_log2 (dx_opts ctx) < 2 ^ 32"
    and "honest_path (pe_src pe)" and "p_content (pe_src pe) = p_content (de_src env)"
    and "fsd_source_reader_open (pe_src pe) (pe_source_mode pe) = Inr r" and "Eio \<notin> set (p_script (pe_src pe))"
    and "honest_path (pe_patch pe)" and "Some (p_content (pe_patch pe)) = map_option fdata (dr_output (fsd_diff_files g env ctx))"
    and "fsd_mmap_open (pe_patch pe) = Inr m" and "pe_fopen pe = Some f" and "fdata f = []"
    and "has_room (length (p_content (de_dest env))) f" and "pe_malloc_ok pe (2 ^ do_block_size_log2 (dx_opts ctx))"
  shows "po_error (fsd_patch_apply pe) = FSD_SUCCESS \<and>
    map_option fdata (po_output (fsd_patch_apply pe)) = Some (p_content (de_dest env))"
proof -
  let ?src = "p_content (de_src env)" and ?dest = "p_content (de_dest env)" and ?log2 = "do_block_size_log2 (dx_opts ctx)"
  note call = assms(1)[unfolded diff_call_def]
  obtain t fo where t: "finished ?src ?dest (2 ^ ?log2) t" "dr_output (fsd_diff_files g env ctx) = Some fo" "encodes ?dest ?log2 t (fdata fo)"
    using diff_files_ok[OF assms(1)] assms(2) by (auto simp: diff_sound_def Let_def)
  have right: "blocks_right ?src ?dest (2 ^ ?log2) t" using t(1) by (simp add: finished_def)
  then have "t_count t = length ?dest div 2 ^ ?log2"
    by (metis blocks_right_def nonzero_mult_div_cancel_right power_not_zero zero_neq_numeral)
  then have cod: "codable ?src ?dest (2 ^ ?log2) t"
    using right call assms(3) power_increasing[of ?log2 24 "2 :: nat"] by (simp add: codable_def)
  obtain mok enc s enc' s' where enc: "e_block_size enc = 2 ^ ?log2" "writers_ok s" "streams_of s = ([], [], [])"
    "fsd_op_encoder_encode mok enc t ?dest s = (FSD_SUCCESS, enc', s')" "fdata fo = patch_file (t_count t) ?log2 (streams_of s')"
    using t(3) by (auto simp: encodes_def)
  show ?thesis
    by (rule encode_then_apply[OF cod _ _ enc(1-4) assms(4-8) _ assms(10-14)]) (use call assms(9) t(2) enc(5) in simp_all)
qed

section \<open>Properties\<close>

text \<open>
  C1. End to end: whatever stages the options enable and whatever the kernels are, if
  \<^verbatim>\<open>fsd_diff_files\<close> reports success then the patch it leaves, applied to the same source by
  \<^verbatim>\<open>fsd_patch_apply\<close>, reproduces the destination image byte for byte. The hypotheses are on the system: both
  files report their true size, temporary and output files start empty, fewer than \<^verbatim>\<open>2 ^ 32\<close> blocks, and for
  the application a readable source and patch, memory for a block and room for the output.
\<close>

theorem diff_then_apply:
  assumes "diff_call g env ctx" and "dr_error (fsd_diff_files g env ctx) = FSD_SUCCESS"
    and "length (p_content (de_dest env)) div 2 ^ do_block_size_log2 (dx_opts ctx) < 2 ^ 32"
    and "honest_path (pe_src pe)" and "p_content (pe_src pe) = p_content (de_src env)"
    and "fsd_source_reader_open (pe_src pe) (pe_source_mode pe) = Inr r" and "Eio \<notin> set (p_script (pe_src pe))"
    and "honest_path (pe_patch pe)" and "Some (p_content (pe_patch pe)) = map_option fdata (dr_output (fsd_diff_files g env ctx))"
    and "fsd_mmap_open (pe_patch pe) = Inr m" and "pe_fopen pe = Some f" and "fdata f = []"
    and "has_room (length (p_content (de_dest env))) f" and "pe_malloc_ok pe (2 ^ do_block_size_log2 (dx_opts ctx))"
  shows "po_error (fsd_patch_apply pe) = FSD_SUCCESS \<and>
    map_option fdata (po_output (fsd_patch_apply pe)) = Some (p_content (de_dest env))"
  using assms by (rule diff_apply_ok)

text \<open>
  C6. Every exit of \<^verbatim>\<open>fsd_diff_files\<close> cleans up. No access is outside the images or buffers, no temporary file
  is left, and on any error the statistics are those of the previous call and no partial patch is left
  under an output path that was missing or a regular file; a destination that is not a whole number of blocks
  is never accepted.
\<close>

theorem diff_cleans_up:
  assumes "diff_call g env ctx"
  shows "let r = fsd_diff_files g env ctx in dr_error r \<noteq> UB_FAULT \<and> dr_temps r = [] \<and>
    (dr_error r \<noteq> FSD_SUCCESS \<longrightarrow> dx_stats (dr_ctx r) = dx_stats ctx \<and>
       (fsd_path_is_regular_or_missing (de_out_stat env) (de_out_kind env) \<longrightarrow> dr_output r = None)) \<and>
    (dr_error r = FSD_SUCCESS \<longrightarrow> 2 ^ do_block_size_log2 (dx_opts ctx) dvd length (p_content (de_dest env)))"
  using diff_files_ok[OF assms]
  by (auto simp: diff_sound_def finished_def blocks_right_def Let_def split: if_splits) (metis dvd_triv_right)+

text \<open>
  C31. The statistics of a successful call are those of the patch it wrote: the six kinds of block add
  up to the number of destination blocks and the patch size is the length of the file.
\<close>

theorem diff_stats_exact:
  assumes "diff_call g env ctx" and "dr_error (fsd_diff_files g env ctx) = FSD_SUCCESS"
  shows "let r = fsd_diff_files g env ctx; st = snd (fsd_diff_get_stats (dr_ctx r)) in
    map_option (\<lambda>f. length (fdata f)) (dr_output r) = Some (ds_patch_size st) \<and>
    ds_total_blocks st * 2 ^ do_block_size_log2 (dx_opts ctx) = length (p_content (de_dest env)) \<and>
    ds_identity_matches st + ds_relocate_matches st + ds_partial_matches st + ds_zero_blocks st + ds_one_blocks st +
      ds_literal_blocks st = ds_total_blocks st"
  using diff_files_ok[OF assms(1)] assms(2)
  by (auto simp: diff_sound_def finished_def blocks_right_def stats_of_def fsd_diff_get_stats_def Let_def)



text \<open>
  C30. A patch is never much larger than the image it rebuilds: at most the header, 13 bytes of operations for
  each block and two bytes of difference or literal data for each byte of the destination.
\<close>

theorem diff_patch_bound:
  assumes "diff_call g env ctx" and "dr_output (fsd_diff_files g env ctx) = Some f" and "dr_error (fsd_diff_files g env ctx) = FSD_SUCCESS"
  shows "length (fdata f) \<le> FSD_HEADER_SIZE + 13 * (length (p_content (de_dest env)) div 2 ^ do_block_size_log2 (dx_opts ctx)) +
    2 * length (p_content (de_dest env))"
  using assms by (rule diff_output_bound)

theorem diff_then_apply_witness:
  "\<exists>f. dr_output (fsd_diff_files setup_scalar_dispatch (plain_diff_env [1, 2, 3] (replicate 32 7)) identity_ctx) = Some f \<and>
     po_error (fsd_patch_apply (plain_env [1, 2, 3] (fdata f))) = FSD_SUCCESS \<and>
     map_option fdata (po_output (fsd_patch_apply (plain_env [1, 2, 3] (fdata f)))) = Some (replicate 32 7)"
proof -
  let ?env = "plain_diff_env [1, 2, 3] (replicate 32 7)"
  have con: "p_content (de_src ?env) = [1, 2, 3]" "p_content (de_dest ?env) = replicate 32 7"
    by (simp_all add: plain_diff_env_def regular_path_def)
  have call: "diff_call setup_scalar_dispatch ?env identity_ctx" by (rule plain_diff_call) simp_all
  obtain f where f: "dr_output (fsd_diff_files setup_scalar_dispatch ?env identity_ctx) = Some f"
    using diff_files_ok[OF call] plain_diff_succeeds by (auto simp: diff_sound_def Let_def)
  have len: "length (fdata f) < 2 ^ 63"
    using diff_output_bound[OF call f plain_diff_succeeds] con
    by (simp add: identity_ctx_def small_options_def FSD_HEADER_SIZE_def)
  let ?pe = "plain_env [1, 2, 3] (fdata f)"
  obtain r m where rm: "fsd_source_reader_open (pe_src ?pe) (pe_source_mode ?pe) = Inr r" "fsd_mmap_open (pe_patch ?pe) = Inr m"
    using regular_path_open[of "[1, 2, 3]"] regular_path_mmap[OF len] by (auto simp: plain_env_def)
  have "po_error (fsd_patch_apply ?pe) = FSD_SUCCESS \<and> map_option fdata (po_output (fsd_patch_apply ?pe)) = Some (p_content (de_dest ?env))"
    by (rule diff_then_apply[OF call plain_diff_succeeds _ _ _ rm(1) _ _ _ rm(2)])
      (use f con regular_path_honest[OF len] regular_path_honest[of "[1, 2, 3]"] in
        \<open>simp_all add: plain_env_def identity_ctx_def small_options_def empty_file_def has_room_def\<close>,
        simp_all add: regular_path_def)
  then show ?thesis using f con by simp
qed

theorem diff_cleans_up_witness:
  "let r = fsd_diff_files setup_scalar_dispatch (plain_diff_env [1, 2, 3] (replicate 33 7)) identity_ctx in
   dr_error r \<noteq> UB_FAULT \<and> dr_error r \<noteq> FSD_SUCCESS \<and> dr_temps r = []"
proof -
  let ?env = "plain_diff_env [1, 2, 3] (replicate 33 7)"
  have call: "diff_call setup_scalar_dispatch ?env identity_ctx" by (rule plain_diff_call) simp_all
  have "\<not> 2 ^ do_block_size_log2 (dx_opts identity_ctx) dvd length (p_content (de_dest ?env))"
    by (simp add: plain_diff_env_def regular_path_def identity_ctx_def small_options_def)
  then show ?thesis using diff_cleans_up[OF call] by (auto simp: Let_def)
qed

theorem diff_stats_exact_witness:
  "let st = snd (fsd_diff_get_stats (dr_ctx (fsd_diff_files setup_scalar_dispatch (plain_diff_env [1, 2, 3] (replicate 32 7)) identity_ctx))) in
   ds_identity_matches st + ds_relocate_matches st + ds_partial_matches st + ds_zero_blocks st + ds_one_blocks st + ds_literal_blocks st = 1"
  using diff_stats_exact[OF plain_diff_call plain_diff_succeeds]
  by (simp add: Let_def plain_diff_env_def regular_path_def identity_ctx_def small_options_def)

theorem diff_patch_bound_witness:
  "\<exists>f. dr_output (fsd_diff_files setup_scalar_dispatch (plain_diff_env [1, 2, 3] (replicate 32 7)) identity_ctx) = Some f \<and>
     length (fdata f) \<le> 109"
proof -
  let ?env = "plain_diff_env [1, 2, 3] (replicate 32 7)"
  have call: "diff_call setup_scalar_dispatch ?env identity_ctx" by (rule plain_diff_call) simp_all
  obtain f where f: "dr_output (fsd_diff_files setup_scalar_dispatch ?env identity_ctx) = Some f"
    using diff_files_ok[OF call] plain_diff_succeeds by (auto simp: diff_sound_def Let_def)
  have "length (p_content (de_dest ?env)) = 32" by (simp add: plain_diff_env_def regular_path_def)
  then show ?thesis
    using diff_patch_bound[OF call f plain_diff_succeeds] f by (simp add: identity_ctx_def small_options_def FSD_HEADER_SIZE_def)
qed

lemma cancelled_run:
  assumes "dx_cancelled ctx" and "fsd_stage_controller_create cenv (Some opts) n m = Inr c"
    and "do_enable_identity opts \<or> do_enable_relocation opts \<or> do_enable_fsmap opts \<or> do_enable_partial opts"
  shows "fsd_stage_controller_run g env stored (Some src) (Some dest) (prepare_controller ctx c) =
    (FSD_ERR_CANCELLED, prepare_controller ctx c)"
  by (rule cancel_honoured) (use assms created_stages_exist[OF assms(2)] in auto)

lemma cancelled_images:
  assumes "dx_cancelled ctx" and "do_block_size_log2 (dx_opts ctx) \<le> 24"
    and "do_enable_identity (dx_opts ctx) \<or> do_enable_relocation (dx_opts ctx) \<or> do_enable_fsmap (dx_opts ctx) \<or> do_enable_partial (dx_opts ctx)"
  shows "\<exists>e ctx' rs. diff_images g env ctx late sd n dd m = diff_failed e ctx' rs \<and> e \<noteq> FSD_SUCCESS"
proof -
  have run: "fst (fsd_stage_controller_run g (de_controller env) stored sd dd (prepare_controller ctx c)) \<noteq> FSD_SUCCESS"
    if "fsd_stage_controller_create (de_controller env) (Some (dx_opts ctx)) k j = Inr c" for stored c k j
    using cancelled_run[OF assms(1) that assms(3)] by (cases sd; cases dd) (simp_all add: fsd_stage_controller_run_def)
  let ?bs = "2 ^ do_block_size_log2 (dx_opts ctx) :: nat"
  show ?thesis
  proof (cases "fsd_stage_controller_create (de_controller env) (Some (dx_opts ctx)) (n div ?bs) (m div ?bs)")
    case (Inl e)
    then have "e \<noteq> FSD_SUCCESS" using create_controller_errors[OF Inl assms(2)] by auto
    then show ?thesis using Inl by (cases "m mod ?bs = 0") (auto simp: diff_images_def)
  next
    case (Inr c)
    obtain e c' where r: "fsd_stage_controller_run g (de_controller env) (\<lambda>k. (False, de_stored env k)) sd dd (prepare_controller ctx c) = (e, c')"
      by fastforce
    have "e \<noteq> FSD_SUCCESS" using run[OF Inr] r by (metis fst_conv)
    then show ?thesis using Inr r by (cases "m mod ?bs = 0") (auto simp: diff_images_def)
  qed
qed

lemma cancelled_diff:
  assumes "diff_call g env ctx" and "dx_cancelled ctx"
    and "do_enable_identity (dx_opts ctx) \<or> do_enable_relocation (dx_opts ctx) \<or> do_enable_fsmap (dx_opts ctx) \<or> do_enable_partial (dx_opts ctx)"
  shows "\<exists>e ctx' rs. fsd_diff_files g env ctx = diff_failed e ctx' rs \<and> e \<noteq> FSD_SUCCESS"
proof (cases "open_images env (dx_opts ctx)")
  case (Inl e)
  then have "e \<noteq> FSD_SUCCESS" using open_images_ok(1)[OF _ _ Inl] assms(1) by (simp add: diff_call_def)
  then show ?thesis using Inl by (cases "de_paths env") (auto simp: fsd_diff_files_def Let_def)
next
  case (Inr r)
  obtain sd ss dd ds where "r = (sd, ss, dd, ds)" by (metis prod_cases4)
  then show ?thesis using Inr cancelled_images[OF assms(2) _ assms(3)] assms(1)
    by (cases "de_paths env") (auto simp: fsd_diff_files_def Let_def diff_call_def)
qed

text \<open>
  C23. A cancel request is never lost. If the flag is set, before the call or by another thread during it, then either
  the call returns \<^verbatim>\<open>FSD_ERR_CANCELLED\<close>, with the flag cleared for the next call, or the flag is still set when it returns.
  If it was set before the call and any stage is enabled, a call that gets as far as the stages is cancelled
  before the first of them runs, and no patch is written.
\<close>

theorem diff_cancel_not_lost:
  assumes "diff_call g env ctx" and "dx_cancelled ctx \<or> de_stored_late env"
  shows "let r = fsd_diff_files g env ctx in dx_cancelled (dr_ctx r) = (dr_error r \<noteq> FSD_ERR_CANCELLED) \<and>
    (dx_cancelled ctx \<and> (do_enable_identity (dx_opts ctx) \<or> do_enable_relocation (dx_opts ctx) \<or> do_enable_fsmap (dx_opts ctx) \<or>
       do_enable_partial (dx_opts ctx)) \<longrightarrow> dr_error r \<noteq> FSD_SUCCESS \<and> dr_output r = None)"
proof -
  note sound = diff_files_ok[OF assms(1)]
  show ?thesis
    using sound assms(2) cancelled_diff[OF assms(1)] by (auto simp: diff_sound_def diff_failed_def Let_def)
qed

theorem diff_cancel_not_lost_witness:
  "let r = fsd_diff_files setup_scalar_dispatch (plain_diff_env [1, 2, 3] (replicate 32 7)) (fsd_diff_cancel identity_ctx) in
   dx_cancelled (dr_ctx r) = (dr_error r \<noteq> FSD_ERR_CANCELLED) \<and> dr_error r \<noteq> FSD_SUCCESS \<and> dr_output r = None"
proof -
  have call: "diff_call setup_scalar_dispatch (plain_diff_env [1, 2, 3] (replicate 32 7)) (fsd_diff_cancel identity_ctx)"
    using plain_diff_call[of "[1, 2, 3]" "replicate 32 7"] by (simp add: diff_call_def fsd_diff_cancel_def)
  show ?thesis using diff_cancel_not_lost[OF call] by (simp add: Let_def fsd_diff_cancel_def identity_ctx_def small_options_def)
qed

end
