(* ===== verification/Library.thy ===== *)
theory Library
  imports Simd Patch_Apply
begin

text \<open>
  The library-wide functions at the end of \<^verbatim>\<open>src/patch.c\<close>: the error messages, the context of a patch
  application, and the once-only initialization \<^verbatim>\<open>fsd_init\<close> as a step relation over any number of threads.
  Loads, stores and the compare-and-exchange are single steps that all threads see in one order, which is what
  the acquire and release orders give for the one flag; filling the dispatch table takes two steps, between which the
  table is torn. The branch for compilers
  without atomics is a second step relation, sound for one thread and racy for two, as its comment says.
\<close>

section \<open>Error messages\<close>

definition fsd_strerror :: "fsd_error \<Rightarrow> string" where
  "fsd_strerror err =
     (case err of
        FSD_SUCCESS \<Rightarrow> ''Success''
      | FSD_ERR_INVALID_ARG \<Rightarrow> ''Invalid argument''
      | FSD_ERR_OUT_OF_MEMORY \<Rightarrow> ''Out of memory''
      | FSD_ERR_IO \<Rightarrow> ''I/O error''
      | FSD_ERR_CORRUPT_DATA \<Rightarrow> ''Corrupt data''
      | FSD_ERR_BAD_MAGIC \<Rightarrow> ''Invalid magic number''
      | FSD_ERR_BAD_VERSION \<Rightarrow> ''Unsupported version''
      | FSD_ERR_BAD_BLOCK_SIZE \<Rightarrow> ''Invalid block size''
      | FSD_ERR_SIZE_MISMATCH \<Rightarrow> ''Size mismatch''
      | FSD_ERR_NOT_INITIALIZED \<Rightarrow> ''Not initialized''
      | FSD_ERR_CANCELLED \<Rightarrow> ''Operation cancelled''
      | FSD_ERR_FILE_NOT_FOUND \<Rightarrow> ''File not found''
      | FSD_ERR_PERMISSION \<Rightarrow> ''Permission denied''
      | FSD_ERR_MMAP_FAILED \<Rightarrow> ''Memory mapping failed''
      | FSD_ERR_TRUNCATED \<Rightarrow> ''Unexpected end of file''
      | FSD_ERR_BAD_OPERATION \<Rightarrow> ''Unknown operation''
      | _ \<Rightarrow> ''Unknown error'')"

definition fsd_version :: string where "fsd_version = ''1.0.0''"

text \<open>Distinct errors have distinct messages.\<close>

lemma fsd_strerror_inject: "fsd_strerror a = fsd_strerror b \<longleftrightarrow> a = b"
  by (cases a; cases b) (simp_all add: fsd_strerror_def)

section \<open>The patch context\<close>

text \<open>The options of \<^verbatim>\<open>include/fsdiff/options.h\<close>; the allocator field is never read.\<close>

record patch_options =
  pt_verify_output :: bool
  pt_source_mode :: fsd_source_mode

definition fsd_patch_options_init :: patch_options where
  "fsd_patch_options_init = \<lparr>pt_verify_output = False, pt_source_mode = FSD_SOURCE_AUTO\<rparr>"

record patch_ctx =
  px_opts :: patch_options
  px_progress_cb :: bool

definition fsd_patch_create :: "bool \<Rightarrow> patch_options option \<Rightarrow> fsd_error + patch_ctx" where
  "fsd_patch_create calloc_ok opts =
     (if \<not> calloc_ok then Inl FSD_ERR_OUT_OF_MEMORY
      else Inr \<lparr>px_opts = (case opts of Some p \<Rightarrow> p | None \<Rightarrow> fsd_patch_options_init), px_progress_cb = False\<rparr>)"

definition fsd_patch_set_progress :: "bool \<Rightarrow> patch_ctx \<Rightarrow> patch_ctx" where
  "fsd_patch_set_progress callback ctx = ctx\<lparr>px_progress_cb := callback\<rparr>"

text \<open>What \<^verbatim>\<open>fsd_patch_apply\<close> reads of its context: the source mode and the callback.\<close>

definition apply_with :: "patch_ctx \<Rightarrow> patch_env \<Rightarrow> patch_outcome" where
  "apply_with ctx env = fsd_patch_apply (env\<lparr>pe_source_mode := pt_source_mode (px_opts ctx), pe_progress_cb := px_progress_cb ctx\<rparr>)"

section \<open>Initialization\<close>

text \<open>Where a thread is inside \<^verbatim>\<open>fsd_init\<close>.\<close>

datatype init_pc = Idle | Loading | Exchanging | Initialising | Filling | Publishing | Spinning | Returned

text \<open>
  \<^verbatim>\<open>im_torn\<close> says that the table is being written, \<^verbatim>\<open>im_inits\<close> counts the initializations since the last
  cleanup.
\<close>

record init_machine =
  im_state :: nat
  im_table :: simd_dispatch
  im_torn :: bool
  im_inits :: nat
  im_pc :: "nat \<Rightarrow> init_pc"

definition at_pc :: "nat \<Rightarrow> init_pc \<Rightarrow> init_machine \<Rightarrow> init_machine" where
  "at_pc i p s = s\<lparr>im_pc := (im_pc s)(i := p)\<rparr>"

lemma at_pc_sel [simp]:
  "im_state (at_pc i p s) = im_state s" "im_table (at_pc i p s) = im_table s" "im_torn (at_pc i p s) = im_torn s"
  "im_inits (at_pc i p s) = im_inits s" "im_pc (at_pc i p s) = (im_pc s)(i := p)"
  by (simp_all add: at_pc_def)

text \<open>A step of thread \<^verbatim>\<open>i\<close>; \<^verbatim>\<open>d\<close> is what \<^verbatim>\<open>fsd_simd_init\<close> installs.\<close>

inductive fsd_init_step :: "simd_dispatch \<Rightarrow> nat \<Rightarrow> init_machine \<Rightarrow> init_machine \<Rightarrow> bool" for d i where
  call: "im_pc s i = Idle \<Longrightarrow> fsd_init_step d i s (at_pc i Loading s)"
| already: "im_pc s i = Loading \<Longrightarrow> im_state s = 2 \<Longrightarrow> fsd_init_step d i s (at_pc i Returned s)"
| not_yet: "im_pc s i = Loading \<Longrightarrow> im_state s \<noteq> 2 \<Longrightarrow> fsd_init_step d i s (at_pc i Exchanging s)"
| win: "im_pc s i = Exchanging \<Longrightarrow> im_state s = 0 \<Longrightarrow> fsd_init_step d i s (at_pc i Initialising (s\<lparr>im_state := 1\<rparr>))"
| lose: "im_pc s i = Exchanging \<Longrightarrow> im_state s \<noteq> 0 \<Longrightarrow> fsd_init_step d i s (at_pc i Spinning s)"
| fill: "im_pc s i = Initialising \<Longrightarrow> fsd_init_step d i s (at_pc i Filling (s\<lparr>im_torn := True\<rparr>))"
| filled: "im_pc s i = Filling \<Longrightarrow>
    fsd_init_step d i s (at_pc i Publishing (s\<lparr>im_torn := False, im_table := d, im_inits := im_inits s + 1\<rparr>))"
| publish: "im_pc s i = Publishing \<Longrightarrow> fsd_init_step d i s (at_pc i Returned (s\<lparr>im_state := 2\<rparr>))"
| spin: "im_pc s i = Spinning \<Longrightarrow> im_state s \<noteq> 2 \<Longrightarrow> fsd_init_step d i s s"
| seen: "im_pc s i = Spinning \<Longrightarrow> im_state s = 2 \<Longrightarrow> fsd_init_step d i s (at_pc i Returned s)"
| leave: "im_pc s i = Returned \<Longrightarrow> fsd_init_step d i s (at_pc i Idle s)"

definition fsd_cleanup :: "init_machine \<Rightarrow> init_machine" where
  "fsd_cleanup s = s\<lparr>im_state := 0, im_inits := 0\<rparr>"

definition start_machine :: init_machine where
  "start_machine = \<lparr>im_state = 0, im_table = g_fsd_simd_zero, im_torn = False, im_inits = 0, im_pc = (\<lambda>_. Idle)\<rparr>"

text \<open>
  Runs in which \<^verbatim>\<open>fsd_cleanup\<close> is called when no thread uses the library (from its call of \<^verbatim>\<open>fsd_init\<close> until it
  leaves), as its documentation asks.
\<close>

inductive init_reach :: "simd_dispatch \<Rightarrow> init_machine \<Rightarrow> bool" for d where
  start: "init_reach d start_machine"
| step: "init_reach d s \<Longrightarrow> fsd_init_step d i s s' \<Longrightarrow> init_reach d s'"
| cleanup: "init_reach d s \<Longrightarrow> \<forall>i. im_pc s i = Idle \<Longrightarrow> init_reach d (fsd_cleanup s)"

definition in_section :: "init_machine \<Rightarrow> nat \<Rightarrow> bool" where
  "in_section s i \<longleftrightarrow> im_pc s i \<in> {Initialising, Filling, Publishing}"

definition init_inv :: "simd_dispatch \<Rightarrow> init_machine \<Rightarrow> bool" where
  "init_inv d s \<longleftrightarrow> im_state s \<le> 2 \<and> (\<forall>i j. in_section s i \<and> in_section s j \<longrightarrow> i = j) \<and>
     (im_state s = 1 \<longleftrightarrow> (\<exists>i. in_section s i)) \<and> (im_state s = 2 \<longrightarrow> im_table s = d) \<and>
     (im_torn s \<longrightarrow> (\<exists>i. im_pc s i = Filling)) \<and>
     (\<forall>i. im_pc s i = Publishing \<longrightarrow> im_table s = d) \<and> (\<forall>i. im_pc s i = Returned \<longrightarrow> im_state s = 2) \<and>
     (\<forall>i. im_pc s i = Spinning \<longrightarrow> im_state s \<noteq> 0) \<and> im_inits s \<le> 1 \<and>
     (im_state s = 0 \<longrightarrow> im_inits s = 0) \<and> (\<forall>i. im_pc s i \<in> {Initialising, Filling} \<longrightarrow> im_inits s = 0)"

text \<open>While a thread is in the section, every other one is outside it and none has returned.\<close>

lemma section_alone:
  assumes "init_inv d s" and "in_section s i"
  shows "im_state s = 1" and "im_inits s \<le> 1" and "j \<noteq> i \<Longrightarrow> im_pc s j \<in> {Idle, Loading, Exchanging, Spinning}"
    and "im_pc s i \<in> {Initialising, Filling} \<Longrightarrow> im_inits s = 0" and "im_pc s i = Publishing \<Longrightarrow> im_table s = d \<and> \<not> im_torn s"
proof -
  show st: "im_state s = 1" "im_inits s \<le> 1" "im_pc s i \<in> {Initialising, Filling} \<Longrightarrow> im_inits s = 0"
    using assms by (auto simp: init_inv_def)
  have alone: "\<not> in_section s j" if "j \<noteq> i" for j using assms that by (auto simp: init_inv_def)
  have "im_pc s j \<noteq> Returned" for j using assms(1) st(1) by (auto simp: init_inv_def)
  with alone show "j \<noteq> i \<Longrightarrow> im_pc s j \<in> {Idle, Loading, Exchanging, Spinning}"
    by (cases "im_pc s j") (auto simp: in_section_def)
  show "im_table s = d \<and> \<not> im_torn s" if p: "im_pc s i = Publishing"
  proof -
    have "im_pc s j \<noteq> Filling" for j using alone[of j] p by (cases "j = i") (auto simp: in_section_def)
    then show ?thesis using assms(1) p by (auto simp: init_inv_def)
  qed
qed

text \<open>Moving a thread about outside the section.\<close>

lemma outside_move:
  assumes inv: "init_inv d s" and "\<not> in_section s i" and "p \<in> {Idle, Loading, Exchanging, Spinning, Returned}"
    and "p = Returned \<Longrightarrow> im_state s = 2" and "p = Spinning \<Longrightarrow> im_state s \<noteq> 0"
  shows "init_inv d (at_pc i p s)"
proof -
  have sec: "in_section (at_pc i p s) j = in_section s j" for j using assms(2,3) by (auto simp: in_section_def)
  have pcs: "q \<in> {Initialising, Filling, Publishing} \<Longrightarrow> (im_pc (at_pc i p s) j = q) = (im_pc s j = q)" for j q
    using assms(2,3) by (auto simp: in_section_def)
  have "im_pc (at_pc i p s) j = Returned \<Longrightarrow> im_state s = 2" "im_pc (at_pc i p s) j = Spinning \<Longrightarrow> im_state s \<noteq> 0" for j
    using inv assms(4,5) by (auto simp: init_inv_def split: if_splits)
  then show ?thesis using inv unfolding init_inv_def sec by (simp add: pcs del: at_pc_sel(5))
qed

lemma init_step_inv:
  assumes "fsd_init_step d i s s'" and inv: "init_inv d s"
  shows "init_inv d s'"
  using assms(1)
proof (cases rule: fsd_init_step.cases)
  case win
  then have "\<not> in_section s j" for j using inv by (auto simp: init_inv_def)
  then show ?thesis using win inv by (auto simp: init_inv_def in_section_def)
next
  case fill
  then have "in_section s i" by (simp add: in_section_def)
  note S = section_alone[OF inv this]
  have "im_pc s j \<in> {Idle, Loading, Exchanging, Spinning}" if "j \<noteq> i" for j by (rule S(3)[OF that])
  then show ?thesis using fill S(1,4) by (force simp: init_inv_def in_section_def)
next
  case filled
  then have "in_section s i" by (simp add: in_section_def)
  note S = section_alone[OF inv this]
  have "im_pc s j \<in> {Idle, Loading, Exchanging, Spinning}" if "j \<noteq> i" for j by (rule S(3)[OF that])
  then show ?thesis using filled S(1,4) by (force simp: init_inv_def in_section_def)
next
  case publish
  then have "in_section s i" by (simp add: in_section_def)
  note S = section_alone[OF inv this]
  have "im_pc s j \<in> {Idle, Loading, Exchanging, Spinning}" if "j \<noteq> i" for j by (rule S(3)[OF that])
  then show ?thesis using publish S(1,2,5) by (force simp: init_inv_def in_section_def)
qed (use inv in \<open>auto intro!: outside_move simp: in_section_def\<close>)

lemma init_reach_inv: "init_reach d s \<Longrightarrow> init_inv d s"
proof (induction rule: init_reach.induct)
  case start
  show ?case by (simp add: init_inv_def start_machine_def in_section_def)
next
  case (step s i s')
  then show ?case using init_step_inv by blast
next
  case (cleanup s)
  then show ?case by (auto simp: init_inv_def fsd_cleanup_def in_section_def)
qed

text \<open>From the section a thread publishes in at most three steps of its own, and then a spinning thread returns.\<close>

definition thread_steps :: "simd_dispatch \<Rightarrow> init_machine \<Rightarrow> init_machine \<Rightarrow> bool" where
  "thread_steps d s s' \<longleftrightarrow> (\<lambda>a b. \<exists>i. fsd_init_step d i a b)\<^sup>*\<^sup>* s s'"

lemma thread_stepsI: "fsd_init_step d i s s' \<Longrightarrow> thread_steps d s' s'' \<Longrightarrow> thread_steps d s s''"
  unfolding thread_steps_def by (rule converse_rtranclp_into_rtranclp) auto

lemma thread_steps_refl: "thread_steps d s s"
  by (simp add: thread_steps_def)

lemma section_publishes:
  assumes "in_section s j" and "k \<noteq> j"
  obtains s' where "thread_steps d s s'" "im_state s' = 2" "im_pc s' k = im_pc s k"
proof -
  have pub: "\<exists>s'. thread_steps d s s' \<and> im_state s' = 2 \<and> im_pc s' k = im_pc s k" if "im_pc s j = Publishing" for s
    using thread_stepsI[OF fsd_init_step.publish[OF that] thread_steps_refl] assms(2)
    by (intro exI[of _ "at_pc j Returned (s\<lparr>im_state := 2\<rparr>)"]) simp
  have fil: "\<exists>s'. thread_steps d s s' \<and> im_state s' = 2 \<and> im_pc s' k = im_pc s k" if "im_pc s j = Filling" for s
    using pub[of "at_pc j Publishing (s\<lparr>im_torn := False, im_table := d, im_inits := im_inits s + 1\<rparr>)"]
      thread_stepsI[OF fsd_init_step.filled[OF that]] assms(2) by auto
  have ini: "\<exists>s'. thread_steps d s s' \<and> im_state s' = 2 \<and> im_pc s' k = im_pc s k" if "im_pc s j = Initialising" for s
    using fil[of "at_pc j Filling (s\<lparr>im_torn := True\<rparr>)"] thread_stepsI[OF fsd_init_step.fill[OF that]] assms(2) by auto
  show thesis using assms(1) pub[of s] fil[of s] ini[of s] that by (auto simp: in_section_def)
qed

lemma spinner_returns:
  assumes "init_inv d s" and "im_pc s i = Spinning"
  shows "\<exists>s'. thread_steps d s s' \<and> im_pc s' i = Returned"
proof -
  obtain u where u: "thread_steps d s u" "im_state u = 2" "im_pc u i = Spinning"
  proof (cases "im_state s = 2")
    case True
    then show thesis using that[OF thread_steps_refl] assms(2) by blast
  next
    case False
    then have "im_state s = 1" using assms by (auto simp: init_inv_def le_Suc_eq numeral_2_eq_2)
    then obtain j where "in_section s j" using assms(1) by (auto simp: init_inv_def)
    moreover have "i \<noteq> j" using calculation assms(2) by (auto simp: in_section_def)
    ultimately show thesis using that assms(2) by (metis section_publishes)
  qed
  have "fsd_init_step d i u (at_pc i Returned u)" by (rule fsd_init_step.seen) (use u in simp_all)
  then have "thread_steps d s (at_pc i Returned u)"
    using u(1) unfolding thread_steps_def by (auto intro: rtranclp.rtrancl_into_rtrancl)
  then show ?thesis by (intro exI[of _ "at_pc i Returned u"]) simp
qed

section \<open>Property\<close>

text \<open>
  C21. Initialization happens once, for any number of threads and any interleaving, as long as
  \<^verbatim>\<open>fsd_cleanup\<close> is called only while no thread uses the library: at most one thread is between winning the exchange
  and publishing, the table is filled at most once between two cleanups, a thread that has returned from
  \<^verbatim>\<open>fsd_init\<close> sees the complete table (never a torn one), and a thread that waits can always return, after at most
  the remaining steps of the one that initializes.
\<close>

theorem init_once:
  assumes "init_reach d s"
  shows "(\<forall>i j. in_section s i \<and> in_section s j \<longrightarrow> i = j) \<and> im_inits s \<le> 1 \<and>
    (\<forall>i. im_pc s i = Returned \<longrightarrow> im_table s = d \<and> \<not> im_torn s) \<and>
    (\<forall>i. im_pc s i = Spinning \<longrightarrow> (\<exists>s'. thread_steps d s s' \<and> im_pc s' i = Returned))"
proof -
  have inv: "init_inv d s" using init_reach_inv[OF assms] .
  have "\<not> im_torn s" if "im_pc s i = Returned" for i
    using inv that by (auto simp: init_inv_def in_section_def)
  then show ?thesis using inv spinner_returns[OF inv] by (simp add: init_inv_def)
qed

text \<open>Thread 0 wins, thread 1 waits, thread 0 publishes, both return.\<close>

lemma one_init_run:
  "\<exists>s. init_reach d s \<and> im_pc s 0 = Returned \<and> im_pc s 1 = Returned"
proof -
  let ?s1 = "at_pc 1 Loading (at_pc 0 Loading start_machine)"
  let ?s2 = "at_pc 1 Exchanging (at_pc 0 Exchanging ?s1)"
  let ?s3 = "at_pc 1 Spinning (at_pc 0 Initialising (?s2\<lparr>im_state := 1\<rparr>))"
  have "init_reach d (at_pc 0 Loading start_machine)"
    by (rule init_reach.step[OF init_reach.start fsd_init_step.call]) (simp add: start_machine_def)
  then have "init_reach d ?s1" by (rule init_reach.step[OF _ fsd_init_step.call]) (simp add: start_machine_def)
  then have "init_reach d (at_pc 0 Exchanging ?s1)"
    by (rule init_reach.step[OF _ fsd_init_step.not_yet]) (simp_all add: start_machine_def)
  then have "init_reach d ?s2" by (rule init_reach.step[OF _ fsd_init_step.not_yet]) (simp_all add: start_machine_def)
  then have "init_reach d (at_pc 0 Initialising (?s2\<lparr>im_state := 1\<rparr>))"
    by (rule init_reach.step[OF _ fsd_init_step.win]) (simp_all add: start_machine_def)
  then have "init_reach d ?s3" by (rule init_reach.step[OF _ fsd_init_step.lose]) (simp_all add: start_machine_def)
  then have "init_reach d (at_pc 0 Filling (?s3\<lparr>im_torn := True\<rparr>))"
    by (rule init_reach.step[OF _ fsd_init_step.fill]) simp
  from init_reach.step[OF this fsd_init_step.filled[of _ 0]]
  have "init_reach d (at_pc 0 Publishing (at_pc 0 Filling (?s3\<lparr>im_torn := True\<rparr>)\<lparr>im_torn := False, im_table := d,
      im_inits := im_inits (at_pc 0 Filling (?s3\<lparr>im_torn := True\<rparr>)) + 1\<rparr>))" by simp
  from init_reach.step[OF this fsd_init_step.publish[of _ 0]] init_reach.step[OF _ fsd_init_step.seen[of _ 1]]
  show ?thesis by fastforce
qed

theorem init_once_witness:
  "\<exists>s. init_reach setup_scalar_dispatch s \<and> im_pc s 0 = Returned \<and> im_pc s 1 = Returned \<and> im_inits s \<le> 1 \<and>
     im_table s = setup_scalar_dispatch \<and> \<not> im_torn s"
  using one_init_run[of setup_scalar_dispatch] init_once by blast

text \<open>
  The restriction on \<^verbatim>\<open>fsd_cleanup\<close> is needed: called while a thread is filling the table, it lets a second thread fill it
  at the same time.
\<close>

theorem cleanup_race:
  assumes "im_pc s i = Filling" and "im_pc s j = Exchanging" and "i \<noteq> j"
  shows "\<exists>s'. thread_steps d (fsd_cleanup s) s' \<and> im_pc s' i = Filling \<and> im_pc s' j = Filling"
proof -
  let ?t = "at_pc j Initialising ((fsd_cleanup s)\<lparr>im_state := 1\<rparr>)"
  have "fsd_init_step d j (fsd_cleanup s) ?t"
    by (rule fsd_init_step.win) (use assms in \<open>simp_all add: fsd_cleanup_def\<close>)
  moreover have "fsd_init_step d j ?t (at_pc j Filling (?t\<lparr>im_torn := True\<rparr>))" by (rule fsd_init_step.fill) simp
  ultimately have "thread_steps d (fsd_cleanup s) (at_pc j Filling (?t\<lparr>im_torn := True\<rparr>))"
    using thread_stepsI thread_steps_refl by blast
  then show ?thesis using assms by (intro exI[of _ "at_pc j Filling (?t\<lparr>im_torn := True\<rparr>)"]) (simp add: fsd_cleanup_def)
qed

section \<open>Without atomics\<close>

text \<open>A plain load, the filling of the table and a plain store; there is no exchange.\<close>

inductive plain_init_step :: "simd_dispatch \<Rightarrow> nat \<Rightarrow> init_machine \<Rightarrow> init_machine \<Rightarrow> bool" for d i where
  plain_call: "im_pc s i = Idle \<Longrightarrow> plain_init_step d i s (at_pc i Loading s)"
| plain_already: "im_pc s i = Loading \<Longrightarrow> im_state s = 2 \<Longrightarrow> plain_init_step d i s (at_pc i Returned s)"
| plain_fill: "im_pc s i = Loading \<Longrightarrow> im_state s \<noteq> 2 \<Longrightarrow> plain_init_step d i s (at_pc i Filling (s\<lparr>im_torn := True\<rparr>))"
| plain_filled: "im_pc s i = Filling \<Longrightarrow>
    plain_init_step d i s (at_pc i Publishing (s\<lparr>im_torn := False, im_table := d, im_inits := im_inits s + 1\<rparr>))"
| plain_publish: "im_pc s i = Publishing \<Longrightarrow> plain_init_step d i s (at_pc i Returned (s\<lparr>im_state := 2\<rparr>))"
| plain_leave: "im_pc s i = Returned \<Longrightarrow> plain_init_step d i s (at_pc i Idle s)"

inductive plain_reach :: "simd_dispatch \<Rightarrow> nat set \<Rightarrow> init_machine \<Rightarrow> bool" for d threads where
  plain_start: "plain_reach d threads start_machine"
| plain_step: "plain_reach d threads s \<Longrightarrow> i \<in> threads \<Longrightarrow> plain_init_step d i s s' \<Longrightarrow> plain_reach d threads s'"

definition plain_inv :: "simd_dispatch \<Rightarrow> nat \<Rightarrow> init_machine \<Rightarrow> bool" where
  "plain_inv d i s \<longleftrightarrow> im_pc s i \<in> {Idle, Loading, Filling, Publishing, Returned} \<and> (im_torn s \<longleftrightarrow> im_pc s i = Filling) \<and>
     (if im_state s = 2 then im_table s = d \<and> im_inits s = 1 \<and> im_pc s i \<in> {Idle, Loading, Returned}
      else im_pc s i \<noteq> Returned \<and> im_inits s = (if im_pc s i = Publishing then 1 else 0) \<and> (im_pc s i = Publishing \<longrightarrow> im_table s = d))"

lemma plain_reach_inv: "plain_reach d {i} s \<Longrightarrow> plain_inv d i s"
proof (induction rule: plain_reach.induct)
  case plain_start
  show ?case by (simp add: plain_inv_def start_machine_def)
next
  case (plain_step s j s')
  then have "plain_init_step d i s s'" by simp
  then show ?case using plain_step.IH
    by (cases rule: plain_init_step.cases) (auto simp: plain_inv_def split: if_splits)
qed

text \<open>Alone, a thread initializes once and returns with the complete table.\<close>

lemma plain_init_alone:
  assumes "plain_reach d {i} s"
  shows "im_inits s \<le> 1 \<and> (im_pc s i = Returned \<longrightarrow> im_table s = d \<and> \<not> im_torn s)"
  using plain_reach_inv[OF assms] by (auto simp: plain_inv_def split: if_splits)

text \<open>With two, one returns while the other is writing the table again.\<close>

lemma plain_init_race: "\<exists>s. plain_reach d {0, 1} s \<and> im_pc s 0 = Returned \<and> im_pc s 1 = Filling \<and> im_torn s"
proof -
  let ?s1 = "at_pc 1 Loading (at_pc 0 Loading start_machine)"
  let ?s2 = "at_pc 0 Filling (?s1\<lparr>im_torn := True\<rparr>)"
  let ?s3 = "at_pc 0 Publishing (?s2\<lparr>im_torn := False, im_table := d, im_inits := im_inits ?s2 + 1\<rparr>)"
  let ?s4 = "at_pc 1 Filling (?s3\<lparr>im_torn := True\<rparr>)"
  let ?s5 = "at_pc 0 Returned (?s4\<lparr>im_state := 2\<rparr>)"
  note go = plain_reach.plain_step[of d "{0, 1}"]
  have "plain_reach d {0, 1} (at_pc 0 Loading start_machine)"
    by (rule go[OF plain_reach.plain_start _ plain_init_step.plain_call]) (simp_all add: start_machine_def)
  then have "plain_reach d {0, 1} ?s1"
    by (rule go[OF _ _ plain_init_step.plain_call]) (simp_all add: start_machine_def)
  then have "plain_reach d {0, 1} ?s2" by (rule go[OF _ _ plain_init_step.plain_fill]) (simp_all add: start_machine_def)
  then have "plain_reach d {0, 1} ?s3" by (rule go[OF _ _ plain_init_step.plain_filled]) simp_all
  then have "plain_reach d {0, 1} ?s4" by (rule go[OF _ _ plain_init_step.plain_fill]) (simp_all add: start_machine_def)
  then have "plain_reach d {0, 1} ?s5" by (rule go[OF _ _ plain_init_step.plain_publish]) simp_all
  then show ?thesis by (intro exI[of _ ?s5]) simp
qed

end
