(* ===== verification/Cli.thy ===== *)
theory Cli
  imports Getopt Diff Library
begin

text \<open>
  The command-line tool \<^verbatim>\<open>tools/fsdiff.c\<close>: the numeric arguments, the options of \<^verbatim>\<open>delta\<close> and \<^verbatim>\<open>patch\<close>, the
  three commands and \<^verbatim>\<open>main\<close>, down to the exit status. What is printed is left out. The option parser and
  \<^verbatim>\<open>atof\<close> (a decimal to binary conversion) are parameters, the file system is given by the answers of the system for the
  paths on the command line.
\<close>

section \<open>Numeric arguments\<close>

definition is_space :: "char \<Rightarrow> bool" where
  "is_space c \<longleftrightarrow> (of_char c :: nat) \<in> {9, 10, 11, 12, 13, 32}"

definition is_digit :: "char \<Rightarrow> bool" where
  "is_digit c \<longleftrightarrow> 48 \<le> (of_char c :: nat) \<and> (of_char c :: nat) \<le> 57"

definition decimal :: "string \<Rightarrow> nat" where
  "decimal ds = foldl (\<lambda>v c. 10 * v + (of_char c - 48)) 0 ds"

text \<open>White space, a sign and digits: the sign, the digits and what follows.\<close>

definition scan_number :: "string \<Rightarrow> bool \<times> string \<times> string" where
  "scan_number s =
     (let t = dropWhile is_space s;
          neg = (take 1 t = ''-'');
          u = (if take 1 t \<in> {''-'', ''+''} then drop 1 t else t)
      in (neg, takeWhile is_digit u, dropWhile is_digit u))"

text \<open>\<^verbatim>\<open>strtoull(s, &end, 10)\<close> of the C library: it saturates, and negates modulo \<^verbatim>\<open>2 ^ 64\<close>.\<close>

definition strtoull :: "string \<Rightarrow> nat \<times> string" where
  "strtoull s =
     (case scan_number s of
        (neg, ds, rest) \<Rightarrow>
          if ds = [] then (0, s)
          else if UINT64_MAX < decimal ds then (UINT64_MAX, rest)
          else (if neg then u64_sub 0 (decimal ds) else decimal ds, rest))"

text \<open>\<^verbatim>\<open>atoi\<close>, which is undefined outside the range of \<^verbatim>\<open>int\<close>.\<close>

definition atoi :: "string \<Rightarrow> int option" where
  "atoi s =
     (case scan_number s of
        (neg, ds, rest) \<Rightarrow>
          let v = (if neg then - int (decimal ds) else int (decimal ds))
          in if - (2 ^ 31) \<le> v \<and> v < 2 ^ 31 then Some v else None)"

definition parse_size_arg :: "string \<Rightarrow> nat option" where
  "parse_size_arg s =
     (if s = [] then None
      else case strtoull s of
        (v, rest) \<Rightarrow>
          if rest = s then None
          else if take 1 rest \<in> {''k'', ''K''} \<and> UINT64_MAX div 1024 < v then None
          else
            let (v, rest) = (if take 1 rest \<in> {''k'', ''K''} then (v * 1024, drop 1 rest) else (v, rest))
            in if rest \<noteq> [] \<or> v = 0 then None else Some v)"

definition parse_source_mode :: "string \<Rightarrow> fsd_source_mode option" where
  "parse_source_mode s =
     (if s = ''auto'' then Some FSD_SOURCE_AUTO
      else if s = ''mmap'' then Some FSD_SOURCE_MMAP
      else if s = ''direct'' then Some FSD_SOURCE_DIRECT
      else None)"

section \<open>The options of \<^verbatim>\<open>delta\<close>\<close>

text \<open>How a command ends: its exit status, or undefined behaviour.\<close>

datatype cli_stop = Exit nat | Undefined

definition long_opt :: "string \<Rightarrow> nat \<Rightarrow> char \<Rightarrow> long_option" where
  "long_opt name has_arg c = \<lparr>lo_name = name, lo_has_arg = has_arg, lo_val = c\<rparr>"

definition delta_long_options :: "long_option list" where
  "delta_long_options =
     [long_opt ''block-size'' required_argument CHR ''b'', long_opt ''search-radius'' required_argument CHR ''r'',
      long_opt ''threshold'' required_argument CHR ''t'', long_opt ''no-identity'' no_argument CHR ''I'',
      long_opt ''no-relocation'' no_argument CHR ''R'', long_opt ''no-partial'' no_argument CHR ''P'',
      long_opt ''no-fsmap'' no_argument CHR ''F'', long_opt ''scalar'' no_argument CHR ''S'',
      long_opt ''verbose'' no_argument CHR ''v'', long_opt ''very-verbose'' no_argument CHR ''V'',
      long_opt ''source-mode'' required_argument CHR ''M'', long_opt ''help'' no_argument CHR ''h'']"

definition delta_optstring :: string where "delta_optstring = ''b:r:t:vVh''"

record delta_args =
  da_opts :: diff_options
  da_verbose :: bool
  da_no_identity :: bool
  da_radius_bytes :: nat

definition delta_start :: delta_args where
  "delta_start = \<lparr>da_opts = fsd_diff_options_init, da_verbose = False, da_no_identity = False, da_radius_bytes = 0\<rparr>"

text \<open>One turn of the option loop. The block size is stored in a \<^verbatim>\<open>uint8_t\<close> before it is checked.\<close>

definition delta_option :: "(string \<Rightarrow> c_float) \<Rightarrow> char \<Rightarrow> string option \<Rightarrow> delta_args \<Rightarrow> cli_stop + delta_args" where
  "delta_option atof c arg a =
     (let o' = da_opts a in
      if c = CHR ''b'' then
        (case arg of
           None \<Rightarrow> Inl Undefined
         | Some s \<Rightarrow>
             (case atoi s of
                None \<Rightarrow> Inl Undefined
              | Some v \<Rightarrow>
                  let log2 = nat (v mod 256) in
                  if log2 < 5 \<or> 24 < log2 then Inl (Exit 1) else Inr (a\<lparr>da_opts := o'\<lparr>do_block_size_log2 := log2\<rparr>\<rparr>)))
      else if c = CHR ''r'' then
        (case arg of
           None \<Rightarrow> Inl (Exit 1)
         | Some s \<Rightarrow> (case parse_size_arg s of None \<Rightarrow> Inl (Exit 1) | Some v \<Rightarrow> Inr (a\<lparr>da_radius_bytes := v\<rparr>)))
      else if c = CHR ''t'' then
        (case arg of None \<Rightarrow> Inl Undefined | Some s \<Rightarrow> Inr (a\<lparr>da_opts := o'\<lparr>do_partial_threshold := atof s\<rparr>\<rparr>))
      else if c = CHR ''I'' then Inr (a\<lparr>da_opts := o'\<lparr>do_enable_identity := False\<rparr>, da_no_identity := True\<rparr>)
      else if c = CHR ''R'' then Inr (a\<lparr>da_opts := o'\<lparr>do_enable_relocation := False\<rparr>\<rparr>)
      else if c = CHR ''P'' then Inr (a\<lparr>da_opts := o'\<lparr>do_enable_partial := False\<rparr>\<rparr>)
      else if c = CHR ''F'' then Inr (a\<lparr>da_opts := o'\<lparr>do_enable_fsmap := False\<rparr>\<rparr>)
      else if c = CHR ''S'' then Inr (a\<lparr>da_opts := o'\<lparr>do_force_scalar := True\<rparr>\<rparr>)
      else if c = CHR ''v'' then Inr (a\<lparr>da_verbose := True\<rparr>)
      else if c = CHR ''V'' then Inr (a\<lparr>da_verbose := True, da_opts := o'\<lparr>do_verbose := True\<rparr>\<rparr>)
      else if c = CHR ''M'' then
        (case arg of
           None \<Rightarrow> Inl Undefined
         | Some s \<Rightarrow>
             (case parse_source_mode s of
                None \<Rightarrow> Inl (Exit 1)
              | Some m \<Rightarrow> Inr (a\<lparr>da_opts := o'\<lparr>do_source_mode := m\<rparr>\<rparr>)))
      else if c = CHR ''h'' then Inl (Exit 0)
      else Inl (Exit 1))"

fun delta_options :: "(string \<Rightarrow> c_float) \<Rightarrow> (char \<times> string option) list \<Rightarrow> delta_args \<Rightarrow> cli_stop + delta_args" where
  "delta_options atof [] a = Inr a"
| "delta_options atof ((c, arg) # evs) a =
     (case delta_option atof c arg a of Inl stop \<Rightarrow> Inl stop | Inr a \<Rightarrow> delta_options atof evs a)"

text \<open>After the loop: relocation switches identity back on, and the radius becomes a number of blocks.\<close>

definition delta_radius :: "nat \<Rightarrow> nat \<Rightarrow> nat" where
  "delta_radius bytes bs = u64_sub (u64 (bytes + bs)) 1 div bs"

definition delta_finish :: "delta_args \<Rightarrow> cli_stop + diff_options" where
  "delta_finish a =
     (let opts = da_opts a;
          opts = (if do_enable_relocation opts \<and> \<not> do_enable_identity opts then opts\<lparr>do_enable_identity := True\<rparr> else opts);
          blocks = delta_radius (da_radius_bytes a) (2 ^ do_block_size_log2 opts)
      in
      if 0 < da_radius_bytes a
      then (if 0x7fffffff < blocks then Inl (Exit 1) else Inr (opts\<lparr>do_search_radius := int blocks\<rparr>))
      else Inr opts)"

section \<open>The commands\<close>

text \<open>The parameters of a run of the tool: the parser, \<^verbatim>\<open>atof\<close>, \<^verbatim>\<open>calloc\<close>, the kernels and the files.\<close>

record cli_system =
  cs_getopt :: getopt_fn
  cs_atof :: "string \<Rightarrow> c_float"
  cs_calloc :: bool
  cs_simd :: simd_dispatch
  cs_diff :: "string \<Rightarrow> string \<Rightarrow> string \<Rightarrow> diff_env"
  cs_patch :: "string \<Rightarrow> string \<Rightarrow> string \<Rightarrow> patch_env"
  cs_info :: "string \<Rightarrow> FILE option"

record cli_outcome =
  co_stop :: cli_stop
  co_diff :: "diff_outcome option"
  co_patch :: "patch_outcome option"

definition stopped_at :: "cli_stop \<Rightarrow> cli_outcome" where
  "stopped_at stop = \<lparr>co_stop = stop, co_diff = None, co_patch = None\<rparr>"

definition cmd_create :: "cli_system \<Rightarrow> string list \<Rightarrow> cli_outcome" where
  "cmd_create sys argv =
     (case cs_getopt sys argv delta_optstring delta_long_options of
        None \<Rightarrow> stopped_at Undefined
      | Some (evs, k, av) \<Rightarrow>
          (case delta_options (cs_atof sys) evs delta_start of
             Inl stop \<Rightarrow> stopped_at stop
           | Inr a \<Rightarrow>
               (case delta_finish a of
                  Inl stop \<Rightarrow> stopped_at stop
                | Inr opts \<Rightarrow>
                    if k + 3 \<noteq> length av then stopped_at (Exit 1)
                    else
                      (case fsd_diff_create (cs_calloc sys) (Some opts) of
                         Inl err \<Rightarrow> stopped_at (Exit 1)
                       | Inr ctx \<Rightarrow>
                           let ctx = (if da_verbose a then fsd_diff_set_progress True ctx else ctx);
                               r = fsd_diff_files (cs_simd sys) (cs_diff sys (av ! k) (av ! (k + 1)) (av ! (k + 2))) ctx
                           in \<lparr>co_stop = Exit (if dr_error r \<noteq> FSD_SUCCESS then 1 else 0), co_diff = Some r, co_patch = None\<rparr>))))"

definition patch_long_options :: "long_option list" where
  "patch_long_options =
     [long_opt ''verify'' no_argument CHR ''V'', long_opt ''verbose'' no_argument CHR ''v'',
      long_opt ''source-mode'' required_argument CHR ''M'', long_opt ''help'' no_argument CHR ''h'']"

definition patch_optstring :: string where "patch_optstring = ''vh''"

record patch_args =
  pa_opts :: patch_options
  pa_verbose :: bool

definition patch_option :: "char \<Rightarrow> string option \<Rightarrow> patch_args \<Rightarrow> cli_stop + patch_args" where
  "patch_option c arg a =
     (if c = CHR ''V'' then Inr (a\<lparr>pa_opts := (pa_opts a)\<lparr>pt_verify_output := True\<rparr>\<rparr>)
      else if c = CHR ''v'' then Inr (a\<lparr>pa_verbose := True\<rparr>)
      else if c = CHR ''M'' then
        (case arg of
           None \<Rightarrow> Inl Undefined
         | Some s \<Rightarrow>
             (case parse_source_mode s of
                None \<Rightarrow> Inl (Exit 1)
              | Some m \<Rightarrow> Inr (a\<lparr>pa_opts := (pa_opts a)\<lparr>pt_source_mode := m\<rparr>\<rparr>)))
      else if c = CHR ''h'' then Inl (Exit 0)
      else Inl (Exit 1))"

fun patch_args_of :: "(char \<times> string option) list \<Rightarrow> patch_args \<Rightarrow> cli_stop + patch_args" where
  "patch_args_of [] a = Inr a"
| "patch_args_of ((c, arg) # evs) a = (case patch_option c arg a of Inl stop \<Rightarrow> Inl stop | Inr a \<Rightarrow> patch_args_of evs a)"

definition cmd_apply :: "cli_system \<Rightarrow> string list \<Rightarrow> cli_outcome" where
  "cmd_apply sys argv =
     (case cs_getopt sys argv patch_optstring patch_long_options of
        None \<Rightarrow> stopped_at Undefined
      | Some (evs, k, av) \<Rightarrow>
          (case patch_args_of evs \<lparr>pa_opts = fsd_patch_options_init, pa_verbose = False\<rparr> of
             Inl stop \<Rightarrow> stopped_at stop
           | Inr a \<Rightarrow>
               if k + 3 \<noteq> length av then stopped_at (Exit 1)
               else
                 (case fsd_patch_create (cs_calloc sys) (Some (pa_opts a)) of
                    Inl err \<Rightarrow> stopped_at (Exit 1)
                  | Inr ctx \<Rightarrow>
                      let ctx = (if pa_verbose a then fsd_patch_set_progress True ctx else ctx);
                          r = apply_with ctx (cs_patch sys (av ! k) (av ! (k + 1)) (av ! (k + 2)))
                      in \<lparr>co_stop = Exit (if po_error r \<noteq> FSD_SUCCESS then 1 else 0), co_diff = None, co_patch = Some r\<rparr>)))"

definition cmd_info :: "cli_system \<Rightarrow> string list \<Rightarrow> cli_outcome" where
  "cmd_info sys argv =
     (case argv of
        [] \<Rightarrow> stopped_at (Exit 1)
      | patch_path # _ \<Rightarrow>
          (case fsd_patch_read_header (cs_info sys patch_path) of
             Inl err \<Rightarrow> stopped_at (Exit 1)
           | Inr header \<Rightarrow> stopped_at (Exit 0)))"

text \<open>\<^verbatim>\<open>main\<close>; \<^verbatim>\<open>fsd_init\<close> always succeeds.\<close>

definition main :: "cli_system \<Rightarrow> string list \<Rightarrow> cli_outcome" where
  "main sys argv =
     (if length argv < 2 then stopped_at (Exit 1)
      else
        let cmd = argv ! 1 in
        if cmd = ''delta'' then cmd_create sys (drop 1 argv)
        else if cmd = ''patch'' then cmd_apply sys (drop 1 argv)
        else if cmd = ''info'' then cmd_info sys (drop 2 argv)
        else if cmd = ''--help'' \<or> cmd = ''-h'' then stopped_at (Exit 0)
        else if cmd = ''--version'' then stopped_at (Exit 0)
        else stopped_at (Exit 1))"

section \<open>Sizes\<close>

lemma u64_sub_lt: "u64_sub a b < 2 ^ 64"
  by (simp add: u64_sub_def u64_def)

lemma strtoull_bound: "strtoull s = (v, rest) \<Longrightarrow> v < 2 ^ 64"
  using u64_sub_lt[of 0] by (auto simp: strtoull_def UINT64_MAX_def split: prod.splits if_splits)

lemma parse_size_bound: "parse_size_arg s = Some v \<Longrightarrow> 0 < v \<and> v < 2 ^ 64"
  using strtoull_bound[of s]
  by (auto simp: parse_size_arg_def UINT64_MAX_def Let_def split: prod.splits if_splits)

lemma delta_radius_covers:
  assumes "0 < bytes" and "0 < bs" and "bytes + bs \<le> 2 ^ 64"
  shows "bytes \<le> delta_radius bytes bs * bs \<and> delta_radius bytes bs * bs < bytes + bs"
proof -
  have "u64_sub (u64 (bytes + bs)) 1 = bytes + bs - 1"
  proof (cases "bytes + bs = 2 ^ 64")
    case False
    then have "bytes + bs < 2 ^ 64" using assms(3) by simp
    then show ?thesis using u64_sub_le[of 1 "bytes + bs"] assms(1) by (simp add: u64_id)
  qed (simp add: u64_sub_def u64_def)
  then have r: "delta_radius bytes bs = (bytes + bs - 1) div bs" by (simp add: delta_radius_def)
  have "(bytes + bs - 1) div bs * bs + (bytes + bs - 1) mod bs = bytes + bs - 1" by simp
  moreover have "(bytes + bs - 1) mod bs < bs" using assms(2) by simp
  ultimately show ?thesis unfolding r using assms(1,2) by linarith
qed

section \<open>The options are well formed\<close>

definition delta_valid :: "delta_args \<Rightarrow> bool" where
  "delta_valid a \<longleftrightarrow> 5 \<le> do_block_size_log2 (da_opts a) \<and> do_block_size_log2 (da_opts a) \<le> 24 \<and> da_radius_bytes a < 2 ^ 64 \<and>
     do_search_radius (da_opts a) = 8"

lemma delta_option_valid:
  assumes "delta_valid a" and "delta_option atof c arg a = Inr b"
  shows "delta_valid b"
  using assms parse_size_bound
  by (auto simp: delta_option_def delta_valid_def Let_def split: if_splits option.splits)

lemma delta_options_valid: "delta_valid a \<Longrightarrow> delta_options atof evs a = Inr b \<Longrightarrow> delta_valid b"
  by (induction atof evs a rule: delta_options.induct) (auto split: sum.splits dest: delta_option_valid)

lemma delta_start_valid: "delta_valid delta_start"
  by (simp add: delta_valid_def delta_start_def fsd_diff_options_init_def)

definition opts_valid :: "diff_options \<Rightarrow> bool" where
  "opts_valid opts \<longleftrightarrow> 5 \<le> do_block_size_log2 opts \<and> do_block_size_log2 opts \<le> 24 \<and>
     (do_enable_relocation opts \<longrightarrow> do_enable_identity opts) \<and> 0 \<le> do_search_radius opts \<and> do_search_radius opts < 2 ^ 31"

lemma delta_finish_valid: "delta_valid a \<Longrightarrow> delta_finish a = Inr opts \<Longrightarrow> opts_valid opts"
  by (auto simp: delta_finish_def delta_valid_def opts_valid_def Let_def split: if_splits)

lemma delta_finish_radius:
  assumes "delta_finish a = Inr opts" and "0 < da_radius_bytes a"
  shows "do_search_radius opts = int (delta_radius (da_radius_bytes a) (2 ^ do_block_size_log2 opts))"
  using assms by (auto simp: delta_finish_def Let_def split: if_splits)

lemma cmd_create_cases:
  assumes "co_diff (cmd_create sys argv) = Some r"
  obtains evs k av a opts cb where "cs_getopt sys argv delta_optstring delta_long_options = Some (evs, k, av)"
    "delta_options (cs_atof sys) evs delta_start = Inr a" "delta_finish a = Inr opts" "opts_valid opts" "k + 3 = length av"
    "r = fsd_diff_files (cs_simd sys) (cs_diff sys (av ! k) (av ! (k + 1)) (av ! (k + 2)))
       \<lparr>dx_opts = opts, dx_stats = zero_stats, dx_progress_cb = cb, dx_cancelled = False\<rparr>"
    "co_stop (cmd_create sys argv) = Exit (if dr_error r \<noteq> FSD_SUCCESS then 1 else 0)"
proof -
  obtain evs k av where g: "cs_getopt sys argv delta_optstring delta_long_options = Some (evs, k, av)"
    using assms by (auto simp: cmd_create_def stopped_at_def split: option.splits)
  obtain a where a: "delta_options (cs_atof sys) evs delta_start = Inr a"
    using assms g by (auto simp: cmd_create_def stopped_at_def split: sum.splits)
  obtain opts where f: "delta_finish a = Inr opts"
    using assms g a by (auto simp: cmd_create_def stopped_at_def split: sum.splits)
  have valid: "opts_valid opts" using delta_finish_valid[OF delta_options_valid[OF delta_start_valid a] f] .
  have k: "k + 3 = length av" using assms g a f by (auto simp: cmd_create_def stopped_at_def split: if_splits)
  have c: "cs_calloc sys" using assms g a f k by (auto simp: cmd_create_def stopped_at_def fsd_diff_create_def split: if_splits)
  let ?ctx = "\<lparr>dx_opts = opts, dx_stats = zero_stats, dx_progress_cb = da_verbose a, dx_cancelled = False\<rparr>"
  have "fsd_diff_create True (Some opts) = Inr (?ctx\<lparr>dx_progress_cb := False\<rparr>)"
    using valid by (simp add: fsd_diff_create_def opts_valid_def Let_def)
  then have "cmd_create sys argv =
      (let r = fsd_diff_files (cs_simd sys) (cs_diff sys (av ! k) (av ! (k + 1)) (av ! (k + 2))) ?ctx
       in \<lparr>co_stop = Exit (if dr_error r \<noteq> FSD_SUCCESS then 1 else 0), co_diff = Some r, co_patch = None\<rparr>)"
    using g a f k c by (simp add: cmd_create_def Let_def fsd_diff_set_progress_def)
  then show thesis using that[OF g a f valid k, of "da_verbose a"] assms by (simp add: Let_def)
qed

section \<open>Defined behaviour\<close>

lemma tables: "tables_agree delta_optstring delta_long_options" "tables_agree patch_optstring patch_long_options"
  by code_simp+

lemma needs_arguments:
  "needs_argument delta_optstring delta_long_options (CHR ''b'')" "needs_argument delta_optstring delta_long_options (CHR ''t'')"
  "needs_argument delta_optstring delta_long_options (CHR ''M'')" "needs_argument patch_optstring patch_long_options (CHR ''M'')"
  by code_simp+

lemma delta_option_undefined:
  assumes "delta_option atof c arg a = Inl Undefined"
  shows "c \<in> {CHR ''b'', CHR ''t'', CHR ''M''} \<and> arg = None \<or> c = CHR ''b'' \<and> (\<exists>s. arg = Some s \<and> atoi s = None)"
  using assms by (auto simp: delta_option_def Let_def split: if_splits option.splits)

lemma delta_options_undefined:
  "delta_options atof evs a = Inl Undefined \<Longrightarrow> \<exists>c arg b. (c, arg) \<in> set evs \<and> delta_option atof c arg b = Inl Undefined"
  by (induction atof evs a rule: delta_options.induct) (auto split: sum.splits)

lemma patch_args_undefined:
  "patch_args_of evs a = Inl Undefined \<Longrightarrow> (CHR ''M'', None) \<in> set evs"
  by (induction evs a rule: patch_args_of.induct) (auto simp: patch_option_def split: sum.splits if_splits option.splits)

text \<open>Numbers that \<^verbatim>\<open>atoi\<close> can represent.\<close>

definition ints_in_range :: "(char \<times> string option) list \<Rightarrow> bool" where
  "ints_in_range evs \<longleftrightarrow> list_all (\<lambda>(c, arg). c = CHR ''b'' \<longrightarrow> (case arg of None \<Rightarrow> True | Some s \<Rightarrow> atoi s \<noteq> None)) evs"

context option_parser
begin

lemma cmd_create_defined:
  assumes "cs_getopt sys = getopt"
    and "\<And>evs k av. getopt argv delta_optstring delta_long_options = Some (evs, k, av) \<Longrightarrow> ints_in_range evs"
  shows "co_stop (cmd_create sys argv) \<noteq> Undefined"
proof -
  obtain evs k av where g: "getopt argv delta_optstring delta_long_options = Some (evs, k, av)"
    and args: "\<And>c a. (c, a) \<in> set evs \<Longrightarrow> needs_argument delta_optstring delta_long_options c \<Longrightarrow> a \<noteq> None"
    using parses[OF tables(1), of argv] by blast
  have "delta_options (cs_atof sys) evs delta_start \<noteq> Inl Undefined"
    using delta_options_undefined[of "cs_atof sys" evs delta_start] delta_option_undefined args needs_arguments assms(2)[OF g]
    by (fastforce simp: ints_in_range_def list_all_iff)
  moreover have "delta_finish a \<noteq> Inl Undefined" for a by (auto simp: delta_finish_def Let_def)
  ultimately show ?thesis
    using g assms(1) by (auto simp: cmd_create_def stopped_at_def Let_def split: sum.splits)
qed

lemma cmd_apply_defined:
  assumes "cs_getopt sys = getopt"
  shows "co_stop (cmd_apply sys argv) \<noteq> Undefined"
proof -
  obtain evs k av where g: "getopt argv patch_optstring patch_long_options = Some (evs, k, av)"
    and args: "\<And>c a. (c, a) \<in> set evs \<Longrightarrow> needs_argument patch_optstring patch_long_options c \<Longrightarrow> a \<noteq> None"
    using parses[OF tables(2), of argv] by blast
  have "patch_args_of evs a \<noteq> Inl Undefined" for a
    using patch_args_undefined[of evs a] args needs_arguments(4) by blast
  then show ?thesis
    using g assms by (auto simp: cmd_apply_def stopped_at_def Let_def split: sum.splits)
qed

lemma main_defined:
  assumes "cs_getopt sys = getopt"
    and "\<And>evs k av. getopt (drop 1 argv) delta_optstring delta_long_options = Some (evs, k, av) \<Longrightarrow> ints_in_range evs"
  shows "co_stop (main sys argv) \<noteq> Undefined"
  using cmd_create_defined[OF assms] cmd_apply_defined[OF assms(1), of "drop 1 argv"]
  by (auto simp: main_def cmd_info_def stopped_at_def Let_def split: list.splits sum.splits)

end

text \<open>With the parser of the repository the tool has defined behaviour on every command line whose block sizes are in the range of \<^verbatim>\<open>int\<close>.\<close>

lemmas compat_main_defined = compat.main_defined

section \<open>The two commands together\<close>

lemma cmd_apply_cases:
  assumes "cs_getopt sys argv patch_optstring patch_long_options = Some (evs, k, av)"
    and "patch_args_of evs \<lparr>pa_opts = fsd_patch_options_init, pa_verbose = False\<rparr> = Inr pa" and "k + 3 = length av" and "cs_calloc sys"
  obtains cb where "cmd_apply sys argv = (let r = fsd_patch_apply ((cs_patch sys (av ! k) (av ! (k + 1)) (av ! (k + 2)))
      \<lparr>pe_source_mode := pt_source_mode (pa_opts pa), pe_progress_cb := cb\<rparr>)
      in \<lparr>co_stop = Exit (if po_error r \<noteq> FSD_SUCCESS then 1 else 0), co_diff = None, co_patch = Some r\<rparr>)"
proof -
  have "fsd_patch_create True (Some (pa_opts pa)) = Inr \<lparr>px_opts = pa_opts pa, px_progress_cb = False\<rparr>"
    by (simp add: fsd_patch_create_def)
  then show thesis
    using assms that[of "pa_verbose pa"] by (simp add: cmd_apply_def Let_def fsd_patch_set_progress_def apply_with_def)
qed

section \<open>What the options say\<close>

lemma delta_options_append:
  "delta_options atof (xs @ ys) a = (case delta_options atof xs a of Inl stop \<Rightarrow> Inl stop | Inr b \<Rightarrow> delta_options atof ys b)"
  by (induction xs arbitrary: a) (auto split: sum.split)

text \<open>A field that only the option \<^verbatim>\<open>c\<close> sets keeps its value when \<^verbatim>\<open>c\<close> does not occur.\<close>

lemma delta_without:
  assumes "delta_options atof evs a = Inr b" and "c \<notin> fst ` set evs"
    and "\<And>c' arg x y. c' \<noteq> c \<Longrightarrow> delta_option atof c' arg x = Inr y \<Longrightarrow> g y = g x"
  shows "g b = g a"
  using assms(1,2)
proof (induction evs arbitrary: a)
  case (Cons e evs)
  obtain c' arg where e: "e = (c', arg)" by (cases e)
  with Cons.prems obtain x where x: "delta_option atof c' arg a = Inr x" "delta_options atof evs x = Inr b"
    by (auto split: sum.splits)
  have "g b = g x" using Cons.IH[OF x(2)] Cons.prems(2) by simp
  also have "g x = g a" by (rule assms(3)[OF _ x(1)]) (use Cons.prems(2) e in auto)
  finally show ?case .
qed simp

lemma delta_last:
  assumes "delta_options atof (pre @ (c, arg) # post) a = Inr b" and "c \<notin> fst ` set post"
    and "\<And>c' arg x y. c' \<noteq> c \<Longrightarrow> delta_option atof c' arg x = Inr y \<Longrightarrow> g y = g x"
  obtains x y where "delta_option atof c arg x = Inr y" "g b = g y"
proof -
  obtain x y where x: "delta_option atof c arg x = Inr y" "delta_options atof post y = Inr b"
    using assms(1) by (auto simp: delta_options_append split: sum.splits)
  from that[OF x(1)] delta_without[OF x(2) assms(2), of g] assms(3) show thesis by blast
qed

lemma delta_other_options:
  "c \<noteq> CHR ''r'' \<Longrightarrow> delta_option atof c arg x = Inr y \<Longrightarrow> da_radius_bytes y = da_radius_bytes x"
  "c \<noteq> CHR ''b'' \<Longrightarrow> delta_option atof c arg x = Inr y \<Longrightarrow> do_block_size_log2 (da_opts y) = do_block_size_log2 (da_opts x)"
  by (auto simp: delta_option_def Let_def split: if_splits option.splits)

lemma delta_last_radius:
  assumes "delta_options atof (pre @ (CHR ''r'', Some s) # post) a = Inr b" and "CHR ''r'' \<notin> fst ` set post"
  shows "parse_size_arg s = Some (da_radius_bytes b)"
proof -
  obtain x y where "delta_option atof (CHR ''r'') (Some s) x = Inr y" "da_radius_bytes b = da_radius_bytes y"
    by (rule delta_last[OF assms, where g = da_radius_bytes]) (rule delta_other_options(1))
  then show ?thesis by (auto simp: delta_option_def Let_def split: option.splits)
qed

lemma delta_last_block_size:
  assumes "delta_options atof (pre @ (CHR ''b'', Some s) # post) a = Inr b" and "CHR ''b'' \<notin> fst ` set post"
  shows "\<exists>v. atoi s = Some v \<and> do_block_size_log2 (da_opts b) = nat (v mod 256)"
proof -
  obtain x y where "delta_option atof (CHR ''b'') (Some s) x = Inr y" "do_block_size_log2 (da_opts b) = do_block_size_log2 (da_opts y)"
    by (rule delta_last[OF assms, where g = "\<lambda>a. do_block_size_log2 (da_opts a)"]) (rule delta_other_options(2))
  then show ?thesis by (auto simp: delta_option_def Let_def split: option.splits if_splits)
qed

text \<open>The switches, after one turn and after any run of the option loop.\<close>

lemma delta_option_flags:
  assumes "delta_option atof c arg a = Inr b"
  shows "do_enable_relocation (da_opts b) \<longleftrightarrow> do_enable_relocation (da_opts a) \<and> c \<noteq> CHR ''R''"
    and "do_enable_partial (da_opts b) \<longleftrightarrow> do_enable_partial (da_opts a) \<and> c \<noteq> CHR ''P''"
    and "do_enable_fsmap (da_opts b) \<longleftrightarrow> do_enable_fsmap (da_opts a) \<and> c \<noteq> CHR ''F''"
    and "do_enable_identity (da_opts b) \<longleftrightarrow> do_enable_identity (da_opts a) \<and> c \<noteq> CHR ''I''"
    and "do_force_scalar (da_opts b) \<longleftrightarrow> do_force_scalar (da_opts a) \<or> c = CHR ''S''"
  using assms by (auto simp: delta_option_def Let_def split: if_splits option.splits)

lemma delta_flags_from:
  assumes "delta_options atof evs a = Inr b"
  shows "(do_enable_relocation (da_opts b) \<longleftrightarrow> do_enable_relocation (da_opts a) \<and> CHR ''R'' \<notin> fst ` set evs) \<and>
    (do_enable_partial (da_opts b) \<longleftrightarrow> do_enable_partial (da_opts a) \<and> CHR ''P'' \<notin> fst ` set evs) \<and>
    (do_enable_fsmap (da_opts b) \<longleftrightarrow> do_enable_fsmap (da_opts a) \<and> CHR ''F'' \<notin> fst ` set evs) \<and>
    (do_enable_identity (da_opts b) \<longleftrightarrow> do_enable_identity (da_opts a) \<and> CHR ''I'' \<notin> fst ` set evs) \<and>
    (do_force_scalar (da_opts b) \<longleftrightarrow> do_force_scalar (da_opts a) \<or> CHR ''S'' \<in> fst ` set evs)"
  using assms
proof (induction evs arbitrary: a)
  case (Cons e evs)
  obtain c arg where e: "e = (c, arg)" by (cases e)
  with Cons.prems obtain x where x: "delta_option atof c arg a = Inr x" "delta_options atof evs x = Inr b"
    by (auto split: sum.splits)
  show ?case using Cons.IH[OF x(2)] unfolding delta_option_flags[OF x(1)] e by auto
qed simp

lemma delta_flags:
  assumes "delta_options atof evs delta_start = Inr b"
  shows "do_enable_relocation (da_opts b) \<longleftrightarrow> CHR ''R'' \<notin> fst ` set evs"
    and "do_enable_partial (da_opts b) \<longleftrightarrow> CHR ''P'' \<notin> fst ` set evs"
    and "do_enable_fsmap (da_opts b) \<longleftrightarrow> CHR ''F'' \<notin> fst ` set evs"
    and "do_enable_identity (da_opts b) \<longleftrightarrow> CHR ''I'' \<notin> fst ` set evs"
    and "do_force_scalar (da_opts b) \<longleftrightarrow> CHR ''S'' \<in> fst ` set evs"
  using delta_flags_from[OF assms] by (simp_all add: delta_start_def fsd_diff_options_init_def)

text \<open>A size argument that is a decimal number with an optional suffix.\<close>

lemma scan_decimal:
  assumes "ds \<noteq> []" and "list_all is_digit ds" and "suf \<in> {[], ''k'', ''K''}"
  shows "scan_number (ds @ suf) = (False, ds, suf)"
proof -
  obtain d ds' where ds: "ds = d # ds'" using assms(1) by (cases ds) auto
  have d: "is_digit d" using assms(2) ds by simp
  then have "\<not> is_space d" "d \<noteq> CHR ''-''" "d \<noteq> CHR ''+''" by (auto simp: is_digit_def is_space_def)
  moreover have "takeWhile is_digit (ds @ suf) = ds" "dropWhile is_digit (ds @ suf) = suf"
    using assms(2,3) by (auto simp: list_all_iff takeWhile_append dropWhile_append is_digit_def takeWhile_eq_all_conv)
  ultimately show ?thesis using ds by (simp add: scan_number_def)
qed

lemma parse_size_decimal:
  assumes "ds \<noteq> []" and "list_all is_digit ds" and "suf \<in> {[], ''k'', ''K''}"
    and "decimal ds * (if suf = [] then 1 else 1024) < 2 ^ 64"
  shows "parse_size_arg (ds @ suf) =
    (if decimal ds * (if suf = [] then 1 else 1024) = 0 then None else Some (decimal ds * (if suf = [] then 1 else 1024)))"
proof -
  have "\<not> UINT64_MAX < decimal ds" using assms(4) by (auto simp: UINT64_MAX_def split: if_splits)
  then have "strtoull (ds @ suf) = (decimal ds, suf)"
    using scan_decimal[OF assms(1-3)] assms(1) by (simp add: strtoull_def)
  then show ?thesis using assms by (auto simp: parse_size_arg_def UINT64_MAX_def Let_def)
qed

section \<open>Properties\<close>

text \<open>
  C37. The options that \<^verbatim>\<open>fsdiff delta\<close> passes to the library are those on the command line, and well formed. The stages that
  are enabled, identity apart, and the scalar switch are exactly those asked for, and identity is off exactly when both identity
  and relocation were switched off; the block size exponent is the last \<^verbatim>\<open>-b\<close> argument reduced to a byte, or 12, and is in the
  supported range. The search radius is a non-negative \<^verbatim>\<open>int\<close>, so the context can be created: without \<^verbatim>\<open>-r\<close> it is the default of 8
  blocks, and when the last \<^verbatim>\<open>-r\<close> argument is a decimal number, with or without the suffix \<^verbatim>\<open>k\<close>, it is the smallest number of
  blocks that covers that many bytes or KiB, as long as these bytes and a block together do not exceed \<^verbatim>\<open>2 ^ 64\<close>. (Beyond that the
  rounding wraps around, as \<^verbatim>\<open>negative_radius_accepted\<close> below shows.)
\<close>

theorem delta_options_well_formed:
  assumes "delta_options atof evs delta_start = Inr a" and "delta_finish a = Inr opts"
  shows "5 \<le> do_block_size_log2 opts \<and> do_block_size_log2 opts \<le> 24 \<and>
    0 \<le> do_search_radius opts \<and> do_search_radius opts < 2 ^ 31 \<and> (\<exists>ctx. fsd_diff_create True (Some opts) = Inr ctx) \<and>
    (do_enable_relocation opts \<longleftrightarrow> CHR ''R'' \<notin> fst ` set evs) \<and> (do_enable_partial opts \<longleftrightarrow> CHR ''P'' \<notin> fst ` set evs) \<and>
    (do_enable_fsmap opts \<longleftrightarrow> CHR ''F'' \<notin> fst ` set evs) \<and> (do_force_scalar opts \<longleftrightarrow> CHR ''S'' \<in> fst ` set evs) \<and>
    (do_enable_identity opts \<longleftrightarrow> CHR ''I'' \<notin> fst ` set evs \<or> CHR ''R'' \<notin> fst ` set evs) \<and>
    (CHR ''b'' \<notin> fst ` set evs \<longrightarrow> do_block_size_log2 opts = 12) \<and>
    (\<forall>pre s post. evs = pre @ (CHR ''b'', Some s) # post \<and> CHR ''b'' \<notin> fst ` set post \<longrightarrow>
      (\<exists>v. atoi s = Some v \<and> do_block_size_log2 opts = nat (v mod 256))) \<and>
    (CHR ''r'' \<notin> fst ` set evs \<longrightarrow> do_search_radius opts = 8) \<and>
    (\<forall>pre ds suf post n. evs = pre @ (CHR ''r'', Some (ds @ suf)) # post \<and> CHR ''r'' \<notin> fst ` set post \<and>
        ds \<noteq> [] \<and> list_all is_digit ds \<and> suf \<in> {[], ''k'', ''K''} \<and> n = decimal ds * (if suf = [] then 1 else 1024) \<and>
        n + 2 ^ do_block_size_log2 opts \<le> 2 ^ 64 \<longrightarrow>
      0 < n \<and> int n \<le> do_search_radius opts * 2 ^ do_block_size_log2 opts \<and>
      do_search_radius opts * 2 ^ do_block_size_log2 opts < int n + 2 ^ do_block_size_log2 opts)"
proof -
  have valid: "opts_valid opts" using delta_finish_valid[OF delta_options_valid[OF delta_start_valid assms(1)] assms(2)] .
  note F = delta_flags[OF assms(1)]
  have fin: "opts = (da_opts a)\<lparr>do_enable_identity := do_enable_identity opts, do_search_radius := do_search_radius opts\<rparr>"
      "do_enable_identity opts \<longleftrightarrow> do_enable_identity (da_opts a) \<or> do_enable_relocation (da_opts a)"
      "da_radius_bytes a = 0 \<Longrightarrow> do_search_radius opts = do_search_radius (da_opts a)"
    using assms(2) by (auto simp: delta_finish_def Let_def split: if_splits)
  have radius: "0 < n \<and> int n \<le> do_search_radius opts * 2 ^ do_block_size_log2 opts \<and>
      do_search_radius opts * 2 ^ do_block_size_log2 opts < int n + 2 ^ do_block_size_log2 opts"
    if "evs = pre @ (CHR ''r'', Some (ds @ suf)) # post" "CHR ''r'' \<notin> fst ` set post" "ds \<noteq> []" "list_all is_digit ds"
      "suf \<in> {[], ''k'', ''K''}" "n = decimal ds * (if suf = [] then 1 else 1024)" "n + 2 ^ do_block_size_log2 opts \<le> 2 ^ 64"
    for pre ds suf post n
  proof -
    have "n < 2 ^ 64" using that(7) by (metis less_le_trans less_add_same_cancel1 zero_less_numeral zero_less_power)
    then have "parse_size_arg (ds @ suf) = (if n = 0 then None else Some n)"
      using parse_size_decimal[OF that(3-5)] that(6) by simp
    moreover have "parse_size_arg (ds @ suf) = Some (da_radius_bytes a)"
      by (rule delta_last_radius[OF assms(1)[unfolded that(1)] that(2)])
    ultimately have n: "da_radius_bytes a = n" "0 < n" by (auto split: if_splits)
    have "int (delta_radius n (2 ^ do_block_size_log2 opts) * 2 ^ do_block_size_log2 opts) = do_search_radius opts * 2 ^ do_block_size_log2 opts"
      using delta_finish_radius[OF assms(2)] n by simp
    then show ?thesis
      using delta_radius_covers[OF n(2) _ that(7)] n(2)
      by (metis of_nat_le_iff of_nat_less_iff of_nat_add of_nat_power of_nat_numeral zero_less_power zero_less_numeral)
  qed
  have "da_radius_bytes a = 0" if "CHR ''r'' \<notin> fst ` set evs"
    using delta_without[where g = da_radius_bytes, OF assms(1) that delta_other_options(1)] by (simp add: delta_start_def)
  moreover have "do_search_radius (da_opts a) = 8"
    using delta_options_valid[OF delta_start_valid assms(1)] by (simp add: delta_valid_def)
  ultimately have default: "CHR ''r'' \<notin> fst ` set evs \<longrightarrow> do_search_radius opts = 8" using fin(3) by simp
  have bs: "do_block_size_log2 opts = do_block_size_log2 (da_opts a)" by (subst fin(1)) simp
  have same: "do_enable_relocation opts = do_enable_relocation (da_opts a)" "do_enable_partial opts = do_enable_partial (da_opts a)"
      "do_enable_fsmap opts = do_enable_fsmap (da_opts a)" "do_force_scalar opts = do_force_scalar (da_opts a)"
    by (subst fin(1), simp)+
  show ?thesis
  proof (intro conjI allI impI)
    show "\<exists>ctx. fsd_diff_create True (Some opts) = Inr ctx"
      using valid by (simp add: opts_valid_def fsd_diff_create_def Let_def)
    show "do_block_size_log2 opts = 12" if "CHR ''b'' \<notin> fst ` set evs"
      using delta_without[where g = "\<lambda>a. do_block_size_log2 (da_opts a)", OF assms(1) that delta_other_options(2)] bs
      by (simp add: delta_start_def fsd_diff_options_init_def)
    show "\<exists>v. atoi s = Some v \<and> do_block_size_log2 opts = nat (v mod 256)"
      if "evs = pre @ (CHR ''b'', Some s) # post \<and> CHR ''b'' \<notin> fst ` set post" for pre s post
      using delta_last_block_size[of atof pre s post] assms(1) that bs by auto
  qed (use valid radius default F fin(2) same in \<open>auto simp: opts_valid_def\<close>)
qed

text \<open>Evaluation of the numeric arguments on literals.\<close>

lemmas number_simps = scan_number_def is_space_def is_digit_def decimal_def strtoull_def parse_size_arg_def atoi_def
  UINT64_MAX_def u64_sub_def u64_def Let_def

lemma numbers:
  "atoi ''9'' = Some 9" "atoi ''5'' = Some 5" "atoi ''268'' = Some 268" "parse_size_arg ''3k'' = Some 3072"
  "parse_size_arg ''-1'' = Some (2 ^ 64 - 1)"
  by (simp_all add: number_simps)

theorem delta_options_well_formed_witness:
  "\<exists>a opts. delta_options (\<lambda>_. None) [(CHR ''b'', Some ''9''), (CHR ''r'', Some ''3k''), (CHR ''I'', None)] delta_start = Inr a \<and>
     delta_finish a = Inr opts \<and> do_block_size_log2 opts = 9 \<and> do_search_radius opts = 6 \<and> do_enable_identity opts \<and>
     3072 \<le> do_search_radius opts * 2 ^ do_block_size_log2 opts"
proof -
  let ?evs = "[(CHR ''b'', Some ''9''), (CHR ''r'', Some ''3k''), (CHR ''I'', None)]"
  let ?a = "delta_start\<lparr>da_opts := fsd_diff_options_init\<lparr>do_block_size_log2 := 9, do_enable_identity := False\<rparr>,
    da_no_identity := True, da_radius_bytes := 3072\<rparr>"
  let ?opts = "fsd_diff_options_init\<lparr>do_block_size_log2 := 9, do_search_radius := 6\<rparr>"
  note init = delta_start_def fsd_diff_options_init_def
  have a: "delta_options (\<lambda>_. None) ?evs delta_start = Inr ?a" by (simp add: delta_option_def numbers init)
  have f: "delta_finish ?a = Inr ?opts" by (simp add: delta_finish_def delta_radius_def u64_sub_def u64_def init)
  note P = delta_options_well_formed[OF a f]
  have "int 3072 \<le> do_search_radius ?opts * 2 ^ do_block_size_log2 ?opts"
    using P[THEN conjunct2, THEN conjunct2, THEN conjunct2, THEN conjunct2, THEN conjunct2, THEN conjunct2, THEN conjunct2,
        THEN conjunct2, THEN conjunct2, THEN conjunct2, THEN conjunct2, THEN conjunct2, THEN conjunct2, rule_format,
        of "[(CHR ''b'', Some ''9'')]" "''3''" "''k''" "[(CHR ''I'', None)]" 3072]
    by (simp add: is_digit_def decimal_def init)
  then show ?thesis
    using P a f by (intro exI[of _ ?a] exI[of _ ?opts]) (simp add: init)
qed

text \<open>
  C16. The two commands together: if \<^verbatim>\<open>fsdiff delta\<close> exits with status 0 after writing a patch, then \<^verbatim>\<open>fsdiff patch\<close> with that
  patch and the same source exits with status 0 and its output is the destination image, for any options on either
  command line. The hypotheses are on the system: files that report their size and start empty, a destination below
  \<^verbatim>\<open>2 ^ 37\<close> bytes, and for the second command memory, room and a readable source and patch.
\<close>

theorem delta_then_patch:
  assumes delta: "co_diff (cmd_create sys argv) = Some r" "co_stop (cmd_create sys argv) = Exit 0"
      "cs_getopt sys argv delta_optstring delta_long_options = Some (evs, k, av)"
      "env = cs_diff sys (av ! k) (av ! (k + 1)) (av ! (k + 2))"
    and system: "dispatch_ok (cs_simd sys)" "honest_path (de_src env)" "honest_path (de_dest env)" "fresh_files env"
      "length (p_content (de_src env)) < 2 ^ 62" "length (p_content (de_dest env)) < 2 ^ 37"
    and patch: "cs_getopt sys' argv' patch_optstring patch_long_options = Some (evs', k', av')"
      "patch_args_of evs' \<lparr>pa_opts = fsd_patch_options_init, pa_verbose = False\<rparr> = Inr pa" "k' + 3 = length av'" "cs_calloc sys'"
      "pe = cs_patch sys' (av' ! k') (av' ! (k' + 1)) (av' ! (k' + 2))"
    and system': "honest_path (pe_src pe)" "p_content (pe_src pe) = p_content (de_src env)"
      "fsd_source_reader_open (pe_src pe) (pt_source_mode (pa_opts pa)) = Inr rd" "Eio \<notin> set (p_script (pe_src pe))"
      "honest_path (pe_patch pe)" "Some (p_content (pe_patch pe)) = map_option fdata (dr_output r)"
      "fsd_mmap_open (pe_patch pe) = Inr m" "pe_fopen pe = Some f" "fdata f = []"
      "has_room (length (p_content (de_dest env))) f" "\<And>n. pe_malloc_ok pe n"
  shows "co_stop (cmd_apply sys' argv') = Exit 0 \<and>
    map_option (\<lambda>o'. map_option fdata (po_output o')) (co_patch (cmd_apply sys' argv')) = Some (Some (p_content (de_dest env)))"
proof -
  obtain opts cb where opts: "opts_valid opts"
    and r: "r = fsd_diff_files (cs_simd sys) env \<lparr>dx_opts = opts, dx_stats = zero_stats, dx_progress_cb = cb, dx_cancelled = False\<rparr>"
      (is "r = fsd_diff_files _ _ ?ctx") and stop: "dr_error r = FSD_SUCCESS"
    using delta by (elim cmd_create_cases) (auto split: if_splits)
  have dest: "length (p_content (de_dest env)) < 2 ^ 62" using system(6) by simp
  have call: "diff_call (cs_simd sys) env ?ctx" using system dest opts by (simp add: diff_call_def opts_valid_def)
  have "(2 :: nat) ^ 5 \<le> 2 ^ do_block_size_log2 opts" using opts by (intro power_increasing) (simp_all add: opts_valid_def)
  then have "length (p_content (de_dest env)) div 2 ^ do_block_size_log2 opts \<le> length (p_content (de_dest env)) div 2 ^ 5"
    by (intro div_le_mono2) simp_all
  also have "\<dots> < 2 ^ 32" using system(6) by (simp add: div_less_iff_less_mult)
  finally have blocks: "length (p_content (de_dest env)) div 2 ^ do_block_size_log2 (dx_opts ?ctx) < 2 ^ 32" by simp
  obtain cb' where ap: "cmd_apply sys' argv' = (let r = fsd_patch_apply (pe\<lparr>pe_source_mode := pt_source_mode (pa_opts pa), pe_progress_cb := cb'\<rparr>)
      in \<lparr>co_stop = Exit (if po_error r \<noteq> FSD_SUCCESS then 1 else 0), co_diff = None, co_patch = Some r\<rparr>)"
    using cmd_apply_cases[OF patch(1-4)] patch(5) by blast
  let ?pe = "pe\<lparr>pe_source_mode := pt_source_mode (pa_opts pa), pe_progress_cb := cb'\<rparr>"
  have "po_error (fsd_patch_apply ?pe) = FSD_SUCCESS \<and>
      map_option fdata (po_output (fsd_patch_apply ?pe)) = Some (p_content (de_dest env))"
    by (rule diff_apply_ok[OF call _ blocks, where pe = ?pe and r = rd and m = m and f = f])
      (use r stop system' in simp_all)
  then show ?thesis by (simp add: ap Let_def)
qed

text \<open>A run of both commands on one block, with the parser of the repository.\<close>

definition demo_system :: "bytes \<Rightarrow> cli_system" where
  "demo_system patch = \<lparr>cs_getopt = compat_getopt, cs_atof = (\<lambda>_. None), cs_calloc = True, cs_simd = setup_scalar_dispatch,
     cs_diff = (\<lambda>_ _ _. plain_diff_env [1, 2, 3] (replicate 32 7)), cs_patch = (\<lambda>_ _ _. plain_env [1, 2, 3] patch),
     cs_info = (\<lambda>_. None)\<rparr>"

definition demo_delta :: "string list" where
  "demo_delta = [''delta'', ''-b5'', ''--no-relocation'', ''--no-fsmap'', ''--no-partial'', ''a'', ''b'', ''c'']"

definition demo_patch :: "string list" where "demo_patch = [''patch'', ''-v'', ''a'', ''c'', ''d'']"

definition demo_options :: diff_options where
  "demo_options = fsd_diff_options_init\<lparr>do_block_size_log2 := 5, do_enable_relocation := False, do_enable_fsmap := False,
     do_enable_partial := False\<rparr>"

lemma demo_parses:
  "compat_getopt demo_delta delta_optstring delta_long_options =
     Some ([(CHR ''b'', Some ''5''), (CHR ''R'', Some ''5''), (CHR ''F'', Some ''5''), (CHR ''P'', Some ''5'')], 5, demo_delta)"
  "compat_getopt demo_patch patch_optstring patch_long_options = Some ([(CHR ''v'', None)], 2, demo_patch)"
  by code_simp+

lemma demo_create:
  "\<exists>f r. co_diff (cmd_create (demo_system p) demo_delta) = Some r \<and> co_stop (cmd_create (demo_system p) demo_delta) = Exit 0 \<and>
     dr_output r = Some f \<and> length (fdata f) < 2 ^ 63"
proof -
  let ?env = "plain_diff_env [1, 2, 3] (replicate 32 7)"
  let ?ctx = "\<lparr>dx_opts = demo_options, dx_stats = zero_stats, dx_progress_cb = False, dx_cancelled = False\<rparr>"
  let ?r = "fsd_diff_files setup_scalar_dispatch ?env ?ctx"
  note defs = demo_options_def fsd_diff_options_init_def
  have "diff_call setup_scalar_dispatch ?env ?ctx"
    using plain_diff_call[of "[1, 2, 3]" "replicate 32 7"] by (simp add: diff_call_def defs)
  note call = this
  have ok: "dr_error ?r = FSD_SUCCESS"
    by (rule identity_diff_live[OF call _ plain_system(2,3), where src = "[1, 2, 3]" and dest = "replicate 32 7"])
      (simp_all add: defs identity_only_def plain_diff_env_def)
  obtain f where f: "dr_output ?r = Some f" using diff_files_ok[OF call] ok by (auto simp: diff_sound_def Let_def)
  have "length (p_content (de_dest ?env)) = 32" by (simp add: plain_diff_env_def regular_path_def)
  then have len: "length (fdata f) < 2 ^ 63"
    using diff_output_bound[OF call f ok] by (simp add: defs FSD_HEADER_SIZE_def)
  define a where "a = delta_start\<lparr>da_opts := demo_options\<rparr>"
  have "delta_options (\<lambda>_. None) [(CHR ''b'', Some ''5''), (CHR ''R'', Some ''5''), (CHR ''F'', Some ''5''), (CHR ''P'', Some ''5'')] delta_start = Inr a"
    by (simp add: delta_option_def numbers delta_start_def defs a_def)
  moreover have "delta_finish a = Inr demo_options" by (simp add: delta_finish_def delta_start_def defs a_def)
  moreover have "fsd_diff_create True (Some demo_options) = Inr ?ctx" by (simp add: fsd_diff_create_def defs)
  ultimately have "cmd_create (demo_system p) demo_delta = \<lparr>co_stop = Exit 0, co_diff = Some ?r, co_patch = None\<rparr>"
    using ok by (simp add: cmd_create_def demo_system_def demo_parses) (simp add: demo_delta_def a_def delta_start_def)
  then show ?thesis using f len by auto
qed

theorem delta_then_patch_witness:
  "\<exists>f r. co_diff (cmd_create (demo_system []) demo_delta) = Some r \<and> dr_output r = Some f \<and>
     co_stop (cmd_apply (demo_system (fdata f)) demo_patch) = Exit 0 \<and>
     map_option (\<lambda>o'. map_option fdata (po_output o')) (co_patch (cmd_apply (demo_system (fdata f)) demo_patch)) =
       Some (Some (replicate 32 7))"
proof -
  obtain f r where d: "co_diff (cmd_create (demo_system []) demo_delta) = Some r" "co_stop (cmd_create (demo_system []) demo_delta) = Exit 0"
    and f: "dr_output r = Some f" "length (fdata f) < 2 ^ 63" using demo_create by blast
  let ?sys = "demo_system (fdata f)" and ?env = "plain_diff_env [1, 2, 3] (replicate 32 7)" and ?pe = "plain_env [1, 2, 3] (fdata f)"
  have con: "p_content (de_src ?env) = [1, 2, 3]" "p_content (de_dest ?env) = replicate 32 7"
    by (simp_all add: plain_diff_env_def regular_path_def)
  obtain rd m where rm: "fsd_source_reader_open (pe_src ?pe) FSD_SOURCE_AUTO = Inr rd" "fsd_mmap_open (pe_patch ?pe) = Inr m"
    using regular_path_open[of "[1, 2, 3]"] regular_path_mmap[OF f(2)] by (auto simp: plain_env_def)
  have call: "diff_call setup_scalar_dispatch ?env identity_ctx" by (rule plain_diff_call) simp_all
  let ?pa = "\<lparr>pa_opts = fsd_patch_options_init, pa_verbose = True\<rparr>"
  have pa: "patch_args_of [(CHR ''v'', None)] \<lparr>pa_opts = fsd_patch_options_init, pa_verbose = False\<rparr> = Inr ?pa"
    by (simp add: patch_option_def)
  have parse: "cs_getopt (demo_system p) demo_delta delta_optstring delta_long_options =
      Some ([(CHR ''b'', Some ''5''), (CHR ''R'', Some ''5''), (CHR ''F'', Some ''5''), (CHR ''P'', Some ''5'')], 5, demo_delta)"
    "cs_getopt (demo_system p) demo_patch patch_optstring patch_long_options = Some ([(CHR ''v'', None)], 2, demo_patch)" for p
    by (simp_all add: demo_system_def demo_parses)
  have "co_stop (cmd_apply ?sys demo_patch) = Exit 0 \<and>
      map_option (\<lambda>o'. map_option fdata (po_output o')) (co_patch (cmd_apply ?sys demo_patch)) = Some (Some (p_content (de_dest ?env)))"
    by (rule delta_then_patch[OF d parse(1) _ _ _ _ _ _ _ parse(2) pa, where env = ?env and pe = ?pe and rd = rd and m = m and f = empty_file])
      (use rm call f regular_path_honest[OF f(2)] regular_path_honest[of "[1, 2, 3]"] con in
        \<open>simp_all add: demo_system_def demo_patch_def fsd_patch_options_init_def diff_call_def plain_env_def empty_file_def has_room_def
          dispatch_ok_tables\<close>, simp_all add: regular_path_def)
  then show ?thesis using d(1) f(1) con by auto
qed

text \<open>
  A small negative radius is accepted: it wraps around to a huge number of bytes, the rounding wraps
  around again, and the library falls back to its default radius.
\<close>

theorem negative_radius_accepted:
  "parse_size_arg ''-1'' = Some (2 ^ 64 - 1) \<and>
   delta_finish (delta_start\<lparr>da_radius_bytes := 2 ^ 64 - 1\<rparr>) = Inr (fsd_diff_options_init\<lparr>do_search_radius := 0\<rparr>)"
  by (simp add: numbers delta_finish_def delta_start_def fsd_diff_options_init_def delta_radius_def u64_sub_def u64_def)

text \<open>The block size is reduced to a byte before it is checked.\<close>

theorem large_block_size_accepted:
  "delta_option atof (CHR ''b'') (Some ''268'') delta_start = Inr delta_start"
  by (simp add: delta_option_def numbers delta_start_def fsd_diff_options_init_def)

end
