(* ===== verification/Resources.thy ===== *)
theory Resources
  imports Source_Reader Buffered_Writer Memory_Pool Block_Tracker "HOL-Library.Multiset"
begin

text \<open>
  What the program acquires and gives back: heap blocks, descriptors, mappings, streams, Windows handles, and the
  chunks of memory pools. The operations that create and destroy objects are given here once more with the
  calls that acquire and release, on a ledger of what is live; the error paths release one by one, as in the
  code. Each refines the operation of the same name without the ledger. The contract of such a pair is the
  locale \<^verbatim>\<open>resource_owner\<close>: a creation that fails leaves the ledger alone, one that succeeds adds what the
  object owns, and the destruction takes exactly that away.
\<close>

section \<open>The ledger\<close>

datatype resource =
    Memory string
  | Descriptor string
  | Mapping string
  | Stream string
  | Handle string
  | Chunk string nat

text \<open>\<^verbatim>\<open>None\<close> after the release of something that is not live: a double \<^verbatim>\<open>free\<close>, or a \<^verbatim>\<open>close\<close> of a closed descriptor.\<close>

type_synonym ledger = "resource multiset option"

definition acquire :: "resource \<Rightarrow> ledger \<Rightarrow> ledger" where
  "acquire r L = map_option (add_mset r) L"

definition release :: "resource \<Rightarrow> ledger \<Rightarrow> ledger" where
  "release r L = (case L of None \<Rightarrow> None | Some M \<Rightarrow> if r \<in># M then Some (M - {#r#}) else None)"

definition gains :: "resource multiset \<Rightarrow> ledger \<Rightarrow> ledger" where
  "gains X L = map_option ((+) X) L"

named_theorems ledger \<open>evaluation of acquisitions and releases\<close>

lemma gains_empty [simp]: "gains {#} L = L"
  by (cases L) (simp_all add: gains_def)

lemma gains_gains: "gains X (gains Y L) = gains (X + Y) L"
  by (cases L) (simp_all add: gains_def add.assoc)

lemma gains_swap: "gains X (gains Y L) = gains Y (gains X L)"
  by (simp add: gains_gains add.commute)

lemma acquire_gains [ledger]: "acquire r L = gains {#r#} L"
  by (cases L) (simp_all add: acquire_def gains_def)

lemma release_gains [ledger]: "r \<in># X \<Longrightarrow> release r (gains X L) = gains (X - {#r#}) L"
  by (cases L) (auto simp: release_def gains_def)

lemma release_past [ledger]: "r \<in># Y \<Longrightarrow> release r (gains X (gains Y L)) = gains X (gains (Y - {#r#}) L)"
  by (simp add: gains_gains release_gains)

lemma release_acquire [simp]: "release r (acquire r L) = L"
  by (simp add: acquire_gains release_gains)

declare gains_gains [ledger] add_mset_commute [ledger]

section \<open>The contract\<close>

locale resource_owner =
  fixes make :: "'e \<Rightarrow> ledger \<Rightarrow> (fsd_error + 'o) \<times> ledger"
    and dispose :: "'o \<Rightarrow> ledger \<Rightarrow> ledger"
    and owned :: "'o \<Rightarrow> resource multiset"
    and valid :: "'o \<Rightarrow> bool"
  assumes fails: "make e L = (Inl err, L') \<Longrightarrow> L' = L"
    and succeeds: "make e L = (Inr x, L') \<Longrightarrow> L' = gains (owned x) L \<and> valid x"
    and released: "valid x \<Longrightarrow> dispose x (gains (owned x) L) = L"
begin

lemma make_ledger: "snd (make e L) = (case fst (make e L) of Inl err \<Rightarrow> L | Inr x \<Rightarrow> gains (owned x) L)"
  using fails[of e L] succeeds[of e L] by (cases "make e L") (auto split: sum.splits)

lemma make_cases:
  obtains err where "make e L = (Inl err, L)"
  | x where "make e L = (Inr x, gains (owned x) L)" "valid x"
proof (cases "make e L")
  case (Pair r L')
  show thesis
  proof (cases r)
    case (Inl err)
    then show thesis using that(1)[of err] Pair fails[of e L err L'] by simp
  next
    case (Inr x)
    then show thesis using that(2)[of x] Pair succeeds[of e L x L'] by simp
  qed
qed

lemma make_dispose: "make e L = (Inr x, L') \<Longrightarrow> dispose x L' = L"
  using succeeds[of e L x L'] released[of x L] by simp

lemma dispose_past: "valid x \<Longrightarrow> dispose x (gains Y (gains (owned x) L)) = gains Y L"
  using released[of x "gains Y L"] gains_swap[of "owned x" Y L] by simp

end

section \<open>The memory-mapped reader\<close>

definition fsd_mmap_open_l :: "string \<Rightarrow> os_path \<Rightarrow> ledger \<Rightarrow> (fsd_error + mmap_reader) \<times> ledger" where
  "fsd_mmap_open_l tag p L =
     (if \<not> p_calloc_ok p then (Inl FSD_ERR_OUT_OF_MEMORY, L)
      else
        let L = acquire (Memory tag) L in
        case p_open p of
          Some e \<Rightarrow>
            (let L = release (Memory tag) L in
             if e = ENOENT then (Inl FSD_ERR_FILE_NOT_FOUND, L)
             else if e = EACCES \<or> e = EPERM then (Inl FSD_ERR_PERMISSION, L)
             else (Inl FSD_ERR_IO, L))
        | None \<Rightarrow>
            (let L = acquire (Descriptor tag) L in
             if p_fstat p \<noteq> None then (Inl FSD_ERR_IO, release (Memory tag) (release (Descriptor tag) L))
             else if p_st_size p < 0 then (Inl FSD_ERR_IO, release (Memory tag) (release (Descriptor tag) L))
             else
               let raw_size = mmap_raw_size p in
               if UINT64_MAX < raw_size then (Inl FSD_ERR_IO, release (Memory tag) (release (Descriptor tag) L))
               else if raw_size = 0 then (Inr \<lparr>m_base_addr = None, m_file_size = 0\<rparr>, L)
               else if \<not> p_mmap_ok p
               then (Inl FSD_ERR_MMAP_FAILED, release (Memory tag) (release (Descriptor tag) L))
               else (Inr \<lparr>m_base_addr = Some (take raw_size (p_content p)), m_file_size = raw_size\<rparr>,
                     acquire (Mapping tag) L)))"

definition fsd_mmap_close :: "string \<Rightarrow> mmap_reader \<Rightarrow> ledger \<Rightarrow> ledger" where
  "fsd_mmap_close tag r L =
     (let L = (if m_base_addr r \<noteq> None \<and> 0 < m_file_size r then release (Mapping tag) L else L);
          L = release (Descriptor tag) L
      in release (Memory tag) L)"

definition mmap_owned :: "string \<Rightarrow> mmap_reader \<Rightarrow> resource multiset" where
  "mmap_owned tag r = {#Memory tag, Descriptor tag#} + (if m_base_addr r \<noteq> None then {#Mapping tag#} else {#})"

definition mmap_valid :: "mmap_reader \<Rightarrow> bool" where
  "mmap_valid r \<longleftrightarrow> (m_base_addr r \<noteq> None \<longrightarrow> 0 < m_file_size r)"

lemma mmap_open_l_refines: "fst (fsd_mmap_open_l tag p L) = fsd_mmap_open p"
  by (simp add: fsd_mmap_open_l_def fsd_mmap_open_def Let_def split: option.split)

interpretation mm: resource_owner "fsd_mmap_open_l tag" "fsd_mmap_close tag" "mmap_owned tag" mmap_valid for tag
proof
  fix p L L' err x
  show "L' = L" if "fsd_mmap_open_l tag p L = (Inl err, L')"
    using that by (auto simp: fsd_mmap_open_l_def Let_def ledger split: option.splits if_splits)
  show "L' = gains (mmap_owned tag x) L \<and> mmap_valid x" if "fsd_mmap_open_l tag p L = (Inr x, L')"
    using that by (auto simp: fsd_mmap_open_l_def mmap_owned_def mmap_valid_def Let_def ledger
        split: option.splits if_splits)
  show "fsd_mmap_close tag x (gains (mmap_owned tag x) L) = L" if "mmap_valid x"
    using that by (auto simp: fsd_mmap_close_def mmap_owned_def mmap_valid_def Let_def ledger)
qed

section \<open>The source reader\<close>

text \<open>The names of what a reader owns beside its structure and its descriptor.\<close>

definition map_of_reader :: "string \<Rightarrow> string" where "map_of_reader tag = ''map of '' @ tag"
definition scratch_of :: "string \<Rightarrow> resource" where "scratch_of tag = Memory (''scratch of '' @ tag)"
definition slurp_of :: "string \<Rightarrow> resource" where "slurp_of tag = Memory (''slurp of '' @ tag)"

definition open_mmap_l :: "string \<Rightarrow> os_path \<Rightarrow> ledger \<Rightarrow> (fsd_error + source_reader) \<times> ledger" where
  "open_mmap_l tag p L =
     (case fsd_mmap_open_l (map_of_reader tag) p L of
        (Inl e, L) \<Rightarrow> (Inl e, L)
      | (Inr m, L) \<Rightarrow> (Inr (empty_reader\<lparr>sr_mmap := m, sr_backend := FSD_BACKEND_MMAP,
                        sr_file_size := fsd_mmap_size m\<rparr>), L))"

definition open_direct_l :: "string \<Rightarrow> os_path \<Rightarrow> ledger \<Rightarrow> (fsd_error + source_reader) \<times> ledger" where
  "open_direct_l tag p L =
     (case p_open_direct p of Some e \<Rightarrow> (Inl (errno_to_fsd e), L)
      | None \<Rightarrow>
     (let L = acquire (Descriptor tag) L in
      case p_fstat p of Some e \<Rightarrow> (Inl (errno_to_fsd e), release (Descriptor tag) L)
      | None \<Rightarrow> (case query_size p of None \<Rightarrow> (Inl FSD_ERR_IO, release (Descriptor tag) L)
      | Some sz \<Rightarrow>
          let align = query_alignment p;
              align = (if align = 0 \<or> (of_nat align :: 64 word) AND (of_nat align - 1) \<noteq> 0
                       then FSD_DIO_DEFAULT_ALIGN else align);
              scratch_size = FSD_DIO_SCRATCH_SIZE;
              scratch_size = (if scratch_size < align then align else scratch_size);
              scratch_size = round_up_pow2 scratch_size align
          in if \<not> p_memalign_ok p then (Inl FSD_ERR_OUT_OF_MEMORY, release (Descriptor tag) L)
             else (Inr (empty_reader\<lparr>sr_backend := FSD_BACKEND_DIRECT,
                         sr_fd := \<lparr>fd_content = p_content p, fd_script = p_script p\<rparr>,
                         sr_file_size := sz, sr_alignment := align, sr_memalign_ok := p_slurp_ok p,
                         sr_scratch := replicate scratch_size 0,
                         sr_scratch_size := scratch_size\<rparr>), acquire (scratch_of tag) L))))"

definition fsd_source_reader_open_l ::
  "string \<Rightarrow> os_path \<times> fsd_source_mode \<Rightarrow> ledger \<Rightarrow> (fsd_error + source_reader) \<times> ledger" where
  "fsd_source_reader_open_l tag pm L =
     (case pm of (p, mode) \<Rightarrow>
      if \<not> p_reader_ok p then (Inl FSD_ERR_OUT_OF_MEMORY, L)
      else
        let L = acquire (Memory tag) L;
            resolved =
          (if mode = FSD_SOURCE_AUTO then
             (case p_stat p of Some e \<Rightarrow> Inl (errno_to_fsd e)
              | None \<Rightarrow> Inr (if p_kind p = S_IFBLK then FSD_SOURCE_DIRECT else FSD_SOURCE_MMAP))
           else Inr mode)
        in case resolved of
             Inl e \<Rightarrow> (Inl e, release (Memory tag) L)
           | Inr m \<Rightarrow>
               (case (if m = FSD_SOURCE_DIRECT then open_direct_l tag p L else open_mmap_l tag p L) of
                  (Inl err, L) \<Rightarrow> (Inl err, release (Memory tag) L)
                | (Inr r, L) \<Rightarrow> (Inr r, L)))"

text \<open>The static byte that stands for an empty image is not freed.\<close>

definition direct_materialize_l :: "string \<Rightarrow> source_reader \<Rightarrow> ledger \<Rightarrow> (fsd_error \<times> source_reader) \<times> ledger" where
  "direct_materialize_l tag r L =
     (if sr_slurp r \<noteq> None then ((FSD_SUCCESS, r), L)
      else if sr_file_size r = 0 then ((FSD_SUCCESS, r\<lparr>sr_slurp := Some [0]\<rparr>), L)
      else if \<not> sr_memalign_ok r then ((FSD_ERR_OUT_OF_MEMORY, r), L)
      else
        let L = acquire (slurp_of tag) L in
        case pread_full (round_up_pow2 (sr_file_size r) (sr_alignment r)) 0 (sr_file_size r) [] (sr_fd r) of
          (err, buf, fd') \<Rightarrow>
            if err \<noteq> FSD_SUCCESS then ((err, r\<lparr>sr_fd := fd'\<rparr>), release (slurp_of tag) L)
            else ((FSD_SUCCESS, r\<lparr>sr_fd := fd', sr_slurp := Some buf\<rparr>), L))"

definition fsd_source_reader_data_l ::
  "string \<Rightarrow> source_reader \<Rightarrow> ledger \<Rightarrow> (fsd_error \<times> bytes option \<times> source_reader) \<times> ledger" where
  "fsd_source_reader_data_l tag r L =
     (if sr_backend r = FSD_BACKEND_MMAP then ((FSD_SUCCESS, fsd_mmap_data (sr_mmap r), r), L)
      else case direct_materialize_l tag r L of
        ((err, r'), L) \<Rightarrow>
          if err \<noteq> FSD_SUCCESS then ((err, None, r'), L) else ((FSD_SUCCESS, sr_slurp r', r'), L))"

definition fsd_source_reader_close :: "string \<Rightarrow> source_reader \<Rightarrow> ledger \<Rightarrow> ledger" where
  "fsd_source_reader_close tag r L =
     (let L = (if sr_backend r = FSD_BACKEND_MMAP then fsd_mmap_close (map_of_reader tag) (sr_mmap r) L else L);
          L = (if sr_backend r = FSD_BACKEND_DIRECT then release (scratch_of tag) L else L);
          L = (if sr_slurp r \<noteq> None \<and> 0 < sr_file_size r then release (slurp_of tag) L else L);
          L = (if sr_backend r = FSD_BACKEND_DIRECT then release (Descriptor tag) L else L)
      in release (Memory tag) L)"

definition source_owned :: "string \<Rightarrow> source_reader \<Rightarrow> resource multiset" where
  "source_owned tag r = {#Memory tag#} +
     (case sr_backend r of
        FSD_BACKEND_MMAP \<Rightarrow> mmap_owned (map_of_reader tag) (sr_mmap r)
      | FSD_BACKEND_DIRECT \<Rightarrow> {#Descriptor tag, scratch_of tag#} +
          (if sr_slurp r \<noteq> None \<and> 0 < sr_file_size r then {#slurp_of tag#} else {#}))"

definition source_valid :: "source_reader \<Rightarrow> bool" where
  "source_valid r \<longleftrightarrow> (sr_backend r = FSD_BACKEND_MMAP \<longrightarrow> mmap_valid (sr_mmap r) \<and> sr_slurp r = None)"

lemma source_open_l_refines: "fst (fsd_source_reader_open_l tag (p, mode) L) = fsd_source_reader_open p mode"
proof -
  have m: "fst (open_mmap_l tag p L) = open_mmap p" for L
    using mmap_open_l_refines[of "map_of_reader tag" p L]
    by (auto simp: open_mmap_l_def open_mmap_def split: prod.splits sum.splits)
  have d: "fst (open_direct_l tag p L) = open_direct p" for L
    by (simp add: open_direct_l_def open_direct_def Let_def split: option.split)
  show ?thesis
    using m[of "acquire (Memory tag) L"] d[of "acquire (Memory tag) L"]
    by (auto simp: fsd_source_reader_open_l_def fsd_source_reader_open_def Let_def split: option.splits sum.splits prod.splits)
qed

lemma source_data_l_refines: "fst (fsd_source_reader_data_l tag r L) = fsd_source_reader_data r"
  by (auto simp: fsd_source_reader_data_l_def fsd_source_reader_data_def direct_materialize_l_def direct_materialize_def Let_def
      split: prod.splits if_splits)

lemma source_data_l_ledger:
  assumes "source_valid r" and "fsd_source_reader_data_l tag r (gains (source_owned tag r) L) = ((e, d, r'), L')"
  shows "L' = gains (source_owned tag r') L \<and> source_valid r'"
  using assms
  by (cases "sr_backend r")
     (auto simp: fsd_source_reader_data_l_def direct_materialize_l_def source_owned_def source_valid_def Let_def ledger
      split: prod.splits if_splits)

lemma open_mmap_l_cases:
  obtains e where "open_mmap_l tag p L = (Inl e, L)"
  | r where "open_mmap_l tag p L = (Inr r, gains (mmap_owned (map_of_reader tag) (sr_mmap r)) L)"
    "sr_backend r = FSD_BACKEND_MMAP" "mmap_valid (sr_mmap r)" "sr_slurp r = None"
proof (cases p L rule: mm.make_cases[of "map_of_reader tag"])
  case (1 err)
  then show thesis using that(1) by (simp add: open_mmap_l_def)
next
  case (2 m)
  then show thesis using that(2) by (simp add: open_mmap_l_def empty_reader_def)
qed

lemma open_direct_l_cases:
  obtains e where "open_direct_l tag p L = (Inl e, L)"
  | r where "open_direct_l tag p L = (Inr r, gains {#Descriptor tag, scratch_of tag#} L)"
    "sr_backend r = FSD_BACKEND_DIRECT" "sr_slurp r = None"
proof (cases "open_direct_l tag p L")
  case (Pair res L')
  show thesis
  proof (cases res)
    case (Inl e)
    then have "L' = L"
      using Pair by (auto simp: open_direct_l_def Let_def split: option.splits if_splits)
    then show thesis using that(1) Pair Inl by simp
  next
    case (Inr r)
    then have "L' = gains {#Descriptor tag, scratch_of tag#} L" "sr_backend r = FSD_BACKEND_DIRECT" "sr_slurp r = None"
      using Pair by (auto simp: open_direct_l_def Let_def empty_reader_def ledger split: option.splits if_splits)
    then show thesis using that(2) Pair Inr by simp
  qed
qed

interpretation sr: resource_owner "fsd_source_reader_open_l tag" "fsd_source_reader_close tag" "source_owned tag" source_valid
  for tag
proof
  fix pm :: "os_path \<times> fsd_source_mode" and L L' err x
  obtain p mode where pm: "pm = (p, mode)" by (cases pm)
  let ?L = "acquire (Memory tag) L"
  show "L' = L" if "fsd_source_reader_open_l tag pm L = (Inl err, L')"
    using that unfolding pm fsd_source_reader_open_l_def
    by (cases p ?L rule: open_direct_l_cases[of tag]; cases p ?L rule: open_mmap_l_cases[of tag])
       (auto simp: Let_def split: if_splits sum.splits option.splits)
  show "L' = gains (source_owned tag x) L \<and> source_valid x" if "fsd_source_reader_open_l tag pm L = (Inr x, L')"
    using that unfolding pm fsd_source_reader_open_l_def
    by (cases p ?L rule: open_direct_l_cases[of tag]; cases p ?L rule: open_mmap_l_cases[of tag])
       (auto simp: Let_def source_owned_def source_valid_def ledger split: if_splits sum.splits option.splits)
  show "fsd_source_reader_close tag x (gains (source_owned tag x) L) = L" if "source_valid x"
  proof (cases "sr_backend x")
    case FSD_BACKEND_MMAP
    then have "gains (source_owned tag x) L = gains (mmap_owned (map_of_reader tag) (sr_mmap x)) (acquire (Memory tag) L)"
      by (simp add: source_owned_def ledger)
    then show ?thesis
      using that FSD_BACKEND_MMAP by (simp add: fsd_source_reader_close_def source_valid_def mm.released)
  next
    case FSD_BACKEND_DIRECT
    then show ?thesis by (auto simp: fsd_source_reader_close_def source_owned_def Let_def ledger)
  qed
qed

section \<open>The buffered writer\<close>

text \<open>\<^verbatim>\<open>tag\<close> names the stream of the writer.\<close>

definition buffer_of :: "string \<Rightarrow> resource" where "buffer_of tag = Memory (''buffer of '' @ tag)"

definition fsd_writer_create_from_file_l ::
  "string \<Rightarrow> (nat \<Rightarrow> bool) \<Rightarrow> FILE option \<Rightarrow> nat \<Rightarrow> ledger \<Rightarrow> (fsd_error + writer) \<times> ledger" where
  "fsd_writer_create_from_file_l tag malloc_ok file buffer_size L =
     (case file of None \<Rightarrow> (Inl FSD_ERR_INVALID_ARG, L)
      | Some f \<Rightarrow>
         (let buffer_size = (if buffer_size = 0 then FSD_WRITER_DEFAULT_BUFFER else buffer_size)
          in if \<not> malloc_ok 48 then (Inl FSD_ERR_OUT_OF_MEMORY, L)
             else
               let L = acquire (Memory tag) L in
               if \<not> malloc_ok buffer_size then (Inl FSD_ERR_OUT_OF_MEMORY, release (Memory tag) L)
               else (Inr \<lparr>w_file = f, w_buffer = replicate buffer_size 0,
                          w_buffer_size = buffer_size, w_buffer_pos = 0, w_total_written = 0,
                          w_owns_file = False\<rparr>, acquire (buffer_of tag) L)))"

definition fsd_writer_create_l ::
  "string \<Rightarrow> (nat \<Rightarrow> bool) \<times> FILE option \<times> nat \<Rightarrow> ledger \<Rightarrow> (fsd_error + writer) \<times> ledger" where
  "fsd_writer_create_l tag a L =
     (case a of (malloc_ok, file, buffer_size) \<Rightarrow>
      case file of None \<Rightarrow> (Inl FSD_ERR_IO, L)
      | Some f \<Rightarrow>
         (let L = acquire (Stream tag) L in
          case fsd_writer_create_from_file_l tag malloc_ok (Some f) buffer_size L of
            (Inl e, L) \<Rightarrow> (Inl e, release (Stream tag) L)
          | (Inr w, L) \<Rightarrow> (Inr (w\<lparr>w_owns_file := True\<rparr>), L)))"

text \<open>What \<^verbatim>\<open>fsd_writer_close\<close> gives back; what it writes is in the theory of the writer.\<close>

definition fsd_writer_close_l :: "string \<Rightarrow> writer \<Rightarrow> ledger \<Rightarrow> ledger" where
  "fsd_writer_close_l tag w L =
     (let L = (if w_owns_file w then release (Stream tag) L else L);
          L = release (buffer_of tag) L
      in release (Memory tag) L)"

definition writer_owned :: "string \<Rightarrow> writer \<Rightarrow> resource multiset" where
  "writer_owned tag w = {#Memory tag, buffer_of tag#} + (if w_owns_file w then {#Stream tag#} else {#})"

lemma writer_create_l_refines:
  "fst (fsd_writer_create_from_file_l tag malloc_ok f n L) = fsd_writer_create_from_file malloc_ok f n"
  "fst (fsd_writer_create_l tag (malloc_ok, f, n) L) = fsd_writer_create malloc_ok f n"
  by (auto simp: fsd_writer_create_from_file_l_def fsd_writer_create_from_file_def fsd_writer_create_l_def fsd_writer_create_def
      Let_def split: option.splits)

lemma writer_from_file_ledger:
  "snd (fsd_writer_create_from_file_l tag malloc_ok f n L) =
     (case fsd_writer_create_from_file malloc_ok f n of Inl e \<Rightarrow> L | Inr w \<Rightarrow> gains {#Memory tag, buffer_of tag#} L)"
  by (auto simp: fsd_writer_create_from_file_l_def fsd_writer_create_from_file_def Let_def ledger split: option.splits)

lemma writer_close_ledger: "fsd_writer_close_l tag w (gains (writer_owned tag w) L) = L"
  by (simp add: fsd_writer_close_l_def writer_owned_def Let_def ledger)

interpretation bw: resource_owner "fsd_writer_create_l tag" "fsd_writer_close_l tag" "writer_owned tag" "\<lambda>_. True" for tag
proof
  fix a :: "(nat \<Rightarrow> bool) \<times> FILE option \<times> nat" and L L' err x
  obtain m f n where a: "a = (m, f, n)" by (cases a)
  show "L' = L" if "fsd_writer_create_l tag a L = (Inl err, L')"
    using that by (auto simp: a fsd_writer_create_l_def fsd_writer_create_from_file_l_def Let_def split: option.splits if_splits)
  show "L' = gains (writer_owned tag x) L \<and> True" if "fsd_writer_create_l tag a L = (Inr x, L')"
    using that by (auto simp: a fsd_writer_create_l_def fsd_writer_create_from_file_l_def writer_owned_def Let_def ledger
        split: option.splits if_splits)
  show "fsd_writer_close_l tag x (gains (writer_owned tag x) L) = L" if True by (rule writer_close_ledger)
qed

section \<open>The block tracker\<close>

definition fsd_block_tracker_create_l ::
  "(nat \<Rightarrow> bool) \<times> nat \<times> nat \<Rightarrow> ledger \<Rightarrow> (fsd_error + block_tracker) \<times> ledger" where
  "fsd_block_tracker_create_l a L =
     (case a of (malloc_ok, dest_blocks, block_size) \<Rightarrow>
      if dest_blocks = 0 \<or> block_size = 0 then (Inl FSD_ERR_INVALID_ARG, L)
      else if \<not> malloc_ok sizeof_block_tracker then (Inl FSD_ERR_OUT_OF_MEMORY, L)
      else
        let L = acquire (Memory ''tracker'') L in
        if \<not> malloc_ok (dest_blocks * sizeof_block_state)
        then (Inl FSD_ERR_OUT_OF_MEMORY, release (Memory ''tracker'') L)
        else
          let L = acquire (Memory ''blocks'') L;
              bitmap_words = u64 (dest_blocks + 63) div 64
          in
          if \<not> malloc_ok (bitmap_words * 8)
          then (Inl FSD_ERR_OUT_OF_MEMORY, release (Memory ''tracker'') (release (Memory ''blocks'') L))
          else (Inr \<lparr>t_blocks = map fresh_block [0..<dest_blocks], t_count = dest_blocks,
                  t_block_size = block_size,
                  t_unmatched_bitmap = fold (\<lambda>i bm. bitmap_set bm i) [0..<dest_blocks]
                    (replicate bitmap_words 0),
                  t_bitmap_words = bitmap_words, t_identity_count = 0, t_relocate_count = 0,
                  t_partial_count = 0, t_zero_count = 0, t_one_count = 0, t_literal_count = 0\<rparr>,
                acquire (Memory ''bitmap'') L))"

definition fsd_block_tracker_destroy :: "block_tracker \<Rightarrow> ledger \<Rightarrow> ledger" where
  "fsd_block_tracker_destroy t L =
     release (Memory ''tracker'') (release (Memory ''blocks'') (release (Memory ''bitmap'') L))"

definition tracker_owned :: "block_tracker \<Rightarrow> resource multiset" where
  "tracker_owned t = {#Memory ''tracker'', Memory ''blocks'', Memory ''bitmap''#}"

lemma tracker_create_l_refines:
  "fst (fsd_block_tracker_create_l (malloc_ok, n, bs) L) = fsd_block_tracker_create malloc_ok n bs"
  by (simp add: fsd_block_tracker_create_l_def fsd_block_tracker_create_def Let_def)

interpretation bt: resource_owner fsd_block_tracker_create_l fsd_block_tracker_destroy tracker_owned "\<lambda>_. True"
proof
  fix a :: "(nat \<Rightarrow> bool) \<times> nat \<times> nat" and L L' err x
  show "L' = L" if "fsd_block_tracker_create_l a L = (Inl err, L')"
    using that by (auto simp: fsd_block_tracker_create_l_def Let_def ledger split: prod.splits if_splits)
  show "L' = gains (tracker_owned x) L \<and> True" if "fsd_block_tracker_create_l a L = (Inr x, L')"
    using that by (auto simp: fsd_block_tracker_create_l_def tracker_owned_def Let_def ledger split: prod.splits if_splits)
  show "fsd_block_tracker_destroy x (gains (tracker_owned x) L) = L" if True
    by (simp add: fsd_block_tracker_destroy_def tracker_owned_def ledger)
qed

section \<open>Memory pools\<close>

text \<open>
  A chunk of a pool is its header and its data block. \<^verbatim>\<open>create_chunk\<close> returns the header when there is no data
  block, so a chunk is live exactly when it is in the store.
\<close>

definition fsd_pool_create_l ::
  "string \<Rightarrow> allocator \<times> bool \<times> nat \<times> nat \<Rightarrow> ledger \<Rightarrow> (fsd_error + memory_pool) \<times> ledger" where
  "fsd_pool_create_l tag a L =
     (case a of (A, malloc_ok, chunk_size, max_memory) \<Rightarrow>
      if chunk_size = 0 then (Inl FSD_ERR_INVALID_ARG, L)
      else if \<not> malloc_ok then (Inl FSD_ERR_OUT_OF_MEMORY, L)
      else
        let L = acquire (Memory tag) L;
            pool = \<lparr>pl_store = [], pl_chunks = None, pl_current = None, pl_chunk_size = chunk_size,
                    pl_total_allocated = 0, pl_max_memory = max_memory, pl_calls = 0\<rparr>
        in (case create_chunk A chunk_size pool of
              (None, _) \<Rightarrow> (Inl FSD_ERR_OUT_OF_MEMORY, release (Memory tag) L)
            | (Some i, pool) \<Rightarrow> (Inr (pool\<lparr>pl_chunks := Some i, pl_current := Some i\<rparr>), acquire (Chunk tag i) L)))"

definition fsd_pool_destroy_l :: "string \<Rightarrow> memory_pool \<Rightarrow> ledger \<Rightarrow> ledger" where
  "fsd_pool_destroy_l tag pool L =
     release (Memory tag) (fold (\<lambda>i. release (Chunk tag i)) (fsd_pool_destroy pool) L)"

definition pool_owned :: "string \<Rightarrow> memory_pool \<Rightarrow> resource multiset" where
  "pool_owned tag pool = {#Memory tag#} + mset (map (Chunk tag) [0..<length (pl_store pool)])"

lemma pool_create_l_refines: "fst (fsd_pool_create_l tag (A, ok, cs, mx) L) = fsd_pool_create A ok cs mx"
  by (auto simp: fsd_pool_create_l_def fsd_pool_create_def Let_def split: prod.splits option.splits)

lemma release_all: "fold (\<lambda>i. release (f i)) xs (gains (mset (map f xs)) L) = L"
  by (induction xs) (simp_all add: ledger del: add_mset_commute)

lemma pool_create_linked: "fsd_pool_create A ok cs mx = Inr p \<Longrightarrow> linked p \<and> length (pl_store p) = 1"
  by (auto simp: fsd_pool_create_def create_chunk_def linked_def Let_def split: if_splits option.splits)

interpretation mp: resource_owner "fsd_pool_create_l tag" "fsd_pool_destroy_l tag" "pool_owned tag" linked for tag
proof
  fix a :: "allocator \<times> bool \<times> nat \<times> nat" and L L' err x
  obtain A ok cs mx where a: "a = (A, ok, cs, mx)" by (cases a)
  show "L' = L" if "fsd_pool_create_l tag a L = (Inl err, L')"
    using that by (auto simp: fsd_pool_create_l_def Let_def split: prod.splits if_splits option.splits)
  show "L' = gains (pool_owned tag x) L \<and> linked x" if made: "fsd_pool_create_l tag a L = (Inr x, L')"
  proof -
    have x: "linked x" "length (pl_store x) = 1"
      using pool_create_linked[of A ok cs mx x] pool_create_l_refines[of tag A ok cs mx L] made by (simp_all add: a)
    have "L' = acquire (Chunk tag 0) (acquire (Memory tag) L)"
      using made by (auto simp: a fsd_pool_create_l_def create_chunk_def Let_def split: if_splits option.splits)
    then show ?thesis using x by (simp add: pool_owned_def ledger)
  qed
  show "fsd_pool_destroy_l tag x (gains (pool_owned tag x) L) = L" if "linked x"
  proof -
    let ?chunks = "mset (map (Chunk tag) [0..<length (pl_store x)])"
    have "gains (pool_owned tag x) L = gains ?chunks (acquire (Memory tag) L)" by (simp add: pool_owned_def ledger)
    then show ?thesis
      unfolding fsd_pool_destroy_l_def pool_destroy_linked[OF that] using release_all by (metis release_acquire)
  qed
qed

end
