(* ===== verification/Release.thy ===== *)
theory Release
  imports Resources Diff Library
begin

text \<open>
  The creation and destruction of the stages and the controller, the handles of the file-system index, and every exit of
  \<^verbatim>\<open>fsd_diff_files\<close>, on the ledger of live resources. During a run the pools only grow, by chunks at the
  end of their lists, so that destroying them afterwards reaches every chunk. The memory that the encoder and
  the file-system walk take and return inside one call is not on the ledger.
\<close>

section \<open>Pools that only grow\<close>

definition grows :: "memory_pool \<Rightarrow> memory_pool \<Rightarrow> bool" where
  "grows p p' \<longleftrightarrow> length (pl_store p) \<le> length (pl_store p') \<and> (linked p \<longrightarrow> linked p')"

lemma grows_refl [simp]: "grows p p"
  by (simp add: grows_def)

lemma grows_trans: "grows p q \<Longrightarrow> grows q r \<Longrightarrow> grows p r"
  by (auto simp: grows_def)

lemma grows_alloc: "grows p (snd (fsd_pool_alloc A n p))"
proof -
  have "length (pl_store p) \<le> length (pl_store p')" if "create_chunk A m p = (r, p')" for m r p'
    using that by (auto simp: create_chunk_def Let_def split: option.splits if_splits)
  then have "length (pl_store p) \<le> length (pl_store (snd (pool_grow A s m p)))" for s m
    by (auto simp: pool_grow_def upd_chunk_def link_chunk_def split: prod.splits option.splits)
  then show ?thesis
    using pool_alloc_linked(1)[of p A n] by (auto simp: grows_def fsd_pool_alloc_def upd_chunk_def Let_def split: option.splits)
qed

lemma grows_alloc_eq: "fsd_pool_alloc A n p = (r, p') \<Longrightarrow> grows p p'"
  using grows_alloc[of p A n] by simp

lemma grows_table_create: "fsd_hash_table_create A n p = (r, p') \<Longrightarrow> grows p p'"
  by (auto simp: fsd_hash_table_create_def Let_def split: prod.splits option.splits
      dest!: grows_alloc_eq intro: grows_trans)

lemma grows_insert: "grows (snd tp) (snd (fsd_hash_table_insert A c i tp))"
  by (auto simp: fsd_hash_table_insert_def Let_def split: prod.splits option.splits dest!: grows_alloc_eq)

text \<open>A loop whose body lets the pool grow.\<close>

lemma grows_for_loop:
  assumes "\<And>i s. grows (pool s) (pool (snd (body i s)))"
  shows "grows (pool s) (pool (snd (for_loop i n body s)))"
  by (rule for_loop_invariant[where P = "\<lambda>s'. grows (pool s) (pool s')"]) (use assms grows_trans in auto)

lemma grows_index_block: "grows (snd tp) (snd (snd (index_block A src bs i tp)))"
  using grows_insert by (simp add: index_block_def split: option.split)

lemma grows_relocation_index: "fsd_relocation_stage_build_index A src s = (e, s') \<Longrightarrow> grows (rs_pool s) (rs_pool s')"
proof -
  assume built: "fsd_relocation_stage_build_index A src s = (e, s')"
  obtain r p where c: "fsd_hash_table_create A (rs_src_blocks s) (rs_pool s) = (r, p)" by (rule prod.exhaust)
  note create = grows_table_create[OF c]
  show ?thesis
  proof (cases r)
    case (Inr table)
    obtain e' table' p' where l: "for_loop 0 (rs_src_blocks s) (index_block A src (rs_block_size s)) (table, p) = (e', table', p')"
      by (metis prod_cases3)
    have "grows p p'"
      using grows_for_loop[of snd "index_block A src (rs_block_size s)" "(table, p)" 0 "rs_src_blocks s", OF grows_index_block] l
      by simp
    moreover have "rs_pool s' = p'" using built c Inr l by (auto simp: fsd_relocation_stage_build_index_def)
    ultimately show ?thesis using create grows_trans by simp
  qed (use built c create in \<open>auto simp: fsd_relocation_stage_build_index_def\<close>)
qed

lemma grows_relocation: "relocation_run A s t src dest = (e, s', t') \<Longrightarrow> grows (rs_pool s) (rs_pool s')"
  by (auto simp: relocation_run_def split: prod.splits if_splits dest!: grows_relocation_index)

lemma grows_record: "grows (snd tp) (snd (snd (record_partial A src dest bs i p tp)))"
  by (auto simp: record_partial_def split: prod.splits option.splits dest!: grows_alloc_eq)

lemma grows_record_eq: "record_partial A src dest bs i p tp = (e, tp') \<Longrightarrow> grows (snd tp) (snd tp')"
  using grows_record[of tp A src dest bs i p] by simp

lemma grows_extend: "grows (snd tp) (snd (snd (extend_match A cf src n dest bs thr off xs tp)))"
proof (induction xs arbitrary: tp)
  case (Cons x xs)
  obtain e tp' where r: "record_partial A src dest bs x (nat (s64 (int (x * bs) + off))) tp = (e, tp')" by (rule prod.exhaust)
  then have "grows (snd tp) (snd tp')" by (rule grows_record_eq)
  with r Cons.IH[of tp'] show ?case
    by (auto simp: Let_def split: option.split fsd_error.split intro: grows_trans)
qed simp

lemma grows_partial_block: "grows (snd tp) (snd (snd (partial_block A cf s src dest i tp)))"
  using grows_extend
  by (fastforce simp: partial_block_def Let_def split: option.splits prod.splits fsd_error.splits
      dest!: grows_record_eq intro: grows_trans)

lemma grows_partial_loop: "for_loop i n (partial_block A cf s src dest) (t, p) = (e, t', p') \<Longrightarrow> grows p p'"
  using grows_for_loop[of snd "partial_block A cf s src dest" "(t, p)" i n, OF grows_partial_block] by simp

lemma grows_partial: "Stage_Partial.partial_run g A (s, p) t src dest = (e, (s', p'), t') \<Longrightarrow> grows p p'"
  by (auto simp: Stage_Partial.partial_run_def fsd_partial_stage_run_def split: prod.splits if_splits dest!: grows_partial_loop)

lemma grows_fsmap_block: "grows (snd tp) (snd (snd (fsmap_block A cf s src dest stored h tp)))"
  by (auto simp: fsmap_block_def Let_def split: option.splits prod.splits fsd_error.splits dest!: grows_record_eq)

lemma grows_fsmap_loop: "for_loop i n (fsmap_block A cf s src dest stored) (t, p) = (e, t', p') \<Longrightarrow> grows p p'"
  using grows_for_loop[of snd "fsmap_block A cf s src dest stored" "(t, p)" i n, OF grows_fsmap_block] by simp

lemma grows_fsmap: "fsmap_run g env A stored (s, p) t src dest = (e, (s', p'), t') \<Longrightarrow> grows p p'"
  by (auto simp: fsmap_run_def fsd_fsmap_stage_run_def split: prod.splits if_splits dest!: grows_fsmap_loop)

text \<open>The pool of the file-system stage is created by its index, and grows with the source walk.\<close>

definition fsmap_pool_ok :: "fsmap_stage \<Rightarrow> bool" where
  "fsmap_pool_ok s \<longleftrightarrow> (case fm_pool s of None \<Rightarrow> True | Some p \<Rightarrow> linked p)"

lemma src_walk_cb_linked:
  assumes "fsmap_pool_ok s"
  shows "fsmap_pool_ok (fst (snd (src_walk_cb A path ino fsize exts (s, oom))))"
proof (cases "exts = [] \<or> fm_pool s = None \<or> fm_path_hash s = None")
  case False
  then obtain p h where ph: "fm_pool s = Some p" "fm_path_hash s = Some h" by auto
  let ?n = "length (fm_src_files s)"
  let ?full = "?n = fm_cap_src_files s"
  let ?cap = "if ?full then (if fm_cap_src_files s \<noteq> 0 then fm_cap_src_files s * 2 else 1024) else fm_cap_src_files s"
  obtain r1 p1 where a1: "(if ?full then fsd_pool_alloc A (?cap * sizeof_src_file) p else (Some 0, p)) = (r1, p1)"
    by (rule prod.exhaust)
  obtain r2 p2 where a2: "fsd_pool_alloc A (length path + 1) p1 = (r2, p2)" by (rule prod.exhaust)
  obtain r3 p3 where a3: "fsd_pool_alloc A (length exts * sizeof_ext_extent) p2 = (r3, p3)" by (rule prod.exhaust)
  obtain h4 p4 where a4: "fsd_hash_table_insert A (fsd_crc32 path) ?n (h, p3) = (h4, p4)" by (rule prod.exhaust)
  have "grows p p1" using a1 grows_alloc_eq by (auto split: if_splits)
  moreover have "grows p1 p2" "grows p2 p3" using a2 a3 grows_alloc_eq by blast+
  moreover have "grows p3 p4" using grows_insert[of "(h, p3)" A "fsd_crc32 path" ?n] a4 by simp
  moreover have "linked p" using assms ph by (simp add: fsmap_pool_ok_def)
  ultimately have l: "linked p1" "linked p3" "linked p4" by (simp_all add: grows_def)
  show ?thesis
    unfolding src_walk_cb_def Let_def prod.case ph option.case a1 a2 a3 a4
    using False l by (cases r1) (simp_all add: fsmap_pool_ok_def)
qed (use assms in \<open>auto simp: src_walk_cb_def split: option.split\<close>)

lemma src_walk_keeps_linked: "keeps fs (\<lambda>(s, oom). fsmap_pool_ok s) (src_walk_cb A)"
  by (simp add: keeps_def case_prod_beta src_walk_cb_linked)

lemma hyp_append_pool: "hyp_append m b p s = (ok, s') \<Longrightarrow> fm_pool s' = fm_pool s"
  by (auto simp: hyp_append_def Let_def split: if_splits)

lemma dest_blocks_keep_pool: "fm_pool (dw_stage (snd (snd (dest_blocks_loop m path x bs sf ctx)))) = fm_pool (dw_stage ctx)"
proof (induction bs arbitrary: sf ctx)
  case (Cons b bs)
  show ?case
    by (simp add: Let_def Cons.IH split: option.split prod.split) (auto dest: hyp_append_pool)
qed simp

lemma dest_extents_keep_pool: "fm_pool (dw_stage (snd (dest_extents_loop m path xs sf ctx))) = fm_pool (dw_stage ctx)"
proof (induction m path xs sf ctx rule: dest_extents_loop.induct)
  case (2 m path x xs sf ctx)
  let ?bs = "[extent_first_block (fm_block_size (dw_stage ctx)) (dw_dest_fs_bs ctx) x..<
     extent_end_block (fm_block_size (dw_stage ctx)) (dw_dest_fs_bs ctx) x]"
  from 2 dest_blocks_keep_pool[of m path x ?bs sf ctx] show ?case
    by (auto simp: Let_def split: prod.splits option.splits)
qed simp

lemma dest_walk_keeps_pool: "keeps fs (\<lambda>ctx. fm_pool (dw_stage ctx) = P) (dest_walk_cb m)"
  by (simp add: keeps_def dest_walk_cb_def dest_extents_keep_pool)

lemma index_walks_linked:
  assumes "fs_ok src_fs" and "fs_ok dest_fs" and "fm_pool s = None" and built: "index_walks env src_fs dest_fs t s = (e, s')"
  shows "fsmap_pool_ok s'"
proof (cases "fsd_pool_create (fe_pool env) (fe_pool_struct env) (1024 * 1024) 0")
  case (Inl err)
  then show ?thesis using assms(3) built by (auto simp: index_walks_def fsmap_pool_ok_def)
next
  case (Inr pool)
  obtain r p where c: "fsd_hash_table_create (fe_pool env) 16384 pool = (r, p)" by (rule prod.exhaust)
  have p: "linked p" using grows_table_create[OF c] pool_create_linked[OF Inr] by (simp add: grows_def)
  show ?thesis
  proof (cases r)
    case (Inl err)
    then show ?thesis using built Inr c p by (auto simp: index_walks_def fsmap_pool_ok_def)
  next
    case table: (Inr table)
    let ?s = "s\<lparr>fm_pool := Some p, fm_path_hash := Some table\<rparr>"
    have "fsmap_pool_ok ?s" using p by (simp add: fsmap_pool_ok_def)
    then obtain e1 s1 oom where w: "fsd_extfs_walk (fe_malloc env) src_fs (src_walk_cb (fe_pool env)) (?s, False) = Some (e1, s1, oom)"
        and s1: "fsmap_pool_ok s1"
      using walk_returns[OF assms(1) src_walk_keeps_linked, of "(?s, False)"] by (fastforce simp: returns_def)
    let ?ctx = "\<lparr>dw_stage = s1, dw_tracker = t, dw_dest_fs_bs = fsd_extfs_block_size dest_fs,
      dw_src_fs_bs = fsd_extfs_block_size src_fs, dw_oom = False, dw_files_no_src_path = 0\<rparr>"
    obtain e2 c2 where w2: "fsd_extfs_walk (fe_malloc env) dest_fs (dest_walk_cb (fe_malloc env)) ?ctx = Some (e2, c2)"
        and c2: "fm_pool (dw_stage c2) = fm_pool s1"
      using walk_returns[OF assms(2) dest_walk_keeps_pool, of ?ctx "fm_pool s1"] by (fastforce simp: returns_def)
    show ?thesis
      using built s1 c2 unfolding index_walks_def Inr c table Let_def w w2 sum.case prod.case option.case
      by (auto simp: fsmap_pool_ok_def split: if_splits)
  qed
qed

lemma fsmap_index_linked:
  assumes "length src < 2 ^ 62" and "length dest < 2 ^ 62" and "fm_pool s = None"
    and built: "fsd_fsmap_stage_build_index env src dest t s = (e, s')"
  shows "fsmap_pool_ok s'"
proof -
  let ?s = "s\<lparr>fm_inactive := True, fm_src_size := length src, fm_dest_size := length dest\<rparr>"
  have s: "fsmap_pool_ok ?s" "fm_pool ?s = None" using assms(3) by (simp_all add: fsmap_pool_ok_def)
  show ?thesis
  proof (cases "\<exists>src_fs dest_fs. fsd_extfs_open (fe_open_src env) src (length src) = Some (Inr src_fs) \<and>
      fsd_extfs_open (fe_open_dest env) dest (length dest) = Some (Inr dest_fs)")
    case True
    then obtain src_fs dest_fs where o: "fsd_extfs_open (fe_open_src env) src (length src) = Some (Inr src_fs)"
      "fsd_extfs_open (fe_open_dest env) dest (length dest) = Some (Inr dest_fs)" by blast
    have "index_walks env src_fs dest_fs t ?s = (e, s')" using built o by (simp add: fsd_fsmap_stage_build_index_def Let_def)
    then show ?thesis
      using index_walks_linked[OF _ _ s(2)] opened_fs_ok[OF o(1) assms(1)] opened_fs_ok[OF o(2) assms(2)] by blast
  next
    case False
    then have "s' = ?s"
      using built by (auto simp: fsd_fsmap_stage_build_index_def Let_def split: option.splits sum.splits)
    then show ?thesis using s(1) by simp
  qed
qed

section \<open>The stages and the controller\<close>

definition fsd_relocation_stage_create_l ::
  "bool \<times> allocator \<times> bool \<times> nat \<times> nat \<Rightarrow> ledger \<Rightarrow> (fsd_error + relocation_stage) \<times> ledger" where
  "fsd_relocation_stage_create_l a L =
     (case a of (calloc_ok, A, malloc_ok, block_size, src_blocks) \<Rightarrow>
      if block_size = 0 then (Inl FSD_ERR_INVALID_ARG, L)
      else if \<not> calloc_ok then (Inl FSD_ERR_OUT_OF_MEMORY, L)
      else
        let L = acquire (Memory ''relocation'') L in
        (case fsd_pool_create_l ''relocation pool'' (A, malloc_ok, 1024 * 1024, 0) L of
           (Inl err, L) \<Rightarrow> (Inl err, release (Memory ''relocation'') L)
         | (Inr pool, L) \<Rightarrow> (Inr \<lparr>rs_block_size = block_size, rs_src_blocks = src_blocks, rs_src_hash = None,
             rs_pool = pool, rs_verbose = 0\<rparr>, L)))"

text \<open>A hash table lives in its pool: \<^verbatim>\<open>fsd_hash_table_destroy\<close> has nothing to give back.\<close>

definition fsd_hash_table_destroy :: "hash_table option \<Rightarrow> ledger \<Rightarrow> ledger" where
  "fsd_hash_table_destroy t L = L"

definition fsd_relocation_stage_destroy :: "relocation_stage \<Rightarrow> ledger \<Rightarrow> ledger" where
  "fsd_relocation_stage_destroy s L =
     (let L = fsd_hash_table_destroy (rs_src_hash s) L;
          L = fsd_pool_destroy_l ''relocation pool'' (rs_pool s) L
      in release (Memory ''relocation'') L)"

definition relocation_owned :: "relocation_stage \<Rightarrow> resource multiset" where
  "relocation_owned s = {#Memory ''relocation''#} + pool_owned ''relocation pool'' (rs_pool s)"

lemma relocation_create_l_refines:
  "fst (fsd_relocation_stage_create_l (c, A, m, bs, n) L) = fsd_relocation_stage_create c A m bs n"
  using pool_create_l_refines[of "''relocation pool''" A m "1024 * 1024" 0 "acquire (Memory ''relocation'') L"]
  by (auto simp: fsd_relocation_stage_create_l_def fsd_relocation_stage_create_def Let_def split: prod.splits sum.splits)

interpretation rl: resource_owner fsd_relocation_stage_create_l fsd_relocation_stage_destroy relocation_owned "\<lambda>s. linked (rs_pool s)"
proof
  fix a :: "bool \<times> allocator \<times> bool \<times> nat \<times> nat" and L L' err x
  obtain c A m bs n where a: "a = (c, A, m, bs, n)" by (cases a)
  let ?L = "acquire (Memory ''relocation'') L"
  show "L' = L" if "fsd_relocation_stage_create_l a L = (Inl err, L')"
    using that unfolding a fsd_relocation_stage_create_l_def
    by (cases "(A, m, 1024 * 1024 :: nat, 0 :: nat)" ?L rule: mp.make_cases[of "''relocation pool''"])
       (auto simp: Let_def split: if_splits)
  show "L' = gains (relocation_owned x) L \<and> linked (rs_pool x)" if "fsd_relocation_stage_create_l a L = (Inr x, L')"
    using that unfolding a fsd_relocation_stage_create_l_def
    by (cases "(A, m, 1024 * 1024 :: nat, 0 :: nat)" ?L rule: mp.make_cases[of "''relocation pool''"])
       (auto simp: Let_def relocation_owned_def ledger split: if_splits)
  show "fsd_relocation_stage_destroy x (gains (relocation_owned x) L) = L" if "linked (rs_pool x)"
    using mp.released[OF that, of "''relocation pool''" ?L]
    by (simp add: fsd_relocation_stage_destroy_def fsd_hash_table_destroy_def relocation_owned_def ledger)
qed

text \<open>The other three stages are one block at first; the file-system stage gets its pool and its hypotheses from the index.\<close>

definition calloc_stage :: "string \<Rightarrow> fsd_error + 's \<Rightarrow> ledger \<Rightarrow> (fsd_error + 's) \<times> ledger" where
  "calloc_stage tag r L = (r, case r of Inl err \<Rightarrow> L | Inr s \<Rightarrow> acquire (Memory tag) L)"

definition fsd_identity_stage_destroy :: "identity_stage \<Rightarrow> ledger \<Rightarrow> ledger" where
  "fsd_identity_stage_destroy s L = release (Memory ''identity'') L"

definition fsd_partial_stage_destroy :: "partial_stage \<Rightarrow> ledger \<Rightarrow> ledger" where
  "fsd_partial_stage_destroy s L = release (Memory ''partial'') L"

definition fsd_fsmap_stage_destroy :: "fsmap_stage \<Rightarrow> ledger \<Rightarrow> ledger" where
  "fsd_fsmap_stage_destroy s L =
     (let L = fsd_hash_table_destroy (fm_path_hash s) L;
          L = (case fm_pool s of None \<Rightarrow> L | Some pool \<Rightarrow> fsd_pool_destroy_l ''fsmap pool'' pool L);
          L = (if 0 < fm_cap_hyps s then release (Memory ''hyps'') L else L)
      in release (Memory ''fsmap'') L)"

definition fsmap_owned :: "fsmap_stage \<Rightarrow> resource multiset" where
  "fsmap_owned s = {#Memory ''fsmap''#} + (if 0 < fm_cap_hyps s then {#Memory ''hyps''#} else {#}) +
     (case fm_pool s of None \<Rightarrow> {#} | Some pool \<Rightarrow> pool_owned ''fsmap pool'' pool)"

lemma fsmap_destroy_ledger:
  assumes "fsmap_pool_ok s"
  shows "fsd_fsmap_stage_destroy s (gains (fsmap_owned s) L) = L"
proof (cases "fm_pool s")
  case (Some pool)
  let ?X = "{#Memory ''fsmap''#} + (if 0 < fm_cap_hyps s then {#Memory ''hyps''#} else {#})"
  have "gains (fsmap_owned s) L = gains (pool_owned ''fsmap pool'' pool) (gains ?X L)"
    using Some by (simp add: fsmap_owned_def ledger)
  then have "fsd_pool_destroy_l ''fsmap pool'' pool (gains (fsmap_owned s) L) = gains ?X L"
    using mp.released[of pool "''fsmap pool''" "gains ?X L"] assms Some by (simp add: fsmap_pool_ok_def)
  then show ?thesis using Some by (simp add: fsd_fsmap_stage_destroy_def fsd_hash_table_destroy_def Let_def ledger)
qed (simp add: fsd_fsmap_stage_destroy_def fsd_hash_table_destroy_def fsmap_owned_def Let_def ledger)

text \<open>A stage that is not enabled is a null pointer, which its destruction ignores.\<close>

definition destroy_opt :: "('s \<Rightarrow> ledger \<Rightarrow> ledger) \<Rightarrow> 's option \<Rightarrow> ledger \<Rightarrow> ledger" where
  "destroy_opt destroy s L = (case s of None \<Rightarrow> L | Some s \<Rightarrow> destroy s L)"

definition opt_owned :: "('s \<Rightarrow> resource multiset) \<Rightarrow> 's option \<Rightarrow> resource multiset" where
  "opt_owned owned s = (case s of None \<Rightarrow> {#} | Some s \<Rightarrow> owned s)"

definition make_stage_l ::
  "bool \<Rightarrow> (ledger \<Rightarrow> (fsd_error + 's) \<times> ledger) \<Rightarrow> ledger \<Rightarrow> (fsd_error + 's option) \<times> ledger" where
  "make_stage_l enabled create L =
     (if enabled then (case create L of (r, L) \<Rightarrow> (map_sum id Some r, L)) else (Inr None, L))"

text \<open>What is there when a stage cannot be created is destroyed in the reverse order.\<close>

definition create_stages_l ::
  "controller_env \<Rightarrow> c_float \<Rightarrow> int \<Rightarrow> nat \<Rightarrow> stage_controller \<Rightarrow> ledger \<Rightarrow> (fsd_error + stage_controller) \<times> ledger" where
  "create_stages_l env threshold radius src_blocks ctrl L =
     (let bs = ct_block_size ctrl;
          unmake = (\<lambda>L. release (Memory ''controller'')
            (fsd_block_tracker_destroy (ct_tracker ctrl) (fsd_pool_destroy_l ''pool'' (ct_pool ctrl) L)))
      in
      case make_stage_l (ct_enable_identity ctrl) (calloc_stage ''identity'' (fsd_identity_stage_create (ce_identity env) bs)) L of
        (Inl err, L) \<Rightarrow> (Inl err, unmake L)
      | (Inr i, L) \<Rightarrow>
          (case make_stage_l (ct_enable_relocation ctrl)
                  (fsd_relocation_stage_create_l (ce_relocation env, ce_relocation_pool env,
                     ce_relocation_pool_struct env, bs, src_blocks)) L of
             (Inl err, L) \<Rightarrow> (Inl err, unmake (destroy_opt fsd_identity_stage_destroy i L))
           | (Inr r, L) \<Rightarrow>
               (case make_stage_l (ct_enable_fsmap ctrl)
                       (calloc_stage ''fsmap'' (fsd_fsmap_stage_create (ce_fsmap env) bs threshold radius)) L of
                  (Inl err, L) \<Rightarrow> (Inl err, unmake (destroy_opt fsd_identity_stage_destroy i
                    (destroy_opt fsd_relocation_stage_destroy r L)))
                | (Inr f, L) \<Rightarrow>
                    (case make_stage_l (ct_enable_partial ctrl)
                            (calloc_stage ''partial'' (fsd_partial_stage_create (ce_partial env) bs threshold radius)) L of
                       (Inl err, L) \<Rightarrow> (Inl err, unmake (destroy_opt fsd_identity_stage_destroy i
                         (destroy_opt fsd_relocation_stage_destroy r (destroy_opt fsd_fsmap_stage_destroy f L))))
                     | (Inr p, L) \<Rightarrow>
                         (Inr (ctrl\<lparr>ct_identity := i, ct_relocation := r, ct_fsmap := f, ct_partial := p\<rparr>), L)))))"

definition fsd_stage_controller_create_l ::
  "controller_env \<times> diff_options option \<times> nat \<times> nat \<Rightarrow> ledger \<Rightarrow> (fsd_error + stage_controller) \<times> ledger" where
  "fsd_stage_controller_create_l a L =
     (case a of (env, opts, src_blocks, dest_blocks) \<Rightarrow>
      if (case opts of Some p \<Rightarrow> do_enable_relocation p \<and> \<not> do_enable_identity p | None \<Rightarrow> False)
      then (Inl FSD_ERR_INVALID_ARG, L)
      else if \<not> ce_calloc env then (Inl FSD_ERR_OUT_OF_MEMORY, L)
      else if (case opts of Some p \<Rightarrow> 64 \<le> do_block_size_log2 p | None \<Rightarrow> False) then (Inl UB_FAULT, L)
      else
        let L = acquire (Memory ''controller'') L;
            block_size = (case opts of Some p \<Rightarrow> 2 ^ do_block_size_log2 p | None \<Rightarrow> FSD_DEFAULT_BLOCK_SIZE);
            enable_identity = (case opts of Some p \<Rightarrow> do_enable_identity p | None \<Rightarrow> True);
            enable_relocation = (case opts of Some p \<Rightarrow> do_enable_relocation p | None \<Rightarrow> True);
            enable_fsmap = (case opts of Some p \<Rightarrow> do_enable_fsmap p | None \<Rightarrow> True);
            enable_partial = (case opts of Some p \<Rightarrow> do_enable_partial p | None \<Rightarrow> True);
            threshold = (case opts of Some p \<Rightarrow> do_partial_threshold p | None \<Rightarrow> Some (1 / 2));
            radius = (case opts of Some p \<Rightarrow> do_search_radius p | None \<Rightarrow> 0)
        in
        case fsd_block_tracker_create_l (ce_tracker env, dest_blocks, block_size) L of
          (Inl err, L) \<Rightarrow> (Inl err, release (Memory ''controller'') L)
        | (Inr tracker, L) \<Rightarrow>
            (case fsd_pool_create_l ''pool'' (ce_pool env, ce_pool_struct env, 4 * 1024 * 1024, 0) L of
               (Inl err, L) \<Rightarrow> (Inl err, release (Memory ''controller'') (fsd_block_tracker_destroy tracker L))
             | (Inr pool, L) \<Rightarrow>
                 create_stages_l env threshold radius src_blocks
                   \<lparr>ct_block_size = block_size, ct_enable_identity = enable_identity,
                     ct_enable_relocation = enable_relocation, ct_enable_fsmap = enable_fsmap,
                     ct_enable_partial = enable_partial, ct_verbose_identity = 0, ct_verbose_relocation = 0,
                     ct_verbose_fsmap = 0, ct_verbose_partial = 0, ct_identity = None, ct_relocation = None,
                     ct_fsmap = None, ct_partial = None, ct_tracker = tracker, ct_pool = pool, ct_cancelled = False,
                     ct_ext_cancel = None, ct_progress_cb = False, ct_reports = []\<rparr> L))"

definition fsd_stage_controller_destroy :: "stage_controller \<Rightarrow> ledger \<Rightarrow> ledger" where
  "fsd_stage_controller_destroy ctrl L =
     (let L = destroy_opt fsd_partial_stage_destroy (ct_partial ctrl) L;
          L = destroy_opt fsd_fsmap_stage_destroy (ct_fsmap ctrl) L;
          L = destroy_opt fsd_relocation_stage_destroy (ct_relocation ctrl) L;
          L = destroy_opt fsd_identity_stage_destroy (ct_identity ctrl) L;
          L = fsd_block_tracker_destroy (ct_tracker ctrl) L;
          L = fsd_pool_destroy_l ''pool'' (ct_pool ctrl) L
      in release (Memory ''controller'') L)"

definition identity_owned :: "identity_stage \<Rightarrow> resource multiset" where "identity_owned s = {#Memory ''identity''#}"
definition partial_owned :: "partial_stage \<Rightarrow> resource multiset" where "partial_owned s = {#Memory ''partial''#}"

definition controller_owned :: "stage_controller \<Rightarrow> resource multiset" where
  "controller_owned c = opt_owned partial_owned (ct_partial c) + opt_owned fsmap_owned (ct_fsmap c) +
     opt_owned relocation_owned (ct_relocation c) + opt_owned identity_owned (ct_identity c) +
     tracker_owned (ct_tracker c) + pool_owned ''pool'' (ct_pool c) + {#Memory ''controller''#}"

definition controller_valid :: "stage_controller \<Rightarrow> bool" where
  "controller_valid c \<longleftrightarrow> linked (ct_pool c) \<and> pred_option (\<lambda>s. linked (rs_pool s)) (ct_relocation c) \<and>
     pred_option fsmap_pool_ok (ct_fsmap c)"

lemma make_stage_l_refines: "fst (make_stage_l enabled create L) = make_stage enabled (fst (create L))"
  by (simp add: make_stage_l_def make_stage_def split: prod.split)

lemma calloc_stage_refines: "fst (calloc_stage tag r L) = r"
  by (simp add: calloc_stage_def)

lemma create_stages_l_refines:
  "fst (create_stages_l env threshold radius n ctrl L) = create_stages env threshold radius n ctrl"
proof -
  have step: "fst (case make_stage_l en create L of (Inl err, L) \<Rightarrow> (Inl err, h L) | (Inr x, L) \<Rightarrow> k x L) =
      (case make_stage en r of Inl err \<Rightarrow> Inl err | Inr x \<Rightarrow> k' x)"
    if "\<And>L. fst (create L) = r" "\<And>x L. fst (k x L) = k' x" for en create r L h and k :: "_ \<Rightarrow> _ \<Rightarrow> (fsd_error + 'a) \<times> ledger" and k'
    using make_stage_l_refines[of en create L] that by (auto split: prod.splits sum.splits)
  show ?thesis
    unfolding create_stages_l_def create_stages_def Let_def
    by (intro step) (simp_all add: calloc_stage_refines relocation_create_l_refines)
qed

lemma controller_create_l_refines:
  "fst (fsd_stage_controller_create_l (env, opts, n, m) L) = fsd_stage_controller_create env opts n m"
proof -
  let ?bs = "case opts of Some p \<Rightarrow> 2 ^ do_block_size_log2 p | None \<Rightarrow> FSD_DEFAULT_BLOCK_SIZE"
  note t = tracker_create_l_refines[of "ce_tracker env" m ?bs "acquire (Memory ''controller'') L"]
  note p = pool_create_l_refines[of "''pool''" "ce_pool env" "ce_pool_struct env" "4 * 1024 * 1024" 0]
  show ?thesis
    unfolding fsd_stage_controller_create_l_def fsd_stage_controller_create_def Let_def prod.case
    using t p[of "snd (fsd_block_tracker_create_l (ce_tracker env, m, ?bs) (acquire (Memory ''controller'') L))"]
    by (auto simp: create_stages_l_refines split: prod.splits sum.splits)
qed

lemma make_stage_l_cases:
  assumes "\<And>err L'. create L = (Inl err, L') \<Longrightarrow> L' = L"
    and "\<And>x L'. create L = (Inr x, L') \<Longrightarrow> L' = gains (owned x) L \<and> valid x"
  obtains err where "make_stage_l enabled create L = (Inl err, L)"
  | s where "make_stage_l enabled create L = (Inr s, gains (opt_owned owned s) L)" "pred_option valid s"
proof (cases "create L")
  case (Pair r L')
  show thesis
  proof (cases r)
    case (Inl err)
    then show thesis
      using that(1)[of err] that(2)[of None] Pair assms(1)[of err L'] by (cases enabled) (simp_all add: make_stage_l_def opt_owned_def)
  next
    case (Inr x)
    then show thesis
      using that(2)[of "Some x"] that(2)[of None] Pair assms(2)[of x L']
      by (cases enabled) (simp_all add: make_stage_l_def opt_owned_def)
  qed
qed

lemma destroy_opt_ledger:
  assumes "\<And>x L. valid x \<Longrightarrow> destroy x (gains (owned x) L) = L" and "pred_option valid s"
  shows "destroy_opt destroy s (gains (opt_owned owned s) L) = L"
  using assms by (cases s) (simp_all add: destroy_opt_def opt_owned_def)

lemma stage_destroyed:
  "pred_option fsmap_pool_ok f \<Longrightarrow> destroy_opt fsd_fsmap_stage_destroy f (gains (opt_owned fsmap_owned f) L) = L"
  "pred_option (\<lambda>s. linked (rs_pool s)) r \<Longrightarrow> destroy_opt fsd_relocation_stage_destroy r (gains (opt_owned relocation_owned r) L) = L"
  by (cases f; simp add: destroy_opt_def opt_owned_def fsmap_destroy_ledger)
     (cases r; simp add: destroy_opt_def opt_owned_def rl.released)

lemma small_stage_destroyed:
  "destroy_opt fsd_identity_stage_destroy i (gains (opt_owned identity_owned i) L) = L"
  "destroy_opt fsd_partial_stage_destroy p (gains (opt_owned partial_owned p) L) = L"
  by (cases i; simp add: destroy_opt_def opt_owned_def fsd_identity_stage_destroy_def identity_owned_def ledger)
     (cases p; simp add: destroy_opt_def opt_owned_def fsd_partial_stage_destroy_def partial_owned_def ledger)

text \<open>What the controller owns, from the inside out.\<close>

definition controller_base :: "stage_controller \<Rightarrow> ledger \<Rightarrow> ledger" where
  "controller_base c L = gains (pool_owned ''pool'' (ct_pool c)) (gains (tracker_owned (ct_tracker c)) (gains {#Memory ''controller''#} L))"

lemma gains_controller:
  "gains (controller_owned c) L = gains (opt_owned partial_owned (ct_partial c)) (gains (opt_owned fsmap_owned (ct_fsmap c))
     (gains (opt_owned relocation_owned (ct_relocation c)) (gains (opt_owned identity_owned (ct_identity c)) (controller_base c L))))"
  by (simp add: controller_owned_def controller_base_def gains_gains ac_simps)

lemma identity_made:
  obtains err where "make_stage_l en (calloc_stage ''identity'' r) L = (Inl err, L)"
  | s where "make_stage_l en (calloc_stage ''identity'' r) L = (Inr s, gains (opt_owned identity_owned s) L)"
  by (rule make_stage_l_cases[where create = "calloc_stage ''identity'' r" and enabled = en and owned = identity_owned and
        valid = "\<lambda>_. True" and L = L])
     (auto simp: calloc_stage_def identity_owned_def ledger split: sum.splits)

lemma partial_made:
  obtains err where "make_stage_l en (calloc_stage ''partial'' r) L = (Inl err, L)"
  | s where "make_stage_l en (calloc_stage ''partial'' r) L = (Inr s, gains (opt_owned partial_owned s) L)"
  by (rule make_stage_l_cases[where create = "calloc_stage ''partial'' r" and enabled = en and owned = partial_owned and
        valid = "\<lambda>_. True" and L = L])
     (auto simp: calloc_stage_def partial_owned_def ledger split: sum.splits)

lemma relocation_made:
  obtains err where "make_stage_l en (fsd_relocation_stage_create_l a) L = (Inl err, L)"
  | s where "make_stage_l en (fsd_relocation_stage_create_l a) L = (Inr s, gains (opt_owned relocation_owned s) L)"
    "pred_option (\<lambda>s. linked (rs_pool s)) s"
  by (rule make_stage_l_cases[where create = "fsd_relocation_stage_create_l a" and enabled = en and owned = relocation_owned and
        valid = "\<lambda>s. linked (rs_pool s)" and L = L]) (auto dest: rl.fails rl.succeeds)

lemma fsmap_made:
  obtains err where "make_stage_l en (calloc_stage ''fsmap'' (fsd_fsmap_stage_create ok bs thr rad)) L = (Inl err, L)"
  | s where "make_stage_l en (calloc_stage ''fsmap'' (fsd_fsmap_stage_create ok bs thr rad)) L =
      (Inr s, gains (opt_owned fsmap_owned s) L)" "pred_option (\<lambda>s. fm_pool s = None \<and> fm_cap_hyps s = 0) s"
  by (rule make_stage_l_cases[where create = "calloc_stage ''fsmap'' (fsd_fsmap_stage_create ok bs thr rad)" and enabled = en and
        owned = fsmap_owned and valid = "\<lambda>s. fm_pool s = None \<and> fm_cap_hyps s = 0" and L = L])
     (auto simp: calloc_stage_def fsd_fsmap_stage_create_def fsmap_owned_def ledger split: if_splits)

text \<open>What is owned by a controller that has not run yet.\<close>

definition controller_new :: "stage_controller \<Rightarrow> bool" where
  "controller_new c \<longleftrightarrow> controller_valid c \<and> pred_option (\<lambda>s. fm_pool s = None \<and> fm_cap_hyps s = 0) (ct_fsmap c)"

lemma new_fsmap_pool_ok: "pred_option (\<lambda>s. fm_pool s = None \<and> fm_cap_hyps s = 0) f \<Longrightarrow> pred_option fsmap_pool_ok f"
  by (cases f) (auto simp: fsmap_pool_ok_def)

lemma create_stages_l_ledger:
  assumes pool: "linked (ct_pool ctrl)"
    and made: "create_stages_l env threshold radius n ctrl (controller_base ctrl L) = (res, L')"
  shows "case res of Inl err \<Rightarrow> L' = L | Inr c \<Rightarrow> L' = gains (controller_owned c) L \<and> controller_new c"
proof -
  have un: "release (Memory ''controller'') (fsd_block_tracker_destroy (ct_tracker ctrl)
      (fsd_pool_destroy_l ''pool'' (ct_pool ctrl) (controller_base ctrl L))) = L"
    using mp.released[OF pool] bt.released by (simp add: controller_base_def release_gains)
  note eq = made[unfolded create_stages_l_def Let_def]
  note undo = un small_stage_destroyed stage_destroyed
  show ?thesis
  proof (cases "ct_enable_identity ctrl" "fsd_identity_stage_create (ce_identity env) (ct_block_size ctrl)" "controller_base ctrl L"
      rule: identity_made)
    case (2 i)
    note i = 2
    let ?I = "gains (opt_owned identity_owned i) (controller_base ctrl L)"
    show ?thesis
    proof (cases "ct_enable_relocation ctrl" "(ce_relocation env, ce_relocation_pool env, ce_relocation_pool_struct env, ct_block_size ctrl, n)"
        ?I rule: relocation_made)
      case (2 r)
      note r = 2
      let ?R = "gains (opt_owned relocation_owned r) ?I"
      show ?thesis
      proof (cases "ct_enable_fsmap ctrl" "ce_fsmap env" "ct_block_size ctrl" threshold radius ?R rule: fsmap_made)
        case (2 f)
        note f = 2
        let ?F = "gains (opt_owned fsmap_owned f) ?R"
        show ?thesis
        proof (cases "ct_enable_partial ctrl" "fsd_partial_stage_create (ce_partial env) (ct_block_size ctrl) threshold radius" ?F
            rule: partial_made)
          case (2 p)
          let ?c = "ctrl\<lparr>ct_identity := i, ct_relocation := r, ct_fsmap := f, ct_partial := p\<rparr>"
          have "res = Inr ?c" "L' = gains (opt_owned partial_owned p) ?F" using eq i r(1) f(1) 2 by simp_all
          moreover have "controller_new ?c"
            using pool r(2) f(2) new_fsmap_pool_ok by (simp add: controller_new_def controller_valid_def)
          ultimately show ?thesis using gains_controller[of ?c L] by (simp add: controller_base_def)
        qed (use eq i r f in \<open>auto simp: undo new_fsmap_pool_ok\<close>)
      qed (use eq i r in \<open>auto simp: undo\<close>)
    qed (use eq i in \<open>auto simp: undo\<close>)
  qed (use eq in \<open>auto simp: un\<close>)
qed

lemma create_stages_l_at:
  assumes "create_stages_l env threshold radius n ctrl
      (gains (pool_owned ''pool'' pool) (gains (tracker_owned t) (acquire (Memory ''controller'') L))) = (res, L')"
    and "linked pool" and "ct_pool ctrl = pool" and "ct_tracker ctrl = t"
  shows "case res of Inl err \<Rightarrow> L' = L | Inr c \<Rightarrow> L' = gains (controller_owned c) L \<and> controller_new c"
  using create_stages_l_ledger[of ctrl env threshold radius n L res L'] assms by (simp add: controller_base_def acquire_gains)

lemma controller_destroy_ledger:
  assumes "controller_valid c"
  shows "fsd_stage_controller_destroy c (gains (controller_owned c) L) = L"
proof -
  have v: "linked (ct_pool c)" "pred_option (\<lambda>s. linked (rs_pool s)) (ct_relocation c)" "pred_option fsmap_pool_ok (ct_fsmap c)"
    using assms by (simp_all add: controller_valid_def)
  have "fsd_block_tracker_destroy (ct_tracker c) (controller_base c L) =
      gains (pool_owned ''pool'' (ct_pool c)) (gains {#Memory ''controller''#} L)"
    unfolding controller_base_def by (rule bt.dispose_past) simp
  then show ?thesis
    using mp.released[OF v(1)] stage_destroyed(1)[OF v(3)] stage_destroyed(2)[OF v(2)]
    unfolding gains_controller fsd_stage_controller_destroy_def Let_def
    by (simp add: small_stage_destroyed release_gains)
qed

lemma controller_create_l_ledger:
  assumes made: "fsd_stage_controller_create_l (env, opts, n, m) L = (res, L')"
  shows "case res of Inl err \<Rightarrow> L' = L | Inr c \<Rightarrow> L' = gains (controller_owned c) L \<and> controller_new c"
proof (cases "(ce_tracker env, m, case opts of Some p \<Rightarrow> 2 ^ do_block_size_log2 p | None \<Rightarrow> FSD_DEFAULT_BLOCK_SIZE)"
    "acquire (Memory ''controller'') L" rule: bt.make_cases)
  case (1 e)
  then show ?thesis using made by (auto simp: fsd_stage_controller_create_l_def Let_def split: if_splits)
next
  case (2 t)
  note t = this
  show ?thesis
  proof (cases "(ce_pool env, ce_pool_struct env, 4 * 1024 * 1024 :: nat, 0 :: nat)"
      "gains (tracker_owned t) (acquire (Memory ''controller'') L)" rule: mp.make_cases[of "''pool''"])
    case (1 e)
    then show ?thesis
      using made t bt.released by (auto simp: fsd_stage_controller_create_l_def Let_def split: if_splits)
  next
    case (2 pool)
    then show ?thesis
      using made t by (auto simp: fsd_stage_controller_create_l_def Let_def split: if_splits dest!: create_stages_l_at)
  qed
qed

interpretation sc: resource_owner fsd_stage_controller_create_l fsd_stage_controller_destroy controller_owned controller_valid
proof
  fix a :: "controller_env \<times> diff_options option \<times> nat \<times> nat" and L L' err x
  obtain env opts n m where a: "a = (env, opts, n, m)" by (cases a)
  show "L' = L" if "fsd_stage_controller_create_l a L = (Inl err, L')"
    using controller_create_l_ledger[OF that[unfolded a]] by simp
  show "L' = gains (controller_owned x) L \<and> controller_valid x" if "fsd_stage_controller_create_l a L = (Inr x, L')"
    using controller_create_l_ledger[OF that[unfolded a]] by (simp add: controller_new_def)
  show "fsd_stage_controller_destroy x (gains (controller_owned x) L) = L" if "controller_valid x"
    using that by (rule controller_destroy_ledger)
qed

section \<open>A run of the controller\<close>

lemma pool_owned_mono: "grows p p' \<Longrightarrow> pool_owned tag p \<subseteq># pool_owned tag p'"
proof -
  assume "grows p p'"
  then have "[0..<length (pl_store p')] = [0..<length (pl_store p)] @ [length (pl_store p)..<length (pl_store p')]"
    by (metis grows_def le_add_diff_inverse le0 upt_add_eq_append)
  then show ?thesis by (simp add: pool_owned_def)
qed

text \<open>From \<^verbatim>\<open>c0\<close> to \<^verbatim>\<open>c\<close> nothing was given back.\<close>

definition new_since :: "stage_controller \<Rightarrow> stage_controller \<Rightarrow> bool" where
  "new_since c0 c \<longleftrightarrow> controller_new c \<and> controller_owned c0 \<subseteq># controller_owned c"

definition valid_since :: "stage_controller \<Rightarrow> stage_controller \<Rightarrow> bool" where
  "valid_since c0 c \<longleftrightarrow> controller_valid c \<and> controller_owned c0 \<subseteq># controller_owned c"

lemma new_valid_since: "new_since c0 c \<Longrightarrow> valid_since c0 c"
  by (simp add: new_since_def valid_since_def controller_new_def)

lemma snd_seqE:
  assumes "P (snd (f s))" and "\<And>s. P s \<Longrightarrow> Q (snd (g s))" and "\<And>s. P s \<Longrightarrow> Q s"
  shows "Q (snd (seqE f g s))"
  using assms by (auto simp: seqE_def split: prod.splits)

lemma owned_report [simp]:
  "controller_owned (report n m c) = controller_owned c" "controller_new (report n m c) = controller_new c"
  "controller_valid (report n m c) = controller_valid c"
  by (simp_all add: report_def controller_owned_def controller_new_def controller_valid_def)

lemma owned_tracker [simp]:
  "controller_owned (c\<lparr>ct_tracker := t\<rparr>) = controller_owned c" "controller_new (c\<lparr>ct_tracker := t\<rparr>) = controller_new c"
  "controller_valid (c\<lparr>ct_tracker := t\<rparr>) = controller_valid c"
  by (simp_all add: controller_owned_def controller_new_def controller_valid_def tracker_owned_def)

lemma snd_after_stage: "snd (after_stage n e c) = (if e = FSD_SUCCESS then report_matched n c else c)"
  by (simp add: after_stage_def)

lemma identity_step_owned: "new_since c0 c \<Longrightarrow> new_since c0 (snd (identity_step g stored src dest c))"
  by (auto simp: identity_step_def new_since_def snd_after_stage report_matched_def split: option.split prod.split)

lemma relocation_step_owned:
  assumes "new_since c0 c"
  shows "new_since c0 (snd (relocation_step A stored src dest c))"
proof (cases "ct_relocation c")
  case (Some s)
  obtain e s' t where r: "relocation_run A s (ct_tracker c) src dest = (e, s', t)" by (rule prod_cases3)
  note g = grows_relocation[OF r]
  let ?c = "c\<lparr>ct_relocation := Some s', ct_tracker := t\<rparr>"
  have "controller_new ?c"
    using assms g Some by (auto simp: new_since_def controller_new_def controller_valid_def grows_def)
  moreover have "controller_owned c \<subseteq># controller_owned ?c"
    using pool_owned_mono[OF g] Some by (simp add: controller_owned_def opt_owned_def relocation_owned_def tracker_owned_def)
  ultimately have "new_since c0 ?c" using assms subset_mset.order_trans by (auto simp: new_since_def)
  then show ?thesis
    using assms Some r by (auto simp: relocation_step_def new_since_def snd_after_stage report_matched_def)
qed (use assms in \<open>simp add: relocation_step_def\<close>)

lemma fsmap_step_owned:
  assumes "new_since c0 c" and "length src < 2 ^ 62" and "length dest < 2 ^ 62"
  shows "valid_since c0 (snd (fsmap_step g env A stored src dest c))"
proof (cases "ct_fsmap c")
  case (Some s)
  let ?s = "fsd_fsmap_stage_set_cancel (Some (ct_cancelled c)) (ct_ext_cancel c) s"
  obtain e s' p t where r: "fsmap_run g env A (\<lambda>h. stored (In_fsmap h)) (?s, ct_pool c) (ct_tracker c) src dest = (e, (s', p), t)"
    by (metis prod.exhaust)
  have fresh: "fm_pool s = None" "fm_cap_hyps s = 0" using assms(1) Some by (simp_all add: new_since_def controller_new_def)
  note g = grows_fsmap[OF r]
  obtain e' where "fsd_fsmap_stage_build_index env src dest (ct_tracker c) ?s = (e', s')"
    using r by (auto simp: fsmap_run_def split: prod.splits if_splits)
  then have ok: "fsmap_pool_ok s'"
    by (rule fsmap_index_linked[OF assms(2,3), rotated]) (simp add: fresh fsd_fsmap_stage_set_cancel_def)
  let ?c = "c\<lparr>ct_fsmap := Some s', ct_pool := p, ct_tracker := t\<rparr>"
  have "controller_valid ?c"
    using assms(1) g ok by (auto simp: new_since_def controller_new_def controller_valid_def grows_def)
  moreover have "fsmap_owned s \<subseteq># fsmap_owned s'" using fresh by (simp add: fsmap_owned_def)
  then have "controller_owned c \<subseteq># controller_owned ?c"
    using pool_owned_mono[OF g, of "''pool''"] Some
    by (auto simp: controller_owned_def opt_owned_def tracker_owned_def intro!: subset_mset.add_mono)
  ultimately have "valid_since c0 ?c" using assms(1) subset_mset.order_trans by (auto simp: new_since_def valid_since_def)
  then show ?thesis
    using new_valid_since[OF assms(1)] Some r by (auto simp: fsmap_step_def valid_since_def snd_after_stage report_matched_def)
qed (use new_valid_since[OF assms(1)] in \<open>simp add: fsmap_step_def\<close>)

lemma partial_step_owned:
  assumes "valid_since c0 c"
  shows "valid_since c0 (snd (partial_step g A stored src dest c))"
proof (cases "ct_partial c")
  case (Some s)
  obtain e s' p t where r: "Stage_Partial.partial_run g A (s, ct_pool c) (ct_tracker c) src dest = (e, (s', p), t)"
    by (metis prod.exhaust)
  note g = grows_partial[OF r]
  let ?c = "c\<lparr>ct_partial := Some s', ct_pool := p, ct_tracker := t\<rparr>"
  have "controller_valid ?c" using assms g by (auto simp: valid_since_def controller_valid_def grows_def)
  moreover have "controller_owned c \<subseteq># controller_owned ?c"
    using pool_owned_mono[OF g, of "''pool''"] Some by (simp add: controller_owned_def opt_owned_def partial_owned_def tracker_owned_def)
  ultimately have "valid_since c0 ?c" using assms subset_mset.order_trans by (auto simp: valid_since_def)
  then show ?thesis
    using assms Some r by (auto simp: partial_step_def valid_since_def snd_after_stage report_matched_def)
qed (use assms in \<open>simp add: partial_step_def\<close>)

lemma controller_run_owned:
  assumes "controller_new c" and "\<And>d. src_data = Some d \<Longrightarrow> length d < 2 ^ 62" and "\<And>d. dest_data = Some d \<Longrightarrow> length d < 2 ^ 62"
  shows "valid_since c (snd (fsd_stage_controller_run g env stored src_data dest_data c))"
proof (cases "\<exists>src dest. src_data = Some src \<and> dest_data = Some dest")
  case True
  then obtain src dest where d: "src_data = Some src" "dest_data = Some dest" by blast
  let ?V = "valid_since c" and ?N = "new_since c"
  let ?fin = "finish (length dest div ct_block_size c)"
  let ?par = "partial_step g (ce_pool env) stored src dest" and ?fsm = "fsmap_step g (ce_fsmap_env env) (ce_pool env) stored src dest"
  let ?rel = "relocation_step (ce_relocation_pool env) stored src dest"
  have fin: "?V (snd (?fin u))" if "?V u" for u using that by (simp add: finish_def valid_since_def)
  have par: "?V (snd (seqE ?par ?fin u))" if "?V u" for u
    using snd_seqE[of ?V ?par u ?V ?fin] partial_step_owned[OF that] fin by blast
  have fsm: "?V (snd (seqE ?fsm (seqE ?par ?fin) u))" if "?N u" for u
    by (rule snd_seqE[where P = ?V], rule fsmap_step_owned[OF that]) (use assms(2,3) d par in simp_all)
  have rel: "?V (snd (seqE ?rel (seqE ?fsm (seqE ?par ?fin)) u))" if "?N u" for u
    using snd_seqE[of ?N ?rel u ?V "seqE ?fsm (seqE ?par ?fin)"] relocation_step_owned[OF that] fsm new_valid_since by blast
  have "?N c" using assms(1) by (simp add: new_since_def)
  then show ?thesis
    unfolding d fsd_stage_controller_run_def prod.case option.case
    using snd_seqE[of ?N "identity_step g stored src dest" c ?V "seqE ?rel (seqE ?fsm (seqE ?par ?fin))"]
      identity_step_owned rel new_valid_since by blast
next
  case False
  then have "snd (fsd_stage_controller_run g env stored src_data dest_data c) = c"
    by (auto simp: fsd_stage_controller_run_def split: option.split)
  then show ?thesis using assms(1) by (simp add: valid_since_def controller_new_def)
qed

section \<open>The two file systems of the index\<close>

text \<open>The structure is allocated once the superblock is accepted, and freed again when the geometry is not.\<close>

definition fsd_extfs_open_l :: "string \<Rightarrow> bool \<Rightarrow> bytes \<Rightarrow> nat \<Rightarrow> ledger \<Rightarrow> ((fsd_error \<times> string) + extfs) option \<times> ledger" where
  "fsd_extfs_open_l tag calloc_ok img image_size L =
     (if image_size < EXT_SB_OFFSET + 1024
      then (Some (Inl (FSD_ERR_BAD_MAGIC, ''image too small for a superblock'')), L)
      else
        case rd16 img (EXT_SB_OFFSET + SB_MAGIC) of
          None \<Rightarrow> (None, L)
        | Some magic \<Rightarrow>
            if magic \<noteq> EXT_SUPER_MAGIC then (Some (Inl (FSD_ERR_BAD_MAGIC, ''no ext superblock magic'')), L)
            else
              case (rd32 img (EXT_SB_OFFSET + SB_LOG_BLOCK_SIZE), rd32 img (EXT_SB_OFFSET + SB_FEATURE_INCOMPAT),
                    rd32 img (EXT_SB_OFFSET + SB_REV_LEVEL)) of
                (Some log_bs, Some incompat, Some rev_level) \<Rightarrow>
                  if 2 < log_bs then (Some (Inl (FSD_ERR_BAD_MAGIC, ''unsupported block size'')), L)
                  else if incompat AND INCOMPAT_RECOVER \<noteq> 0
                  then (Some (Inl (FSD_ERR_BAD_MAGIC, ''journal needs recovery'')), L)
                  else if incompat AND NOT INCOMPAT_ALLOWED \<noteq> 0
                  then (Some (Inl (FSD_ERR_BAD_MAGIC, ''unsupported incompat features'')), L)
                  else
                    (case rd16 img (EXT_SB_OFFSET + SB_STATE) of
                       None \<Rightarrow> (None, L)
                     | Some state \<Rightarrow>
                         if state AND EXT_STATE_CLEAN = 0
                         then (Some (Inl (FSD_ERR_BAD_MAGIC, ''filesystem not cleanly unmounted'')), L)
                         else if \<not> calloc_ok then (Some (Inl (FSD_ERR_OUT_OF_MEMORY, '''')), L)
                         else
                           let L = acquire (Memory tag) L in
                           (case read_geometry img image_size EXT_SB_OFFSET log_bs incompat rev_level of
                              None \<Rightarrow> (None, L)
                            | Some geometry \<Rightarrow>
                                (case check_geometry geometry of
                                   Inl e \<Rightarrow> (Some (Inl e), release (Memory tag) L)
                                 | Inr fs \<Rightarrow> (Some (Inr fs), L))))
              | _ \<Rightarrow> (None, L))"

definition fsd_extfs_close :: "string \<Rightarrow> extfs \<Rightarrow> ledger \<Rightarrow> ledger" where
  "fsd_extfs_close tag fs L = release (Memory tag) L"

definition fsd_fsmap_stage_build_index_l ::
  "fsmap_env \<Rightarrow> bytes \<Rightarrow> bytes \<Rightarrow> block_tracker \<Rightarrow> fsmap_stage \<Rightarrow> ledger \<Rightarrow> (fsd_error \<times> fsmap_stage) \<times> ledger" where
  "fsd_fsmap_stage_build_index_l env src dest tracker stage L =
     (let stage = stage\<lparr>fm_inactive := True, fm_src_size := length src, fm_dest_size := length dest\<rparr> in
      case fsd_extfs_open_l ''src_fs'' (fe_open_src env) src (length src) L of
        (None, L) \<Rightarrow> ((UB_FAULT, stage), L)
      | (Some (Inl (err, reason)), L) \<Rightarrow> ((if err = FSD_ERR_OUT_OF_MEMORY then err else FSD_SUCCESS, stage), L)
      | (Some (Inr src_fs), L) \<Rightarrow>
          (case fsd_extfs_open_l ''dest_fs'' (fe_open_dest env) dest (length dest) L of
             (None, L) \<Rightarrow> ((UB_FAULT, stage), L)
           | (Some (Inl (err, reason)), L) \<Rightarrow>
               ((if err = FSD_ERR_OUT_OF_MEMORY then err else FSD_SUCCESS, stage), fsd_extfs_close ''src_fs'' src_fs L)
           | (Some (Inr dest_fs), L) \<Rightarrow>
               (index_walks env src_fs dest_fs tracker stage,
                fsd_extfs_close ''dest_fs'' dest_fs (fsd_extfs_close ''src_fs'' src_fs L))))"

lemma extfs_open_l_refines: "fst (fsd_extfs_open_l tag ok img n L) = fsd_extfs_open ok img n"
  by (auto simp: fsd_extfs_open_l_def fsd_extfs_open_def Let_def split: option.split sum.split)

lemma extfs_open_l_ledger:
  assumes "fsd_extfs_open_l tag ok img n L = (Some r, L')"
  shows "L' = (case r of Inl _ \<Rightarrow> L | Inr _ \<Rightarrow> acquire (Memory tag) L)"
  using assms by (auto simp: fsd_extfs_open_l_def Let_def split: option.splits sum.splits if_splits)

lemma extfs_open_l_eq:
  assumes "length img < 2 ^ 62"
  obtains e reason where "fsd_extfs_open_l tag ok img (length img) L = (Some (Inl (e, reason)), L)"
      "fsd_extfs_open ok img (length img) = Some (Inl (e, reason))"
  | fs where "fsd_extfs_open_l tag ok img (length img) L = (Some (Inr fs), acquire (Memory tag) L)"
      "fsd_extfs_open ok img (length img) = Some (Inr fs)"
proof -
  obtain r L' where r: "fsd_extfs_open_l tag ok img (length img) L = (r, L')" by (rule prod.exhaust)
  moreover have "fsd_extfs_open ok img (length img) = r" using extfs_open_l_refines[of tag ok img "length img" L] r by simp
  moreover obtain v where "r = Some v" using open_returns[OF assms, of ok] calculation(2) by (auto simp: returns_def)
  ultimately show thesis using that extfs_open_l_ledger[of tag ok img "length img" L v L'] by (cases v) auto
qed

text \<open>The index keeps its pool and hypotheses in the stage; both file systems are closed again on every path.\<close>

lemma build_index_closes:
  assumes "length src < 2 ^ 62" and "length dest < 2 ^ 62"
  shows "fsd_fsmap_stage_build_index_l env src dest tracker stage L = (fsd_fsmap_stage_build_index env src dest tracker stage, L)"
proof (rule extfs_open_l_eq[OF assms(1), where tag = "''src_fs''" and ok = "fe_open_src env" and L = L], goal_cases)
  case (1 e reason)
  then show ?thesis by (simp add: fsd_fsmap_stage_build_index_l_def fsd_fsmap_stage_build_index_def Let_def)
next
  case (2 fs)
  note s = this
  let ?L = "acquire (Memory ''src_fs'') L"
  note defs = fsd_fsmap_stage_build_index_l_def fsd_fsmap_stage_build_index_def fsd_extfs_close_def Let_def
  show ?thesis
  proof (rule extfs_open_l_eq[OF assms(2), where tag = "''dest_fs''" and ok = "fe_open_dest env" and L = ?L], goal_cases)
    case (1 e reason)
    then show ?thesis using s by (simp add: defs)
  next
    case (2 fs')
    then show ?thesis using s by (simp add: defs ledger)
  qed
qed

section \<open>Diffing two files\<close>

text \<open>
  During a run the pools and the array of hypotheses are all that is acquired and kept; what the controller
  owns afterwards and did not own before.
\<close>

definition fsd_stage_controller_run_l ::
  "simd_dispatch \<Rightarrow> controller_env \<Rightarrow> stores \<Rightarrow> bytes option \<Rightarrow> bytes option \<Rightarrow> stage_controller \<Rightarrow> ledger \<Rightarrow>
   (fsd_error \<times> stage_controller) \<times> ledger" where
  "fsd_stage_controller_run_l g env stored src_data dest_data c L =
     (case fsd_stage_controller_run g env stored src_data dest_data c of
        (err, c') \<Rightarrow> ((err, c'), gains (controller_owned c' - controller_owned c) L))"

definition fsd_op_encoder_destroy :: "fsd_error + op_encoder \<Rightarrow> ledger \<Rightarrow> ledger" where
  "fsd_op_encoder_destroy encoder L = (case encoder of Inl _ \<Rightarrow> L | Inr _ \<Rightarrow> release (Memory ''encoder'') L)"

text \<open>A temporary file: its descriptor, and the stream that takes it over.\<close>

definition mkstemp_l :: "bool \<Rightarrow> string \<Rightarrow> ledger \<Rightarrow> ledger" where
  "mkstemp_l ok tag L = (if ok then acquire (Descriptor tag) L else L)"

definition close_temp_l :: "bool \<Rightarrow> string \<Rightarrow> ledger \<Rightarrow> ledger" where
  "close_temp_l ok tag L = (if ok then release (Descriptor tag) L else L)"

definition fdopen_l :: "FILE option \<Rightarrow> string \<Rightarrow> ledger \<Rightarrow> ledger" where
  "fdopen_l f tag L = (case f of None \<Rightarrow> L | Some _ \<Rightarrow> acquire (Stream tag) (release (Descriptor tag) L))"

definition close_stream_l :: "FILE option \<Rightarrow> string \<Rightarrow> ledger \<Rightarrow> ledger" where
  "close_stream_l f tag L = (case f of None \<Rightarrow> release (Descriptor tag) L | Some _ \<Rightarrow> release (Stream tag) L)"

text \<open>At the end a writer that was created becomes the owner of its stream and is closed.\<close>

definition close_writer_l :: "string \<Rightarrow> fsd_error + writer \<Rightarrow> ledger \<Rightarrow> ledger" where
  "close_writer_l tag w L = (case w of Inl _ \<Rightarrow> L | Inr w \<Rightarrow> fsd_writer_close_l tag (w\<lparr>w_owns_file := True\<rparr>) L)"

definition encode_patch_l :: "diff_env \<Rightarrow> nat \<Rightarrow> bool \<Rightarrow> ledger \<Rightarrow> ledger" where
  "encode_patch_l env log2 opened L =
     (case fsd_writer_create_from_file_l ''op'' (de_op_malloc env) (de_op_file env) 0 L of (w1, L) \<Rightarrow>
     (case fsd_writer_create_from_file_l ''diff'' (de_diff_malloc env) (de_diff_file env) 0 L of (w2, L) \<Rightarrow>
     (case fsd_writer_create_from_file_l ''lit'' (de_lit_malloc env) (de_lit_file env) 0 L of (w3, L) \<Rightarrow>
        let encoder = fsd_op_encoder_create (de_malloc env) (2 ^ log2);
            L = (case encoder of Inl _ \<Rightarrow> L | Inr _ \<Rightarrow> acquire (Memory ''encoder'') L);
            L = (if opened then release (Stream ''output'') (acquire (Stream ''output'') L) else L);
            L = fsd_op_encoder_destroy encoder L;
            L = close_writer_l ''op'' w1 L;
            L = close_writer_l ''diff'' w2 L
        in close_writer_l ''lit'' w3 L)))"

definition write_patch_l :: "diff_env \<Rightarrow> nat \<Rightarrow> bool \<Rightarrow> ledger \<Rightarrow> ledger" where
  "write_patch_l env log2 opened L =
     (let L = mkstemp_l (de_op_fd env) ''op'' L;
          L = mkstemp_l (de_diff_fd env) ''diff'' L;
          L = mkstemp_l (de_lit_fd env) ''lit'' L
      in
      if \<not> de_op_fd env \<or> \<not> de_diff_fd env \<or> \<not> de_lit_fd env
      then close_temp_l (de_lit_fd env) ''lit'' (close_temp_l (de_diff_fd env) ''diff'' (close_temp_l (de_op_fd env) ''op'' L))
      else
        let L = fdopen_l (de_op_file env) ''op'' L;
            L = fdopen_l (de_diff_file env) ''diff'' L;
            L = fdopen_l (de_lit_file env) ''lit'' L
        in
        if de_op_file env = None \<or> de_diff_file env = None \<or> de_lit_file env = None
        then close_stream_l (de_lit_file env) ''lit'' (close_stream_l (de_diff_file env) ''diff'' (close_stream_l (de_op_file env) ''op'' L))
        else encode_patch_l env log2 opened L)"

text \<open>The streams that no writer owns.\<close>

definition stream_lost :: "string \<Rightarrow> (nat \<Rightarrow> bool) \<Rightarrow> FILE option \<Rightarrow> resource multiset" where
  "stream_lost tag malloc_ok f = (case fsd_writer_create_from_file malloc_ok f 0 of Inl _ \<Rightarrow> {#Stream tag#} | Inr _ \<Rightarrow> {#})"

definition writers_lost :: "diff_env \<Rightarrow> resource multiset" where
  "writers_lost env = stream_lost ''op'' (de_op_malloc env) (de_op_file env) +
     stream_lost ''diff'' (de_diff_malloc env) (de_diff_file env) + stream_lost ''lit'' (de_lit_malloc env) (de_lit_file env)"

lemma writer_round:
  assumes "fsd_writer_create_from_file_l tag m f 0 L = (w, L')"
  shows "L' = gains (case w of Inl _ \<Rightarrow> {#} | Inr _ \<Rightarrow> {#Memory tag, buffer_of tag#}) L"
    and "close_writer_l tag w (gains Y (gains (case w of Inl _ \<Rightarrow> {#} | Inr _ \<Rightarrow> {#Memory tag, buffer_of tag#}) (gains {#Stream tag#} L0))) =
      gains Y (gains (stream_lost tag m f) L0)"
proof -
  have w: "w = fsd_writer_create_from_file m f 0" using writer_create_l_refines(1)[of tag m f 0 L] assms by simp
  then show "L' = gains (case w of Inl _ \<Rightarrow> {#} | Inr _ \<Rightarrow> {#Memory tag, buffer_of tag#}) L"
    using writer_from_file_ledger[of tag m f 0 L] assms by (auto split: sum.splits)
  show "close_writer_l tag w (gains Y (gains (case w of Inl _ \<Rightarrow> {#} | Inr _ \<Rightarrow> {#Memory tag, buffer_of tag#}) (gains {#Stream tag#} L0))) =
      gains Y (gains (stream_lost tag m f) L0)"
  proof (cases w)
    case (Inr x)
    let ?x = "x\<lparr>w_owns_file := True\<rparr>"
    have "gains Y (gains {#Memory tag, buffer_of tag#} (gains {#Stream tag#} L0)) = gains (writer_owned tag ?x) (gains Y L0)"
      by (simp add: writer_owned_def gains_gains ac_simps)
    then show ?thesis using writer_close_ledger[of tag ?x "gains Y L0"] Inr w by (simp add: close_writer_l_def stream_lost_def)
  qed (use w in \<open>simp add: close_writer_l_def stream_lost_def\<close>)
qed

lemma encode_patch_l_ledger:
  "encode_patch_l env log2 opened (gains {#Stream ''op'', Stream ''diff'', Stream ''lit''#} L) = gains (writers_lost env) L"
proof -
  obtain w1 L1 where 1: "fsd_writer_create_from_file_l ''op'' (de_op_malloc env) (de_op_file env) 0
      (gains {#Stream ''op'', Stream ''diff'', Stream ''lit''#} L) = (w1, L1)" by (rule prod.exhaust)
  obtain w2 L2 where 2: "fsd_writer_create_from_file_l ''diff'' (de_diff_malloc env) (de_diff_file env) 0 L1 = (w2, L2)"
    by (rule prod.exhaust)
  obtain w3 L3 where 3: "fsd_writer_create_from_file_l ''lit'' (de_lit_malloc env) (de_lit_file env) 0 L2 = (w3, L3)"
    by (rule prod.exhaust)
  let ?W = "\<lambda>tag w. case w of Inl _ \<Rightarrow> {#} | Inr _ \<Rightarrow> {#Memory tag, buffer_of tag#}"
  let ?lost = "\<lambda>tag m f. gains (stream_lost tag m f)"
  have encoder: "fsd_op_encoder_destroy r (case r of Inl _ \<Rightarrow> X | Inr _ \<Rightarrow> acquire (Memory ''encoder'') X) = X" for r X
    by (cases r) (simp_all add: fsd_op_encoder_destroy_def)
  have L3: "L3 = gains (?W ''lit'' w3 + ?W ''diff'' w2 + {#Stream ''lit'', Stream ''diff''#})
      (gains (?W ''op'' w1) (gains {#Stream ''op''#} L))"
    using writer_round(1)[OF 1] writer_round(1)[OF 2] writer_round(1)[OF 3] by (simp add: gains_gains ac_simps add_mset_commute)
  have c1: "close_writer_l ''op'' w1 L3 = gains (?W ''lit'' w3 + {#Stream ''lit''#})
      (gains (?W ''diff'' w2) (gains {#Stream ''diff''#} (?lost ''op'' (de_op_malloc env) (de_op_file env) L)))"
    unfolding L3 writer_round(2)[OF 1] by (simp add: gains_gains ac_simps add_mset_commute)
  have c2: "close_writer_l ''diff'' w2 (close_writer_l ''op'' w1 L3) = gains {#}
      (gains (?W ''lit'' w3) (gains {#Stream ''lit''#} (?lost ''diff'' (de_diff_malloc env) (de_diff_file env)
        (?lost ''op'' (de_op_malloc env) (de_op_file env) L))))"
    unfolding c1 writer_round(2)[OF 2] by (simp add: gains_gains ac_simps add_mset_commute)
  have "close_writer_l ''lit'' w3 (close_writer_l ''diff'' w2 (close_writer_l ''op'' w1 L3)) = gains (writers_lost env) L"
    unfolding c2 writer_round(2)[OF 3] by (simp add: writers_lost_def gains_gains ac_simps add_mset_commute)
  then show ?thesis
    by (simp add: encode_patch_l_def 1 2 3 Let_def encoder)
qed

lemma write_patch_l_ledger:
  "write_patch_l env log2 opened L =
     (if de_op_fd env \<and> de_diff_fd env \<and> de_lit_fd env \<and> de_op_file env \<noteq> None \<and> de_diff_file env \<noteq> None \<and> de_lit_file env \<noteq> None
      then gains (writers_lost env) L else L)"
proof -
  have order: "gains {#Stream ''op'', Stream ''lit'', Stream ''diff''#} L = gains {#Stream ''op'', Stream ''diff'', Stream ''lit''#} L"
    by (simp add: add_mset_commute)
  show ?thesis
    using encode_patch_l_ledger[of env log2 opened L, folded order]
    by (cases "de_op_file env"; cases "de_diff_file env"; cases "de_lit_file env")
      (simp_all add: write_patch_l_def mkstemp_l_def close_temp_l_def fdopen_l_def close_stream_l_def Let_def ledger)
qed

text \<open>The patch is opened when the encoding got that far.\<close>

definition patch_opened :: "diff_env \<Rightarrow> nat \<Rightarrow> block_tracker \<Rightarrow> bytes \<Rightarrow> nat \<Rightarrow> bool" where
  "patch_opened env log2 tracker dest dest_blocks =
     (case (de_op_file env, de_diff_file env, de_lit_file env) of
        (Some f1, Some f2, Some f3) \<Rightarrow> fst (snd (encode_patch env log2 tracker dest dest_blocks f1 f2 f3)) \<noteq> None
      | _ \<Rightarrow> False)"

definition match_log_l :: "bool \<Rightarrow> ledger \<Rightarrow> ledger" where
  "match_log_l opened L = (if opened then release (Stream ''match log'') (acquire (Stream ''match log'') L) else L)"

definition finish_diff_l ::
  "simd_dispatch \<Rightarrow> diff_env \<Rightarrow> nat \<Rightarrow> nat \<Rightarrow> bytes option \<Rightarrow> bytes option \<Rightarrow> diff_ctx \<Rightarrow> stage_controller \<Rightarrow> ledger \<Rightarrow>
   diff_outcome \<times> ledger" where
  "finish_diff_l g env block_size dest_blocks src_data dest_data ctx c L =
     (let log2 = do_block_size_log2 (dx_opts ctx);
          dest = (case dest_data of Some d \<Rightarrow> d | None \<Rightarrow> []);
          L = match_log_l (de_match_log env \<and> de_match_log_fopen env) L;
          L = write_patch_l env log2 (patch_opened env log2 (fsd_stage_controller_get_tracker c) dest dest_blocks) L
      in (finish_diff g env block_size dest_blocks src_data dest_data ctx c, fsd_stage_controller_destroy c L))"

definition diff_images_l ::
  "simd_dispatch \<Rightarrow> diff_env \<Rightarrow> diff_ctx \<Rightarrow> diff_ctx \<Rightarrow> bytes option \<Rightarrow> nat \<Rightarrow> bytes option \<Rightarrow> nat \<Rightarrow> ledger \<Rightarrow>
   diff_outcome \<times> ledger" where
  "diff_images_l g env ctx late src_data src_size dest_data dest_size L =
     (let block_size = 2 ^ do_block_size_log2 (dx_opts ctx);
          src_blocks = src_size div block_size;
          dest_blocks = dest_size div block_size
      in
      if dest_size mod block_size \<noteq> 0 then (diff_failed FSD_ERR_SIZE_MISMATCH late [], L)
      else
        (case fsd_stage_controller_create_l (de_controller env, Some (dx_opts ctx), src_blocks, dest_blocks) L of
           (Inl err, L) \<Rightarrow> (diff_failed err late [], L)
         | (Inr c, L) \<Rightarrow>
             (case fsd_stage_controller_run_l g (de_controller env) (\<lambda>k. (False, de_stored env k)) src_data dest_data
                     (prepare_controller ctx c) L of
                ((err, c), L) \<Rightarrow>
                  if err \<noteq> FSD_SUCCESS
                  then (diff_failed err (if err = FSD_ERR_CANCELLED then ctx\<lparr>dx_cancelled := False\<rparr> else late) (ct_reports c),
                        fsd_stage_controller_destroy c L)
                  else finish_diff_l g env block_size dest_blocks src_data dest_data late c L)))"

definition fsd_diff_files_l :: "simd_dispatch \<Rightarrow> diff_env \<Rightarrow> diff_ctx \<Rightarrow> ledger \<Rightarrow> diff_outcome \<times> ledger" where
  "fsd_diff_files_l g_fsd_simd env ctx L =
     (let opts = dx_opts ctx;
          late = ctx\<lparr>dx_cancelled := dx_cancelled ctx \<or> de_stored_late env\<rparr>
      in
      if \<not> de_paths env then (diff_failed FSD_ERR_INVALID_ARG late [], L)
      else
        let g_fsd_simd = (if do_force_scalar opts then fsd_simd_force_scalar g_fsd_simd else g_fsd_simd) in
        case fsd_source_reader_open_l ''source'' (de_src env, do_source_mode opts) L of
          (Inl err, L) \<Rightarrow> (diff_failed err late [], L)
        | (Inr src_reader, L) \<Rightarrow>
            (case fsd_mmap_open_l ''dest'' (de_dest env) L of
               (Inl err, L) \<Rightarrow> (diff_failed err late [], fsd_source_reader_close ''source'' src_reader L)
             | (Inr dest_reader, L) \<Rightarrow>
                 (case fsd_source_reader_data_l ''source'' src_reader L of
                    ((err, src_data, src_reader), L) \<Rightarrow>
                      (case (if err \<noteq> FSD_SUCCESS then (diff_failed err late [], L)
                             else diff_images_l g_fsd_simd env ctx late
                                    (map_option (take (fsd_source_reader_size src_reader)) src_data) (fsd_source_reader_size src_reader)
                                    (fsd_mmap_data dest_reader) (fsd_mmap_size dest_reader) L) of
                         (r, L) \<Rightarrow> (r, fsd_source_reader_close ''source'' src_reader (fsd_mmap_close ''dest'' dest_reader L))))))"

lemma diff_images_l_refines:
  "fst (diff_images_l g env ctx late sd ss dd ds L) = diff_images g env ctx late sd ss dd ds"
proof -
  let ?bs = "2 ^ do_block_size_log2 (dx_opts ctx) :: nat"
  note c = controller_create_l_refines[of "de_controller env" "Some (dx_opts ctx)" "ss div ?bs" "ds div ?bs" L]
  show ?thesis
    by (cases "fsd_stage_controller_create_l (de_controller env, Some (dx_opts ctx), ss div ?bs, ds div ?bs) L")
      (use c in \<open>auto simp: diff_images_l_def diff_images_def fsd_stage_controller_run_l_def finish_diff_l_def Let_def
        split: sum.split prod.split\<close>)
qed

lemma diff_files_l_refines: "fst (fsd_diff_files_l g env ctx L) = fsd_diff_files g env ctx"
proof -
  obtain r1 L1 where 1: "fsd_source_reader_open_l ''source'' (de_src env, do_source_mode (dx_opts ctx)) L = (r1, L1)" by (rule prod.exhaust)
  obtain r2 L2 where 2: "fsd_mmap_open_l ''dest'' (de_dest env) L1 = (r2, L2)" by (rule prod.exhaust)
  have src: "fsd_source_reader_open (de_src env) (do_source_mode (dx_opts ctx)) = r1" and dest: "fsd_mmap_open (de_dest env) = r2"
    using source_open_l_refines[of "''source''" "de_src env" "do_source_mode (dx_opts ctx)" L] mmap_open_l_refines[of "''dest''" "de_dest env" L1] 1 2
    by simp_all
  show ?thesis
  proof (cases r1)
    case (Inr s)
    obtain e d s' L3 where 3: "fsd_source_reader_data_l ''source'' s L2 = ((e, d, s'), L3)" by (metis prod.exhaust)
    have data: "fsd_source_reader_data s = (e, d, s')" using source_data_l_refines[of "''source''" s L2] 3 by simp
    show ?thesis
      by (cases r2) (use 1 2 3 src dest data Inr in \<open>simp_all add: fsd_diff_files_l_def fsd_diff_files_def open_images_def Let_def
        diff_images_l_refines split_beta\<close>)
  qed (use 1 src in \<open>simp add: fsd_diff_files_l_def fsd_diff_files_def open_images_def Let_def\<close>)
qed

text \<open>A stream is lost only when its writer was refused, and then the call fails.\<close>

lemma writers_lost_empty:
  assumes "fsd_writer_create_from_file (de_op_malloc env) (de_op_file env) 0 = Inr w1"
    and "fsd_writer_create_from_file (de_diff_malloc env) (de_diff_file env) 0 = Inr w2"
    and "fsd_writer_create_from_file (de_lit_malloc env) (de_lit_file env) 0 = Inr w3"
  shows "writers_lost env = {#}"
  using assms by (simp add: writers_lost_def stream_lost_def)

lemma encode_patch_lost:
  assumes "writers_lost env \<noteq> {#}" and "de_op_file env = Some f1" and "de_diff_file env = Some f2" and "de_lit_file env = Some f3"
  shows "fst (encode_patch env log2 t dest n f1 f2 f3) \<in> {FSD_ERR_OUT_OF_MEMORY, FSD_ERR_INVALID_ARG}"
  using writers_lost_empty[of env] assms
  by (auto simp: encode_patch_def fsd_op_encoder_create_def Let_def split: sum.split)

lemma finish_diff_lost:
  assumes "writers_lost env \<noteq> {#}" and "de_op_fd env" "de_diff_fd env" "de_lit_fd env"
    and "de_op_file env \<noteq> None" "de_diff_file env \<noteq> None" "de_lit_file env \<noteq> None"
  shows "dr_error (finish_diff g env bs n sd dd ctx c) \<in> {FSD_ERR_OUT_OF_MEMORY, FSD_ERR_INVALID_ARG, UB_FAULT}"
proof -
  obtain f1 f2 f3 where f: "de_op_file env = Some f1" "de_diff_file env = Some f2" "de_lit_file env = Some f3" using assms(5-7) by blast
  have "fst (write_patch env log2 t d n) \<in> {FSD_ERR_OUT_OF_MEMORY, FSD_ERR_INVALID_ARG}" for log2 t d
    using encode_patch_lost[OF assms(1) f, of log2 t d n] assms(2-4) f by (simp add: write_patch_def Let_def split_beta)
  then show ?thesis by (auto simp: finish_diff_def diff_failed_def Let_def split_beta split: option.split)
qed

definition kept_or_lost :: "diff_env \<Rightarrow> ledger \<Rightarrow> diff_outcome \<Rightarrow> ledger \<Rightarrow> bool" where
  "kept_or_lost env L r L' \<longleftrightarrow> L' = L \<or>
     (L' = gains (writers_lost env) L \<and> dr_error r \<in> {FSD_ERR_OUT_OF_MEMORY, FSD_ERR_INVALID_ARG, UB_FAULT})"

lemma finish_diff_l_ledger:
  assumes "controller_valid c" and "finish_diff_l g env bs n sd dd ctx c (gains (controller_owned c) L) = (r, L')"
  shows "kept_or_lost env L r L'"
proof -
  have r: "r = finish_diff g env bs n sd dd ctx c" using assms(2) by (simp add: finish_diff_l_def Let_def)
  have L': "L' = (if de_op_fd env \<and> de_diff_fd env \<and> de_lit_fd env \<and> de_op_file env \<noteq> None \<and> de_diff_file env \<noteq> None \<and> de_lit_file env \<noteq> None
      then gains (writers_lost env) L else L)"
    using assms(2) sc.released[OF assms(1)] sc.dispose_past[OF assms(1)]
    by (auto simp: finish_diff_l_def match_log_l_def write_patch_l_ledger Let_def)
  show ?thesis
    using finish_diff_lost[of env g bs n sd dd ctx c] r L' by (cases "writers_lost env = {#}") (auto simp: kept_or_lost_def)
qed

lemma set_verbose_keeps [simp]:
  "controller_owned (fsd_stage_controller_set_verbose v c) = controller_owned c"
  "controller_new (fsd_stage_controller_set_verbose v c) = controller_new c"
proof -
  have stages: "opt_owned identity_owned (map_option (fsd_identity_stage_set_verbose v) i) = opt_owned identity_owned i"
    "opt_owned relocation_owned (map_option (fsd_relocation_stage_set_verbose v) r) = opt_owned relocation_owned r"
    "opt_owned fsmap_owned (map_option (fsd_fsmap_stage_set_verbose v) f) = opt_owned fsmap_owned f"
    "opt_owned partial_owned (map_option (fsd_partial_stage_set_verbose v) p) = opt_owned partial_owned p" for i r f p
    by (simp_all add: opt_owned_def identity_owned_def relocation_owned_def fsd_relocation_stage_set_verbose_def fsmap_owned_def
        fsd_fsmap_stage_set_verbose_def partial_owned_def split: option.split)
  note defs = fsd_stage_controller_set_verbose_def fsd_stage_controller_set_verbose_identity_def fsd_stage_controller_set_verbose_relocation_def
    fsd_stage_controller_set_verbose_fsmap_def fsd_stage_controller_set_verbose_partial_def
  show "controller_owned (fsd_stage_controller_set_verbose v c) = controller_owned c"
    by (simp add: controller_owned_def defs stages)
  have kept: "fsmap_pool_ok (fsd_fsmap_stage_set_verbose v s) = fsmap_pool_ok s" "rs_pool (fsd_relocation_stage_set_verbose v r) = rs_pool r"
    "fm_pool (fsd_fsmap_stage_set_verbose v s) = fm_pool s" "fm_cap_hyps (fsd_fsmap_stage_set_verbose v s) = fm_cap_hyps s" for s r
    by (simp_all add: fsmap_pool_ok_def fsd_relocation_stage_set_verbose_def fsd_fsmap_stage_set_verbose_def)
  show "controller_new (fsd_stage_controller_set_verbose v c) = controller_new c"
    by (simp add: controller_new_def controller_valid_def defs option.pred_map comp_def kept)
qed

lemma prepare_controller_owned [simp]:
  "controller_owned (prepare_controller ctx c) = controller_owned c" "controller_new (prepare_controller ctx c) = controller_new c"
proof -
  have "controller_owned (c\<lparr>ct_ext_cancel := x\<rparr>) = controller_owned c" "controller_new (c\<lparr>ct_ext_cancel := x\<rparr>) = controller_new c"
    "controller_owned (c\<lparr>ct_progress_cb := y\<rparr>) = controller_owned c" "controller_new (c\<lparr>ct_progress_cb := y\<rparr>) = controller_new c" for c x y
    by (simp_all add: controller_owned_def controller_new_def controller_valid_def)
  then show "controller_owned (prepare_controller ctx c) = controller_owned c" "controller_new (prepare_controller ctx c) = controller_new c"
    by (simp_all add: prepare_controller_def Let_def fsd_stage_controller_set_cancel_flag_def fsd_stage_controller_set_progress_def)
qed

lemma diff_images_l_ledger:
  assumes sd: "\<And>d. sd = Some d \<Longrightarrow> length d < 2 ^ 62" and dd: "\<And>d. dd = Some d \<Longrightarrow> length d < 2 ^ 62"
    and run: "diff_images_l g env ctx late sd ss dd ds L = (r, L')"
  shows "kept_or_lost env L r L'"
proof -
  let ?bs = "2 ^ do_block_size_log2 (dx_opts ctx) :: nat"
  obtain res L1 where c: "fsd_stage_controller_create_l (de_controller env, Some (dx_opts ctx), ss div ?bs, ds div ?bs) L = (res, L1)"
    by (rule prod.exhaust)
  show ?thesis
  proof (cases "ds mod ?bs = 0 \<and> (\<exists>x. res = Inr x)")
    case True
    then obtain x where x: "res = Inr x" by blast
    note new = controller_create_l_ledger[OF c, unfolded x sum.case]
    let ?x = "prepare_controller ctx x"
    obtain e y where y: "fsd_stage_controller_run g (de_controller env) (\<lambda>k. (False, de_stored env k)) sd dd ?x = (e, y)" by (rule prod.exhaust)
    have v: "valid_since ?x y"
      using controller_run_owned[of ?x sd dd g "de_controller env" "\<lambda>k. (False, de_stored env k)"] new sd dd y by simp
    have "gains (controller_owned y - controller_owned ?x) L1 = gains (controller_owned y) L"
      using v new by (auto simp: valid_since_def gains_gains)
    then have at: "fsd_stage_controller_run_l g (de_controller env) (\<lambda>k. (False, de_stored env k)) sd dd ?x L1 =
        ((e, y), gains (controller_owned y) L)"
      by (simp add: fsd_stage_controller_run_l_def y)
    have vy: "controller_valid y" using v by (simp add: valid_since_def)
    show ?thesis
      using run True c x at finish_diff_l_ledger[OF vy] sc.released[OF vy]
      by (auto simp: diff_images_l_def kept_or_lost_def Let_def split: if_splits)
  next
    case False
    then show ?thesis
      using run c controller_create_l_ledger[OF c] by (cases res) (auto simp: diff_images_l_def kept_or_lost_def Let_def split: if_splits)
  qed
qed

lemma diff_files_l_ledger:
  assumes call: "diff_call g env ctx" and run: "fsd_diff_files_l g env ctx L = (r, L')"
  shows "kept_or_lost env L r L'"
proof -
  define late where "late = ctx\<lparr>dx_cancelled := dx_cancelled ctx \<or> de_stored_late env\<rparr>"
  define g' where "g' = (if do_force_scalar (dx_opts ctx) then fsd_simd_force_scalar g else g)"
  have paths: "honest_path (de_src env)" "honest_path (de_dest env)" using call by (simp_all add: diff_call_def)
  note eq = run[unfolded fsd_diff_files_l_def Let_def, folded late_def g'_def]
  show ?thesis
  proof (cases "(de_src env, do_source_mode (dx_opts ctx))" L rule: sr.make_cases[of "''source''"])
    case (1 e)
    then show ?thesis using eq by (auto simp: kept_or_lost_def split: if_splits)
  next
    case (2 s)
    note s = this
    let ?L1 = "gains (source_owned ''source'' s) L"
    show ?thesis
    proof (cases "de_dest env" ?L1 rule: mm.make_cases[of "''dest''"])
      case (1 e)
      then show ?thesis using eq s sr.released[OF s(2)] by (auto simp: kept_or_lost_def split: if_splits)
    next
      case (2 m)
      note m = this
      obtain e d s' L3 where data: "fsd_source_reader_data_l ''source'' s (gains (mmap_owned ''dest'' m) ?L1) = ((e, d, s'), L3)"
        by (metis prod.exhaust)
      have "L3 = gains (source_owned ''source'' s') (gains (mmap_owned ''dest'' m) L)" and s': "source_valid s'"
        using source_data_l_ledger[OF s(2), of "''source''" "gains (mmap_owned ''dest'' m) L"] data gains_swap by metis+
      then have L3: "L3 = gains (mmap_owned ''dest'' m) (gains (source_owned ''source'' s') L)" by (simp add: gains_swap)
      have close: "fsd_source_reader_close ''source'' s' (fsd_mmap_close ''dest'' m L3) = L"
        using L3 mm.released[OF m(2)] sr.released[OF s'] by simp
      have close_past: "fsd_source_reader_close ''source'' s' (fsd_mmap_close ''dest'' m (gains X L3)) = gains X L" for X
        using L3 mm.dispose_past[OF m(2)] sr.dispose_past[OF s'] by simp
      let ?sd = "map_option (take (fsd_source_reader_size s')) d" and ?ss = "fsd_source_reader_size s'"
      let ?dd = "fsd_mmap_data m" and ?ds = "fsd_mmap_size m"
      obtain r4 L4 where 4: "diff_images_l g' env ctx late ?sd ?ss ?dd ?ds L3 = (r4, L4)" by (rule prod.exhaust)
      have "kept_or_lost env L3 r4 L4" if ok: "e = FSD_SUCCESS"
      proof (rule diff_images_l_ledger[OF _ _ 4])
        have "fsd_source_reader_open (de_src env) (do_source_mode (dx_opts ctx)) = Inr s" "fsd_mmap_open (de_dest env) = Inr m"
          "fsd_source_reader_data s = (e, d, s')"
          using source_open_l_refines[of "''source''" "de_src env" "do_source_mode (dx_opts ctx)" L] s(1)
            mmap_open_l_refines[of "''dest''" "de_dest env" ?L1] m(1)
            source_data_l_refines[of "''source''" s "gains (mmap_owned ''dest'' m) ?L1"] data by auto
        then have "open_images env (dx_opts ctx) = Inr (?sd, ?ss, ?dd, ?ds)" using ok by (simp add: open_images_def)
        note im = open_images_ok(2)[OF paths this]
        show "length x < 2 ^ 62" if "?sd = Some x" for x using im that call by (auto simp: diff_call_def)
        show "length x < 2 ^ 62" if "?dd = Some x" for x using im that call by (auto simp: diff_call_def)
      qed
      then show ?thesis
        using eq s(1) m(1) data 4 close close_past by (auto simp: kept_or_lost_def split: if_splits)
    qed
  qed
qed



end
