(* ===== verification/Patch_Release.thy ===== *)
theory Patch_Release
  imports Resources Diff Library
begin

text \<open>
  What the contexts and the application of a patch acquire and give back, on the ledger of \<^verbatim>\<open>Resources\<close>:
  \<^verbatim>\<open>fsd_diff_create\<close>, \<^verbatim>\<open>fsd_patch_create\<close> and their destructors, \<^verbatim>\<open>fsd_patch_apply\<close> with the releases of every exit, and
  \<^verbatim>\<open>fsd_patch_read_header\<close>.
\<close>

section \<open>The contexts\<close>

definition fsd_diff_create_l :: "bool \<times> diff_options option \<Rightarrow> ledger \<Rightarrow> (fsd_error + diff_ctx) \<times> ledger" where
  "fsd_diff_create_l a L =
     (case a of (calloc_ok, opts) \<Rightarrow>
      if \<not> calloc_ok then (Inl FSD_ERR_OUT_OF_MEMORY, L)
      else
        let L = acquire (Memory ''diff context'') L;
            o' = (case opts of Some p \<Rightarrow> p | None \<Rightarrow> fsd_diff_options_init)
        in
        if do_block_size_log2 o' < 5 \<or> 24 < do_block_size_log2 o'
        then (Inl FSD_ERR_BAD_BLOCK_SIZE, release (Memory ''diff context'') L)
        else (Inr \<lparr>dx_opts = o', dx_stats = zero_stats, dx_progress_cb = False, dx_cancelled = False\<rparr>, L))"

definition fsd_diff_destroy :: "diff_ctx \<Rightarrow> ledger \<Rightarrow> ledger" where
  "fsd_diff_destroy ctx L = release (Memory ''diff context'') L"

definition fsd_patch_create_l :: "bool \<times> patch_options option \<Rightarrow> ledger \<Rightarrow> (fsd_error + patch_ctx) \<times> ledger" where
  "fsd_patch_create_l a L =
     (case a of (calloc_ok, opts) \<Rightarrow>
      if \<not> calloc_ok then (Inl FSD_ERR_OUT_OF_MEMORY, L)
      else (Inr \<lparr>px_opts = (case opts of Some p \<Rightarrow> p | None \<Rightarrow> fsd_patch_options_init), px_progress_cb = False\<rparr>,
            acquire (Memory ''patch context'') L))"

definition fsd_patch_destroy :: "patch_ctx \<Rightarrow> ledger \<Rightarrow> ledger" where
  "fsd_patch_destroy ctx L = release (Memory ''patch context'') L"

lemma contexts_refine:
  "fst (fsd_diff_create_l (ok, diff_opts) L) = fsd_diff_create ok diff_opts"
  "fst (fsd_patch_create_l (ok, patch_opts) L) = fsd_patch_create ok patch_opts"
  by (simp_all add: fsd_diff_create_l_def fsd_diff_create_def fsd_patch_create_l_def fsd_patch_create_def Let_def)

interpretation dx: resource_owner fsd_diff_create_l fsd_diff_destroy "\<lambda>_. {#Memory ''diff context''#}" "\<lambda>_. True"
  by unfold_locales (auto simp: fsd_diff_create_l_def fsd_diff_destroy_def Let_def ledger split: if_splits)

interpretation px: resource_owner fsd_patch_create_l fsd_patch_destroy "\<lambda>_. {#Memory ''patch context''#}" "\<lambda>_. True"
  by unfold_locales (auto simp: fsd_patch_create_l_def fsd_patch_destroy_def ledger split: if_splits)

section \<open>Applying a patch\<close>

definition fsd_patch_apply_l :: "patch_env \<Rightarrow> ledger \<Rightarrow> patch_outcome \<times> ledger" where
  "fsd_patch_apply_l env L =
     (case fsd_source_reader_open_l ''source'' (pe_src env, pe_source_mode env) L of
        (Inl e, L) \<Rightarrow> (patch_failed e, L)
      | (Inr src_reader, L) \<Rightarrow>
     (case fsd_mmap_open_l ''patch'' (pe_patch env) L of
        (Inl e, L) \<Rightarrow> (patch_failed e, fsd_source_reader_close ''source'' src_reader L)
      | (Inr patch_reader, L) \<Rightarrow>
     (let patch_data = (case fsd_mmap_data patch_reader of Some d \<Rightarrow> d | None \<Rightarrow> []);
          patch_size = fsd_mmap_size patch_reader;
          src_size = fsd_source_reader_size src_reader;
          close_readers = (\<lambda>src_reader L. fsd_source_reader_close ''source'' src_reader (fsd_mmap_close ''patch'' patch_reader L))
      in case fsd_header_read_memory patch_data of
        Inl e \<Rightarrow> (patch_failed e, close_readers src_reader L)
      | Inr h \<Rightarrow>
      let block_size = 2 ^ unat (h_block_size_log2 h); dest_blocks = unat (h_dest_blocks h) in
      if check_header_sizes h patch_size \<noteq> FSD_SUCCESS
      then (patch_failed (check_header_sizes h patch_size), close_readers src_reader L)
      else if locate_streams h patch_data \<noteq> FSD_SUCCESS
      then (patch_failed (locate_streams h patch_data), close_readers src_reader L)
      else
        let may_unlink_on_error = fsd_path_is_regular_or_missing (pe_out_stat env) (pe_out_kind env)
        in case pe_fopen env of
          None \<Rightarrow> (patch_failed FSD_ERR_IO, close_readers src_reader L)
        | Some output \<Rightarrow>
            let L = acquire (Stream ''output'') L in
            if \<not> pe_malloc_ok env block_size
            then (\<lparr>po_error = FSD_ERR_OUT_OF_MEMORY, po_output = Some output, po_progress = []\<rparr>,
                  close_readers src_reader (release (Stream ''output'') L))
            else
              let L = acquire (Memory ''block_buf'') L in
              case patch_loop (pe_progress_cb env) block_size src_size dest_blocks
                     (start_state h patch_data src_reader output) of
                (err, st) \<Rightarrow>
                  (\<lparr>po_error = err,
                    po_output = (if err \<noteq> FSD_SUCCESS \<and> may_unlink_on_error then None
                                 else Some (ps_output st)),
                    po_progress = ps_progress st\<rparr>,
                   close_readers (ps_reader st) (release (Stream ''output'') (release (Memory ''block_buf'') L))))))"

lemma patch_apply_l_refines: "fst (fsd_patch_apply_l env L) = fsd_patch_apply env"
proof -
  obtain r1 L1 where 1: "fsd_source_reader_open_l ''source'' (pe_src env, pe_source_mode env) L = (r1, L1)" by (rule prod.exhaust)
  obtain r2 L2 where 2: "fsd_mmap_open_l ''patch'' (pe_patch env) L1 = (r2, L2)" by (rule prod.exhaust)
  have "fsd_source_reader_open (pe_src env) (pe_source_mode env) = r1" "fsd_mmap_open (pe_patch env) = r2"
    using source_open_l_refines[of "''source''" "pe_src env" "pe_source_mode env" L] mmap_open_l_refines[of "''patch''" "pe_patch env" L1] 1 2
    by simp_all
  then show ?thesis
    using 1 2 by (cases r1; cases r2)
      (simp_all add: fsd_patch_apply_l_def fsd_patch_apply_def Let_def split_beta split: sum.split option.split)
qed

section \<open>The reader during the application\<close>

text \<open>Reading moves the scratch window and the descriptor, never what the reader owns.\<close>

definition same_reader :: "source_reader \<Rightarrow> source_reader \<Rightarrow> bool" where
  "same_reader r r' \<longleftrightarrow> sr_backend r' = sr_backend r \<and> sr_mmap r' = sr_mmap r \<and> sr_slurp r' = sr_slurp r \<and>
     sr_file_size r' = sr_file_size r"

lemma same_reader_refl [simp]: "same_reader r r"
  by (simp add: same_reader_def)

lemma same_reader_trans: "same_reader r s \<Longrightarrow> same_reader s t \<Longrightarrow> same_reader r t"
  by (simp add: same_reader_def)

lemma same_reader_owned: "same_reader r r' \<Longrightarrow> source_owned tag r' = source_owned tag r \<and> source_valid r' = source_valid r"
  by (cases "sr_backend r") (simp_all add: same_reader_def source_owned_def source_valid_def)

lemma refill_same: "refill_scratch r off = (e, r') \<Longrightarrow> same_reader r r'"
  by (auto simp: refill_scratch_def same_reader_def Let_def split: prod.splits if_splits)

lemma direct_read_loop_same: "direct_read_loop fuel off n out r = (e, d, r') \<Longrightarrow> same_reader r r'"
proof (induction fuel off n out r arbitrary: e d r' rule: direct_read_loop.induct)
  case (2 fuel off n out r)
  then show ?case
    by (auto simp: Let_def split: prod.splits if_splits dest: refill_same intro: same_reader_trans)
qed auto

lemma read_at_same: "fsd_source_reader_read_at off n r = (e, d, r') \<Longrightarrow> same_reader r r'"
  by (auto simp: fsd_source_reader_read_at_def direct_read_at_def simp del: direct_read_loop.simps
      dest: direct_read_loop_same split: if_splits option.splits)

definition reader_kept :: "source_reader \<Rightarrow> patch_state \<Rightarrow> bool" where
  "reader_kept r st \<longleftrightarrow> same_reader r (ps_reader st)"

lemma reader_kept_read:
  "reader_kept r st \<Longrightarrow> fsd_source_reader_read_at off n (ps_reader st) = (e, d, q) \<Longrightarrow> reader_kept r (st\<lparr>ps_reader := q\<rparr>)"
  unfolding reader_kept_def using read_at_same same_reader_trans by fastforce

interpretation reader: handler_frame "reader_kept r" for r
  by unfold_locales (rule reader_kept_read, assumption+ | simp add: reader_kept_def)+

lemma kept_bump: "reader_kept r st \<Longrightarrow> reader_kept r (snd (bump cb db n st))"
  by (simp add: bump_def reader_kept_def Let_def)

lemma kept_patch_step: "reader_kept r st \<Longrightarrow> reader_kept r (snd (patch_step cb bs ss db st))"
proof (cases "ps_op st")
  case (Cons fb rest)
  assume st: "reader_kept r st"
  obtain e n p where c: "read_count rest fb = (e, n, p)" by (rule prod_cases3)
  show ?thesis
    using Cons c st reader.kept_op_copy_add[of r "st\<lparr>ps_op := rest\<rparr>" bs ss db fb] kept_bump
    by (auto simp: patch_step_def Let_def split_beta failE_def intro!: reader.kept_seqE reader.kept_ops kept_bump)
qed (simp add: patch_step_def)

lemma kept_patch_loop: "reader_kept r st \<Longrightarrow> reader_kept r (snd (patch_loop cb bs ss db st))"
proof (induction cb bs ss db st rule: patch_loop.induct)
  case (1 cb bs ss db st)
  obtain e s where s: "patch_step cb bs ss db st = (e, s)" by (rule prod.exhaust)
  have "reader_kept r s" using kept_patch_step[OF "1.prems", of cb bs ss db] s by simp
  then show ?case
    using "1.prems" "1.IH"[OF _ s[symmetric]] s by (subst patch_loop.simps) simp
qed

lemma start_state_kept: "reader_kept r (start_state h d r f)"
  by (simp add: reader_kept_def start_state_def Let_def)

section \<open>Every exit of the application\<close>

lemma patch_apply_l_ledger: "snd (fsd_patch_apply_l env L) = L"
proof (cases "(pe_src env, pe_source_mode env)" L rule: sr.make_cases[of "''source''"])
  case (1 e)
  then show ?thesis by (simp add: fsd_patch_apply_l_def)
next
  case (2 s)
  note s = this
  show ?thesis
  proof (cases "pe_patch env" "gains (source_owned ''source'' s) L" rule: mm.make_cases[of "''patch''"])
    case (1 e)
    then show ?thesis using s sr.released[OF s(2)] by (simp add: fsd_patch_apply_l_def)
  next
    case (2 m)
    let ?L = "gains (mmap_owned ''patch'' m) (gains (source_owned ''source'' s) L)"
    have close: "fsd_source_reader_close ''source'' s' (fsd_mmap_close ''patch'' m ?L) = L" if "same_reader s s'" for s'
      using mm.released[OF 2(2)] sr.released[of s' "''source''" L] same_reader_owned[OF that, of "''source''"] s(2) by simp
    have "release (Stream ''output'') (release (Memory ''block_buf'') (acquire (Memory ''block_buf'') (acquire (Stream ''output'') ?L))) = ?L"
      by simp
    moreover have "same_reader s (ps_reader (snd (patch_loop cb bs ss db (start_state h d s f))))" for cb bs ss db h d f
      using kept_patch_loop[OF start_state_kept] by (simp add: reader_kept_def)
    ultimately show ?thesis
      using s(1) 2(1) close by (simp add: fsd_patch_apply_l_def Let_def split_beta split: sum.split option.split)
  qed
qed

text \<open>
  C8. \<^verbatim>\<open>fsd_patch_apply\<close> gives back what it takes: for every environment, patch and source, whichever of
  its exits is taken, the memory, descriptors, mappings and streams live afterwards are exactly those live before, and
  nothing is released twice. The outcome is the one of the model without the ledger.
\<close>

theorem patch_releases_everything:
  "fsd_patch_apply_l env (Some M) = (fsd_patch_apply env, Some M)"
  using patch_apply_l_refines[of env "Some M"] patch_apply_l_ledger[of env "Some M"] by (metis prod.collapse)

section \<open>Reading a header\<close>

definition fsd_patch_read_header_l :: "FILE option \<Rightarrow> ledger \<Rightarrow> (fsd_error + fsd_header) \<times> ledger" where
  "fsd_patch_read_header_l file L =
     (case file of None \<Rightarrow> (Inl FSD_ERR_FILE_NOT_FOUND, L)
      | Some f \<Rightarrow>
          let L = acquire (Stream ''patch'') L; err = fst (fsd_header_read (Some f))
          in (err, release (Stream ''patch'') L))"

lemma read_header_releases: "fsd_patch_read_header_l f L = (fsd_patch_read_header f, L)"
  by (simp add: fsd_patch_read_header_l_def fsd_patch_read_header_def Let_def split: option.split)

end
