(* ===== verification/Windows_Port.thy ===== *)
theory Windows_Port
  imports Resources Patch_Apply
begin

text \<open>
  The code that depends on the platform: the Windows branches of \<^verbatim>\<open>src/io/mmap_reader.c\<close> and
  \<^verbatim>\<open>src/io/source_reader.c\<close>, and \<^verbatim>\<open>src/platform.h\<close>: temporary files and directories, and the test whether an output may be
  removed. The Windows readers are shown to answer as the POSIX ones do on a regular file with the same contents, so what
  is proved of patching and diffing over the POSIX readers holds of them too, and to keep the ledger of
  \<^verbatim>\<open>Resources\<close>.
\<close>

section \<open>What Windows answers about a path\<close>

datatype win_error = ERROR_FILE_NOT_FOUND | ERROR_PATH_NOT_FOUND | ERROR_ACCESS_DENIED | ERROR_OTHER

text \<open>
  \<^verbatim>\<open>wp_create_file\<close> is what \<^verbatim>\<open>GetLastError\<close> says after \<^verbatim>\<open>CreateFileA\<close> (\<^verbatim>\<open>None\<close>: it succeeded), \<^verbatim>\<open>wp_size\<close> the 64-bit
  answer of \<^verbatim>\<open>GetFileSizeEx\<close>, and \<^verbatim>\<open>wp_attributes\<close> that of \<^verbatim>\<open>GetFileAttributesA\<close>.
\<close>

record win_path =
  wp_content :: bytes
  wp_create_file :: "win_error option"
  wp_size :: "int option"
  wp_create_mapping :: bool
  wp_map_view :: bool
  wp_calloc_ok :: bool
  wp_reader_ok :: bool
  wp_attributes :: "win_error + 32 word"

record win_reader =
  wr_base_addr :: "bytes option"
  wr_file_size :: nat
  wr_mapping_handle :: bool
  wr_file_handle :: bool

section \<open>The memory-mapped reader\<close>

definition file_handle_of :: "string \<Rightarrow> resource" where "file_handle_of tag = Handle tag"
definition mapping_handle_of :: "string \<Rightarrow> resource" where "mapping_handle_of tag = Handle (''mapping of '' @ tag)"

definition fsd_mmap_open_win :: "string \<Rightarrow> win_path \<Rightarrow> ledger \<Rightarrow> (fsd_error + win_reader) \<times> ledger" where
  "fsd_mmap_open_win tag p L =
     (if \<not> wp_calloc_ok p then (Inl FSD_ERR_OUT_OF_MEMORY, L)
      else
        let L = acquire (Memory tag) L in
        case wp_create_file p of
          Some err \<Rightarrow>
            (let L = release (Memory tag) L in
             if err = ERROR_FILE_NOT_FOUND \<or> err = ERROR_PATH_NOT_FOUND then (Inl FSD_ERR_FILE_NOT_FOUND, L)
             else if err = ERROR_ACCESS_DENIED then (Inl FSD_ERR_PERMISSION, L)
             else (Inl FSD_ERR_IO, L))
        | None \<Rightarrow>
            (let L = acquire (file_handle_of tag) L in
             case wp_size p of
               None \<Rightarrow> (Inl FSD_ERR_IO, release (Memory tag) (release (file_handle_of tag) L))
             | Some quad_part \<Rightarrow>
                 if quad_part < 0 \<or> UINT64_MAX < nat quad_part
                 then (Inl FSD_ERR_IO, release (Memory tag) (release (file_handle_of tag) L))
                 else
                   let file_size = nat quad_part in
                   if file_size = 0
                   then (Inr \<lparr>wr_base_addr = None, wr_file_size = 0, wr_mapping_handle = False, wr_file_handle = True\<rparr>, L)
                   else if \<not> wp_create_mapping p
                   then (Inl FSD_ERR_MMAP_FAILED, release (Memory tag) (release (file_handle_of tag) L))
                   else
                     let L = acquire (mapping_handle_of tag) L in
                     if \<not> wp_map_view p
                     then (Inl FSD_ERR_MMAP_FAILED,
                           release (Memory tag) (release (file_handle_of tag) (release (mapping_handle_of tag) L)))
                     else (Inr \<lparr>wr_base_addr = Some (take file_size (wp_content p)), wr_file_size = file_size,
                                 wr_mapping_handle = True, wr_file_handle = True\<rparr>, acquire (Mapping tag) L)))"

definition fsd_mmap_close_win :: "string \<Rightarrow> win_reader \<Rightarrow> ledger \<Rightarrow> ledger" where
  "fsd_mmap_close_win tag r L =
     (let L = (if wr_base_addr r \<noteq> None then release (Mapping tag) L else L);
          L = (if wr_mapping_handle r then release (mapping_handle_of tag) L else L);
          L = (if wr_file_handle r then release (file_handle_of tag) L else L)
      in release (Memory tag) L)"

definition win_owned :: "string \<Rightarrow> win_reader \<Rightarrow> resource multiset" where
  "win_owned tag r = {#Memory tag#} + (if wr_file_handle r then {#file_handle_of tag#} else {#}) +
     (if wr_mapping_handle r then {#mapping_handle_of tag#} else {#}) + (if wr_base_addr r \<noteq> None then {#Mapping tag#} else {#})"

interpretation wm: resource_owner "fsd_mmap_open_win tag" "fsd_mmap_close_win tag" "win_owned tag" "\<lambda>_. True" for tag
proof
  note defs = fsd_mmap_open_win_def win_owned_def file_handle_of_def mapping_handle_of_def
  fix p L L' err x
  show "L' = L" if "fsd_mmap_open_win tag p L = (Inl err, L')"
    using that by (auto simp: defs Let_def ledger split: option.splits if_splits)
  show "L' = gains (win_owned tag x) L \<and> True" if "fsd_mmap_open_win tag p L = (Inr x, L')"
    using that by (auto simp: defs Let_def ledger split: option.splits if_splits)
  show "fsd_mmap_close_win tag x (gains (win_owned tag x) L) = L"
    by (auto simp: fsd_mmap_close_win_def defs Let_def ledger)
qed

section \<open>The source reader\<close>

text \<open>Only the mapped backend exists.\<close>

record win_source =
  ws_file_size :: nat
  ws_mmap :: win_reader

definition fsd_source_reader_open_win ::
  "string \<Rightarrow> win_path \<times> fsd_source_mode \<Rightarrow> ledger \<Rightarrow> (fsd_error + win_source) \<times> ledger" where
  "fsd_source_reader_open_win tag pm L =
     (case pm of (p, mode) \<Rightarrow>
      if \<not> wp_reader_ok p then (Inl FSD_ERR_OUT_OF_MEMORY, L)
      else
        let L = acquire (Memory tag) L in
        if mode = FSD_SOURCE_DIRECT then (Inl FSD_ERR_IO, release (Memory tag) L)
        else
          case fsd_mmap_open_win (map_of_reader tag) p L of
            (Inl err, L) \<Rightarrow> (Inl err, release (Memory tag) L)
          | (Inr m, L) \<Rightarrow> (Inr \<lparr>ws_file_size = wr_file_size m, ws_mmap = m\<rparr>, L))"

definition fsd_source_reader_read_at_win :: "nat \<Rightarrow> nat \<Rightarrow> win_source \<Rightarrow> fsd_error \<times> bytes \<times> win_source" where
  "fsd_source_reader_read_at_win offset len r =
     (if len = 0 then (FSD_SUCCESS, [], r)
      else if ws_file_size r < offset \<or> ws_file_size r - offset < len then (FSD_ERR_TRUNCATED, [], r)
      else
        case wr_base_addr (ws_mmap r) of
          Some base \<Rightarrow>
            if offset + len \<le> length base then (FSD_SUCCESS, bytes_at offset len base, r) else (UB_FAULT, [], r)
        | None \<Rightarrow> (UB_FAULT, [], r))"

definition fsd_source_reader_data_win :: "win_source \<Rightarrow> fsd_error \<times> bytes option \<times> win_source" where
  "fsd_source_reader_data_win r = (FSD_SUCCESS, wr_base_addr (ws_mmap r), r)"

definition fsd_source_reader_close_win :: "string \<Rightarrow> win_source \<Rightarrow> ledger \<Rightarrow> ledger" where
  "fsd_source_reader_close_win tag r L = release (Memory tag) (fsd_mmap_close_win (map_of_reader tag) (ws_mmap r) L)"

definition win_source_owned :: "string \<Rightarrow> win_source \<Rightarrow> resource multiset" where
  "win_source_owned tag r = {#Memory tag#} + win_owned (map_of_reader tag) (ws_mmap r)"

interpretation ws: resource_owner "fsd_source_reader_open_win tag" "fsd_source_reader_close_win tag" "win_source_owned tag" "\<lambda>_. True"
  for tag
proof
  fix a :: "win_path \<times> fsd_source_mode" and L L' err x
  obtain p mode where a: "a = (p, mode)" by (cases a)
  let ?L = "acquire (Memory tag) L"
  have made: "case fst (fsd_source_reader_open_win tag a L) of Inl err \<Rightarrow> snd (fsd_source_reader_open_win tag a L) = L
      | Inr x \<Rightarrow> snd (fsd_source_reader_open_win tag a L) = gains (win_source_owned tag x) L"
    by (cases p ?L rule: wm.make_cases[of "map_of_reader tag"])
      (auto simp: a fsd_source_reader_open_win_def win_source_owned_def Let_def ledger)
  show "L' = L" if "fsd_source_reader_open_win tag a L = (Inl err, L')" using made that by simp
  show "L' = gains (win_source_owned tag x) L \<and> True" if "fsd_source_reader_open_win tag a L = (Inr x, L')" using made that by simp
  show "fsd_source_reader_close_win tag x (gains (win_source_owned tag x) L) = L"
    using wm.released[of "map_of_reader tag" "ws_mmap x" "gains {#Memory tag#} L"]
    by (simp add: fsd_source_reader_close_win_def win_source_owned_def gains_gains release_gains)
qed

section \<open>The same answers as the POSIX readers\<close>

definition win_errno :: "win_error \<Rightarrow> errno" where
  "win_errno e =
     (case e of ERROR_FILE_NOT_FOUND \<Rightarrow> ENOENT | ERROR_PATH_NOT_FOUND \<Rightarrow> ENOENT | ERROR_ACCESS_DENIED \<Rightarrow> EACCES
      | ERROR_OTHER \<Rightarrow> EOTHER)"

text \<open>The regular file that answers every call in the same way.\<close>

definition posix_view :: "win_path \<Rightarrow> os_path" where
  "posix_view p =
     \<lparr>p_kind = S_IFREG, p_content = wp_content p, p_stat = None, p_open = map_option win_errno (wp_create_file p),
       p_open_direct = Some EOTHER, p_fstat = (if wp_size p = None then Some EOTHER else None),
       p_st_size = (case wp_size p of Some s \<Rightarrow> s | None \<Rightarrow> 0), p_blkgetsize64 = None, p_blksszget = None, p_lseek_end = 0,
       p_mmap_ok = (wp_create_mapping p \<and> wp_map_view p), p_memalign_ok = True, p_slurp_ok = True, p_calloc_ok = wp_calloc_ok p,
       p_reader_ok = wp_reader_ok p, p_script = []\<rparr>"

definition posix_reader :: "win_reader \<Rightarrow> mmap_reader" where
  "posix_reader r = \<lparr>m_base_addr = wr_base_addr r, m_file_size = wr_file_size r\<rparr>"

definition posix_source :: "win_source \<Rightarrow> source_reader" where
  "posix_source r = empty_reader\<lparr>sr_mmap := posix_reader (ws_mmap r), sr_backend := FSD_BACKEND_MMAP, sr_file_size := ws_file_size r\<rparr>"

lemma mmap_open_win_simulates: "map_sum id posix_reader (fst (fsd_mmap_open_win tag p L)) = fsd_mmap_open (posix_view p)"
proof (cases "wp_create_file p")
  case None
  then show ?thesis
    by (cases "wp_size p")
      (auto simp: fsd_mmap_open_win_def fsd_mmap_open_def posix_view_def posix_reader_def mmap_raw_size_def Let_def)
next
  case (Some e)
  then show ?thesis
    by (cases e) (auto simp: fsd_mmap_open_win_def fsd_mmap_open_def posix_view_def win_errno_def Let_def)
qed

lemma source_open_win_simulates:
  assumes "mode \<noteq> FSD_SOURCE_DIRECT"
  shows "map_sum id posix_source (fst (fsd_source_reader_open_win tag (p, mode) L)) = fsd_source_reader_open (posix_view p) mode"
proof -
  let ?L = "acquire (Memory tag) L"
  obtain r L' where r: "fsd_mmap_open_win (map_of_reader tag) p ?L = (r, L')" by (rule prod.exhaust)
  have m: "fsd_mmap_open (posix_view p) = map_sum id posix_reader r"
    using mmap_open_win_simulates[of "map_of_reader tag" p ?L] r by simp
  have "fsd_source_reader_open (posix_view p) mode = (if wp_reader_ok p then open_mmap (posix_view p) else Inl FSD_ERR_OUT_OF_MEMORY)"
    using assms by (cases mode) (simp_all add: fsd_source_reader_open_def posix_view_def split: sum.split)
  then show ?thesis
    using assms r m by (cases r)
      (simp_all add: fsd_source_reader_open_win_def open_mmap_def posix_source_def posix_reader_def fsd_mmap_size_def Let_def)
qed

lemma read_at_win_simulates:
  "fsd_source_reader_read_at off n (posix_source r) =
     (case fsd_source_reader_read_at_win off n r of (e, d, r') \<Rightarrow> (e, d, posix_source r'))"
  by (simp add: fsd_source_reader_read_at_def fsd_source_reader_read_at_win_def posix_source_def posix_reader_def fsd_mmap_data_def
      split: option.split)

lemma data_win_simulates:
  "fsd_source_reader_data (posix_source r) = (case fsd_source_reader_data_win r of (e, d, r') \<Rightarrow> (e, d, posix_source r'))"
  by (simp add: fsd_source_reader_data_def fsd_source_reader_data_win_def posix_source_def posix_reader_def fsd_mmap_data_def)

text \<open>
  C22. The Windows source reader answers as the POSIX one does on a regular file with the same contents and the same
  failures: opening gives the same error or a reader for the same bytes, except that the direct mode, which has no
  implementation there, is refused; every read and the request for the whole image give the same error and bytes; and
  closing a reader releases its handles, mapping and memory, each once.
\<close>

theorem windows_reader_equivalent:
  "map_sum id posix_source (fst (fsd_source_reader_open_win tag (p, mode) L)) =
     (if mode = FSD_SOURCE_DIRECT then Inl (if wp_reader_ok p then FSD_ERR_IO else FSD_ERR_OUT_OF_MEMORY)
      else fsd_source_reader_open (posix_view p) mode) \<and>
   fsd_source_reader_read_at off n (posix_source r) = map_prod id (map_prod id posix_source) (fsd_source_reader_read_at_win off n r) \<and>
   fsd_source_reader_data (posix_source r) = map_prod id (map_prod id posix_source) (fsd_source_reader_data_win r) \<and>
   (case fsd_source_reader_open_win tag (p, mode) L of
      (Inl err, L') \<Rightarrow> L' = L
    | (Inr r, L') \<Rightarrow> fsd_source_reader_close_win tag r L' = L)"
proof (intro conjI)
  show "map_sum id posix_source (fst (fsd_source_reader_open_win tag (p, mode) L)) =
     (if mode = FSD_SOURCE_DIRECT then Inl (if wp_reader_ok p then FSD_ERR_IO else FSD_ERR_OUT_OF_MEMORY)
      else fsd_source_reader_open (posix_view p) mode)"
    using source_open_win_simulates[of mode tag p L] by (simp add: fsd_source_reader_open_win_def Let_def)
  show "fsd_source_reader_read_at off n (posix_source r) = map_prod id (map_prod id posix_source) (fsd_source_reader_read_at_win off n r)"
    by (simp add: read_at_win_simulates split_beta map_prod_def)
  show "fsd_source_reader_data (posix_source r) = map_prod id (map_prod id posix_source) (fsd_source_reader_data_win r)"
    by (simp add: data_win_simulates split_beta map_prod_def)
  show "case fsd_source_reader_open_win tag (p, mode) L of (Inl err, L') \<Rightarrow> L' = L
      | (Inr r, L') \<Rightarrow> fsd_source_reader_close_win tag r L' = L"
    by (cases "(p, mode)" L rule: ws.make_cases[of tag]) (simp_all add: ws.released)
qed

text \<open>So the Windows reader keeps the contract of a block source.\<close>

interpretation wsrc: block_source fsd_source_reader_read_at_win "source_content \<circ> posix_source" "source_ok \<circ> posix_source" "\<lambda>_. True"
proof -
  have sim: "fsd_source_reader_read_at off n (posix_source r) = (e, d, posix_source r')"
    if "fsd_source_reader_read_at_win off n r = (e, d, r')" for off n r e d r'
    using that read_at_win_simulates[of off n r] by simp
  have reliable: "reliable (posix_source r)" for r
    by (simp add: reliable_def posix_source_def empty_reader_def)
  show "block_source fsd_source_reader_read_at_win (source_content \<circ> posix_source) (source_ok \<circ> posix_source) (\<lambda>_. True)"
  proof (unfold_locales, goal_cases)
    case (1 r off n e d r')
    then show ?case using src.read_at_keeps[OF _ sim[OF 1(2)]] by simp
  next
    case (2 r off n d r')
    then show ?case using src.read_at_exact[OF _ sim[OF 2(2)]] by simp
  next
    case (3 r off n)
    then show ?case using src.read_at_errors[of "posix_source r" off n] read_at_win_simulates[of off n r] by (simp add: split_beta)
  next
    case (4 r off n)
    then show ?case
      using src.read_at_in_range[OF _ reliable, of r off n] read_at_win_simulates[of off n r] by (simp add: split_beta)
  qed
qed

section \<open>Whether an output may be removed\<close>

definition FILE_ATTRIBUTE_DIRECTORY :: "32 word" where "FILE_ATTRIBUTE_DIRECTORY = 0x10"
definition FILE_ATTRIBUTE_DEVICE :: "32 word" where "FILE_ATTRIBUTE_DEVICE = 0x40"
definition FILE_ATTRIBUTE_REPARSE_POINT :: "32 word" where "FILE_ATTRIBUTE_REPARSE_POINT = 0x400"

definition fsd_path_is_regular_or_missing_win :: "win_error + 32 word \<Rightarrow> bool" where
  "fsd_path_is_regular_or_missing_win attributes =
     (case attributes of
        Inl err \<Rightarrow> err = ERROR_FILE_NOT_FOUND \<or> err = ERROR_PATH_NOT_FOUND
      | Inr attrs \<Rightarrow>
          if attrs AND (FILE_ATTRIBUTE_DIRECTORY OR FILE_ATTRIBUTE_REPARSE_POINT OR FILE_ATTRIBUTE_DEVICE) \<noteq> 0 then False
          else True)"

text \<open>The kind of file the attributes stand for.\<close>

definition win_special :: "32 word \<Rightarrow> bool" where
  "win_special attrs \<longleftrightarrow> bit attrs 4 \<or> bit attrs 6 \<or> bit attrs 10"

lemma special_bits:
  "attrs AND (FILE_ATTRIBUTE_DIRECTORY OR FILE_ATTRIBUTE_REPARSE_POINT OR FILE_ATTRIBUTE_DEVICE) = 0 \<longleftrightarrow> \<not> win_special attrs"
proof -
  have power: "bit (2 ^ m :: 32 word) n \<longleftrightarrow> m < 32 \<and> n = m" for m n by (auto simp: bit_exp_iff)
  have "bit FILE_ATTRIBUTE_DIRECTORY n \<longleftrightarrow> n = 4" "bit FILE_ATTRIBUTE_DEVICE n \<longleftrightarrow> n = 6" "bit FILE_ATTRIBUTE_REPARSE_POINT n \<longleftrightarrow> n = 10" for n
    using power[of 4 n] power[of 6 n] power[of 10 n]
    by (simp_all add: FILE_ATTRIBUTE_DIRECTORY_def FILE_ATTRIBUTE_DEVICE_def FILE_ATTRIBUTE_REPARSE_POINT_def)
  then show ?thesis
    by (auto simp: bit_eq_iff[where 'a = "32 word"] bit_and_iff bit_or_iff win_special_def dest: spec[of _ 4] spec[of _ 6] spec[of _ 10])
qed

lemma regular_or_missing_win:
  "fsd_path_is_regular_or_missing_win a =
     fsd_path_is_regular_or_missing (case a of Inl e \<Rightarrow> Some (win_errno e) | Inr _ \<Rightarrow> None)
       (case a of Inl _ \<Rightarrow> S_IFOTHER | Inr attrs \<Rightarrow> if win_special attrs then S_IFOTHER else S_IFREG)"
  by (auto simp: fsd_path_is_regular_or_missing_win_def fsd_path_is_regular_or_missing_def win_errno_def special_bits
      split: sum.split win_error.split)

section \<open>Temporary files\<close>

definition MAX_PATH :: nat where "MAX_PATH = 260"

text \<open>
  What the system answers: the length and text of \<^verbatim>\<open>GetTempPathA\<close>, the name \<^verbatim>\<open>GetTempFileNameA\<close> creates (\<^verbatim>\<open>None\<close>: it
  failed), and whether the created file opens.
\<close>

record temp_env =
  te_len :: nat
  te_dir :: string
  te_name :: "string option"
  te_open :: bool

text \<open>\<^verbatim>\<open>DeleteFileA\<close> and \<^verbatim>\<open>_unlink\<close>.\<close>

definition win_delete :: "string \<Rightarrow> string list \<Rightarrow> string list" where
  "win_delete path files = removeAll path files"

text \<open>The result is whether there is a descriptor, the path written to the 256-byte buffer, and the files that exist.\<close>

definition fsd_create_temp_file_win :: "temp_env \<Rightarrow> string list \<Rightarrow> bool \<times> string \<times> string list" where
  "fsd_create_temp_file_win env files =
     (if te_len env = 0 \<or> MAX_PATH < te_len env then (False, [], files)
      else
        case te_name env of
          None \<Rightarrow> (False, [], files)
        | Some temp_path \<Rightarrow>
            let files = temp_path # files in
            if \<not> te_open env then (False, [], win_delete temp_path files)
            else (True, take 255 temp_path, files))"

text \<open>A failed creation leaves no file behind.\<close>

lemma temp_file_win_cases:
  assumes "\<And>n. te_name env = Some n \<Longrightarrow> n \<notin> set files" and "fsd_create_temp_file_win env files = (ok, path, files')"
  shows "\<not> ok \<and> files' = files \<or> ok \<and> (\<exists>n. te_name env = Some n \<and> path = take 255 n \<and> files' = n # files)"
  using assms by (auto simp: fsd_create_temp_file_win_def win_delete_def Let_def split: if_splits option.splits)

text \<open>A path of more than 255 characters comes back truncated, and removing it misses the file.\<close>

lemma long_temp_path_left_behind:
  assumes "te_name env = Some n" and "n \<notin> set files" and "255 < length n"
    and "fsd_create_temp_file_win env files = (True, path, files')"
  shows "n \<in> set (win_delete path files')"
  using temp_file_win_cases[of env files True path files'] assms by (auto simp: win_delete_def)

lemma short_temp_path_removed:
  assumes "te_name env = Some n" and "n \<notin> set files" and "length n \<le> 255"
    and "fsd_create_temp_file_win env files = (True, path, files')"
  shows "win_delete path files' = files"
  using temp_file_win_cases[of env files True path files'] assms by (simp add: win_delete_def)

section \<open>Paths in the temporary directory\<close>

definition fsd_get_temp_dir :: "string option" where
  "fsd_get_temp_dir = Some ''/tmp''"

text \<open>The backslash is the character 0x5C.\<close>

definition fsd_get_temp_dir_win :: "temp_env \<Rightarrow> string option" where
  "fsd_get_temp_dir_win env =
     (if te_len env = 0 \<or> 256 \<le> te_len env then None
      else
        let buf = te_dir env in
        if 0 < te_len env \<and> buf ! (te_len env - 1) = CHR 0x5C then Some (take (te_len env - 1) buf) else Some buf)"

text \<open>The four static buffers, the next one, and the directory.\<close>

record temp_path_state =
  tp_bufs :: "string list"
  tp_index :: nat
  tp_dir :: string
  tp_initialized :: bool

text \<open>The result is the index of the buffer; \<^verbatim>\<open>dir\<close> is what \<^verbatim>\<open>fsd_get_temp_dir\<close> answers.\<close>

definition fsd_temp_path :: "string option \<Rightarrow> string \<Rightarrow> temp_path_state \<Rightarrow> nat \<times> temp_path_state" where
  "fsd_temp_path dir filename s =
     (let s = (if \<not> tp_initialized s
               then s\<lparr>tp_dir := (case dir of Some d \<Rightarrow> d | None \<Rightarrow> ''.''), tp_initialized := True\<rparr> else s);
          buf = tp_index s;
          s = s\<lparr>tp_index := (tp_index s + 1) mod 4\<rparr>
      in (buf, s\<lparr>tp_bufs := (tp_bufs s)[buf := take 511 (tp_dir s @ ''/'' @ filename)]\<rparr>))"

fun temp_paths :: "string option \<Rightarrow> string list \<Rightarrow> temp_path_state \<Rightarrow> temp_path_state" where
  "temp_paths dir [] s = s"
| "temp_paths dir (f # fs) s = temp_paths dir fs (snd (fsd_temp_path dir f s))"

definition temp_state_ok :: "temp_path_state \<Rightarrow> bool" where
  "temp_state_ok s \<longleftrightarrow> length (tp_bufs s) = 4 \<and> tp_index s < 4"

lemma temp_path_step:
  assumes "temp_state_ok s" and "fsd_temp_path dir f s = (i, s')"
  shows "temp_state_ok s'" and "i = tp_index s" and "tp_index s' = (i + 1) mod 4" and "tp_initialized s'"
    and "tp_bufs s' = (tp_bufs s)[i := take 511 (tp_dir s' @ ''/'' @ f)]" and "tp_initialized s \<Longrightarrow> tp_dir s' = tp_dir s"
  using assms by (auto simp: fsd_temp_path_def temp_state_ok_def Let_def)

text \<open>\<^verbatim>\<open>k\<close> further calls write the \<^verbatim>\<open>k\<close> buffers from the next index on, cyclically.\<close>

lemma temp_paths_keep:
  assumes "temp_state_ok s" and "i < 4" and "\<And>k. k < length fs \<Longrightarrow> (tp_index s + k) mod 4 \<noteq> i"
  shows "tp_bufs (temp_paths dir fs s) ! i = tp_bufs s ! i"
  using assms
proof (induction fs arbitrary: s)
  case (Cons f fs)
  obtain b s' where s': "fsd_temp_path dir f s = (b, s')" by (rule prod.exhaust)
  note st = temp_path_step[OF Cons.prems(1) s']
  have "(tp_index s' + k) mod 4 \<noteq> i" if "k < length fs" for k
    using Cons.prems(3)[of "Suc k"] that st(2,3) by (simp add: mod_simps)
  moreover have "b \<noteq> i" using Cons.prems(1) Cons.prems(3)[of 0] st(2) by (simp add: temp_state_ok_def)
  ultimately show ?case using Cons.IH[OF st(1) Cons.prems(2)] s' st(5) by simp
qed simp

lemma temp_paths_state:
  assumes "temp_state_ok s" and "tp_initialized s"
  shows "temp_state_ok (temp_paths dir fs s) \<and> tp_initialized (temp_paths dir fs s) \<and> tp_dir (temp_paths dir fs s) = tp_dir s \<and>
    tp_index (temp_paths dir fs s) = (tp_index s + length fs) mod 4"
  using assms
proof (induction fs arbitrary: s)
  case Nil
  then show ?case by (simp add: temp_state_ok_def)
next
  case (Cons f fs)
  obtain b s' where s': "fsd_temp_path dir f s = (b, s')" by (rule prod.exhaust)
  note st = temp_path_step[OF Cons.prems(1) s']
  show ?case using Cons.IH[OF st(1,4)] s' st(2,3) st(6)[OF Cons.prems(2)] by (simp add: mod_simps)
qed

lemma temp_paths_snoc: "temp_paths dir (fs @ [g]) s = snd (fsd_temp_path dir g (temp_paths dir fs s))"
  by (induction fs arbitrary: s) simp_all

text \<open>
  The path \<^verbatim>\<open>fsd_temp_path\<close> returns is the directory, a slash and the name, cut to 511 characters; it stays
  intact during the next three calls, and the fourth overwrites it.
\<close>

theorem temp_path_lifetime:
  assumes "temp_state_ok s" and "tp_initialized s" and "fsd_temp_path dir f s = (i, s')"
  shows "tp_bufs s' ! i = take 511 (tp_dir s @ ''/'' @ f) \<and>
    (length fs \<le> 3 \<longrightarrow> tp_bufs (temp_paths dir fs s') ! i = tp_bufs s' ! i) \<and>
    (length fs = 3 \<longrightarrow> tp_bufs (temp_paths dir (fs @ [g]) s') ! i = take 511 (tp_dir s @ ''/'' @ g))"
proof -
  note st = temp_path_step[OF assms(1,3)]
  have i: "i < 4" using assms(1) st(2) by (simp add: temp_state_ok_def)
  have "((i + 1) mod 4 + k) mod 4 \<noteq> i" if "k < 3" for k using i that by presburger
  then have keep: "tp_bufs (temp_paths dir fs s') ! i = tp_bufs s' ! i" if "length fs \<le> 3"
    using temp_paths_keep[OF st(1) i, of fs dir] that st(3) by simp
  have "tp_bufs (temp_paths dir (fs @ [g]) s') ! i = take 511 (tp_dir s @ ''/'' @ g)" if len: "length fs = 3"
  proof -
    let ?t = "temp_paths dir fs s'"
    obtain j u where u: "fsd_temp_path dir g ?t = (j, u)" by (rule prod.exhaust)
    have t: "temp_state_ok ?t" "tp_initialized ?t" "tp_dir ?t = tp_dir s" "tp_index ?t = ((i + 1) mod 4 + 3) mod 4"
      using temp_paths_state[OF st(1,4), of dir fs] st(3) st(6)[OF assms(2)] len by simp_all
    note last = temp_path_step[OF t(1) u]
    have "j = i" using last(2) t(4) i by presburger
    then show ?thesis using last(5) last(6)[OF t(2)] t(1,3) i u by (simp add: temp_paths_snoc temp_state_ok_def)
  qed
  then show ?thesis using keep st(5) st(6)[OF assms(2)] i assms(1) by (simp add: temp_state_ok_def)
qed

theorem temp_path_lifetime_witness:
  "let s = \<lparr>tp_bufs = [[], [], [], []], tp_index = 3, tp_dir = ''/tmp'', tp_initialized = True\<rparr>;
       s' = snd (fsd_temp_path fsd_get_temp_dir ''a'' s)
   in tp_bufs (temp_paths fsd_get_temp_dir [''b'', ''c'', ''d''] s') ! 3 = ''/tmp/a'' \<and>
      tp_bufs (temp_paths fsd_get_temp_dir ([''b'', ''c'', ''d''] @ [''e'']) s') ! 3 = ''/tmp/e''"
proof -
  let ?s = "\<lparr>tp_bufs = [[], [], [], []], tp_index = 3, tp_dir = ''/tmp'', tp_initialized = True\<rparr> :: temp_path_state"
  obtain s' where s': "fsd_temp_path fsd_get_temp_dir ''a'' ?s = (3, s')" by (simp add: fsd_temp_path_def Let_def)
  show ?thesis
    using temp_path_lifetime[of ?s fsd_get_temp_dir "''a''" 3 s' "[''b'', ''c'', ''d'']" "''e''"] s'
    by (simp add: temp_state_ok_def Let_def)
qed

end
